(* ===== verification/Prelude.thy ===== *)
theory Prelude
  imports Main "HOL-Library.AList" "HOL-Library.Multiset" "HOL-Library.Word"
begin

text \<open>
  Shared ground of the development: the collections that carry the component proofs, the
  insertion-ordered JavaScript \<open>Map\<close> as an association list, \<open>Array.prototype.sort\<close> as a
  stable sort by a comparator (with the contract a comparator has to meet as a locale), and
  first-occurrence deduplication.
\<close>

named_theorems js_eval \<open>definitions a concrete evaluation unfolds\<close>
named_theorems map_simps \<open>lookups after updates of an insertion-ordered map\<close>

section \<open>Insertion-ordered maps\<close>

text \<open>
  A JavaScript \<open>Map\<close> iterates in insertion order; setting an existing key keeps its place.
  \<open>AList.update\<close> and \<open>AList.delete\<close> are exactly \<open>Map.set\<close> and \<open>Map.delete\<close>.
\<close>

type_synonym ('k, 'v) jsmap = "('k \<times> 'v) list"

definition mget :: "('k, 'v) jsmap \<Rightarrow> 'k \<Rightarrow> 'v option" where
  "mget m k = map_of m k"

definition mset_key :: "'k \<Rightarrow> 'v \<Rightarrow> ('k, 'v) jsmap \<Rightarrow> ('k, 'v) jsmap" where
  "mset_key k v m = AList.update k v m"

definition mdelete :: "'k \<Rightarrow> ('k, 'v) jsmap \<Rightarrow> ('k, 'v) jsmap" where
  "mdelete k m = AList.delete k m"

definition mkeys :: "('k, 'v) jsmap \<Rightarrow> 'k list" where
  "mkeys m = map fst m"

lemma mget_mset [map_simps]: "mget (mset_key k v m) k' = (if k' = k then Some v else mget m k')"
  by (simp add: mget_def mset_key_def update_conv)

lemma mget_mdelete [map_simps]: "mget (mdelete k m) k' = (if k' = k then None else mget m k')"
  by (simp add: mget_def mdelete_def delete_conv)

lemma mget_Nil [map_simps]: "mget [] k = None"
  by (simp add: mget_def)

lemma distinct_mset [simp]: "distinct (mkeys m) \<Longrightarrow> distinct (mkeys (mset_key k v m))"
  by (simp add: mkeys_def mset_key_def distinct_update)

lemma distinct_mdelete [simp]: "distinct (mkeys m) \<Longrightarrow> distinct (mkeys (mdelete k m))"
  by (simp add: mkeys_def mdelete_def distinct_delete)

lemma set_mkeys_mset [simp]: "set (mkeys (mset_key k v m)) = insert k (set (mkeys m))"
  by (simp add: mkeys_def mset_key_def dom_update)

lemma set_mkeys_mdelete [simp]: "set (mkeys (mdelete k m)) = set (mkeys m) - {k}"
  using delete_keys [of k m] by (simp add: mkeys_def mdelete_def)

lemma mget_in_mkeys: "mget m k \<noteq> None \<longleftrightarrow> k \<in> set (mkeys m)"
  by (simp add: mget_def mkeys_def map_of_eq_None_iff)

lemma mget_None_iff: "mget m k = None \<longleftrightarrow> k \<notin> set (mkeys m)"
  by (simp add: mget_def mkeys_def map_of_eq_None_iff)

lemma mget_mem: "distinct (mkeys m) \<Longrightarrow> (k, v) \<in> set m \<longleftrightarrow> mget m k = Some v"
  by (simp add: mget_def mkeys_def)

lemma set_mset_key_subset: "set (mset_key k v m) \<subseteq> insert (k, v) (set m)"
  by (induction m) (auto simp: mset_key_def)

lemma mset_key_fresh: "k \<notin> set (mkeys m) \<Longrightarrow> mset_key k v m = m @ [(k, v)]"
  by (induction m) (auto simp: mset_key_def mkeys_def)

lemma length_mset_key:
  "length (mset_key k v m) = (if k \<in> set (mkeys m) then length m else Suc (length m))"
  by (induction m) (auto simp: mset_key_def mkeys_def)

section \<open>Stable sorting by a comparator\<close>

text \<open>
  \<open>Array.prototype.sort\<close> is stable: the result is the ordered rearrangement that keeps the
  source order of elements the comparator calls equal. Inserting from the right does that.
  \<open>le x y\<close> stands for \<open>compare(x, y) <= 0\<close>.
\<close>

fun insert_by :: "('a \<Rightarrow> 'a \<Rightarrow> bool) \<Rightarrow> 'a \<Rightarrow> 'a list \<Rightarrow> 'a list" where
  "insert_by le x [] = [x]"
| "insert_by le x (y # ys) = (if le x y then x # y # ys else y # insert_by le x ys)"

fun sort_by :: "('a \<Rightarrow> 'a \<Rightarrow> bool) \<Rightarrow> 'a list \<Rightarrow> 'a list" where
  "sort_by le [] = []"
| "sort_by le (x # xs) = insert_by le x (sort_by le xs)"

lemma mset_insert_by [simp]: "mset (insert_by le x ys) = add_mset x (mset ys)"
  by (induction ys) auto

lemma mset_sort_by [simp]: "mset (sort_by le xs) = mset xs"
  by (induction xs) auto

lemma set_insert_by [simp]: "set (insert_by le x ys) = insert x (set ys)"
  using mset_insert_by [of le x ys] by (metis set_mset_add_mset_insert set_mset_mset)

lemma set_sort_by [simp]: "set (sort_by le xs) = set xs"
  using mset_sort_by [of le xs] by (metis set_mset_mset)

lemma length_sort_by [simp]: "length (sort_by le xs) = length xs"
  using mset_sort_by [of le xs] by (metis size_mset)

lemma distinct_sort_by [simp]: "distinct (sort_by le xs) = distinct xs"
  using mset_sort_by [of le xs] by (metis mset_eq_imp_distinct_iff)

lemma sort_by_singleton [simp]: "sort_by le [x] = [x]"
  by simp

lemma insert_by_map:
  "map f (insert_by (\<lambda>a b. le (f a) (f b)) x ys) = insert_by le (f x) (map f ys)"
  by (induction ys) auto

lemma sort_by_map: "map f (sort_by (\<lambda>a b. le (f a) (f b)) xs) = sort_by le (map f xs)"
  by (induction xs) (auto simp: insert_by_map)

locale comparator =
  fixes le :: "'a \<Rightarrow> 'a \<Rightarrow> bool"
  assumes total: "le x y \<or> le y x"
    and trans: "le x y \<Longrightarrow> le y z \<Longrightarrow> le x z"
begin

lemma refl: "le x x"
  using total by blast

lemma sorted_insert_by: "sorted_wrt le ys \<Longrightarrow> sorted_wrt le (insert_by le x ys)"
proof (induction ys)
  case Nil
  then show ?case by simp
next
  case (Cons y ys)
  show ?case
  proof (cases "le x y")
    case True
    with Cons.prems show ?thesis by (auto intro: trans)
  next
    case False
    then have "le y x" using total by blast
    with Cons False show ?thesis by auto
  qed
qed

lemma sorted_sort_by: "sorted_wrt le (sort_by le xs)"
  by (induction xs) (auto intro: sorted_insert_by)

lemma insert_by_front: "(\<And>y. y \<in> set ys \<Longrightarrow> le x y) \<Longrightarrow> insert_by le x ys = x # ys"
  by (cases ys) auto

lemma sort_by_sorted: "sorted_wrt le xs \<Longrightarrow> sort_by le xs = xs"
  by (induction xs) (auto intro: insert_by_front)

lemma sort_by_idem: "sort_by le (sort_by le xs) = sort_by le xs"
  by (rule sort_by_sorted [OF sorted_sort_by])

text \<open>Elements the comparator calls equal keep the order they had.\<close>

lemma insert_by_filter:
  "filter (\<lambda>y. le y z \<and> le z y) (insert_by le x ys) =
     filter (\<lambda>y. le y z \<and> le z y) (x # ys)" if "sorted_wrt le ys"
  using that
proof (induction ys)
  case Nil
  then show ?case by simp
next
  case (Cons y ys)
  then show ?case
    by (auto dest: trans)
qed

lemma sort_by_stable:
  "filter (\<lambda>y. le y z \<and> le z y) (sort_by le xs) = filter (\<lambda>y. le y z \<and> le z y) xs"
  by (induction xs) (auto simp: insert_by_filter sorted_sort_by)


text \<open>
  The sorted arrangement depends on the multiset of elements only, as soon as distinct
  elements of the list never compare as equal.
\<close>

lemma sorted_unique_on:
  "sorted_wrt le xs \<Longrightarrow> sorted_wrt le ys \<Longrightarrow> mset xs = mset ys \<Longrightarrow>
    (\<And>x y. x \<in> set xs \<Longrightarrow> y \<in> set xs \<Longrightarrow> le x y \<Longrightarrow> le y x \<Longrightarrow> x = y) \<Longrightarrow> xs = ys"
proof (induction xs arbitrary: ys)
  case Nil
  then show ?case by simp
next
  case (Cons x xs)
  then obtain y ys' where ys: "ys = y # ys'"
    by (cases ys) auto
  have mem: "x \<in> set ys" "y \<in> set (x # xs)"
    using Cons.prems(3) ys by (metis list.set_intros(1) set_mset_mset)+
  with Cons.prems(1,2) ys have "le y x" "le x y"
    using refl by auto
  then have "x = y" using Cons.prems(4) [of x y] mem by simp
  with Cons ys show ?case by simp
qed

lemma sort_by_mset_on:
  "mset xs = mset ys \<Longrightarrow>
    (\<And>x y. x \<in> set xs \<Longrightarrow> y \<in> set xs \<Longrightarrow> le x y \<Longrightarrow> le y x \<Longrightarrow> x = y) \<Longrightarrow>
    sort_by le xs = sort_by le ys"
  by (rule sorted_unique_on) (simp_all add: sorted_sort_by)

end

text \<open>
  Where only equal elements compare as equal, the sorted arrangement is determined by the
  multiset of elements: the order the input came in does not matter.
\<close>

locale strict_comparator = comparator +
  assumes antisym: "le x y \<Longrightarrow> le y x \<Longrightarrow> x = y"
begin

lemma sorted_unique:
  "sorted_wrt le xs \<Longrightarrow> sorted_wrt le ys \<Longrightarrow> mset xs = mset ys \<Longrightarrow> xs = ys"
  by (rule sorted_unique_on) (auto intro: antisym)

lemma sort_by_mset: "mset xs = mset ys \<Longrightarrow> sort_by le xs = sort_by le ys"
  by (rule sorted_unique) (simp_all add: sorted_sort_by)

end

section \<open>First-occurrence deduplication\<close>

text \<open>
  The loop \<open>if (seen.has(key)) continue; seen.add(key); out.push(m)\<close>, with the keys seen so
  far in front.
\<close>

fun dedupe_from :: "('a \<Rightarrow> 'k) \<Rightarrow> 'k list \<Rightarrow> 'a list \<Rightarrow> 'a list" where
  "dedupe_from key seen [] = []"
| "dedupe_from key seen (m # ms) =
     (if key m \<in> set seen then dedupe_from key seen ms
      else m # dedupe_from key (key m # seen) ms)"

lemma dedupe_from_keys:
  "set (map key (dedupe_from key seen ms)) = set (map key ms) - set seen"
  by (induction ms arbitrary: seen) auto

lemma dedupe_from_subset: "set (dedupe_from key seen ms) \<subseteq> set ms"
proof (induction ms arbitrary: seen)
  case Nil
  then show ?case by simp
next
  case (Cons m ms)
  then show ?case using Cons.IH [of seen] Cons.IH [of "key m # seen"] by auto
qed

lemma dedupe_from_distinct: "distinct (map key (dedupe_from key seen ms))"
proof (induction ms arbitrary: seen)
  case Nil
  then show ?case by simp
next
  case (Cons m ms)
  have "key m \<notin> set (map key (dedupe_from key (key m # seen) ms))"
    by (simp only: dedupe_from_keys) simp
  with Cons show ?case by auto
qed

lemma dedupe_from_id:
  "distinct (map key ms) \<Longrightarrow> set (map key ms) \<inter> set seen = {} \<Longrightarrow> dedupe_from key seen ms = ms"
  by (induction ms arbitrary: seen) auto

lemma dedupe_from_sorted: "sorted_wrt P ms \<Longrightarrow> sorted_wrt P (dedupe_from key seen ms)"
proof (induction ms arbitrary: seen)
  case Nil
  then show ?case by simp
next
  case (Cons m ms)
  then show ?case using dedupe_from_subset [of key "key m # seen" ms] by auto
qed

section \<open>Results that may throw\<close>

text \<open>A throwing computation: \<open>Inl\<close> the error, \<open>Inr\<close> the value; \<open>bindE\<close> is \<open>await\<close>/sequencing.\<close>

definition bindE :: "'e + 'a \<Rightarrow> ('a \<Rightarrow> 'e + 'b) \<Rightarrow> 'e + 'b" where
  "bindE r f = (case r of Inl e \<Rightarrow> Inl e | Inr a \<Rightarrow> f a)"

lemma bindE_simps [simp]: "bindE (Inl e) f = Inl e" "bindE (Inr a) f = f a"
  by (simp_all add: bindE_def)

lemma bindE_Inr: "bindE r f = Inr b \<longleftrightarrow> (\<exists>a. r = Inr a \<and> f a = Inr b)"
  by (cases r) auto

section \<open>Lists\<close>

lemma list_all2_unique:
  "list_all2 P xs ys \<Longrightarrow> (\<And>x y. x \<in> set xs \<Longrightarrow> P x y \<Longrightarrow> f x = g y) \<Longrightarrow> map f xs = map g ys"
  by (induction rule: list_all2_induct) auto

lemma takeWhile_dropWhile_rest: "(\<And>x. x \<in> set xs \<Longrightarrow> P x) \<Longrightarrow> (\<And>y ys'. ys = y # ys' \<Longrightarrow> \<not> P y) \<Longrightarrow>
    takeWhile P (xs @ ys) = xs \<and> dropWhile P (xs @ ys) = ys"
  by (induction xs) (cases ys, auto)+

lemma sum_list_cong_le: "(\<And>x. x \<in> set xs \<Longrightarrow> f x \<le> (g x :: nat)) \<Longrightarrow> sum_list (map f xs) \<le> sum_list (map g xs)"
  by (induction xs) (auto intro: add_mono)

end
