(* ===== verification/Strings.thy ===== *)
theory Strings
  imports Prelude "HOL-Library.List_Lexorder"
begin

text \<open>
  JavaScript strings: sequences of 16-bit code units, compared code unit by code unit
  (\<open>List_Lexorder\<close> on words). Literals are written \<open>js ''abc''\<close>, single code units
  \<open>ch CHR ''a''\<close>. The string functions of the language the program uses are defined here:
  \<open>trim\<close>, \<open>split\<close>, \<open>join\<close>, \<open>startsWith\<close>, decimal and hexadecimal printing and reading.
\<close>

type_synonym cu = "16 word"
type_synonym jstr = "cu list"

abbreviation ch :: "char \<Rightarrow> cu" where
  "ch \<equiv> of_char"

definition js :: "string \<Rightarrow> jstr" where
  "js s = map ch s"

declare js_def [js_eval]

lemma unat_ch: "unat (ch c) = of_char c"
proof -
  have "(of_char c :: nat) < 2 ^ 16"
    using nat_of_char_less_256 [of c] by (rule order_less_le_trans) simp
  moreover have "unat (ch c) = unat (of_nat (of_char c) :: cu)" by (simp only: of_nat_of_char)
  ultimately show ?thesis by (simp only: unat_of_nat) simp
qed

lemma ch_eq_iff [simp]: "ch a = ch b \<longleftrightarrow> a = b"
  by (metis of_char_eq_iff unat_ch)

lemma js_eq_iff [simp]: "js s = js t \<longleftrightarrow> s = t"
proof -
  have "inj ch" by (simp add: inj_def)
  then show ?thesis by (simp add: js_def inj_map_eq_map)
qed

lemma js_append: "js s @ js t = js (s @ t)"
  by (simp add: js_def)

lemma length_js [simp]: "length (js s) = length s"
  by (simp add: js_def)

lemma js_Nil [simp]: "js [] = []" "js s = [] \<longleftrightarrow> s = []"
  by (simp_all add: js_def)

section \<open>Searching, trimming, splitting, joining\<close>

definition starts_with :: "jstr \<Rightarrow> jstr \<Rightarrow> bool" where
  "starts_with p s \<longleftrightarrow> take (length p) s = p"

lemma starts_with_append [simp]: "starts_with p (p @ s)"
  by (simp add: starts_with_def)

lemma starts_withE: "starts_with p s \<Longrightarrow> (\<And>r. s = p @ r \<Longrightarrow> P) \<Longrightarrow> P"
  unfolding starts_with_def by (metis append_take_drop_id)

text \<open>The code units \<open>String.prototype.trim\<close> removes: white space and line terminators.\<close>

definition js_space :: "cu \<Rightarrow> bool" where
  "js_space c \<longleftrightarrow> (9 \<le> c \<and> c \<le> 13) \<or> c = 32 \<or> c = 0xA0 \<or> c = 0x1680 \<or> (0x2000 \<le> c \<and> c \<le> 0x200A)
     \<or> c = 0x2028 \<or> c = 0x2029 \<or> c = 0x202F \<or> c = 0x205F \<or> c = 0x3000 \<or> c = 0xFEFF"

definition trim_start :: "jstr \<Rightarrow> jstr" where
  "trim_start s = dropWhile js_space s"

definition trim_end :: "jstr \<Rightarrow> jstr" where
  "trim_end s = rev (dropWhile js_space (rev s))"

definition trim :: "jstr \<Rightarrow> jstr" where
  "trim s = trim_end (trim_start s)"

lemma trim_end_id: "s \<noteq> [] \<Longrightarrow> \<not> js_space (last s) \<Longrightarrow> trim_end s = s"
  by (cases "rev s") (auto simp: trim_end_def last_rev rev_swap)

lemma trim_id: "s \<noteq> [] \<Longrightarrow> \<not> js_space (hd s) \<Longrightarrow> \<not> js_space (last s) \<Longrightarrow> trim s = s"
  by (cases s) (auto simp: trim_def trim_start_def trim_end_id)

fun split_on :: "'a \<Rightarrow> 'a list \<Rightarrow> 'a list list" where
  "split_on c [] = [[]]"
| "split_on c (x # xs) =
     (if x = c then [] # split_on c xs
      else (x # hd (split_on c xs)) # tl (split_on c xs))"

fun join :: "'a list \<Rightarrow> 'a list list \<Rightarrow> 'a list" where
  "join sep [] = []"
| "join sep [x] = x"
| "join sep (x # y # ys) = x @ sep @ join sep (y # ys)"

lemma split_on_nonempty [simp]: "split_on c s \<noteq> []"
  by (induction s) auto

lemma split_on_parts: "x \<in> set (split_on c s) \<Longrightarrow> c \<notin> set x"
proof (induction s arbitrary: x)
  case Nil
  then show ?case by simp
next
  case (Cons a s)
  have "hd (split_on c s) \<in> set (split_on c s)" by simp
  moreover have "set (tl (split_on c s)) \<subseteq> set (split_on c s)"
    by (cases "split_on c s") auto
  ultimately show ?case using Cons by (auto split: if_splits)
qed

lemma join_Cons: "xs \<noteq> [] \<Longrightarrow> join sep (x # xs) = x @ sep @ join sep xs"
  by (cases xs) auto

lemma join_split [simp]: "join [c] (split_on c s) = s"
proof (induction s)
  case Nil
  then show ?case by simp
next
  case (Cons a s)
  show ?case
  proof (cases "a = c")
    case True
    with Cons show ?thesis by (simp add: join_Cons)
  next
    case False
    have "split_on c s = hd (split_on c s) # tl (split_on c s)" by simp
    then have "join [c] ((a # hd (split_on c s)) # tl (split_on c s)) = a # join [c] (split_on c s)"
      by (metis append_Cons join.simps(2) join_Cons)
    with Cons False show ?thesis by simp
  qed
qed

lemma split_on_append: "c \<notin> set x \<Longrightarrow> split_on c (x @ c # s) = x # split_on c s"
  by (induction x) auto

lemma split_on_none: "c \<notin> set x \<Longrightarrow> split_on c x = [x]"
  by (induction x) auto

lemma split_join: "xs \<noteq> [] \<Longrightarrow> (\<And>x. x \<in> set xs \<Longrightarrow> c \<notin> set x) \<Longrightarrow> split_on c (join [c] xs) = xs"
proof (induction xs)
  case Nil
  then show ?case by simp
next
  case (Cons x xs)
  then show ?case
    by (cases "xs = []") (auto simp: split_on_none split_on_append join_Cons)
qed

lemma split_on_append_gen:
  "split_on c (s @ t) = butlast (split_on c s) @ [last (split_on c s) @ hd (split_on c t)] @ tl (split_on c t)"
proof (induction s)
  case Nil
  then show ?case by simp
next
  case (Cons a s)
  show ?case
  proof (cases "a = c")
    case True
    with Cons show ?thesis by simp
  next
    case False
    obtain p ps where ps: "split_on c s = p # ps" by (cases "split_on c s") auto
    obtain q qs where qs: "split_on c t = q # qs" by (cases "split_on c t") auto
    from Cons ps qs False show ?thesis by (cases ps) auto
  qed
qed

section \<open>Digits and numerals\<close>

definition is_digit :: "cu \<Rightarrow> bool" where
  "is_digit c \<longleftrightarrow> 48 \<le> c \<and> c \<le> 57"

definition digit_val :: "cu \<Rightarrow> nat" where
  "digit_val c = unat c - 48"

definition digit_cu :: "nat \<Rightarrow> cu" where
  "digit_cu d = of_nat (48 + d)"

lemma is_digit_unat: "is_digit c \<longleftrightarrow> 48 \<le> unat c \<and> unat c \<le> 57"
  by (simp add: is_digit_def word_le_nat_alt)

lemma unat_digit_cu: "d < 10 \<Longrightarrow> unat (digit_cu d) = 48 + d"
  by (simp add: digit_cu_def unat_of_nat del: of_nat_add)

lemma is_digit_cu [simp]: "d < 10 \<Longrightarrow> is_digit (digit_cu d)"
  by (simp add: is_digit_unat unat_digit_cu)

lemma digit_val_cu [simp]: "d < 10 \<Longrightarrow> digit_val (digit_cu d) = d"
  by (simp add: digit_val_def unat_digit_cu)

lemma digit_val_less: "is_digit c \<Longrightarrow> digit_val c < 10"
  unfolding is_digit_unat digit_val_def by arith

lemma digit_cu_val: "is_digit c \<Longrightarrow> digit_cu (digit_val c) = c"
  by (rule word_unat_eq_iff [THEN iffD2])
     (auto simp: is_digit_unat digit_val_def digit_cu_def unat_of_nat simp del: of_nat_add)

text \<open>The value of a digit string, and \<open>String(n)\<close> for a non-negative integer \<open>n\<close>.\<close>

definition dec_value :: "jstr \<Rightarrow> nat" where
  "dec_value s = foldl (\<lambda>a c. 10 * a + digit_val c) 0 s"

fun dec :: "nat \<Rightarrow> jstr" where
  "dec n = (if n < 10 then [digit_cu n] else dec (n div 10) @ [digit_cu (n mod 10)])"

declare dec.simps [simp del]
declare dec.simps [js_eval]

definition dec_int :: "int \<Rightarrow> jstr" where
  "dec_int i = (if i < 0 then ch CHR ''-'' # dec (nat (- i)) else dec (nat i))"

lemma dec_value_Nil [simp]: "dec_value [] = 0"
  by (simp add: dec_value_def)

lemma dec_value_snoc [simp]: "dec_value (s @ [c]) = 10 * dec_value s + digit_val c"
  by (simp add: dec_value_def)

lemma dec_nonempty [simp]: "dec n \<noteq> []"
  by (subst dec.simps) simp

lemma dec_digits: "c \<in> set (dec n) \<Longrightarrow> is_digit c"
proof (induction n rule: dec.induct)
  case (1 n)
  then show ?case by (subst (asm) dec.simps) (auto split: if_splits)
qed

lemma dec_value_dec [simp]: "dec_value (dec n) = n"
proof (induction n rule: dec.induct)
  case (1 n)
  then show ?case
    by (subst dec.simps) (use dec_value_snoc [of "[]"] in auto)
qed

lemma dec_inj [simp]: "dec m = dec n \<longleftrightarrow> m = n"
  by (metis dec_value_dec)

lemma dec_hd: "n > 0 \<Longrightarrow> hd (dec n) \<noteq> 48"
proof (induction n rule: dec.induct)
  case (1 n)
  show ?case
  proof (cases "n < 10")
    case True
    with 1 have "unat (digit_cu n) \<noteq> 48" by (simp add: unat_digit_cu)
    then have "digit_cu n \<noteq> 48" by auto
    with True show ?thesis by (subst dec.simps) simp
  next
    case False
    with 1 show ?thesis by (subst dec.simps) (auto simp: div_greater_zero_iff)
  qed
qed

lemma dec_value_append: "dec_value (s @ t) = dec_value s * 10 ^ length t + dec_value t"
proof (induction t rule: rev_induct)
  case Nil
  then show ?case by simp
next
  case (snoc c t)
  have "dec_value (s @ t @ [c]) = 10 * dec_value (s @ t) + digit_val c"
    by (metis append.assoc dec_value_snoc)
  with snoc show ?case by (simp add: algebra_simps)
qed

lemma dec_value_less: "(\<And>c. c \<in> set s \<Longrightarrow> is_digit c) \<Longrightarrow> dec_value s < 10 ^ length s"
proof (induction s rule: rev_induct)
  case Nil
  then show ?case by simp
next
  case (snoc c s)
  then have "dec_value s < 10 ^ length s" and "digit_val c < 10"
    by (auto simp: digit_val_less)
  then show ?case by simp
qed

lemma dec_value_zeros [simp]: "dec_value (replicate n 48) = 0"
  by (induction n) (simp_all add: dec_value_def digit_val_def foldl_conv_fold
        flip: replicate_append_same)

lemma is_digit_0 [simp]: "is_digit 48"
  by (simp add: is_digit_def)

lemma digit_val_0 [simp]: "digit_val 48 = 0"
  by (simp add: digit_val_def)

section \<open>Hexadecimal\<close>

definition hex_cu :: "nat \<Rightarrow> cu" where
  "hex_cu d = of_nat (if d < 10 then 48 + d else 87 + d)"

definition is_hex :: "cu \<Rightarrow> bool" where
  "is_hex c \<longleftrightarrow> (48 \<le> c \<and> c \<le> 57) \<or> (65 \<le> c \<and> c \<le> 70) \<or> (97 \<le> c \<and> c \<le> 102)"

definition hex_val :: "cu \<Rightarrow> nat" where
  "hex_val c = (if c \<le> 57 then unat c - 48 else if c \<le> 70 then unat c - 55 else unat c - 87)"

lemma unat_hex_cu: "d < 16 \<Longrightarrow> unat (hex_cu d) = (if d < 10 then 48 + d else 87 + d)"
  by (simp add: hex_cu_def unat_of_nat del: of_nat_add)

lemma is_hex_cu [simp]: "d < 16 \<Longrightarrow> is_hex (hex_cu d)"
  by (auto simp: is_hex_def word_le_nat_alt unat_hex_cu)

lemma hex_val_cu [simp]: "d < 16 \<Longrightarrow> hex_val (hex_cu d) = d"
  by (auto simp: hex_val_def word_le_nat_alt unat_hex_cu)

text \<open>\<open>n.toString(16).padStart(w, "0")\<close> for \<open>n < 16 ^ w\<close>: exactly \<open>w\<close> lower-case digits.\<close>

fun hex_pad :: "nat \<Rightarrow> nat \<Rightarrow> jstr" where
  "hex_pad 0 n = []"
| "hex_pad (Suc w) n = hex_pad w (n div 16) @ [hex_cu (n mod 16)]"

definition hex_value :: "jstr \<Rightarrow> nat" where
  "hex_value s = foldl (\<lambda>a c. 16 * a + hex_val c) 0 s"

lemma length_hex_pad [simp]: "length (hex_pad w n) = w"
  by (induction w arbitrary: n) auto

lemma hex_pad_is_hex: "c \<in> set (hex_pad w n) \<Longrightarrow> is_hex c"
  by (induction w arbitrary: n) auto

lemma hex_value_pad: "n < 16 ^ w \<Longrightarrow> hex_value (hex_pad w n) = n"
proof (induction w arbitrary: n)
  case 0
  then show ?case by (simp add: hex_value_def)
next
  case (Suc w)
  then have "n div 16 < 16 ^ w" by (simp add: less_mult_imp_div_less)
  with Suc.IH [of "n div 16"] show ?case by (simp add: hex_value_def)
qed

section \<open>Code-unit order\<close>

interpretation code_unit_order: strict_comparator "(\<le>) :: jstr \<Rightarrow> jstr \<Rightarrow> bool"
  by unfold_locales auto

text \<open>The default \<open>sort()\<close> of strings is the sort by code units.\<close>

definition js_sort :: "jstr list \<Rightarrow> jstr list" where
  "js_sort xs = sort_by (\<le>) xs"

lemma js_sort_sorted: "sorted (js_sort xs)"
  using code_unit_order.sorted_sort_by by (simp add: js_sort_def)

lemma js_sort_mset: "mset xs = mset ys \<Longrightarrow> js_sort xs = js_sort ys"
  unfolding js_sort_def by (rule code_unit_order.sort_by_mset)

lemma js_sort_simps [simp]:
  "set (js_sort xs) = set xs" "distinct (js_sort xs) = distinct xs" "mset (js_sort xs) = mset xs"
  "length (js_sort xs) = length xs"
  by (simp_all add: js_sort_def)

end
