(* ===== verification/TextDiff.thy ===== *)
theory TextDiff
  imports Strings
begin

text \<open>
  The line diff of the compare page (\<open>frontend/src/lib/text-diff.ts\<close>): Myers' greedy search with
  one snapshot of the frontier per step, the backtrack through the snapshots, and the grouping
  into visible hunks. Positions and diagonals are integers as in the source. The frontier
  \<open>Int32Array\<close> is a function on diagonals, zero at the start; the source shifts a diagonal by
  \<open>offset\<close> to an index and allocates \<open>2 * max + 3\<close> cells, so every diagonal from
  \<open>- max - 1\<close> to \<open>max + 1\<close> the loops touch has one.
\<close>

datatype op_type = Equal | Delete | Insert

record 'l diff_op =
  op_type :: op_type
  op_line :: 'l
  op_a :: "int option"
  op_b :: "int option"

definition equal_op :: "'l \<Rightarrow> int \<Rightarrow> int \<Rightarrow> 'l diff_op" where
  "equal_op l i j = \<lparr>op_type = Equal, op_line = l, op_a = Some i, op_b = Some j\<rparr>"

definition delete_op :: "'l \<Rightarrow> int \<Rightarrow> 'l diff_op" where
  "delete_op l i = \<lparr>op_type = Delete, op_line = l, op_a = Some i, op_b = None\<rparr>"

definition insert_op :: "'l \<Rightarrow> int \<Rightarrow> 'l diff_op" where
  "insert_op l j = \<lparr>op_type = Insert, op_line = l, op_a = None, op_b = Some j\<rparr>"

definition max_diff_edits :: nat where
  "max_diff_edits = 2000"

definition split_lines :: "jstr \<Rightarrow> jstr list" where
  "split_lines text = split_on 10 text"

section \<open>The greedy search\<close>

type_synonym frontier = "int \<Rightarrow> int"

text \<open>The inner \<open>while\<close>: along the diagonal as long as the lines agree.\<close>

function slide :: "'l list \<Rightarrow> 'l list \<Rightarrow> int \<Rightarrow> int \<Rightarrow> int \<times> int" where
  "slide a b x y =
     (if x < int (length a) \<and> y < int (length b) \<and> a ! nat x = b ! nat y
      then slide a b (x + 1) (y + 1) else (x, y))"
  by pat_completeness auto

termination slide
  by (relation "measure (\<lambda>(a, b, x, y). nat (int (length a) - x))") auto

declare slide.simps [simp del]

definition goes_down :: "nat \<Rightarrow> frontier \<Rightarrow> int \<Rightarrow> bool" where
  "goes_down d v k \<longleftrightarrow> k = - int d \<or> (k \<noteq> int d \<and> v (k - 1) < v (k + 1))"

definition start_x :: "nat \<Rightarrow> frontier \<Rightarrow> int \<Rightarrow> int" where
  "start_x d v k = (if goes_down d v k then v (k + 1) else v (k - 1) + 1)"

text \<open>The loop over the diagonals of one step; the flag says whether the end was reached.\<close>

fun step :: "'l list \<Rightarrow> 'l list \<Rightarrow> nat \<Rightarrow> frontier \<Rightarrow> int list \<Rightarrow> frontier \<times> bool" where
  "step a b d v [] = (v, False)"
| "step a b d v (k # ks) =
     (let x0 = start_x d v k; (x, y) = slide a b x0 (x0 - k); v' = v(k := x)
      in if x \<ge> int (length a) \<and> y \<ge> int (length b) then (v', True) else step a b d v' ks)"

definition diagonals :: "nat \<Rightarrow> int list" where
  "diagonals d = map (\<lambda>i. 2 * int i - int d) [0..<Suc d]"

text \<open>The copy of the diagonals \<open>- d - 1 .. d + 1\<close>, the only ones a snapshot is read at.\<close>

definition snapshot :: "nat \<Rightarrow> frontier \<Rightarrow> frontier" where
  "snapshot d v k = (if \<bar>k\<bar> \<le> int d + 1 then v k else 0)"

function search :: "'l list \<Rightarrow> 'l list \<Rightarrow> nat \<Rightarrow> nat \<Rightarrow> frontier \<Rightarrow> frontier list \<Rightarrow> (nat \<times> frontier list) option" where
  "search a b mx d v trace =
     (if d > mx then None
      else let trace' = trace @ [snapshot d v]; (v', found) = step a b d v (diagonals d)
        in if found then Some (d, trace') else search a b mx (Suc d) v' trace')"
  by pat_completeness auto

termination search
  by (relation "measure (\<lambda>(a, b, mx, d, v, trace). Suc mx - d)") auto

declare search.simps [simp del]

section \<open>The backtrack\<close>

text \<open>
  The operations are pushed from the end of the texts to the front and reversed at last; the
  model conses them onto what lies behind.
\<close>

function unslide :: "'l list \<Rightarrow> int \<Rightarrow> int \<Rightarrow> int \<Rightarrow> int \<Rightarrow> 'l diff_op list \<Rightarrow> int \<times> int \<times> 'l diff_op list" where
  "unslide a px py x y ops =
     (if x > px \<and> y > py then unslide a px py (x - 1) (y - 1) (equal_op (a ! nat (x - 1)) x y # ops)
      else (x, y, ops))"
  by pat_completeness auto

termination unslide
  by (relation "measure (\<lambda>(a, px, py, x, y, ops). nat (x - px))") auto

declare unslide.simps [simp del]

fun backtrack :: "'l list \<Rightarrow> 'l list \<Rightarrow> frontier list \<Rightarrow> nat \<Rightarrow> int \<Rightarrow> int \<Rightarrow> 'l diff_op list \<Rightarrow> 'l diff_op list" where
  "backtrack a b trace 0 x y ops = (let (_, _, ops') = unslide a 0 0 x y ops in ops')"
| "backtrack a b trace (Suc d) x y ops =
     (let snap = trace ! Suc d; k = x - y;
          pk = (if goes_down (Suc d) snap k then k + 1 else k - 1);
          px = snap pk; py = px - pk;
          (x', y', ops') = unslide a px py x y ops;
          op = (if x' = px then insert_op (b ! nat (y' - 1)) y' else delete_op (a ! nat (x' - 1)) x')
      in backtrack a b trace d px py (op # ops'))"

definition myers :: "'l list \<Rightarrow> 'l list \<Rightarrow> nat \<Rightarrow> 'l diff_op list option" where
  "myers a b max_edits =
     (if a = [] \<and> b = [] then Some []
      else case search a b (min (length a + length b) max_edits) 0 (\<lambda>_. 0) [] of
        None \<Rightarrow> None
      | Some (found, trace) \<Rightarrow> Some (backtrack a b trace found (int (length a)) (int (length b)) []))"

section \<open>The diff of two texts\<close>

fun common_prefix :: "'l list \<Rightarrow> 'l list \<Rightarrow> nat" where
  "common_prefix (x # xs) (y # ys) = (if x = y then Suc (common_prefix xs ys) else 0)"
| "common_prefix _ _ = 0"

text \<open>The two ends move down together as long as the lines before them agree.\<close>

fun common_ends :: "'l list \<Rightarrow> 'l list \<Rightarrow> nat \<Rightarrow> nat \<Rightarrow> nat \<Rightarrow> nat \<times> nat" where
  "common_ends al bl start (Suc ea) (Suc eb) =
     (if Suc ea > start \<and> Suc eb > start \<and> al ! ea = bl ! eb then common_ends al bl start ea eb
      else (Suc ea, Suc eb))"
| "common_ends al bl start ea eb = (ea, eb)"

definition shift_op :: "nat \<Rightarrow> 'l diff_op \<Rightarrow> 'l diff_op" where
  "shift_op n p = \<lparr>op_type = op_type p, op_line = op_line p,
     op_a = map_option (\<lambda>i. i + int n) (op_a p), op_b = map_option (\<lambda>j. j + int n) (op_b p)\<rparr>"

definition diff_list :: "'l list \<Rightarrow> 'l list \<Rightarrow> nat \<Rightarrow> 'l diff_op list option" where
  "diff_list al bl max_edits =
     (let start = common_prefix al bl;
          (end_a, end_b) = common_ends al bl start (length al) (length bl)
      in case myers (drop start (take end_a al)) (drop start (take end_b bl)) max_edits of
           None \<Rightarrow> None
         | Some middle \<Rightarrow> Some (
             map (\<lambda>i. equal_op (al ! i) (int i + 1) (int i + 1)) [0..<start]
             @ map (shift_op start) middle
             @ map (\<lambda>t. equal_op (al ! (end_a + t)) (int (end_a + t) + 1) (int (end_b + t) + 1))
                 [0..<length al - end_a]))"

definition diff_lines :: "jstr \<Rightarrow> jstr \<Rightarrow> nat \<Rightarrow> jstr diff_op list option" where
  "diff_lines a b max_edits = diff_list (split_lines a) (split_lines b) max_edits"

section \<open>Hunks\<close>

datatype 'l segment = Lines "'l diff_op list" | Skip "'l diff_op list"

fun seg_ops :: "'l segment \<Rightarrow> 'l diff_op list" where
  "seg_ops (Lines ops) = ops"
| "seg_ops (Skip ops) = ops"

definition push_lines :: "'l segment list \<Rightarrow> 'l diff_op list \<Rightarrow> 'l segment list" where
  "push_lines segments ops =
     (if segments = [] then [Lines ops]
      else case last segments of
        Lines l \<Rightarrow> butlast segments @ [Lines (l @ ops)]
      | Skip _ \<Rightarrow> segments @ [Lines ops])"

definition changed :: "'l diff_op \<Rightarrow> bool" where
  "changed p \<longleftrightarrow> op_type p \<noteq> Equal"

text \<open>One run of unchanged lines: \<open>is_first\<close> and \<open>is_last\<close> as in the source.\<close>

definition push_run :: "nat \<Rightarrow> bool \<Rightarrow> bool \<Rightarrow> 'l segment list \<Rightarrow> 'l diff_op list \<Rightarrow> 'l segment list" where
  "push_run ctx is_first is_last segments run =
     (let keep_before = (if is_first then 0 else ctx); keep_after = (if is_last then 0 else ctx)
      in if length run \<le> keep_before + keep_after + 1 then push_lines segments run
         else let s1 = (if keep_before > 0 then push_lines segments (take keep_before run) else segments);
                  s2 = s1 @ [Skip (drop keep_before (take (length run - keep_after) run))]
              in if keep_after > 0 then push_lines s2 (drop (length run - keep_after) run) else s2)"

text \<open>The loop over the operations that are left; \<open>first\<close> says that none was consumed.\<close>

function segments_from :: "nat \<Rightarrow> bool \<Rightarrow> 'l segment list \<Rightarrow> 'l diff_op list \<Rightarrow> 'l segment list" where
  "segments_from ctx first segments ops =
     (if ops = [] then segments
      else if changed (hd ops)
        then segments_from ctx False (push_lines segments (takeWhile changed ops)) (dropWhile changed ops)
      else let run = takeWhile (\<lambda>p. \<not> changed p) ops; rest = dropWhile (\<lambda>p. \<not> changed p) ops
        in segments_from ctx False (push_run ctx first (rest = []) segments run) rest)"
  by pat_completeness auto

lemma dropWhile_hd_less: "xs \<noteq> [] \<Longrightarrow> P (hd xs) \<Longrightarrow> length (dropWhile P xs) < length xs"
  using length_dropWhile_le [of P "tl xs"] by (cases xs) auto

termination segments_from
  by (relation "measure (\<lambda>(ctx, first, segments, ops). length ops)") (auto intro: dropWhile_hd_less)

declare segments_from.simps [simp del]

definition to_segments :: "'l diff_op list \<Rightarrow> nat \<Rightarrow> 'l segment list" where
  "to_segments ops ctx = segments_from ctx True [] ops"

definition count_changes :: "'l diff_op list \<Rightarrow> nat \<times> nat" where
  "count_changes ops =
     (length (filter (\<lambda>p. op_type p = Delete) ops), length (filter (\<lambda>p. op_type p = Insert) ops))"

end
