(* ===== verification/TextDiffProps.thy ===== *)
theory TextDiffProps
  imports TextDiff
begin

text \<open>
  Correctness of the line diff: the operations are an alignment of the two texts, with as few
  deletions and insertions as any edit script needs, and the diff gives up exactly when more
  than \<open>maxEdits\<close> are needed. The search is justified on the edit graph: after step \<open>d\<close> the
  frontier holds, on every diagonal of that step, the furthest point \<open>d\<close> edits reach.
\<close>

section \<open>Edit scripts\<close>

text \<open>\<open>script d xs ys\<close>: \<open>d\<close> deleted and inserted lines turn \<open>xs\<close> into \<open>ys\<close>.\<close>

inductive script :: "nat \<Rightarrow> 'l list \<Rightarrow> 'l list \<Rightarrow> bool" where
  script_nil: "script 0 [] []"
| script_keep: "script d xs ys \<Longrightarrow> script d (x # xs) (x # ys)"
| script_del: "script d xs ys \<Longrightarrow> script (Suc d) (x # xs) ys"
| script_ins: "script d xs ys \<Longrightarrow> script (Suc d) xs (y # ys)"

inductive_cases script_consE: "script d (x # xs) (y # ys)"

lemma script_append: "script d xs ys \<Longrightarrow> script e us vs \<Longrightarrow> script (d + e) (xs @ us) (ys @ vs)"
  by (induction rule: script.induct) (auto intro: script.intros)

lemma script_refl: "script 0 xs xs"
  by (induction xs) (auto intro: script.intros)

lemma script_del_all: "script (length xs) xs []"
  by (induction xs) (auto intro: script.intros)

lemma script_ins_all: "script (length ys) [] ys"
  by (induction ys) (auto intro: script.intros)

lemma script_full: "script (length xs + length ys) xs ys"
  using script_append [OF script_del_all script_ins_all] by simp

lemma script_rev: "script d xs ys \<Longrightarrow> script d (rev xs) (rev ys)"
proof (induction rule: script.induct)
  case script_nil
  then show ?case by (auto intro: script.intros)
next
  case (script_keep d xs ys x)
  then show ?case using script_append [OF script_keep.IH script_refl [of "[x]"]] by simp
next
  case (script_del d xs ys x)
  then show ?case using script_append [OF script_del.IH script_del_all [of "[x]"]] by simp
next
  case (script_ins d xs ys y)
  then show ?case using script_append [OF script_ins.IH script_ins_all [of "[y]"]] by simp
qed

lemma script_drop_target: "script d xs zs \<Longrightarrow> zs = y # ys \<Longrightarrow> \<exists>e \<le> Suc d. script e xs ys"
proof (induction arbitrary: y ys rule: script.induct)
  case script_nil
  then show ?case by simp
next
  case (script_keep d xs zs x)
  then show ?case by (auto intro: script.script_del)
next
  case (script_del d xs zs x)
  then obtain e where "e \<le> Suc d" "script e xs ys" by blast
  then have "Suc e \<le> Suc (Suc d)" "script (Suc e) (x # xs) ys" by (auto intro: script.script_del)
  then show ?case by blast
next
  case (script_ins d xs zs z)
  then have "script d xs ys" by simp
  then show ?case by (intro exI [of _ d]) simp
qed

lemma script_drop_source: "script d zs ys \<Longrightarrow> zs = x # xs \<Longrightarrow> \<exists>e \<le> Suc d. script e xs ys"
proof (induction arbitrary: x xs rule: script.induct)
  case script_nil
  then show ?case by simp
next
  case (script_keep d zs ys z)
  then show ?case by (auto intro: script.script_ins)
next
  case (script_del d zs ys z)
  then have "script d xs ys" by simp
  then show ?case by (intro exI [of _ d]) simp
next
  case (script_ins d zs ys y)
  then obtain e where "e \<le> Suc d" "script e xs ys" by blast
  then have "Suc e \<le> Suc (Suc d)" "script (Suc e) xs (y # ys)" by (auto intro: script.script_ins)
  then show ?case by blast
qed

lemma script_strip_one: "script d (x # xs) (x # ys) \<Longrightarrow> \<exists>e \<le> d. script e xs ys"
proof (elim script_consE)
  fix d' assume "d = Suc d'" "script d' xs (x # ys)"
  then show ?thesis using script_drop_target [of d' xs "x # ys" x ys] by simp
next
  fix d' assume "d = Suc d'" "script d' (x # xs) ys"
  then show ?thesis using script_drop_source [of d' "x # xs" ys x xs] by simp
qed auto

lemma script_strip_prefix: "script d (ps @ xs) (ps @ ys) \<Longrightarrow> \<exists>e \<le> d. script e xs ys"
proof (induction ps arbitrary: d)
  case (Cons p ps)
  then have "script d (p # ps @ xs) (p # ps @ ys)" by simp
  then obtain e where e: "e \<le> d" "script e (ps @ xs) (ps @ ys)" by (blast dest: script_strip_one)
  then obtain f where "f \<le> e" "script f xs ys" using Cons.IH by blast
  with e show ?case by (intro exI [of _ f]) simp
qed auto

lemma script_strip: 
  assumes "script d (ps @ xs @ ss) (ps @ ys @ ss)"
  shows "\<exists>e \<le> d. script e xs ys"
proof -
  obtain e where e: "e \<le> d" "script e (xs @ ss) (ys @ ss)"
    using script_strip_prefix [OF assms] by blast
  then have "script e (rev ss @ rev xs) (rev ss @ rev ys)"
    using script_rev by fastforce
  then obtain f where f: "f \<le> e" "script f (rev xs) (rev ys)"
    using script_strip_prefix by blast
  with script_rev [OF f(2)] e show ?thesis by (auto intro: exI [of _ f])
qed


section \<open>The edit graph\<close>

text \<open>
  The points \<open>d\<close> edits reach: moves right and down are free to leave the grid, as the source's
  frontier does, diagonals stay inside it.
\<close>

inductive reach :: "'l list \<Rightarrow> 'l list \<Rightarrow> nat \<Rightarrow> int \<Rightarrow> int \<Rightarrow> bool" for a b where
  reach_0: "reach a b 0 0 0"
| reach_diag: "reach a b d x y \<Longrightarrow> x < int (length a) \<Longrightarrow> y < int (length b) \<Longrightarrow> a ! nat x = b ! nat y \<Longrightarrow>
    reach a b d (x + 1) (y + 1)"
| reach_right: "reach a b d x y \<Longrightarrow> reach a b (Suc d) (x + 1) y"
| reach_down: "reach a b d x y \<Longrightarrow> reach a b (Suc d) x (y + 1)"

definition on_step :: "nat \<Rightarrow> int \<Rightarrow> bool" where
  "on_step d k \<longleftrightarrow> \<bar>k\<bar> \<le> int d \<and> even (k + int d)"

lemma reach_bounds: "reach a b d x y \<Longrightarrow> 0 \<le> x \<and> 0 \<le> y"
  by (induction rule: reach.induct) auto

lemma reach_on_step: "reach a b d x y \<Longrightarrow> on_step d (x - y)"
  by (induction rule: reach.induct) (auto simp: on_step_def algebra_simps)

lemma on_step_up: "on_step (Suc e) k \<Longrightarrow> k \<noteq> int (Suc e) \<Longrightarrow> on_step e (k + 1)"
  unfolding on_step_def by presburger

lemma on_step_low: "on_step (Suc e) k \<Longrightarrow> k \<noteq> - int (Suc e) \<Longrightarrow> on_step e (k - 1)"
  unfolding on_step_def by presburger

lemma set_diagonals: "k \<in> set (diagonals d) \<longleftrightarrow> on_step d k"
proof
  assume "on_step d k"
  then obtain j where j: "k + int d = 2 * j" "0 \<le> j" "j \<le> int d"
    unfolding on_step_def by (elim conjE evenE) simp
  then have "k = 2 * int (nat j) - int d" "nat j \<in> set [0..<Suc d]" by auto
  then show "k \<in> set (diagonals d)" unfolding diagonals_def set_map by (rule image_eqI)
qed (auto simp: diagonals_def on_step_def)

lemma distinct_diagonals: "distinct (diagonals d)"
  by (simp add: diagonals_def distinct_map inj_on_def del: upt_Suc)

definition matches :: "'l list \<Rightarrow> 'l list \<Rightarrow> int \<Rightarrow> int \<Rightarrow> int \<Rightarrow> bool" where
  "matches a b k x0 x1 \<longleftrightarrow> (\<forall>i. x0 \<le> i \<and> i < x1 \<longrightarrow>
     i < int (length a) \<and> i - k < int (length b) \<and> a ! nat i = b ! nat (i - k))"

lemma slide_spec: "\<exists>x1 \<ge> x0. slide a b x0 (x0 - k) = (x1, x1 - k) \<and> matches a b k x0 x1 \<and>
    \<not> (x1 < int (length a) \<and> x1 - k < int (length b) \<and> a ! nat x1 = b ! nat (x1 - k))"
proof (induction "nat (int (length a) - x0)" arbitrary: x0 rule: less_induct)
  case less
  show ?case
  proof (cases "x0 < int (length a) \<and> x0 - k < int (length b) \<and> a ! nat x0 = b ! nat (x0 - k)")
    case True
    then obtain x1 where x1: "x1 \<ge> x0 + 1" "slide a b (x0 + 1) (x0 + 1 - k) = (x1, x1 - k)"
      "matches a b k (x0 + 1) x1" 
      "\<not> (x1 < int (length a) \<and> x1 - k < int (length b) \<and> a ! nat x1 = b ! nat (x1 - k))"
      using less [of "x0 + 1"] by auto
    moreover have "matches a b k x0 x1"
      unfolding matches_def
    proof (intro allI impI)
      fix i assume "x0 \<le> i \<and> i < x1"
      then consider "i = x0" | "x0 + 1 \<le> i \<and> i < x1" by linarith
      then show "i < int (length a) \<and> i - k < int (length b) \<and> a ! nat i = b ! nat (i - k)"
        using True x1(3) unfolding matches_def by cases auto
    qed
    moreover have "slide a b x0 (x0 - k) = slide a b (x0 + 1) (x0 + 1 - k)"
      using True by (simp add: slide.simps [of a b x0] algebra_simps)
    ultimately show ?thesis by (intro exI [of _ x1]) auto
  next
    case False
    then show ?thesis by (intro exI [of _ x0]) (auto simp: slide.simps [of a b x0] matches_def)
  qed
qed

lemma reach_matches: "reach a b d x0 (x0 - k) \<Longrightarrow> x0 \<le> x1 \<Longrightarrow> matches a b k x0 x1 \<Longrightarrow> reach a b d x1 (x1 - k)"
proof (induction "nat (x1 - x0)" arbitrary: x1)
  case 0
  then show ?case by simp
next
  case (Suc n)
  then have "reach a b d (x1 - 1) (x1 - 1 - k)" by (auto simp: matches_def)
  moreover have "x1 - 1 < int (length a) \<and> x1 - 1 - k < int (length b) \<and> a ! nat (x1 - 1) = b ! nat (x1 - 1 - k)"
    using Suc.prems Suc.hyps(2) unfolding matches_def by auto
  ultimately have "reach a b d (x1 - 1 + 1) (x1 - 1 - k + 1)" by (intro reach_diag) auto
  then show ?case by simp
qed

text \<open>The point behind the last edit of a path; what follows is a diagonal run.\<close>

inductive entry :: "'l list \<Rightarrow> 'l list \<Rightarrow> nat \<Rightarrow> int \<Rightarrow> int \<Rightarrow> bool" for a b where
  entry_0: "entry a b 0 0 0"
| entry_right: "reach a b d x y \<Longrightarrow> entry a b (Suc d) (x + 1) y"
| entry_down: "reach a b d x y \<Longrightarrow> entry a b (Suc d) x (y + 1)"

inductive_cases entry_0E: "entry a b 0 x y"
inductive_cases entry_SucE: "entry a b (Suc d) x y"

lemma entry_reach: "entry a b d x y \<Longrightarrow> reach a b d x y"
  by (induction rule: entry.induct) (auto intro: reach.intros)

lemma reach_entry: "reach a b d x y \<Longrightarrow> \<exists>x0 \<le> x. entry a b d x0 (x0 - (x - y)) \<and> matches a b (x - y) x0 x"
proof (induction rule: reach.induct)
  case reach_0
  then show ?case by (auto simp: matches_def intro: entry_0 exI [of _ 0])
next
  case (reach_diag d x y)
  then obtain x0 where x0: "x0 \<le> x" "entry a b d x0 (x0 - (x - y))" "matches a b (x - y) x0 x" by blast
  have "matches a b (x - y) x0 (x + 1)"
    using x0(3) reach_diag.hyps unfolding matches_def by (metis diff_diff_eq2 add.commute add_diff_cancel_left' zless_add1_eq)
  with x0 show ?case by (intro exI [of _ x0]) auto
next
  case (reach_right d x y)
  then show ?case
    by (intro exI [of _ "x + 1"]) (auto simp: matches_def dest: entry_right)
next
  case (reach_down d x y)
  then show ?case
    by (intro exI [of _ x]) (auto simp: matches_def dest: entry_down)
qed


section \<open>The frontier\<close>

definition furthest :: "'l list \<Rightarrow> 'l list \<Rightarrow> nat \<Rightarrow> int \<Rightarrow> int \<Rightarrow> bool" where
  "furthest a b d k x \<longleftrightarrow> reach a b d x (x - k) \<and> (\<forall>x'. reach a b d x' (x' - k) \<longrightarrow> x' \<le> x)"

lemma furthest_unique: "furthest a b d k x \<Longrightarrow> furthest a b d k x' \<Longrightarrow> x = x'"
  unfolding furthest_def by (meson order_antisym)

lemma furthest_bounds: "furthest a b d k x \<Longrightarrow> 0 \<le> x \<and> 0 \<le> x - k"
  using reach_bounds [of a b d x "x - k"] by (simp add: furthest_def)

text \<open>What the frontier holds when step \<open>d\<close> begins.\<close>

fun frontier_ok :: "'l list \<Rightarrow> 'l list \<Rightarrow> nat \<Rightarrow> frontier \<Rightarrow> bool" where
  "frontier_ok a b 0 v \<longleftrightarrow> (\<forall>k. v k = 0)"
| "frontier_ok a b (Suc e) v \<longleftrightarrow> (\<forall>k. on_step e k \<longrightarrow> furthest a b e k (v k))"

lemma start_entry:
  assumes v: "frontier_ok a b d v" and k: "on_step d k"
  shows "entry a b d (start_x d v k) (start_x d v k - k) \<and>
    (\<forall>x'. entry a b d x' (x' - k) \<longrightarrow> x' \<le> start_x d v k)"
proof (cases d)
  case 0
  with v k show ?thesis
    by (auto simp: start_x_def goes_down_def on_step_def intro: entry_0 elim: entry_0E)
next
  case (Suc e)
  have down: "reach a b e (v (k + 1)) (v (k + 1) - (k + 1)) \<and> (\<forall>x'. reach a b e x' (x' - (k + 1)) \<longrightarrow> x' \<le> v (k + 1))"
    if "on_step e (k + 1)" using v that Suc by (auto simp: furthest_def)
  have right: "reach a b e (v (k - 1)) (v (k - 1) - (k - 1)) \<and> (\<forall>x'. reach a b e x' (x' - (k - 1)) \<longrightarrow> x' \<le> v (k - 1))"
    if "on_step e (k - 1)" using v that Suc by (auto simp: furthest_def)
  have ent: "(reach a b e x' (x' - (k + 1)) \<and> on_step e (k + 1)) \<or> (reach a b e (x' - 1) (x' - 1 - (k - 1)) \<and> on_step e (k - 1))"
    if "entry a b d x' (x' - k)" for x'
    using that unfolding Suc
  proof (rule entry_SucE)
    fix x assume a: "x' = x + 1" "reach a b e x (x' - k)"
    then have "on_step e (x - (x' - k))" by (intro reach_on_step)
    moreover have e: "x - (x' - k) = k - 1" "x' - 1 = x" "x' - 1 - (k - 1) = x' - k" using a by simp_all
    ultimately have "on_step e (k - 1)" by (simp only: e(1))
    moreover have "reach a b e (x' - 1) (x' - 1 - (k - 1))" using a(2) by (subst e(3), subst e(2))
    ultimately show ?thesis by blast
  next
    fix y assume "x' - k = y + 1" "reach a b e x' y"
    moreover from this have "y = x' - (k + 1)" by simp
    ultimately show ?thesis using reach_on_step [of a b e x' y] by simp
  qed
  show ?thesis
  proof (cases "goes_down d v k")
    case True
    then have on: "on_step e (k + 1)" using k Suc by (intro on_step_up) (auto simp: goes_down_def)
    have s: "start_x d v k = v (k + 1)" using True by (simp add: start_x_def)
    have "entry a b d (v (k + 1)) (v (k + 1) - (k + 1) + 1)"
      unfolding Suc using down [OF on] by (intro entry_down) simp
    moreover have "x' \<le> v (k + 1)" if "entry a b d x' (x' - k)" for x'
      using ent [OF that]
    proof
      assume r: "reach a b e (x' - 1) (x' - 1 - (k - 1)) \<and> on_step e (k - 1)"
      then have "x' - 1 \<le> v (k - 1)" using right by blast
      moreover have "v (k - 1) < v (k + 1)" using r True Suc by (auto simp: goes_down_def on_step_def)
      ultimately show ?thesis by linarith
    qed (use down [OF on] in auto)
    ultimately show ?thesis by (simp add: s)
  next
    case False
    then have on: "on_step e (k - 1)" using k Suc by (intro on_step_low) (auto simp: goes_down_def)
    have s: "start_x d v k = v (k - 1) + 1" using False by (simp add: start_x_def)
    have "entry a b d (v (k - 1) + 1) (v (k - 1) - (k - 1))"
      unfolding Suc using right [OF on] by (intro entry_right) simp
    moreover have "x' \<le> v (k - 1) + 1" if "entry a b d x' (x' - k)" for x'
      using ent [OF that]
    proof
      assume r: "reach a b e x' (x' - (k + 1)) \<and> on_step e (k + 1)"
      then have "x' \<le> v (k + 1)" using down by blast
      moreover have "v (k + 1) \<le> v (k - 1)" using r False Suc by (auto simp: goes_down_def on_step_def)
      ultimately show ?thesis by linarith
    next
      assume "reach a b e (x' - 1) (x' - 1 - (k - 1)) \<and> on_step e (k - 1)"
      then have "x' - 1 \<le> v (k - 1)" using right by blast
      then show ?thesis by linarith
    qed
    ultimately show ?thesis by (simp add: s algebra_simps)
  qed
qed

text \<open>One diagonal of a step: the slide from the start reaches the furthest point.\<close>

lemma slide_furthest:
  assumes "frontier_ok a b d v" "on_step d k"
  shows "\<exists>x \<ge> start_x d v k. slide a b (start_x d v k) (start_x d v k - k) = (x, x - k) \<and>
    matches a b k (start_x d v k) x \<and> furthest a b d k x"
proof -
  let ?s = "start_x d v k"
  have s: "entry a b d ?s (?s - k)" "\<And>x'. entry a b d x' (x' - k) \<Longrightarrow> x' \<le> ?s"
    using start_entry [OF assms] by blast+
  obtain x where x: "?s \<le> x" "slide a b ?s (?s - k) = (x, x - k)" "matches a b k ?s x"
    "\<not> (x < int (length a) \<and> x - k < int (length b) \<and> a ! nat x = b ! nat (x - k))"
    using slide_spec [of ?s a b k] by blast
  have "reach a b d x (x - k)"
    using reach_matches [OF entry_reach [OF s(1)] x(1,3)] .
  moreover have "x' \<le> x" if r: "reach a b d x' (x' - k)" for x'
  proof (rule ccontr)
    assume "\<not> x' \<le> x"
    obtain x0 where "x0 \<le> x'" "entry a b d x0 (x0 - k)" "matches a b k x0 x'"
      using reach_entry [OF r] by auto
    with s(2) [of x0] x(1,4) \<open>\<not> x' \<le> x\<close> show False
      unfolding matches_def by (metis order_trans not_le)
  qed
  ultimately show ?thesis using x by (auto simp: furthest_def)
qed

definition at_end :: "'l list \<Rightarrow> 'l list \<Rightarrow> int \<Rightarrow> int \<Rightarrow> bool" where
  "at_end a b x y \<longleftrightarrow> x \<ge> int (length a) \<and> y \<ge> int (length b)"

lemma step_spec:
  assumes v: "frontier_ok a b d v"
    and w: "\<And>k. \<not> on_step d k \<Longrightarrow> w k = v k"
    and ks: "distinct ks" "\<And>k. k \<in> set ks \<Longrightarrow> on_step d k"
    and don: "\<And>k. on_step d k \<Longrightarrow> k \<notin> set ks \<Longrightarrow> furthest a b d k (w k) \<and> \<not> at_end a b (w k) (w k - k)"
    and res: "step a b d w ks = (w', found)"
  shows "if found then \<exists>k x. furthest a b d k x \<and> at_end a b x (x - k)
    else frontier_ok a b (Suc d) w' \<and> (\<forall>k. on_step d k \<longrightarrow> \<not> at_end a b (w' k) (w' k - k))"
  using w ks don res
proof (induction ks arbitrary: w)
  case Nil
  then show ?case by auto
next
  case (Cons k ks)
  have k: "on_step d k" using Cons.prems(3) by simp
  then have "\<not> on_step d (k + 1)" "\<not> on_step d (k - 1)" by (auto simp: on_step_def)
  then have start: "start_x d w k = start_x d v k"
    using Cons.prems(1) by (simp add: start_x_def goes_down_def)
  obtain x where x: "slide a b (start_x d v k) (start_x d v k - k) = (x, x - k)" "furthest a b d k x"
    using slide_furthest [OF v k] by blast
  show ?case
  proof (cases "at_end a b x (x - k)")
    case True
    with Cons.prems(5) x start have "found" by (auto simp: at_end_def Let_def)
    with True x show ?thesis by auto
  next
    case False
    have st: "step a b d (w(k := x)) ks = (w', found)"
      using False Cons.prems(5) x(1) start unfolding at_end_def
      by (simp only: step.simps Let_def prod.case if_False)
    have p1: "(w(k := x)) j = v j" if "\<not> on_step d j" for j
      using that k Cons.prems(1) [of j] by auto
    have p4: "furthest a b d j ((w(k := x)) j) \<and> \<not> at_end a b ((w(k := x)) j) ((w(k := x)) j - j)"
      if "on_step d j" "j \<notin> set ks" for j
      using that False x(2) Cons.prems(4) [of j] by auto
    show ?thesis
      by (rule Cons.IH [OF p1 _ _ p4 st]) (use Cons.prems(2,3) in auto)
  qed
qed

lemma frontier_snapshot: "frontier_ok a b d v \<Longrightarrow> frontier_ok a b d (snapshot d v)"
  by (cases d) (auto simp: snapshot_def on_step_def)

lemma reach_end_diagonal: "reach a b d (int (length a)) (int (length b)) \<Longrightarrow> furthest a b d (int (length a) - int (length b)) x \<Longrightarrow>
    at_end a b x (x - (int (length a) - int (length b)))"
  unfolding furthest_def at_end_def by force

abbreviation ends :: "'l list \<Rightarrow> 'l list \<Rightarrow> nat \<Rightarrow> bool" where
  "ends a b d \<equiv> reach a b d (int (length a)) (int (length b))"

lemma search_spec:
  assumes "frontier_ok a b d v" "length trace = d" "\<And>e. e < d \<Longrightarrow> frontier_ok a b e (trace ! e)"
    and "\<And>e. e < d \<Longrightarrow> \<not> ends a b e"
  shows "case search a b mx d v trace of
      None \<Rightarrow> \<forall>e \<le> mx. \<not> ends a b e
    | Some (f, tr) \<Rightarrow> f \<le> mx \<and> (\<forall>e \<le> f. frontier_ok a b e (tr ! e)) \<and> (\<forall>e < f. \<not> ends a b e) \<and>
        (\<exists>x y. reach a b f x y \<and> at_end a b x y)"
  using assms
proof (induction a b mx d v trace rule: search.induct)
  case (1 a b mx d v trace)
  show ?case
  proof (cases "d > mx")
    case True
    with "1.prems"(4) show ?thesis by (simp add: search.simps [of a b mx])
  next
    case False
    let ?tr = "trace @ [snapshot d v]"
    obtain v' found where st: "step a b d v (diagonals d) = (v', found)" by fastforce
    have sp: "if found then \<exists>k x. furthest a b d k x \<and> at_end a b x (x - k)
        else frontier_ok a b (Suc d) v' \<and> (\<forall>k. on_step d k \<longrightarrow> \<not> at_end a b (v' k) (v' k - k))"
      by (rule step_spec [OF "1.prems"(1) _ _ _ _ st]) (auto simp: set_diagonals distinct_diagonals)
    have tr: "frontier_ok a b e (?tr ! e)" if "e < Suc d" for e
      using that "1.prems"(1,2) "1.prems"(3) [of e] frontier_snapshot [OF "1.prems"(1)]
      by (auto simp: nth_append less_Suc_eq)
    show ?thesis
    proof (cases found)
      case True
      then show ?thesis
        using False st sp tr "1.prems"(4)
        by (auto simp: search.simps [of a b mx d] furthest_def Let_def less_Suc_eq_le)
    next
      case nf: False
      have "\<not> ends a b d"
      proof
        assume e: "ends a b d"
        then have "on_step d (int (length a) - int (length b))" by (rule reach_on_step)
        with nf sp reach_end_diagonal [OF e] show False by fastforce
      qed
      then have "\<not> ends a b e" if "e < Suc d" for e
        using that "1.prems"(4) by (auto simp: less_Suc_eq)
      moreover have "search a b mx d v trace = search a b mx (Suc d) v' ?tr"
        using False st nf by (simp add: search.simps [of a b mx d] Let_def)
      ultimately show ?thesis
        using "1.IH" [OF False refl st [symmetric] refl nf] sp nf tr "1.prems"(2) by simp
    qed
  qed
qed


section \<open>Reaching the end is having a script\<close>

lemma take_snoc: "0 \<le> x \<Longrightarrow> x < int (length xs) \<Longrightarrow> take (nat (x + 1)) xs = take (nat x) xs @ [xs ! nat x]"
  by (simp add: nat_add_distrib take_Suc_conv_app_nth)

lemma take_beyond: "int (length xs) \<le> x \<Longrightarrow> take (nat (x + 1)) xs = take (nat x) xs"
  by simp

text \<open>A path that leaves the grid wastes the edits spent outside it.\<close>

lemma reach_clamp: "reach a b d x y \<Longrightarrow>
    \<exists>e. script e (take (nat x) a) (take (nat y) b) \<and>
      int e + max 0 (x - int (length a)) + max 0 (y - int (length b)) = int d"
proof (induction rule: reach.induct)
  case reach_0
  then show ?case by (auto intro: script_nil exI [of _ 0])
next
  case (reach_diag d x y)
  then obtain e where e: "script e (take (nat x) a) (take (nat y) b)" "int e = int d" by auto
  have "script (e + 0) (take (nat x) a @ [a ! nat x]) (take (nat y) b @ [b ! nat y])"
    using script_append [OF e(1) script_refl [of "[a ! nat x]"]] reach_diag.hyps(4) by simp
  then show ?case
    using e(2) reach_diag.hyps reach_bounds [OF reach_diag.hyps(1)] by (intro exI [of _ e]) (simp add: take_snoc)
next
  case (reach_right d x y)
  then obtain e where e: "script e (take (nat x) a) (take (nat y) b)"
    "int e + max 0 (x - int (length a)) + max 0 (y - int (length b)) = int d" by blast
  have x: "0 \<le> x" using reach_bounds [OF reach_right.hyps] by simp
  show ?case
  proof (cases "x < int (length a)")
    case True
    have "script (e + 1) (take (nat x) a @ [a ! nat x]) (take (nat y) b @ [])"
      using script_append [OF e(1) script_del_all [of "[a ! nat x]"]] by simp
    then show ?thesis using True e(2) x by (intro exI [of _ "e + 1"]) (simp add: take_snoc)
  next
    case False
    then show ?thesis using e by (intro exI [of _ e]) (simp add: take_beyond)
  qed
next
  case (reach_down d x y)
  then obtain e where e: "script e (take (nat x) a) (take (nat y) b)"
    "int e + max 0 (x - int (length a)) + max 0 (y - int (length b)) = int d" by blast
  have y: "0 \<le> y" using reach_bounds [OF reach_down.hyps] by simp
  show ?case
  proof (cases "y < int (length b)")
    case True
    have "script (e + 1) (take (nat x) a @ []) (take (nat y) b @ [b ! nat y])"
      using script_append [OF e(1) script_ins_all [of "[b ! nat y]"]] by simp
    then show ?thesis using True e(2) y by (intro exI [of _ "e + 1"]) (simp add: take_snoc)
  next
    case False
    then show ?thesis using e by (intro exI [of _ e]) (simp add: take_beyond)
  qed
qed

lemma script_reach: "script d xs ys \<Longrightarrow> a = pa @ xs \<Longrightarrow> b = pb @ ys \<Longrightarrow>
    reach a b e (int (length pa)) (int (length pb)) \<Longrightarrow> ends a b (e + d)"
proof (induction arbitrary: pa pb e rule: script.induct)
  case script_nil
  then show ?case by simp
next
  case (script_keep d xs ys x)
  have "reach a b e (int (length (pa @ [x]))) (int (length (pb @ [x])))"
    using reach_diag [OF script_keep.prems(3)] script_keep.prems(1,2) by (simp add: nth_append add.commute)
  from script_keep.IH [OF _ _ this] script_keep.prems show ?case by simp
next
  case (script_del d xs ys x)
  have "reach a b (Suc e) (int (length (pa @ [x]))) (int (length pb))"
    using reach_right [OF script_del.prems(3)] by (simp add: add.commute)
  from script_del.IH [OF _ _ this] script_del.prems show ?case by simp
next
  case (script_ins d xs ys y)
  have "reach a b (Suc e) (int (length pa)) (int (length (pb @ [y])))"
    using reach_down [OF script_ins.prems(3)] by (simp add: add.commute)
  from script_ins.IH [OF _ _ this] script_ins.prems show ?case by simp
qed

lemma ends_script: "script d a b \<Longrightarrow> ends a b d"
  using script_reach [of d a b a "[]" b "[]" 0] reach_0 [of a b] by simp

text \<open>At the first step that reaches or passes the end, the end itself is the furthest point.\<close>

lemma first_end:
  assumes f: "\<And>e. e < f \<Longrightarrow> \<not> ends a b e" and r: "reach a b f x y" "at_end a b x y"
  shows "furthest a b f (int (length a) - int (length b)) (int (length a))"
proof -
  have exact: "x' = int (length a) \<and> y' = int (length b)" if r': "reach a b f x' y'" "at_end a b x' y'" for x' y'
  proof -
    obtain e where e: "script e a b" "int e + (x' - int (length a)) + (y' - int (length b)) = int f"
      using reach_clamp [OF r'(1)] r'(2) by (auto simp: at_end_def)
    have "\<not> e < f" using f ends_script [OF e(1)] by blast
    with e(2) r'(2) show ?thesis by (simp add: at_end_def)
  qed
  have "ends a b f" using exact [OF r] r(1) by simp
  moreover have "x' \<le> int (length a)" if "reach a b f x' (x' - (int (length a) - int (length b)))" for x'
  proof (rule ccontr)
    assume "\<not> x' \<le> int (length a)"
    with exact [OF that] show False by (simp add: at_end_def)
  qed
  ultimately show ?thesis by (simp add: furthest_def)
qed


section \<open>Alignments\<close>

text \<open>
  \<open>aligned i j ops xs ys\<close>: the operations go through \<open>xs\<close> and \<open>ys\<close> in order, with the line
  numbers counted from \<open>i + 1\<close> and \<open>j + 1\<close>: an unchanged line is in both texts and carries both
  numbers, a deleted one is in the first only, an inserted one in the second only.
\<close>

inductive aligned :: "int \<Rightarrow> int \<Rightarrow> 'l diff_op list \<Rightarrow> 'l list \<Rightarrow> 'l list \<Rightarrow> bool" where
  al_nil: "aligned i j [] [] []"
| al_equal: "aligned (i + 1) (j + 1) ops xs ys \<Longrightarrow> aligned i j (equal_op l (i + 1) (j + 1) # ops) (l # xs) (l # ys)"
| al_delete: "aligned (i + 1) j ops xs ys \<Longrightarrow> aligned i j (delete_op l (i + 1) # ops) (l # xs) ys"
| al_insert: "aligned i (j + 1) ops xs ys \<Longrightarrow> aligned i j (insert_op l (j + 1) # ops) xs (l # ys)"

definition changes :: "'l diff_op list \<Rightarrow> nat" where
  "changes ops = length (filter changed ops)"

lemma op_simps [simp]:
  "changed (equal_op l i j) = False" "changed (delete_op l i) = True" "changed (insert_op l j) = True"
  "changes [] = 0" "changes (p # ops) = (if changed p then Suc (changes ops) else changes ops)"
  "changes (ops @ ops') = changes ops + changes ops'"
  by (simp_all add: changed_def equal_op_def delete_op_def insert_op_def changes_def)

lemma aligned_append: "aligned i j ops xs ys \<Longrightarrow> aligned (i + int (length xs)) (j + int (length ys)) ops' xs' ys' \<Longrightarrow>
    aligned i j (ops @ ops') (xs @ xs') (ys @ ys')"
  by (induction rule: aligned.induct) (auto intro: aligned.intros simp: algebra_simps)

lemma aligned_shift: "aligned i j ops xs ys \<Longrightarrow> aligned (i + int n) (j + int n) (map (shift_op n) ops) xs ys"
proof (induction rule: aligned.induct)
  case (al_equal i j ops xs ys l)
  have "shift_op n (equal_op l (i + 1) (j + 1)) = equal_op l (i + int n + 1) (j + int n + 1)"
    by (simp add: shift_op_def equal_op_def)
  moreover have "aligned (i + int n + 1) (j + int n + 1) (map (shift_op n) ops) xs ys"
    using al_equal.IH by (simp add: algebra_simps)
  ultimately show ?case by (simp add: aligned.al_equal)
next
  case (al_delete i j ops xs ys l)
  have "shift_op n (delete_op l (i + 1)) = delete_op l (i + int n + 1)"
    by (simp add: shift_op_def delete_op_def)
  moreover have "aligned (i + int n + 1) (j + int n) (map (shift_op n) ops) xs ys"
    using al_delete.IH by (simp add: algebra_simps)
  ultimately show ?case by (simp add: aligned.al_delete)
next
  case (al_insert i j ops xs ys l)
  have "shift_op n (insert_op l (j + 1)) = insert_op l (j + int n + 1)"
    by (simp add: shift_op_def insert_op_def)
  moreover have "aligned (i + int n) (j + int n + 1) (map (shift_op n) ops) xs ys"
    using al_insert.IH by (simp add: algebra_simps)
  ultimately show ?case by (simp add: aligned.al_insert)
qed (simp add: aligned.al_nil)

lemma changes_shift [simp]: "changes (map (shift_op n) ops) = changes ops"
  by (induction ops) (auto simp: changes_def changed_def shift_op_def)

lemma aligned_script: "aligned i j ops xs ys \<Longrightarrow> script (changes ops) xs ys"
  by (induction rule: aligned.induct) (auto intro: script.intros)

lemma aligned_equal_run:
  "aligned i j (map (\<lambda>t. equal_op (xs ! t) (i + int t + 1) (j + int t + 1)) [0..<length xs]) xs xs"
proof (induction xs arbitrary: i j)
  case Nil
  then show ?case by (simp add: aligned.al_nil)
next
  case (Cons x xs)
  have "map (\<lambda>t. equal_op ((x # xs) ! t) (i + int t + 1) (j + int t + 1)) [0..<length (x # xs)] =
      equal_op x (i + 1) (j + 1) # map (\<lambda>t. equal_op (xs ! t) (i + 1 + int t + 1) (j + 1 + int t + 1)) [0..<length xs]"
    by (simp add: upt_conv_Cons map_Suc_upt [symmetric] comp_def algebra_simps del: upt_Suc)
  with Cons.IH [of "i + 1" "j + 1"] show ?case by (auto intro: aligned.al_equal)
qed

lemma changes_equal_run [simp]: "changes (map (\<lambda>t. equal_op (f t) (g t) (h t)) ts) = 0"
  by (induction ts) auto


section \<open>The backtrack\<close>

definition tail_ok :: "'l list \<Rightarrow> 'l list \<Rightarrow> int \<Rightarrow> int \<Rightarrow> 'l diff_op list \<Rightarrow> bool" where
  "tail_ok a b x y ops \<longleftrightarrow> 0 \<le> x \<and> 0 \<le> y \<and> x \<le> int (length a) \<and> y \<le> int (length b) \<and>
     aligned x y ops (drop (nat x) a) (drop (nat y) b)"

lemma drop_back: "0 < x \<Longrightarrow> x \<le> int (length xs) \<Longrightarrow> drop (nat (x - 1)) xs = xs ! nat (x - 1) # drop (nat x) xs"
proof -
  assume "0 < x" "x \<le> int (length xs)"
  moreover from this have "nat x = Suc (nat (x - 1))" by simp
  ultimately show ?thesis by (simp add: Cons_nth_drop_Suc)
qed

lemma tail_equal: "tail_ok a b x y ops \<Longrightarrow> 0 < x \<Longrightarrow> 0 < y \<Longrightarrow> a ! nat (x - 1) = b ! nat (y - 1) \<Longrightarrow>
    tail_ok a b (x - 1) (y - 1) (equal_op (a ! nat (x - 1)) x y # ops)"
  using al_equal [of "x - 1" "y - 1" ops "drop (nat x) a" "drop (nat y) b" "a ! nat (x - 1)"]
  by (auto simp: tail_ok_def drop_back)

lemma tail_delete: "tail_ok a b x y ops \<Longrightarrow> 0 < x \<Longrightarrow> tail_ok a b (x - 1) y (delete_op (a ! nat (x - 1)) x # ops)"
  using al_delete [of "x - 1" y ops "drop (nat x) a" "drop (nat y) b" "a ! nat (x - 1)"]
  by (auto simp: tail_ok_def drop_back)

lemma tail_insert: "tail_ok a b x y ops \<Longrightarrow> 0 < y \<Longrightarrow> tail_ok a b x (y - 1) (insert_op (b ! nat (y - 1)) y # ops)"
  using al_insert [of x "y - 1" ops "drop (nat x) a" "drop (nat y) b" "b ! nat (y - 1)"]
  by (auto simp: tail_ok_def drop_back)

lemma unslide_spec:
  assumes "px \<le> x0" "py \<le> x0 - k" "x0 = px \<or> x0 - k = py" "0 \<le> px" "0 \<le> py"
    and "x0 \<le> x" "matches a b k x0 x" "tail_ok a b x (x - k) ops"
  shows "\<exists>ops'. unslide a px py x (x - k) ops = (x0, x0 - k, ops') \<and> tail_ok a b x0 (x0 - k) ops' \<and>
    changes ops' = changes ops"
  using assms(6-)
proof (induction "nat (x - x0)" arbitrary: x ops)
  case 0
  then have "x = x0" by simp
  moreover have "unslide a px py x0 (x0 - k) ops = (x0, x0 - k, ops)"
    by (subst unslide.simps) (use assms(3) in auto)
  ultimately show ?case using 0 by auto
next
  case (Suc n)
  then have lt: "x0 < x" by simp
  have "a ! nat (x - 1) = b ! nat (x - 1 - k)"
    using lt Suc.prems(2) by (auto simp: matches_def)
  then have eq: "a ! nat (x - 1) = b ! nat (x - k - 1)" by (simp add: algebra_simps)
  have pos: "0 < x" "0 < x - k" "px < x" "py < x - k" using lt assms(1-5) by auto
  have t: "tail_ok a b (x - 1) (x - 1 - k) (equal_op (a ! nat (x - 1)) x (x - k) # ops)"
    using tail_equal [OF Suc.prems(3) pos(1,2) eq] by (simp add: algebra_simps)
  have "matches a b k x0 (x - 1)" using Suc.prems(2) by (auto simp: matches_def)
  moreover have "n = nat (x - 1 - x0)" "x0 \<le> x - 1" using Suc.hyps(2) lt by simp_all
  ultimately obtain ops' where
    "unslide a px py (x - 1) (x - 1 - k) (equal_op (a ! nat (x - 1)) x (x - k) # ops) = (x0, x0 - k, ops')"
    "tail_ok a b x0 (x0 - k) ops'" "changes ops' = changes ops"
    using Suc.hyps(1) [of "x - 1", OF _ _ _ t] by auto
  moreover have "unslide a px py x (x - k) ops =
      unslide a px py (x - 1) (x - 1 - k) (equal_op (a ! nat (x - 1)) x (x - k) # ops)"
    by (subst unslide.simps) (use pos in \<open>simp add: algebra_simps\<close>)
  ultimately show ?case by auto
qed

lemma backtrack_spec:
  "(\<And>e. e \<le> d \<Longrightarrow> frontier_ok a b e (tr ! e)) \<Longrightarrow> furthest a b d k x \<Longrightarrow> tail_ok a b x (x - k) ops \<Longrightarrow>
    aligned 0 0 (backtrack a b tr d x (x - k) ops) a b \<and>
    changes (backtrack a b tr d x (x - k) ops) = d + changes ops"
proof (induction d arbitrary: k x ops)
  case 0
  then have r: "reach a b 0 x (x - k)" by (simp add: furthest_def)
  then have k: "k = 0" using reach_on_step [OF r] by (simp add: on_step_def)
  obtain x0 where "x0 \<le> x" "entry a b 0 x0 (x0 - k)" "matches a b k x0 x"
    using reach_entry [OF r] by auto
  then have "0 \<le> x" "matches a b 0 0 x" using k by (auto elim: entry_0E)
  then obtain ops' where "unslide a 0 0 x (x - 0) ops = (0, 0 - 0, ops')" "tail_ok a b 0 (0 - 0) ops'" "changes ops' = changes ops"
    using unslide_spec [of 0 0 0 0 x a b ops] 0(3) k by auto
  then show ?case using k by (simp add: tail_ok_def)
next
  case (Suc d)
  let ?s = "tr ! Suc d"
  have fr: "frontier_ok a b (Suc d) ?s" by (rule Suc.prems(1)) simp
  have r: "reach a b (Suc d) x (x - k)" using Suc.prems(2) by (simp add: furthest_def)
  then have on: "on_step (Suc d) k" using reach_on_step [OF r] by simp
  define x0 where "x0 = start_x (Suc d) ?s k"
  obtain x1 where "x0 \<le> x1" "matches a b k x0 x1" "furthest a b (Suc d) k x1"
    using slide_furthest [OF fr on] unfolding x0_def by blast
  moreover from this Suc.prems(2) have "x1 = x" by (blast intro: furthest_unique)
  ultimately have x0: "x0 \<le> x" "matches a b k x0 x" by auto
  have IHp: "\<And>e. e \<le> d \<Longrightarrow> frontier_ok a b e (tr ! e)" using Suc.prems(1) by simp
  show ?case
  proof (cases "goes_down (Suc d) ?s k")
    case True
    let ?px = "?s (k + 1)"
    have px: "x0 = ?px" using True by (simp add: x0_def start_x_def)
    have "on_step d (k + 1)" using on True by (intro on_step_up) (auto simp: goes_down_def)
    then have f: "furthest a b d (k + 1) ?px" using fr by simp
    then have b: "0 \<le> ?px" "0 \<le> ?px - (k + 1)" using furthest_bounds [OF f] by simp_all
    obtain ops' where u: "unslide a ?px (?px - (k + 1)) x (x - k) ops = (x0, x0 - k, ops')"
      "tail_ok a b x0 (x0 - k) ops'" "changes ops' = changes ops"
      using unslide_spec [of ?px x0 "?px - (k + 1)" k x a b ops] px b x0 Suc.prems(3) by auto
    have "tail_ok a b x0 (x0 - k - 1) (insert_op (b ! nat (x0 - k - 1)) (x0 - k) # ops')"
      using u(2) b px by (intro tail_insert) auto
    then have t: "tail_ok a b ?px (?px - (k + 1)) (insert_op (b ! nat (x0 - k - 1)) (x0 - k) # ops')"
      using px by (simp add: algebra_simps)
    have "backtrack a b tr (Suc d) x (x - k) ops =
        backtrack a b tr d ?px (?px - (k + 1)) (insert_op (b ! nat (x0 - k - 1)) (x0 - k) # ops')"
      using True u(1) px by (simp add: Let_def)
    with Suc.IH [OF IHp f t] u(3) show ?thesis by simp
  next
    case False
    let ?px = "?s (k - 1)"
    have px: "x0 = ?px + 1" using False by (simp add: x0_def start_x_def)
    have "on_step d (k - 1)" using on False by (intro on_step_low) (auto simp: goes_down_def)
    then have f: "furthest a b d (k - 1) ?px" using fr by simp
    then have b: "0 \<le> ?px" "0 \<le> ?px - (k - 1)" using furthest_bounds [OF f] by simp_all
    obtain ops' where u: "unslide a ?px (?px - (k - 1)) x (x - k) ops = (x0, x0 - k, ops')"
      "tail_ok a b x0 (x0 - k) ops'" "changes ops' = changes ops"
      using unslide_spec [of ?px x0 "?px - (k - 1)" k x a b ops] px b x0 Suc.prems(3) by auto
    have "tail_ok a b (x0 - 1) (x0 - k) (delete_op (a ! nat (x0 - 1)) x0 # ops')"
      using u(2) b px by (intro tail_delete) auto
    then have t: "tail_ok a b ?px (?px - (k - 1)) (delete_op (a ! nat (x0 - 1)) x0 # ops')"
      using px by (simp add: algebra_simps)
    have "backtrack a b tr (Suc d) x (x - k) ops =
        backtrack a b tr d ?px (?px - (k - 1)) (delete_op (a ! nat (x0 - 1)) x0 # ops')"
      using False u(1) px by (simp add: Let_def)
    with Suc.IH [OF IHp f t] u(3) show ?thesis by simp
  qed
qed


section \<open>The diff\<close>

lemma myers_spec:
  "case myers a b mx of
     None \<Rightarrow> \<forall>e. script e a b \<longrightarrow> mx < e
   | Some ops \<Rightarrow> aligned 0 0 ops a b \<and> changes ops \<le> mx \<and> (\<forall>e. script e a b \<longrightarrow> changes ops \<le> e)"
proof (cases "a = [] \<and> b = []")
  case True
  then show ?thesis by (simp add: myers_def al_nil)
next
  case False
  let ?mx = "min (length a + length b) mx"
  have sp: "case search a b ?mx 0 (\<lambda>_. 0) [] of
      None \<Rightarrow> \<forall>e \<le> ?mx. \<not> ends a b e
    | Some (f, tr) \<Rightarrow> f \<le> ?mx \<and> (\<forall>e \<le> f. frontier_ok a b e (tr ! e)) \<and> (\<forall>e < f. \<not> ends a b e) \<and>
        (\<exists>x y. reach a b f x y \<and> at_end a b x y)"
    by (rule search_spec) simp_all
  show ?thesis
  proof (cases "search a b ?mx 0 (\<lambda>_. 0) []")
    case None
    with sp have no: "\<And>e. e \<le> ?mx \<Longrightarrow> \<not> ends a b e" by simp
    have "mx < e" if e: "script e a b" for e
    proof -
      have "?mx < length a + length b" using no ends_script [OF script_full] by (meson not_le)
      moreover have "?mx < e" using no ends_script [OF e] by (meson not_le)
      ultimately show ?thesis by (simp add: min_def split: if_splits)
    qed
    with None False show ?thesis by (auto simp: myers_def)
  next
    case (Some r)
    then obtain f tr where r: "search a b ?mx 0 (\<lambda>_. 0) [] = Some (f, tr)" by (cases r) auto
    with sp obtain x y where f: "f \<le> ?mx" "\<And>e. e \<le> f \<Longrightarrow> frontier_ok a b e (tr ! e)" "\<And>e. e < f \<Longrightarrow> \<not> ends a b e"
      "reach a b f x y" "at_end a b x y" by auto
    let ?k = "int (length a) - int (length b)"
    have "aligned 0 0 (backtrack a b tr f (int (length a)) (int (length a) - ?k) []) a b \<and>
        changes (backtrack a b tr f (int (length a)) (int (length a) - ?k) []) = f"
      using backtrack_spec [OF f(2) first_end [OF f(3,4,5)], of "[]"] by (simp add: tail_ok_def al_nil)
    moreover have "f \<le> e" if "script e a b" for e
      using ends_script [OF that] f(3) by (meson not_le)
    ultimately show ?thesis using r f(1) False by (auto simp: myers_def)
  qed
qed

lemma common_prefix_spec: "common_prefix xs ys \<le> length xs \<and> common_prefix xs ys \<le> length ys \<and>
    take (common_prefix xs ys) xs = take (common_prefix xs ys) ys"
  by (induction xs ys rule: common_prefix.induct) auto

lemma common_ends_spec:
  "common_ends al bl start ea eb = (ea', eb') \<Longrightarrow> start \<le> ea \<Longrightarrow> start \<le> eb \<Longrightarrow> ea \<le> length al \<Longrightarrow> eb \<le> length bl \<Longrightarrow>
    drop ea al = drop eb bl \<Longrightarrow>
    start \<le> ea' \<and> start \<le> eb' \<and> ea' \<le> length al \<and> eb' \<le> length bl \<and> drop ea' al = drop eb' bl"
proof (induction al bl start ea eb rule: common_ends.induct)
  case (1 al bl start ea eb)
  show ?case
  proof (cases "Suc ea > start \<and> Suc eb > start \<and> al ! ea = bl ! eb")
    case True
    moreover from this 1 have "drop ea al = drop eb bl"
      by (metis Cons_nth_drop_Suc Suc_le_lessD)
    ultimately show ?thesis using 1 by auto
  next
    case False
    with 1 show ?thesis by auto
  qed
qed auto

lemma aligned_equal_from:
  assumes "drop p xs = drop q ys" "p \<le> length xs" "q \<le> length ys"
  shows "aligned (int p) (int q)
    (map (\<lambda>t. equal_op (xs ! (p + t)) (int (p + t) + 1) (int (q + t) + 1)) [0..<length xs - p]) (drop p xs) (drop q ys)"
proof -
  have eq: "map (\<lambda>t. equal_op (xs ! (p + t)) (int (p + t) + 1) (int (q + t) + 1)) [0..<length xs - p] =
      map (\<lambda>t. equal_op (drop p xs ! t) (int p + int t + 1) (int q + int t + 1)) [0..<length (drop p xs)]"
    using assms(2) by (auto simp: algebra_simps)
  show ?thesis unfolding eq assms(1) [symmetric] by (rule aligned_equal_run)
qed

lemma diff_list_spec:
  "case diff_list al bl mx of
     None \<Rightarrow> \<forall>e. script e al bl \<longrightarrow> mx < e
   | Some ops \<Rightarrow> aligned 0 0 ops al bl \<and> changes ops \<le> mx \<and> (\<forall>e. script e al bl \<longrightarrow> changes ops \<le> e)"
proof -
  define p where "p = common_prefix al bl"
  obtain ea eb where e: "common_ends al bl p (length al) (length bl) = (ea, eb)" by fastforce
  have p: "p \<le> length al" "p \<le> length bl" "take p al = take p bl"
    using common_prefix_spec [of al bl] by (auto simp: p_def)
  have q: "p \<le> ea" "p \<le> eb" "ea \<le> length al" "eb \<le> length bl" "drop ea al = drop eb bl"
    using common_ends_spec [OF e] p by auto
  let ?am = "drop p (take ea al)" and ?bm = "drop p (take eb bl)"
  have parts: "al = take p al @ ?am @ drop ea al" "bl = take p al @ ?bm @ drop ea al"
    using p q by (metis append_take_drop_id drop_take le_add_diff_inverse take_add append.assoc)+
  have low: "\<exists>e \<le> d. script e ?am ?bm" if "script d al bl" for d
    by (rule script_strip [of d "take p al" _ "drop ea al"]) (use that parts in simp)
  show ?thesis
  proof (cases "myers ?am ?bm mx")
    case None
    then have "\<forall>e. script e ?am ?bm \<longrightarrow> mx < e" using myers_spec [of ?am ?bm mx] by simp
    with low have "\<forall>e. script e al bl \<longrightarrow> mx < e" by (meson le_less_trans not_le)
    with None e show ?thesis by (simp add: diff_list_def p_def Let_def)
  next
    case (Some ops)
    let ?ops = "map (\<lambda>i. equal_op (al ! i) (int i + 1) (int i + 1)) [0..<p] @ map (shift_op p) ops @
        map (\<lambda>t. equal_op (al ! (ea + t)) (int (ea + t) + 1) (int (eb + t) + 1)) [0..<length al - ea]"
    have m: "aligned 0 0 ops ?am ?bm" "changes ops \<le> mx" "\<forall>e. script e ?am ?bm \<longrightarrow> changes ops \<le> e"
      using myers_spec [of ?am ?bm mx] Some by auto
    have "aligned 0 0 ?ops (take p al @ ?am @ drop ea al) (take p al @ ?bm @ drop eb bl)"
    proof (intro aligned_append)
      show "aligned 0 0 (map (\<lambda>i. equal_op (al ! i) (int i + 1) (int i + 1)) [0..<p]) (take p al) (take p al)"
      proof -
        have "map (\<lambda>i. equal_op (al ! i) (int i + 1) (int i + 1)) [0..<p] =
            map (\<lambda>t. equal_op (take p al ! t) (0 + int t + 1) (0 + int t + 1)) [0..<length (take p al)]"
          using p(1) by simp
        then show ?thesis by (simp only: aligned_equal_run)
      qed
      show "aligned (0 + int (length (take p al))) (0 + int (length (take p al))) (map (shift_op p) ops) ?am ?bm"
        using aligned_shift [OF m(1), of p] p by simp
      show "aligned (0 + int (length (take p al)) + int (length ?am)) (0 + int (length (take p al)) + int (length ?bm))
          (map (\<lambda>t. equal_op (al ! (ea + t)) (int (ea + t) + 1) (int (eb + t) + 1)) [0..<length al - ea])
          (drop ea al) (drop eb bl)"
        using aligned_equal_from [OF q(5,3,4)] p q by simp
    qed
    then have "aligned 0 0 ?ops al bl" using parts q by simp
    moreover have "changes ops \<le> e" if "script e al bl" for e
      using low [OF that] m(3) by (meson le_trans)
    moreover have "diff_list al bl mx = Some ?ops"
      using Some e by (simp add: diff_list_def p_def Let_def)
    ultimately show ?thesis using m(2) by simp
  qed
qed


section \<open>Hunks\<close>

definition quiet :: "'l diff_op list \<Rightarrow> bool" where
  "quiet ops \<longleftrightarrow> (\<forall>p \<in> set ops. \<not> changed p)"

fun seg_good :: "'l segment \<Rightarrow> bool" where
  "seg_good (Skip r) \<longleftrightarrow> quiet r \<and> 2 \<le> length r"
| "seg_good (Lines l) \<longleftrightarrow> l \<noteq> []"

text \<open>Neighbouring segments: visible and skipped ones alternate, with the context at the seam.\<close>

fun seam :: "nat \<Rightarrow> 'l segment \<Rightarrow> 'l segment \<Rightarrow> bool" where
  "seam ctx (Lines l) (Skip r) \<longleftrightarrow> ctx \<le> length l \<and> quiet (drop (length l - ctx) l)"
| "seam ctx (Skip r) (Lines l) \<longleftrightarrow> ctx \<le> length l \<and> quiet (take ctx l)"
| "seam ctx _ _ \<longleftrightarrow> False"

definition hunks :: "nat \<Rightarrow> 'l segment list \<Rightarrow> bool" where
  "hunks ctx segs \<longleftrightarrow> successively (seam ctx) segs \<and> (\<forall>s \<in> set segs. seg_good s)"

fun is_lines :: "'l segment \<Rightarrow> bool" where
  "is_lines (Lines l) = True"
| "is_lines (Skip r) = False"

lemma quiet_simps [simp]: "quiet []" "quiet (a @ b) \<longleftrightarrow> quiet a \<and> quiet b"
  by (auto simp: quiet_def)

lemma quiet_parts: "quiet ops \<Longrightarrow> quiet (take n ops)" "quiet ops \<Longrightarrow> quiet (drop n ops)"
  by (auto simp: quiet_def dest: in_set_takeD in_set_dropD)

lemma hunks_Nil [simp]: "hunks ctx []"
  by (simp add: hunks_def)

lemma hunks_snoc: "segs \<noteq> [] \<Longrightarrow> hunks ctx (segs @ [s]) \<longleftrightarrow> hunks ctx segs \<and> seam ctx (last segs) s \<and> seg_good s"
  by (auto simp: hunks_def successively_append_iff)

lemma hunks_single: "hunks ctx [s] \<longleftrightarrow> seg_good s"
  by (simp add: hunks_def)

lemma push_lines_ops: "concat (map seg_ops (push_lines segs ops)) = concat (map seg_ops segs) @ ops"
  by (cases segs rule: rev_cases) (auto simp: push_lines_def split: segment.split)

lemma push_lines_last: "\<exists>l. push_lines segs ops \<noteq> [] \<and> last (push_lines segs ops) = Lines (l @ ops)"
  by (cases segs rule: rev_cases) (auto simp: push_lines_def split: segment.split)

lemma seam_extend: "seam ctx s (Lines l) \<Longrightarrow> seam ctx s (Lines (l @ ops))"
  by (cases s) auto

lemma push_lines_hunks:
  assumes h: "hunks ctx segs" and ne: "ops \<noteq> []"
    and quiet: "segs \<noteq> [] \<Longrightarrow> \<not> is_lines (last segs) \<Longrightarrow> ctx \<le> length ops \<and> quiet (take ctx ops)"
  shows "hunks ctx (push_lines segs ops)"
proof (cases segs rule: rev_cases)
  case Nil
  with ne show ?thesis by (simp add: push_lines_def hunks_single)
next
  case (snoc segs' s)
  show ?thesis
  proof (cases s)
    case (Lines l)
    then show ?thesis
      using h snoc seam_extend
      by (cases "segs' = []") (auto simp: push_lines_def hunks_snoc hunks_single)
  next
    case (Skip r)
    then have "push_lines segs ops = (segs' @ [s]) @ [Lines ops]" using snoc by (simp add: push_lines_def)
    moreover have "seam ctx s (Lines ops)" using quiet snoc Skip by simp
    ultimately show ?thesis using h snoc ne hunks_snoc [of "segs' @ [s]" ctx "Lines ops"] by simp
  qed
qed

lemma push_run_ops: "concat (map seg_ops (push_run ctx is_first is_last segs run)) = concat (map seg_ops segs) @ run"
proof -
  have split: "take b run @ drop b (take (length run - c) run) @ drop (length run - c) run = run"
    if "b + c + 1 < length run" for b c
    using that by (metis append_take_drop_id append.assoc take_take min.absorb1 add_leD1 less_diff_conv
        less_imp_le_nat add.commute Suc_eq_plus1 add_Suc_right Suc_lessD)
  show ?thesis
    using split [of "if is_first then 0 else ctx" "if is_last then 0 else ctx"]
    by (auto simp: push_run_def push_lines_ops Let_def)
qed

lemma push_run_hunks:
  assumes h: "hunks ctx segs" and run: "quiet run" "run \<noteq> []"
    and first: "is_first \<longleftrightarrow> segs = []" and last: "segs \<noteq> [] \<Longrightarrow> is_lines (last segs)"
  shows "hunks ctx (push_run ctx is_first is_last segs run) \<and> push_run ctx is_first is_last segs run \<noteq> [] \<and>
    (is_last \<or> ctx = 0 \<or> is_lines (last (push_run ctx is_first is_last segs run)))"
proof -
  define kb where "kb = (if is_first then 0 else ctx)"
  define ka where "ka = (if is_last then 0 else ctx)"
  show ?thesis
  proof (cases "length run \<le> kb + ka + 1")
    case True
    then have "push_run ctx is_first is_last segs run = push_lines segs run"
      by (simp add: push_run_def kb_def ka_def Let_def)
    moreover have "hunks ctx (push_lines segs run)" using h run last by (intro push_lines_hunks) auto
    ultimately show ?thesis using push_lines_last [of segs run] by auto
  next
    case False
    let ?mid = "drop kb (take (length run - ka) run)" and ?fin = "drop (length run - ka) run"
    define s1 where "s1 = (if kb > 0 then push_lines segs (take kb run) else segs)"
    have s1: "hunks ctx s1"
      unfolding s1_def using h last run False by (auto intro!: push_lines_hunks)
    have "seg_good (Skip ?mid)" using False run by (auto intro: quiet_parts)
    moreover have "seam ctx (List.last s1) (Skip ?mid)" if "s1 \<noteq> []"
    proof (cases "kb > 0")
      case True
      then obtain l where "List.last s1 = Lines (l @ take kb run)" using push_lines_last by (auto simp: s1_def)
      then show ?thesis using True False run(1) by (auto simp: kb_def intro: quiet_parts split: if_splits)
    next
      case nk: False
      with that first have "ctx = 0" "segs \<noteq> []" by (auto simp: s1_def kb_def split: if_splits)
      with last nk show ?thesis by (cases "List.last segs") (auto simp: s1_def)
    qed
    ultimately have s2: "hunks ctx (s1 @ [Skip ?mid])"
      using s1 by (cases "s1 = []") (auto simp: hunks_snoc hunks_single)
    have eq: "push_run ctx is_first is_last segs run =
        (if ka > 0 then push_lines (s1 @ [Skip ?mid]) ?fin else s1 @ [Skip ?mid])"
      using False by (simp add: push_run_def kb_def ka_def s1_def Let_def)
    show ?thesis
    proof (cases "ka > 0")
      case True
      then have "ka = ctx" by (simp add: ka_def split: if_splits)
      then have "hunks ctx (push_lines (s1 @ [Skip ?mid]) ?fin)"
        using s2 False True run(1) by (intro push_lines_hunks) (auto intro: quiet_parts)
      then show ?thesis using eq True push_lines_last [of "s1 @ [Skip ?mid]" ?fin] by auto
    next
      case nk: False
      then have "is_last \<or> ctx = 0" by (simp add: ka_def split: if_splits)
      then show ?thesis using eq nk s2 by simp
    qed
  qed
qed

lemma segments_from_spec:
  "hunks ctx segs \<Longrightarrow> (first \<longleftrightarrow> segs = []) \<Longrightarrow>
    (ops \<noteq> [] \<Longrightarrow> segs \<noteq> [] \<Longrightarrow> is_lines (last segs) \<or> (changed (hd ops) \<and> ctx = 0)) \<Longrightarrow>
    hunks ctx (segments_from ctx first segs ops) \<and>
    concat (map seg_ops (segments_from ctx first segs ops)) = concat (map seg_ops segs) @ ops"
proof (induction ctx first segs ops rule: segments_from.induct)
  case (1 ctx first segs ops)
  consider (empty) "ops = []" | (change) "ops \<noteq> []" "changed (hd ops)" | (run) "ops \<noteq> []" "\<not> changed (hd ops)"
    by blast
  then show ?case
  proof cases
    case empty
    have "segments_from ctx first segs ops = segs"
      by (subst segments_from.simps) (simp add: empty)
    then show ?thesis using "1.prems"(1) empty by simp
  next
    case change
    let ?run = "takeWhile changed ops" and ?rest = "dropWhile changed ops"
    have ne: "?run \<noteq> []" using change by (cases ops) auto
    have h: "hunks ctx (push_lines segs ?run)"
      using "1.prems" change ne by (intro push_lines_hunks) auto
    have st: "segments_from ctx first segs ops = segments_from ctx False (push_lines segs ?run) ?rest"
      using change by (simp add: segments_from.simps [of ctx first segs ops])
    show ?thesis
      unfolding st using "1.IH"(1) [OF change h] push_lines_last [of segs ?run] push_lines_ops [of segs ?run] by auto
  next
    case run
    let ?run = "takeWhile (\<lambda>p. \<not> changed p) ops" and ?rest = "dropWhile (\<lambda>p. \<not> changed p) ops"
    let ?segs = "push_run ctx first (?rest = []) segs ?run"
    have ne: "?run \<noteq> []" using run by (cases ops) auto
    have q: "quiet ?run" by (auto simp: quiet_def dest: set_takeWhileD)
    have h: "hunks ctx ?segs \<and> ?segs \<noteq> [] \<and> (?rest = [] \<or> ctx = 0 \<or> is_lines (last ?segs))"
      using "1.prems" run ne q by (intro push_run_hunks) auto
    have st: "segments_from ctx first segs ops = segments_from ctx False ?segs ?rest"
      using run by (simp add: segments_from.simps [of ctx first segs ops] Let_def)
    have "changed (hd ?rest)" if "?rest \<noteq> []"
      using hd_dropWhile [OF that] by simp
    then show ?thesis
      unfolding st using "1.IH"(2) [OF run refl refl] h push_run_ops [of ctx first "?rest = []" segs ?run] by auto
  qed
qed


section \<open>Properties\<close>

lemma aligned_sides: "aligned i j ops xs ys \<Longrightarrow>
    map op_line (filter (\<lambda>p. op_type p \<noteq> Insert) ops) = xs \<and>
    map op_line (filter (\<lambda>p. op_type p \<noteq> Delete) ops) = ys"
  by (induction rule: aligned.induct) (auto simp: equal_op_def delete_op_def insert_op_def)

lemma upto_shift: "map (\<lambda>n. i + int n) [Suc 0..<Suc (Suc k)] = (i + 1) # map (\<lambda>n. i + 1 + int n) [Suc 0..<Suc k]"
  by (simp add: upt_conv_Cons map_Suc_upt [symmetric] comp_def algebra_simps del: upt_Suc)

lemma aligned_numbers: "aligned i j ops xs ys \<Longrightarrow>
    List.map_filter op_a ops = map (\<lambda>n. i + int n) [1..<Suc (length xs)] \<and>
    List.map_filter op_b ops = map (\<lambda>n. j + int n) [1..<Suc (length ys)]"
  by (induction rule: aligned.induct)
    (auto simp: equal_op_def delete_op_def insert_op_def upto_shift map_filter_simps simp del: upt_Suc)

lemmas diff_eval = diff_lines_def diff_list_def split_lines_def js_def myers_def Let_def
  backtrack.simps goes_down_def start_x_def snapshot_def diagonals_def
  search.simps slide.simps unslide.simps shift_op_def equal_op_def delete_op_def insert_op_def

text \<open>
  C24: A diff reproduces both texts. The unchanged and deleted lines joined by newlines are the
  first text, the unchanged and inserted ones the second, and the line numbers shown on the two
  sides count up from 1 without a gap.
\<close>

theorem diff_lines_sound:
  assumes "diff_lines a b max_edits = Some ops"
  shows "join [10] (map op_line (filter (\<lambda>p. op_type p \<noteq> Insert) ops)) = a \<and>
    join [10] (map op_line (filter (\<lambda>p. op_type p \<noteq> Delete) ops)) = b \<and>
    List.map_filter op_a ops = map int [1..<Suc (length (split_lines a))] \<and>
    List.map_filter op_b ops = map int [1..<Suc (length (split_lines b))]"
proof -
  have "aligned 0 0 ops (split_lines a) (split_lines b)"
    using diff_list_spec [of "split_lines a" "split_lines b" max_edits] assms by (simp add: diff_lines_def)
  from aligned_sides [OF this] aligned_numbers [OF this] show ?thesis
    by (simp add: split_lines_def join_split del: upt_Suc)
qed

theorem diff_lines_sound_witness:
  "\<exists>ops. diff_lines (js ''a'' @ [10] @ js ''b'') (js ''b'') 5 = Some ops \<and>
    join [10] (map op_line (filter (\<lambda>p. op_type p \<noteq> Insert) ops)) = js ''a'' @ [10] @ js ''b''"
proof -
  have "diff_lines (js ''a'' @ [10] @ js ''b'') (js ''b'') 5 = Some [delete_op (js ''a'') 1, equal_op (js ''b'') 2 1]"
    by (simp add: diff_eval)
  with diff_lines_sound [OF this] show ?thesis by blast
qed

text \<open>
  C23: The diff is as short as possible and gives up exactly when it has to: with \<open>Some\<close> the
  number of deleted and inserted lines is at most \<open>maxEdits\<close> and no edit script between the two
  texts has fewer; with \<open>null\<close> every edit script needs more than \<open>maxEdits\<close>.
\<close>

theorem diff_lines_optimal:
  "case diff_lines a b max_edits of
     None \<Rightarrow> \<forall>d. script d (split_lines a) (split_lines b) \<longrightarrow> max_edits < d
   | Some ops \<Rightarrow> fst (count_changes ops) + snd (count_changes ops) \<le> max_edits \<and>
       script (fst (count_changes ops) + snd (count_changes ops)) (split_lines a) (split_lines b) \<and>
       (\<forall>d. script d (split_lines a) (split_lines b) \<longrightarrow> fst (count_changes ops) + snd (count_changes ops) \<le> d)"
proof -
  have c: "fst (count_changes ops) + snd (count_changes ops) = changes ops" for ops :: "jstr diff_op list"
  proof (induction ops)
    case (Cons p ops)
    then show ?case by (cases "op_type p") (auto simp: count_changes_def changed_def changes_def)
  qed (simp add: count_changes_def changes_def)
  show ?thesis
    unfolding c using diff_list_spec [of "split_lines a" "split_lines b" max_edits] aligned_script
    by (auto simp: diff_lines_def split: option.splits)
qed

theorem diff_lines_optimal_witness:
  "\<not> script 0 (split_lines (js ''a'')) (split_lines (js ''b''))"
proof -
  have "diff_lines (js ''a'') (js ''b'') 0 = None"
    by (simp add: diff_eval)
  with diff_lines_optimal [of "js ''a''" "js ''b''" 0] show ?thesis by auto
qed

text \<open>
  Grouping a diff into hunks loses and reorders nothing: the operations of the segments in
  order are the operations of the diff. Visible and collapsed segments alternate; a collapsed
  one holds at least two lines, all unchanged, and next to it the visible segments show
  \<open>context\<close> unchanged lines, so no change is closer than that to collapsed lines.
\<close>

theorem to_segments_hunks:
  "concat (map seg_ops (to_segments ops ctx)) = ops \<and> hunks ctx (to_segments ops ctx)"
  using segments_from_spec [of ctx "[]" True ops] by (simp add: to_segments_def)

end
