(* ===== verification/Bytes.thy ===== *)
theory Bytes
  imports Strings
begin

text \<open>
  Bytes and their text forms as the browser defines them: base64 (\<open>btoa\<close>, the forgiving
  \<open>atob\<close>, and the strict pattern of the export files) and UTF-8 (\<open>TextEncoder\<close>, which
  replaces lone surrogates, and the decoder automaton behind \<open>TextDecoder\<close> with its fatal and
  its replacing mode). Binary strings of \<open>atob\<close> are byte lists.
\<close>

type_synonym byte = "8 word"

section \<open>Base64\<close>

definition b64_char :: "nat \<Rightarrow> cu" where
  "b64_char n = (if n < 26 then of_nat (65 + n) else if n < 52 then of_nat (71 + n)
     else if n < 62 then of_nat (n - 4) else if n = 62 then 43 else 47)"

definition b64_val :: "cu \<Rightarrow> nat option" where
  "b64_val c = (if 65 \<le> c \<and> c \<le> 90 then Some (unat c - 65)
     else if 97 \<le> c \<and> c \<le> 122 then Some (unat c - 71)
     else if 48 \<le> c \<and> c \<le> 57 then Some (unat c + 4)
     else if c = 43 then Some 62 else if c = 47 then Some 63 else None)"

definition b64_3 :: "nat \<Rightarrow> cu list" where
  "b64_3 n = map b64_char [n div 262144, n div 4096 mod 64, n div 64 mod 64, n mod 64]"

fun btoa :: "byte list \<Rightarrow> jstr" where
  "btoa (a # b # c # r) = b64_3 (unat a * 65536 + unat b * 256 + unat c) @ btoa r"
| "btoa [a, b] = take 3 (b64_3 (unat a * 65536 + unat b * 256)) @ js ''=''"
| "btoa [a] = take 2 (b64_3 (unat a * 65536)) @ js ''==''"
| "btoa [] = []"

fun b64_bytes :: "nat list \<Rightarrow> byte list" where
  "b64_bytes (p # q # r # s # rest) =
     (let n = p * 262144 + q * 4096 + r * 64 + s
      in of_nat (n div 65536) # of_nat (n div 256 mod 256) # of_nat (n mod 256) # b64_bytes rest)"
| "b64_bytes [p, q, r] =
     (let n = p * 262144 + q * 4096 + r * 64 in [of_nat (n div 65536), of_nat (n div 256 mod 256)])"
| "b64_bytes [p, q] = [of_nat ((p * 262144 + q * 4096) div 65536)]"
| "b64_bytes _ = []"

definition ascii_space :: "cu \<Rightarrow> bool" where
  "ascii_space c \<longleftrightarrow> c \<in> {9, 10, 12, 13, 32}"

definition drop_last_eq :: "jstr \<Rightarrow> jstr" where
  "drop_last_eq s = (if s \<noteq> [] \<and> last s = 61 then butlast s else s)"

text \<open>\<open>atob\<close>; \<open>None\<close> is its \<open>InvalidCharacterError\<close>.\<close>

definition atob :: "jstr \<Rightarrow> byte list option" where
  "atob s =
     (let t = filter (\<lambda>c. \<not> ascii_space c) s;
          u = (if length t mod 4 = 0 then drop_last_eq (drop_last_eq t) else t)
      in if length u mod 4 = 1 then None
         else if list_all (\<lambda>c. b64_val c \<noteq> None) u then Some (b64_bytes (map (\<lambda>c. the (b64_val c)) u))
         else None)"

lemma b64_val_char [simp]: "n < 64 \<Longrightarrow> b64_val (b64_char n) = Some n"
proof -
  assume "n < 64"
  then have "n \<in> set [0..<64]" by simp
  moreover have "list_all (\<lambda>n. b64_val (b64_char n) = Some n) [0..<64]"
    by (simp add: upt_conv_Cons b64_char_def b64_val_def)
  ultimately show ?thesis by (simp only: list_all_iff)
qed

lemma b64_char_plain: "n < 64 \<Longrightarrow> \<not> ascii_space (b64_char n) \<and> b64_char n \<noteq> 61"
  using b64_val_char [of n] by (auto simp: ascii_space_def b64_val_def)

lemma byte_less [simp]: "unat (b :: byte) < 256"
  using unsigned_less [of b] by simp

lemma of_nat_byte [simp]: "of_nat (unat (b :: byte)) = b"
  by simp

definition plain64 :: "jstr \<Rightarrow> bool" where
  "plain64 s \<longleftrightarrow> (\<forall>c \<in> set s. \<exists>n < 64. c = b64_char n)"

definition b64_vals :: "jstr \<Rightarrow> nat list" where
  "b64_vals s = map (\<lambda>c. the (b64_val c)) s"

text \<open>The characters without the padding, and how much padding.\<close>

lemma b64_3_plain: "n < 16777216 \<Longrightarrow> plain64 (b64_3 n)"
proof -
  assume "n < 16777216"
  then have "n div 262144 < 64" by (simp add: less_mult_imp_div_less)
  then show ?thesis
    unfolding plain64_def b64_3_def by (auto intro: exI [of _ "n div 4096 mod 64"] exI [of _ "n div 64 mod 64"] exI [of _ "n mod 64"])
qed

lemma b64_3_vals: "n < 16777216 \<Longrightarrow> b64_vals (b64_3 n) = [n div 262144, n div 4096 mod 64, n div 64 mod 64, n mod 64]"
proof -
  assume "n < 16777216"
  then have "n div 262144 < 64" by (simp add: less_mult_imp_div_less)
  then show ?thesis by (simp add: b64_vals_def b64_3_def)
qed

lemma split24: "n div 262144 * 262144 + n div 4096 mod 64 * 4096 + n div 64 mod 64 * 64 + n mod 64 = (n :: nat)"
proof -
  define a b c where "a = n div 64" and "b = a div 64" and "c = b div 64"
  have "n div 262144 = c" "n div 4096 = b" "n div 64 = a"
    by (simp_all add: a_def b_def c_def div_mult2_eq [symmetric])
  moreover have "n = a * 64 + n mod 64" "a = b * 64 + a mod 64" "b = c * 64 + b mod 64"
    by (simp_all add: a_def b_def c_def)
  ultimately show ?thesis by (simp only:)
qed

lemma mult64: "(x * 65536) mod 64 = (0 :: nat)" "(x * 65536) div 64 mod 64 = (0 :: nat)" "(y * 256) mod 64 = (0 :: nat)"
    "(x * 65536 + y * 256) mod 64 = (0 :: nat)"
proof -
  have e: "x * 65536 = x * 1024 * 64" "x * 1024 = x * 16 * 64" "y * 256 = y * 4 * 64"
    "x * 65536 + y * 256 = (x * 1024 + y * 4) * 64" by simp_all
  show "(x * 65536) mod 64 = 0" unfolding e(1) by (rule mod_mult_self2_is_0)
  have "(x * 65536) div 64 = x * 16 * 64" unfolding e(1) by simp
  then show "(x * 65536) div 64 mod 64 = 0" by (simp only: mod_mult_self2_is_0)
  show "(y * 256) mod 64 = 0" unfolding e(3) by (rule mod_mult_self2_is_0)
  show "(x * 65536 + y * 256) mod 64 = 0" unfolding e(4) by (rule mod_mult_self2_is_0)
qed

lemma div256: "r < 256 \<Longrightarrow> (q * 256 + r) div 256 = (q :: nat)" "r < 256 \<Longrightarrow> (q * 256 + r) mod 256 = (r :: nat)"
  by simp_all

lemma bytes24: fixes a b c :: byte
  defines "n \<equiv> unat a * 65536 + unat b * 256 + unat c"
  shows "n < 16777216" "n div 65536 = unat a" "n div 256 mod 256 = unat b" "n mod 256 = unat c"
proof -
  have l: "unat a < 256" "unat b < 256" "unat c < 256" by simp_all
  then show "n < 16777216" unfolding n_def by linarith
  have e: "n = (unat a * 256 + unat b) * 256 + unat c" by (simp add: n_def)
  have d: "n div 256 = unat a * 256 + unat b" "n mod 256 = unat c" unfolding e using l by (simp_all only: div256)
  then show "n mod 256 = unat c" "n div 256 mod 256 = unat b" using l d by (simp_all only: div256)
  have "n div 65536 = n div 256 div 256" by (simp add: div_mult2_eq [symmetric])
  then show "n div 65536 = unat a" using d l by (simp only: div256)
qed

text \<open>What \<open>btoa\<close> writes is plain characters and padding that completes a group of four.\<close>

lemma btoa_shape: "\<exists>u p. btoa bs = u @ replicate p 61 \<and> plain64 u \<and> b64_bytes (b64_vals u) = bs \<and>
    (length u + p) mod 4 = 0 \<and> p \<le> 2"
proof (induction bs rule: btoa.induct)
  case (1 a b c r)
  then obtain u p where u: "btoa r = u @ replicate p 61" "plain64 u" "b64_bytes (b64_vals u) = r"
    "(length u + p) mod 4 = 0" "p \<le> 2" by auto
  let ?n = "unat a * 65536 + unat b * 256 + unat c"
  note n = bytes24 [of a b c]
  have "b64_bytes (b64_vals (b64_3 ?n @ u)) = a # b # c # r"
    using b64_3_vals [OF n(1)] split24 [of ?n] n u(3) by (simp add: b64_vals_def Let_def)
  moreover have "plain64 (b64_3 ?n @ u)" using b64_3_plain [OF n(1)] u(2) by (auto simp: plain64_def)
  ultimately show ?case
    using u by (intro exI [of _ "b64_3 ?n @ u"] exI [of _ p]) (simp add: b64_3_def)
next
  case (2 a b)
  let ?n = "unat a * 65536 + unat b * 256"
  note n = bytes24 [of a b 0, simplified]
  have z: "?n mod 64 = 0" by (rule mult64)
  have v: "b64_vals (take 3 (b64_3 ?n)) = [?n div 262144, ?n div 4096 mod 64, ?n div 64 mod 64]"
    using b64_3_vals [OF n(1)] by (simp add: b64_vals_def take_map [symmetric])
  have "b64_bytes (b64_vals (take 3 (b64_3 ?n))) = [a, b]"
    unfolding v using split24 [of ?n] n z by (simp add: Let_def)
  moreover have "plain64 (take 3 (b64_3 ?n))"
    using b64_3_plain [OF n(1)] by (auto simp: plain64_def dest: in_set_takeD)
  ultimately show ?case
    by (intro exI [of _ "take 3 (b64_3 ?n)"] exI [of _ 1]) (simp add: b64_3_def js_def)
next
  case (3 a)
  let ?n = "unat a * 65536"
  have n: "?n < 16777216" "?n div 65536 = unat a" using byte_less [of a] by (linarith, simp)
  have z: "?n mod 64 = 0" "?n div 64 mod 64 = 0" by (rule mult64)+
  have v: "b64_vals (take 2 (b64_3 ?n)) = [?n div 262144, ?n div 4096 mod 64]"
    using b64_3_vals [OF n(1)] by (simp add: b64_vals_def take_map [symmetric])
  have "b64_bytes (b64_vals (take 2 (b64_3 ?n))) = [a]"
    unfolding v using split24 [of ?n] n z by simp
  moreover have "plain64 (take 2 (b64_3 ?n))"
    using b64_3_plain [OF n(1)] by (auto simp: plain64_def dest: in_set_takeD)
  ultimately show ?case
    by (intro exI [of _ "take 2 (b64_3 ?n)"] exI [of _ 2]) (simp add: b64_3_def js_def numeral_2_eq_2)
next
  case 4
  then show ?case by (intro exI [of _ "[]"] exI [of _ 0]) (simp add: plain64_def b64_vals_def)
qed

lemma plain64_last: "plain64 u \<Longrightarrow> u \<noteq> [] \<Longrightarrow> last u \<noteq> 61"
  using b64_char_plain by (metis last_in_set plain64_def)

lemma atob_btoa [simp]: "atob (btoa bs) = Some bs"
proof -
  obtain u p where u: "btoa bs = u @ replicate p 61" "plain64 u" "b64_bytes (b64_vals u) = bs"
    "(length u + p) mod 4 = 0" "p \<le> 2" using btoa_shape [of bs] by auto
  have f: "filter (\<lambda>c. \<not> ascii_space c) (u @ replicate p 61) = u @ replicate p 61"
    using u(2) b64_char_plain by (auto simp: filter_id_conv plain64_def ascii_space_def)
  have d: "drop_last_eq u = u" using plain64_last [OF u(2)] by (auto simp: drop_last_eq_def)
  have "p = 0 \<or> p = 1 \<or> p = 2" using u(5) by linarith
  then have d2: "drop_last_eq (drop_last_eq (u @ replicate p 61)) = u"
    using d by (auto simp: drop_last_eq_def numeral_2_eq_2 butlast_append)
  have "length u mod 4 \<noteq> 1" using u(4,5) by presburger
  moreover have "list_all (\<lambda>c. b64_val c \<noteq> None) u"
    using u(2) by (auto simp: list_all_iff plain64_def)
  ultimately show ?thesis
    unfolding u(1) atob_def Let_def f using u(3,4) d2 by (simp add: b64_vals_def)
qed

text \<open>The strict pattern: groups of four, padding only in the last one, no white space.\<close>

fun strict64 :: "jstr \<Rightarrow> bool" where
  "strict64 [] = True"
| "strict64 [a, b, c, d] \<longleftrightarrow> b64_val a \<noteq> None \<and> b64_val b \<noteq> None \<and>
     ((b64_val c \<noteq> None \<and> (b64_val d \<noteq> None \<or> d = 61)) \<or> (c = 61 \<and> d = 61))"
| "strict64 (a # b # c # d # r) \<longleftrightarrow>
     b64_val a \<noteq> None \<and> b64_val b \<noteq> None \<and> b64_val c \<noteq> None \<and> b64_val d \<noteq> None \<and> strict64 r"
| "strict64 _ = False"

lemma strict64_group: "plain64 g \<Longrightarrow> length g = 4 \<Longrightarrow> strict64 r \<Longrightarrow> strict64 (g @ r)"
  by (cases g rule: strict64.cases; cases r) (auto simp: plain64_def)

lemma strict64_btoa [simp]: "strict64 (btoa bs)"
proof (induction bs rule: btoa.induct)
  case (1 a b c r)
  show ?case
    using strict64_group [OF b64_3_plain [OF bytes24(1) [of a b c]] _ 1] by (simp add: b64_3_def)
next
  case (2 a b)
  then show ?case using b64_3_plain [OF bytes24(1) [of a b 0]]
    by (auto simp: b64_3_def plain64_def js_def)
next
  case (3 a)
  then show ?case using b64_3_plain [OF bytes24(1) [of a 0 0]]
    by (auto simp: b64_3_def plain64_def js_def)
qed simp


section \<open>UTF-8\<close>

definition hi_sur :: "nat \<Rightarrow> bool" where
  "hi_sur n \<longleftrightarrow> 0xD800 \<le> n \<and> n \<le> 0xDBFF"

definition lo_sur :: "nat \<Rightarrow> bool" where
  "lo_sur n \<longleftrightarrow> 0xDC00 \<le> n \<and> n \<le> 0xDFFF"

text \<open>The scalar values of a string, a lone surrogate read as U+FFFD.\<close>

fun scalars :: "jstr \<Rightarrow> nat list" where
  "scalars [] = []"
| "scalars [c] = [if hi_sur (unat c) \<or> lo_sur (unat c) then 0xFFFD else unat c]"
| "scalars (c # d # r) =
     (if hi_sur (unat c) \<and> lo_sur (unat d)
      then (0x10000 + (unat c - 0xD800) * 1024 + (unat d - 0xDC00)) # scalars r
      else (if hi_sur (unat c) \<or> lo_sur (unat c) then 0xFFFD else unat c) # scalars (d # r))"

fun well_formed :: "jstr \<Rightarrow> bool" where
  "well_formed [] = True"
| "well_formed [c] \<longleftrightarrow> \<not> (hi_sur (unat c) \<or> lo_sur (unat c))"
| "well_formed (c # d # r) \<longleftrightarrow>
     (if hi_sur (unat c) \<and> lo_sur (unat d) then well_formed r
      else \<not> (hi_sur (unat c) \<or> lo_sur (unat c)) \<and> well_formed (d # r))"

definition utf16 :: "nat \<Rightarrow> jstr" where
  "utf16 n = (if n < 0x10000 then [of_nat n]
     else [of_nat (0xD800 + (n - 0x10000) div 1024), of_nat (0xDC00 + (n - 0x10000) mod 1024)])"

definition scalar :: "nat \<Rightarrow> bool" where
  "scalar n \<longleftrightarrow> n < 0x110000 \<and> \<not> hi_sur n \<and> \<not> lo_sur n"

lemma cu_less: "unat (c :: cu) < 65536"
  using unsigned_less [of c] by simp

lemma scalars_scalar: "n \<in> set (scalars s) \<Longrightarrow> scalar n"
proof (induction s rule: scalars.induct)
  case (2 c)
  then show ?case using cu_less [of c] by (auto simp: scalar_def hi_sur_def lo_sur_def split: if_splits)
next
  case (3 c d r)
  then show ?case
    using cu_less [of c] by (auto simp: scalar_def hi_sur_def lo_sur_def split: if_splits)
qed simp

lemma word_of_nat_unat: "of_nat (unat w) = (w :: 'a :: len word)"
  by simp

lemma utf16_pair: "l < 1024 \<Longrightarrow> utf16 (0x10000 + h * 1024 + l) = [of_nat (0xD800 + h), of_nat (0xDC00 + l)]"
proof -
  assume l: "l < 1024"
  have e: "0x10000 + h * 1024 + l - 0x10000 = h * 1024 + l" "\<not> 0x10000 + h * 1024 + l < 0x10000" by simp_all
  have q: "(h * 1024 + l) div 1024 = h" "(h * 1024 + l) mod 1024 = l" using l by simp_all
  show ?thesis unfolding utf16_def by (simp only: e q if_False)
qed

lemma utf16_scalars: "well_formed s \<Longrightarrow> concat (map utf16 (scalars s)) = s"
proof (induction s rule: scalars.induct)
  case (2 c)
  then show ?case using cu_less [of c] by (simp add: utf16_def)
next
  case (3 c d r)
  show ?case
  proof (cases "hi_sur (unat c) \<and> lo_sur (unat d)")
    case True
    let ?h = "unat c - 0xD800" and ?l = "unat d - 0xDC00"
    have b: "?l < 1024" "0xD800 \<le> unat c" "0xDC00 \<le> unat d" using True by (auto simp: hi_sur_def lo_sur_def)
    have "utf16 (0x10000 + ?h * 1024 + ?l) = [of_nat (0xD800 + ?h), of_nat (0xDC00 + ?l)]"
      by (rule utf16_pair [OF b(1)])
    moreover have "0xD800 + ?h = unat c" "0xDC00 + ?l = unat d" using b by simp_all
    ultimately have "utf16 (0x10000 + ?h * 1024 + ?l) = [c, d]" by (simp only: word_of_nat_unat)
    then show ?thesis using True 3 by simp
  next
    case False
    then show ?thesis using 3 cu_less [of c] by (auto simp: utf16_def)
  qed
qed simp

definition utf8_bytes :: "nat \<Rightarrow> byte list" where
  "utf8_bytes n =
     (if n < 0x80 then [of_nat n]
      else if n < 0x800 then [of_nat (0xC0 + n div 64), of_nat (0x80 + n mod 64)]
      else if n < 0x10000 then [of_nat (0xE0 + n div 4096), of_nat (0x80 + n div 64 mod 64), of_nat (0x80 + n mod 64)]
      else [of_nat (0xF0 + n div 262144), of_nat (0x80 + n div 4096 mod 64), of_nat (0x80 + n div 64 mod 64),
            of_nat (0x80 + n mod 64)])"

text \<open>\<open>new TextEncoder().encode\<close>.\<close>

definition utf8 :: "jstr \<Rightarrow> byte list" where
  "utf8 s = concat (map utf8_bytes (scalars s))"

text \<open>
  The decoder automaton: bytes still needed, the code point so far and the range the next byte
  must be in; a byte that does not fit is an error and is read again. \<open>None\<close> in the result is
  an error at that place.
\<close>

function u8 :: "nat \<Rightarrow> nat \<Rightarrow> nat \<Rightarrow> nat \<Rightarrow> byte list \<Rightarrow> nat option list" where
  "u8 need cp lo hi [] = (if need = 0 then [] else [None])"
| "u8 need cp lo hi (b # bs) =
     (let n = unat b in
      if need = 0 then
        (if n < 0x80 then Some n # u8 0 0 0x80 0xBF bs
         else if 0xC2 \<le> n \<and> n \<le> 0xDF then u8 1 (n - 0xC0) 0x80 0xBF bs
         else if 0xE0 \<le> n \<and> n \<le> 0xEF
           then u8 2 (n - 0xE0) (if n = 0xE0 then 0xA0 else 0x80) (if n = 0xED then 0x9F else 0xBF) bs
         else if 0xF0 \<le> n \<and> n \<le> 0xF4
           then u8 3 (n - 0xF0) (if n = 0xF0 then 0x90 else 0x80) (if n = 0xF4 then 0x8F else 0xBF) bs
         else None # u8 0 0 0x80 0xBF bs)
      else if n < lo \<or> hi < n then None # u8 0 0 0x80 0xBF (b # bs)
      else let cp' = cp * 64 + n mod 64
        in if need = 1 then Some cp' # u8 0 0 0x80 0xBF bs else u8 (need - 1) cp' 0x80 0xBF bs)"
  by pat_completeness auto

termination u8
  by (relation "measure (\<lambda>(need, cp, lo, hi, bs). 2 * length bs + (if need = 0 then 0 else 1))") auto

declare u8.simps(2) [simp del]

definition u8_start :: "byte list \<Rightarrow> nat option list" where
  "u8_start bs = u8 0 0 0x80 0xBF bs"

definition drop_bom :: "nat option list \<Rightarrow> nat option list" where
  "drop_bom xs = (if xs \<noteq> [] \<and> hd xs = Some 0xFEFF then tl xs else xs)"

text \<open>\<open>new TextDecoder("utf-8")\<close>, without and with \<open>fatal\<close>; a leading byte order mark is dropped.\<close>

definition utf8_decode :: "byte list \<Rightarrow> jstr" where
  "utf8_decode bs = concat (map (\<lambda>x. utf16 (case x of None \<Rightarrow> 0xFFFD | Some n \<Rightarrow> n)) (drop_bom (u8_start bs)))"

definition utf8_decode_fatal :: "byte list \<Rightarrow> jstr option" where
  "utf8_decode_fatal bs =
     (let xs = drop_bom (u8_start bs)
      in if None \<in> set xs then None else Some (concat (map (\<lambda>x. utf16 (the x)) xs)))"

lemma byte_unat [simp]: "n < 256 \<Longrightarrow> unat (of_nat n :: byte) = n"
  by (simp add: unat_of_nat)

lemma mod64_shift: "(0x80 + m) mod 64 = (m :: nat) mod 64"
proof -
  have "0x80 + m = m + 2 * 64" by simp
  then show ?thesis by (simp only: mod_mult_self1)
qed

lemma u8_cont: "m < 64 \<Longrightarrow> lo \<le> 0x80 + m \<Longrightarrow> 0x80 + m \<le> hi \<Longrightarrow> 0 < need \<Longrightarrow>
    u8 need cp lo hi (of_nat (0x80 + m) # bs) =
      (if need = 1 then Some (cp * 64 + m) # u8_start bs else u8 (need - 1) (cp * 64 + m) 0x80 0xBF bs)"
proof -
  assume m: "m < 64" "lo \<le> 0x80 + m" "0x80 + m \<le> hi" "0 < need"
  then have "unat (of_nat (0x80 + m) :: byte) = 0x80 + m" "(0x80 + m) mod 64 = m"
    by (simp_all only: byte_unat mod64_shift mod_less)
  with m show ?thesis unfolding u8_start_def by (subst u8.simps(2)) (simp add: Let_def del: of_nat_add)
qed

lemma u8_lead:
  "n < 0x80 \<Longrightarrow> u8_start (of_nat n # bs) = Some n # u8_start bs"
  "2 \<le> q \<Longrightarrow> q < 32 \<Longrightarrow> u8_start (of_nat (0xC0 + q) # bs) = u8 1 q 0x80 0xBF bs"
  "q < 16 \<Longrightarrow> u8_start (of_nat (0xE0 + q) # bs) =
    u8 2 q (if q = 0 then 0xA0 else 0x80) (if q = 13 then 0x9F else 0xBF) bs"
  "q \<le> 4 \<Longrightarrow> u8_start (of_nat (0xF0 + q) # bs) =
    u8 3 q (if q = 0 then 0x90 else 0x80) (if q = 4 then 0x8F else 0xBF) bs"
proof -
  assume n: "n < 0x80"
  then have "unat (of_nat n :: byte) = n" by simp
  with n show "u8_start (of_nat n # bs) = Some n # u8_start bs"
    unfolding u8_start_def by (subst u8.simps(2)) (simp add: Let_def)
next
  assume q: "2 \<le> q" "q < 32"
  then have "unat (of_nat (0xC0 + q) :: byte) = 0xC0 + q" by (intro byte_unat) simp
  with q show "u8_start (of_nat (0xC0 + q) # bs) = u8 1 q 0x80 0xBF bs"
    unfolding u8_start_def by (subst u8.simps(2)) (simp add: Let_def del: of_nat_add)
next
  assume q: "q < 16"
  then have "unat (of_nat (0xE0 + q) :: byte) = 0xE0 + q" by (intro byte_unat) simp
  with q show "u8_start (of_nat (0xE0 + q) # bs) =
      u8 2 q (if q = 0 then 0xA0 else 0x80) (if q = 13 then 0x9F else 0xBF) bs"
    unfolding u8_start_def by (subst u8.simps(2)) (simp add: Let_def del: of_nat_add)
next
  assume q: "q \<le> 4"
  then have "unat (of_nat (0xF0 + q) :: byte) = 0xF0 + q" by (intro byte_unat) simp
  with q show "u8_start (of_nat (0xF0 + q) # bs) =
      u8 3 q (if q = 0 then 0x90 else 0x80) (if q = 4 then 0x8F else 0xBF) bs"
    unfolding u8_start_def by (subst u8.simps(2)) (simp add: Let_def del: of_nat_add)
qed

lemma recombine: "n div 64 * 64 + n mod 64 = (n :: nat)" "n div 4096 * 64 + n div 64 mod 64 = (n div 64 :: nat)"
    "n div 262144 * 64 + n div 4096 mod 64 = (n div 4096 :: nat)"
proof -
  have "n div 4096 = n div 64 div 64" "n div 262144 = n div 4096 div 64" by (simp_all add: div_mult2_eq [symmetric])
  then show "n div 64 * 64 + n mod 64 = (n :: nat)" "n div 4096 * 64 + n div 64 mod 64 = (n div 64 :: nat)"
    "n div 262144 * 64 + n div 4096 mod 64 = (n div 4096 :: nat)" by simp_all
qed

lemma u8_bytes:
  assumes "scalar n"
  shows "u8_start (utf8_bytes n @ bs) = Some n # u8_start bs"
proof -
  consider (one) "n < 0x80" | (two) "0x80 \<le> n" "n < 0x800" | (three) "0x800 \<le> n" "n < 0x10000" | (four) "0x10000 \<le> n" "n < 0x110000"
    using assms by (auto simp: scalar_def) linarith
  then show ?thesis
  proof cases
    case one
    then show ?thesis by (simp add: utf8_bytes_def u8_lead)
  next
    case two
    then have "2 \<le> n div 64" "n div 64 < 32" "n mod 64 < 64" by auto
    moreover have "utf8_bytes n = [of_nat (0xC0 + n div 64), of_nat (0x80 + n mod 64)]"
      using two by (simp add: utf8_bytes_def)
    ultimately show ?thesis using recombine(1) [of n]
      by (simp add: u8_lead u8_cont del: of_nat_add)
  next
    case three
    have d: "n div 4096 = n div 64 div 64" by (simp add: div_mult2_eq [symmetric])
    have b: "n div 4096 < 16" "n div 64 mod 64 < 64" "n mod 64 < 64" using three by auto
    have lo: "n div 4096 = 0 \<Longrightarrow> 32 \<le> n div 64 mod 64" using three d by auto
    have hi: "n div 4096 = 13 \<Longrightarrow> n div 64 mod 64 < 32"
    proof (rule ccontr)
      assume a: "n div 4096 = 13" "\<not> n div 64 mod 64 < 32"
      then have "13 * 64 + 32 \<le> n div 64" using recombine(2) [of n] by linarith
      moreover have "n div 64 < 14 * 64" using recombine(2) [of n] a(1) b(2) by linarith
      ultimately have "0xD800 \<le> n" "n < 0xE000" using recombine(1) [of n] by linarith+
      with assms show False by (auto simp: scalar_def hi_sur_def lo_sur_def)
    qed
    have r: "n div 4096 * 64 + n div 64 mod 64 = n div 64" "n div 64 * 64 + n mod 64 = n" by (fact recombine)+
    show ?thesis
    proof -
      have e: "utf8_bytes n = [of_nat (0xE0 + n div 4096), of_nat (0x80 + n div 64 mod 64), of_nat (0x80 + n mod 64)]"
        using three unfolding utf8_bytes_def by simp
      have "(if n div 4096 = 0 then 0xA0 else 0x80) \<le> 0x80 + n div 64 mod 64"
        "0x80 + n div 64 mod 64 \<le> (if n div 4096 = 13 then 0x9F else 0xBF)"
        using lo hi b(2) by auto
      then show ?thesis
        unfolding e append_Cons append_Nil u8_lead(3) [OF b(1)]
        by (subst u8_cont [OF b(2)]) (simp_all add: r u8_cont [OF b(3)] del: of_nat_add)
    qed
  next
    case four
    have d: "n div 262144 = n div 4096 div 64" by (simp add: div_mult2_eq [symmetric])
    have b: "n div 262144 \<le> 4" "n div 4096 mod 64 < 64" "n div 64 mod 64 < 64" "n mod 64 < 64" using four by auto
    have x: "16 \<le> n div 4096" "n div 4096 < 272" using four by auto
    have lo: "n div 262144 = 0 \<Longrightarrow> 16 \<le> n div 4096 mod 64" using x d by auto
    have hi: "n div 262144 = 4 \<Longrightarrow> n div 4096 mod 64 < 16" using x recombine(3) [of n] by linarith
    have r: "n div 262144 * 64 + n div 4096 mod 64 = n div 4096" "n div 4096 * 64 + n div 64 mod 64 = n div 64"
      "n div 64 * 64 + n mod 64 = n" by (fact recombine)+
    show ?thesis
    proof -
      have e: "utf8_bytes n = [of_nat (0xF0 + n div 262144), of_nat (0x80 + n div 4096 mod 64),
          of_nat (0x80 + n div 64 mod 64), of_nat (0x80 + n mod 64)]"
        using four unfolding utf8_bytes_def by simp
      have "(if n div 262144 = 0 then 0x90 else 0x80) \<le> 0x80 + n div 4096 mod 64"
        "0x80 + n div 4096 mod 64 \<le> (if n div 262144 = 4 then 0x8F else 0xBF)"
        using lo hi b(2) by auto
      then show ?thesis
        unfolding e append_Cons append_Nil u8_lead(4) [OF b(1)]
        by (subst u8_cont [OF b(2)]) (simp_all add: r u8_cont [OF b(3)] u8_cont [OF b(4)] del: of_nat_add)
    qed
  qed
qed

lemma u8_utf8: "\<forall>n \<in> set ns. scalar n \<Longrightarrow> u8_start (concat (map utf8_bytes ns)) = map Some ns"
  by (induction ns) (auto simp: u8_bytes, simp add: u8_start_def)

text \<open>
  Encoding and decoding a well-formed string gives it back, unless it starts with a byte order
  mark.
\<close>

lemma u8_string: "u8_start (utf8 s) = map Some (scalars s)"
  unfolding utf8_def by (rule u8_utf8) (blast intro: scalars_scalar)

lemma scalars_bom: "well_formed s \<Longrightarrow> s \<noteq> [] \<Longrightarrow> hd (scalars s) = 0xFEFF \<Longrightarrow> hd s = 0xFEFF"
proof -
  assume w: "well_formed s" "s \<noteq> []" "hd (scalars s) = 0xFEFF"
  have "scalars s \<noteq> []" using w(2) by (cases s rule: scalars.cases) auto
  then have "hd s = hd (utf16 0xFEFF @ concat (map utf16 (tl (scalars s))))"
    using utf16_scalars [OF w(1)] w(3) by (cases "scalars s") auto
  then show ?thesis by (simp add: utf16_def)
qed

lemma drop_bom_string: "well_formed s \<Longrightarrow> (s = [] \<or> hd s \<noteq> 0xFEFF) \<Longrightarrow> drop_bom (u8_start (utf8 s)) = map Some (scalars s)"
  using scalars_bom [of s] by (cases s; auto simp: drop_bom_def u8_string hd_map)

lemma utf8_decode_utf8: "well_formed s \<Longrightarrow> (s = [] \<or> hd s \<noteq> 0xFEFF) \<Longrightarrow> utf8_decode (utf8 s) = s"
  by (simp add: utf8_decode_def drop_bom_string utf16_scalars comp_def)

lemma utf8_decode_fatal_utf8: "well_formed s \<Longrightarrow> (s = [] \<or> hd s \<noteq> 0xFEFF) \<Longrightarrow> utf8_decode_fatal (utf8 s) = Some s"
  by (auto simp: utf8_decode_fatal_def drop_bom_string utf16_scalars comp_def Let_def)

lemma utf8_inj: "well_formed s \<Longrightarrow> well_formed t \<Longrightarrow> utf8 s = utf8 t \<Longrightarrow> s = t"
  using utf16_scalars [of s] utf16_scalars [of t] u8_string [of s] u8_string [of t]
  by (metis inj_map_eq_map inj_Some)

text \<open>Plain ASCII text is well-formed and encodes to its code units.\<close>

lemma scalars_ascii: "\<forall>c \<in> set s. unat c < 128 \<Longrightarrow> scalars s = map unat s \<and> well_formed s"
  by (induction s rule: scalars.induct) (auto simp: hi_sur_def lo_sur_def)

lemma utf8_ascii: "\<forall>c \<in> set s. unat c < 128 \<Longrightarrow> utf8 s = map (\<lambda>c. of_nat (unat c)) s"
proof -
  assume a: "\<forall>c \<in> set s. unat c < 128"
  then have "map utf8_bytes (map unat s) = map (\<lambda>c. [of_nat (unat c)]) s"
    by (auto simp: utf8_bytes_def)
  with a show ?thesis by (simp add: utf8_def scalars_ascii del: map_map)
qed

end
