(* ===== verification/Message.thy ===== *)
theory Message
  imports Bytes
begin

text \<open>
  The Kafka record as the API returns it (\<open>Message\<close> in \<open>frontend/src/lib/api.gen.ts\<close>). Optional
  fields are options; the JSON objects \<open>headers\<close> and \<open>headers_b64\<close> are insertion-ordered maps.
\<close>

record sr_meta =
  sr_format :: "jstr option"
  sr_schema_id :: "int option"
  sr_subject :: "jstr option"
  sr_version :: "int option"

record message =
  m_partition :: int
  m_offset :: int
  timestamp_ms :: int
  m_key :: "jstr option"
  key_encoding :: jstr
  key_b64 :: "jstr option"
  m_value :: "jstr option"
  value_encoding :: jstr
  value_b64 :: "jstr option"
  m_headers :: "(jstr, jstr) jsmap option"
  headers_b64 :: "(jstr, jstr) jsmap option"
  masked :: "bool option"
  key_masked :: "bool option"
  masked_headers :: "jstr list option"
  value_size_bytes :: "int option"
  value_truncated :: "bool option"
  key_sr :: "sr_meta option"
  value_sr :: "sr_meta option"

definition isTrue :: "bool option \<Rightarrow> bool" where
  "isTrue v \<longleftrightarrow> v = Some True"

definition opt_or :: "'a option \<Rightarrow> 'a \<Rightarrow> 'a" where
  "opt_or v d = (case v of Some x \<Rightarrow> x | None \<Rightarrow> d)"

lemma isTrue_simps [simp]: "isTrue None = False" "isTrue (Some b) = b"
  by (simp_all add: isTrue_def)

lemma opt_or_simps [simp]: "opt_or None d = d" "opt_or (Some x) d = x"
  by (simp_all add: opt_or_def)

text \<open>Encodings whose rendering is JSON (\<open>isJsonLikeEncoding\<close>).\<close>

definition is_json_like_encoding :: "jstr \<Rightarrow> bool" where
  "is_json_like_encoding e \<longleftrightarrow> e \<in> set [js ''json'', js ''avro'', js ''json_schema'']"

text \<open>\<open>base64ToUtf8\<close>; \<open>atob\<close> may throw.\<close>

definition base64_to_utf8 :: "jstr \<Rightarrow> jstr option" where
  "base64_to_utf8 b64 = map_option utf8_decode (atob b64)"

end
