(* ===== verification/JsonNumber.thy ===== *)
theory JsonNumber
  imports Strings Complex_Main
begin

text \<open>
  Numbers of the semantic message compare (\<open>frontend/src/lib/canonical-json.ts\<close>): the token
  pattern \<open>NUMBER_RE\<close>, the decimal normal form \<open>normalizeNumber\<close> with the double-precision
  exponent arithmetic the code performs, the exact value of a literal, and the proof that the
  normal form is a complete invariant of that value as long as the exponent is one a double
  holds exactly.
\<close>

section \<open>Integer-valued doubles\<close>

datatype jsint = Fin int | PosInf | NegInf

fun bits :: "nat \<Rightarrow> nat" where
  "bits n = (if n = 0 then 0 else Suc (bits (n div 2)))"

declare bits.simps [simp del]
declare bits.simps [js_eval]

text \<open>Round to nearest, ties to even, to 53 significant bits.\<close>

definition round53 :: "int \<Rightarrow> int" where
  "round53 i =
     (if \<bar>i\<bar> \<le> 2 ^ 53 then i
      else let u = 2 ^ (bits (nat \<bar>i\<bar>) - 53); q = \<bar>i\<bar> div u; r = \<bar>i\<bar> mod u;
               q' = (if 2 * r > u \<or> (2 * r = u \<and> odd q) then q + 1 else q)
           in sgn i * q' * u)"

definition to_double :: "int \<Rightarrow> jsint" where
  "to_double i = (let r = round53 i in
     if 2 ^ 1024 \<le> r then PosInf else if r \<le> - (2 ^ 1024) then NegInf else Fin r)"

definition jadd :: "jsint \<Rightarrow> int \<Rightarrow> jsint" where
  "jadd x j = (case x of Fin i \<Rightarrow> to_double (i + j) | _ \<Rightarrow> x)"

lemma to_double_exact: "\<bar>i\<bar> \<le> 2 ^ 53 \<Longrightarrow> to_double i = Fin i"
proof -
  assume b: "\<bar>i\<bar> \<le> 2 ^ 53"
  have "(2::int) ^ 53 < 2 ^ 1024" by simp
  with b have "\<not> 2 ^ 1024 \<le> i" "\<not> i \<le> - (2 ^ 1024)" by linarith+
  with b show ?thesis by (simp add: to_double_def round53_def)
qed

text \<open>
  \<open>Number::toString\<close> of an integer-valued double. Below \<open>10 ^ 21\<close> all digits are printed;
  from there on the fewest digits that read back as the same double, in exponent notation.
\<close>

definition shortest_from :: "nat \<Rightarrow> nat \<Rightarrow> nat \<Rightarrow> nat option" where
  "shortest_from i n k =
     (let p = 10 ^ (n - k); q = i div p;
          fits = (\<lambda>s. round53 (int (s * p)) = int i)
      in if fits q \<and> fits (q + 1)
         then Some (if 2 * (i mod p) < p \<or> (2 * (i mod p) = p \<and> even q) then q else q + 1)
         else if fits q then Some q else if fits (q + 1) then Some (q + 1) else None)"

definition sci_digits :: "nat \<Rightarrow> jstr \<times> nat" where
  "sci_digits i =
     (let n = length (dec i);
          k = hd (filter (\<lambda>k. shortest_from i n k \<noteq> None) [1..<Suc n]);
          s = dec (case shortest_from i n k of Some s \<Rightarrow> s | None \<Rightarrow> i)
      in (s, n - k + length s - 1))"

definition strip_zeros :: "jstr \<Rightarrow> jstr" where
  "strip_zeros s = rev (dropWhile (\<lambda>c. c = 48) (rev s))"

definition sci_text :: "jstr \<Rightarrow> jstr \<Rightarrow> jstr" where
  "sci_text digits e =
     hd digits # (if tl digits = [] then [] else 46 # tl digits) @ 101 # e"

definition jsint_to_string :: "jsint \<Rightarrow> jstr" where
  "jsint_to_string x = (case x of
     PosInf \<Rightarrow> js ''Infinity''
   | NegInf \<Rightarrow> js ''-Infinity''
   | Fin i \<Rightarrow> if \<bar>i\<bar> < 10 ^ 21 then dec_int i
      else (if i < 0 then js ''-'' else []) @
        (case sci_digits (nat \<bar>i\<bar>) of (s, e) \<Rightarrow> sci_text (strip_zeros s) (ch CHR ''+'' # dec e)))"

section \<open>Number tokens and literals\<close>

text \<open>The optional groups \<open>(?:\.\d+)?\<close> and \<open>(?:[eE][+-]?\d+)?\<close>: what they match, what is left.\<close>

definition match_frac :: "jstr \<Rightarrow> jstr \<times> jstr" where
  "match_frac s = (case s of [] \<Rightarrow> ([], s)
     | c # r \<Rightarrow> if c = ch CHR ''.'' \<and> takeWhile is_digit r \<noteq> []
        then (c # takeWhile is_digit r, dropWhile is_digit r) else ([], s))"

definition exp_sign :: "jstr \<Rightarrow> jstr \<times> jstr" where
  "exp_sign s = (case s of [] \<Rightarrow> ([], s)
     | c # r \<Rightarrow> if c = ch CHR ''+'' \<or> c = ch CHR ''-'' then ([c], r) else ([], s))"

definition match_exp :: "jstr \<Rightarrow> jstr \<times> jstr" where
  "match_exp s = (case s of [] \<Rightarrow> ([], s)
     | c # r \<Rightarrow> if c = ch CHR ''e'' \<or> c = ch CHR ''E''
        then (let (sg, t) = exp_sign r in
          if takeWhile is_digit t \<noteq> [] then (c # sg @ takeWhile is_digit t, dropWhile is_digit t)
          else ([], s))
        else ([], s))"

definition minus_sign :: "jstr \<Rightarrow> jstr \<times> jstr" where
  "minus_sign s = (case s of [] \<Rightarrow> ([], s)
     | c # r \<Rightarrow> if c = ch CHR ''-'' then ([c], r) else ([], s))"

definition match_int :: "jstr \<Rightarrow> jstr \<times> jstr" where
  "match_int s = (case s of [] \<Rightarrow> ([], s)
     | c # r \<Rightarrow> if c = 48 then ([c], r) else (takeWhile is_digit s, dropWhile is_digit s))"

text \<open>\<open>NUMBER_RE\<close>, sticky: the longest number at the front of the text, and the rest.\<close>

definition match_number :: "jstr \<Rightarrow> (jstr \<times> jstr) option" where
  "match_number s =
     (let (sg, s1) = minus_sign s; (i, s2) = match_int s1 in
      if i = [] then None
      else let (f, s3) = match_frac s2; (e, s4) = match_exp s3 in Some (sg @ i @ f @ e, s4))"

record literal =
  lit_neg :: bool
  lit_int :: jstr
  lit_frac :: jstr
  lit_exp :: jstr

text \<open>
  The pattern \<open>normalizeNumber\<close> takes a literal apart with; the exponent group defaults to
  \<open>"0"\<close>, the fraction group to the empty string.
\<close>

definition parse_literal :: "jstr \<Rightarrow> literal option" where
  "parse_literal s =
     (let (sg, s1) = minus_sign s; i = takeWhile is_digit s1; s2 = dropWhile is_digit s1 in
      if i = [] then None
      else let (f, s3) = match_frac s2; (e, s4) = match_exp s3 in
        if s4 = [] then Some \<lparr>lit_neg = sg \<noteq> [], lit_int = i, lit_frac = tl f,
            lit_exp = (if e = [] then [48] else tl e)\<rparr>
        else None)"

definition exp_value :: "jstr \<Rightarrow> int" where
  "exp_value s = (let (sg, t) = exp_sign s in
     if sg = [ch CHR ''-''] then - int (dec_value t) else int (dec_value t))"

section \<open>The normal form\<close>

definition sci_layout :: "jstr \<Rightarrow> jsint \<Rightarrow> jstr" where
  "sci_layout digits x = sci_text digits (jsint_to_string (jadd (jadd x (int (length digits))) (-1)))"

definition layout :: "jstr \<Rightarrow> jsint \<Rightarrow> jstr" where
  "layout digits x = (case x of
     Fin e \<Rightarrow> (let len = int (length digits) in
       if 0 \<le> e \<and> len + e \<le> 21 then digits @ replicate (nat e) 48
       else if e < 0 \<and> - e < len then take (nat (len + e)) digits @ 46 # drop (nat (len + e)) digits
       else if e < 0 \<and> - e - len < 6 then [48, 46] @ replicate (nat (- e - len)) 48 @ digits
       else sci_layout digits x)
   | _ \<Rightarrow> sci_layout digits x)"

definition normalize_number :: "jstr \<Rightarrow> jstr" where
  "normalize_number s = (case parse_literal s of
     None \<Rightarrow> s
   | Some l \<Rightarrow>
      let digits = dropWhile (\<lambda>c. c = 48) (lit_int l @ lit_frac l) in
      if digits = [] then [48]
      else let x = jadd (to_double (exp_value (lit_exp l))) (- int (length (lit_frac l)));
               trimmed = strip_zeros digits;
               x' = jadd x (int (length digits) - int (length trimmed))
           in (if lit_neg l then [ch CHR ''-''] else []) @ layout trimmed x')"

lemmas number_eval [js_eval] = normalize_number_def parse_literal_def layout_def sci_layout_def
  sci_text_def strip_zeros_def jsint_to_string_def dec_int_def jadd_def to_double_def round53_def
  minus_sign_def match_int_def match_exp_def exp_sign_def match_frac_def match_number_def
  exp_value_def is_digit_def digit_cu_def digit_val_def dec_value_def Let_def

text \<open>Two different numbers with the same normal form: their exponents round to one double.\<close>

lemma normalize_number_rounds:
  "normalize_number (js ''1e9007199254740993'') = js ''1e9007199254740991''"
  "normalize_number (js ''1e9007199254740991'') = js ''1e9007199254740991''"
  by (simp_all add: js_eval)

lemma normalize_number_samples:
  "normalize_number (js ''1.0'') = js ''1''"
  "normalize_number (js ''0.10'') = js ''0.1''"
  "normalize_number (js ''-0.0'') = js ''0''"
  "normalize_number (js ''12345678901234567890'') = js ''12345678901234567890''"
  "normalize_number (js ''1.5e-9'') = js ''1.5e-9''"
  by (simp_all add: js_eval)


section \<open>The value of a literal\<close>

definition lit_value :: "literal \<Rightarrow> rat" where
  "lit_value l = (if lit_neg l then -1 else 1) * of_nat (dec_value (lit_int l @ lit_frac l))
     * 10 powi (exp_value (lit_exp l) - int (length (lit_frac l)))"

definition number_value :: "jstr \<Rightarrow> rat option" where
  "number_value s = map_option lit_value (parse_literal s)"

text \<open>
  The exponent and the length leave all of the code's exponent sums within the integers a
  double holds exactly: \<open>b\<close> bounds the exponent as written.
\<close>

definition exponent_within :: "int \<Rightarrow> jstr \<Rightarrow> bool" where
  "exponent_within b s \<longleftrightarrow> (case parse_literal s of None \<Rightarrow> False
     | Some l \<Rightarrow> \<bar>exp_value (lit_exp l)\<bar> \<le> b \<and> int (length s) \<le> 10 ^ 15)"

definition exact_exponent :: "jstr \<Rightarrow> bool" where
  "exact_exponent s \<longleftrightarrow> exponent_within (10 ^ 15) s \<and> length s \<le> 10 ^ 14"

definition all_digits :: "jstr \<Rightarrow> bool" where
  "all_digits s \<longleftrightarrow> (\<forall>c \<in> set s. is_digit c)"

definition normal_digits :: "jstr \<Rightarrow> bool" where
  "normal_digits d \<longleftrightarrow> d \<noteq> [] \<and> all_digits d \<and> hd d \<noteq> 48 \<and> last d \<noteq> 48"

lemma all_digits_simps [simp]:
  "all_digits []" "all_digits (c # s) \<longleftrightarrow> is_digit c \<and> all_digits s"
  "all_digits (s @ t) \<longleftrightarrow> all_digits s \<and> all_digits t"
  "all_digits (rev s) = all_digits s" "all_digits (replicate n 48)" "all_digits (dec n)"
  by (auto simp: all_digits_def dec_digits)

lemma all_digits_take [simp]: "all_digits d \<Longrightarrow> all_digits (take n d)"
  by (auto simp: all_digits_def dest: in_set_takeD)

lemma all_digits_drop [simp]: "all_digits d \<Longrightarrow> all_digits (drop n d)"
  by (auto simp: all_digits_def dest: in_set_dropD)

lemma all_digits_tl [simp]: "all_digits d \<Longrightarrow> all_digits (tl d)"
  by (cases d) auto

lemma all_digits_takeWhile [simp]: "all_digits (takeWhile is_digit s)"
  by (auto simp: all_digits_def dest: set_takeWhileD)

lemma not_digit_consts [simp]:
  "\<not> is_digit 46" "\<not> is_digit 101" "\<not> is_digit 69" "\<not> is_digit 45" "\<not> is_digit 43"
  by (simp_all add: is_digit_def)

lemma digit_neq [simp]: "is_digit c \<Longrightarrow> c \<noteq> 45" "is_digit c \<Longrightarrow> c \<noteq> 43"
    "is_digit c \<Longrightarrow> c \<noteq> 46" "is_digit c \<Longrightarrow> c \<noteq> 101"
  by (auto simp: is_digit_def)

text \<open>Digits in front of something that is not a digit are what \<open>\d+\<close> takes.\<close>

lemma take_digits: "all_digits d \<Longrightarrow> (\<And>c r. t = c # r \<Longrightarrow> \<not> is_digit c) \<Longrightarrow>
    takeWhile is_digit (d @ t) = d \<and> dropWhile is_digit (d @ t) = t"
  by (rule takeWhile_dropWhile_rest) (auto simp: all_digits_def)

lemma takeWhile_all_digits: "all_digits d \<Longrightarrow> takeWhile is_digit d = d \<and> dropWhile is_digit d = []"
  using take_digits [of d "[]"] by simp

lemma drop_zeros:
  fixes s :: jstr
  obtains k where "s = replicate k 48 @ dropWhile (\<lambda>c. c = 48) s"
proof -
  have "takeWhile (\<lambda>c. c = 48) s = replicate (length (takeWhile (\<lambda>c. c = 48) s)) (48 :: cu)"
    by (rule replicate_eqI) (auto dest: set_takeWhileD)
  then show ?thesis
    using that by (metis takeWhile_dropWhile_id)
qed

lemma strip_zeros_split:
  obtains k where "s = strip_zeros s @ replicate k 48"
proof -
  obtain k where "rev s = replicate k 48 @ dropWhile (\<lambda>c. c = 48) (rev s)"
    by (rule drop_zeros)
  then have "rev (rev s) = strip_zeros s @ replicate k 48"
    unfolding strip_zeros_def by (metis rev_append rev_replicate)
  then show ?thesis by (intro that) simp
qed

lemma last_strip_zeros: "strip_zeros s \<noteq> [] \<Longrightarrow> last (strip_zeros s) \<noteq> 48"
  using hd_dropWhile [of "\<lambda>c. c = 48" "rev s"] by (auto simp: strip_zeros_def last_rev)

lemma strip_zeros_nonempty: "s \<noteq> [] \<Longrightarrow> hd s \<noteq> 48 \<Longrightarrow> strip_zeros s \<noteq> []"
  by (cases s) (auto simp: strip_zeros_def)

lemma hd_strip_zeros: "s \<noteq> [] \<Longrightarrow> hd s \<noteq> 48 \<Longrightarrow> hd (strip_zeros s) = hd s"
  by (metis hd_append2 strip_zeros_nonempty strip_zeros_split)

lemma dec_value_strip: "s = d @ replicate k 48 \<Longrightarrow> dec_value s = dec_value d * 10 ^ k"
  by (simp add: dec_value_append)

lemma dec_value_lead: "dec_value (replicate k 48 @ d) = dec_value d"
  by (simp add: dec_value_append)

lemma dec_dec_value: "d \<noteq> [] \<Longrightarrow> all_digits d \<Longrightarrow> hd d \<noteq> 48 \<Longrightarrow> dec (dec_value d) = d"
proof (induction d rule: rev_induct)
  case Nil
  then show ?case by simp
next
  case (snoc c d)
  show ?case
  proof (cases "d = []")
    case True
    with snoc have "dec_value (d @ [c]) = digit_val c" "digit_val c < 10" "digit_cu (digit_val c) = c"
      by (auto simp: digit_val_less digit_cu_val dec_value_def)
    with True show ?thesis by (subst dec.simps) simp
  next
    case False
    with snoc have IH: "dec (dec_value d) = d" and c: "digit_val c < 10" "digit_cu (digit_val c) = c"
      by (auto simp: digit_val_less digit_cu_val)
    have "dec_value d > 0"
    proof (rule ccontr)
      assume "\<not> dec_value d > 0"
      with IH have "d = dec 0" by simp
      then have "d = [48]" by (simp add: dec.simps digit_cu_def)
      with snoc.prems False show False by simp
    qed
    with c have "\<not> dec_value (d @ [c]) < 10" by simp
    with IH c show ?thesis by (subst dec.simps) simp
  qed
qed

lemma normal_digits_value_pos: "normal_digits d \<Longrightarrow> dec_value d > 0"
proof (rule ccontr)
  assume n: "normal_digits d" and "\<not> dec_value d > 0"
  then have "d = dec 0" using dec_dec_value by (metis normal_digits_def not_gr_zero)
  with n show False by (simp add: normal_digits_def dec.simps digit_cu_def)
qed

lemma normal_digits_not_div10: "normal_digits d \<Longrightarrow> \<not> 10 dvd dec_value d"
proof -
  assume n: "normal_digits d"
  then obtain d' c where d: "d = d' @ [c]" and c: "is_digit c" "c \<noteq> 48"
    by (cases d rule: rev_cases) (auto simp: normal_digits_def)
  have "digit_val c \<noteq> 0"
    using c by (metis digit_cu_val digit_val_0 is_digit_0)
  moreover have "digit_val c < 10" using c by (simp add: digit_val_less)
  ultimately have "(10 * dec_value d' + digit_val c) mod 10 \<noteq> 0" by presburger
  with d show ?thesis by (simp add: dvd_eq_mod_eq_0)
qed

text \<open>The decimal normal form \<open>m * 10 ^ e\<close>, \<open>10\<close> not dividing \<open>m\<close>, is unique.\<close>

lemma decimal_unique_le:
  assumes eq: "(of_nat m :: rat) * 10 powi e = of_nat n * 10 powi f"
    and n: "\<not> 10 dvd n" and le: "f \<le> e"
  shows "e = f \<and> m = n"
proof -
  define k where "k = nat (e - f)"
  with le have e: "e = f + int k" by simp
  have "(of_nat m :: rat) * (10 powi f * 10 ^ k) = of_nat n * 10 powi f"
    using eq unfolding e by (simp add: power_int_add)
  then have "(of_nat (m * 10 ^ k) :: rat) = of_nat n"
    by simp
  then have mn: "m * 10 ^ k = n" by (simp only: of_nat_eq_iff)
  moreover have "k = 0"
  proof (rule ccontr)
    assume "k \<noteq> 0"
    then obtain j where "k = Suc j" by (cases k) auto
    with mn have "n = 10 * (m * 10 ^ j)" by simp
    with n show False by simp
  qed
  ultimately show ?thesis using e by simp
qed

lemma decimal_unique:
  "(of_nat m :: rat) * 10 powi e = of_nat n * 10 powi f \<Longrightarrow> \<not> 10 dvd m \<Longrightarrow> \<not> 10 dvd n \<Longrightarrow>
    e = f \<and> m = n"
  using decimal_unique_le [of m e n f] decimal_unique_le [of n f m e] by (cases "f \<le> e") auto

section \<open>Reading back what the normal form writes\<close>

definition with_sign :: "bool \<Rightarrow> jstr \<Rightarrow> jstr" where
  "with_sign neg s = (if neg then [ch CHR ''-''] else []) @ s"

lemma minus_sign_with: "s \<noteq> [] \<Longrightarrow> is_digit (hd s) \<Longrightarrow>
    minus_sign (with_sign neg s) = (if neg then [ch CHR ''-''] else [], s)"
  by (cases s) (auto simp: minus_sign_def with_sign_def)

lemma parse_literal_plain:
  "all_digits d \<Longrightarrow> d \<noteq> [] \<Longrightarrow> parse_literal (with_sign neg d) =
     Some \<lparr>lit_neg = neg, lit_int = d, lit_frac = [], lit_exp = [48]\<rparr>"
  by (cases d)
     (auto simp: parse_literal_def minus_sign_with takeWhile_all_digits match_frac_def
       match_exp_def Let_def)

lemma parse_literal_point:
  assumes "all_digits d" "d \<noteq> []" "all_digits f" "f \<noteq> []"
  shows "parse_literal (with_sign neg (d @ 46 # f)) =
     Some \<lparr>lit_neg = neg, lit_int = d, lit_frac = f, lit_exp = [48]\<rparr>"
proof -
  have "minus_sign (with_sign neg (d @ 46 # f)) = (if neg then [ch CHR ''-''] else [], d @ 46 # f)"
    using assms by (cases d) (auto simp: minus_sign_with)
  moreover have "takeWhile is_digit (d @ 46 # f) = d" "dropWhile is_digit (d @ 46 # f) = 46 # f"
    using take_digits [of d "46 # f"] assms by auto
  ultimately show ?thesis
    using assms
    by (simp add: parse_literal_def Let_def match_frac_def takeWhile_all_digits match_exp_def)
qed

lemma jsint_text_exp:
  "\<bar>i\<bar> < 10 ^ 21 \<Longrightarrow> match_exp (101 # jsint_to_string (Fin i)) = (101 # jsint_to_string (Fin i), [])
    \<and> exp_value (jsint_to_string (Fin i)) = i"
proof -
  assume b: "\<bar>i\<bar> < 10 ^ 21"
  have dig: "exp_sign (dec n) = ([], dec n)" for n
    using dec_digits [of "hd (dec n)" n] dec_nonempty [of n]
    by (cases "dec n") (auto simp: exp_sign_def)
  have neg: "exp_sign (45 # dec n) = ([45], dec n)" for n
    by (simp add: exp_sign_def)
  show ?thesis
    using b by (auto simp: jsint_to_string_def dec_int_def match_exp_def dig neg exp_value_def
        takeWhile_all_digits)
qed

lemma parse_literal_sci:
  assumes d: "all_digits d" "d \<noteq> []" and i: "\<bar>i\<bar> < 10 ^ 21"
  shows "parse_literal (with_sign neg (sci_text d (jsint_to_string (Fin i)))) =
     Some \<lparr>lit_neg = neg, lit_int = [hd d], lit_frac = tl d, lit_exp = jsint_to_string (Fin i)\<rparr>"
proof -
  define t where "t = 101 # jsint_to_string (Fin i)"
  have t: "match_exp t = (t, [])" "tl t = jsint_to_string (Fin i)" "t \<noteq> []"
    using jsint_text_exp [OF i] by (simp_all add: t_def)
  have ms: "minus_sign (with_sign neg (hd d # x)) = (if neg then [ch CHR ''-''] else [], hd d # x)" for x
    using d by (cases d) (auto simp: minus_sign_with)
  have hd: "is_digit (hd d)" using d by (cases d) auto
  have fr: "match_frac (46 # tl d @ t) = (46 # tl d, t)" if "tl d \<noteq> []"
    using take_digits [of "tl d" t] d that by (simp add: match_frac_def t_def)
  have nofr: "match_frac t = ([], t)" by (simp add: match_frac_def t_def)
  show ?thesis
  proof (cases "tl d = []")
    case True
    then have e: "sci_text d (jsint_to_string (Fin i)) = hd d # t"
      by (simp add: sci_text_def t_def)
    have "takeWhile is_digit (hd d # t) = [hd d]" "dropWhile is_digit (hd d # t) = t"
      using hd by (simp_all add: t_def)
    with True show ?thesis
      unfolding e by (simp add: parse_literal_def ms Let_def nofr t)
  next
    case False
    then have e: "sci_text d (jsint_to_string (Fin i)) = hd d # 46 # tl d @ t"
      by (simp add: sci_text_def t_def)
    have "takeWhile is_digit (hd d # 46 # tl d @ t) = [hd d]"
      "dropWhile is_digit (hd d # 46 # tl d @ t) = 46 # tl d @ t"
      using hd by simp_all
    with False show ?thesis
      unfolding e by (simp add: parse_literal_def ms Let_def fr t)
  qed
qed


lemma match_frac_props: "match_frac s = (f, t) \<Longrightarrow> all_digits (tl f) \<and> length f + length t = length s"
  by (auto simp: match_frac_def split: list.splits if_splits
      simp flip: length_append [of "takeWhile is_digit _" "dropWhile is_digit _"])

lemma parse_literal_props:
  assumes "parse_literal s = Some l"
  shows "all_digits (lit_int l)" "all_digits (lit_frac l)" "lit_int l \<noteq> []"
    "length (lit_int l) + length (lit_frac l) \<le> length s"
proof -
  obtain sg s1 where ms: "minus_sign s = (sg, s1)" by fastforce
  have l1: "length s1 \<le> length s"
    using ms by (auto simp: minus_sign_def split: list.splits if_splits)
  let ?i = "takeWhile is_digit s1" and ?s2 = "dropWhile is_digit s1"
  obtain f s3 where mf: "match_frac ?s2 = (f, s3)" by fastforce
  have len: "length ?i + length ?s2 = length s1"
    by (metis length_append takeWhile_dropWhile_id)
  have l: "lit_int l = ?i" "lit_frac l = tl f" "?i \<noteq> []"
    using assms ms mf by (auto simp: parse_literal_def Let_def split: if_splits prod.splits)
  with mf match_frac_props [OF mf] len l1
  show "all_digits (lit_int l)" "all_digits (lit_frac l)" "lit_int l \<noteq> []"
    "length (lit_int l) + length (lit_frac l) \<le> length s"
    by auto
qed

lemma lit_value_signed:
  "lit_value \<lparr>lit_neg = neg, lit_int = i, lit_frac = f, lit_exp = x\<rparr> =
     (if neg then - 1 else 1) * (of_nat (dec_value (i @ f)) * 10 powi (exp_value x - int (length f)))"
  by (simp add: lit_value_def)

definition signed_value :: "bool \<Rightarrow> jstr \<Rightarrow> int \<Rightarrow> rat" where
  "signed_value neg d e = (if neg then - 1 else 1) * (of_nat (dec_value d) * 10 powi e)"

lemma exp_value_0 [simp]: "exp_value [48] = 0"
  by (simp add: exp_value_def exp_sign_def dec_value_def)

lemma layout_parse:
  assumes d: "normal_digits d" and e: "\<bar>e\<bar> \<le> 8 * 10 ^ 15" and len: "int (length d) \<le> 10 ^ 15"
  shows "\<exists>l. parse_literal (with_sign neg (layout d (Fin e))) = Some l \<and> lit_value l = signed_value neg d e
     \<and> \<bar>exp_value (lit_exp l)\<bar> \<le> \<bar>e\<bar> + int (length d)"
proof -
  let ?n = "int (length d)"
  have d': "all_digits d" "d \<noteq> []" and n1: "?n \<ge> 1"
    using d by (auto simp: normal_digits_def Suc_le_eq)
  consider (zeros) "0 \<le> e" "?n + e \<le> 21" | (point) "e < 0" "- e < ?n"
    | (small) "e < 0" "\<not> - e < ?n" "- e - ?n < 6"
    | (sci) "\<not> (0 \<le> e \<and> ?n + e \<le> 21)" "\<not> (e < 0 \<and> - e < ?n)" "\<not> (e < 0 \<and> - e - ?n < 6)"
    by blast
  then show ?thesis
  proof cases
    case zeros
    then have "layout d (Fin e) = d @ replicate (nat e) 48"
      by (simp add: layout_def Let_def)
    with zeros d' show ?thesis
      by (simp add: parse_literal_plain lit_value_signed signed_value_def dec_value_append power_int_def)
  next
    case point
    define k where "k = nat (?n + e)"
    have k: "0 < k" "k < length d" "int (length d) - int k = - e"
      using point by (auto simp: k_def)
    have lay: "layout d (Fin e) = take k d @ 46 # drop k d"
      using point by (simp add: layout_def Let_def k_def)
    have "parse_literal (with_sign neg (layout d (Fin e))) =
        Some \<lparr>lit_neg = neg, lit_int = take k d, lit_frac = drop k d, lit_exp = [48]\<rparr>"
      unfolding lay by (rule parse_literal_point) (use d' k in auto)
    moreover have "- int (length (drop k d)) = e"
      using k by (simp add: of_nat_diff)
    ultimately show ?thesis
      by (simp add: lit_value_signed signed_value_def)
  next
    case small
    define k where "k = nat (- e - ?n)"
    have lay: "layout d (Fin e) = [48] @ 46 # (replicate k 48 @ d)"
      using small n1 by (simp add: layout_def Let_def k_def)
    have p: "parse_literal (with_sign neg (layout d (Fin e))) =
        Some \<lparr>lit_neg = neg, lit_int = [48], lit_frac = replicate k 48 @ d, lit_exp = [48]\<rparr>"
      unfolding lay by (rule parse_literal_point) (use d' in auto)
    have "dec_value ([48] @ replicate k 48 @ d) = dec_value d"
      using dec_value_lead [of "Suc k" d] by simp
    moreover have "- int (length (replicate k (48 :: cu) @ d)) = e"
      using small by (simp add: k_def)
    ultimately show ?thesis
      using p by (simp add: lit_value_signed signed_value_def)
  next
    case sci
    have b: "\<bar>e + ?n\<bar> \<le> 2 ^ 53" "\<bar>e + ?n + - 1\<bar> \<le> 2 ^ 53" "\<bar>e + ?n - 1\<bar> < 10 ^ 21"
      using e len n1 by simp_all
    have lay: "layout d (Fin e) = sci_text d (jsint_to_string (Fin (e + ?n - 1)))"
      using sci b by (auto simp: layout_def Let_def sci_layout_def jadd_def to_double_exact)
    have p: "parse_literal (with_sign neg (layout d (Fin e))) = Some \<lparr>lit_neg = neg, lit_int = [hd d],
        lit_frac = tl d, lit_exp = jsint_to_string (Fin (e + ?n - 1))\<rparr>"
      unfolding lay by (rule parse_literal_sci [OF d' b(3)])
    have x: "exp_value (jsint_to_string (Fin (e + ?n - 1))) = e + ?n - 1"
      using jsint_text_exp [OF b(3)] by simp
    have ht: "[hd d] @ tl d = d" "e + ?n - 1 - int (length (tl d)) = e"
      using d' by (cases d; simp)+
    have v: "lit_value \<lparr>lit_neg = neg, lit_int = [hd d],
        lit_frac = tl d, lit_exp = jsint_to_string (Fin (e + ?n - 1))\<rparr> = signed_value neg d e"
      by (simp only: lit_value_signed signed_value_def x ht)
    have "\<bar>e + ?n - 1\<bar> \<le> \<bar>e\<bar> + ?n" using n1 by arith
    with p v x show ?thesis
      by (intro exI conjI) (assumption, assumption, simp only: literal.simps)
  qed
qed

lemma normalize_shape:
  assumes l: "parse_literal s = Some l" and x: "\<bar>exp_value (lit_exp l)\<bar> \<le> 6 * 10 ^ 15"
    and len: "int (length s) \<le> 10 ^ 15"
  shows "(lit_value l = 0 \<and> normalize_number s = [48]) \<or>
    (\<exists>d e. normal_digits d \<and> \<bar>e\<bar> \<le> \<bar>exp_value (lit_exp l)\<bar> + int (length s) \<and> length d \<le> length s \<and>
      normalize_number s = with_sign (lit_neg l) (layout d (Fin e)) \<and>
      lit_value l = signed_value (lit_neg l) d e)"
proof -
  note p = parse_literal_props [OF l]
  let ?ds = "lit_int l @ lit_frac l" and ?x = "exp_value (lit_exp l)"
  let ?digits = "dropWhile (\<lambda>c. c = 48) ?ds"
  obtain k where ds: "?ds = replicate k 48 @ ?digits" by (rule drop_zeros)
  then have val: "dec_value ?ds = dec_value ?digits" by (metis dec_value_lead)
  show ?thesis
  proof (cases "?digits = []")
    case True
    then have "normalize_number s = [48]"
      by (simp add: normalize_number_def l)
    moreover from True val have "dec_value ?ds = 0" by (simp only: dec_value_Nil)
    then have "lit_value l = 0" by (simp add: lit_value_def)
    ultimately show ?thesis by simp
  next
    case False
    define d where "d = strip_zeros ?digits"
    obtain j where j: "?digits = d @ replicate j 48"
      unfolding d_def by (rule strip_zeros_split)
    have hd: "hd ?digits \<noteq> 48" using False by (metis (full_types) hd_dropWhile)
    have ad: "all_digits ?digits"
      using p(1,2) ds by (metis all_digits_simps(3))
    have nd: "normal_digits d"
      using False hd ad j unfolding normal_digits_def d_def
      by (metis all_digits_simps(3) d_def hd_strip_zeros last_strip_zeros strip_zeros_nonempty)
    define e where "e = ?x - int (length (lit_frac l)) + int j"
    have "length ?ds = k + length ?digits" using ds by (metis length_append length_replicate)
    then have lens: "length d + j \<le> length s" "length (lit_frac l) \<le> length s"
        "int (length (lit_frac l)) \<ge> 0" "int (length d + j) \<le> int (length s)"
      using p(4) j by auto
    have sub: "int (length ?digits) - int (length d) = int j" using j by simp
    have "jadd (to_double ?x) (- int (length (lit_frac l))) = Fin (?x - int (length (lit_frac l)))"
      using x len lens by (simp add: jadd_def to_double_exact)
    moreover have "jadd (Fin (?x - int (length (lit_frac l)))) (int j) = Fin e"
      using x len lens by (simp add: jadd_def to_double_exact e_def)
    ultimately have norm: "normalize_number s = with_sign (lit_neg l) (layout d (Fin e))"
      using False unfolding normalize_number_def l
      by (simp only: Let_def option.case if_False sub d_def [symmetric] with_sign_def)
    have j10: "(10::rat) powi (int j) = 10 ^ j" by (simp add: power_int_def)
    have pow: "(10::rat) powi e = 10 powi (?x - int (length (lit_frac l))) * 10 ^ j"
      unfolding e_def by (simp add: power_int_add j10)
    have "dec_value ?ds = dec_value d * 10 ^ j"
      unfolding val by (rule dec_value_strip [OF j])
    then have "lit_value l = signed_value (lit_neg l) d e"
      unfolding lit_value_def signed_value_def pow by simp
    moreover have "\<bar>e\<bar> \<le> \<bar>?x\<bar> + int (length s)"
      using lens p(4) by (simp add: e_def)
    moreover have "length d \<le> length s" using lens by simp
    ultimately show ?thesis
      using nd norm by blast
  qed
qed


section \<open>A complete invariant of the value\<close>

lemma signed_value_nonzero: "normal_digits d \<Longrightarrow> signed_value neg d e \<noteq> 0"
  using normal_digits_value_pos [of d] by (simp add: signed_value_def)

lemma signed_value_unique:
  assumes d: "normal_digits d" "normal_digits d'"
    and eq: "signed_value neg d e = signed_value neg' d' e'"
  shows "neg = neg' \<and> d = d' \<and> e = e'"
proof -
  have pos: "0 < (of_nat (dec_value d) :: rat) * 10 powi e" "0 < (of_nat (dec_value d') :: rat) * 10 powi e'"
    using d normal_digits_value_pos by simp_all
  then have neg: "neg = neg'"
    using eq by (auto simp: signed_value_def split: if_splits)
  then have "(of_nat (dec_value d) :: rat) * 10 powi e = of_nat (dec_value d') * 10 powi e'"
    using eq by (auto simp: signed_value_def split: if_splits)
  then have "e = e' \<and> dec_value d = dec_value d'"
    using d by (intro decimal_unique normal_digits_not_div10)
  then show ?thesis
    using neg d by (metis dec_dec_value normal_digits_def)
qed

lemma number_value_0: "number_value [48] = Some 0"
proof -
  have "parse_literal (with_sign False [48]) = Some \<lparr>lit_neg = False, lit_int = [48], lit_frac = [], lit_exp = [48]\<rparr>"
    by (rule parse_literal_plain) simp_all
  then show ?thesis by (simp add: number_value_def with_sign_def lit_value_def dec_value_def)
qed

lemma exponent_withinE:
  assumes "exponent_within b s"
  obtains l where "parse_literal s = Some l" "\<bar>exp_value (lit_exp l)\<bar> \<le> b" "int (length s) \<le> 10 ^ 15"
  using assms by (auto simp: exponent_within_def split: option.splits)

lemma normalize_value_within:
  assumes "exponent_within (6 * 10 ^ 15) s"
  shows "number_value (normalize_number s) = number_value s"
proof -
  obtain l where l: "parse_literal s = Some l" "\<bar>exp_value (lit_exp l)\<bar> \<le> 6 * 10 ^ 15"
      "int (length s) \<le> 10 ^ 15"
    using assms by (rule exponent_withinE)
  from normalize_shape [OF this] show ?thesis
  proof (elim disjE exE conjE)
    assume "lit_value l = 0" "normalize_number s = [48]"
    with l show ?thesis by (simp add: number_value_0 [unfolded number_value_def] number_value_def)
  next
    fix d e
    assume a: "normal_digits d" "\<bar>e\<bar> \<le> \<bar>exp_value (lit_exp l)\<bar> + int (length s)" "length d \<le> length s"
      "normalize_number s = with_sign (lit_neg l) (layout d (Fin e))"
      "lit_value l = signed_value (lit_neg l) d e"
    have "\<bar>e\<bar> \<le> 8 * 10 ^ 15" "int (length d) \<le> 10 ^ 15" using a l by linarith+
    from layout_parse [OF a(1) this, of "lit_neg l"] a l show ?thesis
      by (auto simp only: number_value_def option.map)
  qed
qed

lemma normalize_complete_within:
  assumes "exponent_within (6 * 10 ^ 15) s" "exponent_within (6 * 10 ^ 15) t"
  shows "normalize_number s = normalize_number t \<longleftrightarrow> number_value s = number_value t"
proof
  assume "normalize_number s = normalize_number t"
  then show "number_value s = number_value t"
    using assms normalize_value_within by metis
next
  assume eq: "number_value s = number_value t"
  obtain l where l: "parse_literal s = Some l" "\<bar>exp_value (lit_exp l)\<bar> \<le> 6 * 10 ^ 15"
      "int (length s) \<le> 10 ^ 15"
    using assms(1) by (rule exponent_withinE)
  obtain m where m: "parse_literal t = Some m" "\<bar>exp_value (lit_exp m)\<bar> \<le> 6 * 10 ^ 15"
      "int (length t) \<le> 10 ^ 15"
    using assms(2) by (rule exponent_withinE)
  have v: "lit_value l = lit_value m" using eq l m by (simp add: number_value_def)
  from normalize_shape [OF l] show "normalize_number s = normalize_number t"
  proof (elim disjE exE conjE)
    assume "lit_value l = 0" "normalize_number s = [48]"
    with normalize_shape [OF m] v show ?thesis by (metis signed_value_nonzero)
  next
    fix d e
    assume a: "normal_digits d" "normalize_number s = with_sign (lit_neg l) (layout d (Fin e))"
      "lit_value l = signed_value (lit_neg l) d e"
    then have "lit_value m \<noteq> 0" using v signed_value_nonzero by metis
    with normalize_shape [OF m] obtain d' e' where "normal_digits d'"
      "normalize_number t = with_sign (lit_neg m) (layout d' (Fin e'))"
      "lit_value m = signed_value (lit_neg m) d' e'" by blast
    moreover from this a v have "lit_neg l = lit_neg m \<and> d = d' \<and> e = e'"
      by (intro signed_value_unique) simp_all
    ultimately show ?thesis using a by simp
  qed
qed

lemma normalize_exponent_within:
  assumes "exact_exponent s"
    and "int (length (normalize_number s)) \<le> 10 ^ 15"
  shows "exponent_within (6 * 10 ^ 15) (normalize_number s)"
proof -
  obtain l where l: "parse_literal s = Some l" "\<bar>exp_value (lit_exp l)\<bar> \<le> 10 ^ 15"
      "int (length s) \<le> 10 ^ 15"
    using assms(1) unfolding exact_exponent_def by (blast elim: exponent_withinE)
  then have "\<bar>exp_value (lit_exp l)\<bar> \<le> 6 * 10 ^ 15" by linarith
  from normalize_shape [OF l(1) this l(3)] show ?thesis
  proof (elim disjE exE conjE)
    assume "normalize_number s = [48]"
    moreover have "exponent_within (6 * 10 ^ 15) [48]"
      by (simp add: exponent_within_def parse_literal_def minus_sign_def match_frac_def match_exp_def
        Let_def)
    ultimately show ?thesis by simp
  next
    fix d e
    assume a: "normal_digits d" "\<bar>e\<bar> \<le> \<bar>exp_value (lit_exp l)\<bar> + int (length s)" "length d \<le> length s"
      "normalize_number s = with_sign (lit_neg l) (layout d (Fin e))"
    have b: "\<bar>e\<bar> \<le> 8 * 10 ^ 15" "int (length d) \<le> 10 ^ 15" "\<bar>e\<bar> + int (length d) \<le> 6 * 10 ^ 15"
      using a l by linarith+
    from layout_parse [OF a(1) b(1,2)] obtain l' where
      "parse_literal (normalize_number s) = Some l'" "\<bar>exp_value (lit_exp l')\<bar> \<le> \<bar>e\<bar> + int (length d)"
      unfolding a(4) by blast
    with b assms(2) show ?thesis by (simp add: exponent_within_def)
  qed
qed

end
