(* ===== verification/CanonicalJson.thy ===== *)
theory CanonicalJson
  imports JsonNumber "HOL-Library.Finite_Map" "HOL-Library.Monad_Syntax"
begin

text \<open>
  The canonical JSON form of the semantic message compare
  (\<open>frontend/src/lib/canonical-json.ts\<close>): the hand-written parser that keeps every digit of a
  number, the normalisation with sorted keys and optionally sorted arrays, and the pretty
  printer. Parsing works on the text that is left (the source's \<open>pos\<close> is what has been
  consumed); \<open>fail()\<close> is \<open>None\<close>.
\<close>

datatype jnode =
    JLit jstr
  | JNum jstr
  | JStr jstr
  | JArr "jnode list"
  | JObj "(jstr \<times> jnode) list"

definition max_nesting :: nat where
  "max_nesting = 512"

section \<open>String tokens\<close>

definition esc_chars :: "cu list" where
  "esc_chars = js [CHR 0x22, CHR 0x5C, CHR ''/'', CHR ''b'', CHR ''f'', CHR ''n'', CHR ''r'', CHR ''t'']"

text \<open>
  The scan of the token behind the opening quote: the raw body up to the closing quote and the
  text after it. Every escape is checked, as \<open>JSON.parse\<close> will read the token afterwards.
\<close>

fun scan_string :: "jstr \<Rightarrow> (jstr \<times> jstr) option" where
  "scan_string [] = None"
| "scan_string (c # r) =
     (if c = 0x22 then Some ([], r)
      else if c < 0x20 then None
      else if c = 0x5C then
        (case r of
           [] \<Rightarrow> None
         | e # r' \<Rightarrow>
             if e = ch CHR ''u'' then
               (if length (take 4 r') = 4 \<and> list_all is_hex (take 4 r')
                then map_option (\<lambda>(b, t). (c # e # take 4 r' @ b, t)) (scan_string (drop 4 r'))
                else None)
             else if e \<in> set esc_chars then map_option (\<lambda>(b, t). (c # e # b, t)) (scan_string r')
             else None)
      else map_option (\<lambda>(b, t). (c # b, t)) (scan_string r))"

text \<open>\<open>JSON.parse\<close> of a scanned token: the escapes resolved.\<close>

definition unescape_char :: "cu \<Rightarrow> cu" where
  "unescape_char e =
     (if e = ch CHR ''b'' then 8 else if e = ch CHR ''t'' then 9 else if e = ch CHR ''n'' then 10
      else if e = ch CHR ''f'' then 12 else if e = ch CHR ''r'' then 13 else e)"

fun unescape :: "jstr \<Rightarrow> jstr" where
  "unescape [] = []"
| "unescape (c # r) =
     (if c = 0x5C then
        (case r of
           [] \<Rightarrow> []
         | e # r' \<Rightarrow>
             if e = ch CHR ''u'' then of_nat (hex_value (take 4 r')) # unescape (drop 4 r')
             else unescape_char e # unescape r')
      else c # unescape r)"

definition string_token :: "jstr \<Rightarrow> (jstr \<times> jstr) option" where
  "string_token s = map_option (\<lambda>(b, t). (unescape b, t)) (scan_string s)"

text \<open>
  \<open>JSON.stringify\<close> of a string: quotes, backslashes and control characters escaped, and every
  surrogate that is not part of a pair.
\<close>

definition is_high :: "cu \<Rightarrow> bool" where
  "is_high c \<longleftrightarrow> 0xD800 \<le> c \<and> c \<le> 0xDBFF"

definition is_low :: "cu \<Rightarrow> bool" where
  "is_low c \<longleftrightarrow> 0xDC00 \<le> c \<and> c \<le> 0xDFFF"

definition uescape :: "cu \<Rightarrow> jstr" where
  "uescape c = 0x5C # ch CHR ''u'' # hex_pad 4 (unat c)"

definition escape_cu :: "cu \<Rightarrow> jstr" where
  "escape_cu c =
     (if c = 0x22 \<or> c = 0x5C then [0x5C, c]
      else if c = 8 then [0x5C, ch CHR ''b''] else if c = 9 then [0x5C, ch CHR ''t'']
      else if c = 10 then [0x5C, ch CHR ''n''] else if c = 12 then [0x5C, ch CHR ''f'']
      else if c = 13 then [0x5C, ch CHR ''r'']
      else if c < 0x20 then uescape c else [c])"

fun quote_body :: "jstr \<Rightarrow> jstr" where
  "quote_body [] = []"
| "quote_body [c] = (if is_high c \<or> is_low c then uescape c else escape_cu c)"
| "quote_body (c # d # r) =
     (if is_high c \<and> is_low d then c # d # quote_body r
      else (if is_high c \<or> is_low c then uescape c else escape_cu c) @ quote_body (d # r))"

definition quote :: "jstr \<Rightarrow> jstr" where
  "quote s = 0x22 # quote_body s @ [0x22]"

lemma is_hex_chars [simp]: "list_all is_hex (hex_pad w n)"
  by (auto simp: list_all_iff dest: hex_pad_is_hex)

lemma hex_value_unat: "hex_value (hex_pad 4 (unat c)) = unat (c :: cu)"
proof -
  have "unat c < 2 ^ 16" using unsigned_less [of c] by simp
  then show ?thesis by (intro hex_value_pad) simp
qed

definition scans_back :: "jstr \<Rightarrow> jstr \<Rightarrow> bool" where
  "scans_back t s \<longleftrightarrow> (\<forall>r b u. scan_string r = Some (b, u) \<longrightarrow>
     scan_string (t @ r) = Some (t @ b, u) \<and> unescape (t @ b) = s @ unescape b)"

lemma scans_back_uescape: "scans_back (uescape c) [c]"
  by (auto simp: scans_back_def uescape_def hex_value_unat)

lemma scans_back_plain: "c \<noteq> 0x22 \<Longrightarrow> c \<noteq> 0x5C \<Longrightarrow> \<not> c < 0x20 \<Longrightarrow> scans_back [c] [c]"
  by (auto simp: scans_back_def)

lemma scans_back_escape: "scans_back (escape_cu c) [c]"
proof (cases "c \<in> {0x22, 0x5C, 8, 9, 10, 12, 13}")
  case True
  then show ?thesis
    by (auto simp: scans_back_def escape_cu_def esc_chars_def js_def unescape_char_def)
next
  case False
  then show ?thesis
    using scans_back_uescape [of c] scans_back_plain [of c] by (auto simp: escape_cu_def)
qed

lemma scans_back_append: "scans_back t s \<Longrightarrow> scans_back t' s' \<Longrightarrow> scans_back (t @ t') (s @ s')"
  unfolding scans_back_def by (metis append.assoc)

lemma surrogate_plain: "is_high c \<or> is_low c \<Longrightarrow> scans_back [c] [c]"
  by (rule scans_back_plain) (auto simp: is_high_def is_low_def word_le_nat_alt word_less_nat_alt)

lemma scans_back_body: "scans_back (quote_body s) s"
proof (induction s rule: quote_body.induct)
  case 1
  then show ?case by (simp add: scans_back_def)
next
  case (2 c)
  then show ?case by (simp add: scans_back_uescape scans_back_escape)
next
  case (3 c d r)
  show ?case
  proof (cases "is_high c \<and> is_low d")
    case True
    then have "scans_back ([c] @ [d] @ quote_body r) ([c] @ [d] @ r)"
      using 3(1) by (intro scans_back_append surrogate_plain) auto
    with True show ?thesis by simp
  next
    case False
    then have "scans_back ((if is_high c \<or> is_low c then uescape c else escape_cu c) @ quote_body (d # r))
        ([c] @ d # r)"
      using 3(2) by (intro scans_back_append) (auto simp: scans_back_uescape scans_back_escape)
    then show ?thesis by (simp only: quote_body.simps(3) if_not_P [OF False] append_Cons append_Nil)
  qed
qed

text \<open>What \<open>JSON.stringify\<close> writes, the scan and \<open>JSON.parse\<close> read back.\<close>

lemma string_token_quote: "string_token (quote_body s @ 0x22 # r) = Some (s, r)"
proof -
  have "scan_string (0x22 # r) = Some ([], r)" by simp
  with scans_back_body [of s] have
    "scan_string (quote_body s @ 0x22 # r) = Some (quote_body s @ [], r)"
    "unescape (quote_body s @ []) = s @ unescape []"
    unfolding scans_back_def by blast+
  then show ?thesis by (simp add: string_token_def)
qed

lemma scan_string_length: "scan_string s = Some (b, r) \<Longrightarrow> length r < length s"
proof (induction s arbitrary: b r rule: scan_string.induct)
  case 1
  then show ?case by simp
next
  case (2 c s)
  then show ?case
    by (auto split: if_splits list.splits) fastforce+
qed

lemma string_token_length: "string_token s = Some (k, r) \<Longrightarrow> length r < length s"
  by (auto simp: string_token_def dest: scan_string_length)


section \<open>The parser\<close>

definition is_ws :: "cu \<Rightarrow> bool" where
  "is_ws c \<longleftrightarrow> c = 0x20 \<or> c = 0x0A \<or> c = 0x0D \<or> c = 0x09"

definition skip_ws :: "jstr \<Rightarrow> jstr" where
  "skip_ws s = dropWhile is_ws s"

text \<open>\<open>this.src[this.pos] === c\<close>.\<close>

definition peek :: "cu \<Rightarrow> jstr \<Rightarrow> bool" where
  "peek c s \<longleftrightarrow> s \<noteq> [] \<and> hd s = c"

lemma length_skip_ws: "length (skip_ws s) \<le> length s"
  by (simp add: skip_ws_def length_dropWhile_le)

lemma match_frac_length: "match_frac s = (f, t) \<Longrightarrow> length t \<le> length s"
  using match_frac_props [of s f t] by simp

lemma match_exp_length: "match_exp s = (e, t) \<Longrightarrow> length t \<le> length s"
  using length_dropWhile_le [of is_digit]
  by (auto simp: match_exp_def exp_sign_def Let_def split: list.splits if_splits intro: le_SucI)

lemma match_number_length: "match_number s = Some (m, r) \<Longrightarrow> length r < length s"
proof -
  assume m: "match_number s = Some (m, r)"
  obtain sg s1 where ms: "minus_sign s = (sg, s1)" by fastforce
  obtain i s2 where mi: "match_int s1 = (i, s2)" by fastforce
  obtain f s3 where mf: "match_frac s2 = (f, s3)" by fastforce
  obtain e s4 where me: "match_exp s3 = (e, s4)" by fastforce
  have "i \<noteq> []" "r = s4"
    using m ms mi mf me by (auto simp: match_number_def split: if_splits)
  moreover have "length s1 \<le> length s"
    using ms by (auto simp: minus_sign_def split: list.splits if_splits)
  moreover have "i = [] \<or> length s2 < length s1"
    using mi length_dropWhile_le [of is_digit "tl s1"]
    by (auto simp: match_int_def split: list.splits if_splits)
  ultimately show ?thesis
    using match_frac_length [OF mf] match_exp_length [OF me] by auto
qed

text \<open>
  \<open>jvalue\<close> is \<open>value\<close>, \<open>jelems\<close> and \<open>jmembers\<close> are the loops of \<open>array\<close> and \<open>object\<close> with the
  items and the map they have built so far.
\<close>

function jvalue :: "nat \<Rightarrow> jstr \<Rightarrow> (jnode \<times> jstr) option"
  and jelems :: "nat \<Rightarrow> jnode list \<Rightarrow> jstr \<Rightarrow> (jnode \<times> jstr) option"
  and jmembers :: "nat \<Rightarrow> (jstr, jnode) jsmap \<Rightarrow> jstr \<Rightarrow> (jnode \<times> jstr) option" where
  "jvalue depth s0 =
     (if depth > max_nesting then None
      else let s = skip_ws s0 in
        if peek (ch CHR ''{'') s then
          (let r = skip_ws (tl s) in
            if peek (ch CHR ''}'') r then Some (JObj [], tl r) else jmembers depth [] r)
        else if peek (ch CHR ''['') s then
          (let r = skip_ws (tl s) in
            if peek (ch CHR '']'') r then Some (JArr [], tl r) else jelems depth [] r)
        else if peek 0x22 s then map_option (\<lambda>(k, r). (JStr k, r)) (string_token (tl s))
        else if starts_with (js ''null'') s then Some (JLit (js ''null''), drop 4 s)
        else if starts_with (js ''true'') s then Some (JLit (js ''true''), drop 4 s)
        else if starts_with (js ''false'') s then Some (JLit (js ''false''), drop 5 s)
        else map_option (\<lambda>(m, r). (JNum (normalize_number m), r)) (match_number s))"
| "jelems depth items s =
     (case jvalue (Suc depth) s of
        None \<Rightarrow> None
      | Some (v, r) \<Rightarrow>
          let r' = skip_ws r in
          if peek (ch CHR '']'') r' then Some (JArr (items @ [v]), tl r')
          else if peek (ch CHR '','') r' then jelems depth (items @ [v]) (tl r')
          else None)"
| "jmembers depth entries s =
     (let s' = skip_ws s in
      if \<not> peek 0x22 s' then None
      else case string_token (tl s') of
        None \<Rightarrow> None
      | Some (key, r) \<Rightarrow>
          let r1 = skip_ws r in
          if \<not> peek (ch CHR '':'') r1 then None
          else case jvalue (Suc depth) (tl r1) of
            None \<Rightarrow> None
          | Some (v, r2) \<Rightarrow>
              let r3 = skip_ws r2; entries' = mset_key key v entries in
              if peek (ch CHR ''}'') r3 then Some (JObj entries', tl r3)
              else if peek (ch CHR '','') r3 then jmembers depth entries' (tl r3)
              else None)"
  by pat_completeness auto

lemma tl_skip_less: "peek c (skip_ws s) \<Longrightarrow> length (tl (skip_ws s)) < length s"
  using length_skip_ws [of s] by (cases "skip_ws s") (auto simp: peek_def)

lemma skip_tl_less: "peek c (skip_ws s) \<Longrightarrow> length (skip_ws (tl (skip_ws s))) < length s"
  using tl_skip_less [of c s] length_skip_ws [of "tl (skip_ws s)"] by simp

lemma starts_with_drop: "starts_with p s \<Longrightarrow> p \<noteq> [] \<Longrightarrow> length (drop (length p) s) < length s"
  by (erule starts_withE) simp

lemma jparse_shrinks:
  "jvalue_jelems_jmembers_dom (Inl (d, s)) \<Longrightarrow> (\<And>v r. jvalue d s = Some (v, r) \<Longrightarrow> length r < length s)"
  "jvalue_jelems_jmembers_dom (Inr (Inl (d, items, s))) \<Longrightarrow>
    (\<And>v r. jelems d items s = Some (v, r) \<Longrightarrow> length r < length s)"
  "jvalue_jelems_jmembers_dom (Inr (Inr (d, entries, s))) \<Longrightarrow>
    (\<And>v r. jmembers d entries s = Some (v, r) \<Longrightarrow> length r < length s)"
proof (induction d s and d items s and d entries s rule: jvalue_jelems_jmembers.pinduct)
  case (1 d s0)
  let ?s = "skip_ws s0" and ?r = "skip_ws (tl (skip_ws s0))"
  have l: "length ?s \<le> length s0" by (rule length_skip_ws)
  have lr: "length ?r < length s0" if "?s \<noteq> []"
    using length_skip_ws [of "tl ?s"] l that by (cases ?s) auto
  have lit: "starts_with p ?s \<Longrightarrow> p \<noteq> [] \<Longrightarrow> length (drop (length p) ?s) < length s0" for p
    using starts_with_drop [of p ?s] l by simp
  show ?case
    using "1.prems" lr l lit [of "js ''null''"] lit [of "js ''true''"] lit [of "js ''false''"]
      "1.IH"(1) [OF _ refl _ refl] "1.IH"(2) [OF _ refl _ _ refl]
      tl_skip_less [of _ s0]
    unfolding jvalue.psimps [OF "1.hyps"] Let_def
    by (fastforce split: if_splits dest: string_token_length match_number_length simp: peek_def)
next
  case (2 d items s)
  then obtain v' r' where v: "jvalue (Suc d) s = Some (v', r')"
    by (auto simp: jelems.psimps split: option.splits)
  have l: "length r' < length s" by (rule "2.IH"(1) [OF v])
  show ?case
    using "2.prems" l tl_skip_less [of _ r'] "2.IH"(2) [OF v refl refl]
    unfolding jelems.psimps [OF "2.hyps"] v Let_def option.case prod.case
    by (fastforce split: if_splits)
next
  case (3 d entries s)
  then obtain k r1 where q: "peek 0x22 (skip_ws s)" and k: "string_token (tl (skip_ws s)) = Some (k, r1)"
      and c: "peek (ch CHR '':'') (skip_ws r1)"
    by (auto simp: jmembers.psimps Let_def split: option.splits if_splits)
  with "3.prems" "3.hyps" obtain v' r2 where v: "jvalue (Suc d) (tl (skip_ws r1)) = Some (v', r2)"
    by (auto simp: jmembers.psimps Let_def split: option.splits if_splits)
  have "length r2 < length (tl (skip_ws r1))"
    by (rule "3.IH"(1) [OF refl _ k refl refl _ v]) (use q c in auto)
  with tl_skip_less [OF q] string_token_length [OF k] tl_skip_less [OF c]
  have l: "length r2 < length s" by linarith
  have qc: "\<not> \<not> peek 0x22 (skip_ws s)" "\<not> \<not> peek (ch CHR '':'') (skip_ws r1)" using q c by auto
  show ?case
    using "3.prems" l tl_skip_less [of _ r2] "3.IH"(2) [OF refl qc(1) k refl refl qc(2) v refl refl refl] q c
    unfolding jmembers.psimps [OF "3.hyps"] Let_def k v option.case prod.case
    by (fastforce split: if_splits)
qed

termination jvalue
proof (relation "measure (case_sum (\<lambda>(d, s). 2 * length s)
    (case_sum (\<lambda>(d, items, s). 2 * length s + 1) (\<lambda>(d, entries, s). 2 * length s + 1)))", goal_cases)
  case 1
  show ?case by simp
next
  case (2 d s0 s r)
  then show ?case
    using skip_tl_less [of _ s0] by fastforce
next
  case (3 d s0 s r)
  then show ?case
    using skip_tl_less [of _ s0] by fastforce
next
  case (4 d items s)
  then show ?case by simp
next
  case (5 d items s p v r r')
  then show ?case
    using tl_skip_less [of "ch CHR '',''" r] jparse_shrinks(1) [of "Suc d" s v r] by auto
next
  case (6 d entries s s' p k r r1)
  then show ?case
    using tl_skip_less [of "0x22" s] tl_skip_less [of "ch CHR '':''" r] string_token_length [of "tl s'" k r]
    by auto
next
  case (7 d entries s s' p k r r1 q v r2 r3 entries')
  then show ?case
    using tl_skip_less [of "0x22" s] tl_skip_less [of "ch CHR '':''" r] string_token_length [of "tl s'" k r]
      tl_skip_less [of "ch CHR '',''" r2] jparse_shrinks(1) [of "Suc d" "tl r1" v r2]
    by auto
qed

declare jvalue.simps [simp del] jelems.simps [simp del] jmembers.simps [simp del]

text \<open>\<open>document()\<close>: one value, white space around it, nothing else.\<close>

definition document :: "jstr \<Rightarrow> jnode option" where
  "document s = (case jvalue 0 s of
     None \<Rightarrow> None
   | Some (v, r) \<Rightarrow> if skip_ws r = [] then Some v else None)"

section \<open>Normalisation and output\<close>

fun normalize :: "bool \<Rightarrow> jnode \<Rightarrow> jnode \<times> jstr" where
  "normalize u (JLit v) = (JLit v, v)"
| "normalize u (JNum v) = (JNum v, v)"
| "normalize u (JStr s) = (JStr s, quote s)"
| "normalize u (JArr items) =
     (let ns = map (normalize u) items;
          ns' = (if u then sort_by (\<lambda>x y. snd x \<le> snd y) ns else ns)
      in (JArr (map fst ns'), js ''['' @ join (js '','') (map snd ns') @ js '']''))"
| "normalize u (JObj entries) =
     (let es = map (\<lambda>(k, c). (k, normalize u c)) (sort_by (\<lambda>x y. fst x \<le> fst y) entries)
      in (JObj (map (\<lambda>(k, c). (k, fst c)) es),
          js ''{'' @ join (js '','') (map (\<lambda>(k, c). quote k @ js '':'' @ snd c) es) @ js ''}''))"

fun render :: "jstr \<Rightarrow> jnode \<Rightarrow> jstr" where
  "render indent (JLit v) = v"
| "render indent (JNum v) = v"
| "render indent (JStr s) = quote s"
| "render indent (JArr items) =
     (if items = [] then js ''[]''
      else let inner = indent @ js ''  '' in
        js ''['' @ [10] @ join (js '','' @ [10]) (map (\<lambda>i. inner @ render inner i) items)
          @ [10] @ indent @ js '']'')"
| "render indent (JObj entries) =
     (if entries = [] then js ''{}''
      else let inner = indent @ js ''  '' in
        js ''{'' @ [10] @ join (js '','' @ [10])
            (map (\<lambda>(k, v). inner @ quote k @ js '': '' @ render inner v) entries)
          @ [10] @ indent @ js ''}'')"

text \<open>\<open>canonicalJson(text, { ignoreArrayOrder: u })\<close>.\<close>

definition canonical_json :: "bool \<Rightarrow> jstr \<Rightarrow> jstr option" where
  "canonical_json u text = map_option (\<lambda>n. render [] (fst (normalize u n))) (document text)"

end
