(* ===== verification/CanonicalJsonProps.thy ===== *)
theory CanonicalJsonProps
  imports CanonicalJson
begin

text \<open>
  What the canonical JSON form promises: the canonical text of a document parses back to the
  normalised document, equal canonical texts mean equal JSON values and equal values have equal
  canonical texts (with arrays as lists or as multisets, as the option says).
\<close>

section \<open>Canonical number tokens\<close>

definition number_end :: "jstr \<Rightarrow> bool" where
  "number_end r \<longleftrightarrow> r = [] \<or> (\<not> is_digit (hd r) \<and> hd r \<noteq> 46 \<and> hd r \<noteq> 101 \<and> hd r \<noteq> 69)"

definition no_digit :: "jstr \<Rightarrow> bool" where
  "no_digit r \<longleftrightarrow> r = [] \<or> \<not> is_digit (hd r)"

lemma number_end_no_digit: "number_end r \<Longrightarrow> no_digit r"
  by (auto simp: number_end_def no_digit_def)

lemma take_digits': "all_digits d \<Longrightarrow> no_digit t \<Longrightarrow>
    takeWhile is_digit (d @ t) = d \<and> dropWhile is_digit (d @ t) = t"
  by (rule take_digits) (auto simp: no_digit_def)

lemma match_int_append: "i = [48] \<or> (all_digits i \<and> i \<noteq> [] \<and> hd i \<noteq> 48) \<Longrightarrow> no_digit t \<Longrightarrow>
    match_int (i @ t) = (i, t)"
  using take_digits' [of i t] by (cases i) (auto simp: match_int_def)

lemma match_frac_append: "all_digits d \<Longrightarrow> d \<noteq> [] \<Longrightarrow> no_digit t \<Longrightarrow>
    match_frac (46 # d @ t) = (46 # d, t)"
  using take_digits' [of d t] by (simp add: match_frac_def)

lemma match_frac_none: "t = [] \<or> hd t \<noteq> 46 \<Longrightarrow> match_frac t = ([], t)"
  by (auto simp: match_frac_def split: list.splits)

lemma match_exp_none: "t = [] \<or> (hd t \<noteq> 101 \<and> hd t \<noteq> 69) \<Longrightarrow> match_exp t = ([], t)"
  by (auto simp: match_exp_def split: list.splits)

lemma match_exp_text:
  "\<bar>i\<bar> < 10 ^ 21 \<Longrightarrow> no_digit r \<Longrightarrow>
    match_exp (101 # jsint_to_string (Fin i) @ r) = (101 # jsint_to_string (Fin i), r)"
proof -
  assume i: "\<bar>i\<bar> < 10 ^ 21" and r: "no_digit r"
  have d: "exp_sign (dec n @ r) = ([], dec n @ r)" for n
    using dec_digits [of "hd (dec n)" n] dec_nonempty [of n]
    by (cases "dec n") (auto simp: exp_sign_def)
  have t: "takeWhile is_digit (dec n @ r) = dec n \<and> dropWhile is_digit (dec n @ r) = r" for n
    using r by (intro take_digits') simp_all
  show ?thesis
    using i by (auto simp: jsint_to_string_def dec_int_def match_exp_def d t exp_sign_def [of "45 # _"])
qed

lemma match_number_parts:
  assumes i: "i = [48] \<or> (all_digits i \<and> i \<noteq> [] \<and> hd i \<noteq> 48)"
    and f: "match_frac (f @ e @ r) = (f, e @ r)" and e: "match_exp (e @ r) = (e, r)"
    and nd: "no_digit (f @ e @ r)"
  shows "match_number (with_sign neg (i @ f @ e) @ r) = Some (with_sign neg (i @ f @ e), r)"
proof -
  have hd: "i @ x \<noteq> [] \<and> is_digit (hd (i @ x))" for x
    using i by (cases i) auto
  have "minus_sign (with_sign neg ((i @ f @ e) @ r)) = (if neg then [ch CHR ''-''] else [], (i @ f @ e) @ r)"
    using hd [of "f @ e @ r"] by (intro minus_sign_with) auto
  then have ms: "minus_sign (with_sign neg (i @ f @ e) @ r) = (if neg then [ch CHR ''-''] else [], i @ f @ e @ r)"
    by (simp add: with_sign_def split: if_splits)
  have "i \<noteq> []" using i by auto
  then show ?thesis
    unfolding match_number_def ms Let_def prod.case match_int_append [OF i nd] f e
    by (simp add: with_sign_def)
qed

lemma layout_token:
  assumes d: "normal_digits d" and e: "\<bar>e\<bar> \<le> 8 * 10 ^ 15" and len: "int (length d) \<le> 10 ^ 15"
    and r: "number_end r"
  shows "match_number (with_sign neg (layout d (Fin e)) @ r) = Some (with_sign neg (layout d (Fin e)), r)"
proof -
  let ?n = "int (length d)"
  have d': "all_digits d" "d \<noteq> []" "hd d \<noteq> 48" and n1: "?n \<ge> 1"
    using d by (auto simp: normal_digits_def Suc_le_eq)
  have nr: "no_digit r" "match_frac r = ([], r)" "match_exp r = ([], r)"
    using r by (auto simp: number_end_def no_digit_def match_frac_none match_exp_none)
  consider (zeros) "0 \<le> e" "?n + e \<le> 21" | (point) "e < 0" "- e < ?n"
    | (small) "e < 0" "\<not> - e < ?n" "- e - ?n < 6"
    | (sci) "\<not> (0 \<le> e \<and> ?n + e \<le> 21)" "\<not> (e < 0 \<and> - e < ?n)" "\<not> (e < 0 \<and> - e - ?n < 6)"
    by blast
  then show ?thesis
  proof cases
    case zeros
    then have lay: "layout d (Fin e) = (d @ replicate (nat e) 48) @ [] @ []"
      by (simp add: layout_def Let_def)
    show ?thesis
      unfolding lay by (rule match_number_parts) (use d' nr in auto)
  next
    case point
    define k where "k = nat (?n + e)"
    have k: "0 < k" "k < length d" using point by (auto simp: k_def)
    have lay: "layout d (Fin e) = take k d @ (46 # drop k d) @ []"
      using point by (simp add: layout_def Let_def k_def)
    show ?thesis
      unfolding lay
      by (rule match_number_parts)
        (use d' nr k in \<open>auto simp: no_digit_def match_frac_append\<close>)
  next
    case small
    define k where "k = nat (- e - ?n)"
    have lay: "layout d (Fin e) = [48] @ (46 # (replicate k 48 @ d)) @ []"
      using small n1 by (simp add: layout_def Let_def k_def)
    have "match_frac (46 # (replicate k 48 @ d) @ r) = (46 # (replicate k 48 @ d), r)"
      using d' nr by (intro match_frac_append) auto
    then show ?thesis
      unfolding lay by (intro match_number_parts) (use nr in \<open>auto simp: no_digit_def\<close>)
  next
    case sci
    have b: "\<bar>e + ?n\<bar> \<le> 2 ^ 53" "\<bar>e + ?n + - 1\<bar> \<le> 2 ^ 53" "\<bar>e + ?n - 1\<bar> < 10 ^ 21"
      using e len n1 by simp_all
    define x where "x = jsint_to_string (Fin (e + ?n - 1))"
    have lay: "layout d (Fin e) = [hd d] @ (if tl d = [] then [] else 46 # tl d) @ (101 # x)"
      using sci b by (auto simp: layout_def Let_def sci_layout_def jadd_def to_double_exact sci_text_def x_def)
    have ex: "match_exp ((101 # x) @ r) = (101 # x, r)"
      using match_exp_text [OF b(3) nr(1)] by (simp add: x_def)
    have "[hd d] = [48] \<or> all_digits [hd d] \<and> [hd d] \<noteq> [] \<and> hd [hd d] \<noteq> 48"
      using d' by (cases d) auto
    then show ?thesis
      unfolding lay using d' ex
      by (intro match_number_parts)
        (auto simp: no_digit_def match_frac_none intro!: match_frac_append [of "tl d" "101 # x @ r", simplified])
  qed
qed


definition canonical_number :: "jstr \<Rightarrow> bool" where
  "canonical_number v \<longleftrightarrow> normalize_number v = v \<and> exponent_within (6 * 10 ^ 15) v \<and>
     v \<noteq> [] \<and> (hd v = 45 \<or> is_digit (hd v)) \<and>
     (\<forall>r. number_end r \<longrightarrow> match_number (v @ r) = Some (v, r))"

lemma length_dec: "n < 10 ^ k \<Longrightarrow> 0 < k \<Longrightarrow> length (dec n) \<le> k"
proof (induction n arbitrary: k rule: dec.induct)
  case (1 n)
  show ?case
  proof (cases "n < 10")
    case True
    then show ?thesis using "1.prems" by (subst dec.simps) simp
  next
    case False
    with "1.prems" obtain j where k: "k = Suc j" "0 < j" by (cases k; cases "k - 1") auto
    with "1.prems" have "n div 10 < 10 ^ j" by (simp add: less_mult_imp_div_less)
    with "1.IH" False k show ?thesis by (subst dec.simps) simp
  qed
qed

lemma layout_length:
  assumes e: "\<bar>e\<bar> \<le> 8 * 10 ^ 15" and len: "int (length d) \<le> 10 ^ 15" and d: "d \<noteq> []"
  shows "length (layout d (Fin e)) \<le> length d + 30"
proof -
  have b: "\<bar>e + int (length d)\<bar> \<le> 2 ^ 53" "\<bar>e + int (length d) + - 1\<bar> \<le> 2 ^ 53"
    "\<bar>e + int (length d) - 1\<bar> < 10 ^ 20" "length d \<ge> 1"
    using e len d by (simp_all add: Suc_le_eq)
  have x: "length (jsint_to_string (Fin (e + int (length d) - 1))) \<le> 21"
    using b length_dec [of "nat (e + int (length d) - 1)" 20] length_dec [of "nat (- (e + int (length d) - 1))" 20]
    by (auto simp: jsint_to_string_def dec_int_def nat_less_iff)
  have "length (sci_layout d (Fin e)) \<le> length d + 2 + length (jsint_to_string (Fin (e + int (length d) - 1)))"
    using b by (auto simp: sci_layout_def jadd_def to_double_exact sci_text_def)
  with x have "length (sci_layout d (Fin e)) \<le> length d + 30" by linarith
  then show ?thesis
    using b by (auto simp: layout_def Let_def)
qed

lemma canonical_number_normalize:
  assumes s: "exact_exponent s"
  shows "canonical_number (normalize_number s)"
proof -
  let ?v = "normalize_number s"
  obtain l where l: "parse_literal s = Some l" "\<bar>exp_value (lit_exp l)\<bar> \<le> 10 ^ 15"
      "int (length s) \<le> 10 ^ 15" and len: "length s \<le> 10 ^ 14"
    using s unfolding exact_exponent_def by (blast elim: exponent_withinE)
  then have x: "\<bar>exp_value (lit_exp l)\<bar> \<le> 6 * 10 ^ 15" by linarith
  have shape: "?v = [48] \<or> (\<exists>d e. normal_digits d \<and> \<bar>e\<bar> \<le> 8 * 10 ^ 15 \<and> length d \<le> 10 ^ 14 \<and>
      ?v = with_sign (lit_neg l) (layout d (Fin e)))"
    using normalize_shape [OF l(1) x l(3)]
  proof (elim disjE exE conjE)
    fix d e
    assume a: "normal_digits d" "\<bar>e\<bar> \<le> \<bar>exp_value (lit_exp l)\<bar> + int (length s)" "length d \<le> length s"
      "?v = with_sign (lit_neg l) (layout d (Fin e))"
    have "\<bar>e\<bar> \<le> 8 * 10 ^ 15" "length d \<le> 10 ^ 14" using a l len by linarith+
    with a show ?thesis by blast
  qed simp
  have tok: "match_number (?v @ r) = Some (?v, r)" if r: "number_end r" for r
    using shape
  proof (elim disjE exE conjE)
    assume v: "?v = [48]"
    have "match_number (with_sign False ([48] @ [] @ []) @ r) = Some (with_sign False ([48] @ [] @ []), r)"
      using r by (intro match_number_parts) (auto simp: number_end_def no_digit_def match_frac_none match_exp_none)
    with v show ?thesis by (simp add: with_sign_def)
  next
    fix d e
    assume "normal_digits d" "\<bar>e\<bar> \<le> 8 * 10 ^ 15" "length d \<le> 10 ^ 14"
      "?v = with_sign (lit_neg l) (layout d (Fin e))"
    with layout_token [of d e r "lit_neg l"] r show ?thesis by simp
  qed
  have small: "int (length ?v) \<le> 10 ^ 15"
    using shape
  proof (elim disjE exE conjE)
    fix d e
    assume a: "normal_digits d" "\<bar>e\<bar> \<le> 8 * 10 ^ 15" "length d \<le> 10 ^ 14"
      "?v = with_sign (lit_neg l) (layout d (Fin e))"
    then have "length (layout d (Fin e)) \<le> length d + 30"
      by (intro layout_length) (auto simp: normal_digits_def)
    with a show ?thesis by (simp add: with_sign_def)
  qed simp
  have w: "exponent_within (6 * 10 ^ 15) ?v"
    by (rule normalize_exponent_within [OF s small])
  have w': "exponent_within (6 * 10 ^ 15) s"
    using l x by (simp add: exponent_within_def)
  have idem: "normalize_number ?v = ?v"
    using normalize_complete_within [OF w w'] normalize_value_within [OF w'] by simp
  have m: "match_number ?v = Some (?v, [])" using tok [of "[]"] by (simp add: number_end_def)
  have "?v \<noteq> []"
    using match_number_length [OF m] by auto
  moreover have "hd ?v = 45 \<or> is_digit (hd ?v)"
  proof (rule ccontr)
    assume c: "\<not> (hd ?v = 45 \<or> is_digit (hd ?v))"
    with \<open>?v \<noteq> []\<close> have "minus_sign ?v = ([], ?v)" "match_int ?v = ([], ?v)"
      by (cases ?v; auto simp: minus_sign_def match_int_def)+
    then have "match_number ?v = None" by (simp add: match_number_def)
    with m show False by simp
  qed
  ultimately show ?thesis
    using idem w tok by (simp add: canonical_number_def)
qed

lemma canonical_number_value: "canonical_number v \<Longrightarrow> canonical_number w \<Longrightarrow>
    number_value v = number_value w \<longleftrightarrow> v = w"
  unfolding canonical_number_def using normalize_complete_within [of v w] by auto


section \<open>Reading a rendering back\<close>

definition all_ws :: "jstr \<Rightarrow> bool" where
  "all_ws w \<longleftrightarrow> (\<forall>c \<in> set w. is_ws c)"

text \<open>
  \<open>jtext n t\<close>: \<open>t\<close> is a JSON text of the tree \<open>n\<close>, with white space where the two printers put
  it: before each item and before the closing bracket, and behind a colon.
\<close>

inductive jtext :: "jnode \<Rightarrow> jstr \<Rightarrow> bool" where
  jt_lit: "v \<in> {js ''null'', js ''true'', js ''false''} \<Longrightarrow> jtext (JLit v) v"
| jt_num: "canonical_number v \<Longrightarrow> jtext (JNum v) v"
| jt_str: "jtext (JStr s) (quote s)"
| jt_arr0: "jtext (JArr []) (js ''[]'')"
| jt_arr: "list_all2 (\<lambda>n t. \<exists>w t'. t = w @ t' \<and> all_ws w \<and> jtext n t') (n # ns) ts \<Longrightarrow> all_ws w \<Longrightarrow>
    t = js ''['' @ join (js '','') ts @ w @ js '']'' \<Longrightarrow> jtext (JArr (n # ns)) t"
| jt_obj0: "jtext (JObj []) (js ''{}'')"
| jt_obj: "list_all2 (\<lambda>e t. \<exists>w w' t'. t = w @ quote (fst e) @ js '':'' @ w' @ t' \<and> all_ws w \<and> all_ws w' \<and>
      jtext (snd e) t') (e # es) ts \<Longrightarrow> all_ws w \<Longrightarrow> distinct (map fst (e # es)) \<Longrightarrow>
    t = js ''{'' @ join (js '','') ts @ w @ js ''}'' \<Longrightarrow> jtext (JObj (e # es)) t"

text \<open>Nesting within the parser's limit, starting at depth \<open>d\<close>.\<close>

fun fits :: "nat \<Rightarrow> jnode \<Rightarrow> bool" where
  "fits d (JArr ns) \<longleftrightarrow> d \<le> max_nesting \<and> (\<forall>n \<in> set ns. fits (Suc d) n)"
| "fits d (JObj es) \<longleftrightarrow> d \<le> max_nesting \<and> (\<forall>e \<in> set es. fits (Suc d) (snd e))"
| "fits d _ \<longleftrightarrow> d \<le> max_nesting"

lemma fits_le: "fits d n \<Longrightarrow> d \<le> max_nesting"
  by (cases n) auto

lemma skip_ws_append: "all_ws w \<Longrightarrow> skip_ws (w @ s) = skip_ws s"
  unfolding skip_ws_def all_ws_def by (induction w) auto

lemma skip_ws_id: "s = [] \<or> \<not> is_ws (hd s) \<Longrightarrow> skip_ws s = s"
  by (cases s) (auto simp: skip_ws_def)

lemma is_ws_consts [simp]: "\<not> is_ws 0x7B" "\<not> is_ws 0x7D" "\<not> is_ws 0x5B" "\<not> is_ws 0x5D" "\<not> is_ws 0x22"
    "\<not> is_ws 0x2C" "\<not> is_ws 0x3A" "\<not> is_ws 110" "\<not> is_ws 116" "\<not> is_ws 102" "\<not> is_ws 45"
    "is_digit c \<Longrightarrow> \<not> is_ws c"
  by (auto simp: is_ws_def is_digit_def)

lemma jtext_head: "jtext n t \<Longrightarrow> t \<noteq> [] \<and> \<not> is_ws (hd t) \<and> hd t \<noteq> 0x5D"
  by (erule jtext.cases) (auto simp: js_def quote_def canonical_number_def is_digit_def is_ws_def)

lemma number_end_simps [simp]:
  "number_end (44 # r)" "number_end (93 # r)" "number_end (125 # r)" "number_end []"
  by (simp_all add: number_end_def is_digit_def)

lemma number_end_ws: "all_ws w \<Longrightarrow> number_end r \<Longrightarrow> number_end (w @ r)"
  by (cases w) (auto simp: number_end_def all_ws_def is_ws_def is_digit_def)

definition reads :: "nat \<Rightarrow> jnode \<Rightarrow> jstr \<Rightarrow> bool" where
  "reads d n t \<longleftrightarrow> (\<forall>r. number_end r \<longrightarrow> jvalue d (t @ r) = Some (n, r))"

lemma jvalue_skip: "all_ws w \<Longrightarrow> jvalue d (w @ s) = jvalue d s"
  by (simp add: jvalue.simps [of d] skip_ws_append)

lemma skip_ws_idem [simp]: "skip_ws (skip_ws s) = skip_ws s"
  using hd_dropWhile [of is_ws s] by (cases "skip_ws s = []") (auto simp: skip_ws_id skip_ws_def)

lemma jvalue_skip_ws: "jvalue d (skip_ws s) = jvalue d s"
  by (simp add: jvalue.simps [of d])

lemma jelems_skip_ws: "jelems d items (skip_ws s) = jelems d items s"
  by (simp add: jelems.simps [of d items] jvalue_skip_ws)

lemma jmembers_skip_ws: "jmembers d entries (skip_ws s) = jmembers d entries s"
  by (simp add: jmembers.simps [of d entries])

lemma reads_ws: "reads d n t \<Longrightarrow> all_ws w \<Longrightarrow> reads d n (w @ t)"
  by (simp add: reads_def jvalue_skip)

lemma reads_lit: "d \<le> max_nesting \<Longrightarrow> v \<in> {js ''null'', js ''true'', js ''false''} \<Longrightarrow> reads d (JLit v) v"
  by (auto simp: reads_def jvalue.simps [of d] js_def skip_ws_id starts_with_def peek_def)

lemma jvalue_number:
  assumes "d \<le> max_nesting" "s \<noteq> []" "hd s = 45 \<or> is_digit (hd s)"
  shows "jvalue d s = map_option (\<lambda>(m, r). (JNum (normalize_number m), r)) (match_number s)"
proof -
  have h: "hd s \<noteq> 123" "hd s \<noteq> 91" "hd s \<noteq> 34" "hd s \<noteq> 110" "hd s \<noteq> 116" "hd s \<noteq> 102" "\<not> is_ws (hd s)"
    using assms(3) by (auto simp: is_digit_def is_ws_def)
  have "\<not> starts_with (js ''null'') s" "\<not> starts_with (js ''true'') s" "\<not> starts_with (js ''false'') s"
    using h assms(2) by (cases s; simp add: starts_with_def js_def)+
  with h assms show ?thesis
    by (simp add: jvalue.simps [of d] skip_ws_id peek_def Let_def)
qed

lemma reads_num: "d \<le> max_nesting \<Longrightarrow> canonical_number v \<Longrightarrow> reads d (JNum v) v"
  by (auto simp: reads_def canonical_number_def jvalue_number)

lemma reads_str: "d \<le> max_nesting \<Longrightarrow> reads d (JStr s) (quote s)"
  by (simp add: reads_def jvalue.simps [of d] skip_ws_id peek_def quote_def string_token_quote)

lemma reads_elems:
  "list_all2 (\<lambda>n t. reads (Suc d) n t) (n # ns) ts \<Longrightarrow> all_ws w \<Longrightarrow>
    jelems d items (join [0x2C] ts @ w @ 0x5D # r) = Some (JArr (items @ n # ns), r)"
proof (induction ns arbitrary: n ts items)
  case Nil
  then obtain t where ts: "ts = [t]" and t: "reads (Suc d) n t"
    by (auto simp: list_all2_Cons1)
  have "jvalue (Suc d) (t @ w @ 0x5D # r) = Some (n, w @ 0x5D # r)"
    using t Nil.prems(2) by (simp add: reads_def number_end_ws)
  then show ?case
    using Nil.prems(2) ts by (simp add: jelems.simps [of d] skip_ws_append skip_ws_id peek_def)
next
  case (Cons m ns)
  then obtain t t' ts' where ts: "ts = t # t' # ts'" and t: "reads (Suc d) n t"
    and rest: "list_all2 (\<lambda>n t. reads (Suc d) n t) (m # ns) (t' # ts')"
    by (auto simp: list_all2_Cons1)
  have "jvalue (Suc d) (t @ 0x2C # join [0x2C] (t' # ts') @ w @ 0x5D # r) =
      Some (n, 0x2C # join [0x2C] (t' # ts') @ w @ 0x5D # r)"
    using t by (simp add: reads_def)
  then show ?case
    using Cons.IH [OF rest Cons.prems(2), of "items @ [n]"] ts
    by (simp add: jelems.simps [of d] skip_ws_id peek_def)
qed


lemma mset_key_snoc: "k \<notin> set (map fst es) \<Longrightarrow> mset_key k v es = es @ [(k, v)]"
  using mset_key_fresh [of k es v] by (simp add: mkeys_def)

definition reads_member :: "nat \<Rightarrow> jstr \<times> jnode \<Rightarrow> jstr \<Rightarrow> bool" where
  "reads_member d e t \<longleftrightarrow> (\<exists>w w' t'. t = w @ quote (fst e) @ 0x3A # w' @ t' \<and> all_ws w \<and> all_ws w' \<and>
      reads (Suc d) (snd e) t')"

lemma reads_member_step:
  assumes t: "reads_member d e t" and r: "number_end r" and fresh: "fst e \<notin> set (map fst acc)"
  shows "jmembers d acc (t @ r) =
    (let r3 = skip_ws r in
      if peek (ch CHR ''}'') r3 then Some (JObj (acc @ [e]), tl r3)
      else if peek (ch CHR '','') r3 then jmembers d (acc @ [e]) (tl r3)
      else None)"
proof -
  obtain w w' t' where t: "t = w @ quote (fst e) @ 0x3A # w' @ t'" "all_ws w" "all_ws w'"
      "reads (Suc d) (snd e) t'"
    using t unfolding reads_member_def by blast
  have v: "jvalue (Suc d) (w' @ t' @ r) = Some (snd e, r)"
    using t r by (simp add: jvalue_skip reads_def)
  have q: "string_token (quote_body (fst e) @ 0x22 # 0x3A # w' @ t' @ r) = Some (fst e, 0x3A # w' @ t' @ r)"
    by (rule string_token_quote)
  have e: "acc @ [(fst e, snd e)] = acc @ [e]" by simp
  show ?thesis
    using t(2) fresh v q unfolding t(1)
    by (simp add: jmembers.simps [of d acc] skip_ws_append skip_ws_id peek_def quote_def mset_key_snoc Let_def)
qed

lemma reads_members:
  "list_all2 (reads_member d) (e # es) ts \<Longrightarrow> all_ws w \<Longrightarrow> distinct (map fst (acc @ e # es)) \<Longrightarrow>
    jmembers d acc (join [0x2C] ts @ w @ 0x7D # r) = Some (JObj (acc @ e # es), r)"
proof (induction es arbitrary: e ts acc)
  case Nil
  then obtain t where ts: "ts = [t]" and t: "reads_member d e t"
    by (auto simp: list_all2_Cons1)
  show ?case
    using reads_member_step [OF t, of "w @ 0x7D # r" acc] Nil.prems ts
    by (simp add: number_end_ws skip_ws_append skip_ws_id peek_def)
next
  case (Cons e' es)
  then obtain t t' ts' where ts: "ts = t # t' # ts'" and t: "reads_member d e t"
    and rest: "list_all2 (reads_member d) (e' # es) (t' # ts')"
    by (auto simp: list_all2_Cons1)
  have "jmembers d (acc @ [e]) (join [0x2C] (t' # ts') @ w @ 0x7D # r) =
      Some (JObj ((acc @ [e]) @ e' # es), r)"
    using Cons.prems(3) by (intro Cons.IH [OF rest Cons.prems(2)]) simp
  then show ?case
    using reads_member_step [OF t, of "0x2C # join [0x2C] (t' # ts') @ w @ 0x7D # r" acc] Cons.prems(3) ts
    by (simp add: skip_ws_id peek_def)
qed

lemma jtext_reads: "jtext n t \<Longrightarrow> fits d n \<Longrightarrow> reads d n t"
proof (induction arbitrary: d rule: jtext.induct)
  case (jt_lit v)
  then show ?case by (intro reads_lit) (auto dest: fits_le)
next
  case (jt_num v)
  then show ?case by (intro reads_num) (auto dest: fits_le)
next
  case (jt_str s)
  then show ?case by (intro reads_str) (auto dest: fits_le)
next
  case jt_arr0
  then show ?case
    by (simp add: reads_def jvalue.simps [of d] js_def skip_ws_id peek_def)
next
  case (jt_arr n ns ts w t)
  have all: "list_all2 (reads (Suc d)) (n # ns) ts"
    using jt_arr.IH(1)
  proof (rule list.rel_mono_strong)
    fix m t' assume m: "m \<in> set (n # ns)"
      and "\<exists>w t''. t' = w @ t'' \<and> all_ws w \<and> jtext m t'' \<and> (\<forall>d. fits d m \<longrightarrow> reads d m t'')"
    moreover have "fits (Suc d) m" using jt_arr.prems m by auto
    ultimately show "reads (Suc d) m t'" by (auto intro: reads_ws)
  qed
  obtain u us where ts: "ts = u # us" using all by (cases ts) auto
  then obtain w' t' where u: "u = w' @ t'" "all_ws w'" "jtext n t'"
    using jt_arr.IH(1) by auto
  have hd: "t' \<noteq> []" "\<not> is_ws (hd t')" "hd t' \<noteq> 0x5D" using jtext_head [OF u(3)] by auto
  then have np: "\<not> peek 0x5D (skip_ws (join [0x2C] ts @ x))" for x
    using u(1,2) ts by (cases us) (auto simp: skip_ws_append skip_ws_id peek_def)
  have "reads d (JArr (n # ns)) (0x5B # join [0x2C] ts @ w @ [0x5D])"
    unfolding reads_def
  proof (intro allI impI)
    fix r assume "number_end r"
    have "jelems d [] (skip_ws (join [0x2C] ts @ w @ 0x5D # r)) = Some (JArr (n # ns), r)"
      using reads_elems [OF all jt_arr.hyps(1), where items = "[]"]
      by (simp add: jelems_skip_ws)
    then show "jvalue d ((0x5B # join [0x2C] ts @ w @ [0x5D]) @ r) = Some (JArr (n # ns), r)"
      using np [of "w @ 0x5D # r"] fits_le [OF jt_arr.prems]
      by (simp add: jvalue.simps [of d] skip_ws_id Let_def) (simp add: peek_def)
  qed
  then show ?case using jt_arr by (simp add: js_def)
next
  case jt_obj0
  then show ?case
    by (simp add: reads_def jvalue.simps [of d] js_def skip_ws_id peek_def)
next
  case (jt_obj e es ts w t)
  have all: "list_all2 (reads_member d) (e # es) ts"
    using jt_obj.IH(1)
  proof (rule list.rel_mono_strong)
    fix m t' assume m: "m \<in> set (e # es)"
      and "\<exists>w w' t''. t' = w @ quote (fst m) @ js '':'' @ w' @ t'' \<and> all_ws w \<and> all_ws w' \<and>
        jtext (snd m) t'' \<and> (\<forall>d. fits d (snd m) \<longrightarrow> reads d (snd m) t'')"
    moreover have "fits (Suc d) (snd m)" using jt_obj.prems m by auto
    ultimately show "reads_member d m t'" unfolding reads_member_def by (force simp: js_def)
  qed
  obtain u us where ts: "ts = u # us" using all by (cases ts) auto
  then obtain w' t' where u: "u = w' @ quote (fst e) @ t'" "all_ws w'"
    using all unfolding reads_member_def by auto
  then have np: "\<not> peek 0x7D (skip_ws (join [0x2C] ts @ x))" for x
    using ts by (cases us) (auto simp: skip_ws_append skip_ws_id peek_def quote_def)
  have "reads d (JObj (e # es)) (0x7B # join [0x2C] ts @ w @ [0x7D])"
    unfolding reads_def
  proof (intro allI impI)
    fix r assume "number_end r"
    have "jmembers d [] (skip_ws (join [0x2C] ts @ w @ 0x7D # r)) = Some (JObj (e # es), r)"
      using reads_members [OF all jt_obj.hyps(1), where acc = "[]"] jt_obj.hyps(2)
      by (simp add: jmembers_skip_ws)
    then show "jvalue d ((0x7B # join [0x2C] ts @ w @ [0x7D]) @ r) = Some (JObj (e # es), r)"
      using np [of "w @ 0x7D # r"] fits_le [OF jt_obj.prems]
      by (simp add: jvalue.simps [of d] skip_ws_id Let_def) (simp add: peek_def)
  qed
  then show ?case using jt_obj by (simp add: js_def)
qed


section \<open>What the parser returns\<close>

fun nums :: "jnode \<Rightarrow> jstr set" where
  "nums (JNum v) = {v}"
| "nums (JArr ns) = (\<Union>n \<in> set ns. nums n)"
| "nums (JObj es) = (\<Union>e \<in> set es. nums (snd e))"
| "nums _ = {}"

fun wf_node :: "jnode \<Rightarrow> bool" where
  "wf_node (JLit v) \<longleftrightarrow> v \<in> {js ''null'', js ''true'', js ''false''}"
| "wf_node (JArr ns) \<longleftrightarrow> (\<forall>n \<in> set ns. wf_node n)"
| "wf_node (JObj es) \<longleftrightarrow> distinct (map fst es) \<and> (\<forall>e \<in> set es. wf_node (snd e))"
| "wf_node _ \<longleftrightarrow> True"

definition good :: "nat \<Rightarrow> jnode \<Rightarrow> bool" where
  "good d n \<longleftrightarrow> fits d n \<and> wf_node n"

lemma good_arr: "good d (JArr ns) \<longleftrightarrow> d \<le> max_nesting \<and> (\<forall>n \<in> set ns. good (Suc d) n)"
  by (auto simp: good_def)

lemma good_obj: "good d (JObj es) \<longleftrightarrow> d \<le> max_nesting \<and> distinct (mkeys es) \<and> (\<forall>e \<in> set es. good (Suc d) (snd e))"
  by (auto simp: good_def mkeys_def)

lemma good_mset: "(\<forall>e \<in> set es. good d (snd e)) \<Longrightarrow> good d v \<Longrightarrow> e \<in> set (mset_key k v es) \<Longrightarrow> good d (snd e)"
  using set_mset_key_subset [of k v es] by auto

lemma jparse_good:
  "jvalue d s = Some (v, r) \<Longrightarrow> good d v"
  "jelems d items s = Some (v, r) \<Longrightarrow> d \<le> max_nesting \<Longrightarrow> \<forall>n \<in> set items. good (Suc d) n \<Longrightarrow> good d v"
  "jmembers d entries s = Some (v, r) \<Longrightarrow> d \<le> max_nesting \<Longrightarrow> distinct (mkeys entries) \<Longrightarrow>
    \<forall>e \<in> set entries. good (Suc d) (snd e) \<Longrightarrow> good d v"
proof (induction d s and d items s and d entries s arbitrary: v r and v r and v r
    rule: jvalue_jelems_jmembers.induct)
  case (1 d s0)
  have d: "d \<le> max_nesting" using "1.prems" by (auto simp: jvalue.simps [of d s0] split: if_splits)
  then have nd: "\<not> max_nesting < d" by simp
  consider (members) "jmembers d [] (skip_ws (tl (skip_ws s0))) = Some (v, r)" "peek 0x7B (skip_ws s0)"
        "\<not> peek 0x7D (skip_ws (tl (skip_ws s0)))"
    | (elems) "jelems d [] (skip_ws (tl (skip_ws s0))) = Some (v, r)" "\<not> peek 0x7B (skip_ws s0)"
        "peek 0x5B (skip_ws s0)" "\<not> peek 0x5D (skip_ws (tl (skip_ws s0)))"
    | (leaf) "v \<in> {JObj [], JArr []} \<union> range JStr \<union> range JNum \<union> JLit ` {js ''null'', js ''true'', js ''false''}"
    using "1.prems" d by (auto simp: jvalue.simps [of d s0] Let_def split: if_splits)
  then show ?case
  proof cases
    case members
    with "1.IH"(1) [OF nd refl _ refl] d show ?thesis by (simp add: mkeys_def)
  next
    case elems
    with "1.IH"(2) [OF nd refl _ _ refl] d show ?thesis by simp
  next
    case leaf
    with d show ?thesis by (auto simp: good_def)
  qed
next
  case (2 d items s)
  then obtain v' r' where v: "jvalue (Suc d) s = Some (v', r')"
    by (auto simp: jelems.simps [of d items s] split: option.splits)
  with "2.IH"(1) have g: "good (Suc d) v'" by blast
  show ?case
    using "2.prems" g "2.IH"(2) [OF v refl refl]
    by (auto simp: jelems.simps [of d items s] v Let_def good_arr split: if_splits)
next
  case (3 d entries s)
  then obtain k r1 where q: "peek 0x22 (skip_ws s)" and k: "string_token (tl (skip_ws s)) = Some (k, r1)"
      and c: "peek 0x3A (skip_ws r1)"
    by (auto simp: jmembers.simps [of d entries s] Let_def split: option.splits if_splits)
  with "3.prems" obtain v' r2 where v: "jvalue (Suc d) (tl (skip_ws r1)) = Some (v', r2)"
    by (auto simp: jmembers.simps [of d entries s] Let_def split: option.splits if_splits)
  have qc: "\<not> \<not> peek 0x22 (skip_ws s)" "\<not> \<not> peek (ch CHR '':'') (skip_ws r1)" using q c by auto
  have g: "good (Suc d) v'" by (rule "3.IH"(1) [OF refl qc(1) k refl refl qc(2) v])
  let ?es = "mset_key k v' entries"
  have es: "distinct (mkeys ?es)" "\<forall>e \<in> set ?es. good (Suc d) (snd e)"
    using "3.prems"(3,4) g by (auto intro: good_mset)
  show ?case
    using "3.prems"(1,2) es "3.IH"(2) [OF refl qc(1) k refl refl qc(2) v refl refl refl, of _ r] q c
    by (auto simp: jmembers.simps [of d entries s] k v Let_def good_obj split: if_splits)
qed

end
