(* ===== verification/CanonicalJsonSem.thy ===== *)
theory CanonicalJsonSem
  imports CanonicalJsonProps
begin

text \<open>
  The abstract specification of the canonical form: a JSON value as mathematics has it (numbers
  as rationals, objects as finite maps, arrays as lists or as multisets), and the refinement:
  two documents have the same canonical text exactly when they denote the same value.
\<close>

section \<open>Values\<close>

datatype sem =
    SLit jstr
  | SNum rat
  | SStr jstr
  | SArr "sem list"
  | SBag "sem multiset"
  | SObj "(jstr, sem) fmap"

fun denote :: "bool \<Rightarrow> jnode \<Rightarrow> sem" where
  "denote u (JLit v) = SLit v"
| "denote u (JNum v) = SNum (case number_value v of Some q \<Rightarrow> q | None \<Rightarrow> 0)"
| "denote u (JStr s) = SStr s"
| "denote u (JArr ns) = (if u then SBag (mset (map (denote u) ns)) else SArr (map (denote u) ns))"
| "denote u (JObj es) = SObj (fmap_of_list (map (\<lambda>e. (fst e, denote u (snd e))) es))"

text \<open>
  Documents whose numbers the normal form represents exactly: every number is the normal form
  of a literal with at most \<open>10 ^ 14\<close> characters and an exponent of at most \<open>10 ^ 15\<close>.
\<close>

definition exact_numbers :: "jnode \<Rightarrow> bool" where
  "exact_numbers n \<longleftrightarrow> (\<forall>v \<in> nums n. \<exists>s. exact_exponent s \<and> v = normalize_number s)"

lemma exact_numbers_simps [simp]:
  "exact_numbers (JLit v)" "exact_numbers (JStr s)"
  "exact_numbers (JArr ns) \<longleftrightarrow> (\<forall>n \<in> set ns. exact_numbers n)"
  "exact_numbers (JObj es) \<longleftrightarrow> (\<forall>e \<in> set es. exact_numbers (snd e))"
  by (auto simp: exact_numbers_def)

lemma exact_numbers_canonical: "exact_numbers (JNum v) \<Longrightarrow> canonical_number v"
  by (auto simp: exact_numbers_def canonical_number_normalize)

definition solid :: "nat \<Rightarrow> jnode \<Rightarrow> bool" where
  "solid d n \<longleftrightarrow> good d n \<and> exact_numbers n"

lemma solid_arr: "solid d (JArr ns) \<longleftrightarrow> d \<le> max_nesting \<and> (\<forall>n \<in> set ns. solid (Suc d) n)"
  by (auto simp: solid_def good_arr)

lemma solid_obj: "solid d (JObj es) \<longleftrightarrow>
    d \<le> max_nesting \<and> distinct (mkeys es) \<and> (\<forall>e \<in> set es. solid (Suc d) (snd e))"
  by (auto simp: solid_def good_obj)


section \<open>Order of keys and entries\<close>

interpretation key_order: comparator "\<lambda>x y. snd x \<le> (snd y :: jstr)"
  by unfold_locales (auto intro: code_unit_order.trans simp: code_unit_order.total)

interpretation entry_order: comparator "\<lambda>x y. fst x \<le> (fst y :: jstr)"
  by unfold_locales (auto intro: code_unit_order.trans simp: code_unit_order.total)

lemma insert_by_map_fst: "(\<And>x. fst (h x) = fst x) \<Longrightarrow>
    map h (insert_by (\<lambda>x y. fst x \<le> fst y) x xs) = insert_by (\<lambda>x y. fst x \<le> fst y) (h x) (map h xs)"
  by (induction xs) auto

lemma sort_by_map_fst: "(\<And>x. fst (h x) = fst x) \<Longrightarrow>
    map h (sort_by (\<lambda>x y. fst x \<le> fst y) xs) = sort_by (\<lambda>x y. fst x \<le> fst y) (map h xs)"
  by (induction xs) (auto simp: insert_by_map_fst)

definition entries_sorted :: "bool \<Rightarrow> (jstr \<times> jnode) list \<Rightarrow> (jstr \<times> jnode \<times> jstr) list" where
  "entries_sorted u es = sort_by (\<lambda>x y. fst x \<le> fst y) (map (\<lambda>(k, c). (k, normalize u c)) es)"

definition items_sorted :: "bool \<Rightarrow> jnode list \<Rightarrow> (jnode \<times> jstr) list" where
  "items_sorted u ns = (if u then sort_by (\<lambda>x y. snd x \<le> snd y) (map (normalize u) ns)
     else map (normalize u) ns)"

lemma normalize_arr: "normalize u (JArr ns) =
    (JArr (map fst (items_sorted u ns)), js ''['' @ join (js '','') (map snd (items_sorted u ns)) @ js '']'')"
  by (simp add: items_sorted_def Let_def del: join.simps)

lemma normalize_obj: "normalize u (JObj es) =
    (JObj (map (\<lambda>(k, c). (k, fst c)) (entries_sorted u es)),
     js ''{'' @ join (js '','') (map (\<lambda>(k, c). quote k @ js '':'' @ snd c) (entries_sorted u es)) @ js ''}'')"
  by (simp add: entries_sorted_def Let_def sort_by_map_fst split_beta del: join.simps)

declare normalize.simps(4,5) [simp del]

lemma items_sorted_set: "set (items_sorted u ns) = normalize u ` set ns"
  by (simp add: items_sorted_def)

lemma items_sorted_mset: "mset (items_sorted u ns) = mset (map (normalize u) ns)"
  by (simp add: items_sorted_def)

lemma entries_sorted_set: "set (entries_sorted u es) = (\<lambda>e. (fst e, normalize u (snd e))) ` set es"
  by (simp add: entries_sorted_def split_beta)

lemma entries_sorted_mset: "mset (entries_sorted u es) = mset (map (\<lambda>e. (fst e, normalize u (snd e))) es)"
  unfolding entries_sorted_def mset_sort_by case_prod_unfold by (rule refl)

lemma entries_sorted_keys: "mset (map fst (entries_sorted u es)) = mset (map fst es)"
  by (simp add: entries_sorted_def split_beta multiset.map_comp comp_def)

lemma entries_sorted_distinct: "distinct (map fst (entries_sorted u es)) \<longleftrightarrow> distinct (map fst es)"
  using entries_sorted_keys by (rule mset_eq_imp_distinct_iff)


section \<open>The normalised document\<close>

lemma normalize_solid: "solid d n \<Longrightarrow> solid d (fst (normalize u n))"
proof (induction n arbitrary: d)
  case (JArr ns)
  then show ?case by (auto simp: normalize_arr solid_arr items_sorted_set)
next
  case (JObj es)
  then have "solid (Suc d) (fst c)" if "(k, c) \<in> set (entries_sorted u es)" for k c
    using that by (force simp: solid_obj entries_sorted_set snds.simps)
  with JObj.prems show ?case
    by (auto simp: normalize_obj solid_obj mkeys_def entries_sorted_distinct comp_def split_beta)
qed simp_all

lemma all_ws_Nil [simp]: "all_ws []"
  by (simp add: all_ws_def)

lemma item_text: "jtext n t \<Longrightarrow> \<exists>w t'. t = w @ t' \<and> all_ws w \<and> jtext n t'"
  by (rule exI [of _ "[]"]) simp

lemma member_text: "jtext n t \<Longrightarrow>
    \<exists>w w' t'. quote k @ js '':'' @ t = w @ quote k @ js '':'' @ w' @ t' \<and> all_ws w \<and> all_ws w' \<and> jtext n t'"
  by (rule exI [of _ "[]"], rule exI [of _ "[]"]) simp

lemma key_text: "solid d n \<Longrightarrow> jtext (fst (normalize u n)) (snd (normalize u n))"
proof (induction n arbitrary: d)
  case (JLit v)
  then show ?case by (auto simp: solid_def good_def intro: jt_lit)
next
  case (JNum v)
  then show ?case by (auto simp: solid_def intro: jt_num exact_numbers_canonical)
next
  case (JStr s)
  then show ?case by (auto intro: jt_str)
next
  case (JArr ns)
  have c: "jtext (fst x) (snd x)" if "x \<in> set (items_sorted u ns)" for x
    using that JArr by (auto simp: items_sorted_set solid_arr)
  show ?case
  proof (cases "items_sorted u ns")
    case Nil
    then show ?thesis using jt_arr0 by (simp add: normalize_arr js_def)
  next
    case (Cons x xs)
    have "jtext (JArr (fst x # map fst xs)) (js ''['' @ join (js '','') (map snd (x # xs)) @ [] @ js '']'')"
      by (rule jt_arr [OF _ _ refl])
        (use c Cons in \<open>auto simp: list_all2_map1 list_all2_map2 list_all2_same intro!: item_text simp del: join.simps\<close>)
    then show ?thesis by (simp add: normalize_arr Cons del: join.simps)
  qed
next
  case (JObj es)
  have c: "jtext (fst (snd x)) (snd (snd x))" if "x \<in> set (entries_sorted u es)" for x
    using that JObj by (force simp: entries_sorted_set solid_obj snds.simps)
  have dst: "distinct (map fst (entries_sorted u es))"
    using JObj.prems by (simp add: solid_obj mkeys_def entries_sorted_distinct)
  show ?case
  proof (cases "entries_sorted u es")
    case Nil
    then show ?thesis using jt_obj0 by (simp add: normalize_obj js_def)
  next
    case (Cons x xs)
    let ?h = "\<lambda>(k, c). (k, fst c)" and ?t = "\<lambda>(k, c). quote k @ js '':'' @ snd c"
    have "\<exists>w w' t'. ?t y = w @ quote (fst (?h y)) @ js '':'' @ w' @ t' \<and> all_ws w \<and> all_ws w' \<and>
        jtext (snd (?h y)) t'" if "y \<in> set (x # xs)" for y
      using c [of y] that Cons by (cases y) (auto intro!: member_text)
    then have "jtext (JObj (?h x # map ?h xs)) (js ''{'' @ join (js '','') (map ?t (x # xs)) @ [] @ js ''}'')"
      using dst unfolding Cons
      by (intro jt_obj [OF _ _ _ refl])
        (simp_all add: list_all2_map1 list_all2_map2 list_all2_same comp_def case_prod_unfold del: join.simps)
    then show ?thesis by (simp add: normalize_obj Cons del: join.simps)
  qed
qed

lemma jtext_unique: "jtext m t \<Longrightarrow> jtext n t \<Longrightarrow> fits d m \<Longrightarrow> fits d n \<Longrightarrow> m = n"
  using jtext_reads [of m t d] jtext_reads [of n t d] unfolding reads_def
  by (metis number_end_simps(4) append_Nil2 option.inject prod.inject)

lemma key_determines: "solid d m \<Longrightarrow> solid d n \<Longrightarrow> snd (normalize u m) = snd (normalize u n) \<Longrightarrow>
    fst (normalize u m) = fst (normalize u n)"
  using key_text [of d m u] key_text [of d n u] normalize_solid [of d m u] normalize_solid [of d n u]
  unfolding solid_def good_def by (auto intro: jtext_unique)


text \<open>The indented printer writes a text of the same tree.\<close>

lemma join_glue: "xs \<noteq> [] \<Longrightarrow> join a (map ((@) g) xs) = g @ join (a @ g) xs"
  by (induction xs rule: induct_list012) simp_all

lemma all_ws_append [simp]: "all_ws (v @ w) \<longleftrightarrow> all_ws v \<and> all_ws w"
  by (auto simp: all_ws_def)

lemma all_ws_consts [simp]: "all_ws (10 # w) \<longleftrightarrow> all_ws w" "all_ws (js ''  '')" "all_ws (js '' '')"
  by (auto simp: all_ws_def is_ws_def js_def)

lemma render_text: "solid d n \<Longrightarrow> all_ws i \<Longrightarrow> jtext n (render i n)"
proof (induction n arbitrary: d i)
  case (JLit v)
  then show ?case by (auto simp: solid_def good_def intro: jt_lit)
next
  case (JNum v)
  then show ?case by (auto simp: solid_def intro: jt_num exact_numbers_canonical)
next
  case (JStr s)
  then show ?case by (auto intro: jt_str)
next
  case (JArr ns)
  show ?case
  proof (cases ns)
    case Nil
    then show ?thesis using jt_arr0 by (simp add: js_def)
  next
    case (Cons m ms)
    let ?i = "i @ js ''  ''"
    let ?ts = "map (\<lambda>n. [10] @ ?i @ render ?i n) ns"
    have w: "all_ws ([10] @ ?i)" using JArr.prems by simp
    have "\<exists>w t'. [10] @ ?i @ render ?i n = w @ t' \<and> all_ws w \<and> jtext n t'" if "n \<in> set ns" for n
      using JArr.IH [OF that, of "Suc d" ?i] JArr.prems that w
      by (intro exI [of _ "[10] @ ?i"] exI [of _ "render ?i n"]) (auto simp: solid_arr)
    then have "jtext (JArr (m # ms)) (js ''['' @ join (js '','') ?ts @ ([10] @ i) @ js '']'')"
      using JArr.prems unfolding Cons
      by (intro jt_arr [OF _ _ refl]) (simp_all add: list_all2_map2 list_all2_same)
    moreover have "js ''['' @ join (js '','') ?ts @ ([10] @ i) @ js '']'' = render i (JArr ns)"
      using Cons join_glue [of "map (\<lambda>n. ?i @ render ?i n) ns" "[44]" "[10]"]
      by (simp add: Let_def js_def comp_def)
    ultimately show ?thesis using Cons by simp
  qed
next
  case (JObj es)
  show ?case
  proof (cases es)
    case Nil
    then show ?thesis using jt_obj0 by (simp add: js_def)
  next
    case (Cons e es')
    let ?i = "i @ js ''  ''"
    let ?t = "\<lambda>e. [10] @ ?i @ quote (fst e) @ js '':'' @ js '' '' @ render ?i (snd e)"
    have w: "all_ws ([10] @ ?i)" using JObj.prems by simp
    have "\<exists>w w' t'. ?t e = w @ quote (fst e) @ js '':'' @ w' @ t' \<and> all_ws w \<and> all_ws w' \<and> jtext (snd e) t'"
      if "e \<in> set es" for e
      using JObj.IH [of e "snd e" "Suc d" ?i] JObj.prems that w
      by (intro exI [of _ "[10] @ ?i"] exI [of _ "js '' ''"] exI [of _ "render ?i (snd e)"])
        (auto simp: solid_obj snds.simps)
    then have "jtext (JObj (e # es')) (js ''{'' @ join (js '','') (map ?t es) @ ([10] @ i) @ js ''}'')"
      using JObj.prems unfolding Cons
      by (intro jt_obj [OF _ _ _ refl]) (simp_all add: list_all2_map2 list_all2_same solid_obj mkeys_def)
    moreover have "js ''{'' @ join (js '','') (map ?t es) @ ([10] @ i) @ js ''}'' = render i (JObj es)"
      using Cons join_glue [of "map (\<lambda>e. ?i @ quote (fst e) @ js '':'' @ js '' '' @ render ?i (snd e)) es" "[44]" "[10]"]
      by (simp add: Let_def js_def comp_def case_prod_unfold)
    ultimately show ?thesis using Cons by simp
  qed
qed

lemma document_solid: "document a = Some n \<Longrightarrow> exact_numbers n \<Longrightarrow> solid 0 n"
  by (auto simp: document_def solid_def split: option.splits if_splits dest: jparse_good(1))

lemma document_render: "solid 0 n \<Longrightarrow> document (render [] n) = Some n"
  using jtext_reads [OF render_text, of 0 n "[]" 0] 
  by (auto simp: document_def solid_def good_def reads_def skip_ws_def dest!: spec [of _ "[]"])


section \<open>Denotation and normal form agree\<close>

lemma mset_map_factor:
  assumes "mset (map f xs) = mset (map f ys)"
    and "\<And>x y. x \<in> set xs \<Longrightarrow> y \<in> set xs \<union> set ys \<Longrightarrow> f x = f y \<Longrightarrow> g x = g y"
  shows "mset (map g xs) = mset (map g ys)"
proof -
  define h where "h v = g (SOME x. x \<in> set xs \<and> f x = v)" for v
  have h: "h (f y) = g y" if y: "y \<in> set xs \<union> set ys" for y
  proof -
    have "f y \<in> set (map f xs)"
      using y arg_cong [OF assms(1), of set_mset] by auto
    then obtain x where "x \<in> set xs \<and> f x = f y" by auto
    then have "(SOME x. x \<in> set xs \<and> f x = f y) \<in> set xs \<and> f (SOME x. x \<in> set xs \<and> f x = f y) = f y"
      by (rule someI)
    with assms(2) [OF _ y] show ?thesis unfolding h_def by blast
  qed
  have "mset (map g xs) = image_mset h (mset (map f xs))"
    using h by (auto simp: multiset.map_comp intro!: image_mset_cong)
  also have "\<dots> = mset (map g ys)"
    unfolding assms(1) using h by (auto simp: multiset.map_comp intro!: image_mset_cong)
  finally show ?thesis .
qed

lemma fmap_eq_lookup: "m = n \<longleftrightarrow> fmlookup m = fmlookup n"
  by (simp add: fmlookup_inject)

lemma map_of_mset_eq: "mset xs = mset ys \<Longrightarrow> distinct (map fst ys) \<Longrightarrow> map_of xs = map_of ys"
  using mset_eq_imp_distinct_iff [of "map fst xs" "map fst ys"]
  by (subst map_of_inject_set) (auto dest: mset_eq_setD)

lemma denote_normalize: "solid d n \<Longrightarrow> denote u (fst (normalize u n)) = denote u n"
proof (induction n arbitrary: d)
  case (JArr ns)
  then have e: "map (denote u \<circ> fst \<circ> normalize u) ns = map (denote u) ns"
    by (auto simp: solid_arr)
  show ?case
  proof (cases u)
    case True
    have "mset (map (denote u \<circ> fst) (items_sorted u ns)) = image_mset (denote u \<circ> fst) (mset (map (normalize u) ns))"
      unfolding mset_map items_sorted_mset ..
    also have "\<dots> = mset (map (denote u \<circ> fst \<circ> normalize u) ns)"
      by (simp add: multiset.map_comp comp_def)
    also have "\<dots> = mset (map (denote u) ns)" unfolding e ..
    finally show ?thesis using True by (simp add: normalize_arr)
  next
    case False
    with e show ?thesis by (simp add: normalize_arr items_sorted_def)
  qed
next
  case (JObj es)
  have e: "map (\<lambda>e. (fst e, denote u (fst (normalize u (snd e))))) es = map (\<lambda>e. (fst e, denote u (snd e))) es"
    using JObj by (auto simp: solid_obj snds.simps)
  have m: "mset (map (\<lambda>x. (fst x, denote u (fst (snd x)))) (entries_sorted u es)) =
      mset (map (\<lambda>e. (fst e, denote u (snd e))) es)"
    using arg_cong [OF entries_sorted_mset, of "image_mset (\<lambda>x. (fst x, denote u (fst (snd x))))" u es]
    unfolding e [symmetric] by (simp add: multiset.map_comp comp_def)
  have "distinct (map fst (map (\<lambda>e. (fst e, denote u (snd e))) es))"
    using JObj.prems by (simp add: solid_obj mkeys_def comp_def)
  then have "map_of (map (\<lambda>x. (fst x, denote u (fst (snd x)))) (entries_sorted u es)) =
      map_of (map (\<lambda>e. (fst e, denote u (snd e))) es)"
    using m by (intro map_of_mset_eq) auto
  then show ?case
    by (simp add: normalize_obj comp_def case_prod_unfold fmap_eq_lookup fmlookup_of_list)
qed simp_all


lemma distinct_fst_eq: "distinct (map fst xs) \<Longrightarrow> x \<in> set xs \<Longrightarrow> y \<in> set xs \<Longrightarrow> fst x = fst y \<Longrightarrow> x = y"
  by (auto simp: distinct_map dest: inj_onD)

lemma normalize_denote: "solid d m \<Longrightarrow> solid d n \<Longrightarrow> denote u m = denote u n \<Longrightarrow> normalize u m = normalize u n"
proof (induction m arbitrary: n d)
  case (JLit v)
  then show ?case by (cases n) (auto split: if_splits)
next
  case (JNum v)
  then obtain w where n: "n = JNum w" by (cases n) (auto split: if_splits)
  have c: "canonical_number v" "canonical_number w"
    using JNum.prems n by (auto simp: solid_def intro: exact_numbers_canonical)
  obtain p q where pq: "number_value v = Some p" "number_value w = Some q"
    using c unfolding canonical_number_def by (metis exponent_withinE number_value_def option.simps(9))
  with JNum.prems(3) n have "p = q" by simp
  with canonical_number_value [OF c] pq n show ?case by simp
next
  case (JStr s)
  then show ?case by (cases n) (auto split: if_splits)
next
  case (JArr ms)
  then obtain ns where n: "n = JArr ns" by (cases n) (auto split: if_splits)
  have s: "solid (Suc d) x" if "x \<in> set ms \<union> set ns" for x
    using JArr.prems that n by (auto simp: solid_arr)
  have g: "normalize u x = normalize u y" if "x \<in> set ms" "y \<in> set ms \<union> set ns" "denote u x = denote u y" for x y
    using JArr.IH [OF that(1) s s that(3)] that by blast
  have "items_sorted u ms = items_sorted u ns"
  proof (cases u)
    case True
    then have "mset (map (denote u) ms) = mset (map (denote u) ns)" using JArr.prems(3) n by simp
    then have "mset (map (normalize u) ms) = mset (map (normalize u) ns)"
      by (rule mset_map_factor) (use g in auto)
    moreover have "x = y" if "x \<in> set (map (normalize u) ms)" "y \<in> set (map (normalize u) ms)" "snd x = snd y" for x y
      using that s by (auto intro: prod_eqI key_determines [of "Suc d"])
    ultimately have "sort_by (\<lambda>x y. snd x \<le> snd y) (map (normalize u) ms) =
        sort_by (\<lambda>x y. snd x \<le> snd y) (map (normalize u) ns)"
      by (intro key_order.sort_by_mset_on) auto
    with True show ?thesis by (simp add: items_sorted_def)
  next
    case False
    then have "map (denote u) ms = map (denote u) ns" using JArr.prems(3) n by simp
    then have "map (normalize u) ms = map (normalize u) ns"
      using g by (intro nth_equalityI) (auto simp: list_eq_iff_nth_eq dest: map_eq_imp_length_eq)
    with False show ?thesis by (simp add: items_sorted_def)
  qed
  with n show ?case by (simp add: normalize_arr)
next
  case (JObj es)
  then obtain fs where n: "n = JObj fs" by (cases n) (auto split: if_splits)
  let ?d = "map (\<lambda>e. (fst e, denote u (snd e)))" and ?n = "map (\<lambda>e. (fst e, normalize u (snd e)))"
  have s: "solid (Suc d) (snd x)" if "x \<in> set es \<union> set fs" for x
    using JObj.prems that n by (auto simp: solid_obj)
  have dst: "distinct (map fst es)" "distinct (map fst fs)"
    using JObj.prems n by (auto simp: solid_obj mkeys_def)
  have "map_of (?d es) = map_of (?d fs)"
    using JObj.prems(3) n by (simp add: fmap_eq_lookup fmlookup_of_list)
  then have "set (?d es) = set (?d fs)"
    using dst by (subst (asm) map_of_inject_set) (simp_all add: comp_def)
  moreover have "distinct (?d es)" "distinct (?d fs)"
    using dst distinct_map [of fst "?d es"] distinct_map [of fst "?d fs"] by (simp_all add: comp_def)
  ultimately have "mset (?d es) = mset (?d fs)"
    using set_eq_iff_mset_eq_distinct [of "?d es" "?d fs"] by blast
  then have m: "mset (?n es) = mset (?n fs)"
  proof (rule mset_map_factor)
    fix x y assume xy: "x \<in> set es" "y \<in> set es \<union> set fs" "(fst x, denote u (snd x)) = (fst y, denote u (snd y))"
    then have "normalize u (snd x) = normalize u (snd y)"
      using JObj.IH [of x "snd x" "Suc d" "snd y"] s by (auto simp: snds.simps)
    with xy show "(fst x, normalize u (snd x)) = (fst y, normalize u (snd y))" by simp
  qed
  have "x = y" if xy: "x \<in> set (?n es)" "y \<in> set (?n es)" "fst x = fst y" for x y
  proof -
    have "distinct (map fst (?n es))" using dst by (simp add: comp_def)
    then show ?thesis using xy by (rule distinct_fst_eq)
  qed
  then have "entries_sorted u es = entries_sorted u fs"
    unfolding entries_sorted_def case_prod_unfold using m
    by (intro entry_order.sort_by_mset_on) auto
  with n show ?case by (simp add: normalize_obj)
qed

lemma normalize_idem: "solid d n \<Longrightarrow> fst (normalize u (fst (normalize u n))) = fst (normalize u n)"
  using normalize_denote [of d "fst (normalize u n)" n u] normalize_solid [of d n u] denote_normalize [of d n u]
  by simp


section \<open>The canonical text\<close>

lemma canonical_json_agree:
  assumes "document a = Some m" "document b = Some n" "exact_numbers m" "exact_numbers n"
  shows "canonical_json u a = canonical_json u b \<longleftrightarrow> denote u m = denote u n"
proof -
  have s: "solid 0 m" "solid 0 n" using assms document_solid by auto
  have "canonical_json u a = canonical_json u b \<longleftrightarrow>
      render [] (fst (normalize u m)) = render [] (fst (normalize u n))"
    using assms by (simp add: canonical_json_def)
  also have "\<dots> \<longleftrightarrow> fst (normalize u m) = fst (normalize u n)"
    using s by (metis document_render normalize_solid option.inject)
  also have "\<dots> \<longleftrightarrow> denote u m = denote u n"
    using s denote_normalize normalize_denote by metis
  finally show ?thesis .
qed


lemmas json_eval = js_eval jvalue.simps jelems.simps jmembers.simps document_def peek_def skip_ws_def
  is_ws_def max_nesting_def starts_with_def string_token_def quote_def escape_cu_def is_high_def
  is_low_def mset_key_def Let_def

lemma sample_documents:
  "document (js ''{\"a\":1.0, \"b\":[2,1]}'') =
     Some (JObj [(js ''a'', JNum (js ''1'')), (js ''b'', JArr [JNum (js ''2''), JNum (js ''1'')])])"
  "document (js ''{\"b\":[1,2],\"a\":1e0}'') =
     Some (JObj [(js ''b'', JArr [JNum (js ''1''), JNum (js ''2'')]), (js ''a'', JNum (js ''1''))])"
  by (simp_all add: json_eval)

lemma sample_numbers: "exact_numbers (JNum (js ''1''))" "exact_numbers (JNum (js ''2''))"
proof -
  have "exact_exponent (js ''1'')" "js ''1'' = normalize_number (js ''1'')"
    "exact_exponent (js ''2'')" "js ''2'' = normalize_number (js ''2'')"
    by (simp_all add: exact_exponent_def exponent_within_def js_eval Let_def exp_value_def)
  then show "exact_numbers (JNum (js ''1''))" "exact_numbers (JNum (js ''2''))"
    unfolding exact_numbers_def nums.simps by blast+
qed




section \<open>Numbers\<close>

text \<open>
  Normal form of number literals. Within the exact range \<open>normalizeNumber\<close> keeps the value
  of a literal, is idempotent, and two literals get the same text exactly when they have the
  same value: no digit is lost, whatever the size of the number.
\<close>

theorem normalize_number_canonical:
  assumes "exact_exponent s" "exact_exponent t"
  shows "(normalize_number s = normalize_number t \<longleftrightarrow> number_value s = number_value t) \<and>
    number_value (normalize_number s) = number_value s \<and>
    normalize_number (normalize_number s) = normalize_number s"
proof -
  have w: "exponent_within (6 * 10 ^ 15) x" if "exact_exponent x" for x
    using that by (auto simp: exact_exponent_def exponent_within_def split: option.splits)
  show ?thesis
    using normalize_complete_within [OF w w] normalize_value_within [OF w] canonical_number_normalize assms
    unfolding canonical_number_def by blast
qed

theorem normalize_number_canonical_witness:
  "normalize_number (js ''12345678901234567890'') \<noteq> normalize_number (js ''12345678901234567891'')"
proof -
  have e: "exact_exponent (js ''12345678901234567890'')" "exact_exponent (js ''12345678901234567891'')"
    by (simp_all add: exact_exponent_def exponent_within_def js_eval Let_def exp_value_def)
  have v: "number_value (js ''12345678901234567890'') \<noteq> number_value (js ''12345678901234567891'')"
    by (simp add: js_eval number_value_def lit_value_def Let_def exp_value_def)
  show ?thesis using normalize_number_canonical [OF e] v by blast
qed

text \<open>
  Outside that range the exponent is a double: \<open>1e9007199254740993\<close> and
  \<open>1e9007199254740991\<close> differ in value and get the same canonical text, so the compare calls
  them equivalent.
\<close>

theorem canonical_json_exponent_rounds:
  "canonical_json u (js ''1e9007199254740993'') = canonical_json u (js ''1e9007199254740991'') \<and>
   number_value (js ''1e9007199254740993'') \<noteq> number_value (js ''1e9007199254740991'')"
proof -
  have d: "document (js ''1e9007199254740993'') = Some (JNum (normalize_number (js ''1e9007199254740993'')))"
    "document (js ''1e9007199254740991'') = Some (JNum (normalize_number (js ''1e9007199254740991'')))"
    by (simp_all add: json_eval del: normalize_number_samples)
  have n: "normalize_number (js ''1e9007199254740993'') = normalize_number (js ''1e9007199254740991'')"
    using normalize_number_rounds by simp
  have "number_value (js ''1e9007199254740993'') = Some (signed_value False [49] 9007199254740993)"
    "number_value (js ''1e9007199254740991'') = Some (signed_value False [49] 9007199254740991)"
    by (simp_all add: js_eval number_value_def lit_value_def Let_def exp_value_def signed_value_def del: power_int_numeral)
  moreover have "signed_value False [49] 9007199254740993 \<noteq> signed_value False [49] 9007199254740991"
    using signed_value_unique [of "[49]" "[49]" False 9007199254740993 False 9007199254740991]
    by (auto simp: normal_digits_def is_digit_def)
  ultimately have "number_value (js ''1e9007199254740993'') \<noteq> number_value (js ''1e9007199254740991'')"
    by simp
  then show ?thesis unfolding canonical_json_def d n by simp
qed

end
