(* ===== verification/CanonicalXml.thy ===== *)
theory CanonicalXml
  imports Bytes
begin

text \<open>
  The canonical XML form of the semantic message compare
  (\<open>frontend/src/lib/canonical-xml.ts\<close>) and the XML parsing it uses
  (\<open>frontend/src/lib/xml-path-tree.ts\<close>). The browser's \<open>DOMParser\<close> is a parameter: it gives a
  document, whose tree is a datatype with the node kinds the code distinguishes, or throws.
\<close>

datatype js_error = RangeError | InvalidCharacterError

section \<open>Documents\<close>

record xattr =
  at_name :: jstr
  at_local :: "jstr option"
  at_ns :: "jstr option"
  at_value :: jstr

datatype xnode =
    XElem jstr "jstr option" "jstr option" "xattr list" "xnode list"
  | XText jstr
  | XCData jstr
  | XOther

record xdocument =
  document_element :: "xnode option"

type_synonym dom_parser = "jstr \<Rightarrow> xdocument option"

fun tag_name :: "xnode \<Rightarrow> jstr" where
  "tag_name (XElem tag l ns as ks) = tag"
| "tag_name _ = []"

fun local_name :: "xnode \<Rightarrow> jstr option" where
  "local_name (XElem tag l ns as ks) = l"
| "local_name _ = None"

fun is_elem :: "xnode \<Rightarrow> bool" where
  "is_elem (XElem tag l ns as ks) = True"
| "is_elem _ = False"

section \<open>Parsing\<close>

definition looks_like_xml :: "jstr option \<Rightarrow> bool" where
  "looks_like_xml v = (case v of None \<Rightarrow> False
     | Some s \<Rightarrow> s \<noteq> [] \<and> starts_with (js ''<'') (trim_start s))"

definition parsererror_ns :: "jstr list" where
  "parsererror_ns = [js ''http://www.w3.org/1999/xhtml'', js ''http://www.mozilla.org/newlayout/xml/parsererror.xml'']"

text \<open>A \<open>parsererror\<close> element of one of the two namespaces anywhere in the tree.\<close>

fun error_inside :: "xnode \<Rightarrow> bool" where
  "error_inside (XElem tag l ns as ks) \<longleftrightarrow>
     (tag = js ''parsererror'' \<and> (case ns of None \<Rightarrow> [] | Some u \<Rightarrow> u) \<in> set parsererror_ns)
     \<or> (\<exists>k \<in> set ks. error_inside k)"
| "error_inside _ = False"

definition has_parser_error :: "xdocument \<Rightarrow> bool" where
  "has_parser_error doc = (case document_element doc of None \<Rightarrow> True
     | Some root \<Rightarrow> local_name root = Some (js ''parsererror'') \<or> error_inside root)"

definition parse_xml_doc :: "dom_parser \<Rightarrow> jstr \<Rightarrow> xdocument option" where
  "parse_xml_doc parser value =
     (if \<not> looks_like_xml (Some value) then None
      else case parser (trim value) of
        None \<Rightarrow> None
      | Some doc \<Rightarrow> if has_parser_error doc then None else Some doc)"

section \<open>Namespaces\<close>

definition xmlns_ns :: jstr where
  "xmlns_ns = js ''http://www.w3.org/2000/xmlns/''"

definition xml_ns :: jstr where
  "xml_ns = js ''http://www.w3.org/XML/1998/namespace''"

definition max_xml_nesting :: nat where
  "max_xml_nesting = 512"

definition is_namespace_declaration :: "xattr \<Rightarrow> bool" where
  "is_namespace_declaration a \<longleftrightarrow> at_ns a = Some xmlns_ns \<or> at_name a = js ''xmlns''
     \<or> starts_with (js ''xmlns:'') (at_name a)"

definition truthy :: "jstr option \<Rightarrow> bool" where
  "truthy v \<longleftrightarrow> (case v of None \<Rightarrow> False | Some s \<Rightarrow> s \<noteq> [])"

definition set_add :: "'a \<Rightarrow> 'a list \<Rightarrow> 'a list" where
  "set_add x xs = (if x \<in> set xs then xs else xs @ [x])"

definition add_attr_ns :: "xattr \<Rightarrow> jstr list \<Rightarrow> jstr list" where
  "add_attr_ns a uris =
     (if is_namespace_declaration a then uris
      else if truthy (at_ns a) \<and> at_ns a \<noteq> Some xml_ns then set_add (the (at_ns a)) uris else uris)"

fun collect_namespaces :: "nat \<Rightarrow> xnode \<Rightarrow> jstr list \<Rightarrow> js_error + jstr list"
  and collect_children :: "nat \<Rightarrow> xnode list \<Rightarrow> jstr list \<Rightarrow> js_error + jstr list" where
  "collect_namespaces depth (XElem tag l ns as ks) uris =
     (if depth > max_xml_nesting then Inl RangeError
      else let uris' = (if truthy ns then set_add (the ns) uris else uris)
        in collect_children (Suc depth) ks (fold add_attr_ns as uris'))"
| "collect_namespaces depth _ uris = Inr uris"
| "collect_children depth [] uris = Inr uris"
| "collect_children depth (k # ks) uris =
     bindE (collect_namespaces depth k uris) (collect_children depth ks)"

section \<open>Rendering\<close>

definition replace_char :: "cu \<Rightarrow> jstr \<Rightarrow> jstr \<Rightarrow> jstr" where
  "replace_char c r s = concat (map (\<lambda>x. if x = c then r else [x]) s)"

definition escape_text :: "jstr \<Rightarrow> jstr" where
  "escape_text s = replace_char (ch CHR ''>'') (js ''&gt;'')
     (replace_char (ch CHR ''<'') (js ''&lt;'') (replace_char (ch CHR ''&'') (js ''&amp;'') s))"

definition escape_attr :: "jstr \<Rightarrow> jstr" where
  "escape_attr s = replace_char 13 (js ''&#13;'') (replace_char 9 (js ''&#9;'')
     (replace_char 10 (js ''&#10;'') (replace_char 34 (js ''&quot;'') (escape_text s))))"

type_synonym prefix_map = "(jstr, jstr) jsmap"

definition qualified_name :: "prefix_map \<Rightarrow> jstr \<Rightarrow> jstr option \<Rightarrow> jstr option \<Rightarrow> jstr" where
  "qualified_name prefixes node_name local ns =
     (let l = (case local of Some x \<Rightarrow> x | None \<Rightarrow> node_name)
      in if \<not> truthy ns then l
         else if ns = Some xml_ns then js ''xml:'' @ l
         else (case mget prefixes (the ns) of Some p \<Rightarrow> p | None \<Rightarrow> js ''undefined'') @ js '':'' @ l)"

definition attr_text :: "prefix_map \<Rightarrow> xattr \<Rightarrow> jstr" where
  "attr_text prefixes a =
     qualified_name prefixes (at_name a) (at_local a) (at_ns a) @ js ''='' @ [34] @ escape_attr (at_value a) @ [34]"

definition attr_texts :: "prefix_map \<Rightarrow> xattr list \<Rightarrow> jstr list" where
  "attr_texts prefixes as =
     js_sort (map (attr_text prefixes) (filter (\<lambda>a. \<not> is_namespace_declaration a) as))"

definition flush_text :: "jstr \<Rightarrow> jstr \<Rightarrow> jstr list" where
  "flush_text inner text = (let t = trim text in if t = [] then [] else [inner @ escape_text t])"

text \<open>The text of one element from its start tag and the rendered children.\<close>

definition close_element :: "bool \<Rightarrow> jstr \<Rightarrow> jstr \<Rightarrow> jstr \<Rightarrow> jstr list \<Rightarrow> jstr" where
  "close_element ignore_order indent open name children =
     (if children = [] then indent @ js ''<'' @ open @ js ''/>''
      else if length children = 1 \<and> \<not> starts_with (js ''<'') (trim_start (hd children))
        then indent @ js ''<'' @ open @ js ''>'' @ trim_start (hd children) @ js ''</'' @ name @ js ''>''
      else indent @ js ''<'' @ open @ js ''>'' @ [10]
        @ join [10] (if ignore_order then js_sort children else children)
        @ [10] @ indent @ js ''</'' @ name @ js ''>'')"

fun render_element :: "bool \<Rightarrow> prefix_map \<Rightarrow> jstr \<Rightarrow> nat \<Rightarrow> jstr list \<Rightarrow> xnode \<Rightarrow> js_error + jstr"
  and render_children :: "bool \<Rightarrow> prefix_map \<Rightarrow> jstr \<Rightarrow> nat \<Rightarrow> jstr list \<Rightarrow> jstr \<Rightarrow> xnode list \<Rightarrow> js_error + jstr list" where
  "render_element u prefixes indent depth extra (XElem tag l ns as ks) =
     (if depth > max_xml_nesting then Inl RangeError
      else let name = qualified_name prefixes tag l ns;
               open = join (js '' '') (name # attr_texts prefixes as @ extra)
        in bindE (render_children u prefixes (indent @ js ''  '') (Suc depth) [] [] ks)
             (\<lambda>children. Inr (close_element u indent open name children)))"
| "render_element u prefixes indent depth extra _ = Inr []"
| "render_children u prefixes inner depth children text [] = Inr (children @ flush_text inner text)"
| "render_children u prefixes inner depth children text (k # ks) =
     (case k of
        XText s \<Rightarrow> render_children u prefixes inner depth children (text @ s) ks
      | XCData s \<Rightarrow> render_children u prefixes inner depth children (text @ s) ks
      | XOther \<Rightarrow> render_children u prefixes inner depth children text ks
      | XElem tag l ns as ks' \<Rightarrow>
          bindE (render_element u prefixes inner depth [] (XElem tag l ns as ks'))
            (\<lambda>t. render_children u prefixes inner depth (children @ flush_text inner text @ [t]) [] ks))"

definition prefixes_for :: "jstr list \<Rightarrow> prefix_map" where
  "prefixes_for uris = map (\<lambda>(i, uri). (uri, js ''ns'' @ dec (i + 1))) (enumerate 0 (js_sort uris))"

definition declarations :: "prefix_map \<Rightarrow> jstr list" where
  "declarations prefixes = map (\<lambda>(uri, p). js ''xmlns:'' @ p @ js ''='' @ [34] @ escape_attr uri @ [34]) prefixes"

text \<open>
  \<open>Inl\<close>: the exception leaves the function; \<open>Inr None\<close>: it returns \<open>null\<close>. The namespaces are
  collected before the \<open>try\<close>, the rendering is inside it.
\<close>

definition canonical_xml_element :: "bool \<Rightarrow> xnode \<Rightarrow> js_error + jstr option" where
  "canonical_xml_element u root =
     bindE (collect_namespaces 0 root []) (\<lambda>uris.
       let prefixes = prefixes_for uris; decls = declarations prefixes
       in case render_element u prefixes [] 0 decls root of
            Inl RangeError \<Rightarrow> Inr None
          | Inl e \<Rightarrow> Inl e
          | Inr t \<Rightarrow> Inr (Some t))"

definition canonical_xml :: "dom_parser \<Rightarrow> bool \<Rightarrow> jstr \<Rightarrow> js_error + jstr option" where
  "canonical_xml parser u text =
     (case parse_xml_doc parser text of
        None \<Rightarrow> Inr None
      | Some doc \<Rightarrow> (case document_element doc of None \<Rightarrow> Inr None | Some root \<Rightarrow> canonical_xml_element u root))"

end
