(* ===== verification/CanonicalXmlProps.thy ===== *)
theory CanonicalXmlProps
  imports CanonicalXml
begin

text \<open>
  What the canonical XML form looks past, and where it fails: documents that differ in
  attribute order, prefixes, declarations, comments, the split of character data and the white
  space around it (and in sibling order, when that is ignored) have the same canonical text; a
  document nested too deeply makes the function throw; and text split around an element can
  collide with text that contains a line break when sibling order is ignored.
\<close>

section \<open>The content of an element\<close>

definition flushed :: "jstr \<Rightarrow> (jstr + xnode) list" where
  "flushed text = (let t = trim text in if t = [] then [] else [Inl t])"

text \<open>Character data joined, trimmed and dropped when blank; comments and instructions gone.\<close>

fun content :: "jstr \<Rightarrow> xnode list \<Rightarrow> (jstr + xnode) list" where
  "content text [] = flushed text"
| "content text (k # ks) =
     (case k of
        XText s \<Rightarrow> content (text @ s) ks
      | XCData s \<Rightarrow> content (text @ s) ks
      | XOther \<Rightarrow> content text ks
      | XElem tag l ns as ks' \<Rightarrow> flushed text @ Inr k # content [] ks)"

lemma content_elem: "Inr e \<in> set (content t ks) \<longleftrightarrow> e \<in> set ks \<and> is_elem e"
  by (induction t ks rule: content.induct) (auto simp: flushed_def Let_def split: xnode.splits)

fun traverse :: "('a \<Rightarrow> js_error + 'b) \<Rightarrow> 'a list \<Rightarrow> js_error + 'b list" where
  "traverse f [] = Inr []"
| "traverse f (x # xs) = bindE (f x) (\<lambda>y. bindE (traverse f xs) (\<lambda>ys. Inr (y # ys)))"

lemma bindE_right [simp]: "bindE r Inr = r"
  by (cases r) auto

lemma traverse_append: "traverse f (xs @ ys) = bindE (traverse f xs) (\<lambda>a. bindE (traverse f ys) (\<lambda>b. Inr (a @ b)))"
  by (induction xs) (auto simp: bindE_def split: sum.splits)

definition item_text :: "bool \<Rightarrow> prefix_map \<Rightarrow> jstr \<Rightarrow> nat \<Rightarrow> jstr + xnode \<Rightarrow> js_error + jstr" where
  "item_text u p inner d it = (case it of Inl t \<Rightarrow> Inr (inner @ escape_text t)
     | Inr k \<Rightarrow> render_element u p inner d [] k)"

lemma item_text_simps [simp]:
  "item_text u p inner d (Inl s) = Inr (inner @ escape_text s)"
  "item_text u p inner d (Inr k) = render_element u p inner d [] k"
  by (simp_all add: item_text_def)

lemma traverse_flushed [simp]: "traverse (item_text u p inner d) (flushed text) = Inr (flush_text inner text)"
  by (simp add: flushed_def flush_text_def Let_def)

lemma render_children_content:
  "render_children u p inner d cs t ks =
     bindE (traverse (item_text u p inner d) (content t ks)) (\<lambda>r. Inr (cs @ r))"
proof (induction ks arbitrary: cs t)
  case Nil
  then show ?case by (simp add: traverse_flushed)
next
  case (Cons k ks)
  show ?case
    by (cases k) (auto simp: Cons traverse_append bindE_def simp del: render_element.simps split: sum.splits)
qed

definition range_only :: "js_error + 'b \<Rightarrow> bool" where
  "range_only r \<longleftrightarrow> (\<forall>e. r = Inl e \<longrightarrow> e = RangeError)"

lemma range_only_bind: "range_only r \<Longrightarrow> (\<And>a. range_only (f a)) \<Longrightarrow> range_only (bindE r f)"
  by (cases r) (auto simp: range_only_def)

lemma range_only_simps [simp]: "range_only (Inr a)" "range_only (Inl RangeError)"
  by (simp_all add: range_only_def)

lemma render_elem_range: "(\<And>x. \<not> max_xml_nesting < depth \<Longrightarrow> range_only (render_children u p (indent @ js ''  '') (Suc depth) [] [] ks)) \<Longrightarrow>
    range_only (render_element u p indent depth extra (XElem tag l ns as ks))"
  by (auto simp: Let_def intro: range_only_bind)

lemma render_range:
  "range_only (render_element u p indent d extra e)"
  "range_only (render_children u p inner d cs t ks)"
  by (induction u p indent d extra e and u p inner d cs t ks rule: render_element_render_children.induct)
    (auto intro!: range_only_bind intro: render_elem_range simp del: render_element.simps(1) split: xnode.splits)

lemma item_range: "range_only (item_text u p inner d it)"
  by (cases it) (auto simp: render_range)

text \<open>The children in any order fail alike, and otherwise give the same texts in that order.\<close>

lemma traverse_total:
  assumes "\<And>x. range_only (f x)"
  shows "traverse f xs = (if \<exists>x \<in> set xs. isl (f x) then Inl RangeError else Inr (map (projr \<circ> f) xs))"
proof (induction xs)
  case (Cons x xs)
  then show ?case using assms [of x] by (cases "f x") (auto simp: range_only_def)
qed simp


section \<open>Same document\<close>

definition eff_ns :: "jstr option \<Rightarrow> jstr option" where
  "eff_ns ns = (if truthy ns then ns else None)"

definition eff_local :: "jstr \<Rightarrow> jstr option \<Rightarrow> jstr" where
  "eff_local node_name local = (case local of Some x \<Rightarrow> x | None \<Rightarrow> node_name)"

definition attr_sig :: "xattr \<Rightarrow> jstr option \<times> jstr \<times> jstr" where
  "attr_sig a = (eff_ns (at_ns a), eff_local (at_name a) (at_local a), at_value a)"

definition data_attrs :: "xattr list \<Rightarrow> xattr list" where
  "data_attrs as = filter (\<lambda>a. \<not> is_namespace_declaration a) as"

text \<open>
  Elements that are the same but for what the canonical form ignores: expanded names instead of
  prefixes, attributes as a multiset without declarations, the content as above, in order or,
  with \<open>u\<close>, as a multiset.
\<close>

inductive same_xml :: "bool \<Rightarrow> xnode \<Rightarrow> xnode \<Rightarrow> bool" for u where
  same_elem: "eff_ns ns = eff_ns ns' \<Longrightarrow> eff_local tag l = eff_local tag' l' \<Longrightarrow>
    mset (map attr_sig (data_attrs as)) = mset (map attr_sig (data_attrs as')) \<Longrightarrow>
    list_all2 (rel_sum (=) (same_xml u)) (content [] ks) items \<Longrightarrow>
    (if u then mset items = mset (content [] ks') else items = content [] ks') \<Longrightarrow>
    same_xml u (XElem tag l ns as ks) (XElem tag' l' ns' as' ks')"
monos list.rel_mono sum.rel_mono

lemma qualified_name_eff: "qualified_name p tag l ns =
    (case eff_ns ns of None \<Rightarrow> eff_local tag l
     | Some n \<Rightarrow> if n = xml_ns then js ''xml:'' @ eff_local tag l
         else (case mget p n of Some q \<Rightarrow> q | None \<Rightarrow> js ''undefined'') @ js '':'' @ eff_local tag l)"
  by (auto simp: qualified_name_def eff_ns_def eff_local_def Let_def truthy_def split: option.splits)

lemma eff_local_None: "eff_local x None = x"
  by (simp add: eff_local_def)

lemma eff_ns_idem [simp]: "eff_ns (eff_ns ns) = eff_ns ns"
  by (simp add: eff_ns_def)

lemma attr_text_sig: "attr_text p a = (\<lambda>(ns, l, v). qualified_name p l None ns @ js ''='' @ [34] @ escape_attr v @ [34]) (attr_sig a)"
  using eff_ns_idem [of "at_ns a"]
  by (cases "eff_ns (at_ns a)") (auto simp: attr_text_def attr_sig_def qualified_name_eff eff_local_None simp del: eff_ns_idem)

lemma attr_texts_sig: "mset (map attr_sig (data_attrs as)) = mset (map attr_sig (data_attrs as')) \<Longrightarrow>
    attr_texts p as = attr_texts p as'"
proof -
  let ?f = "\<lambda>(ns, l, v). qualified_name p l None ns @ js ''='' @ [34] @ escape_attr v @ [34]"
  have e: "map (attr_text p) (data_attrs as) = map ?f (map attr_sig (data_attrs as))" for as
    by (simp add: attr_text_sig)
  assume "mset (map attr_sig (data_attrs as)) = mset (map attr_sig (data_attrs as'))"
  then have "mset (map (attr_text p) (data_attrs as)) = mset (map (attr_text p) (data_attrs as'))"
    unfolding e mset_map by (simp only:)
  then show ?thesis unfolding attr_texts_def data_attrs_def by (rule js_sort_mset)
qed

lemma js_sort_perm: "mset xs = mset ys \<Longrightarrow> js_sort xs = js_sort ys"
  by (rule js_sort_mset)

lemma close_element_perm: "mset cs = mset ds \<Longrightarrow> close_element True i op n cs = close_element True i op n ds"
proof -
  assume m: "mset cs = mset ds"
  show ?thesis
  proof (cases "length cs = 1")
    case True
    then obtain c where "cs = [c]" by (cases cs) auto
    moreover from this m have "ds = [c]" by (metis mset_single_iff_right mset.simps)
    ultimately show ?thesis by simp
  next
    case False
    moreover have "length cs = length ds" using m by (metis size_mset)
    moreover have "cs = [] \<longleftrightarrow> ds = []" using m by auto
    ultimately show ?thesis using js_sort_perm [OF m] by (simp add: close_element_def)
  qed
qed


lemma traverse_cong: "list_all2 (\<lambda>x y. f x = f y) xs ys \<Longrightarrow> traverse f xs = traverse f ys"
  by (induction rule: list_all2_induct) auto

lemma traverse_perm:
  assumes "mset xs = mset ys" "\<And>x. range_only (f x)"
  shows "rel_sum (=) (\<lambda>a b. mset a = mset b) (traverse f xs) (traverse f ys)"
proof -
  have "set xs = set ys" using assms(1) by (rule mset_eq_setD)
  moreover have "mset (map (projr \<circ> f) xs) = mset (map (projr \<circ> f) ys)" using assms(1) by (simp add: mset_map)
  ultimately show ?thesis unfolding traverse_total [OF assms(2)] by auto
qed

lemma render_same: "same_xml u a b \<Longrightarrow> render_element u p indent d extra a = render_element u p indent d extra b"
proof (induction arbitrary: indent d extra rule: same_xml.induct)
  case (same_elem ns ns' tag l tag' l' as as' ks items ks')
  let ?f = "item_text u p (indent @ js ''  '') (Suc d)"
  have n: "qualified_name p tag l ns = qualified_name p tag' l' ns'"
    by (simp only: qualified_name_eff same_elem.hyps(1,2))
  have at: "attr_texts p as = attr_texts p as'" by (rule attr_texts_sig [OF same_elem.hyps(3)])
  have "list_all2 (\<lambda>x y. ?f x = ?f y) (content [] ks) items"
    using same_elem.IH by (rule list_all2_mono) (auto elim!: rel_sum.cases)
  then have t: "traverse ?f (content [] ks) = traverse ?f items" by (rule traverse_cong)
  have "bindE (traverse ?f items) (\<lambda>r. Inr (close_element u indent op nm r)) =
      bindE (traverse ?f (content [] ks')) (\<lambda>r. Inr (close_element u indent op nm r))" for op nm
  proof (cases u)
    case True
    then have "mset items = mset (content [] ks')" using same_elem.hyps by simp
    from traverse_perm [where f = "item_text u p (indent @ js ''  '') (Suc d)", OF this item_range] show ?thesis
      using True by (auto elim!: rel_sum.cases intro: close_element_perm)
  next
    case False
    then show ?thesis using same_elem.hyps by simp
  qed
  then show ?case
    by (simp add: render_children_content n at t Let_def)
qed

section \<open>Namespaces of a document\<close>

fun too_deep :: "nat \<Rightarrow> xnode \<Rightarrow> bool" where
  "too_deep d (XElem tag l ns as ks) \<longleftrightarrow> d > max_xml_nesting \<or> (\<exists>k \<in> set ks. too_deep (Suc d) k)"
| "too_deep d _ = False"

definition attr_uris :: "xattr list \<Rightarrow> jstr set" where
  "attr_uris as = {n. \<exists>a \<in> set (data_attrs as). eff_ns (at_ns a) = Some n \<and> n \<noteq> xml_ns}"

lemma attr_uris_sig: "attr_uris as = {n. (\<exists>l v. (Some n, l, v) \<in> attr_sig ` set (data_attrs as)) \<and> n \<noteq> xml_ns}"
  by (auto simp: attr_uris_def attr_sig_def image_iff) metis

fun uris_of :: "xnode \<Rightarrow> jstr set" where
  "uris_of (XElem tag l ns as ks) = set_option (eff_ns ns) \<union> attr_uris as \<union> (\<Union>k \<in> set ks. uris_of k)"
| "uris_of _ = {}"

lemma set_add_simps [simp]: "set (set_add x xs) = insert x (set xs)" "distinct (set_add x xs) = distinct xs"
  by (auto simp: set_add_def)

lemma fold_attr_ns: "distinct uris \<Longrightarrow> set (fold add_attr_ns as uris) = set uris \<union> attr_uris as \<and>
    distinct (fold add_attr_ns as uris)"
proof (induction as arbitrary: uris)
  case (Cons a as)
  have "set (add_attr_ns a uris) = set uris \<union> attr_uris [a] \<and> distinct (add_attr_ns a uris)"
    using Cons.prems by (auto simp: add_attr_ns_def attr_uris_def data_attrs_def eff_ns_def truthy_def split: option.splits)
  moreover have "attr_uris (a # as) = attr_uris [a] \<union> attr_uris as"
    by (auto simp: attr_uris_def data_attrs_def)
  ultimately show ?case using Cons.IH [of "add_attr_ns a uris"] by auto
qed (simp add: attr_uris_def data_attrs_def)

definition collects :: "bool \<Rightarrow> jstr set \<Rightarrow> js_error + jstr list \<Rightarrow> bool" where
  "collects deep us r \<longleftrightarrow> (if deep then r = Inl RangeError else \<exists>l. r = Inr l \<and> set l = us \<and> distinct l)"

lemma collect_spec:
  "distinct uris \<Longrightarrow> collects (too_deep d e) (set uris \<union> uris_of e) (collect_namespaces d e uris)"
  "distinct uris \<Longrightarrow> collects (\<exists>k \<in> set ks. too_deep d k) (set uris \<union> (\<Union>k \<in> set ks. uris_of k)) (collect_children d ks uris)"
proof (induction d e uris and d ks uris rule: collect_namespaces_collect_children.induct)
  case (1 depth tag l ns as ks uris)
  let ?u = "if truthy ns then set_add (the ns) uris else uris"
  have u: "set ?u = set uris \<union> set_option (eff_ns ns)" "distinct ?u"
    using "1.prems" by (auto simp: eff_ns_def truthy_def split: option.splits)
  have f: "set (fold add_attr_ns as ?u) = set ?u \<union> attr_uris as" "distinct (fold add_attr_ns as ?u)"
    using fold_attr_ns [OF u(2), of as] by blast+
  show ?case
  proof (cases "max_xml_nesting < depth")
    case True
    then show ?thesis by (simp add: collects_def)
  next
    case False
    then show ?thesis using "1.IH" [OF False refl f(2)] unfolding f u by (simp add: Let_def Un_assoc)
  qed
next
  case (4 depth k ks uris)
  show ?case
  proof (cases "too_deep depth k")
    case True
    with "4.IH"(1) [OF "4.prems"] show ?thesis by (simp add: collects_def)
  next
    case False
    with "4.IH"(1) [OF "4.prems"] obtain l where l: "collect_namespaces depth k uris = Inr l"
      "set l = set uris \<union> uris_of k" "distinct l" by (auto simp: collects_def)
    from "4.IH"(2) [OF l(3)] l False show ?thesis by (simp add: Un_assoc)
  qed
qed (simp_all add: collects_def)

lemma same_deep_uris: "same_xml u a b \<Longrightarrow> (\<forall>d. too_deep d a = too_deep d b) \<and> uris_of a = uris_of b"
proof (induction rule: same_xml.induct)
  case (same_elem ns ns' tag l tag' l' as as' ks items ks')
  have e: "eff_ns ns = eff_ns ns'" by fact
  have "set (map attr_sig (data_attrs as)) = set (map attr_sig (data_attrs as'))"
    using same_elem.hyps(3) by (rule mset_eq_setD)
  then have "attr_sig ` set (data_attrs as) = attr_sig ` set (data_attrs as')" by simp
  then have a: "attr_uris as = attr_uris as'"
    by (simp only: attr_uris_sig)
  have it: "set items = set (content [] ks')"
    using same_elem.hyps by (auto split: if_splits dest: mset_eq_setD)
  define good where "good x y = ((\<forall>d. too_deep d x = too_deep d y) \<and> uris_of x = uris_of y)" for x y
  have l: "list_all2 (rel_sum (=) good) (content [] ks) items"
    using same_elem.IH by (rule list_all2_mono) (auto elim!: rel_sum.cases simp: good_def)
  have el: "(\<exists>k \<in> set ks. P k) \<longleftrightarrow> (\<exists>k \<in> set ks'. P k)"
    if P: "\<And>x y. good x y \<Longrightarrow> P x = P y" and ne: "\<And>x. P x \<Longrightarrow> is_elem x" for P
  proof -
    have "(\<exists>k \<in> set ks. P k) \<longleftrightarrow> (\<exists>k. Inr k \<in> set (content [] ks) \<and> P k)"
      using ne by (auto simp: content_elem)
    also have "\<dots> \<longleftrightarrow> (\<exists>k. Inr k \<in> set items \<and> P k)"
      using l P by (induction rule: list_all2_induct) (auto elim!: rel_sum.cases; blast)+
    also have "\<dots> \<longleftrightarrow> (\<exists>k \<in> set ks'. P k)" unfolding it using ne by (auto simp: content_elem)
    finally show ?thesis .
  qed
  have ned: "is_elem x" if "too_deep d x" for d x using that by (cases x) auto
  have neu: "is_elem x" if "n \<in> uris_of x" for n x using that by (cases x) auto
  have "(\<exists>k \<in> set ks. too_deep d k) \<longleftrightarrow> (\<exists>k \<in> set ks'. too_deep d k)" for d
    by (rule el) (auto simp: good_def intro: ned)
  moreover have "(\<exists>k \<in> set ks. n \<in> uris_of k) \<longleftrightarrow> (\<exists>k \<in> set ks'. n \<in> uris_of k)" for n
    by (rule el) (auto simp: good_def intro: neu)
  ultimately have "\<And>d. (\<exists>k \<in> set ks. too_deep d k) = (\<exists>k \<in> set ks'. too_deep d k)"
    "(\<Union>k \<in> set ks. uris_of k) = (\<Union>k \<in> set ks'. uris_of k)" by (blast, simp add: set_eq_iff)
  then show ?case using e a by simp
qed

lemma canonical_xml_element_eq:
  "canonical_xml_element u root =
     (if too_deep 0 root then Inl RangeError
      else bindE (collect_namespaces 0 root []) (\<lambda>uris. Inr (
        case render_element u (prefixes_for uris) [] 0 (declarations (prefixes_for uris)) root of
          Inl e \<Rightarrow> None | Inr t \<Rightarrow> Some t)))"
proof -
  have "(case render_element u p [] 0 ds root of Inl RangeError \<Rightarrow> Inr None | Inl e \<Rightarrow> Inl e | Inr t \<Rightarrow> Inr (Some t)) =
      (Inr (case render_element u p [] 0 ds root of Inl e \<Rightarrow> None | Inr t \<Rightarrow> Some t) :: js_error + jstr option)" for p ds
    using render_range(1) [of u p "[]" 0 ds root] by (cases "render_element u p [] 0 ds root") (auto simp: range_only_def)
  note r = this
  show ?thesis
  proof (cases "too_deep 0 root")
    case True
    then show ?thesis
      using collect_spec(1) [of "[]" 0 root] by (simp add: canonical_xml_element_def collects_def)
  next
    case False
    then obtain us where "collect_namespaces 0 root [] = Inr us"
      using collect_spec(1) [of "[]" 0 root] by (auto simp: collects_def)
    then show ?thesis using False r by (simp add: canonical_xml_element_def Let_def)
  qed
qed


text \<open>Rendering fails exactly on what the collection of the namespaces has refused before.\<close>

lemma traverse_isl: "(\<And>x. range_only (f x)) \<Longrightarrow> isl (traverse f xs) \<longleftrightarrow> (\<exists>x \<in> set xs. isl (f x))"
  by (simp add: traverse_total)

lemma bindE_isl: "isl (bindE r (\<lambda>x. Inr (f x))) \<longleftrightarrow> isl r"
  by (cases r) auto

lemma render_isl: "isl (render_element u p indent d extra e) \<longleftrightarrow> too_deep d e"
proof (induction e arbitrary: indent d extra)
  case (XElem tag l ns as ks)
  have "isl (traverse (item_text u p inner (Suc d)) (content [] ks)) \<longleftrightarrow> (\<exists>k \<in> set ks. too_deep (Suc d) k)" for inner
  proof -
    have i: "isl (item_text u p inner (Suc d) it) \<longleftrightarrow> (\<exists>k. it = Inr k \<and> too_deep (Suc d) k)"
      if "it \<in> set (content [] ks)" for it
    proof (cases it)
      case (Inr k)
      then have "k \<in> set ks" using that by (simp add: content_elem)
      with Inr XElem.IH show ?thesis by simp
    qed simp
    have "isl (traverse (item_text u p inner (Suc d)) (content [] ks)) \<longleftrightarrow>
        (\<exists>it \<in> set (content [] ks). isl (item_text u p inner (Suc d) it))"
      by (rule traverse_isl [OF item_range])
    also have "\<dots> \<longleftrightarrow> (\<exists>it \<in> set (content [] ks). \<exists>k. it = Inr k \<and> too_deep (Suc d) k)"
      using i by (rule bex_cong [OF refl])
    also have "\<dots> \<longleftrightarrow> (\<exists>k \<in> set ks. is_elem k \<and> too_deep (Suc d) k)"
      using content_elem by blast
    also have "\<dots> \<longleftrightarrow> (\<exists>k \<in> set ks. too_deep (Suc d) k)"
    proof -
      have "too_deep (Suc d) k \<Longrightarrow> is_elem k" for k by (cases k) auto
      then show ?thesis by blast
    qed
    finally show ?thesis .
  qed
  then show ?case by (simp add: render_children_content Let_def bindE_isl)
qed simp_all

lemma canonical_element_same:
  assumes "same_xml u a b"
  shows "canonical_xml_element u a = canonical_xml_element u b"
proof -
  have s: "too_deep 0 a = too_deep 0 b" "uris_of a = uris_of b" using same_deep_uris [OF assms] by auto
  show ?thesis
  proof (cases "too_deep 0 a")
    case True
    with s show ?thesis by (simp add: canonical_xml_element_eq)
  next
    case False
    then obtain us vs where us: "collect_namespaces 0 a [] = Inr us" "set us = uris_of a" "distinct us"
      and vs: "collect_namespaces 0 b [] = Inr vs" "set vs = uris_of b" "distinct vs"
      using collect_spec(1) [of "[]" 0 a] collect_spec(1) [of "[]" 0 b] s by (auto simp: collects_def)
    then have m: "mset us = mset vs" using s set_eq_iff_mset_eq_distinct by blast
    have p: "prefixes_for us = prefixes_for vs" unfolding prefixes_for_def js_sort_mset [OF m] ..
    have db: "\<not> too_deep 0 b" using False s(1) by simp
    show ?thesis
      unfolding canonical_xml_element_eq if_not_P [OF False] if_not_P [OF db] us(1) vs(1) bindE_simps p
        render_same [OF assms] ..
  qed
qed

lemma canonical_element_some:
  assumes "\<not> too_deep 0 e"
  shows "\<exists>t. canonical_xml_element u e = Inr (Some t)"
proof -
  obtain us where us: "collect_namespaces 0 e [] = Inr us"
    using collect_spec(1) [of "[]" 0 e] assms by (auto simp: collects_def)
  obtain t where "render_element u (prefixes_for us) [] 0 (declarations (prefixes_for us)) e = Inr t"
    using render_isl [of u "prefixes_for us" "[]" 0 "declarations (prefixes_for us)" e] assms
    by (cases "render_element u (prefixes_for us) [] 0 (declarations (prefixes_for us)) e") auto
  with us assms show ?thesis by (simp add: canonical_xml_element_eq)
qed

section \<open>Properties\<close>

text \<open>
  C40: The canonical XML form looks past exactly notation: two elements with the same expanded
  names, the same attributes in any order, whatever prefixes and declarations they use, and the
  same content (character data joined over CDATA sections, comments and instructions, trimmed,
  blank runs dropped; children in order, or as a multiset when sibling order is ignored) have
  the same canonical text, or both make the function throw.
\<close>

theorem canonical_xml_same:
  assumes "same_xml u a b"
  shows "canonical_xml_element u a = canonical_xml_element u b"
  using assms by (rule canonical_element_same)

text \<open>Two notations of one element: attributes swapped, another prefix, a comment and a CDATA section.\<close>

definition sample_a :: xnode where
  "sample_a = XElem (js ''p:r'') (Some (js ''r'')) (Some (js ''urn:x''))
     [\<lparr>at_name = js ''xmlns:p'', at_local = Some (js ''p''), at_ns = Some xmlns_ns, at_value = js ''urn:x''\<rparr>,
      \<lparr>at_name = js ''a'', at_local = Some (js ''a''), at_ns = None, at_value = js ''1''\<rparr>,
      \<lparr>at_name = js ''b'', at_local = Some (js ''b''), at_ns = None, at_value = js ''2''\<rparr>]
     [XText (js '' t''), XCData (js ''u '')]"

definition sample_b :: xnode where
  "sample_b = XElem (js ''r'') (Some (js ''r'')) (Some (js ''urn:x''))
     [\<lparr>at_name = js ''b'', at_local = Some (js ''b''), at_ns = None, at_value = js ''2''\<rparr>,
      \<lparr>at_name = js ''a'', at_local = Some (js ''a''), at_ns = None, at_value = js ''1''\<rparr>,
      \<lparr>at_name = js ''xmlns'', at_local = Some (js ''xmlns''), at_ns = Some xmlns_ns, at_value = js ''urn:x''\<rparr>]
     [XOther, XText (js ''tu'')]"

lemmas xml_eval = js_eval eff_ns_def eff_local_def truthy_def data_attrs_def is_namespace_declaration_def xmlns_ns_def
  starts_with_def attr_sig_def flushed_def trim_def trim_end_def trim_start_def js_space_def Let_def

theorem canonical_xml_same_witness:
  "canonical_xml_element False sample_a = canonical_xml_element False sample_b"
proof (rule canonical_xml_same)
  show "same_xml False sample_a sample_b"
    unfolding sample_a_def sample_b_def
    by (rule same_elem [where items = "[Inl (js ''tu'')]"]) (simp_all add: xml_eval)
qed

text \<open>
  Nesting deeper than the limit makes the canonical form throw a \<open>RangeError\<close>, because the
  namespaces are collected outside the \<open>try\<close>; in no case does the function return \<open>null\<close> for an
  element, which is what its comment promises for deep nesting.
\<close>

theorem canonical_xml_nesting_throws:
  "(canonical_xml_element u root = Inl RangeError \<longleftrightarrow> too_deep 0 root) \<and>
   canonical_xml_element u root \<noteq> Inr None"
  using canonical_element_some [of root u] by (cases "too_deep 0 root") (auto simp: canonical_xml_element_eq)

text \<open>
  With sibling order ignored the canonical text can call different documents equivalent:
  text on both sides of an element is two lines, and so is one text with a line break and the
  right indentation.
\<close>

theorem canonical_xml_text_collision:
  "canonical_xml_element True (XElem (js ''r'') (Some (js ''r'')) None []
       [XText (js ''a''), XElem (js ''e'') (Some (js ''e'')) None [] [], XText (js ''b'')]) =
     canonical_xml_element True (XElem (js ''r'') (Some (js ''r'')) None []
       [XElem (js ''e'') (Some (js ''e'')) None [] [], XText (js ''a'' @ [10] @ js ''  b'')]) \<and>
   \<not> same_xml True (XElem (js ''r'') (Some (js ''r'')) None []
       [XText (js ''a''), XElem (js ''e'') (Some (js ''e'')) None [] [], XText (js ''b'')])
     (XElem (js ''r'') (Some (js ''r'')) None []
       [XElem (js ''e'') (Some (js ''e'')) None [] [], XText (js ''a'' @ [10] @ js ''  b'')])"
proof (intro conjI notI)
  show "canonical_xml_element True (XElem (js ''r'') (Some (js ''r'')) None []
       [XText (js ''a''), XElem (js ''e'') (Some (js ''e'')) None [] [], XText (js ''b'')]) =
     canonical_xml_element True (XElem (js ''r'') (Some (js ''r'')) None []
       [XElem (js ''e'') (Some (js ''e'')) None [] [], XText (js ''a'' @ [10] @ js ''  b'')])"
    by (simp add: xml_eval canonical_xml_element_def max_xml_nesting_def prefixes_for_def declarations_def
      qualified_name_def attr_texts_def flush_text_def close_element_def escape_text_def replace_char_def js_sort_def)
next
  assume "same_xml True (XElem (js ''r'') (Some (js ''r'')) None []
       [XText (js ''a''), XElem (js ''e'') (Some (js ''e'')) None [] [], XText (js ''b'')])
     (XElem (js ''r'') (Some (js ''r'')) None []
       [XElem (js ''e'') (Some (js ''e'')) None [] [], XText (js ''a'' @ [10] @ js ''  b'')])"
  then obtain items where l: "length (content [] [XText (js ''a''), XElem (js ''e'') (Some (js ''e'')) None [] [], XText (js ''b'')]) = length items"
    and m: "mset items = mset (content [] [XElem (js ''e'') (Some (js ''e'')) None [] [], XText (js ''a'' @ [10] @ js ''  b'')])"
    by (cases rule: same_xml.cases) (auto dest!: list_all2_lengthD)
  have "length items = length (content [] [XElem (js ''e'') (Some (js ''e'')) None [] [], XText (js ''a'' @ [10] @ js ''  b'')])"
    using m by (metis size_mset)
  with l show False by (simp add: xml_eval)
qed

end
