(* ===== verification/MessageCompare.thy ===== *)
theory MessageCompare
  imports Message CanonicalJsonSem CanonicalXmlProps
begin

text \<open>
  The compare of two records part by part (\<open>frontend/src/lib/message-compare.ts\<close>). Computations
  that call \<open>atob\<close> or the canonical XML form may throw; they return a sum with the exception on
  the left. The \<open>DOMParser\<close> is the parameter \<open>parser\<close>.
\<close>

section \<open>Contents\<close>

definition max_compare_value_bytes :: int where
  "max_compare_value_bytes = 4 * 1024 * 1024"

datatype part_format = FJson | FXml | FText | FBinary

datatype part_kind = KNull | KEmpty | KText | KBinary

record part_content =
  p_kind :: part_kind
  p_data :: jstr
  p_format :: part_format
  p_masked :: bool
  p_preview :: bool

record header_content =
  h_text :: jstr
  h_b64 :: "jstr option"
  h_masked :: bool

record message_content =
  c_key :: part_content
  c_value :: part_content
  c_headers :: "(jstr, header_content) jsmap"

record compare_options =
  ignore_array_order :: bool
  ignore_child_order :: bool
  ignore_kafkito_headers :: bool

definition default_compare_options :: compare_options where
  "default_compare_options =
     \<lparr>ignore_array_order = False, ignore_child_order = False, ignore_kafkito_headers = True\<rparr>"

datatype verdict = Identical | Equivalent | Different | NotComparable

record part_comparison =
  pc_verdict :: verdict
  pc_format :: "part_format option"
  pc_exact :: "jstr \<times> jstr"
  pc_semantic :: "(jstr \<times> jstr) option"
  pc_notes :: "jstr list"

datatype header_status = Same | HDifferent | OnlyA | OnlyB

record header_row =
  hr_key :: jstr
  hr_a :: "header_content option"
  hr_b :: "header_content option"
  hr_status :: header_status

record headers_comparison =
  hc_verdict :: verdict
  hc_rows :: "header_row list"
  hc_notes :: "jstr list"

record message_comparison =
  mc_verdict :: verdict
  mc_key :: part_comparison
  mc_value :: part_comparison
  mc_headers :: headers_comparison

text \<open>\<open>/^x-kafkito-/i\<close>: without the \<open>u\<close> flag, ignoring case maps only ASCII letters to ASCII.\<close>

definition lower_ascii :: "cu \<Rightarrow> cu" where
  "lower_ascii c = (if 65 \<le> c \<and> c \<le> 90 then c + 32 else c)"

definition is_kafkito_header :: "jstr \<Rightarrow> bool" where
  "is_kafkito_header key \<longleftrightarrow> starts_with (js ''x-kafkito-'') (map lower_ascii key)"

definition format_of :: "jstr \<Rightarrow> part_format" where
  "format_of encoding =
     (if is_json_like_encoding encoding then FJson else if encoding = js ''xml'' then FXml else FText)"

definition part :: "jstr \<Rightarrow> jstr option \<Rightarrow> jstr option \<Rightarrow> bool \<Rightarrow> bool \<Rightarrow> part_content" where
  "part encoding txt b64 is_masked preview =
     (if encoding = js ''empty'' then
        \<lparr>p_kind = KEmpty, p_data = [], p_format = FText, p_masked = is_masked, p_preview = False\<rparr>
      else if encoding = js ''null'' then
        \<lparr>p_kind = KNull, p_data = [], p_format = FText, p_masked = is_masked, p_preview = False\<rparr>
      else case (b64, is_masked) of
        (Some d, False) \<Rightarrow>
          \<lparr>p_kind = KBinary, p_data = d, p_format = FBinary, p_masked = is_masked, p_preview = preview\<rparr>
      | _ \<Rightarrow>
          \<lparr>p_kind = KText, p_data = opt_or txt [], p_format = format_of encoding, p_masked = is_masked,
           p_preview = preview\<rparr>)"

definition throwing :: "js_error \<Rightarrow> 'a option \<Rightarrow> js_error + 'a" where
  "throwing e r = (case r of None \<Rightarrow> Inl e | Some x \<Rightarrow> Inr x)"

definition header_contents :: "message \<Rightarrow> (jstr, header_content) jsmap" where
  "header_contents m = map (\<lambda>(k, txt).
     (k, \<lparr>h_text = txt, h_b64 = (case headers_b64 m of None \<Rightarrow> None | Some hb \<Rightarrow> mget hb k),
          h_masked = (k \<in> set (opt_or (masked_headers m) []))\<rparr>)) (opt_or (m_headers m) [])"

definition message_content_of :: "message \<Rightarrow> jstr option \<Rightarrow> js_error + message_content" where
  "message_content_of m full =
     (let truncated = isTrue (value_truncated m)
      in bindE (case full of
           Some b64 \<Rightarrow>
             if truncated then
               (if value_encoding m = js ''binary'' then
                  Inr \<lparr>p_kind = KBinary, p_data = b64, p_format = FBinary, p_masked = False, p_preview = False\<rparr>
                else bindE (throwing InvalidCharacterError (base64_to_utf8 b64)) (\<lambda>t.
                  Inr \<lparr>p_kind = KText, p_data = t, p_format = format_of (value_encoding m),
                       p_masked = False, p_preview = False\<rparr>))
             else Inr (part (value_encoding m) (m_value m) (value_b64 m) (isTrue (masked m)) truncated)
         | None \<Rightarrow> Inr (part (value_encoding m) (m_value m) (value_b64 m) (isTrue (masked m)) truncated))
       (\<lambda>value. Inr
         \<lparr>c_key = part (key_encoding m) (m_key m) (key_b64 m) (isTrue (key_masked m)) False,
          c_value = value, c_headers = header_contents m\<rparr>))"

definition needs_full_value :: "message \<Rightarrow> bool" where
  "needs_full_value m \<longleftrightarrow> value_truncated m = Some True \<and> masked m \<noteq> Some True
     \<and> opt_or (value_size_bytes m) 0 \<le> max_compare_value_bytes"

section \<open>Canonical forms and exact texts\<close>

definition max_semantic_chars :: nat where
  "max_semantic_chars = 1024 * 1024"

definition too_large_for_semantic :: "part_content \<Rightarrow> bool" where
  "too_large_for_semantic p \<longleftrightarrow> p_kind p = KText \<and> (p_format p = FJson \<or> p_format p = FXml)
     \<and> length (p_data p) > max_semantic_chars"

definition canonical_part :: "dom_parser \<Rightarrow> part_content \<Rightarrow> compare_options \<Rightarrow> js_error + jstr option" where
  "canonical_part parser p opts =
     (if p_kind p \<noteq> KText \<or> too_large_for_semantic p then Inr None
      else if p_format p = FJson then Inr (canonical_json (ignore_array_order opts) (p_data p))
      else if p_format p = FXml then canonical_xml parser (ignore_child_order opts) (p_data p)
      else Inr None)"

definition hex_dump_max_bytes :: nat where
  "hex_dump_max_bytes = 64 * 1024"

text \<open>One line of the dump: the bytes from \<open>i\<close> on, at most 16 of them, shorter lines padded.\<close>

definition hex_line :: "nat \<Rightarrow> byte list \<Rightarrow> jstr" where
  "hex_line i bs =
     hex_pad 8 i @ js ''  ''
     @ concat (map (\<lambda>b. hex_pad 2 (unat b) @ js '' '') bs) @ concat (replicate (16 - length bs) (js ''   ''))
     @ js '' |'' @ map (\<lambda>b. if 0x20 \<le> b \<and> b < 0x7F then of_nat (unat b) else ch CHR ''.'') bs @ js ''|''"

definition hex_dump :: "jstr \<Rightarrow> js_error + jstr" where
  "hex_dump b64 = bindE (throwing InvalidCharacterError (atob b64)) (\<lambda>bin.
     let n = min (length bin) hex_dump_max_bytes;
         shown = take n bin;
         lines = map (\<lambda>r. hex_line (16 * r) (take 16 (drop (16 * r) shown))) [0..<(n + 15) div 16];
         rest = (if length bin > n then [0x2026 # js '' '' @ dec (length bin - n) @ js '' more bytes''] else [])
     in Inr (join [10] (lines @ rest)))"

definition exact_text :: "part_content \<Rightarrow> js_error + jstr" where
  "exact_text p = (case p_kind p of
      KNull \<Rightarrow> Inr (js ''(null)'') | KEmpty \<Rightarrow> Inr (js ''(empty)'')
    | KBinary \<Rightarrow> hex_dump (p_data p) | KText \<Rightarrow> Inr (p_data p))"

section \<open>Comparing a part\<close>

definition same_raw :: "part_content \<Rightarrow> part_content \<Rightarrow> bool" where
  "same_raw a b \<longleftrightarrow> p_kind a = p_kind b \<and> p_data a = p_data b"

definition known_bytes :: "part_content \<Rightarrow> js_error + jstr" where
  "known_bytes p = (if p_kind p = KBinary
     then bindE (throwing InvalidCharacterError (atob (p_data p))) (\<lambda>bs. Inr (map (\<lambda>b. of_nat (unat b)) bs))
     else Inr (p_data p))"

definition previews_agree :: "part_content \<Rightarrow> part_content \<Rightarrow> js_error + bool" where
  "previews_agree a b =
     (if p_kind a \<noteq> p_kind b then Inr False
      else bindE (known_bytes a) (\<lambda>ka. bindE (known_bytes b) (\<lambda>kb.
        Inr ((\<not> p_preview a \<or> starts_with ka kb) \<and> (\<not> p_preview b \<or> starts_with kb ka)))))"

definition equivalence_note :: "part_format option \<Rightarrow> bool \<Rightarrow> jstr" where
  "equivalence_note format order_matters =
     (if format = Some FXml then
        (if order_matters
         then js ''Equivalent once element order, attribute order, namespace prefixes and whitespace are ignored.''
         else js ''Equivalent once attribute order, namespace prefixes and whitespace are ignored.'')
      else (if order_matters
         then js ''Equivalent once array order, key order, whitespace and number notation are ignored.''
         else js ''Equivalent once key order, whitespace and number notation are ignored.''))"

definition order_hint :: "part_format option \<Rightarrow> jstr" where
  "order_hint format =
     (if format = Some FXml
      then js ''Only the order of elements differs; ignore XML element order to treat them as equivalent.''
      else js ''Only the order of array elements differs; ignore JSON array order to treat them as equivalent.'')"

text \<open>\<open>canon(p, u)\<close>: the canonical form with both order options set to \<open>u\<close>.\<close>

definition canon :: "dom_parser \<Rightarrow> compare_options \<Rightarrow> part_content \<Rightarrow> bool \<Rightarrow> js_error + jstr option" where
  "canon parser opts p u = canonical_part parser p (opts\<lparr>ignore_array_order := u, ignore_child_order := u\<rparr>)"

definition shared_format :: "part_content \<Rightarrow> part_content \<Rightarrow> part_format option" where
  "shared_format a b = (if p_format a = p_format b then Some (p_format a) else None)"

definition structured :: "part_content \<Rightarrow> part_content \<Rightarrow> bool" where
  "structured a b \<longleftrightarrow> (shared_format a b = Some FJson \<or> shared_format a b = Some FXml)
     \<and> p_kind a = KText \<and> p_kind b = KText"

definition unordered :: "compare_options \<Rightarrow> part_content \<Rightarrow> part_content \<Rightarrow> bool" where
  "unordered opts a b =
     (if shared_format a b = Some FJson then ignore_array_order opts else ignore_child_order opts)"

definition either_too_large :: "part_content \<Rightarrow> part_content \<Rightarrow> bool" where
  "either_too_large a b \<longleftrightarrow> structured a b \<and> (too_large_for_semantic a \<or> too_large_for_semantic b)"

definition parse_notes :: "jstr \<Rightarrow> part_content \<Rightarrow> part_content \<Rightarrow> jstr option \<Rightarrow> jstr option \<Rightarrow> jstr list" where
  "parse_notes label a b ca cb =
     (if either_too_large a b
      then [js ''The '' @ label @ js '' is larger than 1 MB; compared exactly, without the semantic level.'']
      else if structured a b \<and> \<not> (ca \<noteq> None \<and> cb \<noteq> None)
      then [(if ca = None then (if cb = None then js ''Neither side's'' else js ''Side A's'') else js ''Side B's'')
            @ js '' '' @ label @ js '' does not parse as ''
            @ (if shared_format a b = Some FJson then js ''JSON'' else js ''XML'') @ js ''; compared exactly.'']
      else [])
     @ (if p_kind a = KText \<and> p_kind b = KText \<and> p_format a \<noteq> p_format b
        then [js ''The '' @ label @ js ''s have different formats; compared exactly.''] else [])"

text \<open>The verdict on the contents as they are, and the remark that goes with it.\<close>

definition base_verdict ::
    "dom_parser \<Rightarrow> compare_options \<Rightarrow> part_content \<Rightarrow> part_content \<Rightarrow> (jstr \<times> jstr) option \<Rightarrow> js_error + (verdict \<times> jstr list)" where
  "base_verdict parser opts a b semantic =
     (let u = unordered opts a b; format = shared_format a b
      in if same_raw a b then Inr (Identical, [])
         else case semantic of
           None \<Rightarrow> Inr (Different, [])
         | Some (sa, sb) \<Rightarrow>
             if sa = sb then
               bindE (if u then bindE (canon parser opts a False) (\<lambda>x. bindE (canon parser opts b False) (\<lambda>y. Inr (x \<noteq> y)))
                      else Inr False)
                 (\<lambda>order_matters. Inr (Equivalent, [equivalence_note format order_matters]))
             else if \<not> u \<and> length sa = length sb then
               bindE (canon parser opts a True) (\<lambda>la.
                 if la \<noteq> None
                 then bindE (canon parser opts b True) (\<lambda>lb.
                   Inr (Different, if la = lb then [order_hint format] else []))
                 else Inr (Different, []))
             else Inr (Different, []))"

definition mask_step :: "jstr \<Rightarrow> part_content \<Rightarrow> part_content \<Rightarrow> verdict \<times> jstr list \<Rightarrow> verdict \<times> jstr list" where
  "mask_step label a b r =
     (case r of (v, notes) \<Rightarrow>
       if p_masked a \<noteq> p_masked b then
         (if v = Different then NotComparable else v,
          notes @ [js ''Only side '' @ (if p_masked a then js ''A'' else js ''B'') @ [39] @ js ''s '' @ label
            @ js '' is masked by data_masking rules.''])
       else if p_masked a \<and> p_masked b then
         (v, notes @ [js ''Both '' @ label @ js ''s are masked; their masked renderings were compared.''])
       else (v, notes))"

definition preview_step :: "part_content \<Rightarrow> part_content \<Rightarrow> verdict \<times> jstr list \<Rightarrow> js_error + (verdict \<times> jstr list)" where
  "preview_step a b r =
     (case r of (v, notes) \<Rightarrow>
       if p_preview a \<or> p_preview b then
         let side = (if p_preview a \<and> p_preview b then js ''both sides''
                     else if p_preview a then js ''side A'' else js ''side B'');
             notes' = notes @ [js ''Only the 64 KB preview of '' @ side @ js '' was compared.'']
         in if v \<noteq> NotComparable
            then bindE (previews_agree a b) (\<lambda>ok. Inr (if ok then NotComparable else Different, notes'))
            else Inr (v, notes')
       else Inr (v, notes))"

definition compare_part ::
    "dom_parser \<Rightarrow> part_content \<Rightarrow> part_content \<Rightarrow> compare_options \<Rightarrow> jstr \<Rightarrow> js_error + part_comparison" where
  "compare_part parser a b opts label =
     bindE (exact_text a) (\<lambda>ea. bindE (exact_text b) (\<lambda>eb.
       let go = structured a b \<and> \<not> either_too_large a b; u = unordered opts a b
       in bindE (if go then canon parser opts a u else Inr None) (\<lambda>ca.
          bindE (if go then canon parser opts b u else Inr None) (\<lambda>cb.
            let semantic = (case (ca, cb) of (Some x, Some y) \<Rightarrow> Some (x, y) | _ \<Rightarrow> None)
            in bindE (base_verdict parser opts a b semantic) (\<lambda>(v, vn).
               bindE (preview_step a b (mask_step label a b (v, parse_notes label a b ca cb @ vn))) (\<lambda>(v', notes).
                 Inr \<lparr>pc_verdict = v', pc_format = shared_format a b, pc_exact = (ea, eb),
                      pc_semantic = semantic, pc_notes = notes\<rparr>))))))"

section \<open>Headers and the whole message\<close>

definition same_header :: "header_content \<Rightarrow> header_content \<Rightarrow> bool" where
  "same_header a b = (if h_b64 a \<noteq> None \<or> h_b64 b \<noteq> None then h_b64 a = h_b64 b else h_text a = h_text b)"

type_synonym header_map = "(jstr, header_content) jsmap"

definition all_header_keys :: "header_map \<Rightarrow> header_map \<Rightarrow> jstr list" where
  "all_header_keys a b = js_sort (dedupe_from id [] (mkeys a @ mkeys b))"

definition header_row_for :: "header_map \<Rightarrow> header_map \<Rightarrow> jstr \<Rightarrow> header_row" where
  "header_row_for a b key =
     (let ha = mget a key; hb = mget b key
      in \<lparr>hr_key = key, hr_a = ha, hr_b = hb,
          hr_status = (case hb of None \<Rightarrow> OnlyA | Some y \<Rightarrow>
            (case ha of None \<Rightarrow> OnlyB | Some x \<Rightarrow> if same_header x y then Same else HDifferent))\<rparr>)"

definition row_masked :: "header_content option \<Rightarrow> bool option" where
  "row_masked h = map_option h_masked h"

definition row_differs :: "header_row \<Rightarrow> bool" where
  "row_differs r \<longleftrightarrow> hr_status r \<noteq> Same \<and> \<not> (hr_status r = HDifferent \<and> row_masked (hr_a r) \<noteq> row_masked (hr_b r))"

definition row_masked_differs :: "header_row \<Rightarrow> bool" where
  "row_masked_differs r \<longleftrightarrow> hr_status r = HDifferent \<and> row_masked (hr_a r) \<noteq> row_masked (hr_b r)"

definition compare_headers :: "header_map \<Rightarrow> header_map \<Rightarrow> compare_options \<Rightarrow> headers_comparison" where
  "compare_headers a b opts =
     (let keys = all_header_keys a b;
          ignored = (if ignore_kafkito_headers opts then filter is_kafkito_header keys else []);
          rows = map (header_row_for a b)
            (filter (\<lambda>k. \<not> (ignore_kafkito_headers opts \<and> is_kafkito_header k)) keys);
          notes = (if ignored = [] then []
            else [dec (length ignored) @ js '' kafkito provenance header''
                  @ (if length ignored = 1 then [] else js ''s'') @ js '' (X-Kafkito-*) ignored.'']);
          masked_note = (if \<exists>r \<in> set rows. row_masked (hr_a r) = Some True \<or> row_masked (hr_b r) = Some True
            then [js ''Masked header values were compared as displayed.''] else [])
      in \<lparr>hc_verdict = (if \<exists>r \<in> set rows. row_differs r then Different
            else if \<exists>r \<in> set rows. row_masked_differs r then NotComparable else Identical),
          hc_rows = rows, hc_notes = notes @ masked_note\<rparr>)"

fun verdict_rank :: "verdict \<Rightarrow> nat" where
  "verdict_rank Identical = 0"
| "verdict_rank Equivalent = 1"
| "verdict_rank NotComparable = 2"
| "verdict_rank Different = 3"

definition worst_verdict :: "verdict list \<Rightarrow> verdict" where
  "worst_verdict vs = foldl (\<lambda>w v. if verdict_rank v > verdict_rank w then v else w) Identical vs"

definition compare_messages ::
    "dom_parser \<Rightarrow> message_content \<Rightarrow> message_content \<Rightarrow> compare_options \<Rightarrow> js_error + message_comparison" where
  "compare_messages parser a b opts =
     bindE (compare_part parser (c_key a) (c_key b) opts (js ''key'')) (\<lambda>key.
     bindE (compare_part parser (c_value a) (c_value b) opts (js ''value'')) (\<lambda>value.
       let headers = compare_headers (c_headers a) (c_headers b) opts
       in Inr \<lparr>mc_verdict = worst_verdict [pc_verdict key, pc_verdict value, hc_verdict headers],
               mc_key = key, mc_value = value, mc_headers = headers\<rparr>))"

end
