(* ===== verification/MessageCompareProps.thy ===== *)
theory MessageCompareProps
  imports MessageCompare
begin

text \<open>
  What the compare page promises: the verdict on JSON parts is the one of the values they denote,
  XML parts that are the same document are never called different, the verdict does not depend
  on which record is side A, a preview is never taken for the whole value, header rows are
  complete, and the verdict of a message is the worst of its parts.
\<close>

section \<open>Canonical forms throw alike\<close>

definition same_throw :: "(js_error + 'a) \<Rightarrow> (js_error + 'b) \<Rightarrow> bool" where
  "same_throw r s \<longleftrightarrow> (isl r \<longleftrightarrow> isl s)"

lemma canonical_element_isl: "isl (canonical_xml_element u e) \<longleftrightarrow> too_deep 0 e"
  using collect_spec(1) [of "[]" 0 e] by (auto simp: canonical_xml_element_eq collects_def)

lemma canon_isl: "isl (canon parser opts p u) \<longleftrightarrow> isl (canon parser opts p v)"
  by (auto simp: canon_def canonical_part_def canonical_xml_def canonical_element_isl split: option.splits)

lemma canon_Inr: "canon parser opts p u = Inr x \<Longrightarrow> \<exists>y. canon parser opts p v = Inr y"
  using canon_isl [of parser opts p u v] by (cases "canon parser opts p v") auto

section \<open>The steps of a compare\<close>

lemma shared_format_sym: "shared_format a b = shared_format b a"
  by (simp add: shared_format_def)

lemma structured_sym: "structured a b = structured b a"
  by (auto simp: structured_def shared_format_sym [of a])

lemma unordered_sym: "unordered opts a b = unordered opts b a"
  by (simp add: unordered_def shared_format_sym [of a])

lemma too_large_sym: "either_too_large a b = either_too_large b a"
  by (auto simp: either_too_large_def structured_sym [of a])

lemma same_raw_sym: "same_raw a b = same_raw b a"
  by (auto simp: same_raw_def)

definition swap_pair :: "(jstr \<times> jstr) option \<Rightarrow> (jstr \<times> jstr) option" where
  "swap_pair s = map_option prod.swap s"

definition go :: "part_content \<Rightarrow> part_content \<Rightarrow> bool" where
  "go a b \<longleftrightarrow> structured a b \<and> \<not> either_too_large a b"

definition pair_up :: "jstr option \<Rightarrow> jstr option \<Rightarrow> (jstr \<times> jstr) option" where
  "pair_up ca cb = (case (ca, cb) of (Some x, Some y) \<Rightarrow> Some (x, y) | _ \<Rightarrow> None)"

text \<open>What the verdict of a part is when nothing throws.\<close>

definition plain_verdict :: "part_content \<Rightarrow> part_content \<Rightarrow> (jstr \<times> jstr) option \<Rightarrow> verdict" where
  "plain_verdict a b semantic =
     (if same_raw a b then Identical
      else case semantic of None \<Rightarrow> Different | Some (x, y) \<Rightarrow> if x = y then Equivalent else Different)"

definition masked_verdict :: "part_content \<Rightarrow> part_content \<Rightarrow> verdict \<Rightarrow> verdict" where
  "masked_verdict a b v = (if p_masked a \<noteq> p_masked b \<and> v = Different then NotComparable else v)"

lemma base_verdict_sym: 
  assumes "base_verdict parser opts a b s = Inr r" "s = pair_up ca cb"
    "go a b \<Longrightarrow> canon parser opts a u = Inr ca" "go a b \<Longrightarrow> canon parser opts b u = Inr cb"
    "\<not> go a b \<Longrightarrow> ca = None"
  shows "fst r = plain_verdict a b s \<and> (\<exists>n. base_verdict parser opts b a (pair_up cb ca) = Inr (plain_verdict a b s, n))"
proof (cases "s = None \<or> same_raw a b")
  case True
  then show ?thesis
    using assms(1,2) by (auto simp: base_verdict_def plain_verdict_def same_raw_sym [of b] pair_up_def Let_def
        split: option.splits)
next
  case False
  then obtain x y where xy: "ca = Some x" "cb = Some y" "s = Some (x, y)"
    using assms(2) by (auto simp: pair_up_def split: option.splits)
  then have g: "go a b" using assms(5) by auto
  have ex: "\<exists>z. canon parser opts a v = Inr z" "\<exists>z. canon parser opts b v = Inr z" for v
    using canon_Inr assms(3,4) g by blast+
  obtain af bf ta tb where c: "canon parser opts a False = Inr af" "canon parser opts b False = Inr bf"
    "canon parser opts a True = Inr ta" "canon parser opts b True = Inr tb"
    using ex by metis
  have "fst r = plain_verdict a b s"
    using assms(1) False xy c by (auto simp: base_verdict_def plain_verdict_def Let_def split: if_splits)
  moreover have "\<exists>n. base_verdict parser opts b a (Some (y, x)) = Inr (plain_verdict a b s, n)"
    using False xy c by (auto simp: base_verdict_def plain_verdict_def same_raw_sym [of b] Let_def)
  ultimately show ?thesis using xy by (simp add: pair_up_def)
qed

lemma mask_step_verdict: "fst (mask_step label a b r) = masked_verdict a b (fst r)"
  by (cases r) (auto simp: mask_step_def masked_verdict_def)

lemma previews_agree_sym: "previews_agree a b = Inr ok \<Longrightarrow> previews_agree b a = Inr ok"
  by (cases "known_bytes a"; cases "known_bytes b") (auto simp: previews_agree_def split: if_splits)

lemma preview_step_plain: "\<not> p_preview a \<Longrightarrow> \<not> p_preview b \<Longrightarrow> preview_step a b r = Inr r"
  by (cases r) (simp add: preview_step_def)

lemma preview_step_verdict:
  assumes "preview_step a b r = Inr r'" "p_preview a \<or> p_preview b"
  shows "if fst r = NotComparable then fst r' = NotComparable
    else \<exists>ok. previews_agree a b = Inr ok \<and> fst r' = (if ok then NotComparable else Different)"
  using assms by (cases r; cases "previews_agree a b") (auto simp: preview_step_def Let_def split: if_splits)

lemma preview_step_swap:
  assumes "preview_step a b r = Inr r'" "fst s = fst r"
  shows "\<exists>s'. preview_step b a s = Inr s' \<and> fst s' = fst r'"
proof (cases "p_preview a \<or> p_preview b")
  case True
  show ?thesis
  proof (cases "fst r = NotComparable")
    case nc: True
    then show ?thesis
      using assms True preview_step_verdict [OF assms(1) True]
      by (cases s) (auto simp: preview_step_def Let_def)
  next
    case False
    then obtain ok where "previews_agree a b = Inr ok" "fst r' = (if ok then NotComparable else Different)"
      using preview_step_verdict [OF assms(1) True] by auto
    then show ?thesis
      using assms(2) True False previews_agree_sym [of a b ok]
      by (cases s) (auto simp: preview_step_def Let_def)
  qed
next
  case False
  then show ?thesis using assms by (simp add: preview_step_plain)
qed

text \<open>The parts of a compare that returned.\<close>

lemma compare_partE:
  assumes "compare_part parser a b opts label = Inr r"
  obtains ca cb v vn n where
    "exact_text a = Inr (fst (pc_exact r))" "exact_text b = Inr (snd (pc_exact r))"
    "(if go a b then canon parser opts a (unordered opts a b) else Inr None) = Inr ca"
    "(if go a b then canon parser opts b (unordered opts a b) else Inr None) = Inr cb"
    "base_verdict parser opts a b (pair_up ca cb) = Inr (v, vn)"
    "preview_step a b (mask_step label a b (v, parse_notes label a b ca cb @ vn)) = Inr (pc_verdict r, n)"
    "pc_semantic r = pair_up ca cb"
  using assms unfolding compare_part_def Let_def
  by (auto simp: bindE_Inr go_def pair_up_def split: prod.splits)

lemma compare_partI:
  assumes "exact_text a = Inr ea" "exact_text b = Inr eb"
    "(if go a b then canon parser opts a (unordered opts a b) else Inr None) = Inr ca"
    "(if go a b then canon parser opts b (unordered opts a b) else Inr None) = Inr cb"
    "base_verdict parser opts a b (pair_up ca cb) = Inr (v, vn)"
    "preview_step a b (mask_step label a b (v, parse_notes label a b ca cb @ vn)) = Inr (v', n)"
  shows "\<exists>r. compare_part parser a b opts label = Inr r \<and> pc_verdict r = v'"
proof -
  have c: "(if structured a b \<and> \<not> either_too_large a b then canon parser opts a (unordered opts a b) else Inr None) = Inr ca"
    "(if structured a b \<and> \<not> either_too_large a b then canon parser opts b (unordered opts a b) else Inr None) = Inr cb"
    using assms(3,4) by (simp_all add: go_def)
  show ?thesis
    unfolding compare_part_def Let_def assms(1,2) bindE_simps c
    using assms(5,6) by (simp add: pair_up_def)
qed

lemma compare_part_sym:
  assumes "compare_part parser a b opts label = Inr r"
  shows "\<exists>r'. compare_part parser b a opts label = Inr r' \<and> pc_verdict r' = pc_verdict r"
proof -
  obtain ca cb v vn n where d:
    "exact_text a = Inr (fst (pc_exact r))" "exact_text b = Inr (snd (pc_exact r))"
    "(if go a b then canon parser opts a (unordered opts a b) else Inr None) = Inr ca"
    "(if go a b then canon parser opts b (unordered opts a b) else Inr None) = Inr cb"
    "base_verdict parser opts a b (pair_up ca cb) = Inr (v, vn)"
    "preview_step a b (mask_step label a b (v, parse_notes label a b ca cb @ vn)) = Inr (pc_verdict r, n)"
    using assms by (rule compare_partE)
  have go: "go b a = go a b" by (simp add: go_def structured_sym [of b] too_large_sym [of b])
  have un: "unordered opts b a = unordered opts a b" by (rule unordered_sym)
  have bv: "fst (v, vn) = plain_verdict a b (pair_up ca cb) \<and>
      (\<exists>n. base_verdict parser opts b a (pair_up cb ca) = Inr (plain_verdict a b (pair_up ca cb), n))"
    by (rule base_verdict_sym [OF d(5) refl, where u = "unordered opts a b"]) (use d(3,4) in \<open>auto split: if_splits\<close>)
  then obtain vn' where b: "base_verdict parser opts b a (pair_up cb ca) = Inr (v, vn')" by auto
  have "fst (mask_step label b a (v, parse_notes label b a cb ca @ vn')) =
      fst (mask_step label a b (v, parse_notes label a b ca cb @ vn))"
    by (auto simp: mask_step_verdict masked_verdict_def)
  from preview_step_swap [OF d(6) this] obtain s where
    s: "preview_step b a (mask_step label b a (v, parse_notes label b a cb ca @ vn')) = Inr s" "fst s = pc_verdict r"
    by auto
  then have "preview_step b a (mask_step label b a (v, parse_notes label b a cb ca @ vn')) = Inr (pc_verdict r, snd s)"
    by (cases s) simp
  from compare_partI [OF d(2,1) _ _ b this] d(3,4) show ?thesis
    unfolding go un by simp
qed


lemma go_text: "go a b \<longleftrightarrow> p_kind a = KText \<and> p_kind b = KText \<and> p_format a = p_format b \<and>
    (p_format a = FJson \<or> p_format a = FXml) \<and>
    length (p_data a) \<le> max_semantic_chars \<and> length (p_data b) \<le> max_semantic_chars"
  by (auto simp: go_def structured_def shared_format_def either_too_large_def too_large_for_semantic_def)

text \<open>A compare of two structured texts without previews and masks: the verdict is the plain one.\<close>

lemma compare_structured:
  assumes g: "go a b" and plain: "\<not> p_preview a" "\<not> p_preview b" "p_masked a = p_masked b"
    and c: "canon parser opts a (unordered opts a b) = Inr ca" "canon parser opts b (unordered opts a b) = Inr cb"
  shows "\<exists>r. compare_part parser a b opts label = Inr r \<and> pc_verdict r = plain_verdict a b (pair_up ca cb)"
proof -
  have ex: "\<exists>z. canon parser opts a v = Inr z" "\<exists>z. canon parser opts b v = Inr z" for v
    using canon_Inr c by blast+
  obtain af bf ta tb where k: "canon parser opts a False = Inr af" "canon parser opts b False = Inr bf"
    "canon parser opts a True = Inr ta" "canon parser opts b True = Inr tb"
    using ex by metis
  have "\<exists>n. base_verdict parser opts a b (pair_up ca cb) = Inr (plain_verdict a b (pair_up ca cb), n)"
    using k by (auto simp: base_verdict_def plain_verdict_def Let_def split: option.splits)
  then obtain n where b: "base_verdict parser opts a b (pair_up ca cb) = Inr (plain_verdict a b (pair_up ca cb), n)" ..
  have e: "exact_text a = Inr (p_data a)" "exact_text b = Inr (p_data b)"
    using g by (simp_all add: go_text exact_text_def)
  let ?m = "mask_step label a b (plain_verdict a b (pair_up ca cb), parse_notes label a b ca cb @ n)"
  have v: "fst ?m = plain_verdict a b (pair_up ca cb)"
    using plain(3) by (simp add: mask_step_verdict masked_verdict_def)
  have "preview_step a b ?m = Inr (plain_verdict a b (pair_up ca cb), snd ?m)"
    using plain(1,2) v by (simp add: preview_step_plain prod_eq_iff)
  from compare_partI [OF e _ _ b this] g c show ?thesis by simp
qed

section \<open>Properties\<close>


definition sample_part :: "jstr \<Rightarrow> part_content" where
  "sample_part d = \<lparr>p_kind = KText, p_data = d, p_format = FJson, p_masked = False, p_preview = False\<rparr>"


text \<open>
  XML texts whose parsed documents are the same up to notation (and sibling order, when that
  is ignored) are never called different.
\<close>

theorem compare_xml_same:
  assumes kinds: "p_kind a = KText" "p_kind b = KText" "p_format a = FXml" "p_format b = FXml"
    and size: "length (p_data a) \<le> max_semantic_chars" "length (p_data b) \<le> max_semantic_chars"
    and plain: "\<not> p_preview a" "\<not> p_preview b" "p_masked a = p_masked b"
    and docs: "parse_xml_doc parser (p_data a) = Some d1" "document_element d1 = Some x"
      "parse_xml_doc parser (p_data b) = Some d2" "document_element d2 = Some y"
    and same: "same_xml (ignore_child_order opts) x y" and shallow: "\<not> too_deep 0 x"
  shows "\<exists>r. compare_part parser a b opts label = Inr r \<and>
    pc_verdict r = (if p_data a = p_data b then Identical else Equivalent)"
proof -
  let ?u = "ignore_child_order opts"
  have g: "go a b" using kinds size by (simp add: go_text)
  have u: "unordered opts a b = ?u" using kinds by (simp add: unordered_def shared_format_def)
  obtain t where t: "canonical_xml_element ?u x = Inr (Some t)"
    using canonical_element_some [OF shallow] by blast
  have "canon parser opts a ?u = Inr (Some t)" "canon parser opts b ?u = Inr (Some t)"
    using kinds size docs t canonical_element_same [OF same]
    by (simp_all add: canon_def canonical_part_def too_large_for_semantic_def canonical_xml_def)
  from compare_structured [OF g plain, of parser opts, unfolded u, OF this] kinds show ?thesis
    by (auto simp: plain_verdict_def pair_up_def same_raw_def)
qed

definition xml_part :: "jstr \<Rightarrow> part_content" where
  "xml_part d = \<lparr>p_kind = KText, p_data = d, p_format = FXml, p_masked = False, p_preview = False\<rparr>"

text \<open>A parser that knows two documents, \<open><b/>\<close> and everything else.\<close>

definition sample_parser :: dom_parser where
  "sample_parser s = Some \<lparr>document_element = Some (if s = js ''<b/>'' then sample_b else sample_a)\<rparr>"

theorem compare_xml_same_witness:
  "\<exists>r. compare_part sample_parser (xml_part (js ''<a/>'')) (xml_part (js ''<b/>'')) default_compare_options (js ''value'') = Inr r
     \<and> pc_verdict r = Equivalent"
proof -
  have s: "same_xml False sample_a sample_b"
    unfolding sample_a_def sample_b_def
    by (rule same_elem [where items = "[Inl (js ''tu'')]"]) (simp_all add: xml_eval)
  have p: "parse_xml_doc sample_parser (js ''<a/>'') = Some \<lparr>document_element = Some sample_a\<rparr>"
    "parse_xml_doc sample_parser (js ''<b/>'') = Some \<lparr>document_element = Some sample_b\<rparr>"
    by (simp_all add: parse_xml_doc_def looks_like_xml_def sample_parser_def has_parser_error_def
        sample_a_def sample_b_def xml_eval)
  have "\<not> too_deep 0 sample_a" by (simp add: sample_a_def max_xml_nesting_def)
  with compare_xml_same [of "xml_part (js ''<a/>'')" "xml_part (js ''<b/>'')" sample_parser
      "\<lparr>document_element = Some sample_a\<rparr>" sample_a "\<lparr>document_element = Some sample_b\<rparr>" sample_b
      default_compare_options "js ''value''"] s p
  show ?thesis by (simp add: xml_part_def default_compare_options_def max_semantic_chars_def)
qed

section \<open>Headers and the message\<close>

lemma mget_Some_key: "mget m k = Some v \<Longrightarrow> k \<in> set (mkeys m)"
  using mget_in_mkeys [of m k] by simp

lemma all_header_keys: "set (all_header_keys a b) = set (mkeys a) \<union> set (mkeys b)" "distinct (all_header_keys a b)"
    "sorted (all_header_keys a b)"
proof -
  show "set (all_header_keys a b) = set (mkeys a) \<union> set (mkeys b)"
    using dedupe_from_keys [of id "[]" "mkeys a @ mkeys b"] by (simp add: all_header_keys_def)
  show "distinct (all_header_keys a b)"
    using dedupe_from_distinct [of id "[]" "mkeys a @ mkeys b"] by (simp add: all_header_keys_def)
  show "sorted (all_header_keys a b)" by (simp add: all_header_keys_def js_sort_sorted)
qed

definition left_out :: "compare_options \<Rightarrow> jstr \<Rightarrow> bool" where
  "left_out opts k \<longleftrightarrow> ignore_kafkito_headers opts \<and> is_kafkito_header k"

text \<open>
  The header rows are complete: their keys are the keys of either record that are not left
  out, each once and in order, every row shows what the two records have under its key, and the
  headers are \<open>identical\<close> exactly when every key that counts is on both sides with the same value
  or on neither.
\<close>

theorem compare_headers_complete:
  "map hr_key (hc_rows (compare_headers a b opts)) = filter (\<lambda>k. \<not> left_out opts k) (js_sort (dedupe_from id [] (mkeys a @ mkeys b))) \<and>
   sorted (map hr_key (hc_rows (compare_headers a b opts))) \<and>
   distinct (map hr_key (hc_rows (compare_headers a b opts))) \<and>
   set (map hr_key (hc_rows (compare_headers a b opts))) = (set (mkeys a) \<union> set (mkeys b)) \<inter> {k. \<not> left_out opts k} \<and>
   (hc_verdict (compare_headers a b opts) = Identical \<longleftrightarrow>
     {k. \<not> left_out opts k} \<subseteq> {k. rel_option same_header (mget a k) (mget b k)})"
proof -
  let ?ks = "filter (\<lambda>k. \<not> left_out opts k) (all_header_keys a b)"
  have rows: "hc_rows (compare_headers a b opts) = map (header_row_for a b) ?ks"
    by (simp add: compare_headers_def Let_def left_out_def)
  have keys: "map hr_key (map (header_row_for a b) ks) = ks" for ks
    by (induction ks) (auto simp: header_row_for_def Let_def)
  have same: "row_differs (header_row_for a b k) \<or> row_masked_differs (header_row_for a b k) \<longleftrightarrow>
      \<not> rel_option same_header (mget a k) (mget b k)" if "k \<in> set (all_header_keys a b)" for k
  proof -
    have "mget a k \<noteq> None \<or> mget b k \<noteq> None"
      using that mget_in_mkeys [of a k] mget_in_mkeys [of b k] by (simp only: all_header_keys Un_iff)
    then show ?thesis
      by (cases "mget a k"; cases "mget b k")
        (auto simp: row_differs_def row_masked_differs_def header_row_for_def Let_def)
  qed
  have none: "rel_option same_header (mget a k) (mget b k)" if "k \<notin> set (all_header_keys a b)" for k
    using that by (auto simp: all_header_keys mget_None_iff [symmetric])
  have "hc_verdict (compare_headers a b opts) = Identical \<longleftrightarrow>
      (\<forall>k \<in> set ?ks. rel_option same_header (mget a k) (mget b k))"
    using same by (auto simp: compare_headers_def Let_def left_out_def [symmetric])
  also have "\<dots> \<longleftrightarrow> {k. \<not> left_out opts k} \<subseteq> {k. rel_option same_header (mget a k) (mget b k)}"
    using none by auto
  finally show ?thesis
    unfolding rows keys using all_header_keys [of a b]
    by (auto simp: all_header_keys_def [symmetric] sorted_wrt_filter)
qed

lemma same_header_sym: "same_header a b = same_header b a"
  by (auto simp: same_header_def)

lemma compare_headers_sym: "hc_verdict (compare_headers b a opts) = hc_verdict (compare_headers a b opts)"
proof -
  have k: "set (all_header_keys b a) = set (all_header_keys a b)" by (auto simp: all_header_keys)
  have d: "row_differs (header_row_for b a k) = row_differs (header_row_for a b k)"
    "row_masked_differs (header_row_for b a k) = row_masked_differs (header_row_for a b k)"
    if "k \<in> set (all_header_keys a b)" for k
  proof -
    have "mget a k \<noteq> None \<or> mget b k \<noteq> None"
      using that mget_in_mkeys [of a k] mget_in_mkeys [of b k] by (simp only: all_header_keys Un_iff)
    then show "row_differs (header_row_for b a k) = row_differs (header_row_for a b k)"
      "row_masked_differs (header_row_for b a k) = row_masked_differs (header_row_for a b k)"
      using same_header_sym [of "the (mget a k)" "the (mget b k)"]
      by (cases "mget a k"; cases "mget b k";
          force simp: row_differs_def row_masked_differs_def header_row_for_def Let_def)+
  qed
  then show ?thesis using k by (auto simp: compare_headers_def Let_def)
qed

text \<open>The verdicts in their order, as a linear order of the library.\<close>

lemma verdict_rank_inj: "verdict_rank v = verdict_rank w \<Longrightarrow> v = w"
  by (cases v; cases w) simp_all

instantiation verdict :: linorder
begin

definition less_eq_verdict :: "verdict \<Rightarrow> verdict \<Rightarrow> bool" where
  "less_eq_verdict v w \<longleftrightarrow> verdict_rank v \<le> verdict_rank w"

definition less_verdict :: "verdict \<Rightarrow> verdict \<Rightarrow> bool" where
  "less_verdict v w \<longleftrightarrow> verdict_rank v < verdict_rank w"

instance
  by standard (auto simp: less_eq_verdict_def less_verdict_def intro: verdict_rank_inj)

end

lemma identical_least: "Identical \<le> v"
  by (simp add: less_eq_verdict_def)

lemma worst_verdict_Max: "worst_verdict vs = Max (insert Identical (set vs))"
proof -
  have "foldl (\<lambda>w v. if verdict_rank v > verdict_rank w then v else w) w vs = Max (insert w (set vs))" for w
  proof (induction vs arbitrary: w)
    case (Cons v vs)
    have "(if verdict_rank v > verdict_rank w then v else w) = max v w"
      by (auto simp: max_def less_eq_verdict_def intro: verdict_rank_inj)
    moreover have "Max (insert w (set (v # vs))) = Max (insert (max v w) (set vs))"
      by (cases "vs = []") (simp_all add: max.commute max.left_commute)
    ultimately show ?case using Cons.IH by simp
  qed simp
  then show ?thesis by (simp add: worst_verdict_def)
qed

text \<open>
  The verdict of a message is the worst of the verdicts of its key, value and headers, in the
  order identical, equivalent, not comparable, different; in particular it is \<open>identical\<close> only
  when all three are.
\<close>

theorem worst_verdict_max:
  "verdict_rank (worst_verdict vs) = Max (insert 0 (verdict_rank ` set vs)) \<and>
   (worst_verdict [k, v, h] = Identical \<longleftrightarrow> k = Identical \<and> v = Identical \<and> h = Identical)"
proof
  have "mono verdict_rank" by (simp add: mono_def less_eq_verdict_def)
  then show "verdict_rank (worst_verdict vs) = Max (insert 0 (verdict_rank ` set vs))"
    by (simp add: worst_verdict_Max mono_Max_commute)
  have "Max {Identical, k, v, h} = Identical \<longleftrightarrow> (\<forall>x\<in>{Identical, k, v, h}. x \<le> Identical)"
    by (subst Max_eq_iff) auto
  then show "worst_verdict [k, v, h] = Identical \<longleftrightarrow> k = Identical \<and> v = Identical \<and> h = Identical"
    using identical_least by (auto simp: worst_verdict_Max dest: order.antisym)
qed

text \<open>
  C27: The verdict does not depend on which record is on side A: when a compare returns, the
  compare with the sides swapped returns too, with the same verdicts for key, value, headers and
  the message.
\<close>

theorem compare_messages_symmetric:
  assumes "compare_messages parser a b opts = Inr r"
  shows "\<exists>r'. compare_messages parser b a opts = Inr r' \<and> mc_verdict r' = mc_verdict r \<and>
    pc_verdict (mc_key r') = pc_verdict (mc_key r) \<and> pc_verdict (mc_value r') = pc_verdict (mc_value r) \<and>
    hc_verdict (mc_headers r') = hc_verdict (mc_headers r)"
proof -
  obtain k v where kv: "compare_part parser (c_key a) (c_key b) opts (js ''key'') = Inr k"
    "compare_part parser (c_value a) (c_value b) opts (js ''value'') = Inr v"
    and r: "r = \<lparr>mc_verdict = worst_verdict [pc_verdict k, pc_verdict v, hc_verdict (compare_headers (c_headers a) (c_headers b) opts)],
      mc_key = k, mc_value = v, mc_headers = compare_headers (c_headers a) (c_headers b) opts\<rparr>"
    using assms by (auto simp: compare_messages_def bindE_Inr Let_def)
  obtain k' v' where "compare_part parser (c_key b) (c_key a) opts (js ''key'') = Inr k'" "pc_verdict k' = pc_verdict k"
    "compare_part parser (c_value b) (c_value a) opts (js ''value'') = Inr v'" "pc_verdict v' = pc_verdict v"
    using compare_part_sym [OF kv(1)] compare_part_sym [OF kv(2)] by blast
  then show ?thesis
    unfolding r by (simp add: compare_messages_def Let_def compare_headers_sym [of "c_headers b"])
qed

definition value_behind :: "(jstr \<Rightarrow> jstr) \<Rightarrow> part_content \<Rightarrow> jstr \<Rightarrow> bool" where
  "value_behind clip p full \<longleftrightarrow> known_bytes p = Inr (if p_preview p then clip full else full)"

lemma starts_with_refl [simp]: "starts_with s s"
  by (simp add: starts_with_def)

lemma agree_common:
  assumes "value_behind clip a f" "value_behind clip b f" "p_kind a = p_kind b" "starts_with (clip f) f"
  shows "previews_agree a b = Inr True"
  using assms by (auto simp: previews_agree_def value_behind_def)

text \<open>
  C25: A preview is never taken for the value. Let \<open>clip\<close> be the way previews are taken, a prefix
  of the value. When a preview is involved the verdict is \<open>not comparable\<close> or \<open>different\<close>; and when
  it is \<open>different\<close>, the full values cannot be equal: whatever the values behind the two parts
  are, they are of different kinds or differ.
\<close>

theorem compare_preview_sound:
  assumes "compare_part parser a b opts label = Inr r" "p_preview a \<or> p_preview b"
    and "\<And>f. starts_with (clip f) f"
  shows "pc_verdict r \<in> {NotComparable, Different} \<and>
    (pc_verdict r = NotComparable \<or> p_kind a \<noteq> p_kind b \<or>
     {f. value_behind clip a f} \<inter> {f. value_behind clip b f} = {})"
proof -
  obtain m n where "preview_step a b m = Inr (pc_verdict r, n)"
    using assms(1) by (rule compare_partE)
  from preview_step_verdict [OF this assms(2)] show ?thesis
    using agree_common [of clip a _ b] assms(3) by (auto split: if_splits)
qed

theorem compare_preview_sound_witness:
  "\<exists>r. compare_part (\<lambda>_. None) (sample_part (js ''ab'')\<lparr>p_format := FText, p_preview := True\<rparr>)
      (sample_part (js ''acd'')\<lparr>p_format := FText\<rparr>) default_compare_options (js ''value'') = Inr r \<and>
    {f. value_behind (take 2) (sample_part (js ''ab'')\<lparr>p_format := FText, p_preview := True\<rparr>) f} \<inter>
    {f. value_behind (take 2) (sample_part (js ''acd'')\<lparr>p_format := FText\<rparr>) f} = {}"
proof -
  let ?a = "sample_part (js ''ab'')\<lparr>p_format := FText, p_preview := True\<rparr>"
  let ?b = "sample_part (js ''acd'')\<lparr>p_format := FText\<rparr>"
  have "\<exists>r. compare_part (\<lambda>_. None) ?a ?b default_compare_options (js ''value'') = Inr r \<and> pc_verdict r = Different"
    by (simp add: compare_part_def sample_part_def exact_text_def structured_def shared_format_def either_too_large_def
      base_verdict_def same_raw_def mask_step_def preview_step_def previews_agree_def known_bytes_def starts_with_def
      Let_def js_eval)
  then obtain r where r: "compare_part (\<lambda>_. None) ?a ?b default_compare_options (js ''value'') = Inr r" "pc_verdict r = Different"
    by blast
  have p: "p_preview ?a \<or> p_preview ?b" and k: "p_kind ?a = p_kind ?b" by (simp_all add: sample_part_def)
  have t: "starts_with (take 2 f) f" for f by (simp add: starts_with_def min_def)
  from compare_preview_sound [OF r(1) p t] r k show ?thesis by auto
qed

theorem compare_messages_symmetric_witness:
  "\<exists>r. compare_messages (\<lambda>_. None)
      \<lparr>c_key = sample_part (js ''1''), c_value = sample_part (js ''2''), c_headers = []\<rparr>
      \<lparr>c_key = sample_part (js ''1''), c_value = sample_part (js ''2''), c_headers = [(js ''h'', \<lparr>h_text = [], h_b64 = None, h_masked = False\<rparr>)]\<rparr>
      default_compare_options = Inr r \<and> mc_verdict r = Different"
proof -
  let ?m = "\<lambda>h. \<lparr>c_key = sample_part (js ''1''), c_value = sample_part (js ''2''), c_headers = h\<rparr>"
  let ?h = "[(js ''h'', \<lparr>h_text = [], h_b64 = None, h_masked = False\<rparr>)]"
  have d: "document (js ''1'') = Some (JNum (js ''1''))" "document (js ''2'') = Some (JNum (js ''2''))"
    by (simp_all add: json_eval)
  have "\<exists>r. compare_messages (\<lambda>_. None) (?m ?h) (?m []) default_compare_options = Inr r \<and> mc_verdict r = Different"
    by (simp add: compare_messages_def compare_part_def sample_part_def exact_text_def structured_def shared_format_def
      either_too_large_def too_large_for_semantic_def max_semantic_chars_def canon_def canonical_part_def canonical_json_def d
      base_verdict_def same_raw_def mask_step_def preview_step_def Let_def compare_headers_def all_header_keys_def
      default_compare_options_def mkeys_def js_sort_def is_kafkito_header_def lower_ascii_def starts_with_def js_def
      header_row_for_def mget_def row_differs_def worst_verdict_def)
  then obtain r where r: "compare_messages (\<lambda>_. None) (?m ?h) (?m []) default_compare_options = Inr r" "mc_verdict r = Different"
    by blast
  from compare_messages_symmetric [OF r(1)] r(2) show ?thesis by auto
qed

end
