(* ===== verification/Fingerprint.thy ===== *)
theory Fingerprint
  imports MessageCompare
begin

text \<open>
  Message fingerprints (\<open>frontend/src/lib/message-fingerprint.ts\<close>): the options as flags, the
  parser of pasted fingerprints and the bytes that are hashed. SHA-256 and \<open>toLowerCase\<close> are
  parameters; \<open>crypto.subtle\<close> may be absent.
\<close>

record fingerprint_options = compare_options +
  fo_semantic :: bool

definition fp_prefix :: jstr where
  "fp_prefix = js ''kfp1''"

definition fingerprint_flags :: "fingerprint_options \<Rightarrow> jstr" where
  "fingerprint_flags ops =
     (if fo_semantic ops then js ''s'' else js ''x'')
     @ (if fo_semantic ops \<and> ignore_array_order ops then js ''a'' else [])
     @ (if fo_semantic ops \<and> ignore_child_order ops then js ''c'' else [])
     @ (if ignore_kafkito_headers ops then js ''h'' else [])"

text \<open>\<open>/^kfp1:([xsach]+):([0-9a-f]{64})$/\<close>: the flags and the digest.\<close>

definition is_flag :: "cu \<Rightarrow> bool" where
  "is_flag c \<longleftrightarrow> c \<in> set (js ''xsach'')"

definition lower_hex :: "cu \<Rightarrow> bool" where
  "lower_hex c \<longleftrightarrow> (48 \<le> c \<and> c \<le> 57) \<or> (97 \<le> c \<and> c \<le> 102)"

definition match_fingerprint :: "jstr \<Rightarrow> (jstr \<times> jstr) option" where
  "match_fingerprint s =
     (if \<not> starts_with (js ''kfp1:'') s then None
      else let r = drop 5 s; flags = takeWhile is_flag r; r' = dropWhile is_flag r
        in if flags \<noteq> [] \<and> r' \<noteq> [] \<and> hd r' = ch CHR '':'' \<and> length (tl r') = 64 \<and> list_all lower_hex (tl r')
           then Some (flags, tl r') else None)"

definition parse_fingerprint :: "(jstr \<Rightarrow> jstr) \<Rightarrow> jstr \<Rightarrow> (fingerprint_options \<times> jstr) option" where
  "parse_fingerprint to_lower s =
     (case match_fingerprint (to_lower (trim s)) of
        None \<Rightarrow> None
      | Some (flags, hex) \<Rightarrow>
          let semantic = (hd flags = ch CHR ''s'')
          in if \<not> semantic \<and> hd flags \<noteq> ch CHR ''x'' then None
             else let rest = tl flags;
                      ops = \<lparr>ignore_array_order = (ch CHR ''a'' \<in> set rest), ignore_child_order = (ch CHR ''c'' \<in> set rest),
                           ignore_kafkito_headers = (ch CHR ''h'' \<in> set rest), fo_semantic = semantic\<rparr>
               in if fingerprint_flags ops \<noteq> flags then None else Some (ops, hex))"

section \<open>The bytes a fingerprint hashes\<close>

definition bytes_field :: "jstr \<Rightarrow> byte list \<Rightarrow> byte list" where
  "bytes_field tag bs = utf8 (tag @ dec (length bs) @ js '':'') @ bs @ utf8 [10]"

definition write_part :: "dom_parser \<Rightarrow> part_content \<Rightarrow> fingerprint_options \<Rightarrow> js_error + byte list" where
  "write_part parser p ops =
     (case p_kind p of
        KNull \<Rightarrow> Inr (utf8 (js ''N'' @ [10]))
      | KEmpty \<Rightarrow> Inr (utf8 (js ''E'' @ [10]))
      | KBinary \<Rightarrow> bindE (throwing InvalidCharacterError (atob (p_data p))) (\<lambda>bs. Inr (bytes_field (js ''B'') bs))
      | KText \<Rightarrow> bindE (if fo_semantic ops then canonical_part parser p (compare_options.truncate ops) else Inr None)
          (\<lambda>canonical. Inr (bytes_field (js ''T'') (utf8 (opt_or canonical (p_data p))))))"

definition counted_keys :: "fingerprint_options \<Rightarrow> (jstr, header_content) jsmap \<Rightarrow> jstr list" where
  "counted_keys ops headers =
     js_sort (filter (\<lambda>k. \<not> (ignore_kafkito_headers ops \<and> is_kafkito_header k)) (mkeys headers))"

definition write_header_value :: "header_content \<Rightarrow> js_error + byte list" where
  "write_header_value h = (case h_b64 h of
      Some b \<Rightarrow> bindE (throwing InvalidCharacterError (atob b)) (\<lambda>bs. Inr (bytes_field (js ''B'') bs))
    | None \<Rightarrow> Inr (bytes_field (js ''T'') (utf8 (h_text h))))"

fun write_headers :: "(jstr, header_content) jsmap \<Rightarrow> jstr list \<Rightarrow> js_error + byte list" where
  "write_headers headers [] = Inr []"
| "write_headers headers (k # ks) =
     (case mget headers k of
        None \<Rightarrow> write_headers headers ks
      | Some h \<Rightarrow> bindE (write_header_value h) (\<lambda>v.
          bindE (write_headers headers ks) (\<lambda>r. Inr (bytes_field (js ''T'') (utf8 k) @ v @ r))))"

definition fingerprint_input :: "dom_parser \<Rightarrow> message_content \<Rightarrow> fingerprint_options \<Rightarrow> js_error + byte list" where
  "fingerprint_input parser cont ops =
     bindE (write_part parser (c_key cont) ops) (\<lambda>k.
     bindE (write_part parser (c_value cont) ops) (\<lambda>v.
       let keys = counted_keys ops (c_headers cont)
       in bindE (write_headers (c_headers cont) keys) (\<lambda>h.
         Inr (utf8 (fp_prefix @ [10]) @ k @ v @ utf8 (js ''H'' @ dec (length keys) @ [10]) @ h))))"

text \<open>\<open>Inl\<close> in the inner sum is the reason that no fingerprint is given.\<close>

definition message_fingerprint ::
    "dom_parser \<Rightarrow> (byte list \<Rightarrow> byte list) option \<Rightarrow> message_content \<Rightarrow> fingerprint_options \<Rightarrow> js_error + (jstr + jstr)" where
  "message_fingerprint parser sha256 cont ops =
     (if p_preview (c_key cont) \<or> p_preview (c_value cont)
      then Inr (Inl (js ''Only a preview of the value is available.''))
      else if fo_semantic ops \<and> (too_large_for_semantic (c_key cont) \<or> too_large_for_semantic (c_value cont))
      then Inr (Inl (js ''Too large for a semantic fingerprint (over 1 MB); use the exact view.''))
      else case sha256 of
        None \<Rightarrow> Inr (Inl (js ''Fingerprints need kafkito to be served over HTTPS.''))
      | Some digest \<Rightarrow> bindE (fingerprint_input parser cont ops) (\<lambda>bs.
          Inr (Inr (fp_prefix @ js '':'' @ fingerprint_flags ops @ js '':''
            @ concat (map (\<lambda>b. hex_pad 2 (unat b)) (digest bs))))))"

section \<open>Flags\<close>

lemma flag_shape: "fingerprint_flags ops \<noteq> [] \<and> (\<forall>c \<in> set (fingerprint_flags ops). is_flag c)"
  by (auto simp: fingerprint_flags_def is_flag_def js_def)

lemma match_fingerprint_text:
  assumes "flags \<noteq> []" "\<forall>c \<in> set flags. is_flag c" "length hex = 64" "list_all lower_hex hex"
  shows "match_fingerprint (js ''kfp1:'' @ flags @ js '':'' @ hex) = Some (flags, hex)"
proof -
  have "takeWhile is_flag (flags @ js '':'' @ hex) = flags \<and> dropWhile is_flag (flags @ js '':'' @ hex) = js '':'' @ hex"
    using assms(2) by (intro takeWhile_dropWhile_rest) (auto simp: is_flag_def js_def)
  moreover have "drop 5 (js ''kfp1:'' @ x) = x" for x by (simp add: js_def)
  moreover have "starts_with (js ''kfp1:'') (js ''kfp1:'' @ x)" for x by simp
  ultimately show ?thesis
    unfolding match_fingerprint_def Let_def using assms by (simp add: js_def [of "'':''"])
qed

lemma match_fingerprint_Some:
  assumes "match_fingerprint s = Some (flags, hex)"
  shows "s = js ''kfp1:'' @ flags @ js '':'' @ hex \<and> flags \<noteq> [] \<and> length hex = 64 \<and> list_all lower_hex hex"
proof -
  obtain r where r: "s = js ''kfp1:'' @ r"
    using assms by (auto simp: match_fingerprint_def split: if_splits elim: starts_withE)
  have d: "drop 5 s = r" by (simp add: r js_def)
  have c: "flags = takeWhile is_flag r" "dropWhile is_flag r \<noteq> []" "hd (dropWhile is_flag r) = ch CHR '':''"
    "hex = tl (dropWhile is_flag r)" "length hex = 64" "list_all lower_hex hex" "flags \<noteq> []"
    using assms d by (auto simp: match_fingerprint_def Let_def split: if_splits)
  obtain e x where "dropWhile is_flag r = e # x" using c(2) by (cases "dropWhile is_flag r") auto
  then have w: "dropWhile is_flag r = js '':'' @ hex" using c(3,4) by (simp add: js_def)
  have "r = flags @ js '':'' @ hex" by (simp only: c(1) w [symmetric] takeWhile_dropWhile_id)
  with r c(5,6,7) show ?thesis by blast
qed

text \<open>The options a fingerprint stands for: the order options only count with semantic.\<close>

definition effective :: "fingerprint_options \<Rightarrow> fingerprint_options" where
  "effective ops = ops\<lparr>ignore_array_order := fo_semantic ops \<and> ignore_array_order ops,
     ignore_child_order := fo_semantic ops \<and> ignore_child_order ops\<rparr>"

lemma flags_effective [simp]: "fingerprint_flags (effective ops) = fingerprint_flags ops"
  by (auto simp: fingerprint_flags_def effective_def)

lemma flags_decode:
  "let rest = tl (fingerprint_flags ops) in
   \<lparr>ignore_array_order = (ch CHR ''a'' \<in> set rest), ignore_child_order = (ch CHR ''c'' \<in> set rest),
    ignore_kafkito_headers = (ch CHR ''h'' \<in> set rest), fo_semantic = (hd (fingerprint_flags ops) = ch CHR ''s'')\<rparr>
   = effective ops"
  by (cases ops) (auto simp: fingerprint_flags_def effective_def js_def)

lemma flags_inj: "fingerprint_flags x = fingerprint_flags y \<longleftrightarrow> effective x = effective y"
proof
  assume "fingerprint_flags x = fingerprint_flags y"
  then show "effective x = effective y"
    using flags_decode [of x] flags_decode [of y] by (simp add: Let_def)
next
  assume "effective x = effective y"
  then show "fingerprint_flags x = fingerprint_flags y" by (metis flags_effective)
qed

section \<open>Reading the bytes back\<close>

text \<open>What is visible of a part or a header value.\<close>

datatype field = FNull | FEmpty | FBin "byte list" | FTxt "byte list"

fun field_bytes :: "field \<Rightarrow> byte list" where
  "field_bytes FNull = utf8 (js ''N'' @ [10])"
| "field_bytes FEmpty = utf8 (js ''E'' @ [10])"
| "field_bytes (FBin bs) = bytes_field (js ''B'') bs"
| "field_bytes (FTxt bs) = bytes_field (js ''T'') bs"

definition part_view :: "dom_parser \<Rightarrow> fingerprint_options \<Rightarrow> part_content \<Rightarrow> js_error + field" where
  "part_view parser ops p =
     (case p_kind p of
        KNull \<Rightarrow> Inr FNull
      | KEmpty \<Rightarrow> Inr FEmpty
      | KBinary \<Rightarrow> bindE (throwing InvalidCharacterError (atob (p_data p))) (\<lambda>bs. Inr (FBin bs))
      | KText \<Rightarrow> bindE (if fo_semantic ops then canonical_part parser p (compare_options.truncate ops) else Inr None)
          (\<lambda>canonical. Inr (FTxt (utf8 (opt_or canonical (p_data p))))))"

definition header_view :: "header_content \<Rightarrow> js_error + field" where
  "header_view h = (case h_b64 h of
      Some b \<Rightarrow> bindE (throwing InvalidCharacterError (atob b)) (\<lambda>bs. Inr (FBin bs))
    | None \<Rightarrow> Inr (FTxt (utf8 (h_text h))))"

lemma write_part_view: "write_part parser p ops = bindE (part_view parser ops p) (\<lambda>f. Inr (field_bytes f))"
  by (auto simp: write_part_def part_view_def bindE_def split: part_kind.splits sum.splits)

lemma write_header_view: "write_header_value h = bindE (header_view h) (\<lambda>f. Inr (field_bytes f))"
  by (auto simp: write_header_value_def header_view_def bindE_def split: option.splits sum.splits)

abbreviation ascii :: "jstr \<Rightarrow> byte list" where
  "ascii s \<equiv> map (\<lambda>c. of_nat (unat c)) s"

lemma dec_ascii: "c \<in> set (dec n) \<Longrightarrow> unat c < 128"
  using dec_digits [of c n] by (auto simp: is_digit_unat)

lemma utf8_dec_tag: "\<forall>c \<in> set tag. unat c < 128 \<Longrightarrow> unat e < 128 \<Longrightarrow> utf8 (tag @ dec n @ [e]) = ascii tag @ ascii (dec n) @ ascii [e]"
  by (subst utf8_ascii) (auto dest: dec_ascii)

lemma js_small: "utf8 (js ''N'' @ [10]) = [78, 10]" "utf8 (js ''E'' @ [10]) = [69, 10]" "utf8 [10] = [10]"
    "utf8 (fp_prefix @ [10]) = ascii (fp_prefix @ [10])"
  by (subst utf8_ascii; simp add: js_def fp_prefix_def)+

lemma bytes_field_text: 
  "bytes_field (js ''B'') bs = 66 # ascii (dec (length bs)) @ 58 # bs @ [10]"
  "bytes_field (js ''T'') bs = 84 # ascii (dec (length bs)) @ 58 # bs @ [10]"
  using utf8_dec_tag [of "js ''B''" "ch CHR '':''" "length bs"] utf8_dec_tag [of "js ''T''" "ch CHR '':''" "length bs"]
  by (simp_all add: bytes_field_def js_def js_small)

lemma ascii_inj: "\<forall>c \<in> set s. unat c < 128 \<Longrightarrow> \<forall>c \<in> set t. unat c < 128 \<Longrightarrow> ascii s = ascii t \<Longrightarrow> s = t"
proof (induction s arbitrary: t)
  case (Cons c s)
  then obtain d t' where t: "t = d # t'" by (cases t) auto
  have "unat (of_nat (unat c) :: byte) = unat (of_nat (unat d) :: byte)" using Cons.prems(3) t by simp
  moreover have "unat (of_nat (unat c) :: byte) = unat c" "unat (of_nat (unat d) :: byte) = unat d"
    by (rule byte_unat, use Cons.prems(1,2) t in simp)+
  ultimately have "unat c = unat d" by (simp only:)
  then have "c = d" by (simp only: word_unat_eq_iff)
  moreover have "s = t'"
  proof (rule Cons.IH)
    show "\<forall>c \<in> set s. unat c < 128" using Cons.prems(1) by (meson list.set_intros(2))
    show "\<forall>c \<in> set t'. unat c < 128" using Cons.prems(2) unfolding t by (meson list.set_intros(2))
    show "ascii s = ascii t'" using Cons.prems(3) unfolding t list.map list.inject by blast
  qed
  ultimately show ?case unfolding t by (simp only:)
qed simp

text \<open>Two numbers in decimal before the same separator agree.\<close>

lemma dec_split: 
  assumes "ascii (dec m) @ e # x = ascii (dec n) @ e # y" "e \<in> {58, 10}"
  shows "m = n \<and> x = y"
proof -
  have d: "\<forall>b \<in> set (ascii (dec k)). b \<noteq> e" for k
  proof
    fix b assume "b \<in> set (ascii (dec k))"
    then obtain c where c: "c \<in> set (dec k)" "b = of_nat (unat c)" by auto
    then have "48 \<le> unat c" "unat c \<le> 57" using dec_digits [of c k] by (auto simp: is_digit_unat)
    then have "unat b = unat c" unfolding c(2) by (intro byte_unat) simp
    with \<open>48 \<le> unat c\<close> \<open>unat c \<le> 57\<close> show "b \<noteq> e" using assms(2) by auto
  qed
  have tw: "takeWhile (\<lambda>b. b \<noteq> e) (ascii (dec k) @ e # z) = ascii (dec k)"
    "dropWhile (\<lambda>b. b \<noteq> e) (ascii (dec k) @ e # z) = e # z" for k z
    using takeWhile_dropWhile_rest [of "ascii (dec k)" "\<lambda>b. b \<noteq> e" "e # z"] d by auto
  have "ascii (dec m) = ascii (dec n)" using tw(1) [of m x] tw(1) [of n y] assms(1) by simp
  then have "dec m = dec n" by (rule ascii_inj [rotated 2]) (auto dest: dec_ascii)
  then have "m = n" by simp
  moreover have "e # x = e # y" using tw(2) [of m x] tw(2) [of n y] assms(1) by simp
  ultimately show ?thesis by simp
qed

text \<open>A field is read back from the front of any text.\<close>

lemma field_unique: "field_bytes f @ x = field_bytes g @ y \<Longrightarrow> f = g \<and> x = y"
proof (cases f; cases g)
  fix bs cs assume "field_bytes f @ x = field_bytes g @ y" "f = FBin bs" "g = FBin cs"
  then have e: "ascii (dec (length bs)) @ 58 # bs @ 10 # x = ascii (dec (length cs)) @ 58 # cs @ 10 # y"
    by (simp add: bytes_field_text)
  from dec_split [OF e] \<open>f = FBin bs\<close> \<open>g = FBin cs\<close> show "f = g \<and> x = y" by auto
next
  fix bs cs assume "field_bytes f @ x = field_bytes g @ y" "f = FTxt bs" "g = FTxt cs"
  then have e: "ascii (dec (length bs)) @ 58 # bs @ 10 # x = ascii (dec (length cs)) @ 58 # cs @ 10 # y"
    by (simp add: bytes_field_text)
  from dec_split [OF e] \<open>f = FTxt bs\<close> \<open>g = FTxt cs\<close> show "f = g \<and> x = y" by auto
qed (simp_all add: bytes_field_text js_small)

text \<open>A sequence of fields is read back from the end of a text.\<close>

lemma field_bytes_nonempty: "field_bytes f \<noteq> []"
  by (cases f) (simp_all add: js_small bytes_field_text)

fun header_bytes :: "(byte list \<times> field) list \<Rightarrow> byte list" where
  "header_bytes [] = []"
| "header_bytes ((k, f) # hs) = field_bytes (FTxt k) @ field_bytes f @ header_bytes hs"

lemma header_bytes_inj: "header_bytes hs = header_bytes hs' \<Longrightarrow> hs = hs'"
proof (induction hs arbitrary: hs' rule: header_bytes.induct)
  case 1
  then show ?case by (cases hs' rule: header_bytes.cases) (simp_all add: bytes_field_text)
next
  case (2 k f hs)
  show ?case
  proof (cases hs' rule: header_bytes.cases)
    case 1
    with 2 show ?thesis by (simp add: bytes_field_text)
  next
    case (2 k' f' gs)
    with "2.prems" have e: "field_bytes (FTxt k) @ field_bytes f @ header_bytes hs =
        field_bytes (FTxt k') @ field_bytes f' @ header_bytes gs" by (simp only: header_bytes.simps)
    from field_unique [OF e] have k: "k = k'" and r: "field_bytes f @ header_bytes hs = field_bytes f' @ header_bytes gs"
      by auto
    from field_unique [OF r] "2.IH" [of gs] k 2 show ?thesis by auto
  qed
qed

text \<open>The headers a fingerprint covers, in its order, each with its value.\<close>

fun header_views :: "(jstr, header_content) jsmap \<Rightarrow> jstr list \<Rightarrow> js_error + (byte list \<times> field) list" where
  "header_views headers [] = Inr []"
| "header_views headers (k # ks) =
     (case mget headers k of
        None \<Rightarrow> header_views headers ks
      | Some h \<Rightarrow> bindE (header_view h) (\<lambda>v. bindE (header_views headers ks) (\<lambda>r. Inr ((utf8 k, v) # r))))"

lemma write_headers_views:
  "write_headers headers ks = bindE (header_views headers ks) (\<lambda>r. Inr (header_bytes r))"
  by (induction ks) (auto simp: write_header_view bindE_def split: option.splits sum.splits)

definition record_view :: "dom_parser \<Rightarrow> fingerprint_options \<Rightarrow> message_content \<Rightarrow>
    js_error + field \<times> field \<times> (byte list \<times> field) list" where
  "record_view parser ops cont =
     bindE (part_view parser ops (c_key cont)) (\<lambda>k. bindE (part_view parser ops (c_value cont)) (\<lambda>v.
     bindE (header_views (c_headers cont) (counted_keys ops (c_headers cont))) (\<lambda>h. Inr (k, v, h))))"

lemma header_views_length:
  "header_views headers ks = Inr r \<Longrightarrow> set ks \<subseteq> set (mkeys headers) \<Longrightarrow> length r = length ks"
  by (induction ks arbitrary: r) (auto simp: bindE_Inr mget_in_mkeys [symmetric] split: option.splits)

lemma counted_keys_subset: "set (counted_keys ops headers) \<subseteq> set (mkeys headers)"
  by (auto simp: counted_keys_def)

definition view_bytes :: "field \<times> field \<times> (byte list \<times> field) list \<Rightarrow> byte list" where
  "view_bytes r = (case r of (k, v, h) \<Rightarrow> utf8 (fp_prefix @ [10]) @ field_bytes k @ field_bytes v
     @ utf8 (js ''H'' @ dec (length h) @ [10]) @ header_bytes h)"

lemma fingerprint_input_view:
  "fingerprint_input parser cont ops = bindE (record_view parser ops cont) (\<lambda>r. Inr (view_bytes r))"
  using header_views_length [OF _ counted_keys_subset]
  by (auto simp: fingerprint_input_def record_view_def write_part_view write_headers_views Let_def view_bytes_def
      bindE_def split: sum.splits)

lemma view_bytes_inj: "view_bytes r = view_bytes r' \<Longrightarrow> r = r'"
proof -
  assume a: "view_bytes r = view_bytes r'"
  obtain k v h k' v' h' where r: "r = (k, v, h)" "r' = (k', v', h')" by (cases r; cases r') auto
  have hd: "utf8 (js ''H'' @ dec n @ [10]) = 72 # ascii (dec n) @ [10]" for n
    using utf8_dec_tag [of "js ''H''" 10 n] by (simp add: js_def)
  from a have e: "field_bytes k @ field_bytes v @ 72 # ascii (dec (length h)) @ 10 # header_bytes h =
      field_bytes k' @ field_bytes v' @ 72 # ascii (dec (length h')) @ 10 # header_bytes h'"
    by (simp add: view_bytes_def r hd)
  from field_unique [OF e] have k: "k = k'" and e2: "field_bytes v @ 72 # ascii (dec (length h)) @ 10 # header_bytes h =
      field_bytes v' @ 72 # ascii (dec (length h')) @ 10 # header_bytes h'" by auto
  from field_unique [OF e2] have v: "v = v'" and e3: "ascii (dec (length h)) @ 10 # header_bytes h =
      ascii (dec (length h')) @ 10 # header_bytes h'" by auto
  from dec_split [OF e3] header_bytes_inj k v r show "r = r'" by auto
qed

text \<open>
  C31: No two different records serialize alike: whatever the options, the hashed bytes of two
  records are equal exactly when their keys, their values and their counted headers in key order
  read the same (absent, empty, these bytes, or this text).
\<close>

theorem fingerprint_input_injective:
  assumes "fingerprint_input parser x ox = Inr a" "fingerprint_input parser y oy = Inr b"
  shows "a = b \<longleftrightarrow> record_view parser ox x = record_view parser oy y"
proof -
  obtain v w where "record_view parser ox x = Inr v" "a = view_bytes v" "record_view parser oy y = Inr w" "b = view_bytes w"
    using assms by (auto simp: fingerprint_input_view bindE_Inr)
  then show ?thesis using view_bytes_inj [of v w] by auto
qed

definition sample_content :: "jstr \<Rightarrow> message_content" where
  "sample_content v = (let p = \<lparr>p_kind = KText, p_data = v, p_format = FText, p_masked = False, p_preview = False\<rparr>
     in \<lparr>c_key = p\<lparr>p_kind := KNull\<rparr>, c_value = p, c_headers = [(js ''h'', \<lparr>h_text = [], h_b64 = None, h_masked = False\<rparr>)]\<rparr>)"

definition exact_options :: fingerprint_options where
  "exact_options = \<lparr>ignore_array_order = False, ignore_child_order = False, ignore_kafkito_headers = True, fo_semantic = False\<rparr>"

lemmas fingerprint_eval = fingerprint_input_view record_view_def part_view_def counted_keys_def js_sort_def
  is_kafkito_header_def lower_ascii_def starts_with_def mget_def mkeys_def header_view_def utf8_def utf8_bytes_def
  hi_sur_def lo_sur_def view_bytes_def bytes_field_def fp_prefix_def js_eval

theorem fingerprint_input_injective_witness:
  "\<exists>a b. fingerprint_input (\<lambda>_. None) (sample_content (js ''x'')) exact_options = Inr a \<and>
     fingerprint_input (\<lambda>_. None) (sample_content (js ''y'')) exact_options = Inr b \<and> a \<noteq> b"
proof -
  have v: "record_view (\<lambda>_. None) exact_options (sample_content (js [c])) =
      Inr (FNull, FTxt (utf8 (js [c])), [(utf8 (js ''h''), FTxt [])])" for c
    by (simp add: record_view_def part_view_def counted_keys_def js_sort_def sample_content_def exact_options_def Let_def
        is_kafkito_header_def lower_ascii_def starts_with_def mget_def mkeys_def header_view_def js_def)
       (simp add: utf8_def)
  have "utf8 (js ''x'') \<noteq> utf8 (js ''y'')"
    by (simp add: utf8_def utf8_bytes_def hi_sur_def lo_sur_def js_def)
  moreover have "\<exists>a. fingerprint_input (\<lambda>_. None) (sample_content (js [c])) exact_options = Inr a" for c
    by (simp add: fingerprint_input_view v)
  ultimately show ?thesis
    using fingerprint_input_injective [of "\<lambda>_. None" "sample_content (js ''x'')" exact_options _ "sample_content (js ''y'')"]
    by (metis v Inr_inject Pair_inject field.inject(2))
qed

section \<open>Reading a fingerprint back\<close>

text \<open>
  A pasted text is read as a fingerprint with these options and this digest exactly when,
  trimmed and in lower case, it is the fingerprint the program prints for them: the flags in their
  one canonical form and 64 lower-case hexadecimal digits. So every printed fingerprint parses
  back, and no other spelling of the flags is accepted.
\<close>

theorem parse_fingerprint_iff:
  "parse_fingerprint to_lower s = Some (ops, hex) \<longleftrightarrow>
     to_lower (trim s) = fp_prefix @ js '':'' @ fingerprint_flags ops @ js '':'' @ hex \<and>
     effective ops = ops \<and> length hex = 64 \<and> list_all lower_hex hex"
proof
  have pre: "fp_prefix @ js '':'' @ x = js ''kfp1:'' @ x" for x by (simp add: fp_prefix_def js_def)
  {
    assume "parse_fingerprint to_lower s = Some (ops, hex)"
    then obtain flags where m: "match_fingerprint (to_lower (trim s)) = Some (flags, hex)"
      and f: "fingerprint_flags ops = flags" "hd flags = ch CHR ''s'' \<or> hd flags = ch CHR ''x''"
      and o: "ops = \<lparr>ignore_array_order = (ch CHR ''a'' \<in> set (tl flags)), ignore_child_order = (ch CHR ''c'' \<in> set (tl flags)),
          ignore_kafkito_headers = (ch CHR ''h'' \<in> set (tl flags)), fo_semantic = (hd flags = ch CHR ''s'')\<rparr>"
      by (auto simp: parse_fingerprint_def Let_def split: option.splits if_splits)
    have "effective ops = ops" using flags_decode [of ops] o unfolding f(1) Let_def by simp
    with match_fingerprint_Some [OF m] f(1)
    show "to_lower (trim s) = fp_prefix @ js '':'' @ fingerprint_flags ops @ js '':'' @ hex \<and>
        effective ops = ops \<and> length hex = 64 \<and> list_all lower_hex hex" by (simp only: pre)
  }
  assume a: "to_lower (trim s) = fp_prefix @ js '':'' @ fingerprint_flags ops @ js '':'' @ hex \<and>
     effective ops = ops \<and> length hex = 64 \<and> list_all lower_hex hex"
  then have m: "match_fingerprint (to_lower (trim s)) = Some (fingerprint_flags ops, hex)"
    using match_fingerprint_text [of "fingerprint_flags ops" hex] flag_shape [of ops] unfolding pre by simp
  have "hd (fingerprint_flags ops) = (if fo_semantic ops then ch CHR ''s'' else ch CHR ''x'')"
    by (simp add: fingerprint_flags_def js_def)
  with a m flags_decode [of ops] show "parse_fingerprint to_lower s = Some (ops, hex)"
    by (auto simp: parse_fingerprint_def Let_def)
qed

end
