(* ===== verification/Utf8Valid.thy ===== *)
theory Utf8Valid
  imports Bytes
begin

text \<open>
  The converse of the UTF-8 round trip: bytes that are valid UTF-8 are the encoding of the string
  they decode to. Only the lemmas \<open>utf8_wire_string\<close> and \<open>wire_string_empty\<close> are used outside.
\<close>

section \<open>Valid UTF-8 is read back\<close>

text \<open>A Go string that is valid UTF-8, as the JavaScript string the JSON response carries.\<close>

definition utf8_valid :: "byte list \<Rightarrow> bool" where
  "utf8_valid bs \<longleftrightarrow> None \<notin> set (u8_start bs)"

definition wire_string :: "byte list \<Rightarrow> jstr" where
  "wire_string bs = concat (map (\<lambda>x. utf16 (the x)) (u8_start bs))"

lemma byte_of_nat: "lo \<le> unat (b :: byte) \<Longrightarrow> \<exists>m. b = of_nat (lo + m) \<and> unat b = lo + m"
  by (metis le_add_diff_inverse of_nat_byte)

lemma u8_cont_inv:
  assumes "None \<notin> set (u8 need cp lo hi bs)" "0 < need" "0x80 \<le> lo" "hi \<le> 0xBF"
  shows "\<exists>m r. bs = of_nat (0x80 + m) # r \<and> m < 64 \<and> lo \<le> 0x80 + m \<and> 0x80 + m \<le> hi \<and>
    u8 need cp lo hi bs = (if need = 1 then Some (cp * 64 + m) # u8_start r else u8 (need - 1) (cp * 64 + m) 0x80 0xBF r)"
proof (cases bs)
  case Nil
  with assms show ?thesis by simp
next
  case (Cons b r)
  have "\<not> (unat b < lo \<or> hi < unat b)"
    using assms(1,2) unfolding Cons by (subst (asm) u8.simps(2)) (auto simp: Let_def)
  then have r: "lo \<le> unat b" "unat b \<le> hi" by auto
  then obtain m where m: "b = of_nat (0x80 + m)" "unat b = 0x80 + m"
    using byte_of_nat [of "0x80" b] assms(3) by auto
  have b: "m < 64" "lo \<le> 0x80 + m" "0x80 + m \<le> hi" using r assms(4) unfolding m(2) by simp_all
  have "u8 need cp lo hi (of_nat (0x80 + m) # r) =
      (if need = 1 then Some (cp * 64 + m) # u8_start r else u8 (need - 1) (cp * 64 + m) 0x80 0xBF r)"
    by (rule u8_cont [OF b assms(2)])
  then show ?thesis using b unfolding Cons m(1) by blast
qed

lemma q64: "m < 64 \<Longrightarrow> (x * 64 + m) div 64 = (x :: nat)" "m < 64 \<Longrightarrow> (x * 64 + m) mod 64 = (m :: nat)"
  by simp_all

lemma le64: "x \<le> a \<Longrightarrow> m < 64 \<Longrightarrow> x * 64 + m \<le> a * 64 + (63 :: nat)"
  by simp

lemma utf8_bytes_two: "2 \<le> q \<Longrightarrow> q < 32 \<Longrightarrow> m < 64 \<Longrightarrow>
    scalar (q * 64 + m) \<and> utf8_bytes (q * 64 + m) = [of_nat (0xC0 + q), of_nat (0x80 + m)]"
proof -
  assume a: "2 \<le> q" "q < 32" "m < 64"
  have "(q * 64 + m) div 64 = q" "(q * 64 + m) mod 64 = m" using a by simp_all
  moreover have "\<not> q * 64 + m < 0x80" "q * 64 + m < 0x800" using a by linarith+
  ultimately show ?thesis by (simp add: utf8_bytes_def scalar_def hi_sur_def lo_sur_def del: of_nat_add)
qed

lemma utf8_bytes_three:
  assumes "q < 16" "m < 64" "l < 64" "q = 0 \<Longrightarrow> 32 \<le> m" "q = 13 \<Longrightarrow> m < 32"
  shows "scalar ((q * 64 + m) * 64 + l) \<and>
    utf8_bytes ((q * 64 + m) * 64 + l) = [of_nat (0xE0 + q), of_nat (0x80 + m), of_nat (0x80 + l)]"
proof -
  let ?n = "(q * 64 + m) * 64 + l"
  have d: "?n div 64 = q * 64 + m" "?n mod 64 = l" "(q * 64 + m) div 64 = q" "(q * 64 + m) mod 64 = m" by (simp_all only: q64 assms)
  have "?n div 4096 = ?n div 64 div 64" by (simp add: div_mult2_eq [symmetric])
  then have d2: "?n div 4096 = q" by (simp only: d)
  have r: "0x800 \<le> ?n" using assms(4) by (cases "q = 0") auto
  have "q * 64 + m \<le> 1023" using assms(1,2) by linarith
  from le64 [OF this assms(3)] have s: "?n < 0x10000" by simp
  have "\<not> (0xD800 \<le> ?n \<and> ?n \<le> 0xDFFF)"
  proof
    assume b: "0xD800 \<le> ?n \<and> ?n \<le> 0xDFFF"
    then have "0xD800 div 4096 \<le> ?n div 4096" "?n div 4096 \<le> 0xDFFF div 4096" by (simp_all only: div_le_mono)
    then have "q = 13" unfolding d2 by simp
    then have "q * 64 + m \<le> 863" using assms(5) by simp
    from le64 [OF this assms(3)] b show False by simp
  qed
  then have "scalar ?n" using s by (auto simp: scalar_def hi_sur_def lo_sur_def)
  then show ?thesis using r s unfolding utf8_bytes_def by (simp only: d d2 if_False not_less) simp
qed

lemma utf8_bytes_four:
  assumes "q \<le> 4" "m < 64" "l < 64" "k < 64" "q = 0 \<Longrightarrow> 16 \<le> m" "q = 4 \<Longrightarrow> m < 16"
  shows "scalar (((q * 64 + m) * 64 + l) * 64 + k) \<and>
    utf8_bytes (((q * 64 + m) * 64 + l) * 64 + k) = [of_nat (0xF0 + q), of_nat (0x80 + m), of_nat (0x80 + l), of_nat (0x80 + k)]"
proof -
  let ?n = "((q * 64 + m) * 64 + l) * 64 + k"
  have d: "?n div 64 = (q * 64 + m) * 64 + l" "?n mod 64 = k" "((q * 64 + m) * 64 + l) div 64 = q * 64 + m"
    "((q * 64 + m) * 64 + l) mod 64 = l" "(q * 64 + m) div 64 = q" "(q * 64 + m) mod 64 = m" by (simp_all only: q64 assms)
  have "?n div 4096 = ?n div 64 div 64" "?n div 262144 = ?n div 64 div 64 div 64" by (simp_all add: div_mult2_eq [symmetric])
  with d have d2: "?n div 4096 = q * 64 + m" "?n div 262144 = q" by simp_all
  have r: "0x10000 \<le> ?n" using assms(5) by (cases "q = 0") auto
  have s: "?n < 0x110000"
  proof (cases "q = 4")
    case True
    with assms(3,4,6) show ?thesis by simp
  next
    case False
    then have "q * 64 + m \<le> 255" using assms(1,2) by linarith
    from le64 [OF le64 [OF this assms(3)] assms(4)] show ?thesis by simp
  qed
  have "scalar ?n" using r s by (auto simp: scalar_def hi_sur_def lo_sur_def)
  then show ?thesis using r unfolding utf8_bytes_def by (simp only: d d2 if_False not_less) simp
qed

lemma u8_start_inv:
  assumes "None \<notin> set (u8_start bs)" "bs \<noteq> []"
  shows "\<exists>n r. scalar n \<and> bs = utf8_bytes n @ r \<and> u8_start bs = Some n # u8_start r"
proof -
  obtain b t where bs: "bs = b # t" using assms(2) by (cases bs) auto
  have v: "None \<notin> set (u8 0 0 0x80 0xBF (b # t))" using assms(1) bs by (simp add: u8_start_def)
  consider (one) "unat b < 0x80" | (two) "0xC2 \<le> unat b" "unat b \<le> 0xDF" | (three) "0xE0 \<le> unat b" "unat b \<le> 0xEF"
    | (four) "0xF0 \<le> unat b" "unat b \<le> 0xF4" | (bad) "0x80 \<le> unat b" "unat b < 0xC2 \<or> 0xF4 < unat b"
    by linarith
  then show ?thesis
  proof cases
    case one
    then have "u8_start bs = Some (unat b) # u8_start t" using u8_lead(1) [of "unat b" t] bs by simp
    moreover have "scalar (unat b)" "utf8_bytes (unat b) = [b]" using one
      by (simp_all add: scalar_def hi_sur_def lo_sur_def utf8_bytes_def)
    ultimately show ?thesis using bs by auto
  next
    case two
    then obtain q where q: "b = of_nat (0xC0 + q)" "unat b = 0xC0 + q" using byte_of_nat [of "0xC0" b] by auto
    then have q2: "2 \<le> q" "q < 32" using two by simp_all
    have l: "u8_start bs = u8 1 q 0x80 0xBF t" unfolding bs q(1) by (rule u8_lead(2) [OF q2])
    have n: "None \<notin> set (u8 1 q 0x80 0xBF t)" using assms(1) unfolding l .
    obtain m r where m: "t = of_nat (0x80 + m) # r" "m < 64" "u8 1 q 0x80 0xBF t = Some (q * 64 + m) # u8_start r"
      using u8_cont_inv [OF n] by auto
    have u: "scalar (q * 64 + m)" "utf8_bytes (q * 64 + m) = [of_nat (0xC0 + q), of_nat (0x80 + m)]"
      using utf8_bytes_two [OF q2 m(2)] by simp_all
    have "bs = utf8_bytes (q * 64 + m) @ r" unfolding u(2) bs m(1) q(1) by simp
    with u(1) l m(3) show ?thesis by metis
  next
    case three
    then obtain q where q: "b = of_nat (0xE0 + q)" "unat b = 0xE0 + q" using byte_of_nat [of "0xE0" b] by auto
    then have q2: "q < 16" using three by simp
    let ?lo = "if q = 0 then 0xA0 else 0x80 :: nat" and ?hi = "if q = 13 then 0x9F else 0xBF :: nat"
    have l: "u8_start bs = u8 2 q ?lo ?hi t" unfolding bs q(1) by (rule u8_lead(3) [OF q2])
    have c: "0x80 \<le> ?lo" "?hi \<le> 0xBF" by simp_all
    have n: "None \<notin> set (u8 2 q ?lo ?hi t)" using assms(1) unfolding l .
    obtain m r where m: "t = of_nat (0x80 + m) # r" "m < 64" "?lo \<le> 0x80 + m" "0x80 + m \<le> ?hi"
        "u8 2 q ?lo ?hi t = (if (2 :: nat) = 1 then Some (q * 64 + m) # u8_start r else u8 (2 - 1) (q * 64 + m) 0x80 0xBF r)"
      using u8_cont_inv [OF n _ c] by (metis zero_less_numeral)
    then have m5: "u8 2 q ?lo ?hi t = u8 1 (q * 64 + m) 0x80 0xBF r" by simp
    have n2: "None \<notin> set (u8 1 (q * 64 + m) 0x80 0xBF r)" using n unfolding m5 .
    obtain k r' where k: "r = of_nat (0x80 + k) # r'" "k < 64" 
        "u8 1 (q * 64 + m) 0x80 0xBF r = Some ((q * 64 + m) * 64 + k) # u8_start r'"
      using u8_cont_inv [OF n2] by auto
    have "q = 0 \<Longrightarrow> 32 \<le> m" "q = 13 \<Longrightarrow> m < 32" using m(3,4) by simp_all
    from utf8_bytes_three [OF q2 m(2) k(2) this] have u: "scalar ((q * 64 + m) * 64 + k)"
      "utf8_bytes ((q * 64 + m) * 64 + k) = [of_nat (0xE0 + q), of_nat (0x80 + m), of_nat (0x80 + k)]" by simp_all
    have "bs = utf8_bytes ((q * 64 + m) * 64 + k) @ r'" unfolding u(2) bs m(1) k(1) q(1) by simp
    with u(1) l m5 k(3) show ?thesis by metis
  next
    case four
    then obtain q where q: "b = of_nat (0xF0 + q)" "unat b = 0xF0 + q" using byte_of_nat [of "0xF0" b] by auto
    then have q2: "q \<le> 4" using four by simp
    let ?lo = "if q = 0 then 0x90 else 0x80 :: nat" and ?hi = "if q = 4 then 0x8F else 0xBF :: nat"
    have l: "u8_start bs = u8 3 q ?lo ?hi t" unfolding bs q(1) by (rule u8_lead(4) [OF q2])
    have c: "0x80 \<le> ?lo" "?hi \<le> 0xBF" by simp_all
    have n: "None \<notin> set (u8 3 q ?lo ?hi t)" using assms(1) unfolding l .
    obtain m r where m: "t = of_nat (0x80 + m) # r" "m < 64" "?lo \<le> 0x80 + m" "0x80 + m \<le> ?hi"
        "u8 3 q ?lo ?hi t = (if (3 :: nat) = 1 then Some (q * 64 + m) # u8_start r else u8 (3 - 1) (q * 64 + m) 0x80 0xBF r)"
      using u8_cont_inv [OF n _ c] by (metis zero_less_numeral)
    then have m5: "u8 3 q ?lo ?hi t = u8 2 (q * 64 + m) 0x80 0xBF r" by simp
    have n2: "None \<notin> set (u8 2 (q * 64 + m) 0x80 0xBF r)" using n unfolding m5 .
    obtain k r' where k: "r = of_nat (0x80 + k) # r'" "k < 64" 
        "u8 2 (q * 64 + m) 0x80 0xBF r = u8 1 ((q * 64 + m) * 64 + k) 0x80 0xBF r'"
      using u8_cont_inv [OF n2] by auto
    have n3: "None \<notin> set (u8 1 ((q * 64 + m) * 64 + k) 0x80 0xBF r')" using n2 unfolding k(3) .
    obtain j s where j: "r' = of_nat (0x80 + j) # s" "j < 64" 
        "u8 1 ((q * 64 + m) * 64 + k) 0x80 0xBF r' = Some (((q * 64 + m) * 64 + k) * 64 + j) # u8_start s"
      using u8_cont_inv [OF n3] by auto
    have "q = 0 \<Longrightarrow> 16 \<le> m" "q = 4 \<Longrightarrow> m < 16" using m(3,4) by simp_all
    from utf8_bytes_four [OF q2 m(2) k(2) j(2) this] have u: "scalar (((q * 64 + m) * 64 + k) * 64 + j)"
      "utf8_bytes (((q * 64 + m) * 64 + k) * 64 + j) =
        [of_nat (0xF0 + q), of_nat (0x80 + m), of_nat (0x80 + k), of_nat (0x80 + j)]" by simp_all
    have "bs = utf8_bytes (((q * 64 + m) * 64 + k) * 64 + j) @ s" unfolding u(2) bs m(1) k(1) j(1) q(1) by simp
    with u(1) l m5 k(3) j(3) show ?thesis by metis
  next
    case bad
    then have "u8_start bs = None # u8_start t" unfolding bs u8_start_def
      by (subst u8.simps(2)) (auto simp: Let_def)
    with assms(1) show ?thesis by simp
  qed
qed

lemma utf8_valid_scalars: "utf8_valid bs \<Longrightarrow> \<exists>ns. (\<forall>n \<in> set ns. scalar n) \<and> bs = concat (map utf8_bytes ns)"
proof (induction "length bs" arbitrary: bs rule: less_induct)
  case less
  show ?case
  proof (cases "bs = []")
    case True
    then show ?thesis by (intro exI [of _ "[]"]) simp
  next
    case False
    then obtain n r where n: "scalar n" "bs = utf8_bytes n @ r" "u8_start bs = Some n # u8_start r"
      using u8_start_inv [of bs] less.prems by (auto simp: utf8_valid_def)
    have "0 < length (utf8_bytes n)" by (simp add: utf8_bytes_def)
    then have "length r < length bs" using n(2) by simp
    moreover have "utf8_valid r" using less.prems n(3) by (simp add: utf8_valid_def)
    ultimately obtain ns where "\<forall>n \<in> set ns. scalar n" "r = concat (map utf8_bytes ns)" using less.hyps by blast
    with n show ?thesis by (intro exI [of _ "n # ns"]) simp
  qed
qed

lemma scalars_utf16: "scalar n \<Longrightarrow> scalars (utf16 n @ s) = n # scalars s"
proof -
  assume s: "scalar n"
  show ?thesis
  proof (cases "n < 0x10000")
    case True
    then have u: "utf16 n = [of_nat n]" "unat (of_nat n :: cu) = n" by (simp_all add: utf16_def unat_of_nat)
    show ?thesis
    proof (cases s)
      case Nil
      with u s \<open>scalar n\<close> show ?thesis by (simp add: scalar_def del: of_nat_numeral)
    next
      case (Cons d r)
      with u \<open>scalar n\<close> show ?thesis by (simp add: scalar_def)
    qed
  next
    case False
    let ?h = "(n - 0x10000) div 1024" and ?l = "(n - 0x10000) mod 1024"
    have b: "?h < 1024" "?l < 1024" using s by (auto simp: scalar_def)
    have w: "unat (of_nat (0xD800 + ?h) :: cu) = 0xD800 + ?h" "unat (of_nat (0xDC00 + ?l) :: cu) = 0xDC00 + ?l"
      using b by (simp_all add: unat_of_nat del: of_nat_add)
    have "0x10000 + ?h * 1024 + ?l = n" using False by simp
    then show ?thesis using False b
      unfolding utf16_def by (simp add: w hi_sur_def lo_sur_def del: of_nat_add)
  qed
qed

lemma scalars_concat: "\<forall>n \<in> set ns. scalar n \<Longrightarrow> scalars (concat (map utf16 ns)) = ns"
  by (induction ns) (auto simp: scalars_utf16)

lemma utf8_wire_string: "utf8_valid bs \<Longrightarrow> utf8 (wire_string bs) = bs"
proof -
  assume "utf8_valid bs"
  then obtain ns where ns: "\<forall>n \<in> set ns. scalar n" "bs = concat (map utf8_bytes ns)" using utf8_valid_scalars by blast
  then have "wire_string bs = concat (map utf16 ns)" by (simp add: wire_string_def u8_utf8 comp_def)
  with ns show ?thesis by (simp add: utf8_def scalars_concat)
qed

lemma wire_string_empty: "utf8_valid bs \<Longrightarrow> wire_string bs = [] \<longleftrightarrow> bs = []"
  using utf8_wire_string [of bs] by (metis concat.simps(1) list.map(1) scalars.simps(1) u8.simps(1) u8_start_def utf8_def wire_string_def)

end
