(* ===== verification/ProduceEncoding.thy ===== *)
theory ProduceEncoding
  imports Message Utf8Valid
begin

text \<open>
  Replaying a consumed record (\<open>frontend/src/lib/produce-encoding.ts\<close>) between its two server
  ends: how the consumer renders a payload (\<open>decodeBytes\<close>, \<open>internal/kafka/record_decode.go\<close>) and
  how the produce API reads one (\<open>decodeProducePayload\<close>, \<open>internal/kafka/produce.go\<close>). A Go byte
  slice that may be nil is an option. Go's \<open>json.Valid\<close> and XML tokenizer are parameters.
\<close>

section \<open>The replay side\<close>

datatype produce_encoding = PText | PBase64 | PEmpty

type_synonym produce_payload = "jstr \<times> produce_encoding"

definition is_sr_encoding :: "jstr \<Rightarrow> bool" where
  "is_sr_encoding e \<longleftrightarrow> e \<in> set [js ''avro'', js ''json_schema'', js ''protobuf'']"

definition truthy_str :: "jstr option \<Rightarrow> bool" where
  "truthy_str s \<longleftrightarrow> s \<noteq> None \<and> s \<noteq> Some []"

definition produce_encoding_for :: "jstr option \<Rightarrow> jstr option \<Rightarrow> jstr \<Rightarrow> produce_payload option" where
  "produce_encoding_for rendered b64 encoding =
     (if encoding = js ''avro'' \<or> encoding = js ''json_schema'' \<or> encoding = js ''protobuf'' then None
      else if encoding = js ''binary'' then
        (if truthy_str b64 then Some (the b64, PBase64)
         else if \<not> truthy_str rendered then Some ([], PEmpty)
         else None)
      else if encoding = js ''empty'' then Some ([], PEmpty)
      else if encoding = js ''null'' then Some ([], PText)
      else Some (opt_or rendered [], PText))"

definition field_block_reason :: "jstr \<Rightarrow> jstr option \<Rightarrow> jstr option \<Rightarrow> jstr \<Rightarrow> bool \<Rightarrow> jstr option" where
  "field_block_reason field rendered b64 encoding has_sr =
     (if produce_encoding_for rendered b64 encoding \<noteq> None then None
      else if is_sr_encoding encoding \<or> has_sr then
        Some (js ''Schema-Registry-decoded '' @ field @ js '': the original wire-format bytes are not available, so this message cannot be replayed byte-for-byte.'')
      else Some (js ''Binary '' @ field @ js '': only a truncated preview of the raw bytes is available, so this message cannot be replayed byte-for-byte.''))"

definition replay_blocker :: "message \<Rightarrow> jstr option" where
  "replay_blocker m =
     (if isTrue (masked m) then
        Some (js ''Masked message: the value shown is redacted, replaying it would write the redacted text.'')
      else if isTrue (key_masked m) then
        Some (js ''Masked message: the key shown is redacted, replaying it would write the redacted key.'')
      else if opt_or (masked_headers m) [] \<noteq> [] then
        let names = join (js '', '') (the (masked_headers m));
            what = (if length (the (masked_headers m)) = 1 then js ''the value of header '' @ names @ js '' is''
                    else js ''the values of headers '' @ names @ js '' are'')
        in Some (js ''Masked message: '' @ what @ js '' redacted, replaying it would write the redacted text.'')
      else case field_block_reason (js ''value'') (m_value m) (value_b64 m) (value_encoding m) (value_sr m \<noteq> None) of
        Some r \<Rightarrow> Some r
      | None \<Rightarrow> field_block_reason (js ''key'') (m_key m) (key_b64 m) (key_encoding m) (key_sr m \<noteq> None))"

section \<open>The consumer's rendering\<close>

definition go_space :: "byte \<Rightarrow> bool" where
  "go_space b \<longleftrightarrow> b \<in> {32, 9, 10, 13}"

definition bytes_trim_space :: "byte list \<Rightarrow> byte list" where
  "bytes_trim_space b = rev (dropWhile go_space (rev (dropWhile go_space b)))"

text \<open>Rendered text, encoding and base64 form of a payload; \<open>None\<close> is a nil slice.\<close>

definition decode_bytes :: "(byte list \<Rightarrow> bool) \<Rightarrow> (byte list \<Rightarrow> bool) \<Rightarrow> byte list option \<Rightarrow> bool \<Rightarrow> jstr \<times> jstr \<times> jstr" where
  "decode_bytes json_valid xml_valid payload truncated =
     (case payload of
        None \<Rightarrow> ([], js ''null'', [])
      | Some b \<Rightarrow>
          if b = [] then ([], js ''empty'', [])
          else if utf8_valid b then
            let t = bytes_trim_space b;
                looks_json = (t \<noteq> [] \<and> (hd t = 123 \<or> hd t = 91));
                looks_xml = (t \<noteq> [] \<and> hd t = 60)
            in if looks_json \<and> (truncated \<or> json_valid t) then (wire_string b, js ''json'', [])
               else if looks_xml \<and> (truncated \<or> xml_valid t) then (wire_string b, js ''xml'', [])
               else (wire_string b, js ''text'', [])
          else (js ''0x'' @ concat (map (\<lambda>c. hex_pad 2 (unat c)) (take 64 b)), js ''binary'', btoa b))"

text \<open>A string field with \<open>omitempty\<close> is absent from the response when it is empty.\<close>

definition omit_empty :: "jstr \<Rightarrow> jstr option" where
  "omit_empty s = (if s = [] then None else Some s)"

section \<open>The produce API's reading\<close>

text \<open>
  Go's base64 decoders: line breaks are skipped, padding is required by the standard and the
  URL-safe one and refused by the raw one.
\<close>

definition go_std64 :: "jstr \<Rightarrow> byte list option" where
  "go_std64 s = (let t = filter (\<lambda>c. c \<noteq> 10 \<and> c \<noteq> 13) s in if strict64 t then atob t else None)"

definition go_url64 :: "jstr \<Rightarrow> byte list option" where
  "go_url64 s = (if 43 \<in> set s \<or> 47 \<in> set s then None
     else go_std64 (map (\<lambda>c. if c = 45 then 43 else if c = 95 then 47 else c) s))"

definition go_raw64 :: "jstr \<Rightarrow> byte list option" where
  "go_raw64 s = (let t = filter (\<lambda>c. c \<noteq> 10 \<and> c \<noteq> 13) s
     in if list_all (\<lambda>c. b64_val c \<noteq> None) t then atob t else None)"

definition decode_base64_tolerant :: "jstr \<Rightarrow> byte list option" where
  "decode_base64_tolerant s = (case go_std64 s of Some b \<Rightarrow> Some b
     | None \<Rightarrow> (case go_url64 s of Some b \<Rightarrow> Some b | None \<Rightarrow> go_raw64 s))"

text \<open>\<open>Inl\<close> is the error; a missing encoding in the request is the empty string.\<close>

definition decode_produce_payload :: "jstr \<Rightarrow> jstr \<Rightarrow> jstr + byte list option" where
  "decode_produce_payload v encoding =
     (if encoding = [] \<or> encoding = js ''text'' then Inr (if v = [] then None else Some (utf8 v))
      else if encoding = js ''empty'' then Inr (Some [])
      else if encoding = js ''base64'' then
        (if v = [] then Inr None
         else case decode_base64_tolerant v of Some b \<Rightarrow> Inr (Some b) | None \<Rightarrow> Inl (js ''invalid base64''))
      else Inl (js ''unsupported encoding''))"

fun encoding_name :: "produce_encoding \<Rightarrow> jstr" where
  "encoding_name PText = js ''text''"
| "encoding_name PBase64 = js ''base64''"
| "encoding_name PEmpty = js ''empty''"

section \<open>Fidelity\<close>

lemma strict64_no_breaks: "strict64 s \<Longrightarrow> \<forall>c \<in> set s. c \<noteq> 10 \<and> c \<noteq> 13"
  by (induction s rule: strict64.induct) (auto simp: b64_val_def)

lemma go_std64_btoa: "go_std64 (btoa b) = Some b"
proof -
  have "filter (\<lambda>c. c \<noteq> 10 \<and> c \<noteq> 13) (btoa b) = btoa b"
    using strict64_no_breaks [OF strict64_btoa [of b]] by (simp add: filter_id_conv)
  then show ?thesis by (simp add: go_std64_def)
qed

lemma btoa_empty: "btoa b = [] \<longleftrightarrow> b = []"
  by (cases b rule: btoa.cases) (simp_all add: b64_3_def)

lemma payload_reproduced:
  "case decode_bytes json_valid xml_valid payload truncated of (rendered, encoding, b64) \<Rightarrow>
     \<exists>v e. produce_encoding_for (omit_empty rendered) (omit_empty b64) encoding = Some (v, e) \<and>
       decode_produce_payload v (encoding_name e) = Inr payload"
proof (cases payload)
  case None
  then show ?thesis
    by (simp add: decode_bytes_def produce_encoding_for_def decode_produce_payload_def)
next
  case (Some b)
  consider (empty) "b = []" | (utf8) "b \<noteq> []" "utf8_valid b" | (binary) "b \<noteq> []" "\<not> utf8_valid b" by blast
  then show ?thesis
  proof cases
    case empty
    then show ?thesis
      by (simp add: Some decode_bytes_def produce_encoding_for_def decode_produce_payload_def)
  next
    case utf8
    then have w: "wire_string b \<noteq> []" "utf8 (wire_string b) = b" by (simp_all add: wire_string_empty utf8_wire_string)
    obtain e where e: "decode_bytes json_valid xml_valid payload truncated = (wire_string b, e, [])"
      "e = js ''json'' \<or> e = js ''xml'' \<or> e = js ''text''"
    proof -
      have "\<exists>e. decode_bytes json_valid xml_valid payload truncated = (wire_string b, e, []) \<and>
          (e = js ''json'' \<or> e = js ''xml'' \<or> e = js ''text'')"
        using utf8 by (simp add: Some decode_bytes_def Let_def)
      then show ?thesis using that by blast
    qed
    have "produce_encoding_for (omit_empty (wire_string b)) (omit_empty []) e = Some (wire_string b, PText)"
      using e(2) w(1) by (auto simp: produce_encoding_for_def omit_empty_def)
    moreover have "decode_produce_payload (wire_string b) (encoding_name PText) = Inr payload"
      using w by (simp add: decode_produce_payload_def Some)
    ultimately show ?thesis unfolding e(1) prod.case by blast
  next
    case binary
    then have "btoa b \<noteq> []" by (simp add: btoa_empty)
    then have "produce_encoding_for r (omit_empty (btoa b)) (js ''binary'') = Some (btoa b, PBase64)" for r
      by (simp add: produce_encoding_for_def truthy_str_def omit_empty_def)
    moreover have "decode_produce_payload (btoa b) (encoding_name PBase64) = Inr payload"
      using \<open>btoa b \<noteq> []\<close> by (simp add: Some decode_produce_payload_def decode_base64_tolerant_def go_std64_btoa)
    moreover obtain r where "decode_bytes json_valid xml_valid payload truncated = (r, js ''binary'', btoa b)"
      using binary by (simp add: Some decode_bytes_def)
    ultimately show ?thesis by (simp only: prod.case) blast
  qed
qed

text \<open>
  C11: A record is replayed byte for byte. Whatever the payload of a field (absent, empty, any
  bytes), the encoding the consumer reports for it, in the field's rendering and base64 form as
  the response carries them, maps to a produce payload, and the produce API reads exactly the
  original payload from it: nil stays nil, an empty payload is never turned into a tombstone, and
  the truncated preview of binary data is never sent.
\<close>

theorem replay_reproduces_payload:
  "case decode_bytes json_valid xml_valid payload truncated of (rendered, encoding, b64) \<Rightarrow>
     \<exists>v e. produce_encoding_for (omit_empty rendered) (omit_empty b64) encoding = Some (v, e) \<and>
       decode_produce_payload v (encoding_name e) = Inr payload"
  by (rule payload_reproduced)

lemma produce_none_iff: "produce_encoding_for r b e = None \<longleftrightarrow>
    is_sr_encoding e \<or> e = js ''binary'' \<and> \<not> truthy_str b \<and> truthy_str r"
  by (simp add: produce_encoding_for_def is_sr_encoding_def)

lemma field_block_none: "field_block_reason f r b e sr = None \<longleftrightarrow> produce_encoding_for r b e \<noteq> None"
  by (simp add: field_block_reason_def)

text \<open>
  A message is blocked from replay exactly when what is shown of it is masked (value, key or
  any header) or when its value or its key has no faithful produce payload; a field counts as
  lost only if a Schema-Registry decoder replaced it, or it is binary without its base64 form.
\<close>

theorem replay_blocker_iff:
  "(replay_blocker m = None \<longleftrightarrow>
      \<not> isTrue (masked m) \<and> \<not> isTrue (key_masked m) \<and> opt_or (masked_headers m) [] = [] \<and>
      produce_encoding_for (m_value m) (value_b64 m) (value_encoding m) \<noteq> None \<and>
      produce_encoding_for (m_key m) (key_b64 m) (key_encoding m) \<noteq> None) \<and>
   (produce_encoding_for r b e = None \<longleftrightarrow>
      is_sr_encoding e \<or> e = js ''binary'' \<and> \<not> truthy_str b \<and> truthy_str r)"
  unfolding produce_none_iff [symmetric]
  by (simp add: replay_blocker_def Let_def option.case_eq_if field_block_none del: not_None_eq)

end
