(* ===== verification/Json.thy ===== *)
theory Json
  imports CanonicalJson
begin

text \<open>
  JSON values as \<open>JSON.parse\<close> returns them and \<open>JSON.stringify\<close> writes them. A number is an
  integer or, in a part the program never looks into, the literal of another number. Objects are
  ordered maps, their fields in the order of \<open>Object.entries\<close>. \<open>JSON.parse\<close> itself is a parameter where a
  text has to be read.
\<close>

datatype json =
    JsNull
  | JsBool bool
  | JsInt int
  | JsFrac jstr
  | JsString jstr
  | JsArray "json list"
  | JsObject "(jstr \<times> json) list"

section \<open>Reading\<close>

definition is_record :: "json \<Rightarrow> bool" where
  "is_record v = (case v of JsObject _ \<Rightarrow> True | _ \<Rightarrow> False)"

text \<open>\<open>typeof v === "object" && v !== null\<close>; arrays count.\<close>

definition is_object :: "json \<Rightarrow> bool" where
  "is_object v = (case v of JsObject _ \<Rightarrow> True | JsArray _ \<Rightarrow> True | _ \<Rightarrow> False)"

text \<open>A property read; \<open>None\<close> is \<open>undefined\<close>. The named properties the program reads are on no array.\<close>

definition jprop :: "jstr \<Rightarrow> json \<Rightarrow> json option" where
  "jprop k v = (case v of JsObject fs \<Rightarrow> mget fs k | _ \<Rightarrow> None)"

fun as_string :: "json option \<Rightarrow> jstr option" where
  "as_string (Some (JsString s)) = Some s"
| "as_string _ = None"

fun as_bool :: "json option \<Rightarrow> bool option" where
  "as_bool (Some (JsBool b)) = Some b"
| "as_bool _ = None"

fun as_int :: "json option \<Rightarrow> int option" where
  "as_int (Some (JsInt i)) = Some i"
| "as_int _ = None"

fun as_array :: "json option \<Rightarrow> json list option" where
  "as_array (Some (JsArray vs)) = Some vs"
| "as_array _ = None"

text \<open>Optional members of an object literal: \<open>undefined\<close> ones are not written.\<close>

definition members :: "(jstr \<times> json option) list \<Rightarrow> (jstr \<times> json) list" where
  "members fs = concat (map (\<lambda>(k, v). case v of None \<Rightarrow> [] | Some j \<Rightarrow> [(k, j)]) fs)"

lemma members_simps [simp]: "members [] = []" "members ((k, None) # fs) = members fs"
    "members ((k, Some j) # fs) = (k, j) # members fs"
  by (simp_all add: members_def)

lemma mget_Cons [simp]: "mget ((k, v) # m) k' = (if k' = k then Some v else mget m k')"
  by (simp add: mget_def)

lemma mget_members: "distinct (map fst fs) \<Longrightarrow> mget (members fs) k = (case map_of fs k of Some v \<Rightarrow> v | None \<Rightarrow> None)"
proof (induction fs)
  case (Cons f fs)
  obtain j w where f: "f = (j, w)" by (cases f)
  have n: "map_of fs j = None" using Cons.prems f by (simp add: map_of_eq_None_iff)
  with Cons f show ?case by (cases w) auto
qed (simp add: mget_def)

section \<open>Writing\<close>

text \<open>\<open>JSON.stringify(v)\<close>.\<close>

fun stringify :: "json \<Rightarrow> jstr" where
  "stringify JsNull = js ''null''"
| "stringify (JsBool b) = (if b then js ''true'' else js ''false'')"
| "stringify (JsInt i) = dec_int i"
| "stringify (JsFrac l) = l"
| "stringify (JsString s) = quote s"
| "stringify (JsArray vs) = js ''['' @ join (js '','') (map stringify vs) @ js '']''"
| "stringify (JsObject fs) = js ''{'' @ join (js '','') (map (\<lambda>(k, v). quote k @ js '':'' @ stringify v) fs) @ js ''}''"

text \<open>\<open>JSON.stringify(v, null, 2)\<close> with the current indentation.\<close>

definition newline :: "nat \<Rightarrow> jstr" where
  "newline n = 10 # replicate n 32"

fun stringify2 :: "nat \<Rightarrow> json \<Rightarrow> jstr" where
  "stringify2 n JsNull = js ''null''"
| "stringify2 n (JsBool b) = (if b then js ''true'' else js ''false'')"
| "stringify2 n (JsInt i) = dec_int i"
| "stringify2 n (JsFrac l) = l"
| "stringify2 n (JsString s) = quote s"
| "stringify2 n (JsArray vs) = (if vs = [] then js ''[]''
     else js ''['' @ newline (n + 2) @ join (js '','' @ newline (n + 2)) (map (stringify2 (n + 2)) vs) @ newline n @ js '']'')"
| "stringify2 n (JsObject fs) = (if fs = [] then js ''{}''
     else js ''{'' @ newline (n + 2)
       @ join (js '','' @ newline (n + 2)) (map (\<lambda>(k, v). quote k @ js '': '' @ stringify2 (n + 2) v) fs)
       @ newline n @ js ''}'')"

end
