(* ===== verification/ExportCrypto.thy ===== *)
theory ExportCrypto
  imports Json Bytes
begin

text \<open>
  Passphrase encryption of export files (\<open>frontend/src/lib/private-clusters-export-crypto.ts\<close>).
  WebCrypto is a parameter, a record of the functions the code calls: key derivation, AES-GCM and
  Unicode normalisation; \<open>crypto.subtle\<close> may be absent. \<open>JSON.parse\<close> is a parameter, \<open>None\<close> when it
  throws. The random salt and initialisation vector are arguments.
\<close>

record 'k web_crypto =
  derive :: "byte list \<Rightarrow> byte list \<Rightarrow> int \<Rightarrow> 'k"
  aes_encrypt :: "byte list \<Rightarrow> byte list \<Rightarrow> 'k \<Rightarrow> byte list \<Rightarrow> byte list"
  aes_decrypt :: "byte list \<Rightarrow> byte list \<Rightarrow> 'k \<Rightarrow> byte list \<Rightarrow> byte list option"

definition ec_format :: jstr where
  "ec_format = js ''kafkito.private-clusters.export''"

definition ec_version :: int where
  "ec_version = 2"

definition ec_iterations :: int where
  "ec_iterations = 600000"

definition max_iterations :: int where
  "max_iterations = 10000000"

definition salt_bytes :: nat where
  "salt_bytes = 16"

definition iv_bytes :: nat where
  "iv_bytes = 12"

definition tag_bytes :: nat where
  "tag_bytes = 16"

definition decrypt_failed :: jstr where
  "decrypt_failed = js ''Wrong passphrase or damaged file.''"

definition no_webcrypto :: jstr where
  "no_webcrypto = js ''Encrypted exports need a secure connection (HTTPS or localhost).''"

definition min_passphrase_length :: nat where
  "min_passphrase_length = 12"

text \<open>\<open>fromBase64\<close>: the strict pattern first, so that \<open>atob\<close> cannot throw.\<close>

definition from_base64 :: "jstr \<Rightarrow> byte list option" where
  "from_base64 t = (if strict64 t then atob t else None)"

record header =
  h_iterations :: int
  h_salt :: jstr
  h_iv :: jstr

text \<open>The members of a header in the order of the object literal.\<close>

definition header_members :: "header \<Rightarrow> (jstr \<times> json) list" where
  "header_members h =
     [(js ''format'', JsString ec_format), (js ''version'', JsInt ec_version),
      (js ''kdf'', JsObject [(js ''name'', JsString (js ''PBKDF2'')), (js ''hash'', JsString (js ''SHA-256'')),
          (js ''iterations'', JsInt (h_iterations h)), (js ''salt'', JsString (h_salt h))]),
      (js ''cipher'', JsObject [(js ''name'', JsString (js ''AES-GCM'')), (js ''iv'', JsString (h_iv h))])]"

definition additional_data :: "header \<Rightarrow> byte list" where
  "additional_data h = utf8 (stringify (JsObject (header_members h)))"

definition derive_key :: "'k web_crypto \<Rightarrow> (jstr \<Rightarrow> jstr) \<Rightarrow> jstr \<Rightarrow> byte list \<Rightarrow> int \<Rightarrow> 'k" where
  "derive_key subtle nfc passphrase salt iterations = derive subtle (utf8 (nfc passphrase)) salt iterations"

text \<open>\<open>Array.from\<close> counts code points.\<close>

definition is_passphrase_long_enough :: "(jstr \<Rightarrow> jstr) \<Rightarrow> jstr \<Rightarrow> bool" where
  "is_passphrase_long_enough nfc passphrase \<longleftrightarrow> min_passphrase_length \<le> length (scalars (nfc passphrase))"

definition is_encrypted_export :: "(jstr \<Rightarrow> json option) \<Rightarrow> jstr \<Rightarrow> bool" where
  "is_encrypted_export parse t =
     (case parse t of None \<Rightarrow> False | Some v \<Rightarrow> is_record v \<and> jprop (js ''format'') v = Some (JsString ec_format))"

definition file_json :: "header \<Rightarrow> byte list \<Rightarrow> json" where
  "file_json h d = JsObject (header_members h @ [(js ''data'', JsString (btoa d))])"

definition encrypt_export :: "'k web_crypto option \<Rightarrow> (jstr \<Rightarrow> jstr) \<Rightarrow> byte list \<Rightarrow> byte list \<Rightarrow>
    jstr \<Rightarrow> jstr \<Rightarrow> int option \<Rightarrow> jstr + jstr" where
  "encrypt_export crypto nfc salt iv plaintext passphrase opt_iterations =
     (case crypto of
        None \<Rightarrow> Inl no_webcrypto
      | Some subtle \<Rightarrow>
          if \<not> is_passphrase_long_enough nfc passphrase
          then Inl (js ''The passphrase needs at least '' @ dec min_passphrase_length @ js '' characters.'')
          else let iterations = (case opt_iterations of None \<Rightarrow> ec_iterations | Some i \<Rightarrow> i);
                   h = \<lparr>h_iterations = iterations, h_salt = btoa salt, h_iv = btoa iv\<rparr>;
                   key = derive_key subtle nfc passphrase salt iterations
               in Inr (stringify2 0 (file_json h (aes_encrypt subtle iv (additional_data h) key (utf8 plaintext)))))"

record envelope =
  e_head :: header
  e_salt :: "byte list"
  e_iv :: "byte list"
  e_data :: "byte list"

definition read_header :: "json \<Rightarrow> (header \<times> jstr) option" where
  "read_header v =
     (case (jprop (js ''kdf'') v, jprop (js ''cipher'') v) of
        (Some kdf, Some cipher) \<Rightarrow>
          if \<not> (is_record v \<and> is_record kdf \<and> is_record cipher) then None
          else (case (as_int (jprop (js ''iterations'') kdf), as_string (jprop (js ''salt'') kdf),
                      as_string (jprop (js ''iv'') cipher), as_string (jprop (js ''data'') v)) of
            (Some iterations, Some salt, Some iv, Some data) \<Rightarrow>
              if jprop (js ''format'') v \<noteq> Some (JsString ec_format) \<or> jprop (js ''version'') v \<noteq> Some (JsInt ec_version)
                \<or> jprop (js ''name'') kdf \<noteq> Some (JsString (js ''PBKDF2''))
                \<or> jprop (js ''hash'') kdf \<noteq> Some (JsString (js ''SHA-256''))
                \<or> jprop (js ''name'') cipher \<noteq> Some (JsString (js ''AES-GCM''))
                \<or> \<bar>iterations\<bar> \<ge> 2 ^ 53 \<or> iterations < 1 \<or> iterations > max_iterations then None
              else Some (\<lparr>h_iterations = iterations, h_salt = salt, h_iv = iv\<rparr>, data)
          | _ \<Rightarrow> None)
      | _ \<Rightarrow> None)"

definition read_envelope :: "json option \<Rightarrow> envelope option" where
  "read_envelope v =
     (case v of None \<Rightarrow> None | Some j \<Rightarrow>
       (case read_header j of
          None \<Rightarrow> None
        | Some (h, data) \<Rightarrow>
            (case (from_base64 (h_salt h), from_base64 (h_iv h), from_base64 data) of
               (Some salt, Some iv, Some d) \<Rightarrow>
                 if length salt = salt_bytes \<and> length iv = iv_bytes \<and> \<not> length d < tag_bytes
                 then Some \<lparr>e_head = h, e_salt = salt, e_iv = iv, e_data = d\<rparr> else None
             | _ \<Rightarrow> None)))"

definition decrypt_export :: "'k web_crypto option \<Rightarrow> (jstr \<Rightarrow> jstr) \<Rightarrow> (jstr \<Rightarrow> json option) \<Rightarrow> jstr \<Rightarrow> jstr \<Rightarrow> jstr + jstr" where
  "decrypt_export crypto nfc parse t passphrase =
     (case crypto of
        None \<Rightarrow> Inl no_webcrypto
      | Some subtle \<Rightarrow>
          (case read_envelope (parse t) of
             None \<Rightarrow> Inl decrypt_failed
           | Some e \<Rightarrow>
               let key = derive_key subtle nfc passphrase (e_salt e) (h_iterations (e_head e))
               in (case aes_decrypt subtle (e_iv e) (additional_data (e_head e)) key (e_data e) of
                     None \<Rightarrow> Inl decrypt_failed
                   | Some bs \<Rightarrow> (case utf8_decode_fatal bs of None \<Rightarrow> Inl decrypt_failed | Some s \<Rightarrow> Inr s))))"

section \<open>Reading an envelope back\<close>

lemma jprop_object [simp]: "jprop k (JsObject fs) = mget fs k" "is_record (JsObject fs)"
  by (simp_all add: jprop_def is_record_def)

lemma from_base64_btoa [simp]: "from_base64 (btoa bs) = Some bs"
  by (simp add: from_base64_def)

lemma read_header_file:
  assumes "1 \<le> h_iterations h" "h_iterations h \<le> max_iterations"
  shows "read_header (file_json h d) = Some (h, btoa d)"
  using assms by (simp add: read_header_def file_json_def header_members_def mget_Nil max_iterations_def)

lemma read_envelope_file:
  assumes "1 \<le> n" "n \<le> max_iterations" "length salt = salt_bytes" "length iv = iv_bytes" "tag_bytes \<le> length d"
  shows "read_envelope (Some (file_json \<lparr>h_iterations = n, h_salt = btoa salt, h_iv = btoa iv\<rparr> d)) =
    Some \<lparr>e_head = \<lparr>h_iterations = n, h_salt = btoa salt, h_iv = btoa iv\<rparr>, e_salt = salt, e_iv = iv, e_data = d\<rparr>"
  using assms by (simp add: read_envelope_def read_header_file)

text \<open>What a file the program accepts demands: bounded work, and material of the exact sizes.\<close>

lemma read_header_bounds: "read_header v = Some (h, data) \<Longrightarrow> 1 \<le> h_iterations h \<and> h_iterations h \<le> max_iterations"
  by (auto simp: read_header_def split: option.splits if_splits)

text \<open>
  C39: The key-derivation work a file can demand is bounded: whatever the file, an envelope that is
  read asks for between 1 and 10,000,000 iterations, and its salt, initialisation vector and data
  have 16, 12 and at least 16 bytes.
\<close>

theorem read_envelope_bounds:
  assumes "read_envelope v = Some e"
  shows "1 \<le> h_iterations (e_head e) \<and> h_iterations (e_head e) \<le> max_iterations \<and>
    length (e_salt e) = 16 \<and> length (e_iv e) = 12 \<and> 16 \<le> length (e_data e)"
proof -
  obtain j h data where "v = Some j" and h: "read_header j = Some (h, data)" "e_head e = h"
    and l: "length (e_salt e) = salt_bytes" "length (e_iv e) = iv_bytes" "\<not> length (e_data e) < tag_bytes"
    using assms unfolding read_envelope_def by (auto split: option.splits if_splits)
  from read_header_bounds [OF h(1)] h(2) l show ?thesis
    by (simp add: salt_bytes_def iv_bytes_def tag_bytes_def)
qed

text \<open>
  The additional data determines the header: no two headers share it, so a decryption that
  authenticates it authenticates every field of the header.
\<close>

lemma quote_inj: "quote s @ x = quote t @ y \<Longrightarrow> s = t \<and> x = y"
proof -
  assume "quote s @ x = quote t @ y"
  then have "quote_body s @ 0x22 # x = quote_body t @ 0x22 # y" by (simp add: quote_def)
  then have "Some (s, x) = Some (t, y)" by (simp only: string_token_quote [symmetric])
  then show ?thesis by simp
qed

lemma dec_int_nonneg: "0 \<le> i \<Longrightarrow> dec_int i = dec (nat i)"
  by (simp add: dec_int_def)

lemma dec_comma: "dec m @ 44 # x = dec n @ 44 # y \<Longrightarrow> m = n \<and> x = y"
proof -
  assume e: "dec m @ 44 # x = dec n @ 44 # y"
  have t: "takeWhile is_digit (dec k @ 44 # z) = dec k \<and> dropWhile is_digit (dec k @ 44 # z) = 44 # z" for k z
    by (rule takeWhile_dropWhile_rest) (auto simp: is_digit_def dest: dec_digits)
  from e t [of m x] t [of n y] have "dec m = dec n" "44 # x = 44 # y" by metis+
  then show ?thesis by simp
qed

definition text_before :: jstr where
  "text_before = js ''{'' @ quote (js ''format'') @ js '':'' @ quote ec_format @ js '','' @ quote (js ''version'') @ js '':''
     @ dec_int ec_version @ js '','' @ quote (js ''kdf'') @ js '':{'' @ quote (js ''name'') @ js '':'' @ quote (js ''PBKDF2'')
     @ js '','' @ quote (js ''hash'') @ js '':'' @ quote (js ''SHA-256'') @ js '','' @ quote (js ''iterations'') @ js '':''"

definition text_between :: jstr where
  "text_between = js ''},'' @ quote (js ''cipher'') @ js '':{'' @ quote (js ''name'') @ js '':'' @ quote (js ''AES-GCM'')
     @ js '','' @ quote (js ''iv'') @ js '':''"

lemma stringify_header:
  "stringify (JsObject (header_members h)) = text_before @ dec_int (h_iterations h) @ 44 # quote (js ''salt'') @ js '':''
     @ quote (h_salt h) @ text_between @ quote (h_iv h) @ js ''}}''"
  by (simp add: header_members_def text_before_def text_between_def js_append js_def [of "CHR ''{'' # _"] js_def [of "CHR '':'' # _"]
      js_def [of "CHR '','' # _"] js_def [of "CHR ''}'' # _"])

lemma header_text_inj:
  assumes "stringify (JsObject (header_members h)) = stringify (JsObject (header_members h'))"
    "0 \<le> h_iterations h" "0 \<le> h_iterations h'"
  shows "h = h'"
proof -
  let ?t = "\<lambda>h. quote (js ''salt'') @ js '':'' @ quote (h_salt h) @ text_between @ quote (h_iv h) @ js ''}}''"
  have "dec (nat (h_iterations h)) @ 44 # ?t h = dec (nat (h_iterations h')) @ 44 # ?t h'"
    using assms unfolding stringify_header same_append_eq by (simp only: dec_int_nonneg)
  from dec_comma [OF this] have i: "nat (h_iterations h) = nat (h_iterations h')"
    and r: "quote (h_salt h) @ text_between @ quote (h_iv h) @ js ''}}'' =
      quote (h_salt h') @ text_between @ quote (h_iv h') @ js ''}}''" by (simp_all only: same_append_eq)
  from quote_inj [OF r] have s: "h_salt h = h_salt h'" and r2: "quote (h_iv h) @ js ''}}'' = quote (h_iv h') @ js ''}}''"
    by (simp_all only: same_append_eq)
  from quote_inj [OF r2] i s assms(2,3) show ?thesis by (simp add: eq_nat_nat_iff)
qed

text \<open>The header text is ASCII, so its bytes determine it.\<close>

definition ascii_str :: "jstr \<Rightarrow> bool" where
  "ascii_str t \<longleftrightarrow> (\<forall>c \<in> set t. unat c < 128)"

lemma ascii_str_simps [simp]: "ascii_str []" "ascii_str (s @ t) \<longleftrightarrow> ascii_str s \<and> ascii_str t"
    "ascii_str (c # t) \<longleftrightarrow> unat c < 128 \<and> ascii_str t"
  by (auto simp: ascii_str_def)

lemma ascii_uescape: "ascii_str (uescape c)"
proof -
  have "unat d < 128" if "d \<in> set (hex_pad 4 (unat c))" for d
    using hex_pad_is_hex [OF that] by (auto simp: is_hex_def word_le_nat_alt)
  then show ?thesis by (simp add: uescape_def ascii_str_def)
qed

lemma ascii_quote: "ascii_str t \<Longrightarrow> ascii_str (quote t)"
proof -
  have "ascii_str t \<Longrightarrow> ascii_str (quote_body t)"
    by (induction t rule: quote_body.induct) (auto simp: escape_cu_def ascii_uescape)
  then show "ascii_str t \<Longrightarrow> ascii_str (quote t)" by (simp add: quote_def)
qed

lemma ascii_dec [simp]: "ascii_str (dec n)"
  by (auto simp: ascii_str_def is_digit_unat dest: dec_digits)

lemma b64_val_ascii: "b64_val c = Some n \<Longrightarrow> unat c < 128"
  by (simp add: b64_val_def word_le_nat_alt split: if_splits)

lemma ascii_strict64: "strict64 t \<Longrightarrow> ascii_str t"
  by (induction t rule: strict64.induct) (auto simp: b64_val_ascii)

lemma ascii_header:
  "strict64 (h_salt h) \<Longrightarrow> strict64 (h_iv h) \<Longrightarrow> 0 \<le> h_iterations h \<Longrightarrow> ascii_str (stringify (JsObject (header_members h)))"
proof -
  assume a: "strict64 (h_salt h)" "strict64 (h_iv h)" "0 \<le> h_iterations h"
  have "ascii_str (js ''salt'')" "ascii_str (js '':'')" "ascii_str (js ''}}'')" by (simp_all add: js_def)
  moreover have "ascii_str text_before" "ascii_str text_between"
    unfolding text_before_def text_between_def ec_format_def ec_version_def
    by (simp_all add: ascii_quote dec_int_nonneg js_def)
  ultimately show ?thesis
    unfolding stringify_header using a by (simp add: ascii_quote ascii_strict64 dec_int_nonneg)
qed

definition proper_header :: "header \<Rightarrow> bool" where
  "proper_header h \<longleftrightarrow> strict64 (h_salt h) \<and> strict64 (h_iv h) \<and> 0 \<le> h_iterations h"

lemma additional_data_inj:
  assumes "proper_header h" "proper_header h'" "additional_data h = additional_data h'"
  shows "h = h'"
proof -
  let ?s = "\<lambda>h. stringify (JsObject (header_members h))"
  have "well_formed (?s h)" "well_formed (?s h')"
    using ascii_header [of h] ascii_header [of h'] assms(1,2) scalars_ascii
    unfolding proper_header_def ascii_str_def by blast+
  then have "?s h = ?s h'" using assms(3) unfolding additional_data_def by (rule utf8_inj)
  then show ?thesis using assms(1,2) by (intro header_text_inj) (simp_all add: proper_header_def)
qed

lemma read_envelope_proper:
  assumes "read_envelope v = Some e"
  shows "proper_header (e_head e)"
proof -
  obtain j h data where "v = Some j" and h: "read_header j = Some (h, data)" "e_head e = h"
    and s: "from_base64 (h_salt h) \<noteq> None" "from_base64 (h_iv h) \<noteq> None"
    using assms unfolding read_envelope_def by (auto split: option.splits if_splits)
  from s have "strict64 (h_salt h)" "strict64 (h_iv h)" by (auto simp: from_base64_def split: if_splits)
  with read_header_bounds [OF h(1)] h(2) show ?thesis by (simp add: proper_header_def)
qed


section \<open>The round trip\<close>

definition pretty_before :: jstr where
  "pretty_before = js ''{'' @ newline 2 @ quote (js ''format'') @ js '': '' @ quote ec_format @ js '','' @ newline 2
     @ quote (js ''version'') @ js '': '' @ dec_int ec_version @ js '','' @ newline 2 @ quote (js ''kdf'') @ js '': {''
     @ newline 4 @ quote (js ''name'') @ js '': '' @ quote (js ''PBKDF2'') @ js '','' @ newline 4 @ quote (js ''hash'')
     @ js '': '' @ quote (js ''SHA-256'') @ js '','' @ newline 4 @ quote (js ''iterations'') @ js '': ''"

definition pretty_between :: jstr where
  "pretty_between = newline 2 @ js ''},'' @ newline 2 @ quote (js ''cipher'') @ js '': {'' @ newline 4 @ quote (js ''name'')
     @ js '': '' @ quote (js ''AES-GCM'') @ js '','' @ newline 4 @ quote (js ''iv'') @ js '': ''"

definition pretty_data :: jstr where
  "pretty_data = newline 2 @ js ''},'' @ newline 2 @ quote (js ''data'') @ js '': ''"

lemma stringify2_file:
  "stringify2 0 (file_json h d) = pretty_before @ dec_int (h_iterations h) @ 44 # newline 4 @ quote (js ''salt'') @ js '': ''
     @ quote (h_salt h) @ pretty_between @ quote (h_iv h) @ pretty_data @ quote (btoa d) @ newline 0 @ js ''}''"
  by (simp add: file_json_def header_members_def pretty_before_def pretty_between_def pretty_data_def eval_nat_numeral
      js_def [of "CHR ''{'' # _"] js_def [of "CHR '':'' # _"] js_def [of "CHR '','' # _"] js_def [of "CHR ''}'' # _"])

lemma stringify2_file_inj:
  assumes "stringify2 0 (file_json h d) = stringify2 0 (file_json h' d')" "0 \<le> h_iterations h" "0 \<le> h_iterations h'"
  shows "h = h' \<and> d = d'"
proof -
  let ?t = "\<lambda>h d. newline 4 @ quote (js ''salt'') @ js '': '' @ quote (h_salt h) @ pretty_between @ quote (h_iv h)
    @ pretty_data @ quote (btoa d) @ newline 0 @ js ''}''"
  have "dec (nat (h_iterations h)) @ 44 # ?t h d = dec (nat (h_iterations h')) @ 44 # ?t h' d'"
    using assms unfolding stringify2_file same_append_eq by (simp only: dec_int_nonneg)
  from dec_comma [OF this] have i: "nat (h_iterations h) = nat (h_iterations h')"
    and r: "quote (h_salt h) @ pretty_between @ quote (h_iv h) @ pretty_data @ quote (btoa d) @ newline 0 @ js ''}'' =
      quote (h_salt h') @ pretty_between @ quote (h_iv h') @ pretty_data @ quote (btoa d') @ newline 0 @ js ''}''"
    by (simp_all only: same_append_eq)
  from quote_inj [OF r] have s: "h_salt h = h_salt h'"
    and r2: "quote (h_iv h) @ pretty_data @ quote (btoa d) @ newline 0 @ js ''}'' =
      quote (h_iv h') @ pretty_data @ quote (btoa d') @ newline 0 @ js ''}''" by (simp_all only: same_append_eq)
  from quote_inj [OF r2] have v: "h_iv h = h_iv h'"
    and r3: "quote (btoa d) @ newline 0 @ js ''}'' = quote (btoa d') @ newline 0 @ js ''}''" by (simp_all only: same_append_eq)
  from quote_inj [OF r3] have "btoa d = btoa d'" by simp
  then have "d = d'" by (metis atob_btoa option.inject)
  with i s v assms(2,3) show ?thesis by (simp add: eq_nat_nat_iff)
qed

text \<open>
  C28: What is exported can be imported: the file an export writes decrypts to the same bundle with
  the same passphrase in any Unicode normal form, given that AES-GCM decrypts what it encrypted
  and appends its tag, and that \<open>JSON.parse\<close> reads what \<open>JSON.stringify\<close> wrote.
\<close>

theorem export_roundtrip:
  assumes "encrypt_export (Some c) nfc salt iv plaintext pass None = Inr file"
    and "nfc pass' = nfc pass" "length salt = salt_bytes" "length iv = iv_bytes"
    and plain: "well_formed plaintext" "plaintext = [] \<or> hd plaintext \<noteq> 0xFEFF"
    and aes: "\<And>iv aad k p. aes_decrypt c iv aad k (aes_encrypt c iv aad k p) = Some p"
      "\<And>iv aad k p. tag_bytes \<le> length (aes_encrypt c iv aad k p)"
    and json: "\<And>h d. 0 \<le> h_iterations h \<Longrightarrow> file = stringify2 0 (file_json h d) \<Longrightarrow> parse file = Some (file_json h d)"
  shows "decrypt_export (Some c) nfc parse file pass' = Inr plaintext"
proof -
  let ?h = "\<lparr>h_iterations = ec_iterations, h_salt = btoa salt, h_iv = btoa iv\<rparr>"
  let ?k = "derive_key c nfc pass salt ec_iterations"
  let ?d = "aes_encrypt c iv (additional_data ?h) ?k (utf8 plaintext)"
  have "file = stringify2 0 (file_json ?h ?d)"
    using assms(1) by (simp add: encrypt_export_def Let_def split: if_splits)
  then have "parse file = Some (file_json ?h ?d)" by (intro json) (simp_all add: ec_iterations_def)
  then have "read_envelope (parse file) = Some \<lparr>e_head = ?h, e_salt = salt, e_iv = iv, e_data = ?d\<rparr>"
    using assms(3,4) aes(2) by (simp add: read_envelope_file ec_iterations_def max_iterations_def)
  moreover have "derive_key c nfc pass' salt ec_iterations = ?k" by (simp add: derive_key_def assms(2))
  ultimately show ?thesis
    using aes(1) utf8_decode_fatal_utf8 [OF plain] by (simp add: decrypt_export_def)
qed

section \<open>Instances\<close>

text \<open>A stand-in for AES-GCM that appends sixteen zero bytes, and one that accepts one ciphertext only.\<close>

definition padding_crypto :: "unit web_crypto" where
  "padding_crypto = \<lparr>derive = \<lambda>p s n. (), aes_encrypt = \<lambda>iv aad k p. p @ replicate 16 0,
     aes_decrypt = \<lambda>iv aad k d. Some (take (length d - 16) d)\<rparr>"

definition one_crypto :: "byte list \<Rightarrow> byte list \<Rightarrow> byte list \<Rightarrow> unit web_crypto" where
  "one_crypto iv0 aad0 d0 = \<lparr>derive = \<lambda>p s n. (), aes_encrypt = \<lambda>iv aad k p. d0,
     aes_decrypt = \<lambda>iv aad k d. if iv = iv0 \<and> aad = aad0 \<and> d = d0 then Some [] else None\<rparr>"

abbreviation zeros :: "nat \<Rightarrow> byte list" where
  "zeros n \<equiv> replicate n 0"

definition sample_header :: header where
  "sample_header = \<lparr>h_iterations = 600000, h_salt = btoa (zeros 16), h_iv = btoa (zeros 12)\<rparr>"

lemma sample_envelope: "tag_bytes \<le> length d \<Longrightarrow> read_envelope (Some (file_json sample_header d)) =
    Some \<lparr>e_head = sample_header, e_salt = zeros 16, e_iv = zeros 12, e_data = d\<rparr>"
  unfolding sample_header_def
  by (rule read_envelope_file) (simp_all add: max_iterations_def salt_bytes_def iv_bytes_def)

theorem read_envelope_bounds_witness:
  "\<exists>e. read_envelope (Some (file_json sample_header (zeros 16))) = Some e \<and> 1 \<le> h_iterations (e_head e) \<and> length (e_iv e) = 12"
  using read_envelope_bounds [OF sample_envelope [of "zeros 16"]] sample_envelope [of "zeros 16"] by (simp add: tag_bytes_def)


theorem export_roundtrip_witness:
  "\<exists>file. encrypt_export (Some padding_crypto) id (zeros 16) (zeros 12) (js ''{}'') (js ''correct horse'') None = Inr file \<and>
     decrypt_export (Some padding_crypto) id (\<lambda>_. Some (file_json sample_header (utf8 (js ''{}'') @ zeros 16))) file (js ''correct horse'')
       = Inr (js ''{}'')"
proof -
  let ?d = "utf8 (js ''{}'') @ zeros 16"
  let ?f = "stringify2 0 (file_json sample_header ?d)"
  have l: "is_passphrase_long_enough id (js ''correct horse'')"
    by (simp add: is_passphrase_long_enough_def min_passphrase_length_def js_def hi_sur_def lo_sur_def)
  have w: "well_formed (js ''{}'')" by (simp add: js_def hi_sur_def lo_sur_def)
  have e: "encrypt_export (Some padding_crypto) id (zeros 16) (zeros 12) (js ''{}'') (js ''correct horse'') None = Inr ?f"
    by (simp add: encrypt_export_def l padding_crypto_def sample_header_def ec_iterations_def Let_def)
  have u: "0 \<le> h_iterations h \<Longrightarrow> ?f = stringify2 0 (file_json h d) \<Longrightarrow> file_json sample_header ?d = file_json h d" for h d
    using stringify2_file_inj [of sample_header ?d h d] by (simp add: sample_header_def)
  have "decrypt_export (Some padding_crypto) id (\<lambda>_. Some (file_json sample_header ?d)) ?f (js ''correct horse'') = Inr (js ''{}'')"
    by (rule export_roundtrip [OF e])
      (use u in blast | simp add: w padding_crypto_def salt_bytes_def iv_bytes_def tag_bytes_def | simp add: js_def)+
  with e show ?thesis by blast
qed

end
