(* ===== verification/ClusterStore.thy ===== *)
theory ClusterStore
  imports Json Bytes
begin

text \<open>
  Private clusters (\<open>frontend/src/lib/private-clusters.ts\<close>): the definitions in \<open>localStorage\<close>,
  shared by all tabs, and the passwords a tab holds for the clusters that do not remember theirs.
  A stored item is a JSON value; a definition is read from it with its declared fields, so other
  members of an item are not carried. Time stamps are carried as they are. The clock, fresh ids and
  whether \<open>setItem\<close> succeeds (quota) are arguments; \<open>typeof window\<close> is a browser's.
\<close>

record cluster_auth =
  au_type :: jstr
  au_username :: "jstr option"
  au_password :: "jstr option"

record cluster_tls =
  tls_enabled :: bool
  tls_insecure :: "bool option"

record cluster_registry =
  sr_url :: "jstr option"
  sr_username :: "jstr option"
  sr_password :: "jstr option"
  sr_insecure :: "bool option"
  credential_required :: "bool option"

record cluster_input =
  ci_name :: jstr
  ci_is_prod :: "bool option"
  ci_brokers :: "jstr list"
  ci_auth :: cluster_auth
  ci_tls :: "cluster_tls option"
  ci_registry :: "cluster_registry option"
  ci_remember :: "bool option"

record private_cluster = cluster_input +
  pc_id :: jstr
  pc_created :: "json option"
  pc_updated :: "json option"

record session_passwords =
  sp_password :: "jstr option"
  sp_sr_password :: "jstr option"

text \<open>
  The keys are \<open>JSON.stringify\<close> of arrays of strings and booleans and only ever compared; the
  tuples of their components stand for them.
\<close>

type_synonym sasl_key = "jstr list \<times> jstr \<times> jstr \<times> bool \<times> bool"
type_synonym sr_key = "jstr \<times> jstr \<times> bool"

record held_passwords =
  hp_password :: "jstr option"
  hp_sasl_key :: sasl_key
  hp_sr_password :: "jstr option"
  hp_sr_key :: sr_key

definition opt_default :: "'a \<Rightarrow> 'a option \<Rightarrow> 'a" where
  "opt_default d v = (case v of None \<Rightarrow> d | Some x \<Rightarrow> x)"

lemma opt_default_simps [simp]: "opt_default d None = d" "opt_default d (Some x) = x"
  by (simp_all add: opt_default_def)

definition or_else :: "'a option \<Rightarrow> 'a option \<Rightarrow> 'a option" where
  "or_else a b = (case a of None \<Rightarrow> b | Some x \<Rightarrow> Some x)"

lemma or_else_simps [simp]: "or_else None b = b" "or_else (Some x) b = Some x" "or_else a None = a"
  by (simp_all add: or_else_def split: option.splits)

text \<open>\<open>s || undefined\<close> for an optional string.\<close>

definition nonempty :: "jstr option \<Rightarrow> jstr option" where
  "nonempty s = (if s = Some [] then None else s)"

lemma nonempty_idem [simp]: "nonempty (nonempty s) = nonempty s" "nonempty None = None"
  by (simp_all add: nonempty_def)

definition sasl_key_of :: "('a) cluster_input_scheme \<Rightarrow> sasl_key" where
  "sasl_key_of c = (ci_brokers c, au_type (ci_auth c), opt_default [] (au_username (ci_auth c)),
     (case ci_tls c of None \<Rightarrow> False | Some t \<Rightarrow> tls_enabled t),
     (case ci_tls c of None \<Rightarrow> False | Some t \<Rightarrow> tls_insecure t = Some True))"

definition sr_key_of :: "('a) cluster_input_scheme \<Rightarrow> sr_key" where
  "sr_key_of c = (case ci_registry c of
      None \<Rightarrow> ([], [], False)
    | Some sr \<Rightarrow> (opt_default [] (sr_url sr), opt_default [] (sr_username sr), sr_insecure sr = Some True))"

type_synonym session = "(jstr, held_passwords) jsmap"

definition hold :: "private_cluster \<Rightarrow> session_passwords \<Rightarrow> session \<Rightarrow> session" where
  "hold c pw s = mset_key (pc_id c)
     \<lparr>hp_password = sp_password pw, hp_sasl_key = sasl_key_of c, hp_sr_password = sp_sr_password pw, hp_sr_key = sr_key_of c\<rparr> s"

definition held_for :: "private_cluster \<Rightarrow> held_passwords \<Rightarrow> session_passwords" where
  "held_for c h =
     \<lparr>sp_password = (if hp_sasl_key h = sasl_key_of c then hp_password h else None),
      sp_sr_password = (if hp_sr_key h = sr_key_of c then hp_sr_password h else None)\<rparr>"

definition remembers_credentials :: "private_cluster \<Rightarrow> bool" where
  "remembers_credentials c \<longleftrightarrow> ci_remember c \<noteq> Some False"

text \<open>The passwords a definition carries, and the definition without them.\<close>

definition carried :: "private_cluster \<Rightarrow> session_passwords" where
  "carried c = \<lparr>sp_password = nonempty (au_password (ci_auth c)),
     sp_sr_password = (case ci_registry c of None \<Rightarrow> None | Some sr \<Rightarrow> nonempty (sr_password sr))\<rparr>"

definition without_passwords :: "private_cluster \<Rightarrow> private_cluster" where
  "without_passwords c = c\<lparr>ci_auth := (ci_auth c)\<lparr>au_password := None\<rparr>,
     ci_registry := map_option (\<lambda>sr. sr\<lparr>sr_password := None,
       credential_required := Some (sp_sr_password (carried c) \<noteq> None \<or> opt_default False (credential_required sr))\<rparr>) (ci_registry c)\<rparr>"

definition to_stored :: "private_cluster \<Rightarrow> session \<Rightarrow> private_cluster \<times> session" where
  "to_stored c s =
     (if remembers_credentials c then (c, mdelete (pc_id c) s)
      else (without_passwords c,
            if sp_password (carried c) \<noteq> None \<or> sp_sr_password (carried c) \<noteq> None
            then hold c (carried c) s else mdelete (pc_id c) s))"

definition with_session_passwords :: "session \<Rightarrow> private_cluster \<Rightarrow> private_cluster" where
  "with_session_passwords s c =
     (case (if remembers_credentials c then None else mget s (pc_id c)) of
        None \<Rightarrow> c
      | Some h \<Rightarrow>
          let pw = held_for c h
          in c\<lparr>ci_auth := (ci_auth c)\<lparr>au_password := or_else (au_password (ci_auth c)) (sp_password pw)\<rparr>,
               ci_registry := map_option (\<lambda>sr. sr\<lparr>sr_password := or_else (sr_password sr) (sp_sr_password pw)\<rparr>) (ci_registry c)\<rparr>)"

definition missing_passwords :: "private_cluster \<Rightarrow> bool \<times> bool" where
  "missing_passwords c =
     (if remembers_credentials c then (False, False)
      else (au_type (ci_auth c) \<noteq> js ''none'' \<and> nonempty (au_password (ci_auth c)) = None,
            (case ci_registry c of None \<Rightarrow> False
             | Some sr \<Rightarrow> nonempty (sr_url sr) \<noteq> None \<and> credential_required sr = Some True \<and> nonempty (sr_password sr) = None)))"

definition needs_passwords :: "private_cluster \<Rightarrow> bool" where
  "needs_passwords c \<longleftrightarrow> fst (missing_passwords c) \<or> snd (missing_passwords c)"

section \<open>Items of the store\<close>

definition is_private_cluster :: "json \<Rightarrow> bool" where
  "is_private_cluster v \<longleftrightarrow>
     is_object v
     \<and> as_string (jprop (js ''id'') v) \<noteq> None
     \<and> as_string (jprop (js ''name'') v) \<noteq> None
     \<and> (jprop (js ''is_prod'') v = None \<or> as_bool (jprop (js ''is_prod'') v) \<noteq> None)
     \<and> (jprop (js ''remember_credentials'') v = None \<or> as_bool (jprop (js ''remember_credentials'') v) \<noteq> None)
     \<and> (case as_array (jprop (js ''brokers'') v) of None \<Rightarrow> False | Some bs \<Rightarrow> list_all (\<lambda>b. as_string (Some b) \<noteq> None) bs)
     \<and> (case jprop (js ''auth'') v of None \<Rightarrow> False | Some a \<Rightarrow> is_object a)"

definition read_auth :: "json \<Rightarrow> cluster_auth" where
  "read_auth a = \<lparr>au_type = opt_default [] (as_string (jprop (js ''type'') a)),
     au_username = as_string (jprop (js ''username'') a), au_password = as_string (jprop (js ''password'') a)\<rparr>"

definition read_tls :: "json \<Rightarrow> cluster_tls" where
  "read_tls t = \<lparr>tls_enabled = (as_bool (jprop (js ''enabled'') t) = Some True),
     tls_insecure = as_bool (jprop (js ''insecure_skip_verify'') t)\<rparr>"

definition read_registry :: "json \<Rightarrow> cluster_registry" where
  "read_registry r = \<lparr>sr_url = as_string (jprop (js ''url'') r), sr_username = as_string (jprop (js ''username'') r),
     sr_password = as_string (jprop (js ''password'') r), sr_insecure = as_bool (jprop (js ''insecure_skip_verify'') r),
     credential_required = as_bool (jprop (js ''credential_required'') r)\<rparr>"

definition record_at :: "jstr \<Rightarrow> json \<Rightarrow> json option" where
  "record_at k v = (case jprop k v of Some r \<Rightarrow> if is_record r then Some r else None | None \<Rightarrow> None)"

definition read_cluster :: "json \<Rightarrow> private_cluster" where
  "read_cluster v = \<lparr>ci_name = opt_default [] (as_string (jprop (js ''name'') v)), ci_is_prod = as_bool (jprop (js ''is_prod'') v),
     ci_brokers = map (\<lambda>b. opt_default [] (as_string (Some b))) (opt_default [] (as_array (jprop (js ''brokers'') v))),
     ci_auth = read_auth (opt_default JsNull (jprop (js ''auth'') v)), ci_tls = map_option read_tls (record_at (js ''tls'') v),
     ci_registry = map_option read_registry (record_at (js ''schema_registry'') v),
     ci_remember = as_bool (jprop (js ''remember_credentials'') v), pc_id = opt_default [] (as_string (jprop (js ''id'') v)),
     pc_created = jprop (js ''created_at'') v, pc_updated = jprop (js ''updated_at'') v\<rparr>"

definition auth_json :: "cluster_auth \<Rightarrow> json" where
  "auth_json a = JsObject (members [(js ''type'', Some (JsString (au_type a))),
     (js ''username'', map_option JsString (au_username a)), (js ''password'', map_option JsString (au_password a))])"

definition tls_json :: "cluster_tls \<Rightarrow> json" where
  "tls_json t = JsObject (members [(js ''enabled'', Some (JsBool (tls_enabled t))),
     (js ''insecure_skip_verify'', map_option JsBool (tls_insecure t))])"

definition registry_members :: "cluster_registry \<Rightarrow> (jstr \<times> json option) list" where
  "registry_members r = [(js ''url'', map_option JsString (sr_url r)), (js ''username'', map_option JsString (sr_username r)),
     (js ''password'', map_option JsString (sr_password r)), (js ''insecure_skip_verify'', map_option JsBool (sr_insecure r))]"

definition cluster_json :: "private_cluster \<Rightarrow> json" where
  "cluster_json c = JsObject (members [(js ''id'', Some (JsString (pc_id c))), (js ''name'', Some (JsString (ci_name c))),
     (js ''is_prod'', map_option JsBool (ci_is_prod c)), (js ''brokers'', Some (JsArray (map JsString (ci_brokers c)))),
     (js ''auth'', Some (auth_json (ci_auth c))), (js ''tls'', map_option tls_json (ci_tls c)),
     (js ''schema_registry'', map_option (\<lambda>r. JsObject (members (registry_members r @
        [(js ''credential_required'', map_option JsBool (credential_required r))]))) (ci_registry c)),
     (js ''remember_credentials'', map_option JsBool (ci_remember c)),
     (js ''created_at'', pc_created c), (js ''updated_at'', pc_updated c)])"

section \<open>Reading and writing the store\<close>

text \<open>The item under the storage key: none (or an empty text, or no access), a text that is not JSON, a JSON value.\<close>

datatype stored = Absent | Unreadable | Stored json

record store =
  st_stored :: stored
  st_session :: session
  st_events :: nat

definition safe_read :: "stored \<Rightarrow> private_cluster list" where
  "safe_read s = (case s of
      Stored (JsArray vs) \<Rightarrow> map read_cluster (filter is_private_cluster vs)
    | _ \<Rightarrow> [])"

fun to_stored_all :: "private_cluster list \<Rightarrow> session \<Rightarrow> private_cluster list \<times> session" where
  "to_stored_all [] s = ([], s)"
| "to_stored_all (c # cs) s =
     (let (c', s') = to_stored c s; (cs', s'') = to_stored_all cs s' in (c' # cs', s''))"

text \<open>A write that fails (quota) has moved the passwords to the session map all the same.\<close>

definition safe_write :: "bool \<Rightarrow> private_cluster list \<Rightarrow> store \<Rightarrow> store" where
  "safe_write ok items st =
     (let (cs, s) = to_stored_all items (st_session st)
      in if ok then st\<lparr>st_stored := Stored (JsArray (map cluster_json cs)), st_session := s, st_events := Suc (st_events st)\<rparr>
         else st\<lparr>st_session := s\<rparr>)"

definition read_all :: "store \<Rightarrow> private_cluster list" where
  "read_all st = map (with_session_passwords (st_session st)) (safe_read (st_stored st))"

definition list_private_clusters :: "store \<Rightarrow> private_cluster list" where
  "list_private_clusters st = read_all st"

definition get_private_cluster_by_name :: "store \<Rightarrow> jstr \<Rightarrow> private_cluster option" where
  "get_private_cluster_by_name st name = find (\<lambda>c. ci_name c = name) (read_all st)"

definition get_private_cluster_by_id :: "store \<Rightarrow> jstr \<Rightarrow> private_cluster option" where
  "get_private_cluster_by_id st i = find (\<lambda>c. pc_id c = i) (read_all st)"

definition set_session_passwords :: "jstr \<Rightarrow> session_passwords \<Rightarrow> store \<Rightarrow> store" where
  "set_session_passwords i pw st =
     (case find (\<lambda>c. pc_id c = i) (safe_read (st_stored st)) of
        None \<Rightarrow> st
      | Some c \<Rightarrow>
          let held = (case mget (st_session st) i of
                        None \<Rightarrow> \<lparr>sp_password = None, sp_sr_password = None\<rparr>
                      | Some h \<Rightarrow> held_for c h)
          in st\<lparr>st_session := hold c \<lparr>sp_password = or_else (sp_password pw) (sp_password held),
                  sp_sr_password = or_else (sp_sr_password pw) (sp_sr_password held)\<rparr> (st_session st),
                st_events := Suc (st_events st)\<rparr>)"

text \<open>The index of the first item with a property, as \<open>findIndex\<close>.\<close>

fun find_index :: "('a \<Rightarrow> bool) \<Rightarrow> 'a list \<Rightarrow> nat option" where
  "find_index P [] = None"
| "find_index P (x # xs) = (if P x then Some 0 else map_option Suc (find_index P xs))"

text \<open>The spread of an input over the members of a definition; the input carries every member.\<close>

definition with_input :: "cluster_input \<Rightarrow> jstr \<Rightarrow> json option \<Rightarrow> json option \<Rightarrow> private_cluster" where
  "with_input inp i created updated =
     \<lparr>ci_name = ci_name inp, ci_is_prod = ci_is_prod inp, ci_brokers = ci_brokers inp, ci_auth = ci_auth inp, ci_tls = ci_tls inp,
      ci_registry = ci_registry inp, ci_remember = ci_remember inp, pc_id = i, pc_created = created, pc_updated = updated\<rparr>"

definition upsert_private_cluster :: "int \<Rightarrow> jstr \<Rightarrow> bool \<Rightarrow> jstr option \<Rightarrow> cluster_input \<Rightarrow> store \<Rightarrow> private_cluster \<times> store" where
  "upsert_private_cluster now fresh ok i inp st =
     (let items = read_all st;
          idx = (case nonempty i of None \<Rightarrow> None | Some j \<Rightarrow> find_index (\<lambda>c. pc_id c = j) items)
      in case idx of
           Some n \<Rightarrow>
             let c = items ! n;
                 updated = (with_input inp (pc_id c) (pc_created c) (Some (JsInt now)))
                   \<lparr>ci_remember := or_else (ci_remember inp) (ci_remember c)\<rparr>
             in (updated, safe_write ok (items[n := updated]) st)
         | None \<Rightarrow>
             let created = with_input inp (opt_default fresh i) (Some (JsInt now)) (Some (JsInt now))
             in (created, safe_write ok (items @ [created]) st))"

definition delete_private_cluster :: "bool \<Rightarrow> jstr \<Rightarrow> store \<Rightarrow> store" where
  "delete_private_cluster ok i st =
     (let items = filter (\<lambda>c. pc_id c \<noteq> i) (read_all st)
      in safe_write ok items (st\<lparr>st_session := mdelete i (st_session st)\<rparr>))"

text \<open>\<open>newId\<close>: \<open>randomUUID\<close>, else random bytes, else the clock in base 36.\<close>

fun base36 :: "nat \<Rightarrow> jstr" where
  "base36 n = (let d = (\<lambda>k. of_nat (if k < 10 then 48 + k else 87 + k))
     in if n < 36 then [d n] else base36 (n div 36) @ [d (n mod 36)])"

definition new_id :: "jstr option \<Rightarrow> nat list option \<Rightarrow> nat \<Rightarrow> jstr" where
  "new_id uuid random now = (case uuid of
      Some u \<Rightarrow> u
    | None \<Rightarrow> (case random of
        Some bs \<Rightarrow> js ''pc_'' @ concat (map (hex_pad 2) (take 8 bs))
      | None \<Rightarrow> js ''pc_'' @ base36 now))"

section \<open>Export and import\<close>

definition bundle_schema :: jstr where
  "bundle_schema = js ''kafkito.private-clusters/v1''"

record export_bundle =
  xb_schema :: jstr
  xb_exported_at :: jstr
  xb_clusters :: "private_cluster list"

definition make_export :: "jstr \<Rightarrow> jstr set option \<Rightarrow> store \<Rightarrow> export_bundle" where
  "make_export now_iso ids st =
     (let cs = safe_read (st_stored st)
      in \<lparr>xb_schema = bundle_schema, xb_exported_at = now_iso,
          xb_clusters = (case ids of None \<Rightarrow> cs | Some is \<Rightarrow> filter (\<lambda>c. pc_id c \<in> is) cs)\<rparr>)"

definition bundle_json :: "export_bundle \<Rightarrow> json" where
  "bundle_json b = JsObject [(js ''schema'', JsString (xb_schema b)), (js ''exported_at'', JsString (xb_exported_at b)),
     (js ''clusters'', JsArray (map cluster_json (xb_clusters b)))]"

record import_result =
  ir_added :: nat
  ir_updated :: nat
  ir_skipped :: nat

type_synonym by_id = "(jstr, private_cluster) jsmap"

definition import_item :: "int \<Rightarrow> json \<Rightarrow> by_id \<times> import_result \<Rightarrow> by_id \<times> import_result" where
  "import_item now v acc = (case acc of (m, r) \<Rightarrow>
     if \<not> is_private_cluster v then (m, r\<lparr>ir_skipped := Suc (ir_skipped r)\<rparr>)
     else let item = read_cluster v
       in case mget m (pc_id item) of
            Some prev \<Rightarrow> (mset_key (pc_id item) (item\<lparr>ci_remember := or_else (ci_remember item) (ci_remember prev),
                pc_updated := Some (JsInt now)\<rparr>) m, r\<lparr>ir_updated := Suc (ir_updated r)\<rparr>)
          | None \<Rightarrow> (mset_key (pc_id item) item m, r\<lparr>ir_added := Suc (ir_added r)\<rparr>))"

definition index_by_id :: "private_cluster list \<Rightarrow> by_id" where
  "index_by_id cs = foldl (\<lambda>m c. mset_key (pc_id c) c m) [] cs"

text \<open>The outer argument is the parsed text, \<open>None\<close> when it is not JSON.\<close>

definition import_bundle :: "int \<Rightarrow> bool \<Rightarrow> json option \<Rightarrow> store \<Rightarrow> (jstr + import_result) \<times> store" where
  "import_bundle now ok raw st =
     (case raw of
        None \<Rightarrow> (Inl (js ''invalid JSON''), st)
      | Some v \<Rightarrow>
          if \<not> is_object v then (Inl (js ''invalid bundle''), st)
          else case (jprop (js ''schema'') v, as_array (jprop (js ''clusters'') v)) of
            (Some (JsString sc), Some items) \<Rightarrow>
              if sc \<noteq> bundle_schema then (Inl (js ''unsupported bundle format''), st)
              else let (m, r) = fold (import_item now) items
                     (index_by_id (read_all st), \<lparr>ir_added = 0, ir_updated = 0, ir_skipped = 0\<rparr>)
                   in (Inr r, safe_write ok (map snd m) st)
          | _ \<Rightarrow> (Inl (js ''unsupported bundle format''), st))"

section \<open>The header of a request\<close>

datatype pc_error = PasswordRequired jstr | MissingTls

definition backend_json :: "private_cluster \<Rightarrow> cluster_tls \<Rightarrow> json" where
  "backend_json c t = JsObject (members [(js ''name'', Some (JsString (ci_name c))), (js ''is_prod'', map_option JsBool (ci_is_prod c)),
     (js ''brokers'', Some (JsArray (map JsString (ci_brokers c)))), (js ''auth'', Some (auth_json (ci_auth c))),
     (js ''tls'', Some (tls_json t)),
     (js ''schema_registry'', map_option (\<lambda>r. JsObject (members (registry_members r))) (ci_registry c))])"

text \<open>An item without \<open>tls\<close> passes \<open>isPrivateCluster\<close>; reading \<open>c.tls.enabled\<close> then throws a TypeError.\<close>

definition to_backend_config :: "private_cluster \<Rightarrow> pc_error + json" where
  "to_backend_config c = (case ci_tls c of None \<Rightarrow> Inl MissingTls | Some t \<Rightarrow> Inr (backend_json c t))"

definition encode_private_cluster_header :: "private_cluster \<Rightarrow> pc_error + jstr" where
  "encode_private_cluster_header c =
     (if needs_passwords c then Inl (PasswordRequired (ci_name c))
      else bindE (to_backend_config c) (\<lambda>v. Inr (btoa (utf8 (stringify v)))))"

section \<open>The settings form\<close>

text \<open>\<open>FormState\<close>, \<open>toPrivateCluster\<close> and \<open>fromPrivateCluster\<close> of \<open>routes/settings.clusters.tsx\<close>.\<close>

record form_state =
  f_id :: "jstr option"
  f_name :: jstr
  f_is_prod :: bool
  f_brokers_csv :: jstr
  f_tls_enabled :: bool
  f_tls_insecure :: bool
  f_auth_type :: jstr
  f_username :: jstr
  f_password :: jstr
  f_sr_url :: jstr
  f_sr_username :: jstr
  f_sr_password :: jstr
  f_sr_insecure :: bool
  f_remember :: bool

definition empty_form :: form_state where
  "empty_form = \<lparr>f_id = None, f_name = [], f_is_prod = False, f_brokers_csv = [], f_tls_enabled = True, f_tls_insecure = False,
     f_auth_type = js ''none'', f_username = [], f_password = [], f_sr_url = [], f_sr_username = [], f_sr_password = [],
     f_sr_insecure = False, f_remember = False\<rparr>"

definition form_brokers :: "jstr \<Rightarrow> jstr list" where
  "form_brokers csv = filter (\<lambda>b. b \<noteq> []) (map trim (split_on (ch CHR '','') csv))"

definition to_private_cluster :: "form_state \<Rightarrow> jstr option \<times> cluster_input" where
  "to_private_cluster f =
     (f_id f,
      \<lparr>ci_name = trim (f_name f), ci_is_prod = Some (f_is_prod f), ci_brokers = form_brokers (f_brokers_csv f),
       ci_auth = \<lparr>au_type = f_auth_type f,
         au_username = (if f_auth_type f = js ''none'' then None else nonempty (Some (f_username f))),
         au_password = (if f_auth_type f = js ''none'' then None else nonempty (Some (f_password f)))\<rparr>,
       ci_tls = Some \<lparr>tls_enabled = f_tls_enabled f, tls_insecure = Some (f_tls_insecure f)\<rparr>,
       ci_registry = (if f_sr_url f = [] then None
         else Some \<lparr>sr_url = Some (f_sr_url f), sr_username = nonempty (Some (f_sr_username f)),
           sr_password = nonempty (Some (f_sr_password f)), sr_insecure = Some (f_sr_insecure f), credential_required = None\<rparr>),
       ci_remember = Some (f_remember f)\<rparr>)"

definition from_private_cluster :: "private_cluster \<Rightarrow> form_state" where
  "from_private_cluster c =
     \<lparr>f_id = Some (pc_id c), f_name = ci_name c, f_is_prod = (ci_is_prod c = Some True), f_brokers_csv = join (js '', '') (ci_brokers c),
      f_tls_enabled = (case ci_tls c of None \<Rightarrow> False | Some t \<Rightarrow> tls_enabled t),
      f_tls_insecure = (case ci_tls c of None \<Rightarrow> False | Some t \<Rightarrow> tls_insecure t = Some True),
      f_auth_type = au_type (ci_auth c), f_username = opt_default [] (au_username (ci_auth c)),
      f_password = opt_default [] (au_password (ci_auth c)),
      f_sr_url = (case ci_registry c of None \<Rightarrow> [] | Some r \<Rightarrow> opt_default [] (sr_url r)),
      f_sr_username = (case ci_registry c of None \<Rightarrow> [] | Some r \<Rightarrow> opt_default [] (sr_username r)),
      f_sr_password = (case ci_registry c of None \<Rightarrow> [] | Some r \<Rightarrow> opt_default [] (sr_password r)),
      f_sr_insecure = (case ci_registry c of None \<Rightarrow> False | Some r \<Rightarrow> sr_insecure r = Some True),
      f_remember = (ci_remember c \<noteq> Some False)\<rparr>"

end
