(* ===== verification/ClusterStoreProps.thy ===== *)
theory ClusterStoreProps
  imports ClusterStore
begin

text \<open>
  What the store of private clusters guarantees: items read back as written, the view of a tab
  after a write, the refinement of a map from ids to definitions, and, over all interleavings of
  the operations of any number of tabs, that no password of a cluster that does not remember its
  passwords is ever stored and that no password ever meets a connection it was not supplied for.
\<close>

section \<open>Items read back\<close>

declare members_simps [simp del]

lemma as_typed [simp]: "as_string (map_option JsString s) = s" "as_bool (map_option JsBool b) = b"
  by (cases s; simp) (cases b; simp)

lemma typed_none [simp]: "map_option JsBool b = None \<longleftrightarrow> b = None"
  by (cases b) auto

lemma jprop_members [simp]: "distinct (map fst fs) \<Longrightarrow>
    jprop k (JsObject (members fs)) = (case map_of fs k of Some v \<Rightarrow> v | None \<Rightarrow> None)"
  by (simp add: jprop_def mget_members)

lemma object_kinds [simp]: "is_object (JsObject fs)" "is_object (JsArray vs)" "is_record (JsObject fs)"
  by (simp_all add: is_object_def is_record_def)

lemma read_auth_json [simp]: "read_auth (auth_json a) = a"
  by (simp add: read_auth_def auth_json_def)

lemma read_tls_json [simp]: "read_tls (tls_json t) = t"
  by (simp add: read_tls_def tls_json_def)

lemma read_registry_json [simp]: "read_registry (JsObject (members (registry_members r @
    [(js ''credential_required'', map_option JsBool (credential_required r))]))) = r"
  by (simp add: read_registry_def registry_members_def)

lemma kinds_json [simp]: "is_record (tls_json t)" "is_object (auth_json a)"
  by (simp_all add: tls_json_def auth_json_def)

lemma read_cluster_json [simp]: "read_cluster (cluster_json c) = c"
  by (cases "ci_tls c"; cases "ci_registry c") (simp_all add: read_cluster_def cluster_json_def record_at_def comp_def)

lemma is_private_cluster_json [simp]: "is_private_cluster (cluster_json c)"
  by (cases "ci_is_prod c"; cases "ci_remember c") (simp_all add: is_private_cluster_def cluster_json_def list_all_iff)

lemma safe_read_items [simp]: "safe_read (Stored (JsArray (map cluster_json cs))) = cs"
  by (simp add: safe_read_def comp_def filter_True)

section \<open>The view of a tab after a write\<close>

text \<open>What a definition looks like in the tab that wrote it.\<close>

definition settle :: "private_cluster \<Rightarrow> private_cluster" where
  "settle c = (if remembers_credentials c then c
     else c\<lparr>ci_auth := (ci_auth c)\<lparr>au_password := sp_password (carried c)\<rparr>,
       ci_registry := map_option (\<lambda>sr. sr\<lparr>sr_password := sp_sr_password (carried c),
         credential_required := Some (sp_sr_password (carried c) \<noteq> None \<or> opt_default False (credential_required sr))\<rparr>)
         (ci_registry c)\<rparr>)"

lemma without_passwords_keys [simp]: "sasl_key_of (without_passwords c) = sasl_key_of c"
    "sr_key_of (without_passwords c) = sr_key_of c" "pc_id (without_passwords c) = pc_id c"
    "ci_remember (without_passwords c) = ci_remember c" "remembers_credentials (without_passwords c) = remembers_credentials c"
  by (simp_all add: sasl_key_of_def sr_key_of_def without_passwords_def remembers_credentials_def split: option.splits)

lemma settle_keys [simp]: "pc_id (settle c) = pc_id c" "remembers_credentials (settle c) = remembers_credentials c"
  by (simp_all add: settle_def remembers_credentials_def)

lemma settle_idem [simp]: "settle (settle c) = settle c"
  by (cases "ci_registry c") (simp_all add: settle_def remembers_credentials_def carried_def)

lemma with_session_keys [simp]: "pc_id (with_session_passwords s c) = pc_id c"
    "ci_remember (with_session_passwords s c) = ci_remember c"
    "sasl_key_of (with_session_passwords s c) = sasl_key_of c" "sr_key_of (with_session_passwords s c) = sr_key_of c"
    "remembers_credentials (with_session_passwords s c) = remembers_credentials c"
  by (cases "ci_registry c"; simp add: with_session_passwords_def Let_def sasl_key_of_def sr_key_of_def
      remembers_credentials_def split: option.splits)+

lemma to_stored_id [simp]: "pc_id (fst (to_stored c s)) = pc_id c"
    "remembers_credentials (fst (to_stored c s)) = remembers_credentials c"
  by (simp_all add: to_stored_def)

lemma to_stored_view: "with_session_passwords (snd (to_stored c s)) (fst (to_stored c s)) = settle c"
proof (cases "remembers_credentials c")
  case True
  then show ?thesis by (simp add: to_stored_def with_session_passwords_def settle_def)
next
  case False
  show ?thesis
  proof (cases "sp_password (carried c) \<noteq> None \<or> sp_sr_password (carried c) \<noteq> None")
    case True
    then have "mget (snd (to_stored c s)) (pc_id c) = Some \<lparr>hp_password = sp_password (carried c), hp_sasl_key = sasl_key_of c,
        hp_sr_password = sp_sr_password (carried c), hp_sr_key = sr_key_of c\<rparr>"
      using False by (simp add: to_stored_def hold_def map_simps)
    then show ?thesis using False True
      by (simp add: with_session_passwords_def to_stored_def held_for_def Let_def)
         (cases "ci_registry c"; simp add: without_passwords_def settle_def)
  next
    case None: False
    then have "mget (snd (to_stored c s)) (pc_id c) = None" using False by (simp add: to_stored_def map_simps)
    then show ?thesis using False None
      by (simp add: with_session_passwords_def to_stored_def)
         (cases "ci_registry c"; simp add: without_passwords_def settle_def carried_def)
  qed
qed

lemma to_stored_other: "pc_id d \<noteq> pc_id c \<Longrightarrow> with_session_passwords (snd (to_stored c s)) d = with_session_passwords s d"
  by (simp add: to_stored_def with_session_passwords_def hold_def map_simps)

lemma to_stored_all_other:
  "pc_id d \<notin> pc_id ` set cs \<Longrightarrow> with_session_passwords (snd (to_stored_all cs s)) d = with_session_passwords s d"
  by (induction cs arbitrary: s) (auto simp: to_stored_other split: prod.splits dest!: arg_cong [where f = snd])

lemma to_stored_all_simps [simp]:
  "fst (to_stored_all (c # cs) s) = fst (to_stored c s) # fst (to_stored_all cs (snd (to_stored c s)))"
  "snd (to_stored_all (c # cs) s) = snd (to_stored_all cs (snd (to_stored c s)))"
  by (simp_all add: Let_def split: prod.splits)

declare to_stored_all.simps(2) [simp del]

lemma to_stored_all_ids [simp]: "map pc_id (fst (to_stored_all cs s)) = map pc_id cs"
  by (induction cs arbitrary: s) simp_all

lemma to_stored_all_view: "distinct (map pc_id cs) \<Longrightarrow>
    map (with_session_passwords (snd (to_stored_all cs s))) (fst (to_stored_all cs s)) = map settle cs"
proof (induction cs arbitrary: s)
  case (Cons c cs)
  have "with_session_passwords (snd (to_stored_all cs (snd (to_stored c s)))) (fst (to_stored c s)) = settle c"
    using Cons.prems by (subst to_stored_all_other) (simp_all add: to_stored_view)
  with Cons show ?case by simp
qed simp

definition ids_of :: "store \<Rightarrow> jstr list" where
  "ids_of st = map pc_id (safe_read (st_stored st))"

lemma read_all_ids: "map pc_id (read_all st) = ids_of st"
  by (simp add: read_all_def ids_of_def comp_def)

lemma safe_write_view:
  assumes "distinct (map pc_id items)"
  shows "read_all (safe_write True items st) = map settle items" "ids_of (safe_write True items st) = map pc_id items"
proof -
  obtain cs s where cs: "to_stored_all items (st_session st) = (cs, s)" by fastforce
  have "map (with_session_passwords s) cs = map settle items" "map pc_id cs = map pc_id items"
    using to_stored_all_view [OF assms, of "st_session st"] to_stored_all_ids [of items "st_session st"] unfolding cs by simp_all
  then show "read_all (safe_write True items st) = map settle items" "ids_of (safe_write True items st) = map pc_id items"
    by (simp_all add: safe_write_def cs read_all_def ids_of_def)
qed

section \<open>A map from ids to definitions\<close>

text \<open>The abstraction: the definition a tab sees under an id, with the passwords it holds.\<close>

definition view_map :: "store \<Rightarrow> jstr \<Rightarrow> private_cluster option" where
  "view_map st i = map_option settle (get_private_cluster_by_id st i)"

definition entries :: "private_cluster list \<Rightarrow> jstr \<Rightarrow> private_cluster option" where
  "entries cs i = map_option settle (find (\<lambda>c. pc_id c = i) cs)"

lemma view_map_entries: "view_map st = entries (read_all st)"
  by (rule ext) (simp add: view_map_def entries_def get_private_cluster_by_id_def)

lemma entries_Cons [simp]: "entries (c # cs) i = (if pc_id c = i then Some (settle c) else entries cs i)" "entries [] i = None"
  by (simp_all add: entries_def)

lemma entries_settle [simp]: "entries (map settle cs) = entries cs"
proof
  show "entries (map settle cs) i = entries cs i" for i by (induction cs) auto
qed

lemma entries_none: "i \<notin> set (map pc_id cs) \<Longrightarrow> entries cs i = None"
  by (induction cs) auto

lemma entries_append: "pc_id c \<notin> set (map pc_id cs) \<Longrightarrow> entries (cs @ [c]) = (entries cs)(pc_id c \<mapsto> settle c)"
proof
  show "pc_id c \<notin> set (map pc_id cs) \<Longrightarrow> entries (cs @ [c]) i = ((entries cs)(pc_id c \<mapsto> settle c)) i" for i
    by (induction cs) auto
qed

lemma entries_update: "n < length cs \<Longrightarrow> pc_id (cs ! n) = pc_id c \<Longrightarrow> distinct (map pc_id cs) \<Longrightarrow>
    entries (cs[n := c]) = (entries cs)(pc_id c \<mapsto> settle c)"
proof
  show "n < length cs \<Longrightarrow> pc_id (cs ! n) = pc_id c \<Longrightarrow> distinct (map pc_id cs) \<Longrightarrow>
      entries (cs[n := c]) i = ((entries cs)(pc_id c \<mapsto> settle c)) i" for i
  proof (induction cs arbitrary: n)
    case (Cons d cs)
    show ?case
    proof (cases n)
      case 0
      with Cons show ?thesis by simp
    next
      case (Suc k)
      then have "pc_id c \<in> pc_id ` set cs" using Cons.prems by (metis imageI length_Cons nth_Cons_Suc nth_mem Suc_less_eq)
      with Cons Suc show ?thesis by auto
    qed
  qed simp
qed

lemma entries_filter: "entries (filter (\<lambda>c. pc_id c \<noteq> i) cs) = (entries cs)(i := None)"
proof
  show "entries (filter (\<lambda>c. pc_id c \<noteq> i) cs) j = ((entries cs)(i := None)) j" for j by (induction cs) auto
qed

lemma find_index_Some: "find_index P xs = Some n \<Longrightarrow> n < length xs \<and> P (xs ! n)"
  by (induction xs arbitrary: n) (auto split: if_splits)

lemma find_index_None: "find_index P xs = None \<longleftrightarrow> (\<forall>x \<in> set xs. \<not> P x)"
  by (induction xs) auto

lemma with_input_id [simp]: "pc_id (with_input inp i a b) = i" "pc_id (c\<lparr>ci_remember := r\<rparr>) = pc_id c"
  by (simp_all add: with_input_def)

lemma store_map_steps:
  assumes "distinct (ids_of st)" "i = None \<Longrightarrow> fresh \<notin> set (ids_of st)" "i \<noteq> Some []"
    and "upsert_private_cluster now fresh True i inp st = (c, st')"
  shows "view_map st' = (view_map st)(pc_id c \<mapsto> settle c)" "distinct (ids_of st')" "pc_id c = opt_default fresh i"
    "view_map (delete_private_cluster True j st) = (view_map st)(j := None)"
    "distinct (ids_of (delete_private_cluster True j st))"
proof -
  have d: "distinct (map pc_id (read_all st))" using assms(1) by (simp add: read_all_ids)
  have ni: "nonempty i = i" using assms(3) by (simp add: nonempty_def)
  have del: "distinct (map pc_id (filter (\<lambda>c. pc_id c \<noteq> j) (read_all st)))" using d by (rule distinct_map_filter)
  show "view_map (delete_private_cluster True j st) = (view_map st)(j := None)"
    "distinct (ids_of (delete_private_cluster True j st))"
    using safe_write_view [OF del] del
    by (simp_all add: delete_private_cluster_def Let_def view_map_entries entries_filter)
  let ?items = "read_all st"
  let ?idx = "case i of None \<Rightarrow> None | Some k \<Rightarrow> find_index (\<lambda>c. pc_id c = k) ?items"
  have "view_map st' = (view_map st)(pc_id c \<mapsto> settle c) \<and> distinct (ids_of st') \<and> pc_id c = opt_default fresh i"
  proof (cases ?idx)
    case None
    then have f: "opt_default fresh i \<notin> set (map pc_id ?items)"
      using assms(2) by (cases i) (auto simp: find_index_None read_all_ids [symmetric])
    define c' where "c' = with_input inp (opt_default fresh i) (Some (JsInt now)) (Some (JsInt now))"
    have c: "c = c'" "st' = safe_write True (?items @ [c']) st"
      using assms(4) None unfolding upsert_private_cluster_def ni c'_def by (auto simp: Let_def)
    have p: "pc_id c' = opt_default fresh i" by (simp add: c'_def)
    have "distinct (map pc_id (?items @ [c']))" using d f p by simp
    from safe_write_view [OF this] this p f show ?thesis
      unfolding c by (simp add: view_map_entries entries_append)
  next
    case (Some n)
    then obtain k where i: "i = Some k" and fi: "find_index (\<lambda>c. pc_id c = k) ?items = Some n" by (cases i) auto
    have n: "n < length ?items" "pc_id (?items ! n) = k" using find_index_Some [OF fi] by auto
    define c' where "c' = (with_input inp (pc_id (?items ! n)) (pc_created (?items ! n)) (Some (JsInt now)))
                   \<lparr>ci_remember := or_else (ci_remember inp) (ci_remember (?items ! n))\<rparr>"
    have c: "c = c'" "st' = safe_write True (?items[n := c']) st"
      using assms(4) Some unfolding upsert_private_cluster_def ni c'_def by (auto simp: Let_def)
    have p: "pc_id c' = k" by (simp add: c'_def n)
    have m: "map pc_id (?items[n := c']) = map pc_id ?items" using n p by (simp add: map_update list_update_same_conv)
    then have "distinct (map pc_id (?items[n := c']))" using d by simp
    from safe_write_view [OF this] this p n i d show ?thesis
      unfolding c by (simp add: view_map_entries entries_update)
  qed
  then show "view_map st' = (view_map st)(pc_id c \<mapsto> settle c)" "distinct (ids_of st')" "pc_id c = opt_default fresh i" by simp_all
qed

text \<open>
  C5: The store refines a map from ids to definitions. Saving a definition binds its id to what
  was saved, passwords included, whether they are stored or held by the tab; deleting unbinds the
  id; every other id keeps its binding, its held passwords too; and ids stay distinct. (A
  definition is seen settled: an empty password counts as none and the registry's mark is set.)
\<close>

theorem store_refines_map:
  assumes "distinct (ids_of st)" "i = None \<Longrightarrow> fresh \<notin> set (ids_of st)" "i \<noteq> Some []"
    and "upsert_private_cluster now fresh True i inp st = (c, st')"
  shows "view_map st' = (view_map st)(pc_id c \<mapsto> settle c) \<and> distinct (ids_of st') \<and> pc_id c = opt_default fresh i \<and>
    view_map (delete_private_cluster True j st) = (view_map st)(j := None) \<and>
    distinct (ids_of (delete_private_cluster True j st))"
  using store_map_steps [OF assms] by blast

definition sample_input :: "bool option \<Rightarrow> jstr option \<Rightarrow> cluster_input" where
  "sample_input remember pw = \<lparr>ci_name = js ''dev'', ci_is_prod = Some False, ci_brokers = [js ''b:9092''],
     ci_auth = \<lparr>au_type = js ''plain'', au_username = Some (js ''u''), au_password = pw\<rparr>,
     ci_tls = Some \<lparr>tls_enabled = True, tls_insecure = None\<rparr>, ci_registry = None, ci_remember = remember\<rparr>"

definition empty_store :: store where
  "empty_store = \<lparr>st_stored = Absent, st_session = [], st_events = 0\<rparr>"

theorem store_refines_map_witness:
  "view_map (snd (upsert_private_cluster 1 (js ''x'') True None (sample_input (Some False) (Some (js ''pw''))) empty_store)) (js ''x'')
     \<noteq> None"
proof -
  let ?u = "upsert_private_cluster 1 (js ''x'') True None (sample_input (Some False) (Some (js ''pw''))) empty_store"
  have "ids_of empty_store = []" by (simp add: ids_of_def empty_store_def safe_read_def)
  with store_refines_map [of empty_store None "js ''x''" 1 "sample_input (Some False) (Some (js ''pw''))" "fst ?u" "snd ?u" "[]"]
  have "view_map (snd ?u) = (view_map empty_store)(pc_id (fst ?u) \<mapsto> settle (fst ?u))" "pc_id (fst ?u) = js ''x''" by simp_all
  then show ?thesis by simp
qed

section \<open>Passwords and the connections they belong to\<close>

datatype secret = SaslSecret jstr sasl_key | RegistrySecret jstr sr_key

definition secrets :: "('a) cluster_input_scheme \<Rightarrow> secret set" where
  "secrets c = {SaslSecret p (sasl_key_of c) | p. au_password (ci_auth c) = Some p} \<union>
     {RegistrySecret p (sr_key_of c) | p sr. ci_registry c = Some sr \<and> sr_password sr = Some p}"

definition held_secrets :: "held_passwords \<Rightarrow> secret set" where
  "held_secrets h = {SaslSecret p (hp_sasl_key h) | p. hp_password h = Some p} \<union>
     {RegistrySecret p (hp_sr_key h) | p. hp_sr_password h = Some p}"

definition session_secrets :: "session \<Rightarrow> secret set" where
  "session_secrets s = (\<Union>(k, h) \<in> set s. held_secrets h)"

lemma nonempty_Some: "nonempty v = Some p \<Longrightarrow> v = Some p"
  by (simp add: nonempty_def split: if_splits)

lemma secrets_without [simp]: "secrets (without_passwords c) = {}"
  by (auto simp: secrets_def without_passwords_def)

lemma session_secrets_mdelete: "session_secrets (mdelete k s) \<subseteq> session_secrets s"
  by (auto simp: session_secrets_def mdelete_def AList.delete_eq)

lemma session_secrets_hold: "session_secrets (hold c pw s) \<subseteq> session_secrets s \<union>
    held_secrets \<lparr>hp_password = sp_password pw, hp_sasl_key = sasl_key_of c, hp_sr_password = sp_sr_password pw, hp_sr_key = sr_key_of c\<rparr>"
  unfolding session_secrets_def hold_def using set_mset_key_subset by fastforce

lemma carried_secrets: "held_secrets \<lparr>hp_password = sp_password (carried c), hp_sasl_key = sasl_key_of c,
    hp_sr_password = sp_sr_password (carried c), hp_sr_key = sr_key_of c\<rparr> \<subseteq> secrets c"
  by (auto simp: held_secrets_def carried_def secrets_def dest: nonempty_Some split: option.splits)

lemma to_stored_secrets: "secrets (fst (to_stored c s)) \<subseteq> secrets c"
    "session_secrets (snd (to_stored c s)) \<subseteq> session_secrets s \<union> secrets c"
  using session_secrets_mdelete [of "pc_id c" s] session_secrets_hold [of c "carried c" s] carried_secrets [of c]
  by (auto simp: to_stored_def)

lemma to_stored_all_secrets:
  "\<Union>(secrets ` set (fst (to_stored_all cs s))) \<subseteq> \<Union>(secrets ` set cs)"
  "session_secrets (snd (to_stored_all cs s)) \<subseteq> session_secrets s \<union> \<Union>(secrets ` set cs)"
proof (induction cs arbitrary: s)
  case (Cons c cs)
  {
    case 1
    show ?case using Cons(1) [of "snd (to_stored c s)"] to_stored_secrets(1) [of c s] by auto
  next
    case 2
    show ?case using Cons(2) [of "snd (to_stored c s)"] to_stored_secrets(2) [of c s] by auto
  }
qed simp_all

lemma with_session_secrets: "secrets (with_session_passwords s c) \<subseteq> secrets c \<union> session_secrets s"
proof (cases "remembers_credentials c \<or> mget s (pc_id c) = None")
  case True
  then show ?thesis by (auto simp: with_session_passwords_def)
next
  case False
  then obtain h where h: "mget s (pc_id c) = Some h" "\<not> remembers_credentials c" by auto
  then have m: "held_secrets h \<subseteq> session_secrets s"
    by (auto simp: session_secrets_def mget_def dest!: map_of_SomeD)
  have k: "sasl_key_of (with_session_passwords s c) = sasl_key_of c" "sr_key_of (with_session_passwords s c) = sr_key_of c" by simp_all
  have "secrets (with_session_passwords s c) \<subseteq> secrets c \<union> held_secrets h"
    unfolding secrets_def k using h
    by (auto simp: with_session_passwords_def held_for_def Let_def held_secrets_def or_else_def split: option.splits if_splits)
  with m show ?thesis by blast
qed

section \<open>Any number of tabs\<close>

text \<open>
  The operations that change the store; the arguments the environment chooses (clock, fresh id,
  failing writes) are part of them.
\<close>

datatype operation =
    OpUpsert int jstr "jstr option" cluster_input
  | OpDelete jstr
  | OpPasswords jstr session_passwords
  | OpImport int "json option"

fun perform :: "operation \<Rightarrow> bool \<Rightarrow> store \<Rightarrow> store" where
  "perform (OpUpsert now fresh i inp) ok st = snd (upsert_private_cluster now fresh ok i inp st)"
| "perform (OpDelete i) ok st = delete_private_cluster ok i st"
| "perform (OpPasswords i pw) ok st = set_session_passwords i pw st"
| "perform (OpImport now raw) ok st = snd (import_bundle now ok raw st)"

text \<open>The items a parsed bundle brings.\<close>

definition bundle_items :: "json option \<Rightarrow> private_cluster list" where
  "bundle_items raw = (case raw of None \<Rightarrow> [] | Some v \<Rightarrow>
     map read_cluster (filter is_private_cluster (opt_default [] (as_array (jprop (js ''clusters'') v)))))"

text \<open>
  The passwords the user supplies with an operation, each for a connection: the one of the form,
  the stored one the dialog asks for, the ones in the imported file.
\<close>

fun supplied :: "operation \<Rightarrow> stored \<Rightarrow> secret set" where
  "supplied (OpUpsert now fresh i inp) s = secrets inp"
| "supplied (OpDelete i) s = {}"
| "supplied (OpPasswords i pw) s = (case find (\<lambda>c. pc_id c = i) (safe_read s) of
      None \<Rightarrow> {}
    | Some c \<Rightarrow> held_secrets \<lparr>hp_password = sp_password pw, hp_sasl_key = sasl_key_of c, hp_sr_password = sp_sr_password pw, hp_sr_key = sr_key_of c\<rparr>)"
| "supplied (OpImport now raw) s = \<Union>(secrets ` set (bundle_items raw))"

definition stored_secrets :: "stored \<Rightarrow> secret set" where
  "stored_secrets s = \<Union>(secrets ` set (safe_read s))"

text \<open>
  A browser: what is in \<open>localStorage\<close>, the passwords each tab holds, and all passwords ever
  supplied. A tab acts, or is closed and opened again.
\<close>

inductive browser :: "stored \<Rightarrow> stored \<Rightarrow> (nat \<Rightarrow> session) \<Rightarrow> secret set \<Rightarrow> bool" for initial where
  start: "browser initial initial (\<lambda>_. []) (stored_secrets initial)"
| act: "browser initial s tabs H \<Longrightarrow>
    st' = perform op ok \<lparr>st_stored = s, st_session = tabs t, st_events = n\<rparr> \<Longrightarrow>
    browser initial (st_stored st') (tabs(t := st_session st')) (H \<union> supplied op s)"
| reopen: "browser initial s tabs H \<Longrightarrow> browser initial s (tabs(t := [])) H"

lemma store_eta [simp]: "\<lparr>st_stored = st_stored st, st_session = st_session st, st_events = st_events st\<rparr> = st"
  by simp

text \<open>Every operation ends in a write of the view, changed by what was supplied, or changes the session only.\<close>

definition view_secrets :: "store \<Rightarrow> secret set" where
  "view_secrets st = \<Union>(secrets ` set (read_all st))"

definition all_secrets :: "store \<Rightarrow> secret set" where
  "all_secrets st = stored_secrets (st_stored st) \<union> session_secrets (st_session st)"

lemma view_secrets_subset: "view_secrets st \<subseteq> all_secrets st"
  using with_session_secrets by (fastforce simp: view_secrets_def read_all_def all_secrets_def stored_secrets_def)

lemma stored_secrets_written: "stored_secrets (Stored (JsArray (map cluster_json cs))) = \<Union>(secrets ` set cs)"
  by (simp add: stored_secrets_def)

lemma safe_write_secrets: "all_secrets (safe_write ok items st) \<subseteq> all_secrets st \<union> \<Union>(secrets ` set items)"
proof -
  obtain cs s where cs: "to_stored_all items (st_session st) = (cs, s)" by fastforce
  have "\<Union>(secrets ` set cs) \<subseteq> \<Union>(secrets ` set items)" "session_secrets s \<subseteq> session_secrets (st_session st) \<union> \<Union>(secrets ` set items)"
    using to_stored_all_secrets [of items "st_session st"] unfolding cs by simp_all
  then show ?thesis by (cases ok) (auto simp: safe_write_def cs all_secrets_def stored_secrets_written simp del: UN_simps)
qed

lemma written_secrets: "\<Union>(secrets ` set items) \<subseteq> view_secrets st \<union> X \<Longrightarrow> all_secrets (safe_write ok items st) \<subseteq> all_secrets st \<union> X"
  using safe_write_secrets [of ok items st] view_secrets_subset [of st] by blast

lemma secrets_with_input [simp]: "secrets (with_input inp i a b) = secrets inp"
    "secrets ((with_input inp i a b)\<lparr>ci_remember := r\<rparr>) = secrets inp"
  by (simp_all add: secrets_def with_input_def sasl_key_of_def sr_key_of_def)

lemma upsert_secrets: "all_secrets (snd (upsert_private_cluster now fresh ok i inp st)) \<subseteq> all_secrets st \<union> secrets inp"
proof -
  let ?items = "read_all st"
  have a: "\<Union>(secrets ` set (?items @ [with_input inp j x y])) \<subseteq> view_secrets st \<union> secrets inp" for j x y
    by (auto simp: view_secrets_def)
  have u: "\<Union>(secrets ` set (?items[n := (with_input inp j x y)\<lparr>ci_remember := r\<rparr>])) \<subseteq> view_secrets st \<union> secrets inp" for n j x y r
    using set_update_subset_insert [of ?items n "(with_input inp j x y)\<lparr>ci_remember := r\<rparr>"] by (fastforce simp: view_secrets_def)
  show ?thesis
    unfolding upsert_private_cluster_def Let_def using written_secrets [OF a] written_secrets [OF u]
    by (auto split: option.splits)
qed

lemma delete_secrets: "all_secrets (delete_private_cluster ok i st) \<subseteq> all_secrets st"
proof -
  let ?st = "st\<lparr>st_session := mdelete i (st_session st)\<rparr>"
  have "all_secrets (delete_private_cluster ok i st) \<subseteq> all_secrets ?st \<union> view_secrets st"
    unfolding delete_private_cluster_def Let_def
    using safe_write_secrets [of ok "filter (\<lambda>c. pc_id c \<noteq> i) (read_all st)" ?st] by (fastforce simp: view_secrets_def)
  moreover have "all_secrets ?st \<subseteq> all_secrets st"
    using session_secrets_mdelete [of i "st_session st"] by (auto simp: all_secrets_def)
  ultimately show ?thesis using view_secrets_subset [of st] by blast
qed

lemma mget_session_secrets: "mget s k = Some h \<Longrightarrow> held_secrets h \<subseteq> session_secrets s"
  by (auto simp: session_secrets_def mget_def dest!: map_of_SomeD)

lemma passwords_secrets: "all_secrets (set_session_passwords i pw st) \<subseteq> all_secrets st \<union> supplied (OpPasswords i pw) (st_stored st)"
proof (cases "find (\<lambda>c. pc_id c = i) (safe_read (st_stored st))")
  case None
  then show ?thesis by (simp add: set_session_passwords_def)
next
  case (Some c)
  define held where "held = (case mget (st_session st) i of None \<Rightarrow> \<lparr>sp_password = None, sp_sr_password = None\<rparr> | Some h \<Rightarrow> held_for c h)"
  let ?hp = "\<lambda>pw. \<lparr>hp_password = sp_password pw, hp_sasl_key = sasl_key_of c, hp_sr_password = sp_sr_password pw, hp_sr_key = sr_key_of c\<rparr>"
  let ?pw = "\<lparr>sp_password = or_else (sp_password pw) (sp_password held), sp_sr_password = or_else (sp_sr_password pw) (sp_sr_password held)\<rparr>"
  have "held_secrets (?hp held) \<subseteq> session_secrets (st_session st)"
  proof (cases "mget (st_session st) i")
    case None
    then show ?thesis by (simp add: held_def held_secrets_def)
  next
    case (Some h)
    have "held_secrets (?hp (held_for c h)) \<subseteq> held_secrets h"
      by (auto simp: held_secrets_def held_for_def split: if_splits)
    with mget_session_secrets [OF Some] Some show ?thesis by (simp add: held_def)
  qed
  moreover have "held_secrets (?hp ?pw) \<subseteq> held_secrets (?hp pw) \<union> held_secrets (?hp held)"
    by (auto simp: held_secrets_def or_else_def split: option.splits)
  moreover have "set_session_passwords i pw st = st\<lparr>st_session := hold c ?pw (st_session st), st_events := Suc (st_events st)\<rparr>"
    by (simp add: set_session_passwords_def Some held_def Let_def)
  ultimately show ?thesis
    using session_secrets_hold [of c ?pw "st_session st"] by (auto simp: all_secrets_def Some)
qed

lemma snd_mset_key: "snd ` set (mset_key k v m) \<subseteq> insert v (snd ` set m)"
  by (induction m) (auto simp: mset_key_def)

definition map_secrets :: "by_id \<Rightarrow> secret set" where
  "map_secrets m = \<Union>(secrets ` snd ` set m)"

lemma map_secrets_mset_key: "map_secrets (mset_key k v m) \<subseteq> secrets v \<union> map_secrets m"
proof -
  have "map_secrets (mset_key k v m) \<subseteq> \<Union>(secrets ` insert v (snd ` set m))"
    unfolding map_secrets_def by (rule Union_mono, rule image_mono, rule snd_mset_key)
  then show ?thesis by (simp add: map_secrets_def)
qed

lemma index_secrets: "map_secrets (foldl (\<lambda>m c. mset_key (pc_id c) c m) m cs) \<subseteq> map_secrets m \<union> \<Union>(secrets ` set cs)"
proof (induction cs arbitrary: m)
  case (Cons c cs)
  have "map_secrets (foldl (\<lambda>m c. mset_key (pc_id c) c m) m (c # cs)) \<subseteq>
      map_secrets (mset_key (pc_id c) c m) \<union> \<Union>(secrets ` set cs)"
    using Cons.IH [of "mset_key (pc_id c) c m"] by (simp only: foldl_Cons)
  also have "\<dots> \<subseteq> (secrets c \<union> map_secrets m) \<union> \<Union>(secrets ` set cs)"
    by (rule Un_mono [OF map_secrets_mset_key subset_refl])
  finally show ?case by (simp add: Un_assoc Un_left_commute)
qed simp

lemma secrets_import [simp]: "secrets (item\<lparr>ci_remember := r, pc_updated := u\<rparr>) = secrets item"
  by (simp add: secrets_def sasl_key_of_def sr_key_of_def)

lemma import_item_secrets: "map_secrets (fst (import_item now v acc)) \<subseteq>
    map_secrets (fst acc) \<union> (if is_private_cluster v then secrets (read_cluster v) else {})"
proof -
  obtain m r where acc: "acc = (m, r)" by fastforce
  have "\<not> is_private_cluster v \<and> fst (import_item now v acc) = m \<or>
      is_private_cluster v \<and> (\<exists>k x. fst (import_item now v acc) = mset_key k x m \<and> secrets x = secrets (read_cluster v))"
  proof (cases "mget m (pc_id (read_cluster v))")
    case None
    then show ?thesis by (auto simp: acc import_item_def Let_def)
  next
    case (Some p)
    let ?x = "(read_cluster v)\<lparr>ci_remember := or_else (ci_remember (read_cluster v)) (ci_remember p), pc_updated := Some (JsInt now)\<rparr>"
    have "is_private_cluster v \<Longrightarrow> fst (import_item now v acc) = mset_key (pc_id (read_cluster v)) ?x m"
      using Some by (simp add: acc import_item_def Let_def)
    moreover have "secrets ?x = secrets (read_cluster v)" by (rule secrets_import)
    ultimately show ?thesis by (cases "is_private_cluster v") (blast, simp add: acc import_item_def)
  qed
  then show ?thesis by (auto simp: acc dest!: subsetD [OF map_secrets_mset_key])
qed

lemma import_fold_secrets: "map_secrets (fst (fold (import_item now) items acc)) \<subseteq>
    map_secrets (fst acc) \<union> \<Union>(secrets ` set (map read_cluster (filter is_private_cluster items)))"
proof (induction items arbitrary: acc)
  case (Cons v items)
  have "map_secrets (fst (fold (import_item now) (v # items) acc)) \<subseteq>
      map_secrets (fst (import_item now v acc)) \<union> \<Union>(secrets ` set (map read_cluster (filter is_private_cluster items)))"
    using Cons.IH [of "import_item now v acc"] by (simp only: fold_simps)
  also have "\<dots> \<subseteq> (map_secrets (fst acc) \<union> (if is_private_cluster v then secrets (read_cluster v) else {}))
      \<union> \<Union>(secrets ` set (map read_cluster (filter is_private_cluster items)))"
    by (rule Un_mono [OF import_item_secrets subset_refl])
  finally show ?case by (simp add: Un_assoc split: if_splits)
qed simp

lemma import_secrets: "all_secrets (snd (import_bundle now ok raw st)) \<subseteq> all_secrets st \<union> supplied (OpImport now raw) s"
proof (cases "snd (import_bundle now ok raw st) = st")
  case False
  let ?start = "(index_by_id (read_all st), \<lparr>ir_added = 0, ir_updated = 0, ir_skipped = 0\<rparr>)"
  obtain v items where v: "raw = Some v" "as_array (jprop (js ''clusters'') v) = Some items"
    and st: "snd (import_bundle now ok raw st) = safe_write ok (map snd (fst (fold (import_item now) items ?start))) st"
    using False by (auto simp: import_bundle_def Let_def split: option.splits if_splits json.splits prod.splits)
  have b: "supplied (OpImport now raw) s = \<Union>(secrets ` set (map read_cluster (filter is_private_cluster items)))"
    by (simp add: bundle_items_def v)
  have "map_secrets (index_by_id (read_all st)) \<subseteq> view_secrets st"
    using index_secrets [of "[]" "read_all st"] by (simp add: index_by_id_def view_secrets_def map_secrets_def)
  then have "map_secrets (fst (fold (import_item now) items ?start)) \<subseteq> view_secrets st \<union> supplied (OpImport now raw) s"
    using import_fold_secrets [of now items ?start] unfolding b fst_conv by (meson Un_mono order_trans subset_refl)
  then have "\<Union>(secrets ` set (map snd (fst (fold (import_item now) items ?start)))) \<subseteq> view_secrets st \<union> supplied (OpImport now raw) s"
    by (simp only: map_secrets_def set_map)
  from written_secrets [OF this] show ?thesis unfolding st .
qed simp

lemma perform_secrets: "all_secrets (perform op ok st) \<subseteq> all_secrets st \<union> supplied op (st_stored st)"
proof (cases op)
  case (OpUpsert now fresh i inp)
  then show ?thesis using upsert_secrets by simp
next
  case (OpDelete i)
  then show ?thesis using delete_secrets by simp
next
  case (OpPasswords i pw)
  then show ?thesis using passwords_secrets [of i pw st] by simp
next
  case (OpImport now raw)
  then show ?thesis using import_secrets [of now ok raw st "st_stored st"] by simp
qed

lemma browser_secrets: "browser initial s tabs H \<Longrightarrow> stored_secrets s \<subseteq> H \<and> (\<forall>t. session_secrets (tabs t) \<subseteq> H)"
proof (induction rule: browser.induct)
  case start
  then show ?case by (simp add: session_secrets_def)
next
  case (act s tabs H st' op ok t n)
  have "all_secrets st' \<subseteq> H \<union> supplied op s"
    using perform_secrets [of op ok "\<lparr>st_stored = s, st_session = tabs t, st_events = n\<rparr>"] act.hyps(2) act.IH
    by (fastforce simp: all_secrets_def)
  with act.IH show ?case by (auto simp: all_secrets_def)
next
  case (reopen s tabs H t)
  then show ?case by (simp add: session_secrets_def)
qed

text \<open>
  C2: A password never reaches a connection it was not supplied for. Whatever the tabs do, in any
  order, with failing writes and imported files, every password a tab would send with a
  definition was supplied (in the form, in the password dialog, in an imported file, or stored at
  the start) for exactly those brokers, that authentication and TLS setting, or that registry.
\<close>

theorem password_scope:
  assumes "browser initial s tabs H" "c \<in> set (read_all \<lparr>st_stored = s, st_session = tabs t, st_events = n\<rparr>)"
  shows "secrets c \<subseteq> H"
proof -
  let ?st = "\<lparr>st_stored = s, st_session = tabs t, st_events = n\<rparr>"
  have "secrets c \<subseteq> view_secrets ?st" using assms(2) by (auto simp: view_secrets_def)
  also have "\<dots> \<subseteq> all_secrets ?st" by (rule view_secrets_subset)
  also have "\<dots> \<subseteq> H" using browser_secrets [OF assms(1)] by (simp add: all_secrets_def)
  finally show ?thesis .
qed

text \<open>A browser with one tab that saved one definition and keeps its password.\<close>

definition sample_op :: operation where
  "sample_op = OpUpsert 1 (js ''x'') None (sample_input (Some False) (Some (js ''pw'')))"

definition sample_store :: store where
  "sample_store = perform sample_op True empty_store"

lemma sample_browser: "browser Absent (st_stored sample_store) ((\<lambda>_. [])(0 := st_session sample_store))
    (stored_secrets Absent \<union> secrets (sample_input (Some False) (Some (js ''pw''))))"
proof -
  have "sample_store = perform sample_op True \<lparr>st_stored = Absent, st_session = (\<lambda>_. []) (0 :: nat), st_events = 0\<rparr>"
    by (simp add: sample_store_def empty_store_def)
  from browser.act [OF browser.start this] show ?thesis by (simp add: sample_op_def)
qed

definition sample_cluster :: private_cluster where
  "sample_cluster = with_input (sample_input (Some False) (Some (js ''pw''))) (js ''x'') (Some (JsInt 1)) (Some (JsInt 1))"

lemma sample_written: "sample_store = safe_write True [sample_cluster] empty_store"
  by (simp add: sample_store_def sample_op_def upsert_private_cluster_def empty_store_def read_all_def safe_read_def sample_cluster_def Let_def)

lemma sample_view: "read_all sample_store = [sample_cluster]"
  using safe_write_view(1) [of "[sample_cluster]" empty_store]
  by (simp add: sample_written settle_def sample_cluster_def with_input_def sample_input_def remembers_credentials_def carried_def nonempty_def)

theorem password_scope_witness:
  "\<exists>c \<in> set (read_all sample_store). secrets c \<noteq> {} \<and>
     secrets c \<subseteq> stored_secrets Absent \<union> secrets (sample_input (Some False) (Some (js ''pw'')))"
proof (rule bexI)
  show m: "sample_cluster \<in> set (read_all sample_store)" by (simp add: sample_view)
  have "secrets sample_cluster \<subseteq> stored_secrets Absent \<union> secrets (sample_input (Some False) (Some (js ''pw'')))"
    by (rule password_scope [OF sample_browser, where t = 0 and n = "st_events sample_store"]) (use m in simp)
  moreover have "secrets sample_cluster \<noteq> {}"
    by (auto simp: secrets_def sample_cluster_def with_input_def sample_input_def)
  ultimately show "secrets sample_cluster \<noteq> {} \<and>
     secrets sample_cluster \<subseteq> stored_secrets Absent \<union> secrets (sample_input (Some False) (Some (js ''pw'')))" by blast
qed

section \<open>What is stored and exported\<close>

definition clean :: "stored \<Rightarrow> bool" where
  "clean s \<longleftrightarrow> (\<forall>c \<in> set (safe_read s). remembers_credentials c \<or> secrets c = {})"

lemma to_stored_clean: "\<not> remembers_credentials c \<Longrightarrow> secrets (fst (to_stored c s)) = {}"
  by (simp add: to_stored_def)

lemma to_stored_all_clean: "c \<in> set (fst (to_stored_all cs s)) \<Longrightarrow> remembers_credentials c \<or> secrets c = {}"
  by (induction cs arbitrary: s) (auto simp: to_stored_clean)

lemma safe_write_clean: "clean (st_stored st) \<Longrightarrow> clean (st_stored (safe_write ok items st))"
  using to_stored_all_clean [of _ items "st_session st"] by (auto simp: safe_write_def clean_def split: prod.splits)

lemma perform_clean: "clean (st_stored st) \<Longrightarrow> clean (st_stored (perform op ok st))"
proof (cases op)
  case (OpUpsert now fresh i inp)
  then show "clean (st_stored st) \<Longrightarrow> ?thesis"
    using safe_write_clean by (simp add: upsert_private_cluster_def Let_def split: option.splits)
next
  case (OpDelete i)
  then show "clean (st_stored st) \<Longrightarrow> ?thesis"
    using safe_write_clean [of "st\<lparr>st_session := mdelete i (st_session st)\<rparr>"] by (simp add: delete_private_cluster_def Let_def)
next
  case (OpPasswords i pw)
  then show "clean (st_stored st) \<Longrightarrow> ?thesis"
    by (simp add: set_session_passwords_def Let_def split: option.splits)
next
  case (OpImport now raw)
  then show "clean (st_stored st) \<Longrightarrow> ?thesis"
    using safe_write_clean by (auto simp: import_bundle_def Let_def split: option.splits if_splits json.splits prod.splits)
qed

text \<open>
  C1: The passwords of a cluster that does not remember them are never in \<open>localStorage\<close> and
  never in an export, in any state that any tabs reach from a store without such passwords,
  whatever they save, enter, delete or import.
\<close>

theorem unremembered_never_stored:
  assumes "browser initial s tabs H" "clean initial"
    and "c \<in> set (safe_read s) \<or> c \<in> set (xb_clusters (make_export now_iso ids \<lparr>st_stored = s, st_session = tabs t, st_events = n\<rparr>))"
    and "ci_remember c = Some False"
  shows "secrets c = {}"
proof -
  have "clean s" using assms(1,2)
  proof (induction rule: browser.induct)
    case (act s tabs H st' op ok t n)
    then show ?case using perform_clean [of "\<lparr>st_stored = s, st_session = tabs t, st_events = n\<rparr>" op ok] by simp
  qed simp_all
  moreover have "c \<in> set (safe_read s)" using assms(3) by (auto simp: make_export_def Let_def split: option.splits)
  ultimately show ?thesis using assms(4) by (auto simp: clean_def remembers_credentials_def)
qed

theorem unremembered_never_stored_witness:
  "\<exists>c \<in> set (safe_read (st_stored sample_store)). ci_remember c = Some False \<and> secrets c = {} \<and>
     secrets (with_session_passwords (st_session sample_store) c) \<noteq> {}"
proof -
  obtain c where c: "c \<in> set (safe_read (st_stored sample_store))" "with_session_passwords (st_session sample_store) c = sample_cluster"
    using sample_view unfolding read_all_def by auto
  have r: "ci_remember c = Some False"
    using with_session_keys(2) [of "st_session sample_store" c] unfolding c(2)
    by (simp add: sample_cluster_def with_input_def sample_input_def)
  have "clean Absent" by (simp add: clean_def safe_read_def)
  from unremembered_never_stored [OF sample_browser this disjI1 [OF c(1)] r] have "secrets c = {}" .
  moreover have "secrets sample_cluster \<noteq> {}"
    by (auto simp: secrets_def sample_cluster_def with_input_def sample_input_def)
  ultimately show ?thesis using c r by auto
qed

section \<open>The settings form\<close>

lemma find_distinct: "distinct (map f xs) \<Longrightarrow> x \<in> set xs \<Longrightarrow> find (\<lambda>y. f y = f x) xs = Some x"
  by (induction xs) auto


lemma no_session: "with_session_passwords [] c = c"
  by (simp add: with_session_passwords_def mget_def)

definition registry_cluster :: private_cluster where
  "registry_cluster = with_input ((sample_input (Some False) None)\<lparr>ci_auth := \<lparr>au_type = js ''none'', au_username = None, au_password = None\<rparr>,
     ci_registry := Some \<lparr>sr_url = Some (js ''u''), sr_username = Some (js ''me''), sr_password = None, sr_insecure = None,
       credential_required = Some True\<rparr>\<rparr>) (js ''x'') None None"

definition registry_store :: store where
  "registry_store = \<lparr>st_stored = Stored (JsArray (map cluster_json [registry_cluster])), st_session = [], st_events = 0\<rparr>"


section \<open>The header\<close>

lemma well_formed_cons: "\<not> hi_sur (unat c) \<Longrightarrow> \<not> lo_sur (unat c) \<Longrightarrow> well_formed (c # t) = well_formed t"
  by (cases t) auto

lemma well_formed_plain: "\<forall>c \<in> set x. \<not> hi_sur (unat c) \<and> \<not> lo_sur (unat c) \<Longrightarrow> well_formed (x @ t) = well_formed t"
  by (induction x) (auto simp: well_formed_cons)

lemma surrogate_kinds: "is_high c = hi_sur (unat c)" "is_low c = lo_sur (unat c)"
  by (simp_all add: is_high_def is_low_def hi_sur_def lo_sur_def word_le_nat_alt)

definition plain :: "jstr \<Rightarrow> bool" where
  "plain x \<longleftrightarrow> (\<forall>c \<in> set x. \<not> hi_sur (unat c) \<and> \<not> lo_sur (unat c))"

lemma plain_ascii: "(\<And>c. c \<in> set x \<Longrightarrow> unat c < 128) \<Longrightarrow> plain x"
  by (force simp: plain_def hi_sur_def lo_sur_def)

lemma plain_uescape: "plain (uescape c)"
proof (rule plain_ascii)
  have "unat d < 128" if "d \<in> set (hex_pad 4 (unat c))" for d
    using hex_pad_is_hex [OF that] by (auto simp: is_hex_def word_le_nat_alt)
  then show "d \<in> set (uescape c) \<Longrightarrow> unat d < 128" for d by (auto simp: uescape_def)
qed

lemma plain_escape: "\<not> is_high c \<Longrightarrow> \<not> is_low c \<Longrightarrow> plain (escape_cu c)"
  using plain_uescape [of c]
  by (simp add: escape_cu_def) (auto simp: plain_def surrogate_kinds hi_sur_def lo_sur_def)

lemma well_formed_plain': "plain x \<Longrightarrow> well_formed (x @ t) = well_formed t"
  unfolding plain_def by (rule well_formed_plain)

lemma well_formed_quote_body: "well_formed (quote_body s @ t) = well_formed t"
proof (induction s rule: quote_body.induct)
  case (2 c)
  then show ?case using plain_uescape [of c] plain_escape [of c] by (simp add: well_formed_plain')
next
  case (3 c d r)
  show ?case
  proof (cases "is_high c \<and> is_low d")
    case True
    then have "well_formed (c # d # quote_body r @ t) = well_formed (quote_body r @ t)" by (simp add: surrogate_kinds)
    with True 3(1) show ?thesis by simp
  next
    case False
    have "plain (if is_high c \<or> is_low c then uescape c else escape_cu c)"
      using plain_uescape [of c] plain_escape [of c] by simp
    with 3(2) [OF False] show ?thesis
      by (simp only: quote_body.simps(3) if_not_P [OF False] append_assoc well_formed_plain')
  qed
qed simp

lemma well_formed_quote: "well_formed (quote s @ t) = well_formed t"
  by (simp add: quote_def well_formed_cons hi_sur_def lo_sur_def well_formed_quote_body)

fun no_frac :: "json \<Rightarrow> bool" where
  "no_frac (JsFrac l) = False"
| "no_frac (JsArray vs) = list_all no_frac vs"
| "no_frac (JsObject fs) = list_all (\<lambda>(k, v). no_frac v) fs"
| "no_frac _ = True"

definition neutral :: "jstr \<Rightarrow> bool" where
  "neutral x \<longleftrightarrow> (\<forall>t. well_formed (x @ t) = well_formed t)"

lemma neutral_append: "neutral x \<Longrightarrow> neutral y \<Longrightarrow> neutral (x @ y)"
  by (simp add: neutral_def)

lemma neutral_join: "neutral sep \<Longrightarrow> (\<And>x. x \<in> set xs \<Longrightarrow> neutral x) \<Longrightarrow> neutral (join sep xs)"
  by (induction sep xs rule: join.induct) (simp_all add: neutral_append, simp add: neutral_def)

lemma neutral_js: "plain x \<Longrightarrow> neutral x"
  by (simp add: neutral_def well_formed_plain')

lemma neutral_dec: "neutral (dec n)"
proof (rule neutral_js, rule plain_ascii)
  show "c \<in> set (dec n) \<Longrightarrow> unat c < 128" for c using dec_digits [of c n] by (simp add: is_digit_unat)
qed

lemma neutral_tokens: "neutral (js ''null'')" "neutral (js ''true'')" "neutral (js ''false'')" "neutral (js '','')" "neutral (js '':'')"
    "neutral (js ''['')" "neutral (js '']'')" "neutral (js ''{'')" "neutral (js ''}'')" "neutral (js ''-'')"
  by (rule neutral_js, rule plain_ascii, force simp: js_def)+

lemma neutral_stringify: "no_frac v \<Longrightarrow> neutral (stringify v)"
proof (induction v rule: stringify.induct)
  case (3 i)
  then show ?case using neutral_append [OF neutral_tokens(10) neutral_dec] by (simp add: dec_int_def neutral_dec js_def)
next
  case (5 s)
  then show ?case by (simp add: neutral_def well_formed_quote)
next
  case (6 vs)
  then show ?case by (auto simp: list_all_iff intro!: neutral_append neutral_tokens neutral_join)
next
  case (7 fs)
  have q: "neutral (quote k)" for k by (simp add: neutral_def well_formed_quote)
  show ?case using 7 by (force simp: list_all_iff intro!: neutral_append neutral_tokens neutral_join q)
qed (simp_all add: neutral_tokens)

lemma well_formed_stringify: "no_frac v \<Longrightarrow> well_formed (stringify v)"
proof -
  assume "no_frac v"
  then have "well_formed (stringify v @ []) = well_formed []" using neutral_stringify [of v] unfolding neutral_def by blast
  then show ?thesis by simp
qed

lemma no_frac_members: "(\<And>k v. (k, Some v) \<in> set fs \<Longrightarrow> no_frac v) \<Longrightarrow> no_frac (JsObject (members fs))"
  by (force simp: members_def list_all_iff split: option.splits)

lemma no_frac_typed: "Some v = map_option JsString x \<Longrightarrow> no_frac v" "Some v = map_option JsBool y \<Longrightarrow> no_frac v"
  by (cases x; simp) (cases y; simp)

lemma no_frac_parts: "no_frac (auth_json a)" "no_frac (tls_json t)" "no_frac (JsObject (members (registry_members r)))"
proof -
  show "no_frac (auth_json a)" unfolding auth_json_def by (rule no_frac_members) (auto dest: no_frac_typed)
  show "no_frac (tls_json t)" unfolding tls_json_def by (rule no_frac_members) (auto dest: no_frac_typed)
  show "no_frac (JsObject (members (registry_members r)))"
    unfolding registry_members_def by (rule no_frac_members) (auto dest: no_frac_typed)
qed

lemma no_frac_backend: "no_frac (backend_json c t)"
  unfolding backend_json_def
  by (rule no_frac_members, cases "ci_registry c") (auto simp: list_all_iff no_frac_parts simp del: no_frac.simps(3) dest: no_frac_typed)

text \<open>
  C37: The header of a request is refused exactly when a password that is needed is missing; else it
  is base64 whose bytes are the UTF-8 JSON of the definition's backend form, whatever characters
  names and passwords contain: the server reads back exactly that text. (A stored item without
  \<open>tls\<close> is the one other failure.)
\<close>

theorem encode_header_reads_back:
  "(case encode_private_cluster_header c of
      Inl e \<Rightarrow> (if needs_passwords c then e = PasswordRequired (ci_name c) else ci_tls c = None \<and> e = MissingTls)
    | Inr h \<Rightarrow> \<not> needs_passwords c \<and> (\<exists>t bs. ci_tls c = Some t \<and> atob h = Some bs \<and>
        utf8_decode_fatal bs = Some (stringify (backend_json c t))))"
proof -
  have "hd (stringify (backend_json c t)) \<noteq> 0xFEFF" for t
    by (simp add: backend_json_def js_def)
  then have "utf8_decode_fatal (utf8 (stringify (backend_json c t))) = Some (stringify (backend_json c t))" for t
    using utf8_decode_fatal_utf8 [OF well_formed_stringify [OF no_frac_backend]] by blast
  then show ?thesis
    by (cases "ci_tls c") (auto simp: encode_private_cluster_header_def to_backend_config_def)
qed



section \<open>Imports\<close>

text \<open>The map an import builds: keyed by the ids of its values, no key twice.\<close>

definition keyed :: "by_id \<Rightarrow> bool" where
  "keyed m \<longleftrightarrow> distinct (mkeys m) \<and> map (pc_id \<circ> snd) m = mkeys m"

lemma keyed_mset_key: "keyed m \<Longrightarrow> pc_id c = k \<Longrightarrow> keyed (mset_key k c m)"
proof -
  have "map (pc_id \<circ> snd) m = mkeys m \<Longrightarrow> pc_id c = k \<Longrightarrow> map (pc_id \<circ> snd) (mset_key k c m) = mkeys (mset_key k c m)"
    by (induction m) (auto simp: mset_key_def mkeys_def)
  then show "keyed m \<Longrightarrow> pc_id c = k \<Longrightarrow> keyed (mset_key k c m)" by (simp add: keyed_def)
qed

lemma index_distinct: "distinct (map pc_id (map snd m @ cs)) \<Longrightarrow> keyed m \<Longrightarrow>
    foldl (\<lambda>m c. mset_key (pc_id c) c m) m cs = m @ map (\<lambda>c. (pc_id c, c)) cs"
proof (induction cs arbitrary: m)
  case (Cons c cs)
  have k: "mkeys m = map pc_id (map snd m)" using Cons.prems(2) by (simp add: keyed_def comp_def)
  then have "pc_id c \<notin> set (mkeys m)" using Cons.prems(1) by auto
  then have e: "mset_key (pc_id c) c m = m @ [(pc_id c, c)]" by (rule mset_key_fresh)
  have "keyed (mset_key (pc_id c) c m)" by (rule keyed_mset_key [OF Cons.prems(2) refl])
  with Cons.IH [of "m @ [(pc_id c, c)]"] Cons.prems(1) show ?case by (simp add: e)
qed simp

lemma index_by_id_list: "distinct (map pc_id cs) \<Longrightarrow> index_by_id cs = map (\<lambda>c. (pc_id c, c)) cs"
  using index_distinct [of "[]" cs] by (simp add: index_by_id_def keyed_def mkeys_def)

lemma import_item_cases:
  "\<not> is_private_cluster v \<and> import_item now v (m, r) = (m, r\<lparr>ir_skipped := Suc (ir_skipped r)\<rparr>)
   \<or> is_private_cluster v \<and> (\<exists>x r'. import_item now v (m, r) = (mset_key (pc_id x) x m, r') \<and> pc_id x = pc_id (read_cluster v) \<and>
        ci_remember x = or_else (ci_remember (read_cluster v)) (case mget m (pc_id x) of None \<Rightarrow> None | Some p \<Rightarrow> ci_remember p) \<and>
        ir_added r' + ir_updated r' = Suc (ir_added r + ir_updated r) \<and> ir_skipped r' = ir_skipped r)"
proof (cases "is_private_cluster v")
  case True
  show ?thesis
  proof (cases "mget m (pc_id (read_cluster v))")
    case None
    then show ?thesis using True
      by (intro disjI2 conjI exI [of _ "read_cluster v"] exI [of _ "r\<lparr>ir_added := Suc (ir_added r)\<rparr>"])
         (simp_all add: import_item_def Let_def)
  next
    case (Some p)
    then show ?thesis using True
      by (intro disjI2 conjI exI [of _ "(read_cluster v)\<lparr>ci_remember := or_else (ci_remember (read_cluster v)) (ci_remember p),
            pc_updated := Some (JsInt now)\<rparr>"] exI [of _ "r\<lparr>ir_updated := Suc (ir_updated r)\<rparr>"])
         (simp_all add: import_item_def Let_def)
  qed
qed (simp add: import_item_def)

lemma keyed_mem: "keyed m \<Longrightarrow> (k, x) \<in> set m \<Longrightarrow> pc_id x = k"
  by (auto simp: keyed_def mkeys_def map_eq_conv)

definition import_ok :: "jstr \<Rightarrow> by_id \<Rightarrow> bool" where
  "import_ok i m \<longleftrightarrow> (\<exists>x. mget m i = Some x \<and> ci_remember x = Some False)"

lemma import_fold:
  assumes "keyed (fst acc)"
  shows "keyed (fst (fold (import_item now) items acc)) \<and>
    set (mkeys (fst (fold (import_item now) items acc))) = set (mkeys (fst acc)) \<union> pc_id ` set (map read_cluster (filter is_private_cluster items)) \<and>
    (let n = \<lambda>r. ir_added r + ir_updated r + ir_skipped r in n (snd (fold (import_item now) items acc)) = n (snd acc) + length items) \<and>
    (import_ok i (fst acc) \<longrightarrow> (\<forall>x \<in> set (map read_cluster (filter is_private_cluster items)). pc_id x = i \<longrightarrow> ci_remember x \<noteq> Some True) \<longrightarrow>
      import_ok i (fst (fold (import_item now) items acc)))"
  using assms
proof (induction items arbitrary: acc)
  case (Cons v items)
  obtain m r where acc: "acc = (m, r)" by fastforce
  show ?case
  proof (cases "is_private_cluster v")
    case False
    then have e: "import_item now v acc = (m, r\<lparr>ir_skipped := Suc (ir_skipped r)\<rparr>)" using import_item_cases [of v now m r] acc by blast
    show ?thesis using Cons.IH [of "import_item now v acc"] Cons.prems False unfolding fold_simps e by (simp add: acc Let_def)
  next
    case True
    then obtain x r' where x: "import_item now v acc = (mset_key (pc_id x) x m, r')" "pc_id x = pc_id (read_cluster v)"
        "ci_remember x = or_else (ci_remember (read_cluster v)) (case mget m (pc_id x) of None \<Rightarrow> None | Some p \<Rightarrow> ci_remember p)"
      and r': "ir_added r' + ir_updated r' = Suc (ir_added r + ir_updated r)" "ir_skipped r' = ir_skipped r"
      using import_item_cases [of v now m r] acc by blast
    have k: "keyed (mset_key (pc_id x) x m)" by (rule keyed_mset_key) (use Cons.prems acc in simp_all)
    have o: "import_ok i m \<Longrightarrow> (pc_id (read_cluster v) = i \<longrightarrow> ci_remember (read_cluster v) \<noteq> Some True) \<Longrightarrow> import_ok i (mset_key (pc_id x) x m)"
      using x(2,3) by (cases "ci_remember (read_cluster v)") (auto simp: import_ok_def map_simps)
    note IH = Cons.IH [of "(mset_key (pc_id x) x m, r')", unfolded fst_conv snd_conv, OF k]
    show ?thesis
      unfolding fold_simps x(1) using IH True x(2) r' o by (auto simp: acc Let_def)
  qed
qed simp

text \<open>
  C32: An import either fails and changes nothing, or counts every item of the file as added,
  updated or skipped, keeps the ids distinct with exactly the ids of the file added, and never
  turns a cluster that does not remember its passwords into one that does unless the file says so.
\<close>

theorem import_bundle_effect:
  assumes "distinct (ids_of st)" "import_bundle now True raw st = (res, st')"
  shows "case res of
      Inl e \<Rightarrow> st' = st \<and> e \<in> {js ''invalid JSON'', js ''invalid bundle'', js ''unsupported bundle format''}
    | Inr r \<Rightarrow>
        ir_added r + ir_updated r + ir_skipped r = length (the (as_array (jprop (js ''clusters'') (the raw)))) \<and>
        distinct (ids_of st') \<and> set (ids_of st') = set (ids_of st) \<union> pc_id ` set (bundle_items raw) \<and>
        (\<forall>c i. get_private_cluster_by_id st i = Some c \<and> ci_remember c = Some False \<and>
            (\<forall>x \<in> set (bundle_items raw). pc_id x = i \<longrightarrow> ci_remember x \<noteq> Some True) \<longrightarrow>
          (\<exists>c'. get_private_cluster_by_id st' i = Some c' \<and> ci_remember c' = Some False))"
proof (cases res)
  case (Inl e)
  then show ?thesis using assms(2)
    by (auto simp: import_bundle_def Let_def split: option.splits if_splits json.splits prod.splits)
next
  case (Inr r)
  let ?start = "(index_by_id (read_all st), \<lparr>ir_added = 0, ir_updated = 0, ir_skipped = 0\<rparr>)"
  obtain v items where v: "raw = Some v" "as_array (jprop (js ''clusters'') v) = Some items"
    and st': "st' = safe_write True (map snd (fst (fold (import_item now) items ?start))) st"
    and r: "r = snd (fold (import_item now) items ?start)"
    using assms(2) Inr by (auto simp: import_bundle_def Let_def split: option.splits if_splits json.splits prod.splits)
  let ?m = "fst (fold (import_item now) items ?start)"
  have b: "bundle_items raw = map read_cluster (filter is_private_cluster items)" by (simp add: bundle_items_def v)
  have d: "distinct (map pc_id (read_all st))" using assms(1) by (simp add: read_all_ids)
  note ix = index_by_id_list [OF d]
  have k: "keyed (fst ?start)" using d by (simp add: ix keyed_def mkeys_def comp_def)
  have mk: "set (mkeys (index_by_id (read_all st))) = set (ids_of st)"
    using read_all_ids [of st] by (simp add: ix mkeys_def comp_def image_image [symmetric] del: set_map flip: list.set_map)
  note F = import_fold [OF k, of now items]
  have km: "keyed ?m" using F by blast
  have ids: "map pc_id (map snd ?m) = mkeys ?m" using km by (simp add: keyed_def comp_def)
  have dm: "distinct (map pc_id (map snd ?m))" using km unfolding ids by (simp add: keyed_def)
  have w: "read_all st' = map settle (map snd ?m)" "ids_of st' = map pc_id (map snd ?m)"
    unfolding st' by (rule safe_write_view [OF dm])+
  have "\<exists>c'. get_private_cluster_by_id st' i = Some c' \<and> ci_remember c' = Some False"
    if c: "get_private_cluster_by_id st i = Some c" "ci_remember c = Some False"
      "\<forall>x \<in> set (bundle_items raw). pc_id x = i \<longrightarrow> ci_remember x \<noteq> Some True" for c i
  proof -
    have ci: "c \<in> set (read_all st)" "pc_id c = i" using c(1) by (auto simp: get_private_cluster_by_id_def find_Some_iff)
    have "(i, c) \<in> set (index_by_id (read_all st))" unfolding ix set_map using ci by blast
    moreover have "distinct (mkeys (index_by_id (read_all st)))" using k by (simp add: keyed_def)
    ultimately have "mget (index_by_id (read_all st)) i = Some c" by (simp only: mget_mem)
    then have "import_ok i (index_by_id (read_all st))" using c(2) by (simp add: import_ok_def)
    then obtain x where x: "mget ?m i = Some x" "ci_remember x = Some False"
      using F [of i] c(3) by (auto simp: import_ok_def b)
    have "(i, x) \<in> set ?m" using x(1) by (simp add: mget_def map_of_SomeD)
    then have xm: "x \<in> set (map snd ?m)" by (metis (no_types, opaque_lifting) list.set_map rev_image_eqI snd_conv)
    have xi: "pc_id x = i" using keyed_mem [OF km \<open>(i, x) \<in> set ?m\<close>] .
    have "distinct (map pc_id (map settle (map snd ?m)))" using dm by (simp add: comp_def)
    moreover have "settle x \<in> set (map settle (map snd ?m))" using xm by (simp only: set_map) blast
    ultimately have "get_private_cluster_by_id st' i = Some (settle x)"
      using find_distinct [of pc_id "map settle (map snd ?m)" "settle x"]
      unfolding get_private_cluster_by_id_def w(1) settle_keys xi by blast
    moreover have "ci_remember (settle x) = Some False" using x(2) by (simp add: settle_def remembers_credentials_def)
    ultimately show ?thesis by blast
  qed
  moreover have "distinct (ids_of st')" unfolding w(2) by (rule dm)
  moreover have "set (ids_of st') = set (ids_of st) \<union> pc_id ` set (bundle_items raw)"
    unfolding w(2) ids b using F mk by (simp only: fst_conv)
  moreover have "ir_added r + ir_updated r + ir_skipped r = length (the (as_array (jprop (js ''clusters'') (the raw))))"
    unfolding r v option.sel using F by (simp add: Let_def)
  ultimately show ?thesis unfolding Inr sum.case by blast
qed

definition sample_bundle :: json where
  "sample_bundle = bundle_json (make_export (js ''now'') None sample_store)"

theorem import_bundle_effect_witness:
  "\<exists>r st'. import_bundle 5 True (Some sample_bundle) sample_store = (Inr r, st') \<and>
     ir_added r + ir_updated r + ir_skipped r = 1 \<and> distinct (ids_of st') \<and>
     (\<exists>c'. get_private_cluster_by_id st' (js ''x'') = Some c' \<and> ci_remember c' = Some False)"
proof -
  obtain c where c: "safe_read (st_stored sample_store) = [c]" "with_session_passwords (st_session sample_store) c = sample_cluster"
    using sample_view unfolding read_all_def by (cases "safe_read (st_stored sample_store)") auto
  have k: "ci_remember c = Some False" "pc_id c = js ''x''"
    using with_session_keys(1,2) [of "st_session sample_store" c] unfolding c(2)
    by (simp_all add: sample_cluster_def with_input_def sample_input_def)
  have b: "sample_bundle = JsObject [(js ''schema'', JsString bundle_schema), (js ''exported_at'', JsString (js ''now'')),
      (js ''clusters'', JsArray [cluster_json c])]"
    by (simp add: sample_bundle_def bundle_json_def make_export_def c)
  have d: "distinct (ids_of sample_store)" by (simp add: read_all_ids [symmetric] sample_view)
  have cl: "as_array (jprop (js ''clusters'') sample_bundle) = Some [cluster_json c]"
    by (simp add: b jprop_def)
  obtain r st' where i: "import_bundle 5 True (Some sample_bundle) sample_store = (Inr r, st')"
    by (simp add: import_bundle_def b jprop_def Let_def case_prod_beta)
  have g: "get_private_cluster_by_id sample_store (js ''x'') = Some sample_cluster" "ci_remember sample_cluster = Some False"
    by (simp_all add: get_private_cluster_by_id_def sample_view sample_cluster_def with_input_def sample_input_def)
  have it: "\<forall>x \<in> set (bundle_items (Some sample_bundle)). pc_id x = js ''x'' \<longrightarrow> ci_remember x \<noteq> Some True"
    by (simp add: bundle_items_def cl k)
  from import_bundle_effect [OF d i] g it i show ?thesis by (auto simp: cl)
qed

end
