(* ===== verification/SearchChain.thy ===== *)
theory SearchChain
  imports Message
begin

text \<open>
  The chained message search (\<open>frontend/src/features/messages/search-chain.ts\<close>): one search call
  after the other, each continuing at the cursors of the last, until the range is exhausted or a
  budget, a limit, the user or a lack of progress ends it. The server is a parameter: its answer to
  the request of the n-th call, an error message on the left. The loop may not end for every server,
  so it is a partial function; \<open>None\<close> is no result.
\<close>

datatype search_direction = NewestFirst | OldestFirst

record partition_range =
  pr_start :: int
  pr_end :: int

record parse_error_offset =
  po_partition :: int
  po_offset :: int
  po_error :: jstr

record search_stats =
  ss_scanned :: int
  ss_read :: "int option"
  ss_matched :: int
  ss_budget_exhausted :: bool
  ss_timed_out :: bool
  ss_more_available :: bool
  ss_direction :: search_direction
  ss_next_cursors :: "(jstr, int) jsmap option"
  ss_resolved_range :: "(jstr, partition_range) jsmap option"
  ss_parse_errors :: int
  ss_parse_error_offsets :: "parse_error_offset list option"
  ss_durations :: "(jstr, int) jsmap option"

record search_request =
  sq_partition :: "int option"
  sq_limit :: "int option"
  sq_budget :: "int option"
  sq_direction :: "search_direction option"
  sq_stop_on_limit :: "bool option"
  sq_mode :: "jstr option"
  sq_path :: "jstr option"
  sq_header_key :: "jstr option"
  sq_op :: "jstr option"
  sq_value :: "jstr option"
  sq_zones :: "jstr list option"
  sq_from_ts :: "int option"
  sq_to_ts :: "int option"
  sq_cursors :: "(jstr, int) jsmap option"

record search_response =
  rs_cluster :: jstr
  rs_topic :: jstr
  rs_messages :: "message list option"
  rs_search :: search_stats

datatype stop_reason = StopBudget | StopComplete | StopLimit | StopStopped | StopTimeout

record search_result =
  res_messages :: "message list"
  res_stats :: search_stats
  res_req :: search_request

type_synonym search_server = "nat \<Rightarrow> search_request \<Rightarrow> jstr + search_response"

definition per_call_budget :: int where
  "per_call_budget = 1000000"

record chain_options =
  co_base :: search_request
  co_prior :: "search_result option"
  co_budget :: int
  co_stop_on_limit :: bool
  co_limit :: int
  co_should_stop :: "nat \<Rightarrow> bool"

definition made_progress :: "search_stats \<Rightarrow> bool" where
  "made_progress s =
     (case (ss_resolved_range s, ss_next_cursors s) of
        (Some rg, Some nxt) \<Rightarrow>
          list_ex (\<lambda>(p, r). case mget nxt p of None \<Rightarrow> False
            | Some c \<Rightarrow> c \<noteq> (if ss_direction s \<noteq> OldestFirst then pr_end r else pr_start r)) rg
      | _ \<Rightarrow> ss_scanned s > 0)"

text \<open>The variables of the loop; \<open>None\<close> as the cap of a call's budget is \<open>Infinity\<close>. \<open>ch_log\<close> is what \<open>onProgress\<close> was called with.\<close>

record chain_state =
  ch_messages :: "message list"
  ch_scanned :: int
  ch_matched :: int
  ch_cursors :: "(jstr, int) jsmap option"
  ch_run_scanned :: int
  ch_run_matched :: int
  ch_cap :: "int option"
  ch_log :: "search_result list"

definition chain_start :: "chain_options \<Rightarrow> chain_state" where
  "chain_start ops =
     (case co_prior ops of
        None \<Rightarrow> \<lparr>ch_messages = [], ch_scanned = 0, ch_matched = 0, ch_cursors = None, ch_run_scanned = 0, ch_run_matched = 0,
          ch_cap = None, ch_log = []\<rparr>
      | Some p \<Rightarrow> \<lparr>ch_messages = res_messages p, ch_scanned = ss_scanned (res_stats p), ch_matched = ss_matched (res_stats p),
          ch_cursors = ss_next_cursors (res_stats p), ch_run_scanned = 0, ch_run_matched = 0,
          ch_cap = (if ss_timed_out (res_stats p) \<and> \<not> made_progress (res_stats p) then sq_budget (res_req p) else None), ch_log = []\<rparr>)"

definition min_cap :: "int \<Rightarrow> int option \<Rightarrow> int" where
  "min_cap b cap = (case cap of None \<Rightarrow> b | Some c \<Rightarrow> min b c)"

definition unlimited :: "chain_options \<Rightarrow> bool" where
  "unlimited ops \<longleftrightarrow> co_budget ops \<le> 0"

text \<open>The budget of the next call; \<open>None\<close> when the run's budget is used up.\<close>

definition call_budget :: "chain_options \<Rightarrow> chain_state \<Rightarrow> int option" where
  "call_budget ops st =
     (if unlimited ops then Some (min_cap per_call_budget (ch_cap st))
      else let remaining = co_budget ops - ch_run_scanned st
        in if remaining \<le> 0 then None else Some (min_cap remaining (ch_cap st)))"

definition chain_request :: "chain_options \<Rightarrow> chain_state \<Rightarrow> int \<Rightarrow> search_request" where
  "chain_request ops st b =
     (let req = (co_base ops)\<lparr>sq_budget := Some b, sq_cursors := ch_cursors st\<rparr>
      in if co_stop_on_limit ops then req\<lparr>sq_limit := Some (co_limit ops - ch_run_matched st)\<rparr> else req)"

text \<open>What a response adds to the variables, and the progress it publishes.\<close>

definition chain_add :: "search_request \<Rightarrow> search_response \<Rightarrow> chain_state \<Rightarrow> chain_state" where
  "chain_add req r st =
     (let s = rs_search r;
          messages = ch_messages st @ opt_or (rs_messages r) [];
          scanned = ch_scanned st + ss_scanned s; matched = ch_matched st + ss_matched s
      in st\<lparr>ch_messages := messages, ch_scanned := scanned, ch_matched := matched, ch_cursors := ss_next_cursors s,
           ch_run_scanned := ch_run_scanned st + ss_scanned s, ch_run_matched := ch_run_matched st + ss_matched s,
           ch_log := ch_log st @ [\<lparr>res_messages = messages, res_stats = s\<lparr>ss_scanned := scanned, ss_matched := matched\<rparr>, res_req = req\<rparr>]\<rparr>)"

datatype chain_outcome = Again chain_state | Finish "jstr + stop_reason" chain_state

text \<open>One turn of the loop.\<close>

definition smaller_budget :: "int \<Rightarrow> search_stats \<Rightarrow> int" where
  "smaller_budget b s = min (b div 2) (opt_or (ss_read s) (ss_scanned s) div 2)"

definition after_call :: "chain_options \<Rightarrow> int \<Rightarrow> search_stats \<Rightarrow> chain_state \<Rightarrow> chain_outcome" where
  "after_call ops b s st =
     (if \<not> ss_more_available s then Finish (Inr StopComplete) st
      else if co_stop_on_limit ops \<and> ch_run_matched st \<ge> co_limit ops then Finish (Inr StopLimit) st
      else if co_should_stop ops (length (ch_log st)) then Finish (Inr StopStopped) st
      else if made_progress s then Again st
      else let smaller = smaller_budget b s
        in if \<not> ss_timed_out s \<or> smaller < 1 then Finish (Inr StopTimeout) st
           else Again (st\<lparr>ch_cap := Some smaller\<rparr>))"

definition chain_turn :: "search_server \<Rightarrow> chain_options \<Rightarrow> chain_state \<Rightarrow> chain_outcome" where
  "chain_turn server ops st =
     (case call_budget ops st of
        None \<Rightarrow> Finish (Inr StopBudget) st
      | Some b \<Rightarrow>
          let req = chain_request ops st b
          in (case server (length (ch_log st)) req of
                Inl e \<Rightarrow> Finish (Inl e) st
              | Inr r \<Rightarrow> after_call ops b (rs_search r) (chain_add req r st)))"

partial_function (option) chain_loop ::
    "search_server \<Rightarrow> chain_options \<Rightarrow> chain_state \<Rightarrow> ((jstr + stop_reason) \<times> chain_state) option" where
  "chain_loop server ops st =
     (case chain_turn server ops st of
        Finish r st' \<Rightarrow> Some (r, st')
      | Again st' \<Rightarrow> chain_loop server ops st')"

definition run_search_chain :: "search_server \<Rightarrow> chain_options \<Rightarrow> ((jstr + stop_reason) \<times> chain_state) option" where
  "run_search_chain server ops = chain_loop server ops (chain_start ops)"

section \<open>Reasoning about the loop\<close>

text \<open>A property every turn keeps holds of the state at the end, whatever the number of turns.\<close>

lemma chain_loop_invariant:
  assumes "chain_loop server ops st = Some (r, fin)" "P st"
    and "\<And>st st'. P st \<Longrightarrow> chain_turn server ops st = Again st' \<Longrightarrow> P st'"
    and "\<And>st st' r. P st \<Longrightarrow> chain_turn server ops st = Finish r st' \<Longrightarrow> Q r st'"
  shows "Q r fin"
proof -
  let ?R = "\<lambda>sv o' s y. (\<forall>st st'. P st \<longrightarrow> chain_turn sv o' st = Again st' \<longrightarrow> P st') \<longrightarrow>
     (\<forall>st st' r. P st \<longrightarrow> chain_turn sv o' st = Finish r st' \<longrightarrow> Q r st') \<longrightarrow> P s \<longrightarrow> Q (fst y) (snd y)"
  have "?R server ops st (r, fin)"
  proof (rule chain_loop.raw_induct [of ?R, OF _ assms(1)])
    fix lp sv o' s y
    assume IH: "\<And>sv o' s y. lp sv o' s = Some y \<Longrightarrow> ?R sv o' s y"
      and b: "(case chain_turn sv o' s of Again st' \<Rightarrow> lp sv o' st' | Finish r st' \<Rightarrow> Some (r, st')) = Some y"
    show "?R sv o' s y"
    proof (cases "chain_turn sv o' s")
      case (Again st')
      with b have "lp sv o' st' = Some y" by simp
      from IH [OF this] Again show ?thesis by blast
    next
      case (Finish r st')
      with b have "y = (r, st')" by simp
      with Finish show ?thesis by auto
    qed
  qed
  with assms(2-4) show ?thesis by auto
qed

text \<open>A measure every turn decreases makes the loop return, after at most that many further calls.\<close>

lemma chain_turn_log:
  "chain_turn server ops st = Again st' \<Longrightarrow> length (ch_log st') = Suc (length (ch_log st))"
  "chain_turn server ops st = Finish r st' \<Longrightarrow> length (ch_log st') \<le> Suc (length (ch_log st))"
  by (auto simp: chain_turn_def after_call_def chain_add_def Let_def split: option.splits sum.splits if_splits)

lemma chain_loop_returns:
  assumes "\<And>st st'. I st \<Longrightarrow> chain_turn server ops st = Again st' \<Longrightarrow> I st' \<and> m st' < (m st :: nat)" "I st"
  shows "\<exists>r fin. chain_loop server ops st = Some (r, fin) \<and> length (ch_log fin) \<le> length (ch_log st) + m st + 1"
  using assms(2)
proof (induction "m st" arbitrary: st rule: less_induct)
  case less
  show ?case
  proof (cases "chain_turn server ops st")
    case (Again st')
    then obtain r fin where "chain_loop server ops st' = Some (r, fin)" "length (ch_log fin) \<le> length (ch_log st') + m st' + 1" "m st' < m st"
      using less assms(1) by blast
    then show ?thesis using chain_turn_log(1) [OF Again] by (subst chain_loop.simps) (simp add: Again)
  next
    case (Finish r st')
    then show ?thesis using chain_turn_log(2) [OF Finish] by (subst chain_loop.simps) simp
  qed
qed

section \<open>The search ends\<close>

text \<open>
  The contract of the server's cursors: a search runs over fixed offset ranges of the partitions; a
  call searches what the cursors leave of them (below the cursor when newest first, from it on when
  oldest first) and its next cursors stay within what it searched.
\<close>

definition narrow :: "search_direction \<Rightarrow> (jstr, int) jsmap option \<Rightarrow> jstr \<Rightarrow> partition_range \<Rightarrow> partition_range" where
  "narrow dir cursors p r = (case mget (opt_or cursors []) p of
      None \<Rightarrow> r
    | Some c \<Rightarrow> if dir \<noteq> OldestFirst then r\<lparr>pr_end := c\<rparr> else r\<lparr>pr_start := c\<rparr>)"

text \<open>What the cursors leave of each range is a part of it.\<close>

definition within :: "search_direction \<Rightarrow> (jstr, partition_range) jsmap \<Rightarrow> (jstr, int) jsmap option \<Rightarrow> bool" where
  "within dir ranges cur \<longleftrightarrow> (\<forall>(p, x) \<in> set ranges. pr_start x \<le> pr_start (narrow dir cur p x) \<and>
     pr_start (narrow dir cur p x) \<le> pr_end (narrow dir cur p x) \<and> pr_end (narrow dir cur p x) \<le> pr_end x)"

definition moves_cursors :: "search_direction \<Rightarrow> (jstr, partition_range) jsmap \<Rightarrow> search_server \<Rightarrow> bool" where
  "moves_cursors dir ranges server \<longleftrightarrow> (\<forall>n req r. server n req = Inr r \<longrightarrow> within dir ranges (sq_cursors req) \<longrightarrow>
     ss_direction (rs_search r) = dir \<and>
     ss_resolved_range (rs_search r) = Some (map (\<lambda>(p, x). (p, narrow dir (sq_cursors req) p x)) ranges) \<and>
     (\<exists>nxt. ss_next_cursors (rs_search r) = Some nxt \<and>
       (\<forall>(p, x) \<in> set ranges. \<exists>c. mget nxt p = Some c \<and>
         pr_start (narrow dir (sq_cursors req) p x) \<le> c \<and> c \<le> pr_end (narrow dir (sq_cursors req) p x))))"

definition width :: "partition_range \<Rightarrow> nat" where
  "width r = nat (pr_end r - pr_start r)"

definition left_over :: "search_direction \<Rightarrow> (jstr, partition_range) jsmap \<Rightarrow> (jstr, int) jsmap option \<Rightarrow> nat" where
  "left_over dir ranges cursors = (\<Sum>(p, x) \<leftarrow> ranges. width (narrow dir cursors p x))"

lemma narrow_next:
  assumes "mget nxt p = Some c" "pr_start (narrow dir cur p x) \<le> c" "c \<le> pr_end (narrow dir cur p x)"
    "pr_start x \<le> pr_start (narrow dir cur p x)" "pr_end (narrow dir cur p x) \<le> pr_end x"
  shows "width (narrow dir (Some nxt) p x) \<le> width (narrow dir cur p x) \<and>
    (c \<noteq> (if dir \<noteq> OldestFirst then pr_end (narrow dir cur p x) else pr_start (narrow dir cur p x)) \<longrightarrow>
      width (narrow dir (Some nxt) p x) < width (narrow dir cur p x)) \<and>
    pr_start x \<le> pr_start (narrow dir (Some nxt) p x) \<and>
    pr_start (narrow dir (Some nxt) p x) \<le> pr_end (narrow dir (Some nxt) p x) \<and> pr_end (narrow dir (Some nxt) p x) \<le> pr_end x"
  using assms by (cases dir; cases "mget (opt_or cur []) p") (auto simp: narrow_def width_def)

lemma sum_list_less: "(\<And>x. x \<in> set xs \<Longrightarrow> f x \<le> (g x :: nat)) \<Longrightarrow> x \<in> set xs \<Longrightarrow> f x < g x \<Longrightarrow> sum_list (map f xs) < sum_list (map g xs)"
proof (induction xs)
  case (Cons y ys)
  then show ?case using sum_list_cong_le [of ys f g] by (cases "x = y") (auto simp: add_less_le_mono add_le_less_mono)
qed simp

lemma cursors_move:
  assumes "moves_cursors dir ranges server" "server n req = Inr r" "within dir ranges (sq_cursors req)"
  shows "within dir ranges (ss_next_cursors (rs_search r)) \<and>
    left_over dir ranges (ss_next_cursors (rs_search r)) \<le> left_over dir ranges (sq_cursors req) \<and>
    (made_progress (rs_search r) \<longrightarrow> left_over dir ranges (ss_next_cursors (rs_search r)) < left_over dir ranges (sq_cursors req))"
proof -
  let ?s = "rs_search r" and ?cur = "sq_cursors req"
  obtain nxt where d: "ss_direction ?s = dir" "ss_resolved_range ?s = Some (map (\<lambda>(p, x). (p, narrow dir ?cur p x)) ranges)"
    and nxt: "ss_next_cursors ?s = Some nxt"
    and c: "\<And>p x. (p, x) \<in> set ranges \<Longrightarrow> \<exists>c. mget nxt p = Some c \<and> pr_start (narrow dir ?cur p x) \<le> c \<and> c \<le> pr_end (narrow dir ?cur p x)"
    using assms unfolding moves_cursors_def by blast
  have step: "width (narrow dir (Some nxt) p x) \<le> width (narrow dir ?cur p x) \<and>
      (mget nxt p \<noteq> Some (if dir \<noteq> OldestFirst then pr_end (narrow dir ?cur p x) else pr_start (narrow dir ?cur p x)) \<longrightarrow>
        width (narrow dir (Some nxt) p x) < width (narrow dir ?cur p x)) \<and>
      pr_start x \<le> pr_start (narrow dir (Some nxt) p x) \<and>
      pr_start (narrow dir (Some nxt) p x) \<le> pr_end (narrow dir (Some nxt) p x) \<and> pr_end (narrow dir (Some nxt) p x) \<le> pr_end x"
    if m: "(p, x) \<in> set ranges" for p x
  proof -
    obtain k where k: "mget nxt p = Some k" "pr_start (narrow dir ?cur p x) \<le> k" "k \<le> pr_end (narrow dir ?cur p x)"
      using c [OF m] by blast
    have "pr_start x \<le> pr_start (narrow dir ?cur p x)" "pr_end (narrow dir ?cur p x) \<le> pr_end x"
      using assms(3) m by (auto simp: within_def)
    from narrow_next [OF k this] k(1) show ?thesis by auto
  qed
  have le: "left_over dir ranges (Some nxt) \<le> left_over dir ranges ?cur"
    unfolding left_over_def by (rule sum_list_cong_le) (use step in auto)
  have w: "within dir ranges (Some nxt)" unfolding within_def using step by blast
  have "left_over dir ranges (Some nxt) < left_over dir ranges ?cur" if p: "made_progress ?s"
  proof -
    obtain q y where q: "(q, y) \<in> set ranges"
      "case mget nxt q of None \<Rightarrow> False | Some k \<Rightarrow> k \<noteq> (if dir \<noteq> OldestFirst then pr_end (narrow dir ?cur q y) else pr_start (narrow dir ?cur q y))"
      using p unfolding made_progress_def d nxt by (auto simp: list_ex_iff)
    then have lt: "width (narrow dir (Some nxt) q y) < width (narrow dir ?cur q y)" using step [OF q(1)] by (auto split: option.splits)
    show ?thesis
      unfolding left_over_def by (rule sum_list_less [of _ _ _ "(q, y)"]) (use step q lt in auto)
  qed
  with le w show ?thesis by (simp add: nxt)
qed

text \<open>The cap of a call's budget, as a number that a call without progress lowers.\<close>

definition cap_rank :: "chain_options \<Rightarrow> int option \<Rightarrow> nat" where
  "cap_rank ops cap = (case cap of
      None \<Rightarrow> nat (if unlimited ops then per_call_budget else co_budget ops)
    | Some c \<Rightarrow> nat c)"

definition run_ok :: "search_direction \<Rightarrow> (jstr, partition_range) jsmap \<Rightarrow> chain_options \<Rightarrow> chain_state \<Rightarrow> bool" where
  "run_ok dir ranges ops st \<longleftrightarrow> within dir ranges (ch_cursors st) \<and> 0 \<le> ch_run_scanned st"

definition rank :: "search_direction \<Rightarrow> (jstr, partition_range) jsmap \<Rightarrow> chain_options \<Rightarrow> chain_state \<Rightarrow> nat" where
  "rank dir ranges ops st = left_over dir ranges (ch_cursors st) + cap_rank ops (ch_cap st)"

lemma smaller_rank:
  assumes "call_budget ops st = Some b" "0 \<le> ch_run_scanned st" "1 \<le> smaller_budget b s"
  shows "cap_rank ops (Some (smaller_budget b s)) < cap_rank ops (ch_cap st)"
proof -
  have "1 \<le> b div 2" using assms(3) by (simp add: smaller_budget_def)
  then have b2: "2 \<le> b" by presburger
  then have b: "2 \<le> b" "smaller_budget b s < b" unfolding smaller_budget_def by auto
  have "nat b \<le> cap_rank ops (ch_cap st)"
    using assms(1,2) b(1)
    by (cases "ch_cap st") (auto simp: call_budget_def cap_rank_def min_cap_def Let_def split: if_splits)
  then show ?thesis using b by (simp add: cap_rank_def)
qed

definition counts_ok :: "search_server \<Rightarrow> bool" where
  "counts_ok server \<longleftrightarrow> (\<forall>n req r. server n req = Inr r \<longrightarrow> 0 \<le> ss_scanned (rs_search r))"

lemma chain_request_cursors [simp]: "sq_cursors (chain_request ops st b) = ch_cursors st"
  by (simp add: chain_request_def Let_def)

lemma chain_turn_Again:
  assumes "chain_turn server ops st = Again st'"
  obtains b r where "call_budget ops st = Some b" "server (length (ch_log st)) (chain_request ops st b) = Inr r"
    "after_call ops b (rs_search r) (chain_add (chain_request ops st b) r st) = Again st'"
  using assms by (auto simp: chain_turn_def Let_def split: option.splits sum.splits)

lemma chain_add_simps [simp]:
  "ch_cursors (chain_add req r st) = ss_next_cursors (rs_search r)"
  "ch_run_scanned (chain_add req r st) = ch_run_scanned st + ss_scanned (rs_search r)"
  "ch_run_matched (chain_add req r st) = ch_run_matched st + ss_matched (rs_search r)"
  "ch_cap (chain_add req r st) = ch_cap st"
  "ch_messages (chain_add req r st) = ch_messages st @ opt_or (rs_messages r) []"
  by (simp_all add: chain_add_def Let_def)

lemma turn_rank:
  assumes "moves_cursors dir ranges server" "counts_ok server" "run_ok dir ranges ops st" "chain_turn server ops st = Again st'"
  shows "run_ok dir ranges ops st' \<and> rank dir ranges ops st' < rank dir ranges ops st"
proof -
  obtain b r where b: "call_budget ops st = Some b" and r: "server (length (ch_log st)) (chain_request ops st b) = Inr r"
    and a: "after_call ops b (rs_search r) (chain_add (chain_request ops st b) r st) = Again st'"
    using chain_turn_Again [OF assms(4)] by blast
  have sc: "0 \<le> ss_scanned (rs_search r)" using assms(2) r by (auto simp: counts_ok_def)
  have w: "within dir ranges (sq_cursors (chain_request ops st b))" "0 \<le> ch_run_scanned st" using assms(3) by (simp_all add: run_ok_def)
  note m = cursors_move [OF assms(1) r w(1), unfolded chain_request_cursors]
  show ?thesis
  proof (cases "made_progress (rs_search r)")
    case True
    then have "st' = chain_add (chain_request ops st b) r st" using a by (simp add: after_call_def split: if_splits)
    then show ?thesis using m True w(2) sc by (simp add: run_ok_def rank_def)
  next
    case False
    then have s: "st' = (chain_add (chain_request ops st b) r st)\<lparr>ch_cap := Some (smaller_budget b (rs_search r))\<rparr>"
      "1 \<le> smaller_budget b (rs_search r)" using a by (auto simp: after_call_def Let_def split: if_splits)
    from smaller_rank [OF b w(2) s(2)] m w(2) sc show ?thesis unfolding s(1) by (simp add: run_ok_def rank_def)
  qed
qed


section \<open>Pages and budgets\<close>

text \<open>The contract of a page: for a positive budget and limit, no more than asked for, counted as returned.\<close>

definition pages_ok :: "search_server \<Rightarrow> bool" where
  "pages_ok server \<longleftrightarrow> (\<forall>n req r. server n req = Inr r \<longrightarrow> (\<forall>b. sq_budget req = Some b \<longrightarrow> 1 \<le> b) \<longrightarrow>
     (\<forall>l. sq_limit req = Some l \<longrightarrow> 1 \<le> l) \<longrightarrow>
     0 \<le> ss_scanned (rs_search r) \<and>
     (\<forall>b. sq_budget req = Some b \<longrightarrow> ss_scanned (rs_search r) \<le> b) \<and>
     ss_matched (rs_search r) = int (length (opt_or (rs_messages r) [])) \<and>
     (\<forall>l. sq_limit req = Some l \<longrightarrow> ss_matched (rs_search r) \<le> l))"

definition asked_well :: "chain_options \<Rightarrow> search_result \<Rightarrow> bool" where
  "asked_well ops x \<longleftrightarrow> (\<exists>b. sq_budget (res_req x) = Some b \<and> 1 \<le> b \<and> (if unlimited ops then b \<le> per_call_budget else b \<le> co_budget ops)) \<and>
     (co_stop_on_limit ops \<longrightarrow> (\<exists>l. sq_limit (res_req x) = Some l \<and> 1 \<le> l \<and> l \<le> co_limit ops))"

definition continues :: "(jstr, int) jsmap option \<Rightarrow> search_result list \<Rightarrow> bool" where
  "continues start xs \<longleftrightarrow> (\<forall>i < length xs. sq_cursors (res_req (xs ! i)) =
     (if i = 0 then start else ss_next_cursors (res_stats (xs ! (i - 1)))))"

lemma continues_snoc: "continues start (xs @ [x]) \<longleftrightarrow> continues start xs \<and>
    sq_cursors (res_req x) = (if xs = [] then start else ss_next_cursors (res_stats (last xs)))"
  unfolding continues_def by (auto simp: nth_append less_Suc_eq last_conv_nth)

text \<open>What holds between two turns, and of the state in which the loop stops.\<close>

definition page_inv :: "chain_options \<Rightarrow> chain_state \<Rightarrow> bool" where
  "page_inv ops st \<longleftrightarrow>
     0 \<le> ch_run_scanned st \<and> (\<not> unlimited ops \<longrightarrow> ch_run_scanned st \<le> co_budget ops) \<and>
     0 \<le> ch_run_matched st \<and> (co_stop_on_limit ops \<longrightarrow> ch_run_matched st \<le> co_limit ops) \<and>
     (\<exists>ms. ch_messages st = ch_messages (chain_start ops) @ ms \<and> ch_run_matched st = int (length ms)) \<and>
     ch_scanned st = ch_scanned (chain_start ops) + ch_run_scanned st \<and>
     ch_matched st = ch_matched (chain_start ops) + ch_run_matched st \<and>
     (\<forall>c. ch_cap st = Some c \<longrightarrow> 1 \<le> c) \<and>
     (\<forall>x \<in> set (ch_log st). asked_well ops x) \<and>
     continues (ch_cursors (chain_start ops)) (ch_log st) \<and>
     ch_cursors st = (if ch_log st = [] then ch_cursors (chain_start ops) else ss_next_cursors (res_stats (last (ch_log st)))) \<and>
     (ch_log st \<noteq> [] \<longrightarrow> res_messages (last (ch_log st)) = ch_messages st \<and> ss_scanned (res_stats (last (ch_log st))) = ch_scanned st)"

definition room :: "chain_options \<Rightarrow> chain_state \<Rightarrow> bool" where
  "room ops st \<longleftrightarrow> (\<forall>l. sq_limit (co_base ops) = Some l \<longrightarrow> 1 \<le> l) \<and> (co_stop_on_limit ops \<longrightarrow> ch_run_matched st < co_limit ops)"

lemma call_budget_bounds:
  assumes "call_budget ops st = Some b" "page_inv ops st"
  shows "1 \<le> b \<and> (if unlimited ops then b \<le> per_call_budget else b \<le> co_budget ops - ch_run_scanned st)"
proof (cases "ch_cap st")
  case None
  then show ?thesis using assms(1) by (auto simp: call_budget_def min_cap_def per_call_budget_def Let_def split: if_splits)
next
  case (Some c)
  then have "1 \<le> c" using assms(2) by (simp add: page_inv_def)
  with Some show ?thesis using assms(1) by (auto simp: call_budget_def min_cap_def per_call_budget_def Let_def split: if_splits)
qed

lemma page_inv_add:
  assumes "pages_ok server" "page_inv ops st" "room ops st" "call_budget ops st = Some b"
    "server (length (ch_log st)) (chain_request ops st b) = Inr r"
  shows "page_inv ops (chain_add (chain_request ops st b) r st)"
proof -
  let ?req = "chain_request ops st b" and ?s = "rs_search r"
  let ?x = "\<lparr>res_messages = ch_messages st @ opt_or (rs_messages r) [],
    res_stats = ?s\<lparr>ss_scanned := ch_scanned st + ss_scanned ?s, ss_matched := ch_matched st + ss_matched ?s\<rparr>, res_req = ?req\<rparr>"
  have q: "sq_budget ?req = Some b" "sq_cursors ?req = ch_cursors st"
    "co_stop_on_limit ops \<Longrightarrow> sq_limit ?req = Some (co_limit ops - ch_run_matched st)" by (simp_all add: chain_request_def Let_def)
  note cb = call_budget_bounds [OF assms(4,2)]
  have "\<forall>l. sq_limit ?req = Some l \<longrightarrow> 1 \<le> l" using assms(3) by (auto simp: chain_request_def room_def Let_def)
  moreover have "\<forall>b'. sq_budget ?req = Some b' \<longrightarrow> 1 \<le> b'" using q(1) cb by simp
  ultimately have pg: "0 \<le> ss_scanned ?s \<and> (\<forall>b'. sq_budget ?req = Some b' \<longrightarrow> ss_scanned ?s \<le> b') \<and>
      ss_matched ?s = int (length (opt_or (rs_messages r) [])) \<and> (\<forall>l. sq_limit ?req = Some l \<longrightarrow> ss_matched ?s \<le> l)"
    using assms(1) assms(5) unfolding pages_ok_def by (elim allE [of _ "length (ch_log st)"] allE [of _ ?req] allE [of _ r]) iprover
  have p: "0 \<le> ss_scanned ?s" "ss_scanned ?s \<le> b" "ss_matched ?s = int (length (opt_or (rs_messages r) []))"
    "\<And>l. sq_limit ?req = Some l \<Longrightarrow> ss_matched ?s \<le> l"
    using pg q(1) by iprover+
  have i: "0 \<le> ch_run_scanned st" "0 \<le> ch_run_matched st" using assms(2) by (simp_all add: page_inv_def)
  have aw: "asked_well ops ?x" using q cb i assms(3) by (auto simp: asked_well_def room_def split: if_splits)
  have lg: "ch_log (chain_add ?req r st) = ch_log st @ [?x]" by (simp add: chain_add_def Let_def)
  have co: "continues (ch_cursors (chain_start ops)) (ch_log st @ [?x])"
    using assms(2) q(2) by (simp add: continues_snoc page_inv_def)
  obtain ms where ms: "ch_messages st = ch_messages (chain_start ops) @ ms" "ch_run_matched st = int (length ms)"
    using assms(2) by (auto simp: page_inv_def)
  have "\<exists>ms. ch_messages (chain_add ?req r st) = ch_messages (chain_start ops) @ ms \<and> ch_run_matched (chain_add ?req r st) = int (length ms)"
    using ms p(3) by (intro exI [of _ "ms @ opt_or (rs_messages r) []"]) simp
  moreover have "ch_scanned (chain_add ?req r st) = ch_scanned st + ss_scanned ?s" "ch_matched (chain_add ?req r st) = ch_matched st + ss_matched ?s"
    by (simp_all add: chain_add_def Let_def)
  ultimately show ?thesis
    using assms(2) p(1-3) p(4) [OF q(3)] cb aw co unfolding page_inv_def lg by (auto split: if_splits)
qed

definition stopped_well :: "chain_options \<Rightarrow> (jstr + stop_reason) \<Rightarrow> chain_state \<Rightarrow> bool" where
  "stopped_well ops r fin \<longleftrightarrow> page_inv ops fin \<and>
     (r = Inr StopLimit \<longrightarrow> co_stop_on_limit ops \<and> co_limit ops \<le> ch_run_matched fin) \<and>
     (r = Inr StopBudget \<longrightarrow> \<not> unlimited ops \<and> co_budget ops \<le> ch_run_scanned fin) \<and>
     (r = Inr StopComplete \<longrightarrow> ch_log fin \<noteq> [] \<and> \<not> ss_more_available (res_stats (last (ch_log fin))))"

lemma page_inv_cap: "page_inv ops st \<Longrightarrow> 1 \<le> c \<Longrightarrow> page_inv ops (st\<lparr>ch_cap := Some c\<rparr>)"
  by (simp add: page_inv_def)

lemma chain_add_log: "ch_log (chain_add req r st) \<noteq> []"
    "ss_more_available (res_stats (last (ch_log (chain_add req r st)))) = ss_more_available (rs_search r)"
  by (simp_all add: chain_add_def Let_def)

lemma turn_pages:
  assumes "pages_ok server" "page_inv ops st \<and> room ops st"
  shows "chain_turn server ops st = Again st' \<Longrightarrow> page_inv ops st' \<and> room ops st'"
    "chain_turn server ops st = Finish r fin \<Longrightarrow> stopped_well ops r fin"
proof -
  assume "chain_turn server ops st = Again st'"
  then obtain b x where b: "call_budget ops st = Some b" and x: "server (length (ch_log st)) (chain_request ops st b) = Inr x"
    and a: "after_call ops b (rs_search x) (chain_add (chain_request ops st b) x st) = Again st'"
    by (rule chain_turn_Again)
  have "page_inv ops (chain_add (chain_request ops st b) x st)"
    using page_inv_add [OF assms(1) conjunct1 [OF assms(2)] conjunct2 [OF assms(2)] b x] .
  with a assms(2) show "page_inv ops st' \<and> room ops st'"
    by (auto simp: after_call_def Let_def room_def page_inv_cap split: if_splits)
next
  assume f: "chain_turn server ops st = Finish r fin"
  show "stopped_well ops r fin"
  proof (cases "call_budget ops st")
    case None
    with f have "r = Inr StopBudget" "fin = st" by (simp_all add: chain_turn_def)
    with None assms(2) show ?thesis by (auto simp: stopped_well_def call_budget_def Let_def split: if_splits)
  next
    case (Some b)
    show ?thesis
    proof (cases "server (length (ch_log st)) (chain_request ops st b)")
      case (Inl e)
      with f Some have "r = Inl e" "fin = st" by (simp_all add: chain_turn_def)
      with assms(2) show ?thesis by (simp add: stopped_well_def)
    next
      case (Inr x)
      let ?st = "chain_add (chain_request ops st b) x st"
      have p: "page_inv ops ?st" using page_inv_add [OF assms(1) conjunct1 [OF assms(2)] conjunct2 [OF assms(2)] Some Inr] .
      from f Some Inr have "after_call ops b (rs_search x) ?st = Finish r fin" by (simp add: chain_turn_def)
      with p chain_add_log [of "chain_request ops st b" x st] show ?thesis
        by (auto simp: after_call_def Let_def stopped_well_def split: if_splits)
    qed
  qed
qed


section \<open>Instances\<close>

definition sample_request :: search_request where
  "sample_request = \<lparr>sq_partition = None, sq_limit = Some 2, sq_budget = None, sq_direction = Some NewestFirst, sq_stop_on_limit = Some True,
     sq_mode = Some (js ''contains''), sq_path = None, sq_header_key = None, sq_op = None, sq_value = Some (js ''x''), sq_zones = None,
     sq_from_ts = None, sq_to_ts = None, sq_cursors = None\<rparr>"

definition sample_options :: "int \<Rightarrow> chain_options" where
  "sample_options b = \<lparr>co_base = sample_request, co_prior = None, co_budget = b, co_stop_on_limit = True, co_limit = 2, co_should_stop = \<lambda>_. False\<rparr>"

text \<open>A server that times out without progress for ever, over a partition of five offsets.\<close>

definition sample_ranges :: "(jstr, partition_range) jsmap" where
  "sample_ranges = [(js ''0'', \<lparr>pr_start = 0, pr_end = 5\<rparr>)]"

definition stuck_server :: search_server where
  "stuck_server n req = Inr \<lparr>rs_cluster = js ''c'', rs_topic = js ''t'', rs_messages = None, rs_search = \<lparr>ss_scanned = 0, ss_read = Some 40, ss_matched = 0, ss_budget_exhausted = False,
     ss_timed_out = True, ss_more_available = True, ss_direction = NewestFirst,
     ss_next_cursors = Some (map (\<lambda>(p, x). (p, pr_end (narrow NewestFirst (sq_cursors req) p x))) sample_ranges),
     ss_resolved_range = Some (map (\<lambda>(p, x). (p, narrow NewestFirst (sq_cursors req) p x)) sample_ranges), ss_parse_errors = 0,
     ss_parse_error_offsets = None, ss_durations = None\<rparr>\<rparr>"


text \<open>A server that reads as much as it may, finds nothing and says there is more.\<close>

definition reading_server :: search_server where
  "reading_server n req = Inr \<lparr>rs_cluster = js ''c'', rs_topic = js ''t'', rs_messages = None, rs_search = \<lparr>ss_scanned = opt_or (sq_budget req) 1, ss_read = None, ss_matched = 0,
     ss_budget_exhausted = True, ss_timed_out = False, ss_more_available = True, ss_direction = NewestFirst,
     ss_next_cursors = None, ss_resolved_range = None, ss_parse_errors = 0,
     ss_parse_error_offsets = None, ss_durations = None\<rparr>\<rparr>"


end
