(* ===== verification/ApiFetch.thy ===== *)
theory ApiFetch
  imports Message
begin

text \<open>
  The transport of the single-page app: the CSRF token cache (\<open>frontend/src/auth/csrf.ts\<close>) and
  \<open>apiFetch\<close> (\<open>frontend/src/auth/api.ts\<close>). Calls run concurrently and share the cached token, the
  promise of the token request under way and the redirect guard, so they are a transition system:
  each call is a small state machine whose steps are the code between two awaits, and the answers
  of the server (or a failing network) are chosen by the environment.
\<close>

section \<open>Requests and answers\<close>

text \<open>Header names are kept in lower case, as \<open>Headers\<close> compares them without case.\<close>

type_synonym headers = "(jstr, jstr) jsmap"

record http_request =
  hr_url :: jstr
  hr_method :: jstr
  hr_headers :: headers
  hr_body :: "byte list option"

record http_response =
  hp_status :: int
  hp_status_text :: jstr
  hp_headers :: headers
  hp_body :: "byte list"

definition ascii_lower :: "jstr \<Rightarrow> jstr" where
  "ascii_lower s = map (\<lambda>c. if 65 \<le> c \<and> c \<le> 90 then c + 32 else c) s"

definition ascii_upper :: "jstr \<Rightarrow> jstr" where
  "ascii_upper s = map (\<lambda>c. if 97 \<le> c \<and> c \<le> 122 then c - 32 else c) s"

definition set_header :: "jstr \<Rightarrow> jstr \<Rightarrow> headers \<Rightarrow> headers" where
  "set_header name v h = mset_key (ascii_lower name) v h"

definition get_header :: "headers \<Rightarrow> jstr \<Rightarrow> jstr option" where
  "get_header h name = mget h (ascii_lower name)"

definition write_methods :: "jstr list" where
  "write_methods = [js ''POST'', js ''PUT'', js ''PATCH'', js ''DELETE'']"

definition is_write :: "http_request \<Rightarrow> bool" where
  "is_write req \<longleftrightarrow> ascii_upper (hr_method req) \<in> set write_methods"

text \<open>The request as it goes out, with the token it could get.\<close>

definition sent_request :: "http_request \<Rightarrow> jstr option \<Rightarrow> http_request" where
  "sent_request req t =
     (let h = set_header (js ''x-requested-with'') (js ''XMLHttpRequest'') (hr_headers req)
      in req\<lparr>hr_method := ascii_upper (hr_method req),
             hr_headers := (case t of None \<Rightarrow> h | Some tok \<Rightarrow> set_header (js ''x-csrf-token'') tok h)\<rparr>)"

definition csrf_required :: "http_response \<Rightarrow> bool" where
  "csrf_required r \<longleftrightarrow> hp_status r = 403 \<and> get_header (hp_headers r) (js ''x-csrf-token'') = Some (js ''Required'')"

section \<open>State\<close>

text \<open>
  A token request: sent, or its promise settled. \<open>Token_Wait k own\<close> is a call awaiting promise
  \<open>k\<close>; \<open>own\<close> when it made the request and runs the \<open>finally\<close>.
\<close>

datatype head_request = HeadSent | HeadToken jstr | HeadFailed

datatype call_phase =
    Call_Start
  | Token_Wait nat bool
  | Send_Ready "jstr option"
  | Response_Wait
  | Resolved http_response
  | Session_Expired
  | Network_Failed

text \<open>A call with what it has sent and what came back (\<open>None\<close>: the network failed).\<close>

record api_call =
  ac_request :: http_request
  ac_retried :: bool
  ac_phase :: call_phase
  ac_sent :: "http_request list"
  ac_answers :: "http_response option list"

record net_state =
  cached_token :: "jstr option"
  in_flight :: "nat option"
  token_requests :: "head_request list"
  redirecting :: bool
  redirects :: nat
  api_calls :: "api_call list"

definition net_initial :: net_state where
  "net_initial = \<lparr>cached_token = None, in_flight = None, token_requests = [], redirecting = False, redirects = 0, api_calls = []\<rparr>"

section \<open>Operations\<close>

definition clear_csrf_token :: "net_state \<Rightarrow> net_state" where
  "clear_csrf_token st = st\<lparr>cached_token := None, in_flight := None\<rparr>"

text \<open>\<open>getCsrfToken\<close> up to its await: the token at once, the promise under way, or a new request.\<close>

definition get_csrf_token :: "net_state \<Rightarrow> call_phase \<times> net_state" where
  "get_csrf_token st =
     (case cached_token st of
        Some (c # t) \<Rightarrow> (Send_Ready (Some (c # t)), st)
      | _ \<Rightarrow> (case in_flight st of
          Some k \<Rightarrow> (Token_Wait k False, st)
        | None \<Rightarrow> let k = length (token_requests st) in
            (Token_Wait k True, st\<lparr>token_requests := token_requests st @ [HeadSent], in_flight := Some k\<rparr>)))"

definition set_call :: "nat \<Rightarrow> api_call \<Rightarrow> net_state \<Rightarrow> net_state" where
  "set_call i c st = st\<lparr>api_calls := (api_calls st)[i := c]\<rparr>"

text \<open>\<open>apiFetch\<close> is called.\<close>

definition api_fetch :: "http_request \<Rightarrow> net_state \<Rightarrow> net_state" where
  "api_fetch req st = st\<lparr>api_calls := api_calls st @
     [\<lparr>ac_request = req, ac_retried = False, ac_phase = Call_Start, ac_sent = [], ac_answers = []\<rparr>]\<rparr>"

text \<open>The start of a call, also of its retry: a write asks for the token.\<close>

definition start_call :: "nat \<Rightarrow> net_state \<Rightarrow> net_state" where
  "start_call i st =
     (let c = api_calls st ! i in
      if is_write (ac_request c) then (let (ph, st') = get_csrf_token st in set_call i (c\<lparr>ac_phase := ph\<rparr>) st')
      else set_call i (c\<lparr>ac_phase := Send_Ready None\<rparr>) st)"

text \<open>The token request is answered (\<open>None\<close>: it failed): a token is cached, anything else is an error.\<close>

definition token_answer :: "nat \<Rightarrow> http_response option \<Rightarrow> net_state \<Rightarrow> net_state" where
  "token_answer k a st =
     (case a of
        Some r \<Rightarrow> (case get_header (hp_headers r) (js ''x-csrf-token'') of
            Some (c # t) \<Rightarrow> st\<lparr>cached_token := Some (c # t), token_requests := (token_requests st)[k := HeadToken (c # t)]\<rparr>
          | _ \<Rightarrow> st\<lparr>token_requests := (token_requests st)[k := HeadFailed]\<rparr>)
      | None \<Rightarrow> st\<lparr>token_requests := (token_requests st)[k := HeadFailed]\<rparr>)"

text \<open>A waiting call resumes; the one that made the request forgets it, and an error is ignored.\<close>

definition token_ready :: "nat \<Rightarrow> net_state \<Rightarrow> net_state" where
  "token_ready i st =
     (let c = api_calls st ! i in
      case ac_phase c of
        Token_Wait k own \<Rightarrow>
          set_call i (c\<lparr>ac_phase := Send_Ready (case token_requests st ! k of HeadToken t \<Rightarrow> Some t | _ \<Rightarrow> None)\<rparr>)
            (if own then st\<lparr>in_flight := None\<rparr> else st)
      | _ \<Rightarrow> st)"

definition send_call :: "nat \<Rightarrow> net_state \<Rightarrow> net_state" where
  "send_call i st =
     (let c = api_calls st ! i in
      case ac_phase c of
        Send_Ready t \<Rightarrow> set_call i (c\<lparr>ac_phase := Response_Wait, ac_sent := ac_sent c @ [sent_request (ac_request c) t]\<rparr>) st
      | _ \<Rightarrow> st)"

text \<open>The response of a call: an expired session, a retry with a fresh token, or the result.\<close>

definition call_answer :: "nat \<Rightarrow> http_response option \<Rightarrow> net_state \<Rightarrow> net_state" where
  "call_answer i a st =
     (let c = (api_calls st ! i)\<lparr>ac_answers := ac_answers (api_calls st ! i) @ [a]\<rparr> in
      case a of
        None \<Rightarrow> set_call i (c\<lparr>ac_phase := Network_Failed\<rparr>) st
      | Some r \<Rightarrow>
          if hp_status r = 401 then
            (let st1 = clear_csrf_token st;
                 st2 = (if redirecting st1 then st1 else st1\<lparr>redirecting := True, redirects := Suc (redirects st1)\<rparr>)
             in set_call i (c\<lparr>ac_phase := Session_Expired\<rparr>) st2)
          else if csrf_required r \<and> \<not> ac_retried c then
            set_call i (c\<lparr>ac_retried := True, ac_phase := Call_Start\<rparr>) (clear_csrf_token st)
          else set_call i (c\<lparr>ac_phase := Resolved r\<rparr>) st)"

section \<open>Steps\<close>

inductive net_step :: "net_state \<Rightarrow> net_state \<Rightarrow> bool" where
  start: "i < length (api_calls st) \<Longrightarrow> ac_phase (api_calls st ! i) = Call_Start \<Longrightarrow> net_step st (start_call i st)"
| answered: "k < length (token_requests st) \<Longrightarrow> token_requests st ! k = HeadSent \<Longrightarrow> net_step st (token_answer k a st)"
| ready: "i < length (api_calls st) \<Longrightarrow> ac_phase (api_calls st ! i) = Token_Wait k own \<Longrightarrow>
    token_requests st ! k \<noteq> HeadSent \<Longrightarrow> net_step st (token_ready i st)"
| send: "i < length (api_calls st) \<Longrightarrow> ac_phase (api_calls st ! i) = Send_Ready t \<Longrightarrow> net_step st (send_call i st)"
| response: "i < length (api_calls st) \<Longrightarrow> ac_phase (api_calls st ! i) = Response_Wait \<Longrightarrow> net_step st (call_answer i a st)"

inductive net_reachable :: "net_state \<Rightarrow> bool" where
  initial: "net_reachable net_initial"
| called: "net_reachable st \<Longrightarrow> net_reachable (api_fetch req st)"
| stepped: "net_reachable st \<Longrightarrow> net_step st st' \<Longrightarrow> net_reachable st'"

definition settled :: "api_call \<Rightarrow> bool" where
  "settled c \<longleftrightarrow> (case ac_phase c of Resolved _ \<Rightarrow> True | Session_Expired \<Rightarrow> True | Network_Failed \<Rightarrow> True | _ \<Rightarrow> False)"

section \<open>Invariant\<close>

definition issued :: "net_state \<Rightarrow> jstr set" where
  "issued st = {t. HeadToken t \<in> set (token_requests st)}"

text \<open>A call may carry a token the server issued, and a write only.\<close>

definition token_ok :: "net_state \<Rightarrow> http_request \<Rightarrow> jstr option \<Rightarrow> bool" where
  "token_ok st req t \<longleftrightarrow> (\<forall>x. t = Some x \<longrightarrow> is_write req \<and> x \<in> issued st)"

definition phase_ok :: "net_state \<Rightarrow> api_call \<Rightarrow> bool" where
  "phase_ok st c \<longleftrightarrow>
     (case ac_phase c of
        Call_Start \<Rightarrow> length (ac_sent c) = length (ac_answers c)
      | Token_Wait k own \<Rightarrow> length (ac_sent c) = length (ac_answers c) \<and> is_write (ac_request c) \<and> k < length (token_requests st)
      | Send_Ready t \<Rightarrow> length (ac_sent c) = length (ac_answers c) \<and> token_ok st (ac_request c) t
      | Response_Wait \<Rightarrow> length (ac_sent c) = Suc (length (ac_answers c))
      | Resolved r \<Rightarrow> ac_answers c \<noteq> [] \<and> last (ac_answers c) = Some r \<and> hp_status r \<noteq> 401 \<and> (csrf_required r \<longrightarrow> ac_retried c)
      | Session_Expired \<Rightarrow> ac_answers c \<noteq> [] \<and> (\<exists>r. last (ac_answers c) = Some r \<and> hp_status r = 401) \<and> redirecting st
      | Network_Failed \<Rightarrow> ac_answers c \<noteq> [] \<and> last (ac_answers c) = None)"

definition call_inv :: "net_state \<Rightarrow> api_call \<Rightarrow> bool" where
  "call_inv st c \<longleftrightarrow> phase_ok st c \<and>
     (settled c \<longrightarrow> length (ac_sent c) = length (ac_answers c)) \<and>
     length (ac_answers c) = (if settled c then 1 else 0) + (if ac_retried c then 1 else 0) \<and>
     (ac_retried c \<longrightarrow> (\<exists>r. hd (ac_answers c) = Some r \<and> csrf_required r)) \<and>
     (\<forall>x \<in> set (ac_sent c). \<exists>t. x = sent_request (ac_request c) t \<and> token_ok st (ac_request c) t)"

definition net_inv :: "net_state \<Rightarrow> bool" where
  "net_inv st \<longleftrightarrow> (\<forall>c \<in> set (api_calls st). call_inv st c) \<and>
     redirects st = (if redirecting st then 1 else 0) \<and>
     (\<forall>t. cached_token st = Some t \<longrightarrow> t \<in> issued st) \<and>
     (\<forall>k. in_flight st = Some k \<longrightarrow> k < length (token_requests st))"


text \<open>What an invariant of one call depends on only grows.\<close>

definition grows :: "net_state \<Rightarrow> net_state \<Rightarrow> bool" where
  "grows st st' \<longleftrightarrow> issued st \<subseteq> issued st' \<and> length (token_requests st) \<le> length (token_requests st') \<and>
     (redirecting st \<longrightarrow> redirecting st')"

lemma grows_refl [simp]: "grows st st"
  by (simp add: grows_def)

lemma token_ok_mono: "grows st st' \<Longrightarrow> token_ok st req t \<Longrightarrow> token_ok st' req t"
  unfolding grows_def token_ok_def by blast

lemma phase_ok_mono: "grows st st' \<Longrightarrow> phase_ok st c \<Longrightarrow> phase_ok st' c"
  using token_ok_mono [of st st'] unfolding phase_ok_def
  by (cases "ac_phase c") (auto simp: grows_def)

lemma call_inv_mono: "grows st st' \<Longrightarrow> call_inv st c \<Longrightarrow> call_inv st' c"
  using token_ok_mono [of st st' "ac_request c"] phase_ok_mono [of st st' c] unfolding call_inv_def by metis

lemma calls_update:
  assumes "\<forall>c \<in> set (api_calls st). call_inv st c" "grows st st'" "api_calls st' = (api_calls st)[i := c]" "call_inv st' c"
  shows "\<forall>c \<in> set (api_calls st'). call_inv st' c"
proof
  fix d
  assume "d \<in> set (api_calls st')"
  then have "d = c \<or> d \<in> set (api_calls st)" using set_update_subset_insert [of "api_calls st" i c] assms(3) by auto
  then show "call_inv st' d" using assms(1,2,4) call_inv_mono by blast
qed

lemmas inv_defs = call_inv_def phase_ok_def settled_def token_ok_def


lemma settled_simps [simp]:
  "settled (c\<lparr>ac_phase := Call_Start\<rparr>) = False" "settled (c\<lparr>ac_phase := Token_Wait k own\<rparr>) = False"
  "settled (c\<lparr>ac_phase := Send_Ready t\<rparr>) = False" "settled (c\<lparr>ac_phase := Response_Wait\<rparr>) = False"
  "settled (c\<lparr>ac_phase := Resolved r\<rparr>)" "settled (c\<lparr>ac_phase := Session_Expired\<rparr>)" "settled (c\<lparr>ac_phase := Network_Failed\<rparr>)"
  by (simp_all add: settled_def)

lemma phase_settled: "ac_phase c = Call_Start \<Longrightarrow> \<not> settled c" "ac_phase c = Token_Wait k own \<Longrightarrow> \<not> settled c"
    "ac_phase c = Send_Ready t \<Longrightarrow> \<not> settled c" "ac_phase c = Response_Wait \<Longrightarrow> \<not> settled c"
  by (simp_all add: settled_def)

lemma net_inv_nth: "net_inv st \<Longrightarrow> i < length (api_calls st) \<Longrightarrow> call_inv st (api_calls st ! i)"
  by (simp add: net_inv_def)

lemma net_inv_initial: "net_inv net_initial"
  by (simp add: net_inv_def net_initial_def)

lemma net_inv_called: "net_inv st \<Longrightarrow> net_inv (api_fetch req st)"
proof -
  assume i: "net_inv st"
  have g: "grows st (api_fetch req st)" by (simp add: grows_def api_fetch_def issued_def)
  have "call_inv (api_fetch req st) c" if "c \<in> set (api_calls st)" for c
    using call_inv_mono [OF g] i that by (simp add: net_inv_def)
  moreover have "call_inv (api_fetch req st) \<lparr>ac_request = req, ac_retried = False, ac_phase = Call_Start, ac_sent = [], ac_answers = []\<rparr>"
    by (simp add: call_inv_def phase_ok_def settled_def)
  ultimately show ?thesis using i by (auto simp: net_inv_def api_fetch_def issued_def)
qed

text \<open>An update of one call, and of the shared state around it.\<close>

lemma net_inv_update:
  assumes "net_inv st" "grows st st'" "api_calls st' = (api_calls st)[i := c]" "call_inv st' c"
    and "redirects st' = (if redirecting st' then 1 else 0)"
    and "cached_token st' = None \<or> cached_token st' = cached_token st"
    and "in_flight st' = None \<or> in_flight st' = in_flight st \<or> (\<exists>k. in_flight st' = Some k \<and> k < length (token_requests st'))"
  shows "net_inv st'"
proof -
  have "\<forall>c \<in> set (api_calls st'). call_inv st' c"
    using calls_update [OF _ assms(2-4)] assms(1) by (simp add: net_inv_def)
  moreover have "\<forall>t. cached_token st' = Some t \<longrightarrow> t \<in> issued st'"
    using assms(1,2,6) by (auto simp: net_inv_def grows_def)
  moreover have "\<forall>k. in_flight st' = Some k \<longrightarrow> k < length (token_requests st')"
    using assms(1,2,7) by (auto simp: net_inv_def grows_def intro: order.strict_trans2)
  ultimately show ?thesis using assms(5) by (simp add: net_inv_def)
qed

lemma set_call_simps [simp]: "issued (set_call i c st) = issued st" "token_requests (set_call i c st) = token_requests st"
    "redirecting (set_call i c st) = redirecting st" "redirects (set_call i c st) = redirects st"
    "cached_token (set_call i c st) = cached_token st" "in_flight (set_call i c st) = in_flight st"
    "api_calls (set_call i c st) = (api_calls st)[i := c]"
  by (simp_all add: set_call_def issued_def)

lemma call_inv_set_call [simp]: "call_inv (set_call i c st) d = call_inv st d"
  by (simp add: call_inv_def phase_ok_def token_ok_def cong: call_phase.case_cong)

lemma net_inv_set:
  assumes "net_inv st" "grows st st1" "api_calls st1 = api_calls st" "call_inv st1 c"
    and "redirects st1 = (if redirecting st1 then 1 else 0)"
    and "cached_token st1 = None \<or> cached_token st1 = cached_token st"
    and "in_flight st1 = None \<or> in_flight st1 = in_flight st \<or> (\<exists>k. in_flight st1 = Some k \<and> k < length (token_requests st1))"
  shows "net_inv (set_call i c st1)"
proof (rule net_inv_update [OF assms(1)])
  show "grows st (set_call i c st1)" using assms(2) by (simp add: grows_def)
  show "api_calls (set_call i c st1) = (api_calls st)[i := c]" using assms(3) by simp
qed (use assms in simp_all)

lemma issued_append_sent [simp]: "issued (st\<lparr>token_requests := token_requests st @ [HeadSent], in_flight := k\<rparr>) = issued st"
  by (simp add: issued_def)

lemma get_csrf_token_facts:
  assumes "net_inv st" "get_csrf_token st = (ph, st1)"
  shows "grows st st1 \<and> api_calls st1 = api_calls st \<and> redirecting st1 = redirecting st \<and> redirects st1 = redirects st \<and>
    cached_token st1 = cached_token st \<and>
    (in_flight st1 = in_flight st \<or> (\<exists>k. in_flight st1 = Some k \<and> k < length (token_requests st1))) \<and>
    ((\<exists>t. ph = Send_Ready (Some t) \<and> t \<in> issued st1) \<or> (\<exists>k own. ph = Token_Wait k own \<and> k < length (token_requests st1)))"
proof -
  have new: ?thesis if "ph = Token_Wait (length (token_requests st)) True"
      "st1 = st\<lparr>token_requests := token_requests st @ [HeadSent], in_flight := Some (length (token_requests st))\<rparr>"
    using that by (simp add: grows_def, blast)
  have joined: ?thesis if "ph = Token_Wait k False" "st1 = st" "in_flight st = Some k" for k
    using that assms(1) by (simp add: net_inv_def, blast)
  have cached: ?thesis if "ph = Send_Ready (Some t)" "st1 = st" "cached_token st = Some t" for t
    using that assms(1) by (simp add: net_inv_def)
  have "(ph = Token_Wait (length (token_requests st)) True \<and>
      st1 = st\<lparr>token_requests := token_requests st @ [HeadSent], in_flight := Some (length (token_requests st))\<rparr>) \<or>
      (\<exists>k. ph = Token_Wait k False \<and> st1 = st \<and> in_flight st = Some k) \<or>
      (\<exists>t. ph = Send_Ready (Some t) \<and> st1 = st \<and> cached_token st = Some t)"
    using assms(2) by (cases "cached_token st"; cases "in_flight st") (auto simp: get_csrf_token_def Let_def split: list.splits)
  then show ?thesis by (elim disjE exE conjE) (rule new joined cached; assumption)+
qed

lemma net_inv_start:
  assumes "net_inv st" "i < length (api_calls st)" "ac_phase (api_calls st ! i) = Call_Start"
  shows "net_inv (start_call i st)"
proof -
  let ?c = "api_calls st ! i"
  have c: "call_inv st ?c" using net_inv_nth assms(1,2) .
  then have l: "length (ac_sent ?c) = length (ac_answers ?c)" using assms(3) by (simp add: call_inv_def phase_ok_def)
  show ?thesis
  proof (cases "is_write (ac_request ?c)")
    case False
    have "call_inv st (?c\<lparr>ac_phase := Send_Ready None\<rparr>)"
      using c l phase_settled(1) [OF assms(3)] by (auto simp: call_inv_def phase_ok_def token_ok_def)
    then have "net_inv (set_call i (?c\<lparr>ac_phase := Send_Ready None\<rparr>) st)"
      using assms(1) by (intro net_inv_set [OF assms(1)]) (simp_all add: net_inv_def)
    then show ?thesis using False by (simp add: start_call_def Let_def)
  next
    case True
    obtain ph st1 where g: "get_csrf_token st = (ph, st1)" by (cases "get_csrf_token st")
    note f = get_csrf_token_facts [OF assms(1) g]
    have c1: "call_inv st1 ?c" using call_inv_mono c f by blast
    have "phase_ok st1 (?c\<lparr>ac_phase := ph\<rparr>) \<and> \<not> settled (?c\<lparr>ac_phase := ph\<rparr>)"
      using f l True by (auto simp: phase_ok_def token_ok_def)
    with c1 have "call_inv st1 (?c\<lparr>ac_phase := ph\<rparr>)"
      using phase_settled(1) [OF assms(3)] by (simp add: call_inv_def)
    then have "net_inv (set_call i (?c\<lparr>ac_phase := ph\<rparr>) st1)"
      using assms(1) f by (intro net_inv_set [OF assms(1)]) (simp_all add: net_inv_def)
    then show ?thesis using True g by (simp add: start_call_def Let_def)
  qed
qed

lemma net_inv_ready:
  assumes "net_inv st" "i < length (api_calls st)" "ac_phase (api_calls st ! i) = Token_Wait k own" "token_requests st ! k \<noteq> HeadSent"
  shows "net_inv (token_ready i st)"
proof -
  let ?c = "api_calls st ! i" and ?t = "case token_requests st ! k of HeadToken t \<Rightarrow> Some t | _ \<Rightarrow> None"
    and ?st = "if own then st\<lparr>in_flight := None\<rparr> else st"
  have c: "call_inv st ?c" using net_inv_nth assms(1,2) .
  then have p: "length (ac_sent ?c) = length (ac_answers ?c)" "is_write (ac_request ?c)" "k < length (token_requests st)"
    using assms(3) by (simp_all add: call_inv_def phase_ok_def)
  have g: "grows st ?st" by (simp add: grows_def issued_def)
  have "HeadToken t \<in> set (token_requests st)" if "token_requests st ! k = HeadToken t" for t
    using that p(3) nth_mem by metis
  then have "token_ok st (ac_request ?c) ?t" using p(2) by (auto simp: token_ok_def issued_def split: head_request.splits)
  then have "call_inv st (?c\<lparr>ac_phase := Send_Ready ?t\<rparr>)"
    using c p(1) phase_settled(2) [OF assms(3)] by (simp add: call_inv_def phase_ok_def)
  then have "call_inv ?st (?c\<lparr>ac_phase := Send_Ready ?t\<rparr>)" using call_inv_mono [OF g] by blast
  then have "net_inv (set_call i (?c\<lparr>ac_phase := Send_Ready ?t\<rparr>) ?st)"
    using assms(1) g by (intro net_inv_set [OF assms(1)]) (simp_all add: net_inv_def)
  then show ?thesis using assms(3) by (simp add: token_ready_def)
qed

lemma net_inv_send:
  assumes "net_inv st" "i < length (api_calls st)" "ac_phase (api_calls st ! i) = Send_Ready t"
  shows "net_inv (send_call i st)"
proof -
  let ?c = "api_calls st ! i" and ?d = "(api_calls st ! i)\<lparr>ac_phase := Response_Wait,
    ac_sent := ac_sent (api_calls st ! i) @ [sent_request (ac_request (api_calls st ! i)) t]\<rparr>"
  have c: "call_inv st ?c" using net_inv_nth assms(1,2) .
  then have "length (ac_sent ?c) = length (ac_answers ?c)" "token_ok st (ac_request ?c) t"
    using assms(3) by (simp_all add: call_inv_def phase_ok_def)
  then have "call_inv st ?d"
    using c phase_settled(3) [OF assms(3)] by (auto simp: call_inv_def phase_ok_def settled_def)
  then have "net_inv (set_call i ?d st)"
    using assms(1) by (intro net_inv_set [OF assms(1)]) (simp_all add: net_inv_def)
  then show ?thesis using assms(3) by (simp add: send_call_def Let_def)
qed

lemma net_inv_answered:
  assumes "net_inv st" "k < length (token_requests st)" "token_requests st ! k = HeadSent"
  shows "net_inv (token_answer k a st)"
proof -
  have i: "issued st \<subseteq> issued (st\<lparr>token_requests := (token_requests st)[k := h]\<rparr>)" for h
  proof
    fix t
    assume "t \<in> issued st"
    then obtain j where "j < length (token_requests st)" "token_requests st ! j = HeadToken t"
      by (auto simp: issued_def in_set_conv_nth)
    then have "(token_requests st)[k := h] ! j = HeadToken t" "j < length ((token_requests st)[k := h])"
      using assms(3) by (cases "j = k"; simp)+
    then show "t \<in> issued (st\<lparr>token_requests := (token_requests st)[k := h]\<rparr>)"
      unfolding issued_def by (metis (mono_tags, lifting) mem_Collect_eq nth_mem net_state.select_convs(3) net_state.surjective net_state.update_convs(3))
  qed
  have ok: "net_inv (st\<lparr>cached_token := q, token_requests := (token_requests st)[k := h]\<rparr>)"
    if "q = cached_token st \<or> (\<exists>t. q = Some t \<and> h = HeadToken t)" for q h
  proof -
    let ?st = "st\<lparr>cached_token := q, token_requests := (token_requests st)[k := h]\<rparr>"
    have e: "issued ?st = issued (st\<lparr>token_requests := (token_requests st)[k := h]\<rparr>)" by (simp add: issued_def)
    have g: "grows st ?st" using i [of h] e by (simp add: grows_def)
    have "t \<in> issued ?st" if "q = Some t" "h = HeadToken t" for t
      using that assms(2) by (simp add: issued_def set_update_memI)
    moreover have "t \<in> issued ?st" if "cached_token st = Some t" for t
      using that assms(1) g by (auto simp: net_inv_def grows_def)
    ultimately have "\<forall>t. cached_token ?st = Some t \<longrightarrow> t \<in> issued ?st"
      using that by (metis net_state.select_convs(1) net_state.surjective net_state.update_convs(1) net_state.update_convs(3) option.inject)
    moreover have "\<forall>c \<in> set (api_calls ?st). call_inv ?st c"
      using assms(1) call_inv_mono [OF g] by (simp add: net_inv_def)
    ultimately show ?thesis using assms(1) by (simp add: net_inv_def)
  qed
  have failed: "net_inv (st\<lparr>token_requests := (token_requests st)[k := HeadFailed]\<rparr>)"
    using ok [of "cached_token st" HeadFailed] by simp
  show ?thesis
    using failed ok by (auto simp: token_answer_def split: option.splits list.splits)
qed

text \<open>One call after its answer.\<close>

lemma call_inv_answer:
  assumes "call_inv st c" "ac_phase c = Response_Wait" "grows st st1"
    and "phase_ok st1 (c\<lparr>ac_answers := ac_answers c @ [a], ac_retried := rt, ac_phase := ph\<rparr>)"
    and "(settled (c\<lparr>ac_phase := ph\<rparr>) \<and> rt = ac_retried c) \<or>
      (ph = Call_Start \<and> rt \<and> \<not> ac_retried c \<and> (\<exists>r. a = Some r \<and> csrf_required r))"
  shows "call_inv st1 (c\<lparr>ac_answers := ac_answers c @ [a], ac_retried := rt, ac_phase := ph\<rparr>)"
proof -
  have s: "settled (c\<lparr>ac_answers := ac_answers c @ [a], ac_retried := rt, ac_phase := ph\<rparr>) = settled (c\<lparr>ac_phase := ph\<rparr>)"
    by (simp add: settled_def cong: call_phase.case_cong)
  have u: "\<not> settled c" "length (ac_sent c) = Suc (length (ac_answers c))"
    using assms(1,2) by (simp_all add: call_inv_def phase_ok_def phase_settled)
  then have n: "length (ac_answers c) = (if ac_retried c then 1 else 0)" using assms(1) by (simp add: call_inv_def)
  have t: "\<forall>x \<in> set (ac_sent c). \<exists>t. x = sent_request (ac_request c) t \<and> token_ok st1 (ac_request c) t"
    using assms(1) token_ok_mono [OF assms(3)] unfolding call_inv_def by blast
  have h: "ac_retried c \<Longrightarrow> \<exists>r. hd (ac_answers c) = Some r \<and> csrf_required r" using assms(1) by (simp add: call_inv_def)
  have x: "rt \<longrightarrow> (\<exists>r. hd (ac_answers c @ [a]) = Some r \<and> csrf_required r)"
    using assms(5) h n by (cases "ac_retried c"; cases "ac_answers c") auto
  have y: "length (ac_answers c @ [a]) = (if settled (c\<lparr>ac_phase := ph\<rparr>) then 1 else 0) + (if rt then 1 else 0)"
    using assms(5) n by auto
  show ?thesis
    unfolding call_inv_def using assms(4) s u t x y by simp
qed

lemma net_inv_response:
  assumes "net_inv st" "i < length (api_calls st)" "ac_phase (api_calls st ! i) = Response_Wait"
  shows "net_inv (call_answer i a st)"
proof -
  let ?c = "api_calls st ! i"
  have c: "call_inv st ?c" using net_inv_nth assms(1,2) .
  then have l: "length (ac_sent ?c) = Suc (length (ac_answers ?c))" using assms(3) by (simp add: call_inv_def phase_ok_def)
  note ans = call_inv_answer [OF c assms(3)]
  let ?d = "\<lambda>ph rt. ?c\<lparr>ac_answers := ac_answers ?c @ [a], ac_retried := rt, ac_phase := ph\<rparr>"
  consider (failed) "a = None" | (expired) r where "a = Some r" "hp_status r = 401"
    | (again) r where "a = Some r" "hp_status r \<noteq> 401" "csrf_required r" "\<not> ac_retried ?c"
    | (fin) r where "a = Some r" "hp_status r \<noteq> 401" "csrf_required r \<longrightarrow> ac_retried ?c"
    by (cases a) auto
  then show ?thesis
  proof cases
    case failed
    have "call_inv st (?d Network_Failed (ac_retried ?c))" using failed by (intro ans) (simp_all add: phase_ok_def)
    then have "net_inv (set_call i (?d Network_Failed (ac_retried ?c)) st)"
      using assms(1) by (intro net_inv_set [OF assms(1)]) (simp_all add: net_inv_def)
    then show ?thesis using failed by (simp add: call_answer_def Let_def)
  next
    case expired
    let ?st = "(if redirecting st then clear_csrf_token st else (clear_csrf_token st)\<lparr>redirecting := True, redirects := Suc (redirects st)\<rparr>)"
    have g: "grows st ?st" by (simp add: grows_def clear_csrf_token_def issued_def)
    have "call_inv ?st (?d Session_Expired (ac_retried ?c))"
      using expired g by (intro ans) (simp_all add: phase_ok_def clear_csrf_token_def)
    then have "net_inv (set_call i (?d Session_Expired (ac_retried ?c)) ?st)"
      using assms(1) g by (intro net_inv_set [OF assms(1)]) (simp_all add: net_inv_def clear_csrf_token_def)
    then show ?thesis using expired by (cases "redirecting st") (simp_all add: call_answer_def Let_def clear_csrf_token_def)
  next
    case again
    have g: "grows st (clear_csrf_token st)" by (simp add: grows_def clear_csrf_token_def issued_def)
    have "call_inv (clear_csrf_token st) (?d Call_Start True)"
      using again g l by (intro ans) (simp_all add: phase_ok_def)
    then have "net_inv (set_call i (?d Call_Start True) (clear_csrf_token st))"
      using assms(1) g by (intro net_inv_set [OF assms(1)]) (simp_all add: net_inv_def clear_csrf_token_def)
    then show ?thesis using again by (simp add: call_answer_def Let_def)
  next
    case fin
    have "call_inv st (?d (Resolved r) (ac_retried ?c))" using fin by (intro ans) (simp_all add: phase_ok_def)
    then have "net_inv (set_call i (?d (Resolved r) (ac_retried ?c)) st)"
      using assms(1) by (intro net_inv_set [OF assms(1)]) (simp_all add: net_inv_def)
    then show ?thesis using fin by (auto simp: call_answer_def Let_def)
  qed
qed

lemma reachable_net_inv: "net_reachable st \<Longrightarrow> net_inv st"
proof (induction rule: net_reachable.induct)
  case (stepped st st')
  from stepped(2,3) show ?case
    by (cases rule: net_step.cases) (simp_all add: net_inv_start net_inv_answered net_inv_ready net_inv_send net_inv_response)
qed (simp_all add: net_inv_initial net_inv_called)


section \<open>Safety\<close>

text \<open>
  C12: Whatever the order in which concurrent calls, token requests and answers interleave, the app
  navigates away at most once, and has done so when any call found its session expired; every call
  sends its own request, with \<open>x-requested-with\<close> and, on writes only, a token the server issued; it sends at most
  two, the second only after the answer to the first was a 403 that requires a token; it never
  returns a 401, nor such a 403 that it has not retried, and it throws the session error only for a
  401.
\<close>

theorem api_fetch_safe:
  assumes "net_reachable st"
  shows "redirects st \<le> 1 \<and> (redirects st = 1 \<longleftrightarrow> redirecting st) \<and>
    (\<forall>c \<in> set (api_calls st).
      (\<forall>x \<in> set (ac_sent c). \<exists>t. x = sent_request (ac_request c) t \<and>
        (\<forall>tok. t = Some tok \<longrightarrow> is_write (ac_request c) \<and> HeadToken tok \<in> set (token_requests st))) \<and>
      length (ac_sent c) \<le> 2 \<and>
      (length (ac_sent c) = 2 \<longrightarrow> (\<exists>r. hd (ac_answers c) = Some r \<and> csrf_required r)) \<and>
      (\<forall>r. ac_phase c = Resolved r \<longrightarrow> last (ac_answers c) = Some r \<and> hp_status r \<noteq> 401 \<and> (csrf_required r \<longrightarrow> length (ac_sent c) = 2)) \<and>
      (ac_phase c = Session_Expired \<longrightarrow> redirects st = 1 \<and> (\<exists>r. last (ac_answers c) = Some r \<and> hp_status r = 401)))"
proof -
  have i: "net_inv st" by (rule reachable_net_inv [OF assms])
  have "(\<forall>x \<in> set (ac_sent c). \<exists>t. x = sent_request (ac_request c) t \<and>
        (\<forall>tok. t = Some tok \<longrightarrow> is_write (ac_request c) \<and> HeadToken tok \<in> set (token_requests st))) \<and>
      length (ac_sent c) \<le> 2 \<and>
      (length (ac_sent c) = 2 \<longrightarrow> (\<exists>r. hd (ac_answers c) = Some r \<and> csrf_required r)) \<and>
      (\<forall>r. ac_phase c = Resolved r \<longrightarrow> last (ac_answers c) = Some r \<and> hp_status r \<noteq> 401 \<and> (csrf_required r \<longrightarrow> length (ac_sent c) = 2)) \<and>
      (ac_phase c = Session_Expired \<longrightarrow> redirects st = 1 \<and> (\<exists>r. last (ac_answers c) = Some r \<and> hp_status r = 401))"
    if "c \<in> set (api_calls st)" for c
  proof -
    have c: "call_inv st c" using i that by (simp add: net_inv_def)
    have n: "length (ac_sent c) \<le> (if ac_retried c then 2 else 1)"
      using c by (cases "ac_phase c") (auto simp: call_inv_def phase_ok_def settled_def)
    have r: "ac_retried c \<longrightarrow> (\<exists>r. hd (ac_answers c) = Some r \<and> csrf_required r)" using c by (simp add: call_inv_def)
    have p: "(\<forall>r. ac_phase c = Resolved r \<longrightarrow> last (ac_answers c) = Some r \<and> hp_status r \<noteq> 401 \<and> (csrf_required r \<longrightarrow> length (ac_sent c) = 2))"
      "ac_phase c = Session_Expired \<longrightarrow> redirects st = 1 \<and> (\<exists>r. last (ac_answers c) = Some r \<and> hp_status r = 401)"
      using c i by (auto simp: call_inv_def phase_ok_def settled_def net_inv_def)
    have t: "\<forall>x \<in> set (ac_sent c). \<exists>t. x = sent_request (ac_request c) t \<and>
        (\<forall>tok. t = Some tok \<longrightarrow> is_write (ac_request c) \<and> HeadToken tok \<in> set (token_requests st))"
      using c unfolding call_inv_def token_ok_def issued_def by blast
    show ?thesis using n r p t by (auto split: if_splits)
  qed
  then show ?thesis using i by (simp add: net_inv_def)
qed

section \<open>Every call settles\<close>

text \<open>How many steps a call and a token request can still take.\<close>

definition call_work :: "api_call \<Rightarrow> nat" where
  "call_work c = (case ac_phase c of Call_Start \<Rightarrow> 5 | Token_Wait _ _ \<Rightarrow> 3 | Send_Ready _ \<Rightarrow> 2 | Response_Wait \<Rightarrow> 1 | _ \<Rightarrow> 0)
     + (if settled c \<or> ac_retried c then 0 else 5)"

definition work :: "net_state \<Rightarrow> nat" where
  "work st = sum_list (map call_work (api_calls st)) + length (filter (\<lambda>h. h = HeadSent) (token_requests st))"

lemma sum_update: "i < length xs \<Longrightarrow> sum_list (map f (xs[i := x])) + f (xs ! i) = sum_list (map f xs) + (f x :: nat)"
  by (induction xs arbitrary: i) (auto split: nat.splits)

lemma work_set_call:
  assumes "i < length (api_calls st)" "api_calls st1 = api_calls st"
    "length (filter (\<lambda>h. h = HeadSent) (token_requests st1)) + call_work c <
     length (filter (\<lambda>h. h = HeadSent) (token_requests st)) + call_work (api_calls st ! i)"
  shows "work (set_call i c st1) < work st"
  using sum_update [OF assms(1), of call_work c] assms(2,3) by (simp add: work_def)

lemma head_count_append: "length (filter (\<lambda>h. h = HeadSent) (hs @ [HeadSent])) = Suc (length (filter (\<lambda>h. h = HeadSent) hs))"
  by simp

lemma head_count_answer: "k < length hs \<Longrightarrow> hs ! k = HeadSent \<Longrightarrow> h \<noteq> HeadSent \<Longrightarrow>
    length (filter (\<lambda>h. h = HeadSent) (hs[k := h])) < length (filter (\<lambda>h. h = HeadSent) hs)"
  by (induction hs arbitrary: k) (auto split: nat.splits)

lemma work_answered:
  assumes "k < length (token_requests st)" "token_requests st ! k = HeadSent"
  shows "work (token_answer k a st) < work st"
proof -
  have "\<exists>h. h \<noteq> HeadSent \<and> token_requests (token_answer k a st) = (token_requests st)[k := h] \<and> api_calls (token_answer k a st) = api_calls st"
    by (auto simp: token_answer_def split: option.splits list.splits)
  then show ?thesis using head_count_answer [OF assms] by (auto simp: work_def)
qed

lemma work_start:
  assumes "i < length (api_calls st)" "ac_phase (api_calls st ! i) = Call_Start"
  shows "work (start_call i st) < work st"
proof (cases "is_write (ac_request (api_calls st ! i))")
  case False
  then show ?thesis unfolding start_call_def Let_def
    using assms by (simp add: work_set_call call_work_def phase_settled)
next
  case True
  obtain ph st1 where g: "get_csrf_token st = (ph, st1)" by (cases "get_csrf_token st")
  have "api_calls st1 = api_calls st \<and>
      ((\<exists>t. ph = Send_Ready t) \<and> token_requests st1 = token_requests st \<or>
       (\<exists>k own. ph = Token_Wait k own) \<and> (token_requests st1 = token_requests st \<or> token_requests st1 = token_requests st @ [HeadSent]))"
    using g by (cases "cached_token st"; cases "in_flight st") (auto simp: get_csrf_token_def Let_def split: list.splits)
  then have "work (set_call i ((api_calls st ! i)\<lparr>ac_phase := ph\<rparr>) st1) < work st"
    using assms by (intro work_set_call) (auto simp: call_work_def phase_settled)
  then show ?thesis using True g by (simp add: start_call_def Let_def)
qed

lemma work_response:
  assumes "i < length (api_calls st)" "ac_phase (api_calls st ! i) = Response_Wait"
  shows "work (call_answer i a st) < work st"
proof -
  let ?c = "api_calls st ! i"
  have w: "call_work ?c = (if ac_retried ?c then 1 else 6)" using assms(2) by (simp add: call_work_def phase_settled)
  have c: "\<exists>st1 d. call_answer i a st = set_call i d st1 \<and> api_calls st1 = api_calls st \<and> token_requests st1 = token_requests st \<and>
      (call_work d = 0 \<or> \<not> ac_retried ?c \<and> call_work d = 5)"
    by (cases a) (auto simp: call_answer_def Let_def clear_csrf_token_def call_work_def settled_def intro!: exI)
  then show ?thesis using work_set_call [OF assms(1)] w by (auto split: if_splits)
qed

lemma step_work: "net_step st st' \<Longrightarrow> work st' < work st"
proof (induction rule: net_step.induct)
  case (start i st)
  then show ?case by (rule work_start)
next
  case (answered k st a)
  then show ?case by (rule work_answered)
next
  case (ready i st k own)
  then show ?case by (simp add: token_ready_def work_set_call call_work_def phase_settled)
next
  case (send i st t)
  then show ?case by (simp add: send_call_def Let_def, intro work_set_call) (simp_all add: call_work_def settled_def)
next
  case (response i st a)
  then show ?case by (rule work_response)
qed

text \<open>An unsettled call can always go on: itself, or the token request it waits for.\<close>

lemma net_progress:
  assumes "net_inv st" "c \<in> set (api_calls st)" "\<not> settled c"
  shows "\<exists>st'. net_step st st'"
proof -
  obtain i where i: "i < length (api_calls st)" "api_calls st ! i = c" using assms(2) by (auto simp: in_set_conv_nth)
  have p: "phase_ok st c" using assms(1,2) by (simp add: net_inv_def call_inv_def)
  show ?thesis
  proof (cases "ac_phase c")
    case (Token_Wait k own)
    with p have k: "k < length (token_requests st)" by (simp add: phase_ok_def)
    show ?thesis
      using net_step.answered [OF k] net_step.ready [OF i(1), of k own] i(2) Token_Wait
      by (cases "token_requests st ! k = HeadSent") blast+
  next
    case Call_Start
    then show ?thesis using net_step.start [OF i(1)] i(2) by blast
  next
    case (Send_Ready t)
    then show ?thesis using net_step.send [OF i(1)] i(2) by blast
  next
    case Response_Wait
    then show ?thesis using net_step.response [OF i(1)] i(2) by blast
  qed (use assms(3) in \<open>simp_all add: settled_def\<close>)
qed

lemma relpow_work: "(net_step ^^ n) st st' \<Longrightarrow> n + work st' \<le> work st"
proof (induction n arbitrary: st')
  case (Suc n)
  then obtain s where "(net_step ^^ n) st s" "net_step s st'" by auto
  with Suc.IH [of s] step_work [of s st'] show ?case by simp
qed simp

lemma relpow_reachable: "(net_step ^^ n) st st' \<Longrightarrow> net_reachable st \<Longrightarrow> net_reachable st'"
  by (induction n arbitrary: st') (auto intro: net_reachable.stepped)

lemma work_bound: "work st \<le> 10 * length (api_calls st) + length (token_requests st)"
proof -
  have "call_work c \<le> 10" for c by (auto simp: call_work_def split: call_phase.splits)
  then have "sum_list (map call_work xs) \<le> 10 * length xs" for xs by (induction xs) (auto intro: add_mono)
  then show ?thesis unfolding work_def by (intro add_mono) simp_all
qed

text \<open>
  C13: No call hangs in the transport. From any state the app can reach, calls and token requests
  take at most ten steps per call plus one per token request before nothing is left to do, and when
  nothing is left every call has returned or thrown: a call that shares another's token request, or
  whose cached token is cleared under it, is never left waiting.
\<close>

theorem every_call_settles:
  assumes "net_reachable st" "(net_step ^^ n) st st'"
  shows "n \<le> 10 * length (api_calls st) + length (token_requests st) \<and>
    ((\<exists>s. net_step st' s) \<or> (\<forall>c \<in> set (api_calls st'). settled c))"
proof -
  have "net_inv st'" using relpow_reachable [OF assms(2,1)] by (rule reachable_net_inv)
  moreover have "n \<le> work st" using relpow_work [OF assms(2)] by simp
  ultimately show ?thesis using net_progress [of st'] work_bound [of st] by fastforce
qed

section \<open>Instances\<close>

definition sample_write :: http_request where
  "sample_write = \<lparr>hr_url = js ''/x'', hr_method = js ''post'', hr_headers = [], hr_body = None\<rparr>"

lemma sample_reachable: "net_reachable (api_fetch sample_write net_initial)"
  by (intro net_reachable.intros)

theorem api_fetch_safe_witness: "redirects (api_fetch sample_write net_initial) \<le> 1"
  using api_fetch_safe [OF sample_reachable] by simp

theorem every_call_settles_witness:
  "\<exists>st'. net_step (api_fetch sample_write net_initial) st' \<and> ((\<exists>s. net_step st' s) \<or> (\<forall>c \<in> set (api_calls st'). settled c))"
proof -
  have s: "net_step (api_fetch sample_write net_initial) (start_call 0 (api_fetch sample_write net_initial))"
    by (rule net_step.start) (simp_all add: api_fetch_def net_initial_def)
  then have "(net_step ^^ 1) (api_fetch sample_write net_initial) (start_call 0 (api_fetch sample_write net_initial))" by (subst relpowp_1)
  from every_call_settles [OF sample_reachable this] s show ?thesis by blast
qed

end
