(* ===== verification/ApiClient.thy ===== *)
theory ApiClient
  imports ApiFetch ClusterStore
begin

text \<open>
  The typed API client (\<open>frontend/src/lib/api-client.ts\<close>): the path and query of a request, the two
  request headers, the confirmation of production writes and the errors of non-2xx responses.
  openapi-fetch, which the client is built on, is a parameter: a record of the functions it applies
  around the code modelled here.
\<close>

section \<open>Percent encoding\<close>

text \<open>
  \<open>encodeURIComponent\<close> and \<open>URLSearchParams\<close> of the platform. A lone surrogate makes
  \<open>encodeURIComponent\<close> throw; here it is only applied to well-formed strings.
\<close>

definition hex_up :: "nat \<Rightarrow> cu" where
  "hex_up d = of_nat (if d < 10 then 48 + d else 55 + d)"

definition hex_up_val :: "cu \<Rightarrow> nat option" where
  "hex_up_val c = (let n = unat c in if 48 \<le> n \<and> n \<le> 57 then Some (n - 48) else if 65 \<le> n \<and> n \<le> 70 then Some (n - 55) else None)"

definition alnum :: "nat \<Rightarrow> bool" where
  "alnum n \<longleftrightarrow> (48 \<le> n \<and> n \<le> 57) \<or> (65 \<le> n \<and> n \<le> 90) \<or> (97 \<le> n \<and> n \<le> 122)"

definition pct_byte :: "(nat \<Rightarrow> bool) \<Rightarrow> byte \<Rightarrow> jstr" where
  "pct_byte keep b = (let n = unat b in if keep n then [of_nat n] else [37, hex_up (n div 16), hex_up (n mod 16)])"

definition uri_keep :: "nat \<Rightarrow> bool" where
  "uri_keep n \<longleftrightarrow> alnum n \<or> n \<in> {45, 95, 46, 33, 126, 42, 39, 40, 41}"

definition encode_uri_component :: "jstr \<Rightarrow> jstr" where
  "encode_uri_component s = concat (map (pct_byte uri_keep) (utf8 s))"

definition form_keep :: "nat \<Rightarrow> bool" where
  "form_keep n \<longleftrightarrow> alnum n \<or> n \<in> {42, 45, 46, 95}"

definition form_byte :: "byte \<Rightarrow> jstr" where
  "form_byte b = (if b = 32 then [43] else pct_byte form_keep b)"

definition form_encode :: "jstr \<Rightarrow> jstr" where
  "form_encode s = concat (map form_byte (utf8 s))"

text \<open>What a server reads: percent escapes, and \<open>+\<close> as a space in a query.\<close>

fun pct_decode :: "bool \<Rightarrow> jstr \<Rightarrow> byte list" where
  "pct_decode pl (c # a # b # r) =
     (case (c = 37, hex_up_val a, hex_up_val b) of
        (True, Some x, Some y) \<Rightarrow> of_nat (16 * x + y) # pct_decode pl r
      | _ \<Rightarrow> (if pl \<and> c = 43 then 32 else of_nat (unat c)) # pct_decode pl (a # b # r))"
| "pct_decode pl (c # r) = (if pl \<and> c = 43 then 32 else of_nat (unat c)) # pct_decode pl r"
| "pct_decode pl [] = []"

section \<open>Requests\<close>

text \<open>
  What an endpoint function hands to the client: method, path template, path parameters and query
  (each value as \<open>String(value)\<close> writes it, \<open>None\<close> for \<open>undefined\<close> and \<open>null\<close>), headers, JSON body
  and whether \<open>withProdConfirm\<close> marked its parameters.
\<close>

record api_request =
  ar_method :: jstr
  ar_template :: jstr
  ar_path :: "(jstr \<times> jstr) list"
  ar_query :: "(jstr \<times> jstr option) list"
  ar_headers :: headers
  ar_body :: "json option"
  ar_serialized :: "byte list option"
  ar_prod_confirmed :: bool

definition cluster_header :: jstr where
  "cluster_header = js ''X-Kafkito-Cluster''"

definition prod_confirm_header :: jstr where
  "prod_confirm_header = js ''X-Kafkito-Confirm-Prod''"

definition private_cluster_sentinel :: jstr where
  "private_cluster_sentinel = js ''__private__''"

definition with_prod_confirm :: "bool \<Rightarrow> api_request \<Rightarrow> api_request" where
  "with_prod_confirm confirm req = (if confirm then req\<lparr>ar_prod_confirmed := True\<rparr> else req)"

definition path_private_cluster :: "store \<Rightarrow> (jstr \<times> jstr) list \<Rightarrow> private_cluster option" where
  "path_private_cluster st ps = (case mget ps (js ''cluster'') of None \<Rightarrow> None | Some name \<Rightarrow> get_private_cluster_by_name st name)"

text \<open>The parameters the path is filled with: a private cluster goes out as the sentinel.\<close>

definition path_params :: "store \<Rightarrow> (jstr \<times> jstr) list \<Rightarrow> (jstr \<times> jstr) list" where
  "path_params st ps =
     (case path_private_cluster st ps of None \<Rightarrow> ps | Some _ \<Rightarrow> mset_key (js ''cluster'') private_cluster_sentinel ps)"

definition defined_pairs :: "(jstr \<times> jstr option) list \<Rightarrow> (jstr \<times> jstr) list" where
  "defined_pairs q = concat (map (\<lambda>(k, v). case v of None \<Rightarrow> [] | Some x \<Rightarrow> [(k, x)]) q)"

definition query_serializer :: "(jstr \<times> jstr option) list \<Rightarrow> jstr" where
  "query_serializer q = join (js ''&'') (map (\<lambda>(k, v). form_encode k @ js ''='' @ form_encode v) (defined_pairs q))"

text \<open>
  openapi-fetch: how it fills a path template, joins path and query, adds its default headers,
  writes a JSON body and reads the data of a response.
\<close>

record openapi_fetch =
  of_path :: "jstr \<Rightarrow> (jstr \<times> jstr) list \<Rightarrow> jstr"
  of_url :: "jstr \<Rightarrow> jstr \<Rightarrow> jstr"
  of_headers :: "headers \<Rightarrow> json option \<Rightarrow> headers"
  of_body :: "json \<Rightarrow> byte list"
  of_data :: "http_response \<Rightarrow> jstr + json option"

text \<open>\<open>onRequest\<close>: the headers of the private cluster and of a confirmed write.\<close>

definition on_request :: "store \<Rightarrow> api_request \<Rightarrow> headers \<Rightarrow> pc_error + headers" where
  "on_request st req h =
     bindE (case path_private_cluster st (ar_path req) of
              None \<Rightarrow> Inr h
            | Some priv \<Rightarrow> bindE (encode_private_cluster_header priv) (\<lambda>v. Inr (set_header cluster_header v h)))
       (\<lambda>h1. Inr (if ar_prod_confirmed req then set_header prod_confirm_header (js ''true'') h1 else h1))"

definition client_request :: "openapi_fetch \<Rightarrow> store \<Rightarrow> api_request \<Rightarrow> pc_error + http_request" where
  "client_request lib st req =
     bindE (on_request st req (of_headers lib (ar_headers req) (ar_body req)))
       (\<lambda>h. Inr \<lparr>hr_url = of_url lib (of_path lib (ar_template req) (path_params st (ar_path req))) (query_serializer (ar_query req)),
          hr_method = ar_method req, hr_headers = h,
          hr_body = (case ar_serialized req of Some b \<Rightarrow> Some b | None \<Rightarrow> map_option (of_body lib) (ar_body req))\<rparr>)"

section \<open>Errors\<close>

record http_error =
  he_status :: int
  he_status_text :: jstr
  he_body :: jstr

datatype api_error =
    Plain_Error jstr
  | Raw_Value_Too_Large jstr
  | Raw_Value_Masked jstr
  | Http_Error http_error
  | Store_Error pc_error
  | Fetch_Error jstr
  | Abort_Error
  | Type_Error

text \<open>\<open>HttpError.json()\<close>: \<open>None\<close> when the body is not JSON, or is \<open>null\<close>.\<close>

definition error_json :: "(jstr \<Rightarrow> json option) \<Rightarrow> http_error \<Rightarrow> json option" where
  "error_json parse e = (case parse (he_body e) of Some JsNull \<Rightarrow> None | v \<Rightarrow> v)"

definition on_response :: "http_response \<Rightarrow> http_error + http_response" where
  "on_response r =
     (if 200 \<le> hp_status r \<and> hp_status r \<le> 299 then Inr r
      else Inl \<lparr>he_status = hp_status r, he_status_text = hp_status_text r, he_body = utf8_decode (hp_body r)\<rparr>)"

text \<open>A request through the client: \<open>transport\<close> is \<open>apiFetch\<close>, what it throws on the left.\<close>

definition client_send :: "openapi_fetch \<Rightarrow> (http_request \<Rightarrow> api_error + http_response) \<Rightarrow> store \<Rightarrow> api_request \<Rightarrow> api_error + http_response" where
  "client_send lib transport st req =
     (case client_request lib st req of
        Inl e \<Rightarrow> Inl (Store_Error e)
      | Inr wire \<Rightarrow> (case transport wire of
          Inl m \<Rightarrow> Inl m
        | Inr r \<Rightarrow> (case on_response r of Inl e \<Rightarrow> Inl (Http_Error e) | Inr ok \<Rightarrow> Inr ok)))"

section \<open>Cache keys\<close>

text \<open>
  \<open>clusterKey\<close> of \<open>frontend/src/lib/queries/cluster-key.ts\<close>: the name of a shared cluster, or an
  object with the id of a private one. A query key is a list of JSON parts.
\<close>

definition cluster_key :: "store \<Rightarrow> jstr \<Rightarrow> json" where
  "cluster_key st name =
     (case get_private_cluster_by_name st name of
        Some c \<Rightarrow> JsObject [(js ''private'', JsString (pc_id c))]
      | None \<Rightarrow> JsString name)"

definition is_private_cluster_key :: "jstr \<Rightarrow> json \<Rightarrow> bool" where
  "is_private_cluster_key i part \<longleftrightarrow> is_object part \<and> jprop (js ''private'') part = Some (JsString i)"

text \<open>The cached queries by key, and which of them are stale.\<close>

type_synonym query_cache = "(json list \<times> bool) list"

definition remove_private_cluster_queries :: "jstr \<Rightarrow> query_cache \<Rightarrow> query_cache" where
  "remove_private_cluster_queries i qc = filter (\<lambda>(k, _). \<not> list_ex (is_private_cluster_key i) k) qc"

definition invalidate_private_cluster_queries :: "jstr \<Rightarrow> query_cache \<Rightarrow> query_cache" where
  "invalidate_private_cluster_queries i qc = map (\<lambda>(k, stale). (k, stale \<or> list_ex (is_private_cluster_key i) k)) qc"

section \<open>Reading a request back\<close>

lemma unat_cu: "n < 65536 \<Longrightarrow> unat (of_nat n :: cu) = n"
  by (simp add: unat_of_nat)

lemma hex_up_val_up [simp]: "d < 16 \<Longrightarrow> hex_up_val (hex_up d) = Some d"
  by (auto simp: hex_up_def hex_up_val_def unat_cu Let_def simp del: of_nat_add)

lemma pct_decode_plain: "c \<noteq> 37 \<Longrightarrow> pct_decode pl (c # r) = (if pl \<and> c = 43 then 32 else of_nat (unat c)) # pct_decode pl r"
  by (cases r; cases "tl r") auto

lemma pct_decode_hex: "x < 16 \<Longrightarrow> y < 16 \<Longrightarrow> pct_decode pl (37 # hex_up x # hex_up y # r) = of_nat (16 * x + y) # pct_decode pl r"
  by simp

declare pct_decode.simps(1) [simp del]

lemma unat_byte_cu: "unat (of_nat (unat (b :: byte)) :: cu) = unat b"
  using order.strict_trans [OF byte_less [of b], of 65536] by (intro unat_cu) simp

lemma pct_decode_byte:
  assumes "\<not> keep 37" "pl \<longrightarrow> \<not> keep 43"
  shows "pct_decode pl (pct_byte keep b @ r) = b # pct_decode pl r"
proof (cases "keep (unat b)")
  case True
  let ?c = "of_nat (unat b) :: cu"
  have c: "?c \<noteq> 37" "\<not> (pl \<and> ?c = 43)" using True assms unat_byte_cu [of b] by auto
  have "of_nat (unat ?c) = b" using unat_byte_cu [of b] by (simp only: of_nat_byte)
  then have "pct_decode pl (?c # r) = b # pct_decode pl r" unfolding pct_decode_plain [OF c(1)] using c(2) by (simp only: if_False)
  then show ?thesis using True by (simp add: pct_byte_def Let_def del: of_nat_unat)
next
  case False
  have "unat b div 16 < 16" "unat b mod 16 < 16" using byte_less [of b] by (simp_all add: less_mult_imp_div_less)
  from pct_decode_hex [OF this] have "pct_decode pl (37 # hex_up (unat b div 16) # hex_up (unat b mod 16) # r) = b # pct_decode pl r"
    by (simp only: mult_div_mod_eq of_nat_byte)
  with False show ?thesis by (simp add: pct_byte_def Let_def)
qed

lemma pct_decode_form_byte: "pct_decode True (form_byte b @ r) = b # pct_decode True r"
proof (cases "b = 32")
  case True
  then show ?thesis by (simp add: form_byte_def pct_decode_plain)
next
  case False
  then show ?thesis by (simp add: form_byte_def pct_decode_byte form_keep_def alnum_def)
qed

lemma pct_decode_uri: "pct_decode False (encode_uri_component s) = utf8 s"
proof -
  have "pct_decode False (concat (map (pct_byte uri_keep) bs)) = bs" for bs
    by (induction bs) (simp_all add: pct_decode_byte uri_keep_def alnum_def)
  then show ?thesis by (simp add: encode_uri_component_def)
qed

lemma pct_decode_form: "pct_decode True (form_encode s) = utf8 s"
proof -
  have "pct_decode True (concat (map form_byte bs)) = bs" for bs
    by (induction bs) (simp_all add: pct_decode_form_byte)
  then show ?thesis by (simp add: form_encode_def)
qed


lemma pct_byte_chars: "c \<in> set (pct_byte keep b) \<Longrightarrow> keep (unat c) \<or> unat c = 37 \<or> alnum (unat c)"
proof -
  assume c: "c \<in> set (pct_byte keep b)"
  have h: "d < 16 \<Longrightarrow> alnum (unat (hex_up d))" for d by (auto simp: hex_up_def alnum_def unat_cu simp del: of_nat_add)
  have d: "unat b div 16 < 16" "unat b mod 16 < 16" by (simp_all add: less_mult_imp_div_less)
  from c show ?thesis
    using h [OF d(1)] h [OF d(2)] unat_byte_cu [of b]
    by (cases "keep (unat b)") (auto simp: pct_byte_def Let_def simp del: of_nat_unat)
qed

lemma uri_chars: "c \<in> set (encode_uri_component s) \<Longrightarrow> c \<noteq> 47 \<and> c \<noteq> 63 \<and> c \<noteq> 35"
proof -
  assume "c \<in> set (encode_uri_component s)"
  then obtain b where "c \<in> set (pct_byte uri_keep b)" by (auto simp: encode_uri_component_def)
  from pct_byte_chars [OF this] show ?thesis by (auto simp: uri_keep_def alnum_def)
qed

lemma form_chars: "c \<in> set (form_encode s) \<Longrightarrow> c \<noteq> 38 \<and> c \<noteq> 61 \<and> c \<noteq> 35"
proof -
  assume "c \<in> set (form_encode s)"
  then obtain b where "c \<in> set (form_byte b)" by (auto simp: form_encode_def)
  then have "c = 43 \<or> c \<in> set (pct_byte form_keep b)" by (auto simp: form_byte_def split: if_splits)
  then show ?thesis using pct_byte_chars [of c form_keep b] by (auto simp: form_keep_def alnum_def)
qed

text \<open>How a server reads a query string: pairs at the ampersands, key and value at the first equals sign.\<close>

definition read_query :: "jstr \<Rightarrow> (byte list \<times> byte list) list" where
  "read_query q = (if q = [] then [] else
     map (\<lambda>p. (pct_decode True (takeWhile (\<lambda>c. c \<noteq> 61) p), pct_decode True (drop 1 (dropWhile (\<lambda>c. c \<noteq> 61) p)))) (split_on 38 q))"

lemma read_query_serialized: "read_query (query_serializer q) = map (\<lambda>(k, v). (utf8 k, utf8 v)) (defined_pairs q)"
proof (cases "defined_pairs q = []")
  case True
  then show ?thesis by (simp add: read_query_def query_serializer_def)
next
  case False
  let ?f = "\<lambda>(k, v). form_encode k @ js ''='' @ form_encode v"
  have amp: "js ''&'' = [38]" "js ''='' = [61]" by (simp_all add: js_def)
  have p: "38 \<notin> set (?f x)" for x using form_chars by (cases x) (auto simp: amp)
  have "split_on 38 (join [38] (map ?f (defined_pairs q))) = map ?f (defined_pairs q)"
    by (rule split_join) (use False p in auto)
  moreover have "join [38] (map ?f (defined_pairs q)) \<noteq> []"
    using False by (cases "defined_pairs q"; cases "tl (defined_pairs q)") (auto simp: amp)
  moreover have "(pct_decode True (takeWhile (\<lambda>c. c \<noteq> 61) (?f x)), pct_decode True (drop 1 (dropWhile (\<lambda>c. c \<noteq> 61) (?f x))))
      = (case x of (k, v) \<Rightarrow> (utf8 k, utf8 v))" for x
  proof (cases x)
    case (Pair k v)
    have "takeWhile (\<lambda>c. c \<noteq> 61) (form_encode k @ 61 # form_encode v) = form_encode k"
      "dropWhile (\<lambda>c. c \<noteq> 61) (form_encode k @ 61 # form_encode v) = 61 # form_encode v"
      using form_chars takeWhile_dropWhile_rest [of "form_encode k" "\<lambda>c. c \<noteq> 61" "61 # form_encode v"] by auto
    then show ?thesis using Pair by (simp add: amp pct_decode_form)
  qed
  ultimately show ?thesis by (simp add: read_query_def query_serializer_def amp)
qed


section \<open>openapi-fetch\<close>

text \<open>
  The documented behaviour of openapi-fetch the client relies on. A path template is filled segment
  by segment: a segment \<open>{name}\<close> becomes the encoded parameter. A path without dot segments and its
  query are joined by a question mark. Its default headers leave the two headers of the client alone.
\<close>

definition segment_param :: "jstr \<Rightarrow> jstr option" where
  "segment_param seg = (if 2 \<le> length seg \<and> hd seg = 123 \<and> last seg = 125 then Some (butlast (tl seg)) else None)"

definition fill_segment :: "(jstr \<times> jstr) list \<Rightarrow> jstr \<Rightarrow> jstr" where
  "fill_segment ps seg = (case segment_param seg of None \<Rightarrow> seg
     | Some k \<Rightarrow> (case mget ps k of Some v \<Rightarrow> encode_uri_component v | None \<Rightarrow> seg))"

definition dot_segment :: "jstr \<Rightarrow> bool" where
  "dot_segment seg \<longleftrightarrow> seg \<in> {js ''.'', js ''..''}"

definition plain_segment :: "jstr \<Rightarrow> bool" where
  "plain_segment seg \<longleftrightarrow> (\<forall>c \<in> set seg. unat c < 128 \<and> c \<notin> {35, 37, 63, 123, 125}) \<and> \<not> dot_segment seg"

definition template_ok :: "jstr \<Rightarrow> (jstr \<times> jstr) list \<Rightarrow> bool" where
  "template_ok t ps \<longleftrightarrow> (\<forall>seg \<in> set (split_on 47 t). case segment_param seg of None \<Rightarrow> plain_segment seg | Some k \<Rightarrow> k \<in> set (mkeys ps))"

definition params_ok :: "(jstr \<times> jstr) list \<Rightarrow> bool" where
  "params_ok ps \<longleftrightarrow> (\<forall>(k, v) \<in> set ps. well_formed v \<and> \<not> dot_segment v)"

definition documented_openapi_fetch :: "openapi_fetch \<Rightarrow> bool" where
  "documented_openapi_fetch lib \<longleftrightarrow>
     (\<forall>t ps. template_ok t ps \<and> params_ok ps \<longrightarrow> of_path lib t ps = join [47] (map (fill_segment ps) (split_on 47 t))) \<and>
     (\<forall>p q. (\<forall>seg \<in> set (split_on 47 p). \<not> dot_segment seg) \<longrightarrow> of_url lib p q = (if q = [] then p else p @ 63 # q)) \<and>
     (\<forall>h b. get_header (of_headers lib h b) cluster_header = get_header h cluster_header \<and>
            get_header (of_headers lib h b) prod_confirm_header = get_header h prod_confirm_header)"

section \<open>What a request carries\<close>

lemma get_set_header: "get_header (set_header n v h) m = (if ascii_lower m = ascii_lower n then Some v else get_header h m)"
  by (simp add: get_header_def set_header_def map_simps)

lemma kafkito_headers_differ [simp]: "ascii_lower cluster_header \<noteq> ascii_lower prod_confirm_header"
    "ascii_lower prod_confirm_header \<noteq> ascii_lower cluster_header"
  by (simp_all add: cluster_header_def prod_confirm_header_def ascii_lower_def js_def)

lemma found_name: "get_private_cluster_by_name st name = Some c \<Longrightarrow> ci_name c = name \<and> c \<in> set (read_all st)"
  by (auto simp: get_private_cluster_by_name_def find_Some_iff)



section \<open>The path and query a server reads\<close>

lemma encode_not_dot: "\<not> dot_segment v \<Longrightarrow> well_formed v \<Longrightarrow> \<not> dot_segment (encode_uri_component v)"
proof
  assume v: "\<not> dot_segment v" "well_formed v" "dot_segment (encode_uri_component v)"
  let ?e = "encode_uri_component v"
  have d: "utf8 (js ''.'') = [46]" "utf8 (js ''..'') = [46, 46]"
    by (simp_all add: js_def utf8_ascii)
  have w: "well_formed (js ''.'')" "well_formed (js ''..'')" by (simp_all add: js_def hi_sur_def lo_sur_def)
  have "?e = js ''.'' \<or> ?e = js ''..''" using v(3) by (simp add: dot_segment_def)
  then have "utf8 v = utf8 (js ''.'') \<or> utf8 v = utf8 (js ''..'')"
    using pct_decode_uri [of v] unfolding d by (auto simp: js_def pct_decode_plain)
  then show False using utf8_inj [OF v(2) w(1)] utf8_inj [OF v(2) w(2)] v(1) by (auto simp: dot_segment_def)
qed

lemma params_ok_sentinel: "params_ok ps \<Longrightarrow> params_ok (path_params st ps)"
proof -
  assume a: "params_ok ps"
  have s: "well_formed private_cluster_sentinel \<and> \<not> dot_segment private_cluster_sentinel"
    by (simp add: private_cluster_sentinel_def dot_segment_def) (simp add: js_def hi_sur_def lo_sur_def)
  show ?thesis
    using a s set_mset_key_subset [of "js ''cluster''" private_cluster_sentinel ps]
    unfolding path_params_def params_ok_def by (auto split: option.splits)
qed

lemma template_ok_params: "template_ok t ps \<Longrightarrow> template_ok t (path_params st ps)"
proof -
  have "set (mkeys ps) \<subseteq> set (mkeys (path_params st ps))" by (auto simp: path_params_def split: option.splits)
  then show "template_ok t ps \<Longrightarrow> template_ok t (path_params st ps)"
    unfolding template_ok_def by (auto split: option.splits)
qed

text \<open>A segment of a filled path, and what the server reads from it.\<close>

lemma fill_segment_facts:
  assumes "seg \<in> set (split_on 47 t)" "template_ok t ps" "params_ok ps"
  shows "47 \<notin> set (fill_segment ps seg) \<and> 63 \<notin> set (fill_segment ps seg) \<and> \<not> dot_segment (fill_segment ps seg) \<and>
    pct_decode False (fill_segment ps seg) = (case segment_param seg of None \<Rightarrow> utf8 seg | Some k \<Rightarrow> utf8 (the (mget ps k)))"
proof (cases "segment_param seg")
  case None
  then have p: "plain_segment seg" using assms(1,2) by (force simp: template_ok_def)
  then have a: "\<forall>c \<in> set seg. unat c < 128" by (simp add: plain_segment_def)
  have "pct_decode False seg = map (\<lambda>c. of_nat (unat c)) seg"
  proof -
    have "37 \<notin> set seg" using p by (auto simp: plain_segment_def)
    then show ?thesis by (induction seg) (auto simp: pct_decode_plain)
  qed
  then show ?thesis using None p split_on_parts [OF assms(1)] utf8_ascii [OF a] by (auto simp: fill_segment_def plain_segment_def)
next
  case (Some k)
  then have "k \<in> set (mkeys ps)" using assms(1,2) by (force simp: template_ok_def)
  then obtain v where v: "mget ps k = Some v" using mget_in_mkeys [of ps k] by auto
  then have "(k, v) \<in> set ps" by (auto simp: mget_def dest: map_of_SomeD)
  then have "well_formed v" "\<not> dot_segment v" using assms(3) by (auto simp: params_ok_def)
  then show ?thesis using Some v uri_chars [of _ v] encode_not_dot [of v] by (auto simp: fill_segment_def pct_decode_uri)
qed

lemma first_mark: "c \<notin> set p \<Longrightarrow> takeWhile (\<lambda>x. x \<noteq> c) (p @ c # q) = p \<and> dropWhile (\<lambda>x. x \<noteq> c) (p @ c # q) = c # q"
    "c \<notin> set p \<Longrightarrow> takeWhile (\<lambda>x. x \<noteq> c) p = p \<and> dropWhile (\<lambda>x. x \<noteq> c) p = []"
  by (induction p) auto



section \<open>Cache keys\<close>

text \<open>What the cache relies on in the directory of private clusters: a name finds a definition of that name, an id belongs to one.\<close>

locale cluster_directory =
  fixes entries :: "'s \<Rightarrow> 'c list" and lookup :: "'s \<Rightarrow> jstr \<Rightarrow> 'c option" and name_of :: "'c \<Rightarrow> jstr" and id_of :: "'c \<Rightarrow> jstr"
  assumes found: "lookup s n = Some c \<Longrightarrow> name_of c = n \<and> c \<in> set (entries s)"
begin

lemma lookup_unique:
  assumes "distinct (map id_of (entries s))" "lookup s n = Some c" "lookup s m = Some d" "id_of c = id_of d"
  shows "n = m"
proof -
  have "c = d" using assms(1,4) found [OF assms(2)] found [OF assms(3)] by (auto simp: distinct_map dest: inj_onD)
  then show ?thesis using found [OF assms(2)] found [OF assms(3)] by simp
qed

end

interpretation directory: cluster_directory read_all get_private_cluster_by_name ci_name pc_id
  by unfold_locales (rule found_name)

lemma private_key_part: "is_private_cluster_key i (cluster_key st n) \<longleftrightarrow>
    (\<exists>c. get_private_cluster_by_name st n = Some c \<and> pc_id c = i)"
  by (auto simp: is_private_cluster_key_def cluster_key_def is_object_def jprop_def split: option.splits)

text \<open>
  Cached data of one cluster is never served as another's. With distinct ids two names have the
  same cache identity only if they are the same name, a private cluster's identity is never a
  shared cluster's; and an edit of the private cluster with id \<open>i\<close> drops the cached queries keyed by
  that cluster, and keeps those of every other cluster.
\<close>

theorem cache_key_scope:
  shows "(distinct (map pc_id (read_all st)) \<longrightarrow> (cluster_key st n = cluster_key st m \<longleftrightarrow> n = m)) \<and>
    (get_private_cluster_by_name st n \<noteq> None \<longrightarrow> (\<forall>st' m. get_private_cluster_by_name st' m = None \<longrightarrow> cluster_key st n \<noteq> cluster_key st' m)) \<and>
    (([JsString what, cluster_key st n], stale) \<in> set qc \<longrightarrow>
      (([JsString what, cluster_key st n], stale) \<in> set (remove_private_cluster_queries i qc) \<longleftrightarrow>
        \<not> (\<exists>c. get_private_cluster_by_name st n = Some c \<and> pc_id c = i)))"
proof -
  have "n = m" if "distinct (map pc_id (read_all st))" "cluster_key st n = cluster_key st m"
    using that(2) directory.lookup_unique [OF that(1)]
    by (auto simp: cluster_key_def split: option.splits)
  moreover have "\<not> is_private_cluster_key i (JsString what)" by (simp add: is_private_cluster_key_def is_object_def)
  ultimately show ?thesis
    by (auto simp: remove_private_cluster_queries_def private_key_part) (auto simp: cluster_key_def split: option.splits)
qed

section \<open>Instances\<close>

text \<open>An openapi-fetch with exactly the documented behaviour.\<close>

definition plain_fetch :: openapi_fetch where
  "plain_fetch = \<lparr>of_path = \<lambda>t ps. join [47] (map (fill_segment ps) (split_on 47 t)), of_url = \<lambda>p q. if q = [] then p else p @ 63 # q,
     of_headers = \<lambda>h _. h, of_body = \<lambda>b. utf8 (stringify b), of_data = \<lambda>_. Inr None\<rparr>"

definition sample_api_request :: api_request where
  "sample_api_request = \<lparr>ar_method = js ''GET'', ar_template = js ''{cluster}'', ar_path = [(js ''cluster'', js ''a/b'')],
     ar_query = [(js ''n'', Some (js ''a&b''))], ar_headers = [], ar_body = None, ar_serialized = None, ar_prod_confirmed = False\<rparr>"

definition no_clusters :: store where
  "no_clusters = \<lparr>st_stored = Absent, st_session = [], st_events = 0\<rparr>"

lemma plain_fetch_documented: "documented_openapi_fetch plain_fetch"
  by (simp add: documented_openapi_fetch_def plain_fetch_def)

lemma no_cluster_found [simp]: "get_private_cluster_by_name no_clusters n = None"
  by (simp add: get_private_cluster_by_name_def read_all_def no_clusters_def safe_read_def)



theorem cache_key_scope_witness: "cluster_key no_clusters (js ''a'') \<noteq> cluster_key no_clusters (js ''b'')"
proof -
  have "distinct (map pc_id (read_all no_clusters))" by (simp add: read_all_def no_clusters_def safe_read_def)
  with cache_key_scope [of no_clusters "js ''a''" "js ''b''" "[]" False "[]" "[]"] show ?thesis by simp
qed

end
