(* ===== verification/Api.thy ===== *)
theory Api
  imports ApiClient SearchChain
begin

text \<open>
  The endpoint functions of \<open>frontend/src/lib/api.ts\<close>: the request each one builds, how it maps a
  non-2xx response to the error the UI shows, and what it takes from the response. The client (its
  \<open>send\<close>), openapi-fetch's reading of a response body and \<open>JSON.parse\<close> form the environment of a call. A
  response body is a JSON value; a cast is no check, so a missing member is \<open>undefined\<close> (\<open>None\<close>).
\<close>

record api_env =
  ae_send :: "api_request \<Rightarrow> api_error + http_response"
  ae_data :: "http_response \<Rightarrow> jstr + json option"
  ae_parse :: "jstr \<Rightarrow> json option"

section \<open>Errors\<close>

definition js_truthy :: "json option \<Rightarrow> bool" where
  "js_truthy v = (case v of None \<Rightarrow> False | Some JsNull \<Rightarrow> False | Some (JsBool b) \<Rightarrow> b | Some (JsInt i) \<Rightarrow> i \<noteq> 0
     | Some (JsString s) \<Rightarrow> s \<noteq> [] | Some _ \<Rightarrow> True)"

text \<open>\<open>String(v)\<close>.\<close>

fun to_text :: "json \<Rightarrow> jstr" where
  "to_text JsNull = js ''null''"
| "to_text (JsBool b) = (if b then js ''true'' else js ''false'')"
| "to_text (JsInt i) = dec_int i"
| "to_text (JsFrac l) = l"
| "to_text (JsString s) = s"
| "to_text (JsArray vs) = join (js '','') (map (\<lambda>v. case v of JsNull \<Rightarrow> [] | _ \<Rightarrow> to_text v) vs)"
| "to_text (JsObject _) = js ''[object Object]''"

text \<open>\<open>`: ${x}`\<close> when \<open>x\<close> is truthy.\<close>

definition detail_text :: "json option \<Rightarrow> jstr" where
  "detail_text v = (if js_truthy v then js '': '' @ to_text (the v) else [])"

definition member :: "jstr \<Rightarrow> json option \<Rightarrow> json option" where
  "member k v = (case v of None \<Rightarrow> None | Some j \<Rightarrow> jprop k j)"

definition status_error :: "(jstr \<Rightarrow> json option) \<Rightarrow> http_error \<Rightarrow> api_error" where
  "status_error parse e = Plain_Error (js ''HTTP '' @ dec_int (he_status e) @ detail_text (member (js ''error'') (error_json parse e)))"

definition body_error :: "http_error \<Rightarrow> api_error" where
  "body_error e = Plain_Error (he_body e)"

definition body_or_status_text_error :: "http_error \<Rightarrow> api_error" where
  "body_or_status_text_error e = Plain_Error (if he_body e \<noteq> [] then he_body e else he_status_text e)"

definition nullish :: "json option \<Rightarrow> bool" where
  "nullish v \<longleftrightarrow> v = None \<or> v = Some JsNull"

definition raw_value_error :: "(jstr \<Rightarrow> json option) \<Rightarrow> http_error \<Rightarrow> api_error" where
  "raw_value_error parse e =
     (let body = error_json parse e; err = member (js ''error'') body; detail = detail_text err in
      if he_status e = 403 \<and> member (js ''code'') body = Some (JsString (js ''value_masked''))
      then Raw_Value_Masked (if nullish err then js ''value is masked and cannot be downloaded'' else to_text (the err))
      else if he_status e = 413 then Raw_Value_Too_Large (js ''HTTP 413'' @ detail)
      else Plain_Error (js ''HTTP '' @ dec_int (he_status e) @ detail))"

section \<open>Calls\<close>

definition send_api :: "api_env \<Rightarrow> (http_error \<Rightarrow> api_error) \<Rightarrow> api_request \<Rightarrow> api_error + http_response" where
  "send_api env to_error req =
     (case ae_send env req of Inl (Http_Error e) \<Rightarrow> Inl (to_error e) | Inl e \<Rightarrow> Inl e | Inr r \<Rightarrow> Inr r)"

definition call_api :: "api_env \<Rightarrow> (http_error \<Rightarrow> api_error) \<Rightarrow> api_request \<Rightarrow> api_error + json option" where
  "call_api env to_error req =
     bindE (send_api env to_error req) (\<lambda>r. case ae_data env r of Inl m \<Rightarrow> Inl (Fetch_Error m) | Inr d \<Rightarrow> Inr d)"

text \<open>\<open>call\<close> with its default error mapping.\<close>

definition call_default :: "api_env \<Rightarrow> api_request \<Rightarrow> api_error + json option" where
  "call_default env = call_api env (status_error (ae_parse env))"

text \<open>\<open>r.member\<close> of a response body; reading a member of \<open>undefined\<close> or \<open>null\<close> throws.\<close>

definition take_member :: "jstr \<Rightarrow> json option \<Rightarrow> api_error + json option" where
  "take_member k v = (if nullish v then Inl Type_Error else Inr (member k v))"

text \<open>\<open>r.member ?? d\<close>.\<close>

definition take_member_or :: "jstr \<Rightarrow> json \<Rightarrow> json option \<Rightarrow> api_error + json" where
  "take_member_or k d v = bindE (take_member k v) (\<lambda>m. Inr (if nullish m then d else the m))"

definition request :: "jstr \<Rightarrow> jstr \<Rightarrow> (jstr \<times> jstr) list \<Rightarrow> api_request" where
  "request m t ps = \<lparr>ar_method = m, ar_template = t, ar_path = ps, ar_query = [], ar_headers = [], ar_body = None,
     ar_serialized = None, ar_prod_confirmed = False\<rparr>"

definition accept_json :: headers where
  "accept_json = set_header (js ''Accept'') (js ''application/json'') []"

definition get_json :: "jstr \<Rightarrow> (jstr \<times> jstr) list \<Rightarrow> api_request" where
  "get_json t ps = (request (js ''GET'') t ps)\<lparr>ar_headers := accept_json\<rparr>"

definition in_cluster :: "jstr \<Rightarrow> (jstr \<times> jstr) list" where
  "in_cluster cluster = [(js ''cluster'', cluster)]"

definition in_topic :: "jstr \<Rightarrow> jstr \<Rightarrow> (jstr \<times> jstr) list" where
  "in_topic cluster topic = [(js ''cluster'', cluster), (js ''topic'', topic)]"

definition in_group :: "jstr \<Rightarrow> jstr \<Rightarrow> (jstr \<times> jstr) list" where
  "in_group cluster grp = [(js ''cluster'', cluster), (js ''group'', grp)]"

section \<open>Reading the cluster\<close>

definition fetch_info :: "api_env \<Rightarrow> api_error + json option" where
  "fetch_info env = call_default env (get_json (js ''/api/v1/info'') [])"

definition fetch_clusters :: "api_env \<Rightarrow> api_error + json option" where
  "fetch_clusters env = bindE (call_default env (get_json (js ''/api/v1/clusters'') [])) (take_member (js ''clusters''))"

definition fetch_topics :: "api_env \<Rightarrow> jstr \<Rightarrow> api_error + json option" where
  "fetch_topics env cluster =
     bindE (call_default env (get_json (js ''/api/v1/clusters/{cluster}/topics'') (in_cluster cluster))) (take_member (js ''topics''))"

definition fetch_brokers :: "api_env \<Rightarrow> jstr \<Rightarrow> api_error + json option" where
  "fetch_brokers env cluster =
     bindE (call_default env (get_json (js ''/api/v1/clusters/{cluster}/brokers'') (in_cluster cluster))) (take_member (js ''brokers''))"

definition fetch_topic_detail :: "api_env \<Rightarrow> jstr \<Rightarrow> jstr \<Rightarrow> api_error + json option" where
  "fetch_topic_detail env cluster topic =
     bindE (call_default env (get_json (js ''/api/v1/clusters/{cluster}/topics/{topic}'') (in_topic cluster topic))) (take_member (js ''topic''))"

definition fetch_topic_consumers :: "api_env \<Rightarrow> jstr \<Rightarrow> jstr \<Rightarrow> api_error + json" where
  "fetch_topic_consumers env cluster topic =
     bindE (call_default env (get_json (js ''/api/v1/clusters/{cluster}/topics/{topic}/consumers'') (in_topic cluster topic)))
       (take_member_or (js ''consumers'') (JsArray []))"

section \<open>Reading messages\<close>

text \<open>The query parameters of \<open>consumeMessages\<close>; \<open>partitionOffsets\<close> in the order of \<open>Object.entries\<close>.\<close>

record consume_params =
  cp_partition :: "int option"
  cp_limit :: "int option"
  cp_from :: "jstr option"
  cp_offset :: "int option"
  cp_partition_offsets :: "(int \<times> int) list option"
  cp_from_ts :: "int option"
  cp_to_ts :: "int option"
  cp_cursor :: "jstr option"

definition partition_param :: "int option \<Rightarrow> int option" where
  "partition_param p = (case p of Some n \<Rightarrow> if 0 \<le> n then Some n else None | None \<Rightarrow> None)"

definition or_undefined :: "jstr option \<Rightarrow> jstr option" where
  "or_undefined s = (case s of Some (c # t) \<Rightarrow> Some (c # t) | _ \<Rightarrow> None)"

definition offset_pairs :: "(int \<times> int) list \<Rightarrow> jstr" where
  "offset_pairs os = join (js '','') (map (\<lambda>(p, n). dec_int p @ js '':'' @ dec_int n) os)"

definition int_query :: "jstr \<Rightarrow> int option \<Rightarrow> jstr \<times> jstr option" where
  "int_query k v = (k, map_option dec_int v)"

definition fetch_messages :: "api_env \<Rightarrow> jstr \<Rightarrow> jstr \<Rightarrow> consume_params \<Rightarrow> api_error + json option" where
  "fetch_messages env cluster topic p =
     (let pairs = (case cp_partition_offsets p of Some os \<Rightarrow> offset_pairs os | None \<Rightarrow> []) in
      call_default env ((get_json (js ''/api/v1/clusters/{cluster}/topics/{topic}/messages'') (in_topic cluster topic))
        \<lparr>ar_query := [int_query (js ''partition'') (partition_param (cp_partition p)), int_query (js ''limit'') (cp_limit p),
           (js ''from'', or_undefined (cp_from p)), int_query (js ''offset'') (cp_offset p),
           (js ''partition_offsets'', or_undefined (Some pairs)), int_query (js ''from_ts_ms'') (cp_from_ts p),
           int_query (js ''to_ts_ms'') (cp_to_ts p), (js ''cursor'', or_undefined (cp_cursor p))]\<rparr>))"

definition fetch_message_count :: "api_env \<Rightarrow> jstr \<Rightarrow> jstr \<Rightarrow> int option \<Rightarrow> int option \<Rightarrow> int option \<Rightarrow> api_error + json option" where
  "fetch_message_count env cluster topic p from_ts to_ts =
     call_default env ((get_json (js ''/api/v1/clusters/{cluster}/topics/{topic}/messages/count'') (in_topic cluster topic))
        \<lparr>ar_query := [int_query (js ''partition'') (partition_param p), int_query (js ''from_ts_ms'') from_ts, int_query (js ''to_ts_ms'') to_ts]\<rparr>)"

definition fetch_message_timeline :: "api_env \<Rightarrow> jstr \<Rightarrow> jstr \<Rightarrow> int option \<Rightarrow> int \<Rightarrow> int \<Rightarrow> int \<Rightarrow> api_error + json option" where
  "fetch_message_timeline env cluster topic p from_ts to_ts slot =
     call_default env ((get_json (js ''/api/v1/clusters/{cluster}/topics/{topic}/messages/timeline'') (in_topic cluster topic))
        \<lparr>ar_query := [int_query (js ''partition'') (partition_param p), int_query (js ''from_ts_ms'') (Some from_ts),
           int_query (js ''to_ts_ms'') (Some to_ts), int_query (js ''slot_ms'') (Some slot)]\<rparr>)"

definition fetch_sample :: "api_env \<Rightarrow> jstr \<Rightarrow> jstr \<Rightarrow> int option \<Rightarrow> int option \<Rightarrow> api_error + json option" where
  "fetch_sample env cluster topic n p =
     call_default env ((get_json (js ''/api/v1/clusters/{cluster}/topics/{topic}/sample'') (in_topic cluster topic))
        \<lparr>ar_query := [int_query (js ''n'') (Some (opt_or n 5)), int_query (js ''partition'') (Some (opt_or p (- 1)))]\<rparr>)"

section \<open>Producing\<close>

definition gzip_produce_threshold :: nat where
  "gzip_produce_threshold = 256 * 1024"

text \<open>\<open>CompressionStream\<close> is a parameter: it may be missing, and compressing may fail.\<close>

definition maybe_gzip_body :: "(byte list \<Rightarrow> byte list option) option \<Rightarrow> jstr \<Rightarrow> byte list \<times> headers" where
  "maybe_gzip_body gzip body =
     (if length body < gzip_produce_threshold then (utf8 body, [])
      else (case gzip of None \<Rightarrow> (utf8 body, [])
        | Some f \<Rightarrow> (case f (utf8 body) of None \<Rightarrow> (utf8 body, [])
          | Some c \<Rightarrow> (c, set_header (js ''Content-Encoding'') (js ''gzip'') []))))"

definition produce_message :: "api_env \<Rightarrow> (byte list \<Rightarrow> byte list option) option \<Rightarrow> jstr \<Rightarrow> jstr \<Rightarrow> json \<Rightarrow> bool \<Rightarrow> api_error + json option" where
  "produce_message env gzip cluster topic req confirm =
     (let (body, h) = maybe_gzip_body gzip (stringify req) in
      call_default env (with_prod_confirm confirm ((request (js ''POST'') (js ''/api/v1/clusters/{cluster}/topics/{topic}/messages'') (in_topic cluster topic))
        \<lparr>ar_body := Some req, ar_serialized := Some body, ar_headers := h\<rparr>)))"

section \<open>Groups and topics\<close>

definition fetch_groups :: "api_env \<Rightarrow> jstr \<Rightarrow> api_error + json" where
  "fetch_groups env cluster =
     bindE (call_default env (get_json (js ''/api/v1/clusters/{cluster}/groups'') (in_cluster cluster))) (take_member_or (js ''groups'') (JsArray []))"

definition fetch_group_detail :: "api_env \<Rightarrow> jstr \<Rightarrow> jstr \<Rightarrow> api_error + json option" where
  "fetch_group_detail env cluster grp =
     call_default env (get_json (js ''/api/v1/clusters/{cluster}/groups/{group}'') (in_group cluster grp))"

definition reset_group_offsets :: "api_env \<Rightarrow> jstr \<Rightarrow> jstr \<Rightarrow> json \<Rightarrow> bool \<Rightarrow> api_error + json option" where
  "reset_group_offsets env cluster grp req confirm =
     call_default env (with_prod_confirm confirm
       ((request (js ''POST'') (js ''/api/v1/clusters/{cluster}/groups/{group}/reset-offsets'') (in_group cluster grp))\<lparr>ar_body := Some req\<rparr>))"

definition create_group :: "api_env \<Rightarrow> jstr \<Rightarrow> json \<Rightarrow> api_error + json option" where
  "create_group env cluster req =
     call_default env ((request (js ''POST'') (js ''/api/v1/clusters/{cluster}/groups'') (in_cluster cluster))\<lparr>ar_body := Some req\<rparr>)"

definition delete_group :: "api_env \<Rightarrow> jstr \<Rightarrow> jstr \<Rightarrow> api_error + json option" where
  "delete_group env cluster grp =
     call_default env (request (js ''DELETE'') (js ''/api/v1/clusters/{cluster}/groups/{group}'') (in_group cluster grp))"

definition create_topic :: "api_env \<Rightarrow> jstr \<Rightarrow> json \<Rightarrow> api_error + json option" where
  "create_topic env cluster req =
     call_default env ((request (js ''POST'') (js ''/api/v1/clusters/{cluster}/topics'') (in_cluster cluster))\<lparr>ar_body := Some req\<rparr>)"

definition alter_topic_configs :: "api_env \<Rightarrow> jstr \<Rightarrow> jstr \<Rightarrow> json \<Rightarrow> api_error + json option" where
  "alter_topic_configs env cluster topic req =
     call_default env ((request (js ''PATCH'') (js ''/api/v1/clusters/{cluster}/topics/{topic}/configs'') (in_topic cluster topic))\<lparr>ar_body := Some req\<rparr>)"

section \<open>Schema Registry\<close>

definition list_subjects :: "api_env \<Rightarrow> jstr \<Rightarrow> api_error + json" where
  "list_subjects env cluster =
     bindE (call_api env body_error (request (js ''GET'') (js ''/api/v1/clusters/{cluster}/schemas/subjects'') (in_cluster cluster)))
       (take_member_or (js ''subjects'') (JsArray []))"

definition get_schema_version :: "api_env \<Rightarrow> jstr \<Rightarrow> jstr \<Rightarrow> jstr \<Rightarrow> api_error + json option" where
  "get_schema_version env cluster subject version =
     call_api env body_error (request (js ''GET'') (js ''/api/v1/clusters/{cluster}/schemas/subjects/{subject}/versions/{version}'')
       [(js ''cluster'', cluster), (js ''subject'', subject), (js ''version'', version)])"

definition delete_subject :: "api_env \<Rightarrow> jstr \<Rightarrow> jstr \<Rightarrow> bool \<Rightarrow> api_error + json option" where
  "delete_subject env cluster subject permanent =
     call_default env ((request (js ''DELETE'') (js ''/api/v1/clusters/{cluster}/schemas/subjects/{subject}'')
       [(js ''cluster'', cluster), (js ''subject'', subject)])\<lparr>ar_query := [(js ''permanent'', if permanent then Some (js ''true'') else None)]\<rparr>)"

section \<open>Access control\<close>

definition list_acls :: "api_env \<Rightarrow> jstr \<Rightarrow> api_error + json" where
  "list_acls env cluster =
     bindE (call_api env body_error (request (js ''GET'') (js ''/api/v1/clusters/{cluster}/acls'') (in_cluster cluster)))
       (take_member_or (js ''acls'') (JsArray []))"

text \<open>A response read as text is not looked at.\<close>

definition ignore_text :: "api_error + http_response \<Rightarrow> api_error + unit" where
  "ignore_text r = bindE r (\<lambda>_. Inr ())"

definition create_acl :: "api_env \<Rightarrow> jstr \<Rightarrow> json \<Rightarrow> api_error + unit" where
  "create_acl env cluster spec =
     ignore_text (send_api env body_error ((request (js ''POST'') (js ''/api/v1/clusters/{cluster}/acls'') (in_cluster cluster))\<lparr>ar_body := Some spec\<rparr>))"

definition delete_acl :: "api_env \<Rightarrow> jstr \<Rightarrow> json \<Rightarrow> api_error + json" where
  "delete_acl env cluster spec =
     bindE (call_api env body_error ((request (js ''DELETE'') (js ''/api/v1/clusters/{cluster}/acls'') (in_cluster cluster))\<lparr>ar_body := Some spec\<rparr>))
       (take_member_or (js ''deleted'') (JsInt 0))"

definition list_scram_users :: "api_env \<Rightarrow> jstr \<Rightarrow> api_error + json" where
  "list_scram_users env cluster =
     bindE (call_api env body_error (request (js ''GET'') (js ''/api/v1/clusters/{cluster}/users'') (in_cluster cluster)))
       (take_member_or (js ''users'') (JsArray []))"

definition upsert_scram_user :: "api_env \<Rightarrow> jstr \<Rightarrow> json \<Rightarrow> api_error + unit" where
  "upsert_scram_user env cluster req =
     ignore_text (send_api env body_error ((request (js ''POST'') (js ''/api/v1/clusters/{cluster}/users'') (in_cluster cluster))\<lparr>ar_body := Some req\<rparr>))"

definition delete_scram_user :: "api_env \<Rightarrow> jstr \<Rightarrow> jstr \<Rightarrow> jstr option \<Rightarrow> api_error + unit" where
  "delete_scram_user env cluster user mechanism =
     ignore_text (send_api env body_error ((request (js ''DELETE'') (js ''/api/v1/clusters/{cluster}/users/{user}'')
       [(js ''cluster'', cluster), (js ''user'', user)])\<lparr>ar_query := [(js ''mechanism'', or_undefined mechanism)]\<rparr>))"

text \<open>The permissions of the signed-in user.\<close>

record me_info =
  me_rbac_enabled :: bool
  me_permissions :: "(jstr, jstr list) jsmap"

definition can :: "me_info option \<Rightarrow> jstr \<Rightarrow> jstr \<Rightarrow> bool" where
  "can me resource_type action =
     (case me of
        None \<Rightarrow> True
      | Some m \<Rightarrow>
          if \<not> me_rbac_enabled m then True
          else let perms = me_permissions m in
            if (case mget perms (js ''*'') of Some all \<Rightarrow> js ''*'' \<in> set all \<or> action \<in> set all | None \<Rightarrow> False) then True
            else (case mget perms resource_type of None \<Rightarrow> False | Some tp \<Rightarrow> js ''*'' \<in> set tp \<or> action \<in> set tp))"


section \<open>Searching\<close>

definition opt_int :: "jstr \<Rightarrow> int option \<Rightarrow> jstr \<times> json option" where
  "opt_int k v = (k, map_option JsInt v)"

definition opt_str :: "jstr \<Rightarrow> jstr option \<Rightarrow> jstr \<times> json option" where
  "opt_str k v = (k, map_option JsString v)"

definition direction_text :: "search_direction \<Rightarrow> jstr" where
  "direction_text d = (case d of NewestFirst \<Rightarrow> js ''newest_first'' | OldestFirst \<Rightarrow> js ''oldest_first'')"

definition search_request_json :: "search_request \<Rightarrow> json" where
  "search_request_json q = JsObject (members
     [opt_int (js ''partition'') (sq_partition q), opt_int (js ''limit'') (sq_limit q), opt_int (js ''budget'') (sq_budget q),
      opt_str (js ''direction'') (map_option direction_text (sq_direction q)), (js ''stop_on_limit'', map_option JsBool (sq_stop_on_limit q)),
      opt_str (js ''mode'') (sq_mode q), opt_str (js ''path'') (sq_path q), opt_str (js ''header_key'') (sq_header_key q),
      opt_str (js ''op'') (sq_op q), opt_str (js ''value'') (sq_value q), (js ''zones'', map_option (\<lambda>zs. JsArray (map JsString zs)) (sq_zones q)),
      opt_int (js ''from_ts_ms'') (sq_from_ts q), opt_int (js ''to_ts_ms'') (sq_to_ts q),
      (js ''cursors'', map_option (\<lambda>cs. JsObject (map (\<lambda>(k, n). (k, JsInt n)) cs)) (sq_cursors q))])"

text \<open>The body with its messages, an empty list when the server sent none.\<close>

definition search_messages :: "api_env \<Rightarrow> jstr \<Rightarrow> jstr \<Rightarrow> search_request \<Rightarrow> api_error + json" where
  "search_messages env cluster topic q =
     bindE (call_api env body_or_status_text_error ((request (js ''POST'') (js ''/api/v1/clusters/{cluster}/topics/{topic}/messages/search'')
         (in_topic cluster topic))\<lparr>ar_body := Some (search_request_json q)\<rparr>))
       (\<lambda>d. bindE (take_member_or (js ''messages'') (JsArray []) d) (\<lambda>ms.
          Inr (JsObject (mset_key (js ''messages'') ms (case d of Some (JsObject fs) \<Rightarrow> fs | _ \<Rightarrow> [])))))"

section \<open>Connection test\<close>

text \<open>Whether the twenty seconds ran out is up to the clock: then \<open>send\<close> throws the abort error.\<close>

definition test_cluster :: "api_env \<Rightarrow> private_cluster \<Rightarrow> api_error + json option" where
  "test_cluster env cfg =
     (case to_backend_config cfg of
        Inl e \<Rightarrow> Inl (Store_Error e)
      | Inr body \<Rightarrow>
          (case call_default env ((request (js ''POST'') (js ''/api/v1/clusters/_test'') [])\<lparr>ar_body := Some body\<rparr>) of
             Inl Abort_Error \<Rightarrow> Inl (Plain_Error (js ''timed out probing brokers '' @ [0x2014] @ js '' try again, broker DNS may be cold''))
           | r \<Rightarrow> r))"

section \<open>Raw values\<close>

definition raw_template :: jstr where
  "raw_template = js ''/api/v1/clusters/{cluster}/topics/{topic}/messages/{partition}/{offset}/raw''"

definition at_record :: "jstr \<Rightarrow> jstr \<Rightarrow> int \<Rightarrow> int \<Rightarrow> (jstr \<times> jstr) list" where
  "at_record cluster topic p n = in_topic cluster topic @ [(js ''partition'', dec_int p), (js ''offset'', dec_int n)]"

text \<open>\<open>disposition.match(/filename="([^"]+)"/)\<close>.\<close>

fun match_filename :: "jstr \<Rightarrow> jstr option" where
  "match_filename [] = None"
| "match_filename (c # r) =
     (let p = js ''filename='' @ [34]; t = drop (length p) (c # r); name = takeWhile (\<lambda>x. x \<noteq> 34) t in
      if starts_with p (c # r) \<and> name \<noteq> [] \<and> length name < length t then Some name else match_filename r)"

text \<open>The file the browser saves: its name and the bytes of the response.\<close>

definition download_message_raw :: "api_env \<Rightarrow> jstr \<Rightarrow> jstr \<Rightarrow> int \<Rightarrow> int \<Rightarrow> api_error + jstr \<times> byte list" where
  "download_message_raw env cluster topic p n =
     bindE (send_api env (raw_value_error (ae_parse env)) (request (js ''GET'') raw_template (at_record cluster topic p n)))
       (\<lambda>r. let disposition = opt_or (get_header (hp_headers r) (js ''content-disposition'')) [];
                filename = (case match_filename disposition of Some f \<Rightarrow> f
                  | None \<Rightarrow> topic @ js ''-p'' @ dec_int p @ js ''-o'' @ dec_int n @ js ''.bin'')
            in Inr (filename, hp_body r))"

text \<open>
  \<open>arrayBufferToBase64\<close>: a binary string is built in chunks, one character per byte, and \<open>btoa\<close> encodes it.
\<close>

definition b64_chunk_size :: nat where
  "b64_chunk_size = 0x8000"

function binary_chunks :: "byte list \<Rightarrow> jstr" where
  "binary_chunks bs = (if bs = [] then []
     else map (\<lambda>b. of_nat (unat b)) (take b64_chunk_size bs) @ binary_chunks (drop b64_chunk_size bs))"
  by pat_completeness auto

termination binary_chunks
  by (relation "measure length") (auto simp: b64_chunk_size_def)

declare binary_chunks.simps [simp del]

text \<open>\<open>btoa\<close> of a binary string; it throws for a character above 255.\<close>

definition btoa_text :: "jstr \<Rightarrow> jstr option" where
  "btoa_text s = (if \<forall>c \<in> set s. unat c < 256 then Some (btoa (map (\<lambda>c. of_nat (unat c)) s)) else None)"

definition array_buffer_to_base64 :: "byte list \<Rightarrow> jstr option" where
  "array_buffer_to_base64 buf = btoa_text (binary_chunks buf)"

definition fetch_message_raw_base64 :: "api_env \<Rightarrow> jstr \<Rightarrow> jstr \<Rightarrow> int \<Rightarrow> int \<Rightarrow> bool \<Rightarrow> api_error + jstr" where
  "fetch_message_raw_base64 env cluster topic p n decoded =
     bindE (send_api env (raw_value_error (ae_parse env)) ((request (js ''GET'') raw_template (at_record cluster topic p n))
         \<lparr>ar_query := (if decoded then [] else [(js ''decoded'', Some (js ''false''))])\<rparr>))
       (\<lambda>r. case array_buffer_to_base64 (hp_body r) of None \<Rightarrow> Inl Type_Error | Some t \<Rightarrow> Inr t)"

lemma binary_chunks_map: "binary_chunks bs = map (\<lambda>b. of_nat (unat b)) bs"
proof (induction bs rule: binary_chunks.induct)
  case (1 bs)
  then show ?case
    by (subst binary_chunks.simps) (cases "bs = []"; simp add: map_append [symmetric] del: map_append)
qed

lemma array_buffer_base64: "array_buffer_to_base64 bs = Some (btoa bs)"
proof -
  have u: "unat (of_nat (unat b) :: cu) = unat b" for b :: byte by (rule unat_byte_cu)
  then have "map (\<lambda>c. of_nat (unat c)) (map (\<lambda>b. of_nat (unat b) :: cu) bs) = bs" by (simp add: comp_def del: of_nat_unat)
  moreover have "\<forall>c \<in> set (map (\<lambda>b. of_nat (unat b) :: cu) bs). unat c < 256" using u byte_less by (simp del: of_nat_unat)
  ultimately show ?thesis unfolding array_buffer_to_base64_def btoa_text_def binary_chunks_map by simp
qed

text \<open>
  The full value of a record survives the trip through base64, whatever its size. The raw fetch
  either fails with the mapped error or returns a text that decodes to exactly the bytes of the
  response, chunk boundaries included, so that reading a valid UTF-8 value that way shows the value itself; a
  refusal is reported as masked or too large exactly for the statuses 403 (with its code) and 413.
\<close>

theorem raw_value_bytes:
  shows "(case send_api env (raw_value_error (ae_parse env)) ((request (js ''GET'') raw_template (at_record cluster topic p n))
         \<lparr>ar_query := (if decoded then [] else [(js ''decoded'', Some (js ''false''))])\<rparr>) of
      Inl e \<Rightarrow> fetch_message_raw_base64 env cluster topic p n decoded = Inl e
    | Inr r \<Rightarrow> \<exists>t. fetch_message_raw_base64 env cluster topic p n decoded = Inr t \<and> atob t = Some (hp_body r) \<and>
        base64_to_utf8 t = Some (utf8_decode (hp_body r)) \<and>
        (\<forall>s. hp_body r = utf8 s \<and> well_formed s \<and> (s = [] \<or> hd s \<noteq> 0xFEFF) \<longrightarrow> base64_to_utf8 t = Some s)) \<and>
    ((\<exists>m. raw_value_error parse e = Raw_Value_Too_Large m) \<longleftrightarrow> he_status e = 413) \<and>
    ((\<exists>m. raw_value_error parse e = Raw_Value_Masked m) \<longleftrightarrow>
      he_status e = 403 \<and> member (js ''code'') (error_json parse e) = Some (JsString (js ''value_masked'')))"
proof -
  have "((\<exists>m. raw_value_error parse e = Raw_Value_Too_Large m) \<longleftrightarrow> he_status e = 413) \<and>
    ((\<exists>m. raw_value_error parse e = Raw_Value_Masked m) \<longleftrightarrow>
      he_status e = 403 \<and> member (js ''code'') (error_json parse e) = Some (JsString (js ''value_masked'')))"
    by (simp add: raw_value_error_def Let_def)
  then show ?thesis
    by (auto simp: fetch_message_raw_base64_def array_buffer_base64 base64_to_utf8_def utf8_decode_utf8 split: sum.splits)
qed


definition sample_env :: api_env where
  "sample_env = \<lparr>ae_send = \<lambda>_. Inr \<lparr>hp_status = 200, hp_status_text = [], hp_headers = [], hp_body = utf8 (js ''abc'')\<rparr>,
     ae_data = \<lambda>_. Inr None, ae_parse = \<lambda>_. None\<rparr>"

theorem raw_value_bytes_witness:
  "\<exists>t. fetch_message_raw_base64 sample_env (js ''c'') (js ''t'') 0 7 True = Inr t \<and> base64_to_utf8 t = Some (js ''abc'')"
proof -
  have "well_formed (js ''abc'') \<and> hd (js ''abc'') \<noteq> 0xFEFF" by (simp add: js_def hi_sur_def lo_sur_def)
  then show ?thesis
    using raw_value_bytes [of sample_env "js ''c''" "js ''t''" 0 7 True "\<lambda>_. None" "\<lparr>he_status = 413, he_status_text = [], he_body = []\<rparr>"]
    by (auto simp: send_api_def sample_env_def)
qed

end
