(* ===== verification/CopyStream.thy ===== *)
theory CopyStream
  imports Api
begin

text \<open>
  The progress stream of a bulk copy (\<open>copyMessages\<close> of \<open>frontend/src/lib/api.ts\<close>): bytes arrive in chunks
  cut anywhere, a streaming UTF-8 decoder turns them into text, complete lines are taken off a
  buffer and the data lines among them parsed as events.
\<close>

section \<open>The streaming decoder\<close>

text \<open>
  \<open>TextDecoder\<close> with \<open>stream: true\<close>: the bytes still needed, the code point so far, the range of the
  next byte, and whether the start of the text (where a byte order mark is dropped) is behind.
\<close>

record u8_state =
  u_need :: nat
  u_cp :: nat
  u_lo :: nat
  u_hi :: nat

record stream_decoder =
  sd_state :: u8_state
  sd_started :: bool

definition u8_initial :: u8_state where
  "u8_initial = \<lparr>u_need = 0, u_cp = 0, u_lo = 0x80, u_hi = 0xBF\<rparr>"

text \<open>A byte where a character starts: what it completes (\<open>None\<close> an error), and the state after it.\<close>

definition u8_lead_byte :: "nat \<Rightarrow> u8_state \<Rightarrow> nat option list \<times> u8_state" where
  "u8_lead_byte n s =
     (if n < 0x80 then ([Some n], s)
      else if 0xC2 \<le> n \<and> n \<le> 0xDF then ([], s\<lparr>u_need := 1, u_cp := n - 0xC0, u_lo := 0x80, u_hi := 0xBF\<rparr>)
      else if 0xE0 \<le> n \<and> n \<le> 0xEF then ([], s\<lparr>u_need := 2, u_cp := n - 0xE0,
          u_lo := if n = 0xE0 then 0xA0 else 0x80, u_hi := if n = 0xED then 0x9F else 0xBF\<rparr>)
      else if 0xF0 \<le> n \<and> n \<le> 0xF4 then ([], s\<lparr>u_need := 3, u_cp := n - 0xF0,
          u_lo := if n = 0xF0 then 0x90 else 0x80, u_hi := if n = 0xF4 then 0x8F else 0xBF\<rparr>)
      else ([None], s))"

definition u8_byte :: "byte \<Rightarrow> u8_state \<Rightarrow> nat option list \<times> u8_state" where
  "u8_byte b s =
     (let n = unat b; fresh = s\<lparr>u_need := 0, u_cp := 0, u_lo := 0x80, u_hi := 0xBF\<rparr> in
      if u_need s = 0 then u8_lead_byte n fresh
      else if n < u_lo s \<or> u_hi s < n then (let (out, s') = u8_lead_byte n fresh in (None # out, s'))
      else let cp = u_cp s * 64 + n mod 64
        in if u_need s = 1 then ([Some cp], fresh)
           else ([], s\<lparr>u_need := u_need s - 1, u_cp := cp, u_lo := 0x80, u_hi := 0xBF\<rparr>))"

fun u8_feed :: "byte list \<Rightarrow> u8_state \<Rightarrow> nat option list \<times> u8_state" where
  "u8_feed [] s = ([], s)"
| "u8_feed (b # bs) s = (let (x, s1) = u8_byte b s; (y, s2) = u8_feed bs s1 in (x @ y, s2))"

text \<open>The text of a chunk: the first character of the stream is dropped if it is a byte order mark.\<close>

definition stream_chars :: "nat option list \<Rightarrow> jstr" where
  "stream_chars xs = concat (map (\<lambda>x. utf16 (case x of None \<Rightarrow> 0xFFFD | Some n \<Rightarrow> n)) xs)"

definition stream_decode :: "byte list \<Rightarrow> stream_decoder \<Rightarrow> jstr \<times> stream_decoder" where
  "stream_decode bs d =
     (let (xs, s) = u8_feed bs (sd_state d) in
      (stream_chars (if sd_started d then xs else drop_bom xs), \<lparr>sd_state = s, sd_started = sd_started d \<or> xs \<noteq> []\<rparr>))"

section \<open>The reader\<close>

text \<open>What the stream gives: chunks, then its end, an abort or a failure.\<close>

datatype stream_end = Stream_Done | Stream_Aborted | Stream_Failed jstr

record copy_state =
  cs_decoder :: stream_decoder
  cs_buf :: jstr

definition copy_initial :: copy_state where
  "copy_initial = \<lparr>cs_decoder = \<lparr>sd_state = u8_initial, sd_started = False\<rparr>, cs_buf = []\<rparr>"

definition event_line :: "(jstr \<Rightarrow> json option) \<Rightarrow> jstr \<Rightarrow> json list" where
  "event_line parse line =
     (if starts_with (js ''data: '') line then (case parse (drop 6 line) of Some ev \<Rightarrow> [ev] | None \<Rightarrow> []) else [])"

definition copy_chunk :: "(jstr \<Rightarrow> json option) \<Rightarrow> byte list \<Rightarrow> copy_state \<Rightarrow> json list \<times> copy_state" where
  "copy_chunk parse value st =
     (let (t, d) = stream_decode value (cs_decoder st);
          lines = split_on 10 (cs_buf st @ t)
      in (concat (map (event_line parse) (butlast lines)), \<lparr>cs_decoder = d, cs_buf = last lines\<rparr>))"

fun copy_reader :: "(jstr \<Rightarrow> json option) \<Rightarrow> byte list list \<Rightarrow> copy_state \<Rightarrow> json list \<times> copy_state" where
  "copy_reader parse [] st = ([], st)"
| "copy_reader parse (c # cs) st =
     (let (evs, st1) = copy_chunk parse c st; (evs', st2) = copy_reader parse cs st1 in (evs @ evs', st2))"

definition failed_event :: "jstr \<Rightarrow> json" where
  "failed_event m = JsObject [(js ''copied'', JsInt 0), (js ''done'', JsBool True), (js ''error'', JsString m)]"

text \<open>\<open>Error.message\<close> of what a call throws.\<close>

definition error_message :: "api_error \<Rightarrow> jstr" where
  "error_message e = (case e of Plain_Error m \<Rightarrow> m | Raw_Value_Too_Large m \<Rightarrow> m | Raw_Value_Masked m \<Rightarrow> m | Fetch_Error m \<Rightarrow> m
     | Http_Error h \<Rightarrow> js ''HTTP '' @ dec_int (he_status h)
     | Store_Error (PasswordRequired name) \<Rightarrow> js ''Enter the password of '' @ [34] @ name @ [34] @ js '' to use it in this tab.''
     | _ \<Rightarrow> [])"

text \<open>The events reported to the caller. \<open>Some (chunks, fin)\<close> is the body of the response, \<open>None\<close> a response without one.\<close>

definition copy_messages :: "api_env \<Rightarrow> (http_response \<Rightarrow> (byte list list \<times> stream_end) option) \<Rightarrow> jstr \<Rightarrow> jstr \<Rightarrow> json \<Rightarrow> bool \<Rightarrow> json list" where
  "copy_messages env stream cluster topic req confirm =
     (case ae_send env (with_prod_confirm confirm
         ((request (js ''POST'') (js ''/api/v1/clusters/{cluster}/topics/{topic}/copy'') (in_topic cluster topic))\<lparr>ar_body := Some req\<rparr>)) of
        Inl (Http_Error e) \<Rightarrow> [failed_event (error_message (status_error (ae_parse env) e))]
      | Inl Abort_Error \<Rightarrow> []
      | Inl e \<Rightarrow> [failed_event (error_message e)]
      | Inr r \<Rightarrow> (case stream r of
          None \<Rightarrow> [failed_event (js ''no response body'')]
        | Some (chunks, fin) \<Rightarrow> fst (copy_reader (ae_parse env) chunks copy_initial) @
            (case fin of Stream_Failed m \<Rightarrow> [failed_event m] | _ \<Rightarrow> [])))"

section \<open>Chunk boundaries do not matter\<close>

lemma u8_feed_append:
  assumes "u8_feed xs s = (a, s1)" "u8_feed ys s1 = (b, s2)"
  shows "u8_feed (xs @ ys) s = (a @ b, s2)"
  using assms
proof (induction xs arbitrary: s a)
  case (Cons x xs)
  obtain o1 t where x: "u8_byte x s = (o1, t)" by (cases "u8_byte x s")
  obtain o2 where r: "u8_feed xs t = (o2, s1)" "a = o1 @ o2"
    using Cons.prems(1) x by (cases "u8_feed xs t") simp
  with Cons.IH [OF r(1)] Cons.prems(2) x show ?case by simp
qed simp

lemma stream_chars_append: "stream_chars (xs @ ys) = stream_chars xs @ stream_chars ys"
  by (simp add: stream_chars_def)

lemma drop_bom_append: "xs \<noteq> [] \<Longrightarrow> drop_bom (xs @ ys) = drop_bom xs @ ys"
  by (simp add: drop_bom_def)

lemma stream_decode_append:
  assumes "stream_decode xs d = (t, d1)" "stream_decode ys d1 = (u, d2)"
  shows "stream_decode (xs @ ys) d = (t @ u, d2)"
proof -
  obtain a s1 where a: "u8_feed xs (sd_state d) = (a, s1)" by (cases "u8_feed xs (sd_state d)")
  obtain b s2 where b: "u8_feed ys s1 = (b, s2)" by (cases "u8_feed ys s1")
  have d1: "d1 = \<lparr>sd_state = s1, sd_started = sd_started d \<or> a \<noteq> []\<rparr>" "t = stream_chars (if sd_started d then a else drop_bom a)"
    using assms(1) a by (simp_all add: stream_decode_def)
  have d2: "d2 = \<lparr>sd_state = s2, sd_started = sd_started d \<or> a \<noteq> [] \<or> b \<noteq> []\<rparr>"
    "u = stream_chars (if sd_started d \<or> a \<noteq> [] then b else drop_bom b)"
    using assms(2) b d1(1) by (simp_all add: stream_decode_def)
  show ?thesis
    unfolding stream_decode_def u8_feed_append [OF a b] d1(2) d2
    by (cases "a = []"; cases "sd_started d") (simp_all add: drop_bom_append stream_chars_append, simp_all add: drop_bom_def stream_chars_def)
qed

lemma butlast_last_append: "split_on c (s @ t) = butlast (split_on c s) @ split_on c (last (split_on c s) @ t)"
proof -
  have "c \<notin> set (last (split_on c s))" using split_on_parts [of "last (split_on c s)" c s] by simp
  then have "split_on c (last (split_on c s) @ t) = [last (split_on c s) @ hd (split_on c t)] @ tl (split_on c t)"
    using split_on_append_gen [of c "last (split_on c s)" t] by (simp add: split_on_none)
  then show ?thesis using split_on_append_gen [of c s t] by simp
qed

text \<open>Two chunks in a row report the same events as one.\<close>

lemma copy_chunk_append:
  assumes "copy_chunk parse x st = (evs, st1)" "copy_chunk parse y st1 = (evs', st2)"
  shows "copy_chunk parse (x @ y) st = (evs @ evs', st2)"
proof -
  obtain t d1 where t: "stream_decode x (cs_decoder st) = (t, d1)" by (cases "stream_decode x (cs_decoder st)")
  obtain u d2 where u: "stream_decode y d1 = (u, d2)" by (cases "stream_decode y d1")
  let ?a = "split_on 10 (cs_buf st @ t)" and ?b = "split_on 10 (last (split_on 10 (cs_buf st @ t)) @ u)"
  have st1: "st1 = \<lparr>cs_decoder = d1, cs_buf = last ?a\<rparr>" "evs = concat (map (event_line parse) (butlast ?a))"
    using assms(1) t by (simp_all add: copy_chunk_def Let_def)
  have st2: "st2 = \<lparr>cs_decoder = d2, cs_buf = last ?b\<rparr>" "evs' = concat (map (event_line parse) (butlast ?b))"
    using assms(2) u st1(1) by (simp_all add: copy_chunk_def Let_def)
  have "split_on 10 (cs_buf st @ t @ u) = butlast ?a @ ?b" using butlast_last_append [of 10 "cs_buf st @ t" u] by simp
  then show ?thesis
    unfolding copy_chunk_def stream_decode_append [OF t u] st1(2) st2 by (simp add: Let_def butlast_append)
qed

lemma copy_reader_concat: "cs \<noteq> [] \<Longrightarrow> copy_reader parse cs st = copy_chunk parse (concat cs) st"
proof (induction cs arbitrary: st)
  case (Cons c cs)
  obtain evs st1 where c: "copy_chunk parse c st = (evs, st1)" by (cases "copy_chunk parse c st")
  show ?case
  proof (cases "cs = []")
    case True
    then show ?thesis using c by simp
  next
    case False
    obtain evs' st2 where r: "copy_chunk parse (concat cs) st1 = (evs', st2)" by (cases "copy_chunk parse (concat cs) st1")
    then have "copy_reader parse cs st1 = (evs', st2)" using Cons.IH [OF False] by simp
    then show ?thesis using c copy_chunk_append [OF c r] by simp
  qed
qed simp


section \<open>The text of the stream\<close>

text \<open>The streaming decoder against the decoder of whole byte sequences.\<close>

lemma u8_feed_lead: "u8_lead_byte (unat b) \<lparr>u_need = 0, u_cp = 0, u_lo = 0x80, u_hi = 0xBF\<rparr> = (x, s) \<Longrightarrow>
    u8 0 0 0x80 0xBF (b # bs) = x @ u8 (u_need s) (u_cp s) (u_lo s) (u_hi s) bs"
  by (subst u8.simps(2)) (auto simp: u8_lead_byte_def Let_def split: if_splits)

lemma u8_byte_run:
  assumes "u8_byte b s = (x, s1)" "u_need s = 0 \<Longrightarrow> s = u8_initial"
  shows "u8 (u_need s) (u_cp s) (u_lo s) (u_hi s) (b # bs) = x @ u8 (u_need s1) (u_cp s1) (u_lo s1) (u_hi s1) bs
    \<and> (u_need s1 = 0 \<longrightarrow> s1 = u8_initial)"
proof -
  let ?f = "\<lparr>u_need = 0, u_cp = 0, u_lo = 0x80, u_hi = 0xBF\<rparr> :: u8_state"
  have fresh: "s\<lparr>u_need := 0, u_cp := 0, u_lo := 0x80, u_hi := 0xBF\<rparr> = ?f" by simp
  have init: "u8_lead_byte n ?f = (y, t) \<Longrightarrow> u_need t = 0 \<Longrightarrow> t = u8_initial" for n y t
    by (auto simp: u8_lead_byte_def u8_initial_def split: if_splits)
  obtain y t where y: "u8_lead_byte (unat b) ?f = (y, t)" by (cases "u8_lead_byte (unat b) ?f")
  consider (lead) "u_need s = 0" | (bad) "u_need s \<noteq> 0" "unat b < u_lo s \<or> u_hi s < unat b"
    | (cont) "u_need s \<noteq> 0" "\<not> (unat b < u_lo s \<or> u_hi s < unat b)" by blast
  then show ?thesis
  proof cases
    case lead
    then have "x = y" "s1 = t" using assms(1) y fresh by (simp_all add: u8_byte_def Let_def)
    then show ?thesis using u8_feed_lead [OF y] init [OF y] assms(2) [OF lead] by (simp add: u8_initial_def)
  next
    case bad
    then have x: "x = None # y" "s1 = t" using assms(1) y fresh by (simp_all add: u8_byte_def Let_def)
    have "u8 (u_need s) (u_cp s) (u_lo s) (u_hi s) (b # bs) = None # u8 0 0 0x80 0xBF (b # bs)"
      by (subst u8.simps(2)) (use bad in \<open>auto simp: Let_def\<close>)
    then show ?thesis using u8_feed_lead [OF y] init [OF y] x by simp
  next
    case cont
    then show ?thesis using assms(1) fresh
      by (subst u8.simps(2)) (auto simp: u8_byte_def Let_def u8_initial_def split: if_splits)
  qed
qed

lemma u8_feed_run:
  assumes "u8_feed bs s = (x, s1)" "u_need s = 0 \<Longrightarrow> s = u8_initial"
  shows "u8 (u_need s) (u_cp s) (u_lo s) (u_hi s) bs = x @ (if u_need s1 = 0 then [] else [None])"
  using assms
proof (induction bs arbitrary: s x)
  case Nil
  then show ?case by simp
next
  case (Cons b bs)
  obtain y t where b: "u8_byte b s = (y, t)" by (cases "u8_byte b s")
  obtain z where z: "u8_feed bs t = (z, s1)" "x = y @ z" using Cons.prems(1) b by (cases "u8_feed bs t") simp
  have "u_need t = 0 \<Longrightarrow> t = u8_initial" using u8_byte_run [OF b Cons.prems(2)] by blast
  from Cons.IH [OF z(1) this] u8_byte_run [OF b Cons.prems(2), of bs] z(2) show ?case by simp
qed

text \<open>Bytes that end at the end of a character are decoded in full.\<close>

lemma stream_decode_whole:
  assumes "well_formed s" "s = [] \<or> hd s \<noteq> 0xFEFF"
  shows "fst (stream_decode (utf8 s) \<lparr>sd_state = u8_initial, sd_started = False\<rparr>) = s"
proof -
  obtain xs t where x: "u8_feed (utf8 s) u8_initial = (xs, t)" by (cases "u8_feed (utf8 s) u8_initial")
  have "u8_start (utf8 s) = xs @ (if u_need t = 0 then [] else [None])"
    using u8_feed_run [OF x] by (simp add: u8_initial_def u8_start_def)
  moreover have "None \<notin> set (u8_start (utf8 s))" by (auto simp: u8_string)
  ultimately have "u8_start (utf8 s) = xs" by (auto split: if_splits)
  then show ?thesis
    using x utf8_decode_utf8 [OF assms] by (simp add: stream_decode_def stream_chars_def utf8_decode_def)
qed

text \<open>
  C16: The progress of a copy does not depend on how the network cuts the stream. For a successful
  request the reported events are those of the whole byte sequence: if it is the UTF-8 of a text,
  however it is cut (inside characters and lines too), exactly the data lines that
  are complete and parse as JSON are reported, in their order, followed by one failure event only
  when the stream fails; an aborted copy reports nothing more.
\<close>

theorem copy_stream_chunks:
  assumes "ae_send env (with_prod_confirm confirm
         ((request (js ''POST'') (js ''/api/v1/clusters/{cluster}/topics/{topic}/copy'') (in_topic cluster topic))\<lparr>ar_body := Some req\<rparr>)) = Inr r"
    and "stream r = Some (chunks, fin)" "concat chunks = utf8 text" "well_formed text" "text = [] \<or> hd text \<noteq> 0xFEFF"
  shows "copy_messages env stream cluster topic req confirm =
    concat (map (\<lambda>line. case ae_parse env (drop 6 line) of Some ev \<Rightarrow> [ev] | None \<Rightarrow> [])
      (filter (starts_with (js ''data: '')) (butlast (split_on 10 text)))) @
    (case fin of Stream_Failed m \<Rightarrow> [failed_event m] | _ \<Rightarrow> [])"
proof -
  have e: "concat (map (event_line parse) ls) =
      concat (map (\<lambda>line. case parse (drop 6 line) of Some ev \<Rightarrow> [ev] | None \<Rightarrow> []) (filter (starts_with (js ''data: '')) ls))" for parse ls
    by (induction ls) (auto simp: event_line_def)
  have "fst (copy_reader (ae_parse env) chunks copy_initial) = concat (map (event_line (ae_parse env)) (butlast (split_on 10 text)))"
  proof (cases "chunks = []")
    case True
    then have "utf8 text = utf8 []" using assms(3) by (simp add: utf8_def)
    then have "text = []" using utf8_inj [OF assms(4), of "[]"] by simp
    then show ?thesis using True by simp
  next
    case False
    then show ?thesis
      using copy_reader_concat [OF False, of "ae_parse env" copy_initial] stream_decode_whole [OF assms(4,5)]
      by (simp add: assms(3) copy_chunk_def copy_initial_def Let_def split: prod.splits)
  qed
  then show ?thesis using assms(1,2) by (simp add: copy_messages_def e)
qed

definition sample_stream :: "http_response \<Rightarrow> (byte list list \<times> stream_end) option" where
  "sample_stream _ = Some ([utf8 (js ''data''), utf8 (js '': 1''), utf8 [10]], Stream_Done)"

theorem copy_stream_chunks_witness:
  "copy_messages (sample_env\<lparr>ae_parse := \<lambda>t. Some (JsString t)\<rparr>) sample_stream (js ''c'') (js ''t'') JsNull False = [JsString (js ''1'')]"
proof -
  let ?t = "js ''data: 1'' @ [10]"
  have a: "\<forall>c \<in> set ?t. unat c < 128" by (simp add: js_def)
  have "concat [utf8 (js ''data''), utf8 (js '': 1''), utf8 [10]] = utf8 ?t"
    by (simp add: js_def utf8_ascii)
  moreover have "well_formed ?t" using scalars_ascii [OF a] by simp
  moreover have "hd ?t \<noteq> 0xFEFF" by (simp add: js_def)
  ultimately have "copy_messages (sample_env\<lparr>ae_parse := \<lambda>t. Some (JsString t)\<rparr>) sample_stream (js ''c'') (js ''t'') JsNull False =
      concat (map (\<lambda>line. [JsString (drop 6 line)]) (filter (starts_with (js ''data: '')) (butlast (split_on 10 ?t))))"
    by (subst copy_stream_chunks [of _ _ _ _ _ _ sample_stream "[utf8 (js ''data''), utf8 (js '': 1''), utf8 [10]]" Stream_Done ?t])
      (simp_all only: sample_stream_def, simp_all add: sample_env_def)
  also have "split_on 10 ?t = [js ''data: 1'', []]" by (simp add: js_def)
  finally show ?thesis by (simp add: starts_with_def js_def)
qed

end
