(* ===== verification/ClusterSwitcher.thy ===== *)
theory ClusterSwitcher
  imports ApiClient ClusterStoreProps
begin

text \<open>
  The cluster list and the active cluster (\<open>frontend/src/lib/use-cluster.ts\<close>), the target of a cluster
  switch (\<open>cluster-switch.ts\<close>) and the last cluster kept for the root route (\<open>last-cluster.ts\<close>). The
  hooks are functions of what they read: the loaded shared clusters, the store of private clusters,
  the signed-in user's access, the URL and localStorage.
\<close>

section \<open>Clusters\<close>

datatype connection_error_class = Ce_Refused | Ce_Timeout | Ce_Dns | Ce_Tls | Ce_Sasl | Ce_Blocked | Ce_Unreachable

datatype broker_issue_reason = Issue_Blocked | Issue_Unreachable

record broker_issue =
  bi_node_id :: int
  bi_host :: jstr
  bi_port :: int
  bi_reason :: broker_issue_reason
  bi_error :: jstr
  bi_error_class :: connection_error_class

record capabilities =
  ca_describe_cluster :: bool
  ca_list_topics :: bool
  ca_describe_configs :: bool
  ca_list_groups :: bool
  ca_create_topic :: bool
  ca_delete_topic :: bool
  ca_alter_configs :: bool
  ca_errors :: "(jstr, jstr) jsmap option"
  ca_probed_at :: jstr

text \<open>A rate is not looked at here and stays a JSON number.\<close>

record cluster_info =
  cl_name :: jstr
  cl_reachable :: bool
  cl_error :: "jstr option"
  cl_error_class :: "connection_error_class option"
  cl_is_prod :: bool
  cl_auth_type :: jstr
  cl_tls :: bool
  cl_schema_registry :: bool
  cl_capabilities :: "capabilities option"
  cl_broker_issues :: "broker_issue list option"
  cl_brokers_skipped :: "int option"
  cl_brokers :: "int option"
  cl_topics :: "int option"
  cl_groups :: "int option"
  cl_total_messages :: "int option"
  cl_total_lag :: "int option"
  cl_total_rate :: "json option"

datatype cluster_source = Shared | Private

record cluster_list_item = cluster_info +
  li_source :: cluster_source
  li_id :: "jstr option"

text \<open>\<open>None\<close> is the exception for a stored definition without \<open>tls\<close>.\<close>

definition private_to_list_item :: "private_cluster \<Rightarrow> cluster_list_item option" where
  "private_to_list_item p =
     (case ci_tls p of
        None \<Rightarrow> None
      | Some tls \<Rightarrow> Some \<lparr>cl_name = ci_name p, cl_reachable = True, cl_error = None, cl_error_class = None,
          cl_is_prod = isTrue (ci_is_prod p), cl_auth_type = au_type (ci_auth p), cl_tls = tls_enabled tls,
          cl_schema_registry = (case ci_registry p of None \<Rightarrow> False | Some sr \<Rightarrow> nonempty (sr_url sr) \<noteq> None),
          cl_capabilities = None, cl_broker_issues = None, cl_brokers_skipped = None, cl_brokers = None, cl_topics = None,
          cl_groups = None, cl_total_messages = None, cl_total_lag = None, cl_total_rate = None,
          li_source = Private, li_id = Some (pc_id p)\<rparr>)"

definition shared_to_list_item :: "cluster_info \<Rightarrow> cluster_list_item" where
  "shared_to_list_item c = cluster_info.extend c \<lparr>li_source = Shared, li_id = None\<rparr>"

section \<open>The list\<close>

datatype private_clusters_mode = Mode_On | Mode_Off | Mode_Role

record private_clusters_status =
  ps_mode :: private_clusters_mode
  ps_allowed :: bool

text \<open>\<open>usePrivateClusterAccess\<close>: allowed until the server says otherwise.\<close>

definition private_allowed :: "private_clusters_status option \<Rightarrow> bool" where
  "private_allowed status \<longleftrightarrow> map_option ps_allowed status \<noteq> Some False"

text \<open>
  The merged list; the outer \<open>None\<close> is an exception, \<open>Some None\<close> means that nothing has loaded. A shared cluster
  wins over a private one of its name.
\<close>

definition merged_clusters :: "cluster_info list option \<Rightarrow> bool \<Rightarrow> private_cluster list \<Rightarrow> cluster_list_item list option option" where
  "merged_clusters loaded allowed privates =
     (case (if allowed then those (map private_to_list_item privates) else Some []) of
        None \<Rightarrow> None
      | Some priv \<Rightarrow>
          let shared = map shared_to_list_item (opt_or loaded []);
              seen = map cl_name shared;
              merged = shared @ filter (\<lambda>c. cl_name c \<notin> set seen) priv
          in Some (if loaded = None \<and> priv = [] then None else Some merged))"

definition default_cluster :: "cluster_list_item list option \<Rightarrow> jstr option" where
  "default_cluster clusters =
     (case clusters of
        None \<Rightarrow> None
      | Some [] \<Rightarrow> None
      | Some (c # cs) \<Rightarrow> (case find cl_reachable (c # cs) of Some r \<Rightarrow> Some (cl_name r) | None \<Rightarrow> Some (cl_name c)))"

definition known_cluster :: "cluster_list_item list option \<Rightarrow> jstr option \<Rightarrow> bool" where
  "known_cluster clusters name =
     (case (nonempty name, clusters) of (Some n, Some cs) \<Rightarrow> list_ex (\<lambda>c. cl_name c = n) cs | _ \<Rightarrow> False)"

text \<open>The active cluster: the one of the URL, else the stored one, else the default.\<close>

definition active_cluster :: "cluster_list_item list option \<Rightarrow> jstr option \<Rightarrow> jstr option \<Rightarrow> jstr option" where
  "active_cluster clusters from_url stored =
     (if nonempty from_url \<noteq> None \<and> known_cluster clusters from_url then from_url
      else if known_cluster clusters stored then stored
      else default_cluster clusters)"

definition is_unknown_cluster :: "cluster_list_item list option \<Rightarrow> jstr option \<Rightarrow> bool" where
  "is_unknown_cluster clusters from_url \<longleftrightarrow> nonempty from_url \<noteq> None \<and> clusters \<noteq> None \<and> \<not> known_cluster clusters from_url"

section \<open>Storage and switching\<close>

text \<open>One key of localStorage: \<open>ok\<close> is whether writing works, an unreadable one reads as absent.\<close>

record local_value =
  lv_readable :: bool
  lv_value :: "jstr option"

definition read_stored :: "local_value \<Rightarrow> jstr option" where
  "read_stored v = (if lv_readable v then lv_value v else None)"

definition write_stored :: "bool \<Rightarrow> jstr \<Rightarrow> local_value \<Rightarrow> local_value" where
  "write_stored ok name v = (if ok then v\<lparr>lv_value := Some name\<rparr> else v)"

text \<open>The effect that persists the active cluster; \<open>stored\<close> is the state of the hook.\<close>

definition persist_active :: "bool \<Rightarrow> jstr option \<Rightarrow> jstr option \<Rightarrow> local_value \<Rightarrow> local_value" where
  "persist_active ok active stored v =
     (case nonempty active of None \<Rightarrow> v | Some c \<Rightarrow> if Some c \<noteq> stored then write_stored ok c v else v)"

text \<open>Whether a storage event of another tab makes the hook read again; \<open>None\<close> is a cleared storage.\<close>

definition storage_event_matters :: "jstr option \<Rightarrow> bool" where
  "storage_event_matters key = (case key of None \<Rightarrow> True | Some k \<Rightarrow> starts_with (js ''kafkito.'') k)"

definition path_segments :: "jstr \<Rightarrow> jstr list" where
  "path_segments p = filter (\<lambda>s. s \<noteq> []) (split_on 47 p)"

definition nth_or_empty :: "jstr list \<Rightarrow> nat \<Rightarrow> jstr" where
  "nth_or_empty xs i = (if i < length xs then xs ! i else [])"

definition compute_switch_target :: "jstr \<Rightarrow> jstr \<Rightarrow> jstr" where
  "compute_switch_target current_path new_name =
     (let segments = path_segments current_path;
          section = nth_or_empty segments 2;
          encoded = encode_uri_component new_name;
          base = js ''/clusters/'' @ encoded
      in if section = [] then base
         else if section = js ''security'' \<and> nth_or_empty segments 3 \<noteq> [] then base @ js ''/security/'' @ nth_or_empty segments 3
         else base @ js ''/'' @ section)"

text \<open>\<open>setCluster\<close>: what is stored and where the app goes.\<close>

definition set_cluster :: "bool \<Rightarrow> jstr \<Rightarrow> jstr \<Rightarrow> local_value \<Rightarrow> local_value \<times> jstr" where
  "set_cluster ok current_path name v = (write_stored ok name v, compute_switch_target current_path name)"

text \<open>\<open>last-cluster.ts\<close> keeps another key the same way.\<close>

definition get_last_cluster :: "local_value \<Rightarrow> jstr option" where
  "get_last_cluster v = (if lv_readable v then lv_value v else None)"

definition set_last_cluster :: "bool \<Rightarrow> jstr \<Rightarrow> local_value \<Rightarrow> local_value" where
  "set_last_cluster ok name v = (if ok then v\<lparr>lv_value := Some name\<rparr> else v)"

definition clear_last_cluster :: "bool \<Rightarrow> local_value \<Rightarrow> local_value" where
  "clear_last_cluster ok v = (if ok then v\<lparr>lv_value := None\<rparr> else v)"

section \<open>Lemmas\<close>

lemma default_known: "default_cluster clusters = Some n \<Longrightarrow> \<exists>cs c. clusters = Some cs \<and> c \<in> set cs \<and> cl_name c = n"
  by (auto simp: default_cluster_def find_Some_iff split: option.splits list.splits if_splits) (metis nth_mem length_Cons)+

lemma known_mem: "known_cluster clusters name \<Longrightarrow> \<exists>cs c. clusters = Some cs \<and> c \<in> set cs \<and> Some (cl_name c) = name"
  by (auto simp: known_cluster_def nonempty_def list_ex_iff split: option.splits if_splits)

text \<open>The active cluster is always one of the list, so an unknown name in the URL never becomes active.\<close>

lemma active_listed: "active_cluster clusters from_url stored = Some n \<Longrightarrow> \<exists>cs c. clusters = Some cs \<and> c \<in> set cs \<and> cl_name c = n"
  using default_known known_mem unfolding active_cluster_def by (metis option.inject)

text \<open>A switch lands on the section it came from: the segments of the target, decoded.\<close>

lemma encoded_nonempty: "well_formed n \<Longrightarrow> n \<noteq> [] \<Longrightarrow> encode_uri_component n \<noteq> []"
  using pct_decode_uri [of n] utf8_inj [of n "[]"] by (auto simp: utf8_def)

lemma split_segment: "47 \<notin> set s \<Longrightarrow> path_segments (47 # s) = (if s = [] then [] else [s])"
    "47 \<notin> set s \<Longrightarrow> path_segments (47 # s @ 47 # t) = (if s = [] then [] else [s]) @ path_segments (47 # t)"
  by (simp_all add: path_segments_def split_on_none split_on_append)

lemma switch_target_segments:
  assumes "well_formed n" "n \<noteq> []"
  shows "path_segments (compute_switch_target p n) =
    [js ''clusters'', encode_uri_component n] @
      (let ss = path_segments p in
       if length ss \<le> 2 then [] else if ss ! 2 = js ''security'' \<and> 3 < length ss then [ss ! 2, ss ! 3] else [ss ! 2])"
proof -
  have part: "47 \<notin> set s \<and> s \<noteq> []" if "s \<in> set (path_segments p)" for s
    using that split_on_parts [of s 47 p] by (auto simp: path_segments_def)
  have e: "47 \<notin> set (encode_uri_component n)" "encode_uri_component n \<noteq> []"
    using uri_chars [of 47 n] encoded_nonempty [OF assms] by auto
  have l: "js ''/clusters/'' = 47 # js ''clusters'' @ [47]" "js ''/security/'' = 47 # js ''security'' @ [47]" "js ''/'' = [47]"
    "47 \<notin> set (js ''clusters'')" "47 \<notin> set (js ''security'')" by (simp_all add: js_def)
  let ?ss = "path_segments p"
  have base: "path_segments (js ''/clusters/'' @ encode_uri_component n) = [js ''clusters'', encode_uri_component n]"
    "\<And>t. path_segments (js ''/clusters/'' @ encode_uri_component n @ 47 # t) = [js ''clusters'', encode_uri_component n] @ path_segments (47 # t)"
    using e l split_segment by simp_all
  consider (short) "length ?ss \<le> 2" | (sec) "3 < length ?ss" "?ss ! 2 = js ''security''"
    | (one) "2 < length ?ss" "\<not> (?ss ! 2 = js ''security'' \<and> 3 < length ?ss)" by linarith
  then show ?thesis
  proof cases
    case short
    then show ?thesis using base(1) by (simp add: compute_switch_target_def nth_or_empty_def)
  next
    case sec
    then have "47 \<notin> set (?ss ! 3) \<and> ?ss ! 3 \<noteq> []" using part [of "?ss ! 3"] by simp
    then show ?thesis using sec l base(2) [of "js ''security'' @ 47 # ?ss ! 3"] split_segment
      by (simp add: compute_switch_target_def nth_or_empty_def)
  next
    case one
    then have "47 \<notin> set (?ss ! 2) \<and> ?ss ! 2 \<noteq> []" using part [of "?ss ! 2"] by simp
    then show ?thesis using one l base(2) [of "?ss ! 2"] split_segment
      by (auto simp: compute_switch_target_def nth_or_empty_def)
  qed
qed


section \<open>A name shared by two clusters\<close>

text \<open>
  C35: The switcher and the API client resolve a clashing name differently. When a private cluster
  has the name of a shared one, every entry of the list with that name is the shared cluster (with
  its production flag), and selecting it or opening its URL makes it the active cluster; yet
  every request made for that name goes to the private cluster, with its definition.
\<close>

theorem name_clash_reaches_private:
  assumes "merged_clusters (Some shared) allowed (list_private_clusters st) = Some (Some items)"
    and "sc \<in> set shared" "cl_name sc = n" "n \<noteq> []" "get_private_cluster_by_name st n = Some c"
    and "mget (ar_path req) (js ''cluster'') = Some n"
  shows "(\<forall>it \<in> set items. cl_name it = n \<longrightarrow> li_source it = Shared \<and> (\<exists>x \<in> set shared. cl_name x = n \<and> cl_is_prod it = cl_is_prod x)) \<and>
    active_cluster (Some items) (Some n) stored = Some n \<and>
    mget (path_params st (ar_path req)) (js ''cluster'') = Some private_cluster_sentinel \<and>
    (\<forall>wire. client_request lib st req = Inr wire \<longrightarrow>
      (\<exists>v. encode_private_cluster_header c = Inr v \<and> get_header (hr_headers wire) cluster_header = Some v))"
proof -
  have sh: "cl_name (shared_to_list_item x) = cl_name x \<and> li_source (shared_to_list_item x) = Shared \<and>
      cl_is_prod (shared_to_list_item x) = cl_is_prod x" for x
    by (simp add: shared_to_list_item_def cluster_info.defs)
  obtain priv where items: "items = map shared_to_list_item shared @
      filter (\<lambda>c. cl_name c \<notin> set (map cl_name (map shared_to_list_item shared))) priv"
  proof (cases "if allowed then those (map private_to_list_item (list_private_clusters st)) else Some []")
    case None
    then show ?thesis using assms(1) by (simp add: merged_clusters_def)
  next
    case (Some priv)
    then show ?thesis using assms(1) that [of priv] by (simp add: merged_clusters_def Let_def image_image)
  qed
  have n: "n \<in> set (map cl_name (map shared_to_list_item shared))" using assms(2,3) sh by force
  have "li_source it = Shared \<and> (\<exists>x \<in> set shared. cl_name x = n \<and> cl_is_prod it = cl_is_prod x)" if "it \<in> set items" "cl_name it = n" for it
    using that items n sh by auto
  moreover have "known_cluster (Some items) (Some n)"
    using n items assms(4) by (force simp: known_cluster_def nonempty_def list_ex_iff)
  then have "active_cluster (Some items) (Some n) stored = Some n"
    using assms(4) by (simp add: active_cluster_def nonempty_def)
  moreover have p: "path_private_cluster st (ar_path req) = Some c" using assms(5,6) by (simp add: path_private_cluster_def)
  moreover have "\<exists>v. encode_private_cluster_header c = Inr v \<and> get_header (hr_headers wire) cluster_header = Some v"
    if "client_request lib st req = Inr wire" for wire
    using that p by (auto simp: client_request_def on_request_def bindE_Inr get_set_header)
  ultimately show ?thesis by (simp add: path_params_def map_simps)
qed

definition clash_private :: private_cluster where
  "clash_private = \<lparr>ci_name = js ''prod'', ci_is_prod = None, ci_brokers = [js ''b:9092''],
     ci_auth = \<lparr>au_type = js ''none'', au_username = None, au_password = None\<rparr>, ci_tls = Some \<lparr>tls_enabled = False, tls_insecure = None\<rparr>,
     ci_registry = None, ci_remember = None, pc_id = js ''i'', pc_created = Some (JsInt 0), pc_updated = Some (JsInt 0)\<rparr>"

definition clash_store :: store where
  "clash_store = \<lparr>st_stored = Stored (JsArray (map cluster_json [clash_private])), st_session = [], st_events = 0\<rparr>"

definition clash_shared :: cluster_info where
  "clash_shared = \<lparr>cl_name = js ''prod'', cl_reachable = True, cl_error = None, cl_error_class = None, cl_is_prod = True, cl_auth_type = js ''none'',
     cl_tls = False, cl_schema_registry = False, cl_capabilities = None, cl_broker_issues = None, cl_brokers_skipped = None, cl_brokers = None,
     cl_topics = None, cl_groups = None, cl_total_messages = None, cl_total_lag = None, cl_total_rate = None\<rparr>"

definition clash_request :: api_request where
  "clash_request = \<lparr>ar_method = js ''GET'', ar_template = js ''{cluster}'', ar_path = [(js ''cluster'', js ''prod'')], ar_query = [], ar_headers = [],
     ar_body = None, ar_serialized = None, ar_prod_confirmed = False\<rparr>"

text \<open>The shared cluster is a production cluster, the private one is not; its request goes out with the private definition.\<close>

theorem name_clash_reaches_private_witness:
  "\<exists>items wire. merged_clusters (Some [clash_shared]) True (list_private_clusters clash_store) = Some (Some items) \<and>
     (\<forall>it \<in> set items. cl_is_prod it) \<and> ci_is_prod clash_private = None \<and>
     client_request plain_fetch clash_store clash_request = Inr wire \<and> get_header (hr_headers wire) cluster_header \<noteq> None"
proof -
  have v: "read_all clash_store = [clash_private]"
    using safe_read_items [of "[clash_private]"] by (simp add: read_all_def clash_store_def no_session)
  have g: "get_private_cluster_by_name clash_store (js ''prod'') = Some clash_private"
    by (simp add: get_private_cluster_by_name_def v clash_private_def)
  obtain it where it: "private_to_list_item clash_private = Some it" "cl_name it = js ''prod''"
    by (simp add: private_to_list_item_def clash_private_def)
  have m: "merged_clusters (Some [clash_shared]) True (list_private_clusters clash_store) = Some (Some [shared_to_list_item clash_shared])"
    using it by (simp add: merged_clusters_def list_private_clusters_def v Let_def shared_to_list_item_def cluster_info.defs clash_shared_def)
  have "\<not> needs_passwords clash_private"
    by (simp add: needs_passwords_def missing_passwords_def clash_private_def remembers_credentials_def)
  then obtain wire where w: "client_request plain_fetch clash_store clash_request = Inr wire"
    using g by (auto simp: client_request_def on_request_def path_private_cluster_def clash_request_def encode_private_cluster_header_def
        to_backend_config_def clash_private_def)
  show ?thesis
    using name_clash_reaches_private [OF m, of clash_shared "js ''prod''" clash_private clash_request None plain_fetch] w m g
    by (auto simp: clash_shared_def clash_request_def shared_to_list_item_def cluster_info.defs clash_private_def)
qed

end
