(* ===== verification/Topics.thy ===== *)
theory Topics
  imports Json Message Complex_Main
begin

text \<open>
  The topic list: filters and summary (\<open>frontend/src/features/topics/topic-filters.ts\<close>), its URL state
  (\<open>topic-list-params.ts\<close>), and the partition bounds of the message browser (\<open>features/messages/browse-params.ts\<close>).
  \<open>localeCompare\<close> is a parameter, the order of names it defines. Counts and times are integers, a rate is a rational number.
\<close>

section \<open>Topics and partitions\<close>

record topic_info =
  ti_name :: jstr
  ti_partitions :: int
  ti_replication_factor :: int
  ti_is_internal :: bool
  ti_messages :: "int option"
  ti_size_bytes :: "int option"
  ti_retention_ms :: "int option"
  ti_rate_per_sec :: "rat option"
  ti_lag :: "int option"

record partition_info =
  pi_partition :: int
  pi_leader :: int
  pi_replicas :: "int list"
  pi_isr :: "int list"
  pi_start_offset :: int
  pi_end_offset :: int
  pi_messages :: int

section \<open>Filters\<close>

definition hour_ms :: int where
  "hour_ms = 3600000"

definition day_ms :: int where
  "day_ms = 24 * hour_ms"

definition idle_rate :: rat where
  "idle_rate = 1 / 10"

datatype partition_bucket = Pb_1 | Pb_2_10 | Pb_gt10

datatype retention_bucket = Rb_le1d | Rb_le7d | Rb_gt7d | Rb_infinite | Rb_unknown

record topic_filters =
  tf_show_internal :: "bool option"
  tf_partitions :: "partition_bucket option"
  tf_retention :: "retention_bucket option"

fun matches_partitions :: "topic_info \<Rightarrow> partition_bucket option \<Rightarrow> bool" where
  "matches_partitions t None \<longleftrightarrow> True"
| "matches_partitions t (Some Pb_1) \<longleftrightarrow> ti_partitions t = 1"
| "matches_partitions t (Some Pb_2_10) \<longleftrightarrow> 2 \<le> ti_partitions t \<and> ti_partitions t \<le> 10"
| "matches_partitions t (Some Pb_gt10) \<longleftrightarrow> 10 < ti_partitions t"

definition matches_retention :: "topic_info \<Rightarrow> retention_bucket option \<Rightarrow> bool" where
  "matches_retention t bucket =
     (case bucket of
        None \<Rightarrow> True
      | Some b \<Rightarrow> if b = Rb_unknown then ti_retention_ms t = None
          else (case ti_retention_ms t of
            None \<Rightarrow> False
          | Some ms \<Rightarrow>
              if b = Rb_infinite then ms < 0
              else if ms < 0 then False
              else (case b of Rb_le1d \<Rightarrow> ms \<le> day_ms | Rb_le7d \<Rightarrow> ms \<le> 7 * day_ms | _ \<Rightarrow> 7 * day_ms < ms)))"

definition filter_topics :: "(jstr \<Rightarrow> jstr \<Rightarrow> bool) \<Rightarrow> topic_info list \<Rightarrow> topic_filters \<Rightarrow> topic_info list" where
  "filter_topics le topics f =
     sort_by (\<lambda>a b. le (ti_name a) (ti_name b))
       (filter (\<lambda>t. (isTrue (tf_show_internal f) \<or> \<not> ti_is_internal t) \<and> matches_partitions t (tf_partitions f) \<and>
          matches_retention t (tf_retention f)) topics)"

definition has_known_retention :: "topic_info list \<Rightarrow> bool" where
  "has_known_retention topics = list_ex (\<lambda>t. ti_retention_ms t \<noteq> None) topics"

section \<open>Summary\<close>

record topic_summary =
  su_topics :: nat
  su_partitions :: int
  su_size_bytes :: "int option"
  su_largest :: "jstr option"
  su_rate_per_sec :: "rat option"
  su_idle :: nat

text \<open>The variables of the loop; the largest topic with its size.\<close>

record summary_state =
  sm_partitions :: int
  sm_size :: "int option"
  sm_largest :: "topic_info option"
  sm_rate :: "rat option"
  sm_idle :: nat

definition summary_size :: "topic_info \<Rightarrow> summary_state \<Rightarrow> summary_state" where
  "summary_size t s =
     (case ti_size_bytes t of
        None \<Rightarrow> s
      | Some n \<Rightarrow> s\<lparr>sm_size := Some (opt_or (sm_size s) 0 + n),
          sm_largest := (case sm_largest s of None \<Rightarrow> Some t
            | Some l \<Rightarrow> if opt_or (ti_size_bytes l) 0 < n then Some t else Some l)\<rparr>)"

definition summary_rate :: "topic_info \<Rightarrow> summary_state \<Rightarrow> summary_state" where
  "summary_rate t s =
     (case ti_rate_per_sec t of
        None \<Rightarrow> s
      | Some r \<Rightarrow> s\<lparr>sm_rate := Some (opt_or (sm_rate s) 0 + r), sm_idle := (if r < idle_rate then Suc (sm_idle s) else sm_idle s)\<rparr>)"

fun summarize_from :: "topic_info list \<Rightarrow> summary_state \<Rightarrow> summary_state" where
  "summarize_from [] s = s"
| "summarize_from (t # ts) s =
     summarize_from ts (summary_rate t (summary_size t (s\<lparr>sm_partitions := sm_partitions s + ti_partitions t\<rparr>)))"

definition summarize_topics :: "topic_info list \<Rightarrow> topic_summary" where
  "summarize_topics topics =
     (let s = summarize_from topics \<lparr>sm_partitions = 0, sm_size = None, sm_largest = None, sm_rate = None, sm_idle = 0\<rparr>
      in \<lparr>su_topics = length topics, su_partitions = sm_partitions s, su_size_bytes = sm_size s,
           su_largest = map_option ti_name (sm_largest s), su_rate_per_sec = sm_rate s, su_idle = sm_idle s\<rparr>)"

section \<open>URL state of the list\<close>

datatype topic_sort_key = Ts_name | Ts_partitions | Ts_rf | Ts_messages | Ts_size | Ts_rate | Ts_lag | Ts_retention

datatype sort_dir = Asc | Desc

record topic_list_search =
  tl_q :: "jstr option"
  tl_internal :: "bool option"
  tl_partitions :: "partition_bucket option"
  tl_retention :: "retention_bucket option"
  tl_sort :: "topic_sort_key option"
  tl_dir :: "sort_dir option"

definition partition_buckets :: "(jstr \<times> partition_bucket) list" where
  "partition_buckets = [(js ''1'', Pb_1), (js ''2-10'', Pb_2_10), (js ''gt10'', Pb_gt10)]"

definition retention_buckets :: "(jstr \<times> retention_bucket) list" where
  "retention_buckets = [(js ''le1d'', Rb_le1d), (js ''le7d'', Rb_le7d), (js ''gt7d'', Rb_gt7d), (js ''infinite'', Rb_infinite), (js ''unknown'', Rb_unknown)]"

definition topic_sort_keys :: "(jstr \<times> topic_sort_key) list" where
  "topic_sort_keys = [(js ''name'', Ts_name), (js ''partitions'', Ts_partitions), (js ''rf'', Ts_rf), (js ''messages'', Ts_messages),
     (js ''size'', Ts_size), (js ''rate'', Ts_rate), (js ''lag'', Ts_lag), (js ''retention'', Ts_retention)]"

definition sort_dirs :: "(jstr \<times> sort_dir) list" where
  "sort_dirs = [(js ''asc'', Asc), (js ''desc'', Desc)]"

text \<open>\<open>oneOf\<close>: the member of an enumeration a value names, if it does.\<close>

definition one_of :: "(jstr \<times> 'a) list \<Rightarrow> json option \<Rightarrow> 'a option" where
  "one_of values v = (case as_string v of None \<Rightarrow> None | Some s \<Rightarrow> mget values s)"

definition search_text :: "json option \<Rightarrow> jstr" where
  "search_text v = (case v of Some (JsString s) \<Rightarrow> s | Some (JsInt i) \<Rightarrow> dec_int i | Some (JsFrac l) \<Rightarrow> l | _ \<Rightarrow> [])"

text \<open>The parsed search; the argument is the object of search values the router parsed.\<close>

definition parse_topic_list_search :: "json \<Rightarrow> topic_list_search" where
  "parse_topic_list_search s =
     (let q = search_text (jprop (js ''q'') s);
          sort = one_of topic_sort_keys (jprop (js ''sort'') s);
          dir = one_of sort_dirs (jprop (js ''dir'') s)
      in \<lparr>tl_q = (if q = [] then None else Some q),
           tl_internal = (if jprop (js ''internal'') s = Some (JsBool True) \<or> jprop (js ''internal'') s = Some (JsString (js ''true''))
             then Some True else None),
           tl_partitions = one_of partition_buckets (jprop (js ''partitions'') s),
           tl_retention = one_of retention_buckets (jprop (js ''retention'') s),
           tl_sort = sort,
           tl_dir = (case sort of None \<Rightarrow> None | Some _ \<Rightarrow> Some (opt_or dir Asc))\<rparr>)"

text \<open>The object the router writes into the URL: the defined members, enumeration values by their names.\<close>

definition name_in :: "(jstr \<times> 'a) list \<Rightarrow> 'a \<Rightarrow> jstr" where
  "name_in values x = (case find (\<lambda>(_, y). y = x) values of Some (s, _) \<Rightarrow> s | None \<Rightarrow> [])"

definition topic_list_search_json :: "topic_list_search \<Rightarrow> json" where
  "topic_list_search_json s = JsObject (members
     [(js ''q'', map_option JsString (tl_q s)), (js ''internal'', map_option JsBool (tl_internal s)),
      (js ''partitions'', map_option (JsString \<circ> name_in partition_buckets) (tl_partitions s)),
      (js ''retention'', map_option (JsString \<circ> name_in retention_buckets) (tl_retention s)),
      (js ''sort'', map_option (JsString \<circ> name_in topic_sort_keys) (tl_sort s)),
      (js ''dir'', map_option (JsString \<circ> name_in sort_dirs) (tl_dir s))])"

section \<open>Browse parameters\<close>

datatype browse_from = From_End | From_Start | From_Offset

record offset_bounds =
  ob_min :: int
  ob_max :: int

fun min_list :: "int \<Rightarrow> int list \<Rightarrow> int" where
  "min_list m [] = m"
| "min_list m (x # xs) = min_list (min m x) xs"

fun max_list :: "int \<Rightarrow> int list \<Rightarrow> int" where
  "max_list m [] = m"
| "max_list m (x # xs) = max_list (max m x) xs"

definition offset_bounds_for :: "partition_info list \<Rightarrow> int \<Rightarrow> offset_bounds option" where
  "offset_bounds_for partitions p =
     (case (if 0 \<le> p then filter (\<lambda>x. pi_partition x = p) partitions else partitions) of
        [] \<Rightarrow> None
      | x # xs \<Rightarrow>
          let lo = min_list (pi_start_offset x) (map pi_start_offset xs);
              hi = max_list (pi_end_offset x) (map pi_end_offset xs)
          in Some \<lparr>ob_min = lo, ob_max = max lo (hi - 1)\<rparr>)"

text \<open>\<open>Number(raw)\<close> is an argument: \<open>None\<close> when it is not finite.\<close>

definition clamp_offset :: "rat option \<Rightarrow> offset_bounds option \<Rightarrow> int" where
  "clamp_offset parsed bounds =
     (let n = (case parsed of Some x \<Rightarrow> if 0 \<le> x then \<lfloor>x\<rfloor> else 0 | None \<Rightarrow> 0)
      in case bounds of None \<Rightarrow> n | Some b \<Rightarrow> min (max n (ob_min b)) (ob_max b))"

definition clamp_limit :: "rat option \<Rightarrow> int" where
  "clamp_limit parsed =
     (let n = (case parsed of Some x \<Rightarrow> if 1 \<le> x then \<lfloor>x\<rfloor> else 50 | None \<Rightarrow> 50) in if 500 < n then 500 else n)"

section \<open>Lemmas\<close>

lemma min_list_le: "min_list m xs \<le> m \<and> (\<forall>x \<in> set xs. min_list m xs \<le> x) \<and> (min_list m xs = m \<or> min_list m xs \<in> set xs)"
  by (induction m xs rule: min_list.induct) (auto simp: min_def split: if_splits)

lemma max_list_ge: "m \<le> max_list m xs \<and> (\<forall>x \<in> set xs. x \<le> max_list m xs)"
  by (induction m xs rule: max_list.induct) (auto simp: max_def split: if_splits)

lemma clamp_limit_range: "1 \<le> clamp_limit p \<and> clamp_limit p \<le> 500"
  by (auto simp: clamp_limit_def Let_def le_floor_iff split: option.splits)

lemma bounds_nonempty: "offset_bounds_for ps p = Some b \<Longrightarrow> ob_min b \<le> ob_max b"
  by (auto simp: offset_bounds_for_def Let_def split: list.splits)

lemma clamp_offset_range: "offset_bounds_for ps p = Some b \<Longrightarrow> ob_min b \<le> clamp_offset x (Some b) \<and> clamp_offset x (Some b) \<le> ob_max b"
  using bounds_nonempty by (fastforce simp: clamp_offset_def Let_def)

text \<open>Every known retention is in exactly one of the buckets that split the axis.\<close>

lemma retention_partition:
  "matches_retention t (Some Rb_unknown) \<or> matches_retention t (Some Rb_infinite) \<or> matches_retention t (Some Rb_le7d) \<or> matches_retention t (Some Rb_gt7d)"
  "matches_retention t (Some Rb_le1d) \<Longrightarrow> matches_retention t (Some Rb_le7d)"
  "\<not> (matches_retention t (Some Rb_le7d) \<and> matches_retention t (Some Rb_gt7d))"
  by (auto simp: matches_retention_def day_ms_def hour_ms_def split: option.splits)

end
