(* ===== verification/UrlState.thy ===== *)
theory UrlState
  imports Topics MessageCompare
begin

text \<open>
  The typed URL state of the pages: what their \<open>validateSearch\<close> makes of the object of search values the router
  parsed from a URL anyone can type. The compare page (\<open>frontend/src/features/messages/compare/compare-search.ts\<close>),
  the message browser, the timeline, the cluster and the group list (their routes), and the schema
  page's values (\<open>lib/schema-version.ts\<close>).
\<close>

section \<open>The compare page\<close>

datatype compare_view = View_Exact | View_Semantic

text \<open>The members that are only ever \<open>true\<close> are booleans: present or not.\<close>

record compare_search =
  cs_a :: "jstr option"
  cs_b :: "jstr option"
  cs_exact :: bool
  cs_any_array_order :: bool
  cs_any_element_order :: bool
  cs_kafkito_headers :: bool
  cs_only_diff :: bool

definition trimmed_text :: "json option \<Rightarrow> jstr option" where
  "trimmed_text v = (case as_string v of None \<Rightarrow> None | Some t \<Rightarrow> if trim t = [] then None else Some (trim t))"

definition is_true :: "json option \<Rightarrow> bool" where
  "is_true v \<longleftrightarrow> v = Some (JsBool True)"

definition parse_compare_search :: "json \<Rightarrow> compare_search" where
  "parse_compare_search s =
     \<lparr>cs_a = trimmed_text (jprop (js ''a'') s), cs_b = trimmed_text (jprop (js ''b'') s),
      cs_exact = (jprop (js ''view'') s = Some (JsString (js ''exact''))),
      cs_any_array_order = is_true (jprop (js ''anyArrayOrder'') s), cs_any_element_order = is_true (jprop (js ''anyElementOrder'') s),
      cs_kafkito_headers = is_true (jprop (js ''kafkitoHeaders'') s), cs_only_diff = is_true (jprop (js ''onlyDiff'') s)\<rparr>"

definition when_true :: "bool \<Rightarrow> json option" where
  "when_true b = (if b then Some (JsBool True) else None)"

definition compare_search_json :: "compare_search \<Rightarrow> json" where
  "compare_search_json s = JsObject (members
     [(js ''a'', map_option JsString (cs_a s)), (js ''b'', map_option JsString (cs_b s)),
      (js ''view'', if cs_exact s then Some (JsString (js ''exact'')) else None),
      (js ''anyArrayOrder'', when_true (cs_any_array_order s)), (js ''anyElementOrder'', when_true (cs_any_element_order s)),
      (js ''kafkitoHeaders'', when_true (cs_kafkito_headers s)), (js ''onlyDiff'', when_true (cs_only_diff s))])"

definition compare_view_of :: "compare_search \<Rightarrow> compare_view" where
  "compare_view_of s = (if cs_exact s then View_Exact else View_Semantic)"

definition compare_options_of :: "compare_search \<Rightarrow> compare_options" where
  "compare_options_of s = default_compare_options\<lparr>ignore_array_order := cs_any_array_order s,
     ignore_child_order := cs_any_element_order s, ignore_kafkito_headers := \<not> cs_kafkito_headers s\<rparr>"

text \<open>\<open>optionsSearch\<close>, merged into the current search as the compare page does.\<close>

definition options_search :: "compare_options \<Rightarrow> compare_view \<Rightarrow> compare_search \<Rightarrow> compare_search" where
  "options_search opts view prev = prev\<lparr>cs_exact := (view = View_Exact), cs_any_array_order := ignore_array_order opts,
     cs_any_element_order := ignore_child_order opts, cs_kafkito_headers := \<not> ignore_kafkito_headers opts\<rparr>"

section \<open>The other pages\<close>

definition is_number :: "json \<Rightarrow> bool" where
  "is_number v = (case v of JsInt _ \<Rightarrow> True | JsFrac _ \<Rightarrow> True | _ \<Rightarrow> False)"

text \<open>\<open>typeof v === "number" ? v : d\<close>.\<close>

definition number_or :: "int \<Rightarrow> json option \<Rightarrow> json" where
  "number_or d v = (case v of Some x \<Rightarrow> if is_number x then x else JsInt d | None \<Rightarrow> JsInt d)"

record messages_search =
  mr_partition :: json
  mr_limit :: json
  mr_from :: browse_from
  mr_msg_offset :: json

definition parse_browse_from :: "json option \<Rightarrow> browse_from" where
  "parse_browse_from v = (if v = Some (JsString (js ''start'')) then From_Start
     else if v = Some (JsString (js ''offset'')) then From_Offset else From_End)"

definition browse_from_text :: "browse_from \<Rightarrow> jstr" where
  "browse_from_text f = (case f of From_End \<Rightarrow> js ''end'' | From_Start \<Rightarrow> js ''start'' | From_Offset \<Rightarrow> js ''offset'')"

definition parse_messages_search :: "json \<Rightarrow> messages_search" where
  "parse_messages_search s = \<lparr>mr_partition = number_or (- 1) (jprop (js ''partition'') s), mr_limit = number_or 50 (jprop (js ''limit'') s),
     mr_from = parse_browse_from (jprop (js ''from'') s), mr_msg_offset = number_or 0 (jprop (js ''msgOffset'') s)\<rparr>"

definition messages_search_json :: "messages_search \<Rightarrow> json" where
  "messages_search_json s = JsObject [(js ''partition'', mr_partition s), (js ''limit'', mr_limit s),
     (js ''from'', JsString (browse_from_text (mr_from s))), (js ''msgOffset'', mr_msg_offset s)]"

text \<open>\<open>messageListLink\<close>: the message list of a topic, starting at a message.\<close>

definition message_list_link :: "int \<Rightarrow> int \<Rightarrow> messages_search" where
  "message_list_link p n = \<lparr>mr_partition = JsInt p, mr_limit = JsInt 50, mr_from = From_Offset, mr_msg_offset = JsInt n\<rparr>"

datatype timeline_preset = Tp_24h | Tp_7d | Tp_30d

definition timeline_presets :: "(jstr \<times> timeline_preset) list" where
  "timeline_presets = [(js ''24h'', Tp_24h), (js ''7d'', Tp_7d), (js ''30d'', Tp_30d)]"

definition parse_timeline_search :: "json \<Rightarrow> timeline_preset \<times> json" where
  "parse_timeline_search s = (opt_or (one_of timeline_presets (jprop (js ''preset'') s)) Tp_7d, number_or (- 1) (jprop (js ''partition'') s))"

definition parse_clusters_search :: "json \<Rightarrow> jstr option" where
  "parse_clusters_search s = as_string (jprop (js ''cluster'') s)"

definition parse_groups_search :: "json \<Rightarrow> jstr option" where
  "parse_groups_search s = as_string (jprop (js ''group'') s)"

text \<open>\<open>searchParamString\<close>: the router parses \<open>?version=1\<close> as a number.\<close>

definition search_param_string :: "json option \<Rightarrow> jstr option" where
  "search_param_string v = (case v of Some (JsString s) \<Rightarrow> Some s | Some (JsInt i) \<Rightarrow> Some (dec_int i) | Some (JsFrac l) \<Rightarrow> Some l | _ \<Rightarrow> None)"

definition latest_version :: "int list \<Rightarrow> int" where
  "latest_version vs = (case vs of [] \<Rightarrow> 1 | v # rest \<Rightarrow> max_list v rest)"

section \<open>Lemmas\<close>

lemma trim_end_last: "trim_end s = [] \<or> \<not> js_space (last (trim_end s))"
proof (cases "dropWhile js_space (rev s)")
  case (Cons a list)
  then have "\<not> js_space a" using hd_dropWhile [of js_space "rev s"] by simp
  then show ?thesis using Cons by (simp add: trim_end_def)
qed (simp add: trim_end_def)

lemma trim_end_hd: "trim_end s \<noteq> [] \<Longrightarrow> hd (trim_end s) = hd s"
proof -
  assume n: "trim_end s \<noteq> []"
  have "rev s = takeWhile js_space (rev s) @ rev (trim_end s)" by (simp add: trim_end_def)
  then have "s = trim_end s @ rev (takeWhile js_space (rev s))" by (metis rev_append rev_rev_ident)
  with n show ?thesis by (metis hd_append2)
qed

lemma trim_trim [simp]: "trim (trim s) = trim s"
proof (cases "trim s = []")
  case False
  then have n: "trim_end (trim_start s) \<noteq> []" "trim_start s \<noteq> []" by (auto simp: trim_def trim_end_def)
  have "\<not> js_space (hd (trim_start s))" using n(2) hd_dropWhile [of js_space s] by (simp add: trim_start_def)
  then have "\<not> js_space (hd (trim s))" "\<not> js_space (last (trim s))"
    using n trim_end_hd [OF n(1)] trim_end_last [of "trim_start s"] by (simp_all add: trim_def)
  then show ?thesis using False by (intro trim_id)
next
  case True
  then show ?thesis by (simp only: True) (simp add: trim_def trim_start_def trim_end_def)
qed

lemma trimmed_text_again: "trimmed_text (map_option JsString (trimmed_text v)) = trimmed_text v"
  by (cases "as_string v") (auto simp: trimmed_text_def)

lemma is_true_when [simp]: "is_true (when_true b) = b"
  by (simp add: is_true_def when_true_def)

lemma name_in_inverse:
  assumes "distinct (map fst values)" "distinct (map snd values)" "x \<in> set (map snd values)"
  shows "mget values (name_in values x) = Some x"
proof -
  obtain s y where f: "find (\<lambda>(_, y). y = x) values = Some (s, y)"
    using assms(3) by (cases "find (\<lambda>(_, y). y = x) values") (auto simp: find_None_iff)
  then have "(s, y) \<in> set values" "y = x" by (auto simp: find_Some_iff in_set_conv_nth)
  then show ?thesis using f assms(1) by (simp add: name_in_def mget_def)
qed

lemma one_of_name:
  assumes "distinct (map fst values)" "distinct (map snd values)" "one_of values v = Some x"
  shows "one_of values (Some (JsString (name_in values x))) = Some x"
proof -
  have "x \<in> set (map snd values)" using assms(3) by (auto simp: one_of_def mget_def split: option.splits dest: map_of_SomeD intro!: rev_image_eqI)
  then show ?thesis using name_in_inverse [OF assms(1,2)] by (simp add: one_of_def)
qed

lemma enumerations: "distinct (map fst partition_buckets)" "distinct (map snd partition_buckets)"
    "distinct (map fst retention_buckets)" "distinct (map snd retention_buckets)"
    "distinct (map fst topic_sort_keys)" "distinct (map snd topic_sort_keys)"
    "distinct (map fst sort_dirs)" "distinct (map snd sort_dirs)"
  by (simp_all add: partition_buckets_def retention_buckets_def topic_sort_keys_def sort_dirs_def)

lemma one_of_again:
  assumes "distinct (map fst values)" "distinct (map snd values)"
  shows "one_of values (map_option (JsString \<circ> name_in values) (one_of values v)) = one_of values v"
proof (cases "one_of values v")
  case None
  then show ?thesis by (simp add: one_of_def)
next
  case (Some x)
  then show ?thesis using one_of_name [OF assms Some] by simp
qed


section \<open>Stable, typed URL state\<close>

lemma jprop_of_members: "distinct (map fst fs) \<Longrightarrow> jprop k (JsObject (members fs)) = (case map_of fs k of Some v \<Rightarrow> v | None \<Rightarrow> None)"
  by (simp add: jprop_def mget_members)

lemma topic_search_again: "parse_topic_list_search (topic_list_search_json (parse_topic_list_search s)) = parse_topic_list_search s"
proof -
  let ?t = "parse_topic_list_search s"
  have q: "search_text (map_option JsString (tl_q ?t)) = opt_or (tl_q ?t) []" "tl_q ?t \<noteq> Some []"
    by (cases "tl_q ?t"; simp add: search_text_def) (simp add: parse_topic_list_search_def Let_def)
  have i: "tl_internal ?t = None \<or> tl_internal ?t = Some True" by (simp add: parse_topic_list_search_def Let_def)
  have p: "one_of partition_buckets (map_option (JsString \<circ> name_in partition_buckets) (tl_partitions ?t)) = tl_partitions ?t"
    "one_of retention_buckets (map_option (JsString \<circ> name_in retention_buckets) (tl_retention ?t)) = tl_retention ?t"
    "one_of topic_sort_keys (map_option (JsString \<circ> name_in topic_sort_keys) (tl_sort ?t)) = tl_sort ?t"
    using one_of_again [OF enumerations(1,2)] one_of_again [OF enumerations(3,4)] one_of_again [OF enumerations(5,6)]
    by (simp_all add: parse_topic_list_search_def Let_def)
  have d: "(tl_sort ?t = None) = (tl_dir ?t = None)" by (simp add: parse_topic_list_search_def Let_def split: option.splits)
  have dir: "one_of sort_dirs (map_option (JsString \<circ> name_in sort_dirs) (Some x)) = Some x" for x
    by (cases x) (simp_all add: one_of_def name_in_def sort_dirs_def mget_def)
  have "parse_topic_list_search (topic_list_search_json t) = t"
    if "search_text (map_option JsString (tl_q t)) = opt_or (tl_q t) []" "tl_q t \<noteq> Some []" "tl_internal t = None \<or> tl_internal t = Some True"
      "one_of partition_buckets (map_option (JsString \<circ> name_in partition_buckets) (tl_partitions t)) = tl_partitions t"
      "one_of retention_buckets (map_option (JsString \<circ> name_in retention_buckets) (tl_retention t)) = tl_retention t"
      "one_of topic_sort_keys (map_option (JsString \<circ> name_in topic_sort_keys) (tl_sort t)) = tl_sort t"
      "(tl_sort t = None) = (tl_dir t = None)" for t
  proof -
    have j: "jprop (js ''q'') (topic_list_search_json t) = map_option JsString (tl_q t)"
      "jprop (js ''internal'') (topic_list_search_json t) = map_option JsBool (tl_internal t)"
      "jprop (js ''partitions'') (topic_list_search_json t) = map_option (JsString \<circ> name_in partition_buckets) (tl_partitions t)"
      "jprop (js ''retention'') (topic_list_search_json t) = map_option (JsString \<circ> name_in retention_buckets) (tl_retention t)"
      "jprop (js ''sort'') (topic_list_search_json t) = map_option (JsString \<circ> name_in topic_sort_keys) (tl_sort t)"
      "jprop (js ''dir'') (topic_list_search_json t) = map_option (JsString \<circ> name_in sort_dirs) (tl_dir t)"
      unfolding topic_list_search_json_def by (subst jprop_of_members; simp)+
    have "(case tl_sort t of None \<Rightarrow> None
        | Some _ \<Rightarrow> Some (opt_or (one_of sort_dirs (map_option (JsString \<circ> name_in sort_dirs) (tl_dir t))) Asc)) = tl_dir t"
      using that(7) dir by (cases "tl_sort t"; cases "tl_dir t") simp_all
    moreover have "(if opt_or (tl_q t) [] = [] then None else Some (opt_or (tl_q t) [])) = tl_q t" using that(2) by (cases "tl_q t") auto
    moreover have "(if map_option JsBool (tl_internal t) = Some (JsBool True) \<or> map_option JsBool (tl_internal t) = Some (JsString (js ''true''))
        then Some True else None) = tl_internal t" using that(3) by auto
    ultimately show ?thesis unfolding parse_topic_list_search_def Let_def j that(1,4-6) by simp
  qed
  from this [OF q i p d] show ?thesis .
qed

lemma compare_search_again: "parse_compare_search (compare_search_json (parse_compare_search s)) = parse_compare_search s"
proof -
  have j: "jprop (js ''a'') (compare_search_json t) = map_option JsString (cs_a t)" "jprop (js ''b'') (compare_search_json t) = map_option JsString (cs_b t)"
    "jprop (js ''view'') (compare_search_json t) = (if cs_exact t then Some (JsString (js ''exact'')) else None)"
    "jprop (js ''anyArrayOrder'') (compare_search_json t) = when_true (cs_any_array_order t)"
    "jprop (js ''anyElementOrder'') (compare_search_json t) = when_true (cs_any_element_order t)"
    "jprop (js ''kafkitoHeaders'') (compare_search_json t) = when_true (cs_kafkito_headers t)"
    "jprop (js ''onlyDiff'') (compare_search_json t) = when_true (cs_only_diff t)" for t
    unfolding compare_search_json_def by (subst jprop_of_members; simp)+
  show ?thesis unfolding parse_compare_search_def [of "compare_search_json _"] j is_true_when
    by (simp add: parse_compare_search_def trimmed_text_again)
qed

lemma number_or_again: "number_or d (Some (number_or d v)) = number_or d v" "is_number (number_or d v)"
  by (auto simp: number_or_def is_number_def split: option.splits json.splits)

lemma messages_search_again: "parse_messages_search (messages_search_json (parse_messages_search s)) = parse_messages_search s"
proof -
  have f: "parse_browse_from (Some (JsString (browse_from_text f))) = f" for f
    by (cases f) (simp_all add: parse_browse_from_def browse_from_text_def)
  have j: "jprop (js ''partition'') (messages_search_json t) = Some (mr_partition t)" "jprop (js ''limit'') (messages_search_json t) = Some (mr_limit t)"
    "jprop (js ''from'') (messages_search_json t) = Some (JsString (browse_from_text (mr_from t)))"
    "jprop (js ''msgOffset'') (messages_search_json t) = Some (mr_msg_offset t)" for t
    by (simp_all add: messages_search_json_def jprop_def)
  show ?thesis unfolding parse_messages_search_def [of "messages_search_json _"] j f
    by (simp add: parse_messages_search_def number_or_again)
qed

text \<open>
  C38: Whatever someone types into the URL, the pages read a typed state from it that is stable. The
  message browser gets numbers where it needs numbers, the topic list a direction exactly when it has a sort
  key, the compare page trimmed non-empty references, and writing a state back into the URL and
  reading it again gives the same state; the compare options and view a user picks are read back as picked.
\<close>

theorem url_state_typed:
  fixes s :: json
  shows "is_number (mr_partition (parse_messages_search s)) \<and> is_number (mr_limit (parse_messages_search s)) \<and>
    is_number (mr_msg_offset (parse_messages_search s)) \<and>
    parse_messages_search (messages_search_json (parse_messages_search s)) = parse_messages_search s \<and>
    (tl_sort (parse_topic_list_search s) = None \<longleftrightarrow> tl_dir (parse_topic_list_search s) = None) \<and> tl_q (parse_topic_list_search s) \<noteq> Some [] \<and>
    parse_topic_list_search (topic_list_search_json (parse_topic_list_search s)) = parse_topic_list_search s \<and>
    cs_a (parse_compare_search s) \<noteq> Some [] \<and> map_option trim (cs_a (parse_compare_search s)) = cs_a (parse_compare_search s) \<and>
    parse_compare_search (compare_search_json (parse_compare_search s)) = parse_compare_search s \<and>
    compare_options_of (options_search opts view (parse_compare_search s)) = opts \<and>
    compare_view_of (options_search opts view (parse_compare_search s)) = view"
proof -
  have "map_option trim (cs_a (parse_compare_search s)) = cs_a (parse_compare_search s) \<and> cs_a (parse_compare_search s) \<noteq> Some []"
    by (simp add: parse_compare_search_def trimmed_text_def split: option.splits)
  moreover have "tl_q (parse_topic_list_search s) \<noteq> Some [] \<and> (tl_sort (parse_topic_list_search s) = None \<longleftrightarrow> tl_dir (parse_topic_list_search s) = None)"
    by (simp add: parse_topic_list_search_def Let_def split: option.splits)
  moreover have "compare_options_of (options_search opts view t) = opts \<and> compare_view_of (options_search opts view t) = view" for t
    by (cases view) (simp_all add: compare_options_of_def options_search_def default_compare_options_def compare_view_of_def)
  moreover have "is_number (mr_partition (parse_messages_search s)) \<and> is_number (mr_limit (parse_messages_search s)) \<and> is_number (mr_msg_offset (parse_messages_search s))"
    by (simp add: parse_messages_search_def number_or_again)
  ultimately show ?thesis using topic_search_again compare_search_again messages_search_again by simp
qed

end
