(* ===== verification/MessageSearch.thy ===== *)
theory MessageSearch
  imports Api Topics
begin

text \<open>
  The search panel of the message browser: its form (\<open>frontend/src/features/messages/use-search-form.ts\<close>,
  \<open>use-time-range-state.ts\<close>, \<open>time-range.ts\<close>, \<open>search-mode-detect.ts\<close>), click-to-filter with its undo
  (\<open>use-click-to-filter.ts\<close>, \<open>lib/path-builder.ts\<close>), and the run of a search (\<open>use-message-search.ts\<close>)
  over the search chain. A hook's state is a record, each callback a function on it.
\<close>

section \<open>JSONPath of a clicked value\<close>

datatype path_token = Tk_Key jstr | Tk_Index int | Tk_Star

definition ident_start :: "cu \<Rightarrow> bool" where
  "ident_start c \<longleftrightarrow> (65 \<le> c \<and> c \<le> 90) \<or> (97 \<le> c \<and> c \<le> 122) \<or> c = 95 \<or> c = 36"

text \<open>\<open>SAFE_KEY\<close>: a key that needs no quotes.\<close>

definition safe_key :: "jstr \<Rightarrow> bool" where
  "safe_key s \<longleftrightarrow> s \<noteq> [] \<and> ident_start (hd s) \<and> (\<forall>c \<in> set s. ident_start c \<or> is_digit c)"

definition escape_key :: "jstr \<Rightarrow> jstr" where
  "escape_key s = concat (map (\<lambda>c. if c = 92 then [92, 92] else if c = 39 then [92, 39] else [c]) s)"

fun token_path :: "path_token \<Rightarrow> jstr" where
  "token_path (Tk_Index n) = js ''['' @ dec_int n @ js '']''"
| "token_path Tk_Star = js ''[*]''"
| "token_path (Tk_Key k) = (if safe_key k then js ''.'' @ k else [91, 39] @ escape_key k @ [39, 93])"

definition build_json_path :: "path_token list \<Rightarrow> jstr" where
  "build_json_path trail = js ''$'' @ concat (map token_path trail)"

definition wildcard_array_indices :: "path_token list \<Rightarrow> path_token list" where
  "wildcard_array_indices trail = map (\<lambda>t. case t of Tk_Index _ \<Rightarrow> Tk_Star | _ \<Rightarrow> t) trail"

section \<open>Time ranges\<close>

datatype time_range_mode = Tr_Off | Tr_Preset | Tr_Custom

record time_range_state =
  tr_mode :: time_range_mode
  tr_preset :: jstr
  tr_custom_from :: jstr
  tr_custom_to :: jstr

definition initial_time_range :: time_range_state where
  "initial_time_range = \<lparr>tr_mode = Tr_Off, tr_preset = js ''24h'', tr_custom_from = [], tr_custom_to = []\<rparr>"

record time_range =
  rg_from :: "int option"
  rg_to :: "int option"

definition preset_durations_ms :: "(jstr, int) jsmap" where
  "preset_durations_ms = [(js ''5m'', 5 * 60000), (js ''15m'', 15 * 60000), (js ''1h'', 60 * 60000), (js ''6h'', 6 * 60 * 60000),
     (js ''24h'', 24 * 60 * 60000), (js ''7d'', 7 * 24 * 60 * 60000), (js ''30d'', 30 * 24 * 60 * 60000)]"

text \<open>
  The local calendar of the browser is a parameter: the start of the day and of the day before a time, the
  last millisecond of a day, and the reading of a \<open>datetime-local\<close> value.
\<close>

record calendar =
  cal_day_start :: "int \<Rightarrow> int"
  cal_day_before :: "int \<Rightarrow> int"
  cal_day_end :: "int \<Rightarrow> int"
  cal_read :: "jstr \<Rightarrow> int"

definition compute_time_range :: "calendar \<Rightarrow> int \<Rightarrow> time_range_state \<Rightarrow> time_range" where
  "compute_time_range cal now r =
     (case tr_mode r of
        Tr_Off \<Rightarrow> \<lparr>rg_from = None, rg_to = None\<rparr>
      | Tr_Preset \<Rightarrow>
          if tr_preset r = js ''today'' then \<lparr>rg_from = Some (cal_day_start cal now), rg_to = Some now\<rparr>
          else if tr_preset r = js ''yesterday'' then
            (let s = cal_day_before cal (cal_day_start cal now) in \<lparr>rg_from = Some s, rg_to = Some (cal_day_end cal s)\<rparr>)
          else \<lparr>rg_from = Some (now - opt_or (mget preset_durations_ms (tr_preset r)) (24 * 60 * 60000)), rg_to = Some now\<rparr>
      | Tr_Custom \<Rightarrow> \<lparr>rg_from = (if tr_custom_from r = [] then None else Some (cal_read cal (tr_custom_from r))),
          rg_to = (if tr_custom_to r = [] then None else Some (cal_read cal (tr_custom_to r)))\<rparr>)"

section \<open>The form\<close>

datatype search_mode = Sm_Contains | Sm_Jsonpath | Sm_Xpath | Sm_Js | Sm_Key | Sm_Header

datatype search_op = Op_Exists | Op_Missing | Op_Eq | Op_Ne | Op_Contains | Op_Regex | Op_Gt | Op_Lt | Op_Gte | Op_Lte

definition mode_text :: "search_mode \<Rightarrow> jstr" where
  "mode_text m = (case m of Sm_Contains \<Rightarrow> js ''contains'' | Sm_Jsonpath \<Rightarrow> js ''jsonpath'' | Sm_Xpath \<Rightarrow> js ''xpath''
     | Sm_Js \<Rightarrow> js ''js'' | Sm_Key \<Rightarrow> js ''key'' | Sm_Header \<Rightarrow> js ''header'')"

definition op_text :: "search_op \<Rightarrow> jstr" where
  "op_text p = (case p of Op_Exists \<Rightarrow> js ''exists'' | Op_Missing \<Rightarrow> js ''missing'' | Op_Eq \<Rightarrow> js ''eq'' | Op_Ne \<Rightarrow> js ''ne''
     | Op_Contains \<Rightarrow> js ''contains'' | Op_Regex \<Rightarrow> js ''regex'' | Op_Gt \<Rightarrow> js ''gt'' | Op_Lt \<Rightarrow> js ''lt'' | Op_Gte \<Rightarrow> js ''gte'' | Op_Lte \<Rightarrow> js ''lte'')"

record search_form =
  sf_mode :: search_mode
  sf_path :: jstr
  sf_header_key :: jstr
  sf_op :: search_op
  sf_needle :: jstr
  sf_mode_touched_for :: "jstr option"
  sf_range :: time_range_state
  sf_direction :: search_direction
  sf_stop_on_limit :: bool
  sf_budget :: int
  sf_budget_unlimited :: bool

definition initial_search_form :: search_form where
  "initial_search_form = \<lparr>sf_mode = Sm_Contains, sf_path = [], sf_header_key = [], sf_op = Op_Contains, sf_needle = [],
     sf_mode_touched_for = None, sf_range = initial_time_range, sf_direction = NewestFirst, sf_stop_on_limit = True,
     sf_budget = 50000, sf_budget_unlimited = False\<rparr>"

definition mode_touched :: "jstr \<Rightarrow> search_form \<Rightarrow> bool" where
  "mode_touched topic f \<longleftrightarrow> sf_mode_touched_for f = Some topic \<or> sf_path f \<noteq> [] \<or> sf_header_key f \<noteq> [] \<or> sf_needle f \<noteq> []"

definition set_mode :: "jstr \<Rightarrow> search_mode \<Rightarrow> search_form \<Rightarrow> search_form" where
  "set_mode topic m f = f\<lparr>sf_mode_touched_for := Some topic, sf_mode := m\<rparr>"

text \<open>\<open>detectSearchMode\<close>, over the value encodings of the loaded messages.\<close>

definition count_encoding :: "jstr \<Rightarrow> message list \<Rightarrow> nat" where
  "count_encoding e ms = length (filter (\<lambda>m. value_encoding m = e) ms)"

definition detect_search_mode :: "message list \<Rightarrow> search_mode" where
  "detect_search_mode ms =
     (let json = count_encoding (js ''json'') ms; xml = count_encoding (js ''xml'') ms in
      if json = 0 \<and> xml = 0 then Sm_Contains else if xml \<le> json then Sm_Jsonpath else Sm_Xpath)"

definition preselect_mode :: "jstr \<Rightarrow> message list \<Rightarrow> search_form \<Rightarrow> search_form" where
  "preselect_mode topic ms f = (if mode_touched topic f then f else f\<lparr>sf_mode := detect_search_mode ms\<rparr>)"

section \<open>Click to filter\<close>

datatype field_filter = Filter_Key jstr | Filter_Header jstr "jstr option"

record search_input =
  in_mode :: search_mode
  in_path :: jstr
  in_header_key :: jstr
  in_op :: search_op
  in_needle :: jstr

definition input_of :: "search_form \<Rightarrow> search_input" where
  "input_of f = \<lparr>in_mode = sf_mode f, in_path = sf_path f, in_header_key = sf_header_key f, in_op = sf_op f, in_needle = sf_needle f\<rparr>"

record undo_toast =
  ut_previous :: search_input
  ut_until :: int

record click_state =
  ck_form :: search_form
  ck_toast :: "undo_toast option"
  ck_search_open :: bool

definition had_any_input :: "search_input \<Rightarrow> bool" where
  "had_any_input i \<longleftrightarrow> trim (in_path i) \<noteq> [] \<or> trim (in_header_key i) \<noteq> [] \<or> trim (in_needle i) \<noteq> []"

definition replace_search :: "int \<Rightarrow> (search_form \<Rightarrow> search_form) \<Rightarrow> click_state \<Rightarrow> click_state" where
  "replace_search now f st =
     (let previous = input_of (ck_form st) in
      st\<lparr>ck_form := f (ck_form st), ck_search_open := True,
         ck_toast := (if had_any_input previous then Some \<lparr>ut_previous = previous, ut_until = now + 4000\<rparr> else ck_toast st)\<rparr>)"

text \<open>A clicked value of a message; \<open>None\<close> is a click on a branch. A leaf arrives as \<open>String(leafValue)\<close>.\<close>

definition set_comparison :: "jstr option \<Rightarrow> search_form \<Rightarrow> search_form" where
  "set_comparison v f = (case v of Some t \<Rightarrow> f\<lparr>sf_op := Op_Eq, sf_needle := t\<rparr> | None \<Rightarrow> f\<lparr>sf_op := Op_Exists, sf_needle := []\<rparr>)"

definition handle_pick :: "jstr \<Rightarrow> int \<Rightarrow> path_token list \<Rightarrow> json option \<Rightarrow> click_state \<Rightarrow> click_state" where
  "handle_pick topic now trail leaf =
     replace_search now (\<lambda>f. set_comparison (map_option to_text leaf)
       ((set_mode topic Sm_Jsonpath f)\<lparr>sf_path := build_json_path (wildcard_array_indices trail)\<rparr>))"

definition handle_filter :: "jstr \<Rightarrow> int \<Rightarrow> field_filter \<Rightarrow> click_state \<Rightarrow> click_state" where
  "handle_filter topic now ff =
     replace_search now (\<lambda>f. case ff of
        Filter_Key v \<Rightarrow> set_comparison (Some v) (set_mode topic Sm_Key f)
      | Filter_Header k v \<Rightarrow> set_comparison v ((set_mode topic Sm_Header f)\<lparr>sf_header_key := k\<rparr>))"

definition undo_click :: "jstr \<Rightarrow> click_state \<Rightarrow> click_state" where
  "undo_click topic st =
     (case ck_toast st of
        None \<Rightarrow> st
      | Some t \<Rightarrow> let p = ut_previous t in
          st\<lparr>ck_form := (set_mode topic (in_mode p) (ck_form st))\<lparr>sf_path := in_path p, sf_header_key := in_header_key p,
                 sf_op := in_op p, sf_needle := in_needle p\<rparr>,
             ck_toast := None\<rparr>)"

text \<open>The effect that takes the offer back when its time is over.\<close>

definition expire_toast :: "int \<Rightarrow> click_state \<Rightarrow> click_state" where
  "expire_toast now st = (case ck_toast st of Some t \<Rightarrow> if ut_until t - now \<le> 0 then st\<lparr>ck_toast := None\<rparr> else st | None \<Rightarrow> st)"

section \<open>Running a search\<close>

record search_panel =
  sp_searching :: bool
  sp_result :: "search_result option"
  sp_error :: "jstr option"
  sp_stop_reason :: "stop_reason option"

definition initial_search_panel :: search_panel where
  "initial_search_panel = \<lparr>sp_searching = False, sp_result = None, sp_error = None, sp_stop_reason = None\<rparr>"

definition search_base_request :: "int \<Rightarrow> int \<Rightarrow> time_range \<Rightarrow> search_form \<Rightarrow> search_request" where
  "search_base_request p limit r f =
     (let m = sf_mode f in
      \<lparr>sq_partition = Some p, sq_limit = Some limit, sq_budget = None, sq_direction = Some (sf_direction f),
       sq_stop_on_limit = Some (sf_stop_on_limit f), sq_mode = Some (mode_text m),
       sq_path = Some (if m = Sm_Jsonpath \<or> m = Sm_Xpath then sf_path f else []),
       sq_header_key = (if m = Sm_Header then Some (sf_header_key f) else None),
       sq_op = Some (op_text (if m = Sm_Contains \<or> m = Sm_Js then Op_Contains else sf_op f)),
       sq_value = Some (sf_needle f),
       sq_zones = Some (if m = Sm_Contains then [js ''value'', js ''key'', js ''headers''] else [js ''value'']),
       sq_from_ts = rg_from r, sq_to_ts = rg_to r, sq_cursors = None\<rparr>)"

definition search_options :: "int \<Rightarrow> int \<Rightarrow> time_range \<Rightarrow> search_form \<Rightarrow> (nat \<Rightarrow> bool) \<Rightarrow> search_result option \<Rightarrow> chain_options" where
  "search_options p limit r f stop prior =
     \<lparr>co_base = search_base_request p limit r f, co_prior = prior,
      co_budget = (if sf_budget_unlimited f then 0 else sf_budget f), co_stop_on_limit = sf_stop_on_limit f,
      co_limit = limit, co_should_stop = stop\<rparr>"

definition begin_search :: "bool \<Rightarrow> search_panel \<Rightarrow> search_panel" where
  "begin_search continue st =
     (let st1 = st\<lparr>sp_searching := True, sp_error := None\<rparr>
      in if continue then st1 else st1\<lparr>sp_result := None, sp_stop_reason := None\<rparr>)"

text \<open>
  \<open>runSearch\<close>: the panel when the chain has ended, \<open>None\<close> while it has not. The result is the last one
  published; \<open>stop n\<close> is whether the user has pressed stop by the n-th call.
\<close>

definition run_search :: "search_server \<Rightarrow> calendar \<Rightarrow> int \<Rightarrow> int \<Rightarrow> int \<Rightarrow> search_form \<Rightarrow> (nat \<Rightarrow> bool) \<Rightarrow> bool \<Rightarrow> search_panel \<Rightarrow> search_panel option" where
  "run_search server cal now p limit f stop continue st =
     (let st1 = begin_search continue st;
          prior = (if continue then sp_result st else None)
      in case run_search_chain server (search_options p limit (compute_time_range cal now (sf_range f)) f stop prior) of
           None \<Rightarrow> None
         | Some (r, fin) \<Rightarrow>
             let st2 = (if ch_log fin = [] then st1 else st1\<lparr>sp_result := Some (last (ch_log fin))\<rparr>)
             in Some (case r of Inr reason \<Rightarrow> st2\<lparr>sp_stop_reason := Some reason, sp_searching := False\<rparr>
                  | Inl m \<Rightarrow> st2\<lparr>sp_error := Some m, sp_searching := False\<rparr>))"

definition clear_search :: "search_panel \<Rightarrow> search_panel" where
  "clear_search st = st\<lparr>sp_result := None, sp_error := None, sp_stop_reason := None\<rparr>"

definition in_search_mode :: "search_panel \<Rightarrow> bool" where
  "in_search_mode st \<longleftrightarrow> sp_result st \<noteq> None \<or> sp_searching st"


section \<open>Lemmas\<close>

text \<open>Undo brings back what a click replaced, and is offered whenever something was typed.\<close>

lemma replace_toast: "had_any_input (input_of (ck_form st)) \<Longrightarrow>
    ck_toast (replace_search now f st) = Some \<lparr>ut_previous = input_of (ck_form st), ut_until = now + 4000\<rparr>"
  by (simp add: replace_search_def Let_def)

lemma undo_replace:
  assumes "had_any_input (input_of (ck_form st))"
  shows "input_of (ck_form (undo_click topic (replace_search now f st))) = input_of (ck_form st) \<and>
    ck_toast (undo_click topic (replace_search now f st)) = None"
  using replace_toast [OF assms] by (simp add: undo_click_def Let_def set_mode_def) (simp add: input_of_def)

lemma click_modes: "sf_mode (ck_form (handle_pick topic now trail leaf st)) = Sm_Jsonpath"
    "sf_mode (ck_form (handle_filter topic now ff st)) = (case ff of Filter_Key _ \<Rightarrow> Sm_Key | Filter_Header _ _ \<Rightarrow> Sm_Header)"
    "mode_touched topic (ck_form (handle_pick topic now trail leaf st))" "mode_touched topic (ck_form (handle_filter topic now ff st))"
  by (cases ff; simp add: handle_pick_def handle_filter_def replace_search_def set_mode_def set_comparison_def mode_touched_def Let_def
      split: option.splits)+

text \<open>A path never pins an array index.\<close>

lemma no_index: "Tk_Index n \<notin> set (wildcard_array_indices trail)"
  by (auto simp: wildcard_array_indices_def split: path_token.splits)

text \<open>Presets and custom ranges end no earlier than they begin, given a calendar that orders days.\<close>

definition calendar_ok :: "calendar \<Rightarrow> bool" where
  "calendar_ok cal \<longleftrightarrow> (\<forall>t. cal_day_start cal t \<le> t) \<and> (\<forall>t. cal_day_before cal t \<le> cal_day_end cal (cal_day_before cal t))"

lemma preset_range_ordered:
  assumes "calendar_ok cal" "tr_mode r = Tr_Preset"
  shows "\<exists>a b. compute_time_range cal now r = \<lparr>rg_from = Some a, rg_to = Some b\<rparr> \<and> a \<le> b"
proof -
  have "0 \<le> opt_or (mget preset_durations_ms (tr_preset r)) (24 * 60 * 60000)"
    by (auto simp: preset_durations_ms_def mget_Nil)
  then show ?thesis using assms by (auto simp: compute_time_range_def calendar_ok_def Let_def)
qed

text \<open>
  "Search more" continues at the cursors of the shown result with the query the form holds now: a
  direction or a query changed in between is sent with cursors another query left behind.
\<close>

lemma search_more_uses_current_form:
  shows "let req = chain_request (search_options p limit r f stop (Some prior)) (chain_start (search_options p limit r f stop (Some prior))) b in
    sq_cursors req = ss_next_cursors (res_stats prior) \<and> sq_direction req = Some (sf_direction f) \<and> sq_value req = Some (sf_needle f)"
  by (simp add: chain_request_def search_options_def search_base_request_def chain_start_def Let_def)

text \<open>The published counts add up over the calls, except the parse errors: those are of the last call.\<close>

lemma published_parse_errors:
  "ss_parse_errors (res_stats (last (ch_log (chain_add req r st)))) = ss_parse_errors (rs_search r)"
  by (simp add: chain_add_def Let_def)

text \<open>A search that ended is not searching, and shows its last published result.\<close>

lemma run_search_ends:
  assumes "run_search server cal now p limit f stop continue st = Some st'"
  shows "\<not> sp_searching st' \<and> (sp_error st' = None \<longrightarrow> sp_stop_reason st' \<noteq> None) \<and>
    (\<not> continue \<longrightarrow> sp_error st' \<noteq> None \<longrightarrow> sp_stop_reason st' = None)"
  using assms by (auto simp: run_search_def begin_search_def Let_def split: option.splits prod.splits sum.splits if_splits)

end
