(* ===== verification/MessageList.thy ===== *)
theory MessageList
  imports Api Topics
begin

text \<open>
  The message list: the browse query (\<open>frontend/src/features/messages/use-browse-messages.ts\<close>), cursor pagination
  (\<open>use-load-more.ts\<close>), display order and deduplication (\<open>display-order.ts\<close>, \<open>lib/dedupe-messages.ts\<close>), header key
  statistics (\<open>header-keys.ts\<close>), the pages the queries fetch (\<open>lib/queries/messages.ts\<close>) and the hydration
  of truncated samples (\<open>lib/hydrate-sample.ts\<close>).
\<close>

record messages_page =
  mp_cluster :: jstr
  mp_topic :: jstr
  mp_messages :: "message list option"
  mp_has_more :: bool
  mp_next_cursor :: "jstr option"
  mp_partial :: "bool option"

section \<open>Browsing\<close>

record browse_options =
  bo_partitions :: "partition_info list"
  bo_partition :: int
  bo_limit :: int
  bo_from :: browse_from
  bo_msg_offset :: int
  bo_from_ts :: "int option"
  bo_to_ts :: "int option"

definition browse_from_name :: "browse_from \<Rightarrow> jstr" where
  "browse_from_name f = (case f of From_End \<Rightarrow> js ''end'' | From_Start \<Rightarrow> js ''start'' | From_Offset \<Rightarrow> js ''offset'')"

text \<open>\<open>Object.fromEntries\<close>: a later entry of the same partition replaces an earlier one; \<open>Object.entries\<close> lists integer keys in ascending order.\<close>

definition partition_entries :: "partition_info list \<Rightarrow> int \<Rightarrow> (int \<times> int) list" where
  "partition_entries ps n = map (\<lambda>p. (p, n)) (sort (remdups (map pi_partition ps)))"

definition browse_params :: "browse_options \<Rightarrow> consume_params" where
  "browse_params b =
     \<lparr>cp_partition = Some (bo_partition b), cp_limit = Some (bo_limit b), cp_from = Some (browse_from_name (bo_from b)),
      cp_offset = (if bo_from b = From_Offset \<and> 0 \<le> bo_partition b then Some (bo_msg_offset b) else None),
      cp_partition_offsets = (if bo_from b = From_Offset \<and> bo_partition b < 0 \<and> 0 < length (bo_partitions b)
        then Some (partition_entries (bo_partitions b) (bo_msg_offset b)) else None),
      cp_from_ts = bo_from_ts b, cp_to_ts = bo_to_ts b, cp_cursor = None\<rparr>"

section \<open>Pagination\<close>

text \<open>The state of \<open>useLoadMore\<close>; \<open>lm_generation\<close> is the counter that tells a page of an old filter.\<close>

record load_more =
  lm_tail :: "message list"
  lm_cursor :: "jstr option"
  lm_loading :: bool
  lm_error :: "jstr option"
  lm_generation :: nat

definition head_changed :: "messages_page option \<Rightarrow> load_more \<Rightarrow> load_more" where
  "head_changed head st = \<lparr>lm_tail = [], lm_cursor = (case head of None \<Rightarrow> None | Some h \<Rightarrow> mp_next_cursor h), lm_loading = False,
     lm_error = None, lm_generation = Suc (lm_generation st)\<rparr>"

text \<open>A click on "Load more": the parameters of the request, with the generation it belongs to.\<close>

definition load_more_start :: "consume_params \<Rightarrow> load_more \<Rightarrow> (consume_params \<times> nat) option \<times> load_more" where
  "load_more_start params st =
     (case or_undefined (lm_cursor st) of
        None \<Rightarrow> (None, st)
      | Some c \<Rightarrow> (Some (params\<lparr>cp_cursor := Some c\<rparr>, lm_generation st), st\<lparr>lm_loading := True, lm_error := None\<rparr>))"

text \<open>The answer to a request of a generation, an error message on the left.\<close>

definition load_more_answer :: "nat \<Rightarrow> jstr + messages_page \<Rightarrow> load_more \<Rightarrow> load_more" where
  "load_more_answer gen answer st =
     (if lm_generation st \<noteq> gen then st
      else (case answer of
          Inr next \<Rightarrow> st\<lparr>lm_tail := lm_tail st @ opt_or (mp_messages next) [],
            lm_cursor := (if mp_has_more next then mp_next_cursor next else None), lm_loading := False\<rparr>
        | Inl m \<Rightarrow> st\<lparr>lm_error := Some m, lm_loading := False\<rparr>))"

section \<open>Display\<close>

definition message_key :: "message \<Rightarrow> jstr" where
  "message_key m = dec_int (m_partition m) @ js ''-'' @ dec_int (m_offset m)"

definition dedupe_messages :: "message list \<Rightarrow> message list" where
  "dedupe_messages ms = dedupe_from message_key [] ms"

datatype sort_order = Newest | Oldest

text \<open>The comparison of the newest-first order: timestamp, then partition, then offset, all descending.\<close>

definition newest_le :: "message \<Rightarrow> message \<Rightarrow> bool" where
  "newest_le a b \<longleftrightarrow>
     (if timestamp_ms b \<noteq> timestamp_ms a then timestamp_ms b \<le> timestamp_ms a
      else if m_partition b \<noteq> m_partition a then m_partition b \<le> m_partition a
      else m_offset b \<le> m_offset a)"

definition order_for_display :: "message list \<Rightarrow> sort_order \<Rightarrow> message list" where
  "order_for_display ms s = (if s = Oldest then dedupe_messages ms else dedupe_messages (sort_by newest_le ms))"

text \<open>How many of the given messages carry each header, most frequent first, then by \<open>localeCompare\<close>.\<close>

record header_key_stat =
  hk_key :: jstr
  hk_count :: nat

fun count_keys :: "jstr list \<Rightarrow> (jstr, nat) jsmap \<Rightarrow> (jstr, nat) jsmap" where
  "count_keys [] c = c"
| "count_keys (k # ks) c = count_keys ks (mset_key k (opt_or (mget c k) 0 + 1) c)"

definition header_key_stats :: "(jstr \<Rightarrow> jstr \<Rightarrow> bool) \<Rightarrow> message list \<Rightarrow> header_key_stat list" where
  "header_key_stats le ms =
     sort_by (\<lambda>a b. if hk_count a \<noteq> hk_count b then hk_count b < hk_count a else le (hk_key a) (hk_key b))
       (map (\<lambda>(k, n). \<lparr>hk_key = k, hk_count = n\<rparr>) (count_keys (concat (map (\<lambda>m. mkeys (opt_or (m_headers m) [])) ms)) []))"

section \<open>Queries\<close>

text \<open>The record at one partition and offset: the page of one from there, and what it says.\<close>

definition single_params :: "int \<Rightarrow> int \<Rightarrow> consume_params" where
  "single_params p n = \<lparr>cp_partition = Some p, cp_limit = Some 1, cp_from = Some (js ''offset''), cp_offset = Some n,
     cp_partition_offsets = None, cp_from_ts = None, cp_to_ts = None, cp_cursor = None\<rparr>"

definition single_result :: "int \<Rightarrow> int \<Rightarrow> messages_page \<Rightarrow> message option \<times> int option" where
  "single_result p n page =
     (case opt_or (mp_messages page) [] of
        [] \<Rightarrow> (None, None)
      | first # _ \<Rightarrow> if m_offset first = n \<and> m_partition first = p then (Some first, None) else (None, Some (m_offset first)))"

definition latest_probe_params :: consume_params where
  "latest_probe_params = \<lparr>cp_partition = None, cp_limit = Some 1, cp_from = Some (js ''end''), cp_offset = None,
     cp_partition_offsets = None, cp_from_ts = None, cp_to_ts = None, cp_cursor = None\<rparr>"

text \<open>The keys of the queries: their parts as JSON, parameters included.\<close>

definition messages_topic_key :: "store \<Rightarrow> jstr \<Rightarrow> jstr \<Rightarrow> json list" where
  "messages_topic_key st cluster topic = [JsString (js ''messages''), cluster_key st cluster, JsString topic]"

definition single_key :: "store \<Rightarrow> jstr \<Rightarrow> jstr \<Rightarrow> int \<Rightarrow> int \<Rightarrow> json list" where
  "single_key st cluster topic p n = messages_topic_key st cluster topic @ [JsString (js ''single''), JsInt p, JsInt n]"

definition latest_probe_key :: "store \<Rightarrow> jstr \<Rightarrow> jstr \<Rightarrow> json list" where
  "latest_probe_key st cluster topic = [JsString (js ''produce-latest-probe''), cluster_key st cluster, JsString topic]"

definition raw_key :: "store \<Rightarrow> jstr \<Rightarrow> jstr \<Rightarrow> int \<Rightarrow> int \<Rightarrow> bool \<Rightarrow> json list" where
  "raw_key st cluster topic p n decoded =
     [JsString (js ''message-raw''), cluster_key st cluster, JsString topic, JsInt p, JsInt n, JsBool decoded]"

section \<open>Hydrating samples\<close>

definition max_hydrate_value_bytes :: int where
  "max_hydrate_value_bytes = 4 * 1024 * 1024"

datatype hydratable_encoding = Hy_Json | Hy_Xml

definition is_too_large_to_scan :: "message \<Rightarrow> bool" where
  "is_too_large_to_scan m \<longleftrightarrow> isTrue (value_truncated m) \<and> max_hydrate_value_bytes < opt_or (value_size_bytes m) 0"

definition needs_hydration :: "hydratable_encoding \<Rightarrow> message \<Rightarrow> bool" where
  "needs_hydration e m \<longleftrightarrow> isTrue (value_truncated m) \<and>
     (case e of Hy_Json \<Rightarrow> is_json_like_encoding (value_encoding m) | Hy_Xml \<Rightarrow> value_encoding m = js ''xml'') \<and>
     \<not> isTrue (masked m) \<and> opt_or (value_size_bytes m) 0 \<le> max_hydrate_value_bytes"

text \<open>One sample; a failing fetch or a value that is not base64 keeps the preview.\<close>

definition hydrate_message :: "api_env \<Rightarrow> jstr \<Rightarrow> jstr \<Rightarrow> hydratable_encoding \<Rightarrow> message \<Rightarrow> message" where
  "hydrate_message env cluster topic e m =
     (if \<not> needs_hydration e m then m
      else (case fetch_message_raw_base64 env cluster topic (m_partition m) (m_offset m) True of
          Inl _ \<Rightarrow> m
        | Inr b64 \<Rightarrow> (case base64_to_utf8 b64 of None \<Rightarrow> m | Some t \<Rightarrow> m\<lparr>m_value := Some t, value_truncated := Some False\<rparr>)))"

definition hydrate_truncated_sample_messages :: "api_env \<Rightarrow> jstr \<Rightarrow> jstr \<Rightarrow> message list \<Rightarrow> hydratable_encoding \<Rightarrow> message list" where
  "hydrate_truncated_sample_messages env cluster topic ms e = map (hydrate_message env cluster topic e) ms"

section \<open>Lemmas\<close>

interpretation newest: comparator newest_le
  by unfold_locales (auto simp: newest_le_def split: if_splits)

text \<open>The list never shows a record twice, loses none, and is sorted as chosen.\<close>

lemma display_distinct: "distinct (map message_key (order_for_display ms s))"
  by (simp add: order_for_display_def dedupe_messages_def dedupe_from_distinct)

lemma display_keys: "set (map message_key (order_for_display ms s)) = set (map message_key ms)"
  unfolding order_for_display_def dedupe_messages_def by (simp only: dedupe_from_keys if_distrib) (simp add: dedupe_from_keys image_image)

lemma display_sorted: "sorted_wrt newest_le (order_for_display ms Newest)"
  by (simp add: order_for_display_def dedupe_messages_def dedupe_from_sorted newest.sorted_sort_by)

text \<open>Keys of distinct records are distinct.\<close>

lemma dec_no_minus: "45 \<notin> set (dec n)"
  using dec_digits by (force simp: is_digit_def)

lemma message_key_inj:
  assumes "0 \<le> m_partition a" "0 \<le> m_partition b" "0 \<le> m_offset a" "0 \<le> m_offset b"
  shows "message_key a = message_key b \<longleftrightarrow> m_partition a = m_partition b \<and> m_offset a = m_offset b"
proof
  assume k: "message_key a = message_key b"
  have s: "split_on 45 (message_key x) = [dec (nat (m_partition x)), dec (nat (m_offset x))]"
    if "0 \<le> m_partition x" "0 \<le> m_offset x" for x
    using that dec_no_minus by (simp add: message_key_def dec_int_def js_def split_on_append split_on_none)
  from k s [of a] s [of b] assms show "m_partition a = m_partition b \<and> m_offset a = m_offset b"
    by (simp add: nat_eq_iff)
qed (simp add: message_key_def)

text \<open>A page of an earlier filter is dropped, whenever it arrives.\<close>

lemma stale_page_dropped:
  assumes "load_more_start params st = (Some (req, gen), st')"
  shows "load_more_answer gen answer (head_changed head st') = head_changed head st'"
  using assms by (auto simp: load_more_start_def load_more_answer_def head_changed_def split: option.splits)

lemma load_more_appends:
  assumes "load_more_start params st = (Some (req, gen), st')"
  shows "lm_tail (load_more_answer gen (Inr page) st') = lm_tail st @ opt_or (mp_messages page) [] \<and>
    cp_cursor req = lm_cursor st \<and> \<not> lm_loading (load_more_answer gen (Inr page) st')"
  using assms by (auto simp: load_more_start_def load_more_answer_def or_undefined_def split: option.splits list.splits)

text \<open>Seeking all partitions names each once.\<close>

lemma partition_entries_keys: "sorted (map fst (partition_entries ps n)) \<and> distinct (map fst (partition_entries ps n)) \<and>
    set (map fst (partition_entries ps n)) = set (map pi_partition ps)"
  by (simp add: partition_entries_def comp_def)

text \<open>Hydration changes the value only, and never that of a masked record.\<close>

lemma hydrate_masked: "isTrue (masked m) \<Longrightarrow> hydrate_message env c t e m = m"
  by (simp add: hydrate_message_def needs_hydration_def)

lemma hydrate_only_value: "(hydrate_message env c t e m)\<lparr>m_value := m_value m, value_truncated := value_truncated m\<rparr> = m"
  by (simp add: hydrate_message_def split: sum.splits option.splits)

end
