(* ===== verification/PathTree.thy ===== *)
theory PathTree
  imports Json CanonicalXml MessageSearch MessageList
begin

text \<open>
  The field paths suggested for a search: the paths of JSON samples (\<open>frontend/src/lib/path-tree.ts\<close>) and of XML
  samples (\<open>xml-path-tree.ts\<close>), collected in an insertion-ordered map up to a cap on paths and depth.
\<close>

datatype path_type = Pt_String | Pt_Number | Pt_Boolean | Pt_Null | Pt_Object | Pt_Array

type_synonym path_tree = "(jstr, path_type) jsmap"

definition max_depth :: nat where
  "max_depth = 20"

definition max_paths :: nat where
  "max_paths = 2000"

fun detect_type :: "json \<Rightarrow> path_type" where
  "detect_type JsNull = Pt_Null"
| "detect_type (JsArray _) = Pt_Array"
| "detect_type (JsObject _) = Pt_Object"
| "detect_type (JsString _) = Pt_String"
| "detect_type (JsInt _) = Pt_Number"
| "detect_type (JsFrac _) = Pt_Number"
| "detect_type (JsBool _) = Pt_Boolean"

definition record_path :: "path_tree \<Rightarrow> jstr \<Rightarrow> path_type \<Rightarrow> path_tree" where
  "record_path tree path t =
     (if mget tree path \<noteq> None then tree else if max_paths \<le> length tree then tree else mset_key path t tree)"

definition record_leaf :: "path_tree \<Rightarrow> jstr \<Rightarrow> json \<Rightarrow> path_tree" where
  "record_leaf tree path v = record_path tree path (detect_type v)"

definition field_path :: "jstr \<Rightarrow> jstr \<Rightarrow> jstr" where
  "field_path path k = path @ js ''.'' @ k"

definition items_path :: "jstr \<Rightarrow> jstr" where
  "items_path path = path @ js ''[*]''"

fun walk :: "path_tree \<Rightarrow> json \<Rightarrow> jstr \<Rightarrow> nat \<Rightarrow> path_tree"
  and walk_items :: "path_tree \<Rightarrow> json list \<Rightarrow> jstr \<Rightarrow> nat \<Rightarrow> path_tree"
  and walk_fields :: "path_tree \<Rightarrow> (jstr \<times> json) list \<Rightarrow> jstr \<Rightarrow> nat \<Rightarrow> path_tree" where
  "walk tree (JsArray vs) path depth =
     (if max_depth < depth \<or> max_paths \<le> length tree then tree
      else walk_items (record_leaf tree path (JsArray vs)) vs path depth)"
| "walk tree (JsObject fs) path depth =
     (if max_depth < depth \<or> max_paths \<le> length tree then tree
      else walk_fields (record_leaf tree path (JsObject fs)) fs path depth)"
| "walk tree v path depth =
     (if max_depth < depth \<or> max_paths \<le> length tree then tree else record_leaf tree path v)"
| "walk_items tree [] path depth = tree"
| "walk_items tree (v # vs) path depth = walk_items (walk tree v (items_path path) (Suc depth)) vs path depth"
| "walk_fields tree [] path depth = tree"
| "walk_fields tree ((k, v) # fs) path depth = walk_fields (walk tree v (field_path path k) (Suc depth)) fs path depth"

text \<open>A sample that is neither an array nor an object is skipped.\<close>

definition add_sample :: "path_tree \<Rightarrow> json \<Rightarrow> path_tree" where
  "add_sample tree sample =
     (case sample of JsArray vs \<Rightarrow> walk_items tree vs (js ''$'') 0 | JsObject fs \<Rightarrow> walk_fields tree fs (js ''$'') 0 | _ \<Rightarrow> tree)"

fun add_samples :: "path_tree \<Rightarrow> json list \<Rightarrow> path_tree" where
  "add_samples tree [] = tree"
| "add_samples tree (s # ss) = (if max_paths \<le> length tree then tree else add_samples (add_sample tree s) ss)"

definition build_path_tree :: "json list \<Rightarrow> path_tree" where
  "build_path_tree samples = add_samples [] samples"

section \<open>XML samples\<close>

definition xmlns_attribute :: "jstr \<Rightarrow> bool" where
  "xmlns_attribute name \<longleftrightarrow> name = js ''xmlns'' \<or> starts_with (js ''xmlns:'') name"

text \<open>A container wins over a leaf of the same path.\<close>

definition record_node :: "path_tree \<Rightarrow> jstr \<Rightarrow> bool \<Rightarrow> path_tree" where
  "record_node tree path container =
     (case mget tree path of
        None \<Rightarrow> if max_paths \<le> length tree then tree else mset_key path (if container then Pt_Object else Pt_String) tree
      | Some _ \<Rightarrow> if container then mset_key path Pt_Object tree else tree)"

definition element_children :: "xnode list \<Rightarrow> xnode list" where
  "element_children ks = filter is_elem ks"

definition record_attributes :: "path_tree \<Rightarrow> xattr list \<Rightarrow> jstr \<Rightarrow> path_tree" where
  "record_attributes tree as path =
     fold (\<lambda>a t. if xmlns_attribute (at_name a) then t else record_node t (path @ js ''/@'' @ at_name a) False) as tree"

fun walk_element :: "path_tree \<Rightarrow> xnode \<Rightarrow> jstr \<Rightarrow> nat \<Rightarrow> path_tree"
  and walk_elements :: "path_tree \<Rightarrow> xnode list \<Rightarrow> jstr \<Rightarrow> nat \<Rightarrow> path_tree" where
  "walk_element tree (XElem tag l ns as ks) path depth =
     (if max_depth < depth \<or> max_paths \<le> length tree then tree
      else walk_elements (record_attributes (record_node tree path (element_children ks \<noteq> [])) as path) ks path depth)"
| "walk_element tree n path depth = tree"
| "walk_elements tree [] path depth = tree"
| "walk_elements tree (k # ks) path depth =
     walk_elements (walk_element tree k (path @ js ''/'' @ tag_name k) (Suc depth)) ks path depth"

definition add_xml_sample :: "dom_parser \<Rightarrow> path_tree \<Rightarrow> jstr \<Rightarrow> path_tree" where
  "add_xml_sample parser tree sample =
     (case parse_xml_doc parser sample of
        None \<Rightarrow> tree
      | Some doc \<Rightarrow> (case document_element doc of None \<Rightarrow> tree | Some el \<Rightarrow> walk_element tree el (js ''//'' @ tag_name el) 1))"

fun add_xml_samples :: "dom_parser \<Rightarrow> path_tree \<Rightarrow> jstr list \<Rightarrow> path_tree" where
  "add_xml_samples parser tree [] = tree"
| "add_xml_samples parser tree (s # ss) =
     (if max_paths \<le> length tree then tree else add_xml_samples parser (add_xml_sample parser tree s) ss)"

definition build_xml_path_tree :: "dom_parser \<Rightarrow> jstr list \<Rightarrow> path_tree" where
  "build_xml_path_tree parser samples = add_xml_samples parser [] samples"

section \<open>The suggestions of a search\<close>

text \<open>
  \<open>usePathSuggestions\<close>: both trees of a sample's (hydrated) messages; \<open>parse\<close> is \<open>JSON.parse\<close>. A value
  that does not parse is dropped.
\<close>

definition sample_encoding :: "search_mode \<Rightarrow> hydratable_encoding" where
  "sample_encoding mode = (if mode = Sm_Xpath then Hy_Xml else Hy_Json)"

definition sample_enabled :: "search_mode \<Rightarrow> bool \<Rightarrow> bool" where
  "sample_enabled mode search_open \<longleftrightarrow> search_open \<and> (mode = Sm_Jsonpath \<or> mode = Sm_Xpath)"

definition sample_messages :: "messages_page option \<Rightarrow> message list" where
  "sample_messages data = (case data of None \<Rightarrow> [] | Some page \<Rightarrow> opt_or (mp_messages page) [])"

definition parsed_samples :: "(jstr \<Rightarrow> json option) \<Rightarrow> message list \<Rightarrow> json list" where
  "parsed_samples parse ms = filter is_object (List.map_filter (\<lambda>m. parse (opt_or (m_value m) [])) ms)"

definition suggested_json_paths :: "(jstr \<Rightarrow> json option) \<Rightarrow> messages_page option \<Rightarrow> path_tree" where
  "suggested_json_paths parse data = build_path_tree (parsed_samples parse (sample_messages data))"

definition sample_too_large_to_scan :: "messages_page option \<Rightarrow> bool" where
  "sample_too_large_to_scan data = list_ex is_too_large_to_scan (sample_messages data)"

definition suggested_xml_paths :: "dom_parser \<Rightarrow> messages_page option \<Rightarrow> path_tree" where
  "suggested_xml_paths parser data =
     build_xml_path_tree parser
       (filter (\<lambda>v. looks_like_xml (Some v)) (map (\<lambda>m. opt_or (m_value m) []) (sample_messages data)))"

section \<open>The suggestion list\<close>

text \<open>
  \<open>PathSense\<close>: the paths by rank, and the Tab key's change of the last array step. The pattern that boosts a
  path looks at its last step, letters of either case.
\<close>

definition top_n :: nat where
  "top_n = 8"

definition lower_cu :: "cu \<Rightarrow> cu" where
  "lower_cu c = (if 65 \<le> c \<and> c \<le> 90 then c + 32 else c)"

definition ends_in :: "jstr \<Rightarrow> jstr \<Rightarrow> bool" where
  "ends_in suffix s \<longleftrightarrow> length suffix \<le> length s \<and> drop (length s - length suffix) s = suffix"

definition common_boost :: "jstr \<Rightarrow> bool" where
  "common_boost tail \<longleftrightarrow>
     list_ex (\<lambda>w. ends_in (js w) (map lower_cu tail))
       [''id'', ''number'', ''status'', ''type'', ''timestamp'', ''createdat'', ''updatedat'']"

definition path_tail :: "jstr \<Rightarrow> jstr" where
  "path_tail path = rev (takeWhile (\<lambda>c. c \<notin> {46, 91, 47}) (rev path))"

definition path_rank :: "jstr \<times> path_type \<Rightarrow> int" where
  "path_rank row =
     (if snd row \<noteq> Pt_Object \<and> snd row \<noteq> Pt_Array then 5 else 0)
     - int (length (filter (\<lambda>c. c = 46 \<or> c = 47) (fst row)))
     + (if common_boost (path_tail (fst row)) then 3 else 0)"

definition path_rows :: "path_tree \<Rightarrow> (jstr \<times> path_type) list" where
  "path_rows tree = sort_by (\<lambda>a b. path_rank b \<le> path_rank a) tree"

definition toggle_array_segment :: "jstr \<Rightarrow> jstr" where
  "toggle_array_segment path =
     (let before = rev (dropWhile (\<lambda>c. c \<noteq> 91) (rev path)); after = drop (length before) path;
          inner = takeWhile (\<lambda>c. c \<noteq> 93) after
      in if before = [] \<or> inner = after then path
         else before @ (if inner = js ''*'' then js ''0'' else js ''*'') @ drop (length inner) after)"

definition suggested_rows :: "(path_tree \<Rightarrow> jstr \<Rightarrow> path_tree) \<Rightarrow> path_tree \<Rightarrow> jstr \<Rightarrow> path_tree" where
  "suggested_rows fuzzy tree query =
     (if trim query \<noteq> [] then fuzzy (path_rows tree) query else take top_n (path_rows tree))"

lemma toggle_array_segment_examples:
  "toggle_array_segment (js ''$.items[3].sku'') = js ''$.items[*].sku''"
  "toggle_array_segment (js ''$.items[*].sku'') = js ''$.items[0].sku''"
  "toggle_array_segment (js ''$.a[0].b[*]'') = js ''$.a[0].b[0]''"
  "toggle_array_segment (js ''$.a'') = js ''$.a''"
  by (simp_all add: toggle_array_segment_def js_def Let_def)

section \<open>The cap and the keys\<close>

text \<open>What every step keeps: distinct paths, at most the cap.\<close>

definition tree_ok :: "path_tree \<Rightarrow> bool" where
  "tree_ok tree \<longleftrightarrow> distinct (mkeys tree) \<and> length tree \<le> max_paths"

lemma tree_ok_Nil [simp]: "tree_ok []"
  by (simp add: tree_ok_def mkeys_def)

lemma tree_ok_record_leaf: "tree_ok tree \<Longrightarrow> tree_ok (record_leaf tree path v)"
  by (auto simp: record_leaf_def record_path_def tree_ok_def length_mset_key)

lemma tree_ok_set_key:
  "tree_ok tree \<Longrightarrow> path \<in> set (mkeys tree) \<or> length tree < max_paths \<Longrightarrow> tree_ok (mset_key path x tree)"
  by (auto simp: tree_ok_def length_mset_key)

lemma tree_ok_record_node:
  assumes "tree_ok tree"
  shows "tree_ok (record_node tree path c)"
proof (cases "mget tree path")
  case None
  then show ?thesis using assms by (auto simp: record_node_def tree_ok_set_key)
next
  case (Some t)
  then have "path \<in> set (mkeys tree)" using mget_in_mkeys [of tree path] by simp
  then show ?thesis using assms Some by (simp add: record_node_def tree_ok_set_key)
qed

lemma walk_ok:
  "tree_ok tree \<Longrightarrow> tree_ok (walk tree v path depth)"
  "tree_ok tree \<Longrightarrow> tree_ok (walk_items tree vs path depth)"
  "tree_ok tree \<Longrightarrow> tree_ok (walk_fields tree fs path depth)"
  by (induction tree v path depth and tree vs path depth and tree fs path depth rule: walk_walk_items_walk_fields.induct)
    (simp_all add: tree_ok_record_leaf)

lemma add_samples_ok: "tree_ok tree \<Longrightarrow> tree_ok (add_samples tree ss)"
  by (induction ss arbitrary: tree) (simp_all add: add_sample_def walk_ok split: json.splits)

lemma path_tree_bounded: "distinct (mkeys (build_path_tree ss)) \<and> length (build_path_tree ss) \<le> 2000"
  using add_samples_ok [OF tree_ok_Nil, of ss] by (simp add: build_path_tree_def tree_ok_def max_paths_def)

lemma record_attributes_ok: "tree_ok tree \<Longrightarrow> tree_ok (record_attributes tree as path)"
  unfolding record_attributes_def by (induction as arbitrary: tree) (simp_all add: tree_ok_record_node)

lemma walk_element_ok:
  "tree_ok tree \<Longrightarrow> tree_ok (walk_element tree n path depth)"
  "tree_ok tree \<Longrightarrow> tree_ok (walk_elements tree ns path depth)"
  by (induction tree n path depth and tree ns path depth rule: walk_element_walk_elements.induct)
    (simp_all add: tree_ok_record_node record_attributes_ok)

lemma add_xml_samples_ok: "tree_ok tree \<Longrightarrow> tree_ok (add_xml_samples parser tree ss)"
  by (induction ss arbitrary: tree) (simp_all add: add_xml_sample_def walk_element_ok split: option.splits)

lemma xml_path_tree_bounded: "distinct (mkeys (build_xml_path_tree parser ss)) \<and> length (build_xml_path_tree parser ss) \<le> 2000"
  using add_xml_samples_ok [OF tree_ok_Nil, of parser ss] by (simp add: build_xml_path_tree_def tree_ok_def max_paths_def)

section \<open>Keys that need quotes\<close>

text \<open>
  A suggestion writes a key with a dot as two steps. It is the path of a nested field, not of the
  field the sample has; a click on the same field quotes the key.
\<close>

lemma suggested_path_of_dotted_key:
  "build_path_tree [JsObject [(js ''a.b'', JsInt 1)]] = [(js ''$.a.b'', Pt_Number)]"
  "mget (build_path_tree [JsObject [(js ''a'', JsObject [(js ''b'', JsInt 1)])]]) (js ''$.a.b'') = Some Pt_Number"
  "build_json_path [Tk_Key (js ''a.b'')] = js ''$'' @ [91, 39] @ js ''a.b'' @ [39, 93]"
  by (simp_all add: build_path_tree_def add_sample_def record_leaf_def record_path_def field_path_def max_depth_def max_paths_def
      js_def mset_key_def mget_def build_json_path_def safe_key_def ident_start_def is_digit_def escape_key_def)

end
