(* ===== verification/ConfirmedWrite.thy ===== *)
theory ConfirmedWrite
  imports Strings
begin

text \<open>
  The dialog that confirms a risky action (\<open>frontend/src/components/ui/ConfirmDialog.tsx\<close>), and the interface of
  the components that send writes from event handlers: a step takes the state and an event, and may send one
  request. What holds of every request a step sends holds of every request of every sequence of events.
\<close>

section \<open>The dialog\<close>

text \<open>Whether it is open belongs to the caller; closing it empties the typed phrase and the busy flag.\<close>

record confirm_dialog =
  cd_open :: bool
  cd_typed :: jstr
  cd_busy :: bool

definition confirm_closed :: confirm_dialog where
  "confirm_closed = \<lparr>cd_open = False, cd_typed = [], cd_busy = False\<rparr>"

definition set_open :: "bool \<Rightarrow> confirm_dialog \<Rightarrow> confirm_dialog" where
  "set_open b d = (if b then d\<lparr>cd_open := True\<rparr> else confirm_closed)"

definition type_phrase :: "jstr \<Rightarrow> confirm_dialog \<Rightarrow> confirm_dialog" where
  "type_phrase s d = (if cd_open d then d\<lparr>cd_typed := s\<rparr> else d)"

definition phrase_ok :: "jstr option \<Rightarrow> confirm_dialog \<Rightarrow> bool" where
  "phrase_ok phrase d \<longleftrightarrow> phrase = None \<or> phrase = Some [] \<or> phrase = Some (cd_typed d)"

text \<open>The start of \<open>handleConfirm\<close>: \<open>None\<close> when the click does nothing, else the caller's action runs.\<close>

definition confirm_click :: "jstr option \<Rightarrow> confirm_dialog \<Rightarrow> confirm_dialog option" where
  "confirm_click phrase d = (if \<not> cd_open d \<or> cd_busy d \<or> \<not> phrase_ok phrase d then None else Some (d\<lparr>cd_busy := True\<rparr>))"

text \<open>Its end: the dialog closes when the action succeeds, and stays open when it throws.\<close>

definition confirm_settled :: "bool \<Rightarrow> confirm_dialog \<Rightarrow> confirm_dialog" where
  "confirm_settled ok d = (if ok then set_open False d else d\<lparr>cd_busy := False\<rparr>)"

definition confirm_dismiss :: "confirm_dialog \<Rightarrow> confirm_dialog" where
  "confirm_dismiss d = (if cd_busy d then d else set_open False d)"

text \<open>An action starts only in an open dialog with the phrase typed, and not twice.\<close>

lemma confirm_click_iff:
  "confirm_click phrase d = Some d' \<longleftrightarrow> cd_open d \<and> \<not> cd_busy d \<and> phrase_ok phrase d \<and> d' = d\<lparr>cd_busy := True\<rparr>"
  by (auto simp: confirm_click_def)

lemma confirm_click_once: "confirm_click phrase d = Some d' \<Longrightarrow> confirm_click phrase d' = None \<and> confirm_dismiss d' = d'"
  by (auto simp: confirm_click_iff) (simp_all add: confirm_click_def confirm_dismiss_def)

section \<open>Senders\<close>

text \<open>The requests of a sequence of events, each with the state it was sent in.\<close>

fun sends :: "('s \<Rightarrow> 'e \<Rightarrow> 'r option \<times> 's) \<Rightarrow> 's \<Rightarrow> 'e list \<Rightarrow> ('s \<times> 'r) list" where
  "sends step s [] = []"
| "sends step s (e # es) =
     (case step s e of (sent, s') \<Rightarrow> (case sent of None \<Rightarrow> [] | Some r \<Rightarrow> [(s, r)]) @ sends step s' es)"

fun after_events :: "('s \<Rightarrow> 'e \<Rightarrow> 'r option \<times> 's) \<Rightarrow> 's \<Rightarrow> 'e list \<Rightarrow> 's" where
  "after_events step s [] = s"
| "after_events step s (e # es) = after_events step (snd (step s e)) es"

locale sender =
  fixes step :: "'s \<Rightarrow> 'e \<Rightarrow> 'r option \<times> 's"
    and inv :: "'s \<Rightarrow> bool"
    and allowed :: "'e \<Rightarrow> bool"
    and ok :: "'s \<Rightarrow> 'r \<Rightarrow> bool"
  assumes step_inv: "inv s \<Longrightarrow> allowed e \<Longrightarrow> inv (snd (step s e))"
    and step_ok: "inv s \<Longrightarrow> allowed e \<Longrightarrow> fst (step s e) = Some r \<Longrightarrow> ok s r"
begin

lemma after_inv: "inv s \<Longrightarrow> list_all allowed es \<Longrightarrow> inv (after_events step s es)"
  by (induction es arbitrary: s) (simp_all add: step_inv)

lemma sends_ok: "inv s \<Longrightarrow> list_all allowed es \<Longrightarrow> (t, r) \<in> set (sends step s es) \<Longrightarrow> inv t \<and> ok t r"
proof (induction es arbitrary: s)
  case (Cons e es)
  obtain sent s' where st: "step s e = (sent, s')" by (cases "step s e")
  have a: "allowed e" "list_all allowed es" using Cons.prems(2) by simp_all
  have i: "inv s'" using step_inv [OF Cons.prems(1) a(1)] by (simp add: st)
  show ?case
  proof (cases "(t, r) \<in> set (sends step s' es)")
    case True
    then show ?thesis by (rule Cons.IH [OF i a(2)])
  next
    case False
    then have "sent = Some r" "t = s" using Cons.prems(3) by (auto simp: st split: option.splits)
    then show ?thesis using step_ok [OF Cons.prems(1) a(1)] Cons.prems(1) by (simp add: st)
  qed
qed simp

end

lemma list_all_True [simp]: "list_all (\<lambda>_. True) xs"
  by (induction xs) simp_all

end
