(* ===== verification/Fuzzy.thy ===== *)
theory Fuzzy
  imports Strings
begin

text \<open>
  Text search in lists (\<open>frontend/src/lib/fuzzy.ts\<close>): the query the search helper hands to Fuse, and what it
  makes of the hits. Fuse itself is a parameter: from the keys, the query and the items it gives the hits in
  their order, each with the ranges that matched per key.
\<close>

text \<open>\<open>s.includes(part)\<close>.\<close>

definition contains_text :: "jstr \<Rightarrow> jstr \<Rightarrow> bool" where
  "contains_text part s \<longleftrightarrow> list_ex (\<lambda>i. starts_with part (drop i s)) [0..<Suc (length s)]"

text \<open>\<open>split(/\s+/).filter(Boolean)\<close>: the maximal runs of other characters.\<close>

fun fields :: "('a \<Rightarrow> bool) \<Rightarrow> 'a list \<Rightarrow> 'a list list" where
  "fields p [] = [[]]"
| "fields p (c # s) = (if p c then [] # fields p s else (c # hd (fields p s)) # tl (fields p s))"

definition words :: "jstr \<Rightarrow> jstr list" where
  "words s = filter (\<lambda>w. w \<noteq> []) (fields js_space s)"

definition fuse_operator :: "cu \<Rightarrow> bool" where
  "fuse_operator c \<longleftrightarrow> c \<in> {39, 94, 33, 61}"

definition strip_operators :: "jstr \<Rightarrow> jstr" where
  "strip_operators t = dropWhile fuse_operator t"

definition build_extended_query :: "jstr \<Rightarrow> jstr" where
  "build_extended_query raw = join [32] (map (\<lambda>t. 39 # strip_operators t) (words (trim raw)))"

type_synonym 'a fuse = "jstr list \<Rightarrow> jstr \<Rightarrow> 'a list \<Rightarrow> ('a \<times> (jstr, (nat \<times> nat) list) jsmap) list"

definition fuzzy_results :: "'a fuse \<Rightarrow> jstr list \<Rightarrow> jstr \<Rightarrow> 'a list \<Rightarrow> 'a list" where
  "fuzzy_results fuse keys query items =
     (if trim query = [] then items else map fst (fuse keys (build_extended_query (trim query)) items))"

definition fuzzy_ranges :: "'a fuse \<Rightarrow> jstr list \<Rightarrow> jstr \<Rightarrow> 'a list \<Rightarrow> 'a \<Rightarrow> jstr \<Rightarrow> (nat \<times> nat) list" where
  "fuzzy_ranges fuse keys query items item key =
     (if trim query = [] then []
      else case find (\<lambda>(i, _). i = item) (rev (fuse keys (build_extended_query (trim query)) items)) of
        None \<Rightarrow> []
      | Some (_, ms) \<Rightarrow> (case mget ms key of None \<Rightarrow> [] | Some rs \<Rightarrow> rs))"

section \<open>The tokens\<close>

lemma fields_nonempty: "fields p s \<noteq> []"
  by (cases s) simp_all

lemma fields_parts: "w \<in> set (fields p s) \<Longrightarrow> c \<in> set w \<Longrightarrow> \<not> p c"
proof (induction s arbitrary: w)
  case (Cons d s)
  have "w \<in> set (fields p s) \<or> (w = d # hd (fields p s) \<and> \<not> p d) \<or> w = []"
    using Cons.prems(1) by (auto split: if_splits dest: list.set_sel(2) [OF fields_nonempty])
  then show ?case using Cons.IH Cons.prems(2) hd_in_set [OF fields_nonempty, of p s] by auto
qed simp

lemma words_no_space: "t \<in> set (words s) \<Longrightarrow> t \<noteq> [] \<and> (\<forall>c\<in>set t. \<not> js_space c)"
  by (auto simp: words_def dest: fields_parts)

lemma concat_fields: "concat (fields p s) = filter (\<lambda>c. \<not> p c) s"
proof (induction s)
  case (Cons c s)
  have "concat (fields p s) = hd (fields p s) @ concat (tl (fields p s))" using fields_nonempty [of p s] by (cases "fields p s") simp_all
  then show ?case using Cons.IH by simp
qed simp

text \<open>No character is lost.\<close>

lemma words_complete: "concat (words s) = filter (\<lambda>c. \<not> js_space c) s"
proof -
  have "concat (filter (\<lambda>w. w \<noteq> []) ws) = concat ws" for ws :: "jstr list" by (induction ws) auto
  then show ?thesis by (simp add: words_def concat_fields)
qed

text \<open>The query is one token with a leading quote for every word, in their order.\<close>

lemma quoted_no_space: "t \<in> set (words s) \<Longrightarrow> (32 :: cu) \<notin> set (39 # strip_operators t)"
proof -
  assume "t \<in> set (words s)"
  then have "\<forall>c\<in>set (strip_operators t). \<not> js_space c"
    using words_no_space by (auto simp: strip_operators_def dest: set_dropWhileD)
  moreover have "js_space 32" by (simp add: js_space_def)
  ultimately show ?thesis by auto
qed

lemma build_extended_query_tokens:
  assumes "words (trim raw) \<noteq> []"
  shows "split_on 32 (build_extended_query raw) = map (\<lambda>t. 39 # strip_operators t) (words (trim raw))"
  unfolding build_extended_query_def by (rule split_join) (use assms quoted_no_space in auto)

lemma fuzzy_results_blank: "trim query = [] \<Longrightarrow> fuzzy_results fuse keys query items = items"
  by (simp add: fuzzy_results_def)

text \<open>The hits are items of the list.\<close>

definition fuse_sound :: "'a fuse \<Rightarrow> bool" where
  "fuse_sound fuse \<longleftrightarrow> (\<forall>keys q items. fst ` set (fuse keys q items) \<subseteq> set items)"

lemma fuzzy_results_subset: "fuse_sound fuse \<Longrightarrow> set (fuzzy_results fuse keys q items) \<subseteq> set items"
  by (auto simp: fuzzy_results_def fuse_sound_def)

end
