(* ===== verification/Replay.thy ===== *)
theory Replay
  imports ConfirmedWrite ClusterSwitcher CopyStream ProduceEncoding MessageList Fuzzy
begin

text \<open>
  The replay dialog (\<open>frontend/src/features/messages/ReplayModal.tsx\<close>): which value it sends for a truncated
  message, when its button is enabled, and the confirmation of a production cluster. What a render reads from
  outside (properties, the cluster list, the query of the full value) is a record of its own; an event may change it.
\<close>

section \<open>The full value of a truncated message\<close>

datatype full_value = Fv_Idle | Fv_Fetching | Fv_Ready jstr | Fv_Error jstr

definition max_produce_body_bytes :: nat where
  "max_produce_body_bytes = 15 * 1024 * 1024"

definition produce_value_headroom_bytes :: nat where
  "produce_value_headroom_bytes = 512 * 1024"

definition max_replay_value_base64_chars :: nat where
  "max_replay_value_base64_chars = max_produce_body_bytes - produce_value_headroom_bytes"

definition resolve_full_value :: "bool \<Rightarrow> bool \<Rightarrow> bool \<Rightarrow> api_error option \<Rightarrow> jstr option \<Rightarrow> jstr \<Rightarrow> full_value" where
  "resolve_full_value needs source fetching err base64 size_label =
     (if \<not> needs then Fv_Idle
      else if \<not> source then Fv_Error (js ''source cluster/topic unknown'')
      else if fetching then Fv_Fetching
      else case err of
        Some e \<Rightarrow> Fv_Error (case e of
            Raw_Value_Too_Large _ \<Rightarrow> js ''value exceeds the download limit ('' @ size_label @ js '')''
          | _ \<Rightarrow> error_message e)
      | None \<Rightarrow> (case base64 of
          None \<Rightarrow> Fv_Fetching
        | Some b \<Rightarrow> if max_replay_value_base64_chars < length b
            then Fv_Error (js ''full value ('' @ size_label @ js '') is too large to send to the produce API in one request'')
            else Fv_Ready b))"

section \<open>State\<close>

record replay_view =
  rv_open :: bool
  rv_message :: message
  rv_source_cluster :: "jstr option"
  rv_source_topic :: "jstr option"
  rv_clusters :: "cluster_list_item list option"
  rv_fetching :: bool
  rv_error :: "api_error option"
  rv_data :: "jstr option"
  rv_size_label :: jstr

text \<open>\<open>rp_pending\<close> is the request in flight: whether it was the one of the confirmation dialog.\<close>

record replay_state =
  rp_view :: replay_view
  rp_dest_cluster :: jstr
  rp_dest_topic :: jstr
  rp_busy :: bool
  rp_error :: "jstr option"
  rp_result :: "json option"
  rp_dialog :: confirm_dialog
  rp_allow_truncated :: bool
  rp_pending :: "bool option"

definition replay_initial :: "replay_view \<Rightarrow> replay_state" where
  "replay_initial v = \<lparr>rp_view = v, rp_dest_cluster = [], rp_dest_topic = [], rp_busy = False, rp_error = None, rp_result = None,
     rp_dialog = confirm_closed, rp_allow_truncated = False, rp_pending = None\<rparr>"

definition replay_needs_full_value :: "replay_view \<Rightarrow> bool" where
  "replay_needs_full_value v \<longleftrightarrow> rv_open v \<and> isTrue (value_truncated (rv_message v)) \<and> replay_blocker (rv_message v) = None"

definition full_value_of :: "replay_view \<Rightarrow> full_value" where
  "full_value_of v = resolve_full_value (replay_needs_full_value v) (truthy_str (rv_source_cluster v) \<and> truthy_str (rv_source_topic v))
     (rv_fetching v) (rv_error v) (rv_data v) (rv_size_label v)"

definition effective_cluster :: "cluster_list_item list option \<Rightarrow> jstr \<Rightarrow> jstr" where
  "effective_cluster clusters dest = (if dest \<noteq> [] then dest else case opt_or clusters [] of [] \<Rightarrow> [] | c # _ \<Rightarrow> cl_name c)"

definition is_prod_dest :: "cluster_list_item list option \<Rightarrow> jstr \<Rightarrow> bool" where
  "is_prod_dest clusters name = (case find (\<lambda>c. cl_name c = name) (opt_or clusters []) of None \<Rightarrow> False | Some c \<Rightarrow> cl_is_prod c)"

definition replay_dest :: "replay_state \<Rightarrow> jstr" where
  "replay_dest st = effective_cluster (rv_clusters (rp_view st)) (rp_dest_cluster st)"

definition replay_is_prod :: "replay_state \<Rightarrow> bool" where
  "replay_is_prod st = is_prod_dest (rv_clusters (rp_view st)) (replay_dest st)"

definition key_payload :: "message \<Rightarrow> produce_payload option" where
  "key_payload m = produce_encoding_for (m_key m) (key_b64 m) (key_encoding m)"

definition value_payload :: "replay_view \<Rightarrow> produce_payload option" where
  "value_payload v = (case full_value_of v of
       Fv_Ready b \<Rightarrow> Some (b, PBase64)
     | _ \<Rightarrow> produce_encoding_for (m_value (rv_message v)) (value_b64 (rv_message v)) (value_encoding (rv_message v)))"

definition truncated_not_resolved :: "replay_state \<Rightarrow> bool" where
  "truncated_not_resolved st \<longleftrightarrow> isTrue (value_truncated (rv_message (rp_view st))) \<and>
     (case full_value_of (rp_view st) of Fv_Ready _ \<Rightarrow> False | Fv_Error _ \<Rightarrow> \<not> rp_allow_truncated st | _ \<Rightarrow> True)"

definition can_replay :: "replay_state \<Rightarrow> bool" where
  "can_replay st \<longleftrightarrow> replay_dest st \<noteq> [] \<and> trim (rp_dest_topic st) \<noteq> [] \<and> \<not> rp_busy st \<and>
     replay_blocker (rv_message (rp_view st)) = None \<and> \<not> truncated_not_resolved st"

section \<open>Sending\<close>

record replay_request =
  rr_cluster :: jstr
  rr_topic :: jstr
  rr_body :: json
  rr_confirmed :: bool

definition text_map :: "(jstr, jstr) jsmap option \<Rightarrow> json option" where
  "text_map h = map_option (\<lambda>m. JsObject (map (\<lambda>(k, v). (k, JsString v)) m)) h"

definition replay_body :: "message \<Rightarrow> produce_payload \<Rightarrow> produce_payload \<Rightarrow> json" where
  "replay_body m k v = JsObject (members
     [(js ''key'', Some (JsString (fst k))), (js ''value'', Some (JsString (fst v))),
      (js ''key_encoding'', Some (JsString (encoding_name (snd k)))), (js ''value_encoding'', Some (JsString (encoding_name (snd v)))),
      (js ''headers'', text_map (m_headers m)), (js ''headers_b64'', text_map (headers_b64 m))])"

text \<open>\<open>doReplay\<close> up to the request; \<open>None\<close> is an early return.\<close>

definition replay_request_of :: "bool \<Rightarrow> replay_state \<Rightarrow> replay_request option" where
  "replay_request_of confirmed st =
     (let m = rv_message (rp_view st) in
      if replay_dest st = [] \<or> trim (rp_dest_topic st) = [] \<or> replay_blocker m \<noteq> None \<or> truncated_not_resolved st then None
      else case (key_payload m, value_payload (rp_view st)) of
          (Some k, Some v) \<Rightarrow> Some \<lparr>rr_cluster = replay_dest st, rr_topic = trim (rp_dest_topic st), rr_body = replay_body m k v, rr_confirmed = confirmed\<rparr>
        | _ \<Rightarrow> None)"

definition do_replay :: "bool \<Rightarrow> replay_state \<Rightarrow> replay_request option \<times> replay_state" where
  "do_replay confirmed st =
     (case replay_request_of confirmed st of
        None \<Rightarrow> (None, st)
      | Some r \<Rightarrow> (Some r, st\<lparr>rp_busy := True, rp_error := None, rp_result := None, rp_pending := Some confirmed\<rparr>))"

text \<open>The call itself: what the answer event then carries, an error's message or the body of the response.\<close>

definition replay_call :: "api_env \<Rightarrow> (byte list \<Rightarrow> byte list option) option \<Rightarrow> replay_request \<Rightarrow> jstr + json option" where
  "replay_call env gzip r =
     (case produce_message env gzip (rr_cluster r) (rr_topic r) (rr_body r) (rr_confirmed r) of
        Inl e \<Rightarrow> Inl (error_message e) | Inr d \<Rightarrow> Inr d)"

datatype replay_event =
    Rp_View replay_view
  | Rp_Cluster jstr
  | Rp_Topic jstr
  | Rp_Allow bool
  | Rp_Click
  | Rp_Confirm
  | Rp_Dismiss
  | Rp_Answer "jstr + json"
  | Rp_Close

text \<open>The end of \<open>doReplay\<close>; after a confirmed request the dialog closes, whatever the answer was.\<close>

definition replay_answer :: "jstr + json \<Rightarrow> replay_state \<Rightarrow> replay_state" where
  "replay_answer answer st =
     (case rp_pending st of
        None \<Rightarrow> st
      | Some confirmed \<Rightarrow>
          let st1 = (case answer of
                Inr j \<Rightarrow> st\<lparr>rp_result := Some j\<rparr>
              | Inl msg \<Rightarrow> if contains_text (js ''428'') msg then st\<lparr>rp_dialog := set_open True (rp_dialog st)\<rparr>
                  else st\<lparr>rp_error := Some msg\<rparr>)
          in st1\<lparr>rp_busy := False, rp_pending := None,
               rp_dialog := (if confirmed then confirm_settled True (rp_dialog st1) else rp_dialog st1)\<rparr>)"

text \<open>A new view re-arms the opt-in when it targets another record, or opens or closes the dialog.\<close>

definition replay_retarget :: "replay_view \<Rightarrow> replay_state \<Rightarrow> replay_state" where
  "replay_retarget v st =
     (let old = rp_view st; same = (rv_open v = rv_open old \<and> m_partition (rv_message v) = m_partition (rv_message old)
            \<and> m_offset (rv_message v) = m_offset (rv_message old))
      in st\<lparr>rp_view := v, rp_allow_truncated := (if same then rp_allow_truncated st else False)\<rparr>)"

definition replay_step :: "replay_state \<Rightarrow> replay_event \<Rightarrow> replay_request option \<times> replay_state" where
  "replay_step st e =
     (case e of
        Rp_View v \<Rightarrow> (None, replay_retarget v st)
      | Rp_Cluster c \<Rightarrow> (None, st\<lparr>rp_dest_cluster := c, rp_dest_topic := [], rp_result := None, rp_error := None\<rparr>)
      | Rp_Topic t \<Rightarrow> (None, st\<lparr>rp_dest_topic := t, rp_result := None, rp_error := None\<rparr>)
      | Rp_Allow b \<Rightarrow> (None, st\<lparr>rp_allow_truncated := b\<rparr>)
      | Rp_Click \<Rightarrow>
          if \<not> can_replay st \<or> cd_open (rp_dialog st) then (None, st)
          else if replay_is_prod st then (None, st\<lparr>rp_dialog := set_open True (rp_dialog st)\<rparr>)
          else do_replay False st
      | Rp_Confirm \<Rightarrow> (case confirm_click None (rp_dialog st) of
            None \<Rightarrow> (None, st)
          | Some d \<Rightarrow> (case do_replay True (st\<lparr>rp_dialog := d\<rparr>) of
                (None, st') \<Rightarrow> (None, st'\<lparr>rp_dialog := confirm_settled True d\<rparr>)
              | sent \<Rightarrow> sent))
      | Rp_Dismiss \<Rightarrow> (None, st\<lparr>rp_dialog := confirm_dismiss (rp_dialog st)\<rparr>)
      | Rp_Answer a \<Rightarrow> (None, replay_answer a st)
      | Rp_Close \<Rightarrow>
          if rp_busy st then (None, st)
          else (None, replay_retarget ((rp_view st)\<lparr>rv_open := False\<rparr>)
            (st\<lparr>rp_error := None, rp_result := None, rp_dialog := set_open False (rp_dialog st)\<rparr>)))"

section \<open>What is sent\<close>

text \<open>The record behind a message: the consumer rendered its key, and the payload its value was cut to.\<close>

definition renders_record :: "(byte list \<Rightarrow> bool) \<Rightarrow> (byte list \<Rightarrow> bool) \<Rightarrow> message \<Rightarrow> byte list option \<Rightarrow> byte list option \<Rightarrow> bool" where
  "renders_record jv xv m k shown \<longleftrightarrow>
     (case decode_bytes jv xv k False of (r, e, b) \<Rightarrow> m_key m = omit_empty r \<and> key_encoding m = e \<and> key_b64 m = omit_empty b) \<and>
     (case decode_bytes jv xv shown (isTrue (value_truncated m)) of (r, e, b) \<Rightarrow>
        m_value m = omit_empty r \<and> value_encoding m = e \<and> value_b64 m = omit_empty b)"

text \<open>How the server reads a field of the request.\<close>

definition sent_field :: "jstr \<Rightarrow> jstr \<Rightarrow> json \<Rightarrow> (jstr + byte list option) option" where
  "sent_field name enc body =
     (case (jprop name body, jprop enc body) of
        (Some (JsString v), Some (JsString e)) \<Rightarrow> Some (decode_produce_payload v e) | _ \<Rightarrow> None)"

lemma sent_field_body:
  "sent_field (js ''key'') (js ''key_encoding'') (replay_body m k v) = Some (decode_produce_payload (fst k) (encoding_name (snd k)))"
  "sent_field (js ''value'') (js ''value_encoding'') (replay_body m k v) = Some (decode_produce_payload (fst v) (encoding_name (snd v)))"
  by (simp_all add: sent_field_def replay_body_def mget_members js_def del: members_simps)

lemma rendered_payload:
  assumes "case decode_bytes jv xv p tr of (r, e, b) \<Rightarrow> x = omit_empty r \<and> enc = e \<and> y = omit_empty b"
  shows "\<exists>v e. produce_encoding_for x y enc = Some (v, e) \<and> decode_produce_payload v (encoding_name e) = Inr p"
  using payload_reproduced [where json_valid = jv and xml_valid = xv and payload = p and truncated = tr] assms by (cases "decode_bytes jv xv p tr") simp

lemma decode_btoa: "b \<noteq> [] \<Longrightarrow> decode_produce_payload (btoa b) (js ''base64'') = Inr (Some b)"
  by (simp add: decode_produce_payload_def btoa_empty decode_base64_tolerant_def go_std64_btoa)

text \<open>A sent request carries the key, and the value the list showed or the full one the query loaded.\<close>

definition replay_fidelity :: "replay_state \<Rightarrow> replay_request \<Rightarrow> byte list option \<Rightarrow> byte list option \<Rightarrow> byte list option \<Rightarrow> bool" where
  "replay_fidelity st r k shown full \<longleftrightarrow>
     sent_field (js ''key'') (js ''key_encoding'') (rr_body r) = Some (Inr k) \<and>
     (sent_field (js ''value'') (js ''value_encoding'') (rr_body r) = Some (Inr full) \<or>
      rp_allow_truncated st \<and> isTrue (value_truncated (rv_message (rp_view st))) \<and>
      (\<exists>why. full_value_of (rp_view st) = Fv_Error why) \<and>
      sent_field (js ''value'') (js ''value_encoding'') (rr_body r) = Some (Inr shown))"

lemma replay_request_faithful:
  assumes r: "replay_request_of c st = Some r"
    and m: "renders_record jv xv (rv_message (rp_view st)) k shown"
    and uncut: "\<not> isTrue (value_truncated (rv_message (rp_view st))) \<Longrightarrow> full = shown"
    and data: "\<And>b. rv_data (rp_view st) = Some b \<Longrightarrow> \<exists>bs. bs \<noteq> [] \<and> full = Some bs \<and> b = btoa bs"
  shows "replay_fidelity st r k shown full"
proof -
  let ?m = "rv_message (rp_view st)"
  obtain kp vp where p: "key_payload ?m = Some kp" "value_payload (rp_view st) = Some vp" "rr_body r = replay_body ?m kp vp"
    and t: "\<not> truncated_not_resolved st"
    using r by (auto simp: replay_request_of_def Let_def split: if_splits option.splits)
  have "sent_field (js ''key'') (js ''key_encoding'') (rr_body r) = Some (Inr k)"
    using rendered_payload [where jv = jv and xv = xv and p = k and tr = False and x = "m_key ?m" and enc = "key_encoding ?m" and y = "key_b64 ?m"] m p(1)
    by (auto simp: p(3) sent_field_body renders_record_def key_payload_def)
  moreover have "sent_field (js ''value'') (js ''value_encoding'') (rr_body r) = Some (Inr (case full_value_of (rp_view st) of Fv_Ready _ \<Rightarrow> full | _ \<Rightarrow> shown))"
  proof (cases "\<exists>b. full_value_of (rp_view st) = Fv_Ready b")
    case True
    then obtain b where b: "full_value_of (rp_view st) = Fv_Ready b" by blast
    then have "rv_data (rp_view st) = Some b"
      by (auto simp: full_value_of_def resolve_full_value_def split: if_splits option.splits)
    with data obtain bs where "bs \<noteq> []" "full = Some bs" "b = btoa bs" by blast
    then show ?thesis using p(2) by (auto simp: p(3) b sent_field_body value_payload_def decode_btoa)
  next
    case False
    then have "value_payload (rp_view st) = produce_encoding_for (m_value ?m) (value_b64 ?m) (value_encoding ?m)"
      by (auto simp: value_payload_def split: full_value.splits)
    then have "sent_field (js ''value'') (js ''value_encoding'') (rr_body r) = Some (Inr shown)"
      using rendered_payload [where jv = jv and xv = xv and p = shown and tr = "isTrue (value_truncated ?m)" and
          x = "m_value ?m" and enc = "value_encoding ?m" and y = "value_b64 ?m"] m p(2)
      by (auto simp: p(3) sent_field_body renders_record_def)
    then show ?thesis using False by (auto split: full_value.splits)
  qed
  ultimately show ?thesis using t uncut
    by (auto simp: replay_fidelity_def truncated_not_resolved_def split: full_value.splits)
qed

text \<open>Every request of the dialog is one of \<open>doReplay\<close> at that moment, confirmed for a production cluster.\<close>

definition replay_ok :: "replay_state \<Rightarrow> replay_request \<Rightarrow> bool" where
  "replay_ok st r \<longleftrightarrow> replay_request_of (rr_confirmed r) st = Some r \<and> (replay_is_prod st \<longrightarrow> rr_confirmed r)"

lemma replay_request_cong:
  assumes "rp_view a = rp_view b" "rp_dest_cluster a = rp_dest_cluster b" "rp_dest_topic a = rp_dest_topic b"
    "rp_allow_truncated a = rp_allow_truncated b"
  shows "replay_request_of c a = replay_request_of c b"
proof -
  have "truncated_not_resolved a = truncated_not_resolved b" "replay_dest a = replay_dest b"
    by (simp_all add: truncated_not_resolved_def replay_dest_def assms split: full_value.split)
  then show ?thesis by (simp add: replay_request_of_def assms Let_def split: option.split)
qed

lemma replay_request_dialog: "replay_request_of c (st\<lparr>rp_dialog := d\<rparr>) = replay_request_of c st"
  by (rule replay_request_cong) simp_all

lemma can_replay_request: "can_replay st \<Longrightarrow> \<exists>r. replay_request_of c st = Some r"
proof -
  assume c: "can_replay st"
  let ?m = "rv_message (rp_view st)"
  have "replay_blocker ?m = None" using c by (simp add: can_replay_def)
  then have "key_payload ?m \<noteq> None" "produce_encoding_for (m_value ?m) (value_b64 ?m) (value_encoding ?m) \<noteq> None"
    by (auto simp: replay_blocker_def key_payload_def field_block_none Let_def split: if_splits option.splits)
  moreover from this have "value_payload (rp_view st) \<noteq> None" by (simp add: value_payload_def split: full_value.split)
  ultimately show ?thesis using c by (auto simp: can_replay_def replay_request_of_def Let_def)
qed

lemma replay_request_confirmed: "replay_request_of c st = Some r \<Longrightarrow> rr_confirmed r = c"
  by (auto simp: replay_request_of_def Let_def split: if_splits option.splits)

lemma replay_request_target: "replay_request_of c st = Some r \<Longrightarrow>
    replay_blocker (rv_message (rp_view st)) = None \<and> rr_cluster r = replay_dest st \<and> rr_topic r = trim (rp_dest_topic st)"
  by (auto simp: replay_request_of_def Let_def split: if_splits option.splits)

lemma replay_okI: "replay_request_of c st = Some r \<Longrightarrow> replay_is_prod st \<longrightarrow> c \<Longrightarrow> replay_ok st r"
  using replay_request_confirmed [of c st r] by (simp add: replay_ok_def)

lemma replay_step_ok: "fst (replay_step st e) = Some r \<Longrightarrow> replay_ok st r"
  by (cases e) (auto simp: replay_step_def do_replay_def replay_request_dialog intro: replay_okI
      split: if_splits option.splits prod.splits)

interpretation replay: sender replay_step "\<lambda>_. True" "\<lambda>_. True" replay_ok
  by unfold_locales (simp_all add: replay_step_ok)

text \<open>
  C3: A replay sends the record or nothing. Whatever happens in the dialog in whatever order (typing, clicks,
  confirmations, answers, changing properties and queries), a request goes to the destination shown at that
  moment, never for a message whose bytes are not recoverable, and with the confirmation header when that
  cluster is a production cluster; the produce API reads from it exactly the original key, and the original
  value unless the message is truncated, its full value could not be loaded and the user accepted the preview.
\<close>

theorem replay_sends_record:
  assumes "(st, r) \<in> set (sends replay_step (replay_initial v) es)"
  shows "replay_blocker (rv_message (rp_view st)) = None \<and> rr_cluster r = replay_dest st \<and> rr_topic r = trim (rp_dest_topic st) \<and>
    (replay_is_prod st \<longrightarrow> rr_confirmed r) \<and>
    (\<forall>k shown full. renders_record jv xv (rv_message (rp_view st)) k shown \<and>
       (\<not> isTrue (value_truncated (rv_message (rp_view st))) \<longrightarrow> full = shown) \<and>
       (\<forall>b. rv_data (rp_view st) = Some b \<longrightarrow> (\<exists>bs. bs \<noteq> [] \<and> full = Some bs \<and> b = btoa bs))
       \<longrightarrow> replay_fidelity st r k shown full)"
proof -
  have ok: "replay_ok st r" using replay.sends_ok [OF TrueI list_all_True assms] by (rule conjunct2)
  then have req: "replay_request_of (rr_confirmed r) st = Some r" "replay_is_prod st \<longrightarrow> rr_confirmed r"
    by (simp_all add: replay_ok_def)
  show ?thesis
  proof (intro conjI allI impI)
    fix k shown full
    assume "renders_record jv xv (rv_message (rp_view st)) k shown \<and>
       (\<not> isTrue (value_truncated (rv_message (rp_view st))) \<longrightarrow> full = shown) \<and>
       (\<forall>b. rv_data (rp_view st) = Some b \<longrightarrow> (\<exists>bs. bs \<noteq> [] \<and> full = Some bs \<and> b = btoa bs))"
    then show "replay_fidelity st r k shown full" by (elim conjE) (rule replay_request_faithful [OF req(1)]; blast)
  qed (use replay_request_target [OF req(1)] req(2) in simp_all)
qed

definition sample_target :: "bool \<Rightarrow> cluster_list_item" where
  "sample_target p = shared_to_list_item \<lparr>cl_name = js ''c'', cl_reachable = True, cl_error = None, cl_error_class = None, cl_is_prod = p,
     cl_auth_type = js ''none'', cl_tls = False, cl_schema_registry = False, cl_capabilities = None, cl_broker_issues = None,
     cl_brokers_skipped = None, cl_brokers = None, cl_topics = None, cl_groups = None, cl_total_messages = None, cl_total_lag = None, cl_total_rate = None\<rparr>"

definition sample_replay_message :: message where
  "sample_replay_message = \<lparr>m_partition = 0, m_offset = 7, timestamp_ms = 0, m_key = None, key_encoding = js ''null'', key_b64 = None,
     m_value = Some (js ''ab''), value_encoding = js ''text'', value_b64 = None, m_headers = None, headers_b64 = None, masked = None,
     key_masked = None, masked_headers = None, value_size_bytes = Some 3, value_truncated = Some True, key_sr = None, value_sr = None\<rparr>"

definition sample_replay_view :: "bool \<Rightarrow> replay_view" where
  "sample_replay_view p = \<lparr>rv_open = True, rv_message = sample_replay_message, rv_source_cluster = Some (js ''s''), rv_source_topic = Some (js ''t''),
     rv_clusters = Some [sample_target p], rv_fetching = False, rv_error = None, rv_data = Some (btoa [97, 98, 99]), rv_size_label = []\<rparr>"

lemmas sample_replay = sample_replay_view_def sample_replay_message_def sample_target_def shared_to_list_item_def cluster_info.defs

lemma sample_full_value: "full_value_of (sample_replay_view p) = Fv_Ready (btoa [97, 98, 99])"
proof -
  have "length (btoa [97, 98, 99]) \<le> max_replay_value_base64_chars"
    by (simp add: max_replay_value_base64_chars_def max_produce_body_bytes_def produce_value_headroom_bytes_def b64_3_def)
  then show ?thesis
    by (simp add: full_value_of_def resolve_full_value_def replay_needs_full_value_def sample_replay truthy_str_def replay_blocker_def
        field_block_reason_def produce_encoding_for_def js_def)
qed

text \<open>A run to a production cluster: the full value is sent once the user has confirmed.\<close>

lemma sample_request:
  assumes "rp_view st = sample_replay_view p" "rp_dest_cluster st = []" "rp_dest_topic st = js ''t''"
  shows "\<exists>r. replay_request_of c st = Some r" "can_replay st \<longleftrightarrow> \<not> rp_busy st" "replay_is_prod st \<longleftrightarrow> p"
proof -
  have b: "replay_blocker sample_replay_message = None"
    by (simp add: sample_replay_message_def replay_blocker_def field_block_reason_def produce_encoding_for_def js_def)
  have m: "rv_message (sample_replay_view p) = sample_replay_message" by (simp add: sample_replay_view_def)
  have d: "replay_dest st = js ''c''" by (simp add: assms replay_dest_def effective_cluster_def sample_replay)
  have t: "trim (js ''t'') = js ''t''" "js ''t'' \<noteq> []" "js ''c'' \<noteq> []"
    by (simp_all add: js_def trim_def trim_start_def trim_end_def js_space_def)
  have u: "\<not> truncated_not_resolved st" by (simp add: assms truncated_not_resolved_def sample_full_value)
  show "\<exists>r. replay_request_of c st = Some r"
    by (simp add: replay_request_of_def assms d t u b m value_payload_def sample_full_value)
      (simp add: key_payload_def sample_replay_message_def produce_encoding_for_def js_def)
  show "can_replay st \<longleftrightarrow> \<not> rp_busy st" by (simp add: can_replay_def assms d t u b m)
  show "replay_is_prod st \<longleftrightarrow> p" by (simp add: replay_is_prod_def d is_prod_dest_def assms sample_replay)
qed

lemma replay_confirm_step:
  assumes "cd_open (rp_dialog st)" "\<not> cd_busy (rp_dialog st)" "replay_request_of True st = Some r"
  shows "replay_step st Rp_Confirm = (Some r, st\<lparr>rp_dialog := (rp_dialog st)\<lparr>cd_busy := True\<rparr>,
    rp_busy := True, rp_error := None, rp_result := None, rp_pending := Some True\<rparr>)"
  using assms by (simp add: replay_step_def confirm_click_def phrase_ok_def do_replay_def replay_request_dialog)

lemma replay_sends_record_witness:
  "\<exists>st r. (st, r) \<in> set (sends replay_step (replay_initial (sample_replay_view True)) [Rp_Topic (js ''t''), Rp_Click, Rp_Confirm]) \<and>
     rr_confirmed r \<and> replay_fidelity st r None (Some [97, 98]) (Some [97, 98, 99])"
proof -
  let ?v = "sample_replay_view True" and ?es = "[Rp_Topic (js ''t''), Rp_Click, Rp_Confirm]"
  let ?t = "(replay_initial ?v)\<lparr>rp_dest_topic := js ''t''\<rparr>"
  let ?s = "?t\<lparr>rp_dialog := set_open True confirm_closed\<rparr>"
  have i: "rp_view ?t = ?v" "rp_dest_cluster ?t = []" "rp_dest_topic ?t = js ''t''" "rp_dialog (replay_initial ?v) = confirm_closed"
      "\<not> rp_busy (replay_initial ?v)"
    by (simp_all add: replay_initial_def)
  obtain r where r: "replay_request_of True ?s = Some r" using sample_request(1) [of ?s True True] i by auto
  have "replay_step (replay_initial ?v) (Rp_Topic (js ''t'')) = (None, ?t)"
    by (simp add: replay_step_def replay_initial_def)
  moreover have "replay_step ?t Rp_Click = (None, ?s)"
  proof -
    have "can_replay ?t" "replay_is_prod ?t" "\<not> cd_open (rp_dialog ?t)" "rp_dialog ?t = confirm_closed"
      using sample_request(2,3) [of ?t True] by (simp_all add: replay_initial_def confirm_closed_def)
    then show ?thesis by (simp add: replay_step_def)
  qed
  moreover have "fst (replay_step ?s Rp_Confirm) = Some r"
    using replay_confirm_step [OF _ _ r] by (simp add: set_open_def confirm_closed_def)
  ultimately have mem: "(?s, r) \<in> set (sends replay_step (replay_initial ?v) ?es)"
    by (cases "replay_step ?s Rp_Confirm") simp
  have m: "rp_view ?s = ?v" "rv_message ?v = sample_replay_message" "rv_data ?v = Some (btoa [97, 98, 99])"
    using i by (simp_all add: sample_replay_view_def)
  have "u8_start [97, 98] = [Some 97, Some 98]" by (simp add: u8_start_def u8.simps)
  then have "renders_record (\<lambda>_. False) (\<lambda>_. False) sample_replay_message None (Some [97, 98])"
    by (simp add: renders_record_def sample_replay_message_def decode_bytes_def utf8_valid_def wire_string_def utf16_def
        omit_empty_def js_def bytes_trim_space_def go_space_def Let_def)
  then have "replay_fidelity ?s r None (Some [97, 98]) (Some [97, 98, 99])" "rr_confirmed r"
    using replay_sends_record [OF mem, where jv = "\<lambda>_. False" and xv = "\<lambda>_. False"] sample_request(3) [of ?s True] i
    by (auto simp: m sample_replay_message_def)
  with mem show ?thesis by blast
qed

text \<open>
  The dialog takes every error whose text contains 428 for the production confirmation of the server. For a
  destination that is no production cluster such an error (a topic or a cluster with 428 in its name is
  enough) asks for a confirmation; when the user gives it and the call fails the same way, the dialog closes
  and the record was not replayed, but neither an error nor a result is shown.
\<close>

theorem replay_hides_errors_with_428:
  assumes "can_replay st" "\<not> replay_is_prod st" "rp_dialog st = confirm_closed" "contains_text (js ''428'') msg"
  shows "let es = [Rp_Click, Rp_Answer (Inl msg), Rp_Confirm, Rp_Answer (Inl msg)]; st' = after_events replay_step st es
    in map (\<lambda>(s, r). rr_confirmed r) (sends replay_step st es) = [False, True] \<and>
       rp_error st' = None \<and> rp_result st' = None \<and> rp_dialog st' = confirm_closed \<and> \<not> rp_busy st'"
proof -
  obtain r1 r2 where r: "replay_request_of False st = Some r1" "replay_request_of True st = Some r2"
    using can_replay_request [OF assms(1)] by blast
  let ?s1 = "st\<lparr>rp_busy := True, rp_error := None, rp_result := None, rp_pending := Some False\<rparr>"
  let ?s2 = "?s1\<lparr>rp_dialog := set_open True confirm_closed, rp_busy := False, rp_pending := None\<rparr>"
  let ?s3 = "?s2\<lparr>rp_dialog := (set_open True confirm_closed)\<lparr>cd_busy := True\<rparr>, rp_busy := True, rp_pending := Some True\<rparr>"
  let ?s4 = "?s3\<lparr>rp_dialog := confirm_closed, rp_busy := False, rp_pending := None\<rparr>"
  have "\<not> cd_open (rp_dialog st)" by (simp add: assms(3) confirm_closed_def)
  then have 1: "replay_step st Rp_Click = (Some r1, ?s1)"
    using assms(1,2) r(1) by (simp add: replay_step_def do_replay_def)
  have 2: "replay_step ?s1 (Rp_Answer (Inl msg)) = (None, ?s2)"
    using assms(3,4) by (simp add: replay_step_def replay_answer_def)
  have "replay_request_of True ?s2 = Some r2" using replay_request_cong [of ?s2 st True] r(2) by simp
  then have 3: "replay_step ?s2 Rp_Confirm = (Some r2, ?s3)"
    by (subst replay_confirm_step) (simp_all add: set_open_def confirm_closed_def)
  have 4: "replay_step ?s3 (Rp_Answer (Inl msg)) = (None, ?s4)"
    using assms(4) by (simp add: replay_step_def replay_answer_def confirm_settled_def set_open_def)
  have "rr_confirmed r1 = False" "rr_confirmed r2 = True" using replay_request_confirmed r by blast+
  moreover have "sends replay_step st [Rp_Click, Rp_Answer (Inl msg), Rp_Confirm, Rp_Answer (Inl msg)] = [(st, r1), (?s2, r2)]"
    by (simp only: sends.simps 1 2 3 4 prod.case option.case append.simps)
  moreover have "after_events replay_step st [Rp_Click, Rp_Answer (Inl msg), Rp_Confirm, Rp_Answer (Inl msg)] = ?s4"
    by (simp only: after_events.simps 1 2 3 4 snd_conv)
  ultimately show ?thesis by (simp add: Let_def)
qed

lemma replay_hides_errors_witness:
  "rp_error (after_events replay_step ((replay_initial (sample_replay_view False))\<lparr>rp_dest_topic := js ''t''\<rparr>)
     [Rp_Click, Rp_Answer (Inl (js ''topic orders-428: not found'')), Rp_Confirm, Rp_Answer (Inl (js ''topic orders-428: not found''))]) = None"
proof -
  let ?s = "(replay_initial (sample_replay_view False))\<lparr>rp_dest_topic := js ''t''\<rparr>"
  have "contains_text (js ''428'') (js ''topic orders-428: not found'')" by code_simp
  moreover have "can_replay ?s" "\<not> replay_is_prod ?s" "rp_dialog ?s = confirm_closed"
    using sample_request(2,3) [of ?s False] by (simp_all add: replay_initial_def)
  ultimately show ?thesis using replay_hides_errors_with_428 [of ?s] by (simp add: Let_def)
qed

end
