(* ===== verification/Numbers.thy ===== *)
theory Numbers
  imports Json Complex_Main
begin

text \<open>
  Numbers typed as text: \<open>Number.parseInt(s, 10)\<close> and \<open>Number(s)\<close>, and how \<open>JSON.stringify\<close> writes the result.
  A result is the exact rational; rounding to a double is not modelled, a text the double format calls
  infinite is. \<open>None\<close> stands for \<open>NaN\<close> and the infinities.
\<close>

section \<open>parseInt\<close>

definition parse_int :: "jstr \<Rightarrow> int option" where
  "parse_int s =
     (let t = trim_start s; neg = (t \<noteq> [] \<and> hd t = 45);
          u = (if t \<noteq> [] \<and> (hd t = 45 \<or> hd t = 43) then tl t else t); ds = takeWhile is_digit u
      in if ds = [] then None else Some (if neg then - int (dec_value ds) else int (dec_value ds)))"

section \<open>Number\<close>

definition exponent_part :: "jstr \<Rightarrow> int option" where
  "exponent_part r =
     (case r of
        [] \<Rightarrow> Some 0
      | c # t \<Rightarrow>
          if c \<noteq> 101 \<and> c \<noteq> 69 then None
          else (let neg = (t \<noteq> [] \<and> hd t = 45); ds = (if t \<noteq> [] \<and> (hd t = 45 \<or> hd t = 43) then tl t else t)
                in if ds = [] \<or> \<not> list_all is_digit ds then None
                   else Some (if neg then - int (dec_value ds) else int (dec_value ds))))"

definition decimal_value :: "jstr \<Rightarrow> rat option" where
  "decimal_value s =
     (let i = takeWhile is_digit s; r = dropWhile is_digit s; point = (r \<noteq> [] \<and> hd r = 46);
          f = (if point then takeWhile is_digit (tl r) else []); e = (if point then dropWhile is_digit (tl r) else r)
      in if i = [] \<and> f = [] then None
         else map_option (\<lambda>x. of_nat (dec_value (i @ f)) * 10 powi (x - int (length f))) (exponent_part e))"

definition radix_value :: "nat \<Rightarrow> jstr \<Rightarrow> rat option" where
  "radix_value b s = (if s = [] \<or> \<not> list_all (\<lambda>c. is_hex c \<and> hex_val c < b) s then None
     else Some (of_nat (foldl (\<lambda>a c. b * a + hex_val c) 0 s)))"

definition finite_double :: "rat \<Rightarrow> bool" where
  "finite_double x \<longleftrightarrow> \<bar>x\<bar> < 2 ^ 1024 - 2 ^ 970"

definition js_number :: "jstr \<Rightarrow> rat option" where
  "js_number s =
     (let t = trim s in
      case (if t = [] then Some 0
            else if 2 \<le> length t \<and> hd t = 48 \<and> t ! 1 \<in> {120, 88} then radix_value 16 (drop 2 t)
            else if 2 \<le> length t \<and> hd t = 48 \<and> t ! 1 \<in> {111, 79} then radix_value 8 (drop 2 t)
            else if 2 \<le> length t \<and> hd t = 48 \<and> t ! 1 \<in> {98, 66} then radix_value 2 (drop 2 t)
            else if hd t = 45 then map_option uminus (decimal_value (tl t))
            else if hd t = 43 then decimal_value (tl t)
            else decimal_value t) of
        None \<Rightarrow> None | Some x \<Rightarrow> if finite_double x then Some x else None)"

text \<open>\<open>number_text\<close> is the text of a number that is no integer, a parameter.\<close>

definition number_json :: "(rat \<Rightarrow> jstr) \<Rightarrow> rat option \<Rightarrow> json" where
  "number_json number_text x =
     (case x of None \<Rightarrow> JsNull | Some r \<Rightarrow> if of_int \<lfloor>r\<rfloor> = r then JsInt \<lfloor>r\<rfloor> else JsFrac (number_text r))"

section \<open>Reading what the program writes\<close>

lemma is_digit_not_space: "is_digit c \<Longrightarrow> \<not> js_space c"
  unfolding is_digit_def js_space_def by (auto simp: word_le_nat_alt)

lemma trim_dec: "trim (dec n) = dec n" "trim_start (dec n) = dec n"
proof -
  have s: "\<not> js_space (hd (dec n))" "\<not> js_space (last (dec n))"
    using dec_nonempty [of n] dec_digits [of _ n] by (auto intro!: is_digit_not_space)
  show "trim (dec n) = dec n" by (rule trim_id [OF dec_nonempty s])
  show "trim_start (dec n) = dec n" using s(1) dec_nonempty [of n] by (cases "dec n") (simp_all add: trim_start_def)
qed

lemma takeWhile_dec: "takeWhile is_digit (dec n) = dec n" "dropWhile is_digit (dec n) = []"
  using dec_digits [of _ n] by (simp_all add: takeWhile_eq_all_conv dropWhile_eq_Nil_conv)

lemma hd_dec: "is_digit (hd (dec n))"
  using dec_nonempty [of n] dec_digits [of _ n] by simp

lemma parse_int_dec: "parse_int (dec n) = Some (int n)"
  using hd_dec [of n] by (auto simp: parse_int_def trim_dec takeWhile_dec Let_def is_digit_def)

lemma decimal_value_dec: "decimal_value (dec n) = Some (of_nat n)"
  by (simp add: decimal_value_def takeWhile_dec exponent_part_def Let_def)

lemma js_number_dec: "n < 2 ^ 1023 \<Longrightarrow> js_number (dec n) = Some (of_nat n)"
proof -
  assume n: "n < 2 ^ 1023"
  have "\<not> (2 \<le> length (dec n) \<and> hd (dec n) = 48 \<and> dec n ! 1 \<in> {120, 88, 111, 79, 98, 66})"
  proof (clarify)
    assume "2 \<le> length (dec n)" "dec n ! 1 \<in> {120, 88, 111, 79, 98, 66}"
    moreover from this have "is_digit (dec n ! 1)" by (intro dec_digits [of _ n] nth_mem) simp
    ultimately show False by (auto simp: is_digit_def)
  qed
  moreover have "hd (dec n) \<noteq> 45" "hd (dec n) \<noteq> 43" using hd_dec [of n] by (auto simp: is_digit_def)
  moreover have "finite_double (of_nat n)"
  proof -
    have "(of_nat n :: rat) < of_nat (2 ^ 1023)" using n by (simp only: of_nat_less_iff)
    then show ?thesis by (simp add: finite_double_def)
  qed
  ultimately show ?thesis by (auto simp: js_number_def trim_dec decimal_value_dec Let_def)
qed

end
