(* ===== verification/ResetOffsets.thy ===== *)
theory ResetOffsets
  imports ConfirmedWrite Numbers Api
begin

text \<open>
  The dialog that resets the offsets of a consumer group (\<open>frontend/src/features/groups/ResetOffsetsModal.tsx\<close>):
  its form, the debounced dry run, the commit behind a typed confirmation, and the lag table. The group detail is
  refetched while the dialog is open; its arrival is an event. The dialog of the confirmation covers the form, so form
  events need it closed. The local calendar of the browser is a parameter.
\<close>

section \<open>Data\<close>

record group_offset =
  go_topic :: jstr
  go_partition :: int
  go_offset :: int
  go_log_end :: int
  go_lag :: "int option"
  go_metadata :: "jstr option"
  go_assigned_to :: "jstr option"

record member_assignment =
  ma_topic :: jstr
  ma_partitions :: "int list"

record group_member =
  gm_member_id :: jstr
  gm_instance_id :: "jstr option"
  gm_client_id :: jstr
  gm_client_host :: jstr
  gm_assignments :: "member_assignment list"

record group_detail =
  gd_group_id :: jstr
  gd_state :: jstr
  gd_protocol_type :: jstr
  gd_protocol :: "jstr option"
  gd_coordinator_id :: int
  gd_topics :: "int option"
  gd_lag :: int
  gd_lag_known :: bool
  gd_error :: "jstr option"
  gd_members :: "group_member list option"
  gd_offsets :: "group_offset list"

datatype reset_strategy = Rs_Earliest | Rs_Latest | Rs_Offset | Rs_Timestamp | Rs_Shift_By

definition strategy_text :: "reset_strategy \<Rightarrow> jstr" where
  "strategy_text s = (case s of Rs_Earliest \<Rightarrow> js ''earliest'' | Rs_Latest \<Rightarrow> js ''latest'' | Rs_Offset \<Rightarrow> js ''offset''
     | Rs_Timestamp \<Rightarrow> js ''timestamp'' | Rs_Shift_By \<Rightarrow> js ''shift-by'')"

record reset_result =
  rs_partition :: int
  rs_old_offset :: int
  rs_new_offset :: int
  rs_end_offset :: int
  rs_error :: "jstr option"

definition partitions_for_topic :: "group_detail \<Rightarrow> jstr \<Rightarrow> int list" where
  "partitions_for_topic d t = map go_partition (filter (\<lambda>g. go_topic g = t) (gd_offsets d))"

text \<open>\<open>partSel\<close>: the boxes that are ticked.\<close>

definition select_all :: "int list \<Rightarrow> int \<Rightarrow> bool" where
  "select_all ps p \<longleftrightarrow> p \<in> set ps"

definition group_topics :: "group_detail \<Rightarrow> jstr list" where
  "group_topics d = js_sort (remdups (map go_topic (gd_offsets d)))"

section \<open>State\<close>

record reset_form =
  rf_topic :: jstr
  rf_strategy :: reset_strategy
  rf_offset :: jstr
  rf_timestamp :: jstr
  rf_shift :: jstr

record reset_state =
  ro_detail :: group_detail
  ro_form :: reset_form
  ro_sel :: "int \<Rightarrow> bool"
  ro_err :: "jstr option"
  ro_result :: "reset_result list option"
  ro_dialog :: confirm_dialog
  ro_pending :: bool
  ro_preview_form :: reset_form

definition reset_initial :: "group_detail \<Rightarrow> int \<Rightarrow> reset_state" where
  "reset_initial d now =
     (let t = (case group_topics d of [] \<Rightarrow> [] | x # _ \<Rightarrow> x);
          f = \<lparr>rf_topic = t, rf_strategy = Rs_Earliest, rf_offset = js ''0'', rf_timestamp = dec_int (now - 3600000), rf_shift = js ''-100''\<rparr>
      in \<lparr>ro_detail = d, ro_form = f, ro_sel = select_all (partitions_for_topic d t), ro_err = None, ro_result = None,
          ro_dialog = confirm_closed, ro_pending = False, ro_preview_form = f\<rparr>)"

definition topic_parts :: "reset_state \<Rightarrow> int list" where
  "topic_parts st = sort_by (\<le>) (partitions_for_topic (ro_detail st) (rf_topic (ro_form st)))"

definition selected_parts :: "reset_state \<Rightarrow> int list" where
  "selected_parts st = filter (ro_sel st) (topic_parts st)"

definition number_typed :: "jstr \<Rightarrow> bool" where
  "number_typed s \<longleftrightarrow> trim s \<noteq> [] \<and> js_number s \<noteq> None"

definition timestamp_valid :: "reset_form \<Rightarrow> bool" where
  "timestamp_valid f \<longleftrightarrow> trim (rf_timestamp f) \<noteq> [] \<and> (case js_number (rf_timestamp f) of None \<Rightarrow> False | Some x \<Rightarrow> 0 < x)"

definition strategy_ready :: "reset_form \<Rightarrow> bool" where
  "strategy_ready f \<longleftrightarrow> (rf_strategy f = Rs_Timestamp \<longrightarrow> timestamp_valid f) \<and> (rf_strategy f = Rs_Offset \<longrightarrow> number_typed (rf_offset f)) \<and>
     (rf_strategy f = Rs_Shift_By \<longrightarrow> number_typed (rf_shift f))"

section \<open>Requests\<close>

definition strategy_members :: "(rat \<Rightarrow> jstr) \<Rightarrow> reset_form \<Rightarrow> (jstr \<times> json option) list" where
  "strategy_members nt f =
     [(js ''strategy'', Some (JsString (strategy_text (rf_strategy f)))),
      (js ''offset'', if rf_strategy f = Rs_Offset then Some (number_json nt (js_number (rf_offset f))) else None),
      (js ''timestamp_ms'', if rf_strategy f = Rs_Timestamp then Some (number_json nt (js_number (rf_timestamp f))) else None),
      (js ''shift'', if rf_strategy f = Rs_Shift_By then Some (number_json nt (js_number (rf_shift f))) else None)]"

text \<open>The dry run covers every partition of the topic.\<close>

definition preview_body :: "(rat \<Rightarrow> jstr) \<Rightarrow> reset_form \<Rightarrow> json" where
  "preview_body nt f = JsObject (members ([(js ''topic'', Some (JsString (rf_topic f)))] @ strategy_members nt f @ [(js ''dry_run'', Some (JsBool True))]))"

definition preview_enabled :: "reset_state \<Rightarrow> bool" where
  "preview_enabled st \<longleftrightarrow> rf_topic (ro_form st) \<noteq> [] \<and> strategy_ready (ro_form st)"

definition build_body :: "(rat \<Rightarrow> jstr) \<Rightarrow> reset_state \<Rightarrow> json" where
  "build_body nt st = JsObject (members ([(js ''topic'', Some (JsString (rf_topic (ro_form st)))),
     (js ''partitions'', if selected_parts st \<noteq> [] then Some (JsArray (map JsInt (selected_parts st))) else None)]
     @ strategy_members nt (ro_form st) @ [(js ''dry_run'', Some (JsBool False))]))"

record reset_request =
  rq_cluster :: jstr
  rq_group :: jstr
  rq_body :: json
  rq_confirm :: bool

definition reset_call :: "api_env \<Rightarrow> reset_request \<Rightarrow> api_error + json option" where
  "reset_call env r = reset_group_offsets env (rq_cluster r) (rq_group r) (rq_body r) (rq_confirm r)"

definition commit_request :: "(rat \<Rightarrow> jstr) \<Rightarrow> jstr \<Rightarrow> bool \<Rightarrow> reset_state \<Rightarrow> reset_request" where
  "commit_request nt cluster is_prod st =
     \<lparr>rq_cluster = cluster, rq_group = gd_group_id (ro_detail st), rq_body = build_body nt st, rq_confirm = is_prod\<rparr>"

definition commit_enabled :: "reset_state \<Rightarrow> bool" where
  "commit_enabled st \<longleftrightarrow> \<not> ro_pending st \<and> selected_parts st \<noteq> [] \<and> strategy_ready (ro_form st)"

section \<open>Events\<close>

datatype reset_event =
    Ro_Detail group_detail
  | Ro_Topic jstr
  | Ro_Strategy reset_strategy
  | Ro_Offset_Text jstr
  | Ro_Timestamp_Input "int option"
  | Ro_Relative_Hours int int
  | Ro_Shift_Text jstr
  | Ro_Partition int bool
  | Ro_All
  | Ro_None
  | Ro_Debounced
  | Ro_Commit
  | Ro_Phrase jstr
  | Ro_Confirm
  | Ro_Dismiss
  | Ro_Answer "jstr + reset_result list"

text \<open>Form events, and the click on "Commit reset".\<close>

definition reset_form_step :: "reset_state \<Rightarrow> reset_event \<Rightarrow> reset_state" where
  "reset_form_step st e =
     (let f = ro_form st in
      case e of
        Ro_Topic t \<Rightarrow> st\<lparr>ro_form := f\<lparr>rf_topic := t\<rparr>, ro_sel := select_all (partitions_for_topic (ro_detail st) t)\<rparr>
      | Ro_Strategy s \<Rightarrow> st\<lparr>ro_form := f\<lparr>rf_strategy := s\<rparr>\<rparr>
      | Ro_Offset_Text x \<Rightarrow> st\<lparr>ro_form := f\<lparr>rf_offset := x\<rparr>\<rparr>
      | Ro_Timestamp_Input ms \<Rightarrow> st\<lparr>ro_form := f\<lparr>rf_timestamp := (case ms of None \<Rightarrow> [] | Some n \<Rightarrow> dec_int n)\<rparr>\<rparr>
      | Ro_Relative_Hours now h \<Rightarrow> st\<lparr>ro_form := f\<lparr>rf_timestamp := dec_int (now - h * 3600000)\<rparr>\<rparr>
      | Ro_Shift_Text x \<Rightarrow> st\<lparr>ro_form := f\<lparr>rf_shift := x\<rparr>\<rparr>
      | Ro_Partition p b \<Rightarrow> st\<lparr>ro_sel := (ro_sel st)(p := b)\<rparr>
      | Ro_All \<Rightarrow> st\<lparr>ro_sel := select_all (topic_parts st)\<rparr>
      | Ro_None \<Rightarrow> st\<lparr>ro_sel := (\<lambda>_. False)\<rparr>
      | Ro_Commit \<Rightarrow> if commit_enabled st then st\<lparr>ro_dialog := set_open True (ro_dialog st)\<rparr> else st
      | _ \<Rightarrow> st)"

definition reset_answer :: "jstr + reset_result list \<Rightarrow> reset_state \<Rightarrow> reset_state" where
  "reset_answer a st =
     (if \<not> ro_pending st then st
      else (case a of
          Inr rows \<Rightarrow> st\<lparr>ro_result := Some rows, ro_pending := False, ro_dialog := confirm_settled True (ro_dialog st)\<rparr>
        | Inl msg \<Rightarrow> st\<lparr>ro_err := Some msg, ro_pending := False, ro_dialog := confirm_settled False (ro_dialog st)\<rparr>))"

definition reset_step :: "(rat \<Rightarrow> jstr) \<Rightarrow> jstr \<Rightarrow> bool \<Rightarrow> reset_state \<Rightarrow> reset_event \<Rightarrow> reset_request option \<times> reset_state" where
  "reset_step nt cluster is_prod st e =
     (case e of
        Ro_Detail d \<Rightarrow> (None, st\<lparr>ro_detail := d\<rparr>)
      | Ro_Debounced \<Rightarrow> (None, st\<lparr>ro_preview_form := ro_form st\<rparr>)
      | Ro_Phrase s \<Rightarrow> (None, st\<lparr>ro_dialog := type_phrase s (ro_dialog st)\<rparr>)
      | Ro_Confirm \<Rightarrow> (case confirm_click (Some (gd_group_id (ro_detail st))) (ro_dialog st) of
            None \<Rightarrow> (None, st)
          | Some d \<Rightarrow> (Some (commit_request nt cluster is_prod st), st\<lparr>ro_err := None, ro_dialog := d, ro_pending := True\<rparr>))
      | Ro_Dismiss \<Rightarrow> (None, st\<lparr>ro_dialog := confirm_dismiss (ro_dialog st)\<rparr>)
      | Ro_Answer a \<Rightarrow> (None, reset_answer a st)
      | _ \<Rightarrow> (None, if cd_open (ro_dialog st) then st else reset_form_step st e))"

section \<open>The lag table\<close>

definition lag_after :: "bool \<Rightarrow> (int \<Rightarrow> bool) \<Rightarrow> reset_result \<Rightarrow> int option" where
  "lag_after committed sel r =
     (let base = (if committed \<or> sel (rs_partition r) then rs_new_offset r else rs_old_offset r)
      in if nonempty (rs_error r) \<noteq> None \<or> base < 0 \<or> rs_end_offset r < 0 then None else Some (max 0 (rs_end_offset r - base)))"

definition total_lag :: "bool \<Rightarrow> (int \<Rightarrow> bool) \<Rightarrow> reset_result list \<Rightarrow> int option" where
  "total_lag committed sel rows =
     (let known = List.map_filter (lag_after committed sel) rows in if known \<noteq> [] then Some (sum_list known) else None)"

text \<open>The rows shown: the committed result, else the dry run of the last debounced form.\<close>

definition shown_rows :: "reset_state \<Rightarrow> reset_result list option \<Rightarrow> reset_result list option" where
  "shown_rows st preview = (case ro_result st of Some rows \<Rightarrow> Some rows | None \<Rightarrow> preview)"

lemma total_lag_nonneg: "total_lag c sel rows = Some n \<Longrightarrow> 0 \<le> n"
  by (auto simp: total_lag_def lag_after_def List.map_filter_def Let_def split: if_splits intro!: sum_list_nonneg)

section \<open>What a commit names\<close>

definition body_partitions :: "json \<Rightarrow> json option" where
  "body_partitions b = jprop (js ''partitions'') b"

lemma build_body_members:
  "body_partitions (build_body nt st) = (if selected_parts st \<noteq> [] then Some (JsArray (map JsInt (selected_parts st))) else None)"
  "jprop (js ''topic'') (build_body nt st) = Some (JsString (rf_topic (ro_form st)))"
  "jprop (js ''strategy'') (build_body nt st) = Some (JsString (strategy_text (rf_strategy (ro_form st))))"
  by (simp_all add: body_partitions_def build_body_def strategy_members_def jprop_def mget_members js_def del: members_simps)

text \<open>
  While the detail stays the same, an open dialog stands over a form that can be committed, so a request
  names the ticked partitions and never leaves them out.
\<close>

definition reset_inv :: "group_detail \<Rightarrow> reset_state \<Rightarrow> bool" where
  "reset_inv d st \<longleftrightarrow> ro_detail st = d \<and> (cd_open (ro_dialog st) \<longrightarrow> selected_parts st \<noteq> [] \<and> strategy_ready (ro_form st)) \<and>
     (ro_pending st \<longrightarrow> cd_open (ro_dialog st) \<and> cd_busy (ro_dialog st))"

definition is_detail_event :: "reset_event \<Rightarrow> bool" where
  "is_detail_event e = (case e of Ro_Detail _ \<Rightarrow> True | _ \<Rightarrow> False)"

lemma confirm_dialog_open:
  "cd_open (set_open b d) \<longleftrightarrow> b" "cd_open (type_phrase s d) = cd_open d" "cd_busy (type_phrase s d) = cd_busy d"
  "cd_open (confirm_dismiss d) \<longleftrightarrow> cd_open d \<and> cd_busy d" "cd_busy (confirm_dismiss d) = cd_busy d"
  "cd_open (confirm_settled ok d) \<longleftrightarrow> \<not> ok \<and> cd_open d"
  by (simp_all add: set_open_def type_phrase_def confirm_dismiss_def confirm_settled_def confirm_closed_def)

definition reset_ok :: "(rat \<Rightarrow> jstr) \<Rightarrow> jstr \<Rightarrow> bool \<Rightarrow> group_detail \<Rightarrow> reset_state \<Rightarrow> reset_request \<Rightarrow> bool" where
  "reset_ok nt cluster is_prod d st r \<longleftrightarrow>
     rq_cluster r = cluster \<and> rq_group r = gd_group_id d \<and> rq_confirm r = is_prod \<and> rq_body r = build_body nt st \<and>
     (cd_typed (ro_dialog st) = gd_group_id d \<or> gd_group_id d = []) \<and> \<not> ro_pending st \<and>
     body_partitions (rq_body r) = Some (JsArray (map JsInt (selected_parts st))) \<and> selected_parts st \<noteq> [] \<and>
     set (selected_parts st) \<subseteq> set (partitions_for_topic d (rf_topic (ro_form st))) \<and> strategy_ready (ro_form st)"

lemma selected_parts_cong:
  "ro_detail a = ro_detail b \<Longrightarrow> ro_form a = ro_form b \<Longrightarrow> ro_sel a = ro_sel b \<Longrightarrow> selected_parts a = selected_parts b"
  by (simp add: selected_parts_def topic_parts_def)

lemma reset_invI:
  assumes "reset_inv d st" "ro_detail st' = d" "ro_form st' = ro_form st" "ro_sel st' = ro_sel st"
    "cd_open (ro_dialog st') \<longrightarrow> cd_open (ro_dialog st)" "ro_pending st' \<longrightarrow> cd_open (ro_dialog st') \<and> cd_busy (ro_dialog st')"
  shows "reset_inv d st'"
proof -
  have "selected_parts st' = selected_parts st" using assms by (intro selected_parts_cong) (simp_all add: reset_inv_def)
  then show ?thesis using assms by (simp add: reset_inv_def)
qed

lemma reset_form_step_inv: "reset_inv d st \<Longrightarrow> \<not> cd_open (ro_dialog st) \<Longrightarrow> reset_inv d (reset_form_step st e)"
proof (cases "e = Ro_Commit \<and> commit_enabled st")
  case True
  assume "reset_inv d st" "\<not> cd_open (ro_dialog st)"
  moreover have "selected_parts (st\<lparr>ro_dialog := x\<rparr>) = selected_parts st" for x by (rule selected_parts_cong) simp_all
  ultimately show ?thesis using True by (simp add: reset_inv_def reset_form_step_def commit_enabled_def)
qed (cases e; auto simp: reset_inv_def reset_form_step_def Let_def)

lemma reset_step_inv:
  assumes i: "reset_inv d st" and e: "\<not> is_detail_event e"
  shows "reset_inv d (snd (reset_step nt cluster is_prod st e))"
proof -
  have d: "ro_detail st = d" "ro_pending st \<longrightarrow> cd_open (ro_dialog st) \<and> cd_busy (ro_dialog st)"
    using i by (simp_all add: reset_inv_def)
  show ?thesis
  proof (cases e)
    case Ro_Confirm
    show ?thesis
      by (rule reset_invI [OF i]) (use d in \<open>auto simp: Ro_Confirm reset_step_def confirm_click_iff split: option.splits\<close>)
  next
    case (Ro_Answer a)
    show ?thesis
      by (rule reset_invI [OF i]) (use d in \<open>auto simp: Ro_Answer reset_step_def reset_answer_def confirm_dialog_open split: sum.splits\<close>)
  next
    case (Ro_Phrase x)
    show ?thesis by (rule reset_invI [OF i]) (use d in \<open>simp_all add: Ro_Phrase reset_step_def confirm_dialog_open\<close>)
  next
    case Ro_Dismiss
    show ?thesis by (rule reset_invI [OF i]) (use d in \<open>auto simp: Ro_Dismiss reset_step_def confirm_dialog_open\<close>)
  next
    case Ro_Debounced
    show ?thesis by (rule reset_invI [OF i]) (use d in \<open>simp_all add: Ro_Debounced reset_step_def\<close>)
  qed (use i e reset_form_step_inv [OF i] in \<open>auto simp: reset_step_def is_detail_event_def\<close>)
qed

lemma reset_step_ok:
  assumes "reset_inv d st" "fst (reset_step nt cluster is_prod st e) = Some r"
  shows "reset_ok nt cluster is_prod d st r"
proof -
  obtain x where x: "confirm_click (Some (gd_group_id d)) (ro_dialog st) = Some x" "r = commit_request nt cluster is_prod st"
    using assms by (cases e) (auto simp: reset_step_def reset_inv_def split: option.splits)
  then have "cd_open (ro_dialog st)" "\<not> cd_busy (ro_dialog st)" "cd_typed (ro_dialog st) = gd_group_id d \<or> gd_group_id d = []"
    by (auto simp: confirm_click_iff phrase_ok_def)
  moreover have "set (selected_parts st) \<subseteq> set (partitions_for_topic d (rf_topic (ro_form st)))"
    using assms(1) by (auto simp: selected_parts_def topic_parts_def reset_inv_def)
  ultimately show ?thesis using assms(1) x(2)
    by (auto simp: reset_ok_def reset_inv_def commit_request_def build_body_members)
qed

interpretation reset: sender "reset_step nt cluster is_prod" "reset_inv d" "\<lambda>e. \<not> is_detail_event e" "reset_ok nt cluster is_prod d"
  by unfold_locales (simp_all add: reset_step_inv reset_step_ok)

lemma reset_initial_inv: "reset_inv d (reset_initial d now)"
  by (simp add: reset_inv_def reset_initial_def confirm_closed_def Let_def)

text \<open>
  C4: A commit of offsets names the ticked partitions. As long as the group detail does not change under the
  open dialog, every request of every sequence of form and dialog events follows the typed name of the group, carries the
  production flag of the cluster, comes from a form whose value is valid, and lists exactly the ticked partitions of the
  topic, at least one. The member is never left out, which the server would read as all partitions.
\<close>

theorem reset_commit_scope:
  assumes "(st, r) \<in> set (sends (reset_step nt cluster is_prod) (reset_initial d now) es)" "list_all (\<lambda>e. \<not> is_detail_event e) es"
  shows "reset_ok nt cluster is_prod d st r"
  using reset.sends_ok [OF reset_initial_inv assms(2,1)] by (rule conjunct2)

definition sample_group :: "group_offset list \<Rightarrow> group_detail" where
  "sample_group os = \<lparr>gd_group_id = js ''g'', gd_state = js ''Empty'', gd_protocol_type = js ''consumer'', gd_protocol = None, gd_coordinator_id = 1,
     gd_topics = None, gd_lag = 0, gd_lag_known = True, gd_error = None, gd_members = Some [], gd_offsets = os\<rparr>"

definition sample_offsets :: "group_offset list" where
  "sample_offsets = map (\<lambda>p. \<lparr>go_topic = js ''t'', go_partition = p, go_offset = 5, go_log_end = 9, go_lag = Some 4, go_metadata = None, go_assigned_to = None\<rparr>) [1, 0]"

lemma sample_reset_start:
  "group_topics (sample_group sample_offsets) = [js ''t'']"
  "selected_parts (reset_initial (sample_group sample_offsets) now) = [0, 1]"
  "commit_enabled (reset_initial (sample_group sample_offsets) now)"
proof -
  show t: "group_topics (sample_group sample_offsets) = [js ''t'']"
    by (simp add: group_topics_def sample_group_def sample_offsets_def js_sort_def)
  show p: "selected_parts (reset_initial (sample_group sample_offsets) now) = [0, 1]"
  proof -
    have "partitions_for_topic (sample_group sample_offsets) (js ''t'') = [1, 0]"
      by (simp add: partitions_for_topic_def sample_group_def sample_offsets_def)
    then show ?thesis by (simp add: selected_parts_def topic_parts_def reset_initial_def t select_all_def Let_def)
  qed
  show "commit_enabled (reset_initial (sample_group sample_offsets) now)"
    by (simp add: commit_enabled_def p) (simp add: reset_initial_def t strategy_ready_def Let_def)
qed

lemma reset_commit_sends:
  assumes "commit_enabled st" "ro_dialog st = confirm_closed"
  shows "sends (reset_step nt cluster is_prod) st [Ro_Commit, Ro_Phrase (gd_group_id (ro_detail st)), Ro_Confirm] =
    [(st\<lparr>ro_dialog := \<lparr>cd_open = True, cd_typed = gd_group_id (ro_detail st), cd_busy = False\<rparr>\<rparr>,
      commit_request nt cluster is_prod (st\<lparr>ro_dialog := \<lparr>cd_open = True, cd_typed = gd_group_id (ro_detail st), cd_busy = False\<rparr>\<rparr>))]"
  using assms by (simp add: reset_step_def reset_form_step_def confirm_closed_def set_open_def type_phrase_def confirm_click_def phrase_ok_def)

lemma reset_commit_scope_witness:
  "\<exists>st r. (st, r) \<in> set (sends (reset_step (\<lambda>_. []) (js ''c'') True) (reset_initial (sample_group sample_offsets) 0)
       [Ro_Commit, Ro_Phrase (js ''g''), Ro_Confirm]) \<and> body_partitions (rq_body r) = Some (JsArray [JsInt 0, JsInt 1])"
proof -
  let ?i = "reset_initial (sample_group sample_offsets) 0" and ?es = "[Ro_Commit, Ro_Phrase (js ''g''), Ro_Confirm]"
  let ?st = "?i\<lparr>ro_dialog := \<lparr>cd_open = True, cd_typed = js ''g'', cd_busy = False\<rparr>\<rparr>"
  have g: "gd_group_id (ro_detail ?i) = js ''g''" "ro_dialog ?i = confirm_closed"
    by (simp_all add: reset_initial_def Let_def sample_group_def)
  have m: "(?st, commit_request (\<lambda>_. []) (js ''c'') True ?st) \<in> set (sends (reset_step (\<lambda>_. []) (js ''c'') True) ?i ?es)"
    using reset_commit_sends [OF sample_reset_start(3) g(2)] g(1) by simp
  have "selected_parts ?st = [0, 1]" using selected_parts_cong [of ?st ?i] sample_reset_start(2) by simp
  moreover have "reset_ok (\<lambda>_. []) (js ''c'') True (sample_group sample_offsets) ?st (commit_request (\<lambda>_. []) (js ''c'') True ?st)"
    by (rule reset_commit_scope [OF m]) (simp add: is_detail_event_def)
  ultimately have "body_partitions (rq_body (commit_request (\<lambda>_. []) (js ''c'') True ?st)) = Some (JsArray (map JsInt [0, 1]))"
    unfolding reset_ok_def by metis
  then have "body_partitions (rq_body (commit_request (\<lambda>_. []) (js ''c'') True ?st)) = Some (JsArray [JsInt 0, JsInt 1])"
    by (simp only: list.map)
  with m show ?thesis by blast
qed

text \<open>
  C34: The guard of the "Commit reset" button is not asked again when the confirmation runs. When a refetch of the
  group (every five seconds) brings a detail without offsets of the topic while the confirmation dialog is open,
  the confirmed request leaves out the partitions, and the server resets every partition of the topic although the
  user had ticked some, and the dialog now says none.
\<close>

theorem reset_after_refetch_names_no_partition:
  assumes "commit_enabled st" "ro_dialog st = confirm_closed" "partitions_for_topic d (rf_topic (ro_form st)) = []"
  shows "\<exists>s r. sends (reset_step nt cluster is_prod) st [Ro_Commit, Ro_Detail d, Ro_Phrase (gd_group_id d), Ro_Confirm] = [(s, r)] \<and>
    body_partitions (rq_body r) = None \<and> jprop (js ''topic'') (rq_body r) = Some (JsString (rf_topic (ro_form st))) \<and>
    selected_parts st \<noteq> [] \<and> selected_parts s = []"
proof -
  let ?s = "st\<lparr>ro_detail := d, ro_dialog := \<lparr>cd_open = True, cd_typed = gd_group_id d, cd_busy = False\<rparr>\<rparr>"
  have "sends (reset_step nt cluster is_prod) st [Ro_Commit, Ro_Detail d, Ro_Phrase (gd_group_id d), Ro_Confirm] =
      [(?s, commit_request nt cluster is_prod ?s)]"
    using assms by (simp add: reset_step_def reset_form_step_def confirm_closed_def set_open_def type_phrase_def confirm_click_def phrase_ok_def)
  moreover have "selected_parts ?s = []" using assms(3) by (simp add: selected_parts_def topic_parts_def)
  ultimately show ?thesis using assms(1)
    by (auto simp: commit_request_def build_body_members commit_enabled_def)
qed

lemma reset_after_refetch_witness:
  "\<exists>s r. sends (reset_step (\<lambda>_. []) (js ''c'') False) (reset_initial (sample_group sample_offsets) 0)
       [Ro_Commit, Ro_Detail (sample_group []), Ro_Phrase (js ''g''), Ro_Confirm] = [(s, r)] \<and> body_partitions (rq_body r) = None"
proof -
  have "ro_dialog (reset_initial (sample_group sample_offsets) 0) = confirm_closed" "gd_group_id (sample_group []) = js ''g''"
    "partitions_for_topic (sample_group []) t = []" for t
    by (simp_all add: reset_initial_def Let_def sample_group_def partitions_for_topic_def)
  with reset_after_refetch_names_no_partition [OF sample_reset_start(3), of 0 "sample_group []" "\<lambda>_. []" "js ''c''" False]
  show ?thesis by auto
qed

end
