(* ===== verification/BulkCopy.thy ===== *)
theory BulkCopy
  imports Replay Numbers
begin

text \<open>
  The panel that copies a range of a topic to another cluster or topic (\<open>frontend/src/features/messages/BulkCopyPanel.tsx\<close>):
  its form, the request it starts, the confirmation of a production cluster, and the progress of the stream. The
  clusters and the store of private clusters are read at the moment of the click; \<open>parse_local\<close> reads a local
  date and time, \<open>local_text\<close> writes one.
\<close>

section \<open>State\<close>

record copy_form =
  bf_dest_cluster :: jstr
  bf_dest_topic :: jstr
  bf_partition :: jstr
  bf_from :: jstr
  bf_to :: jstr
  bf_limit :: jstr
  bf_preserve :: bool

text \<open>\<open>bc_stream\<close>: whether \<open>abortRef\<close> holds the stream of a started copy.\<close>

record copy_panel =
  bc_store :: store
  bc_clusters :: "cluster_list_item list option"
  bc_form :: copy_form
  bc_running :: bool
  bc_progress :: "json option"
  bc_stopped :: bool
  bc_dialog :: confirm_dialog
  bc_stream :: bool

definition copy_panel_initial :: "store \<Rightarrow> cluster_list_item list option \<Rightarrow> copy_panel" where
  "copy_panel_initial s cs = \<lparr>bc_store = s, bc_clusters = cs,
     bc_form = \<lparr>bf_dest_cluster = [], bf_dest_topic = [], bf_partition = js ''all'', bf_from = [], bf_to = [], bf_limit = [], bf_preserve = False\<rparr>,
     bc_running = False, bc_progress = None, bc_stopped = False, bc_dialog = confirm_closed, bc_stream = False\<rparr>"

definition copy_dest :: "copy_panel \<Rightarrow> jstr" where
  "copy_dest st = effective_cluster (bc_clusters st) (bf_dest_cluster (bc_form st))"

definition copy_is_prod :: "copy_panel \<Rightarrow> bool" where
  "copy_is_prod st = is_prod_dest (bc_clusters st) (copy_dest st)"

definition copy_preset_durations :: "(jstr, int) jsmap" where
  "copy_preset_durations = [(js ''30m'', 30 * 60000), (js ''1h'', 60 * 60000), (js ''6h'', 6 * 60 * 60000), (js ''24h'', 24 * 60 * 60000),
     (js ''7d'', 7 * 24 * 60 * 60000)]"

definition can_start_copy :: "copy_panel \<Rightarrow> bool" where
  "can_start_copy st \<longleftrightarrow> copy_dest st \<noteq> [] \<and> trim (bf_dest_topic (bc_form st)) \<noteq> [] \<and> \<not> bc_running st"

section \<open>The request\<close>

record copy_job =
  cj_body :: json
  cj_confirmed :: bool

definition int_or_null :: "int option \<Rightarrow> json" where
  "int_or_null i = (case i of None \<Rightarrow> JsNull | Some n \<Rightarrow> JsInt n)"

definition copy_limit :: "jstr \<Rightarrow> int option" where
  "copy_limit s = (if trim s = [] then None else case parse_int s of Some n \<Rightarrow> if 0 < n then Some n else None | None \<Rightarrow> None)"

text \<open>\<open>dest\<close> is the configuration of a private destination, or the name of a shared one.\<close>

definition copy_body :: "(jstr \<Rightarrow> int option) \<Rightarrow> copy_form \<Rightarrow> json + jstr \<Rightarrow> json" where
  "copy_body parse_local f dest = JsObject (members
     [(js ''dest_topic'', Some (JsString (trim (bf_dest_topic f)))), (js ''preserve_partition'', Some (JsBool (bf_preserve f))),
      (js ''dest_cluster_config'', case dest of Inl cfg \<Rightarrow> Some cfg | Inr _ \<Rightarrow> None),
      (js ''dest_cluster'', case dest of Inl _ \<Rightarrow> None | Inr name \<Rightarrow> Some (JsString name)),
      (js ''partition'', if bf_partition f \<noteq> js ''all'' then Some (int_or_null (parse_int (bf_partition f))) else None),
      (js ''from_ts_ms'', if bf_from f \<noteq> [] then Some (int_or_null (parse_local (bf_from f))) else None),
      (js ''to_ts_ms'', if bf_to f \<noteq> [] then Some (int_or_null (parse_local (bf_to f))) else None),
      (js ''limit'', map_option JsInt (copy_limit (bf_limit f)))])"

definition password_needed_event :: "private_cluster \<Rightarrow> json" where
  "password_needed_event p = failed_event (js ''Open '' @ [34] @ ci_name p @ [34] @ js '' in this tab and enter its password, then copy again.'')"

text \<open>\<open>startCopy\<close>. The last component tells that it threw (a private cluster without \<open>tls\<close>).\<close>

definition start_copy :: "(jstr \<Rightarrow> int option) \<Rightarrow> bool \<Rightarrow> copy_panel \<Rightarrow> copy_job option \<times> copy_panel \<times> bool" where
  "start_copy parse_local confirmed st =
     (if \<not> can_start_copy st then (None, st, False)
      else let started = st\<lparr>bc_running := True, bc_progress := None, bc_stopped := False\<rparr>;
               job = (\<lambda>dest. (Some \<lparr>cj_body = copy_body parse_local (bc_form st) dest, cj_confirmed = confirmed\<rparr>, started\<lparr>bc_stream := True\<rparr>, False))
        in case get_private_cluster_by_name (bc_store st) (copy_dest st) of
             None \<Rightarrow> job (Inr (copy_dest st))
           | Some p \<Rightarrow>
               if needs_passwords p then (None, st\<lparr>bc_stopped := False, bc_progress := Some (password_needed_event p)\<rparr>, False)
               else (case to_backend_config p of Inl _ \<Rightarrow> (None, started, True) | Inr cfg \<Rightarrow> job (Inl cfg)))"

definition copy_call :: "api_env \<Rightarrow> (http_response \<Rightarrow> (byte list list \<times> stream_end) option) \<Rightarrow> jstr \<Rightarrow> jstr \<Rightarrow> copy_job \<Rightarrow> json list" where
  "copy_call env stream cluster topic j = copy_messages env stream cluster topic (cj_body j) (cj_confirmed j)"

section \<open>Events\<close>

datatype copy_event =
    Bc_Env store "cluster_list_item list option"
  | Bc_Dest jstr
  | Bc_Topic jstr
  | Bc_Preset jstr int
  | Bc_Clear
  | Bc_From jstr
  | Bc_To jstr
  | Bc_Limit jstr
  | Bc_Partition jstr
  | Bc_Preserve bool
  | Bc_Start
  | Bc_Confirm
  | Bc_Dismiss
  | Bc_Progress json
  | Bc_Stop

definition copy_form_step :: "(int \<Rightarrow> jstr) \<Rightarrow> copy_panel \<Rightarrow> copy_event \<Rightarrow> copy_panel" where
  "copy_form_step local_text st e =
     (let f = bc_form st in
      case e of
        Bc_Dest c \<Rightarrow> st\<lparr>bc_form := f\<lparr>bf_dest_cluster := c, bf_dest_topic := []\<rparr>, bc_progress := None, bc_stopped := False\<rparr>
      | Bc_Topic t \<Rightarrow> st\<lparr>bc_form := f\<lparr>bf_dest_topic := t\<rparr>, bc_progress := None, bc_stopped := False\<rparr>
      | Bc_Preset k now \<Rightarrow> (case mget copy_preset_durations k of None \<Rightarrow> st
          | Some ms \<Rightarrow> st\<lparr>bc_form := f\<lparr>bf_from := local_text (now - ms), bf_to := local_text now\<rparr>\<rparr>)
      | Bc_Clear \<Rightarrow> st\<lparr>bc_form := f\<lparr>bf_from := [], bf_to := []\<rparr>\<rparr>
      | Bc_From s \<Rightarrow> st\<lparr>bc_form := f\<lparr>bf_from := s\<rparr>\<rparr>
      | Bc_To s \<Rightarrow> st\<lparr>bc_form := f\<lparr>bf_to := s\<rparr>\<rparr>
      | Bc_Limit s \<Rightarrow> st\<lparr>bc_form := f\<lparr>bf_limit := s\<rparr>\<rparr>
      | Bc_Partition s \<Rightarrow> st\<lparr>bc_form := f\<lparr>bf_partition := s\<rparr>\<rparr>
      | Bc_Preserve b \<Rightarrow> st\<lparr>bc_form := f\<lparr>bf_preserve := b\<rparr>\<rparr>
      | _ \<Rightarrow> st)"

definition copy_progress :: "json \<Rightarrow> copy_panel \<Rightarrow> copy_panel" where
  "copy_progress ev st =
     (if \<not> bc_stream st then st
      else if js_truthy (jprop (js ''done'') ev) then st\<lparr>bc_progress := Some ev, bc_running := False, bc_stream := False\<rparr>
      else st\<lparr>bc_progress := Some ev\<rparr>)"

definition copy_step :: "(jstr \<Rightarrow> int option) \<Rightarrow> (int \<Rightarrow> jstr) \<Rightarrow> copy_panel \<Rightarrow> copy_event \<Rightarrow> copy_job option \<times> copy_panel" where
  "copy_step parse_local local_text st e =
     (case e of
        Bc_Env s cs \<Rightarrow> (None, st\<lparr>bc_store := s, bc_clusters := cs\<rparr>)
      | Bc_Start \<Rightarrow>
          if \<not> can_start_copy st \<or> cd_open (bc_dialog st) then (None, st)
          else if copy_is_prod st then (None, st\<lparr>bc_dialog := set_open True (bc_dialog st)\<rparr>)
          else (case start_copy parse_local False st of (j, st', _) \<Rightarrow> (j, st'))
      | Bc_Confirm \<Rightarrow> (case confirm_click None (bc_dialog st) of
            None \<Rightarrow> (None, st)
          | Some d \<Rightarrow> (case start_copy parse_local True st of (j, st', threw) \<Rightarrow> (j, st'\<lparr>bc_dialog := confirm_settled (\<not> threw) d\<rparr>)))
      | Bc_Dismiss \<Rightarrow> (None, st\<lparr>bc_dialog := confirm_dismiss (bc_dialog st)\<rparr>)
      | Bc_Progress ev \<Rightarrow> (None, copy_progress ev st)
      | Bc_Stop \<Rightarrow> (None, if bc_running st then st\<lparr>bc_running := False, bc_stopped := True, bc_stream := False\<rparr> else st)
      | _ \<Rightarrow> (None, if bc_running st then st else copy_form_step local_text st e))"

section \<open>The jobs that start\<close>

text \<open>A private destination is embedded with its passwords, any other goes by its name.\<close>

definition job_body_ok :: "(jstr \<Rightarrow> int option) \<Rightarrow> copy_panel \<Rightarrow> json \<Rightarrow> bool" where
  "job_body_ok parse_local st body \<longleftrightarrow> (\<exists>dest. body = copy_body parse_local (bc_form st) dest \<and>
     (case get_private_cluster_by_name (bc_store st) (copy_dest st) of
        None \<Rightarrow> dest = Inr (copy_dest st)
      | Some p \<Rightarrow> \<not> needs_passwords p \<and> (\<exists>cfg. to_backend_config p = Inr cfg \<and> dest = Inl cfg)))"

definition copy_ok :: "(jstr \<Rightarrow> int option) \<Rightarrow> copy_panel \<Rightarrow> copy_job \<Rightarrow> bool" where
  "copy_ok parse_local st j \<longleftrightarrow> can_start_copy st \<and> (copy_is_prod st \<longrightarrow> cj_confirmed j) \<and> job_body_ok parse_local st (cj_body j)"

lemma start_copy_job:
  assumes "start_copy parse_local c st = (Some j, st', t)"
  shows "can_start_copy st \<and> cj_confirmed j = c \<and> job_body_ok parse_local st (cj_body j)"
  using assms by (auto simp: start_copy_def job_body_ok_def Let_def split: if_splits option.splits sum.splits)

lemma copy_step_ok: "fst (copy_step parse_local local_text st e) = Some j \<Longrightarrow> copy_ok parse_local st j"
  unfolding copy_ok_def
  by (cases e) (auto simp: copy_step_def split: if_splits option.splits prod.splits dest: start_copy_job)

text \<open>A stream is only alive while the panel runs, so two copies never report into one panel.\<close>

definition copy_inv :: "copy_panel \<Rightarrow> bool" where
  "copy_inv st \<longleftrightarrow> (bc_stream st \<longrightarrow> bc_running st)"

lemma start_copy_inv: "copy_inv st \<Longrightarrow> start_copy parse_local c st = (j, st', t) \<Longrightarrow> copy_inv st'"
  by (auto simp: start_copy_def copy_inv_def Let_def split: if_splits option.splits sum.splits)

lemma copy_step_inv:
  assumes "copy_inv st"
  shows "copy_inv (snd (copy_step parse_local local_text st e))"
proof (cases e)
  case Bc_Start
  then show ?thesis using assms start_copy_inv [OF assms]
    by (auto simp: copy_step_def split: prod.splits) (simp add: copy_inv_def)
next
  case Bc_Confirm
  then show ?thesis using assms start_copy_inv [OF assms]
    by (auto simp: copy_step_def split: prod.splits option.splits) (force simp: copy_inv_def)
qed (use assms in \<open>auto simp: copy_step_def copy_inv_def copy_form_step_def copy_progress_def Let_def split: option.splits\<close>)

interpretation bulk: sender "copy_step parse_local local_text" copy_inv "\<lambda>_. True" "copy_ok parse_local"
  by unfold_locales (simp_all add: copy_step_inv copy_step_ok)

lemma copy_body_members:
  "jprop (js ''dest_cluster'') (copy_body pl f dest) = (case dest of Inl _ \<Rightarrow> None | Inr n \<Rightarrow> Some (JsString n))"
  "jprop (js ''dest_cluster_config'') (copy_body pl f dest) = (case dest of Inl c \<Rightarrow> Some c | Inr _ \<Rightarrow> None)"
  "jprop (js ''limit'') (copy_body pl f dest) = map_option JsInt (copy_limit (bf_limit f))"
  "jprop (js ''dest_topic'') (copy_body pl f dest) = Some (JsString (trim (bf_dest_topic f)))"
  by (cases dest; simp add: copy_body_def jprop_def mget_members js_def del: members_simps)+

text \<open>
  Texts a number field accepts and the limit reads otherwise: an exponent is cut off, and zero or a negative
  number means no limit at all.
\<close>

lemma copy_limit_misread:
  "copy_limit (js ''1e3'') = Some 1" "copy_limit (js ''0'') = None" "copy_limit (js ''-5'') = None" "copy_limit (js ''0.5'') = None"
  by code_simp+

text \<open>
  C17: A copy goes where the panel says. Every job of every sequence of events starts while no other runs, names the
  trimmed topic, is confirmed when the destination is a production cluster, carries a limit only when
  it is positive, and reaches exactly one destination: a private cluster by its configuration, which then holds its
  passwords, and never by its name; any other by its name.
\<close>

theorem copy_job_scope:
  assumes "(st, j) \<in> set (sends (copy_step parse_local local_text) (copy_panel_initial s cs) es)"
  shows "\<not> bc_running st \<and> trim (bf_dest_topic (bc_form st)) \<noteq> [] \<and> (copy_is_prod st \<longrightarrow> cj_confirmed j) \<and>
    jprop (js ''dest_topic'') (cj_body j) = Some (JsString (trim (bf_dest_topic (bc_form st)))) \<and>
    (case get_private_cluster_by_name (bc_store st) (copy_dest st) of
       None \<Rightarrow> jprop (js ''dest_cluster'') (cj_body j) = Some (JsString (copy_dest st)) \<and> jprop (js ''dest_cluster_config'') (cj_body j) = None
     | Some p \<Rightarrow> \<not> needs_passwords p \<and> jprop (js ''dest_cluster'') (cj_body j) = None \<and>
         (\<exists>cfg. to_backend_config p = Inr cfg \<and> jprop (js ''dest_cluster_config'') (cj_body j) = Some cfg)) \<and>
    (\<forall>n. jprop (js ''limit'') (cj_body j) = Some (JsInt n) \<longrightarrow> 0 < n)"
proof -
  have "copy_inv (copy_panel_initial s cs)" by (simp add: copy_inv_def copy_panel_initial_def)
  from bulk.sends_ok [OF this list_all_True assms] have ok: "copy_ok parse_local st j" by (rule conjunct2)
  then obtain dest where d: "cj_body j = copy_body parse_local (bc_form st) dest"
    "case get_private_cluster_by_name (bc_store st) (copy_dest st) of None \<Rightarrow> dest = Inr (copy_dest st)
       | Some p \<Rightarrow> \<not> needs_passwords p \<and> (\<exists>cfg. to_backend_config p = Inr cfg \<and> dest = Inl cfg)"
    by (auto simp: copy_ok_def job_body_ok_def)
  have "copy_limit t = Some n \<Longrightarrow> 0 < n" for t n
    by (auto simp: copy_limit_def split: if_splits option.splits)
  with ok d show ?thesis
    by (auto simp: copy_ok_def can_start_copy_def copy_body_members split: option.splits)
qed

lemma sample_target_fields: "cl_name (sample_target p) = js ''c''" "cl_is_prod (sample_target p) = p"
  by (simp_all add: sample_replay)

lemma copy_job_scope_witness:
  "\<exists>st j. (st, j) \<in> set (sends (copy_step (\<lambda>_. None) (\<lambda>_. [])) (copy_panel_initial no_clusters (Some [sample_target True])) [Bc_Topic (js ''t''), Bc_Start, Bc_Confirm]) \<and>
     cj_confirmed j \<and> jprop (js ''dest_cluster'') (cj_body j) = Some (JsString (js ''c''))"
proof -
  let ?i = "copy_panel_initial no_clusters (Some [sample_target True])" and ?es = "[Bc_Topic (js ''t''), Bc_Start, Bc_Confirm]"
  let ?a = "?i\<lparr>bc_form := (bc_form ?i)\<lparr>bf_dest_topic := js ''t''\<rparr>\<rparr>"
  let ?b = "?a\<lparr>bc_dialog := set_open True confirm_closed\<rparr>"
  let ?j = "\<lparr>cj_body = copy_body (\<lambda>_. None) (bc_form ?b) (Inr (js ''c'')), cj_confirmed = True\<rparr>"
  have i: "bc_clusters ?i = Some [sample_target True]" "bc_store ?i = no_clusters" "\<not> bc_running ?i" "bc_dialog ?i = confirm_closed"
    "bf_dest_cluster (bc_form ?i) = []" "bc_progress ?i = None" "\<not> bc_stopped ?i"
    by (simp_all add: copy_panel_initial_def)
  have t: "trim (js ''t'') = js ''t''" "js ''t'' \<noteq> []" "js ''c'' \<noteq> []"
    by (simp_all add: js_def trim_def trim_start_def trim_end_def js_space_def)
  have d: "copy_dest ?a = js ''c''" "copy_dest ?b = js ''c''" by (simp_all add: copy_dest_def effective_cluster_def i sample_target_fields)
  have p: "copy_is_prod ?a" "copy_is_prod ?b" by (simp_all add: copy_is_prod_def d is_prod_dest_def i sample_target_fields)
  have c: "can_start_copy ?a" "can_start_copy ?b" by (simp_all add: can_start_copy_def d t i)
  have n: "get_private_cluster_by_name no_clusters x = None" for x
    by (simp add: get_private_cluster_by_name_def no_clusters_def read_all_def safe_read_def)
  have 1: "copy_step (\<lambda>_. None) (\<lambda>_. []) ?i (Bc_Topic (js ''t'')) = (None, ?a)"
    by (simp add: copy_step_def copy_form_step_def copy_panel_initial_def)
  have 2: "copy_step (\<lambda>_. None) (\<lambda>_. []) ?a Bc_Start = (None, ?b)"
  proof -
    have "\<not> cd_open (bc_dialog ?a)" "bc_dialog ?a = confirm_closed" using i(4) by (simp_all add: confirm_closed_def)
    then show ?thesis using c p by (simp add: copy_step_def)
  qed
  have 3: "fst (copy_step (\<lambda>_. None) (\<lambda>_. []) ?b Bc_Confirm) = Some ?j"
    using c(2) d(2) by (simp add: copy_step_def confirm_click_def phrase_ok_def set_open_def confirm_closed_def start_copy_def i n Let_def)
  have mem: "(?b, ?j) \<in> set (sends (copy_step (\<lambda>_. None) (\<lambda>_. [])) ?i ?es)"
    using 1 2 3 by (cases "copy_step (\<lambda>_. None) (\<lambda>_. []) ?b Bc_Confirm") simp
  from copy_job_scope [OF mem] have "jprop (js ''dest_cluster'') (cj_body ?j) = Some (JsString (js ''c''))"
    by (simp add: d i n)
  with mem show ?thesis by (intro exI [of _ ?b] exI [of _ ?j]) simp
qed

end
