(* ===== verification/ProduceForm.thy ===== *)
theory ProduceForm
  imports Replay Numbers
begin

text \<open>
  The tab that produces a record (\<open>frontend/src/routes/clusters.$cluster.topics.$topic.produce.tsx\<close>): its form, "Load latest", the
  check of a JSON value, and the request with the confirmation of a production cluster. \<open>JSON.parse\<close> is a
  parameter (\<open>None\<close> when it throws), \<open>parse_error\<close> the text of its error.
\<close>

section \<open>State\<close>

datatype value_format = Vf_Text | Vf_Json

record produce_form =
  pf_key :: jstr
  pf_value :: jstr
  pf_partition :: jstr
  pf_headers :: "(jstr \<times> jstr) list"
  pf_format :: value_format

record produce_state =
  ps_form :: produce_form
  ps_clusters :: "cluster_list_item list option"
  ps_allowed :: bool
  ps_busy :: bool
  ps_templating :: bool
  ps_template_error :: "jstr option"
  ps_result :: "json option"
  ps_error :: "jstr option"
  ps_value_error :: "jstr option"
  ps_dialog :: confirm_dialog
  ps_pending :: "bool option"

definition empty_produce_form :: produce_form where
  "empty_produce_form = \<lparr>pf_key = [], pf_value = [], pf_partition = js ''auto'', pf_headers = [], pf_format = Vf_Text\<rparr>"

definition produce_initial :: "cluster_list_item list option \<Rightarrow> bool \<Rightarrow> produce_state" where
  "produce_initial cs allowed = \<lparr>ps_form = empty_produce_form, ps_clusters = cs, ps_allowed = allowed, ps_busy = False, ps_templating = False,
     ps_template_error = None, ps_result = None, ps_error = None, ps_value_error = None, ps_dialog = confirm_closed, ps_pending = None\<rparr>"

definition produce_is_prod :: "jstr \<Rightarrow> produce_state \<Rightarrow> bool" where
  "produce_is_prod cluster st = is_prod_dest (ps_clusters st) cluster"

definition reserved_header :: "jstr \<Rightarrow> bool" where
  "reserved_header k = starts_with (js ''x-kafkito-'') (map (\<lambda>c. if 65 \<le> c \<and> c \<le> 90 then c + 32 else c) (trim k))"

definition has_reserved_header :: "produce_form \<Rightarrow> bool" where
  "has_reserved_header f = list_ex (\<lambda>(k, _). reserved_header k) (pf_headers f)"

definition update_header :: "nat \<Rightarrow> (jstr \<times> jstr \<Rightarrow> jstr \<times> jstr) \<Rightarrow> (jstr \<times> jstr) list \<Rightarrow> (jstr \<times> jstr) list" where
  "update_header i f hs = (if i < length hs then hs[i := f (hs ! i)] else hs)"

definition remove_header :: "nat \<Rightarrow> (jstr \<times> jstr) list \<Rightarrow> (jstr \<times> jstr) list" where
  "remove_header i hs = take i hs @ drop (Suc i) hs"

section \<open>Load latest\<close>

definition looks_like_json :: "(jstr \<Rightarrow> json option) \<Rightarrow> jstr \<Rightarrow> bool" where
  "looks_like_json parse s = (let t = trim s in t \<noteq> [] \<and> (hd t = 123 \<or> hd t = 91) \<and> parse t \<noteq> None)"

text \<open>The newest of the records found, one of each partition at most; the order is that of the message list.\<close>

definition latest_candidate :: "message list \<Rightarrow> message option" where
  "latest_candidate ms = (case sort_by newest_le ms of [] \<Rightarrow> None | m # _ \<Rightarrow> Some m)"

definition template_value :: "(jstr \<Rightarrow> json option) \<Rightarrow> jstr \<Rightarrow> jstr \<times> value_format" where
  "template_value parse v =
     (if looks_like_json parse v then (case parse v of Some j \<Rightarrow> (stringify2 0 j, Vf_Json) | None \<Rightarrow> (v, Vf_Text)) else (v, Vf_Text))"

definition apply_template :: "(jstr \<Rightarrow> json option) \<Rightarrow> message list \<Rightarrow> produce_state \<Rightarrow> produce_state" where
  "apply_template parse ms st =
     (case latest_candidate ms of
        None \<Rightarrow> st\<lparr>ps_templating := False, ps_template_error := Some (js ''No messages in this topic yet'')\<rparr>
      | Some m \<Rightarrow>
          let (v, fmt) = template_value parse (opt_or (m_value m) [])
          in st\<lparr>ps_form := (ps_form st)\<lparr>pf_key := opt_or (m_key m) [], pf_value := v, pf_format := fmt, pf_headers := opt_or (m_headers m) []\<rparr>,
               ps_templating := False\<rparr>)"

definition start_template :: "produce_state \<Rightarrow> produce_state" where
  "start_template st = st\<lparr>ps_templating := True, ps_template_error := None, ps_error := None, ps_value_error := None\<rparr>"

definition prettify_json :: "(jstr \<Rightarrow> json option) \<Rightarrow> (jstr \<Rightarrow> jstr) \<Rightarrow> produce_state \<Rightarrow> produce_state" where
  "prettify_json parse parse_error st =
     (case parse (pf_value (ps_form st)) of
        Some j \<Rightarrow> st\<lparr>ps_form := (ps_form st)\<lparr>pf_value := stringify2 0 j, pf_format := Vf_Json\<rparr>, ps_value_error := None\<rparr>
      | None \<Rightarrow> st\<lparr>ps_value_error := Some (js ''Value is not valid JSON: '' @ parse_error (pf_value (ps_form st)))\<rparr>)"

section \<open>Producing\<close>

record produce_request =
  pq_body :: json
  pq_confirmed :: bool

text \<open>Rows with a name only; a later row of the same trimmed name wins in the place of the first.\<close>

definition trimmed_headers :: "(jstr \<times> jstr) list \<Rightarrow> (jstr, jstr) jsmap" where
  "trimmed_headers hs = fold (\<lambda>(k, v) m. if trim k = [] then m else mset_key (trim k) v m) hs []"

definition produce_body :: "produce_form \<Rightarrow> json" where
  "produce_body f = JsObject (members
     [(js ''key'', Some (JsString (pf_key f))), (js ''value'', Some (JsString (pf_value f))),
      (js ''key_encoding'', Some (JsString (js ''text''))), (js ''value_encoding'', Some (JsString (js ''text''))),
      (js ''partition'', if pf_partition f = js ''auto'' then None else Some (case parse_int (pf_partition f) of None \<Rightarrow> JsNull | Some n \<Rightarrow> JsInt n)),
      (js ''headers'', if trimmed_headers (pf_headers f) \<noteq> [] then text_map (Some (trimmed_headers (pf_headers f))) else None)])"

definition json_value_bad :: "(jstr \<Rightarrow> json option) \<Rightarrow> produce_form \<Rightarrow> bool" where
  "json_value_bad parse f \<longleftrightarrow> pf_format f = Vf_Json \<and> trim (pf_value f) \<noteq> [] \<and> parse (pf_value f) = None"

definition run_produce :: "(jstr \<Rightarrow> json option) \<Rightarrow> (jstr \<Rightarrow> jstr) \<Rightarrow> bool \<Rightarrow> produce_state \<Rightarrow> produce_request option \<times> produce_state" where
  "run_produce parse parse_error confirmed st =
     (let st1 = st\<lparr>ps_error := None, ps_result := None\<rparr>; f = ps_form st in
      if json_value_bad parse f then
        (None, st1\<lparr>ps_value_error := Some (js ''Value is not valid JSON: '' @ parse_error (pf_value f))\<rparr>)
      else (Some \<lparr>pq_body = produce_body f, pq_confirmed = confirmed\<rparr>, st1\<lparr>ps_value_error := None, ps_busy := True, ps_pending := Some confirmed\<rparr>))"

definition produce_call :: "api_env \<Rightarrow> (byte list \<Rightarrow> byte list option) option \<Rightarrow> jstr \<Rightarrow> jstr \<Rightarrow> produce_request \<Rightarrow> jstr + json option" where
  "produce_call env gzip cluster topic r =
     (case produce_message env gzip cluster topic (pq_body r) (pq_confirmed r) of Inl e \<Rightarrow> Inl (error_message e) | Inr d \<Rightarrow> Inr d)"

definition produce_answer :: "jstr + json option \<Rightarrow> produce_state \<Rightarrow> produce_state" where
  "produce_answer a st =
     (case ps_pending st of
        None \<Rightarrow> st
      | Some confirmed \<Rightarrow>
          let st1 = (case a of Inr r \<Rightarrow> st\<lparr>ps_result := r\<rparr> | Inl msg \<Rightarrow> st\<lparr>ps_error := Some msg\<rparr>)
          in st1\<lparr>ps_busy := False, ps_pending := None, ps_dialog := (if confirmed then confirm_settled True (ps_dialog st1) else ps_dialog st1)\<rparr>)"

definition reset_produce :: "produce_state \<Rightarrow> produce_state" where
  "reset_produce st = st\<lparr>ps_form := empty_produce_form, ps_result := None, ps_error := None, ps_value_error := None, ps_template_error := None\<rparr>"

datatype produce_event =
    Pe_Clusters "cluster_list_item list option" bool
  | Pe_Edit "produce_form \<Rightarrow> produce_form"
  | Pe_Load_Latest
  | Pe_Latest "message list"
  | Pe_Prettify
  | Pe_Submit
  | Pe_Confirm
  | Pe_Dismiss
  | Pe_Answer "jstr + json option"
  | Pe_Reset

definition produce_step :: "(jstr \<Rightarrow> json option) \<Rightarrow> (jstr \<Rightarrow> jstr) \<Rightarrow> jstr \<Rightarrow> produce_state \<Rightarrow> produce_event \<Rightarrow> produce_request option \<times> produce_state" where
  "produce_step parse parse_error cluster st e =
     (case e of
        Pe_Clusters cs allowed \<Rightarrow> (None, st\<lparr>ps_clusters := cs, ps_allowed := allowed\<rparr>)
      | Pe_Edit f \<Rightarrow> (None, st\<lparr>ps_form := f (ps_form st)\<rparr>)
      | Pe_Load_Latest \<Rightarrow> (None, if ps_templating st \<or> ps_busy st then st else start_template st)
      | Pe_Latest ms \<Rightarrow> (None, if ps_templating st then apply_template parse ms st else st)
      | Pe_Prettify \<Rightarrow> (None, prettify_json parse parse_error st)
      | Pe_Submit \<Rightarrow>
          if ps_busy st \<or> \<not> ps_allowed st \<or> cd_open (ps_dialog st) then (None, st)
          else if produce_is_prod cluster st then (None, st\<lparr>ps_dialog := set_open True (ps_dialog st)\<rparr>)
          else run_produce parse parse_error False st
      | Pe_Confirm \<Rightarrow> (case confirm_click None (ps_dialog st) of
            None \<Rightarrow> (None, st)
          | Some d \<Rightarrow> (case run_produce parse parse_error True (st\<lparr>ps_dialog := d\<rparr>) of
                (None, st') \<Rightarrow> (None, st'\<lparr>ps_dialog := confirm_settled True d\<rparr>)
              | sent \<Rightarrow> sent))
      | Pe_Dismiss \<Rightarrow> (None, st\<lparr>ps_dialog := confirm_dismiss (ps_dialog st)\<rparr>)
      | Pe_Answer a \<Rightarrow> (None, produce_answer a st)
      | Pe_Reset \<Rightarrow> (None, if ps_busy st then st else reset_produce st))"

section \<open>What is sent\<close>

definition produce_ok :: "(jstr \<Rightarrow> json option) \<Rightarrow> jstr \<Rightarrow> produce_state \<Rightarrow> produce_request \<Rightarrow> bool" where
  "produce_ok parse cluster st r \<longleftrightarrow> (produce_is_prod cluster st \<longrightarrow> pq_confirmed r) \<and> \<not> json_value_bad parse (ps_form st) \<and> pq_body r = produce_body (ps_form st)"

lemma run_produce_sent:
  "run_produce parse pe c st = (Some r, st') \<Longrightarrow> pq_confirmed r = c \<and> \<not> json_value_bad parse (ps_form st) \<and> pq_body r = produce_body (ps_form st)"
  by (auto simp: run_produce_def Let_def split: if_splits)

lemma produce_step_ok: "fst (produce_step parse pe cluster st e) = Some r \<Longrightarrow> produce_ok parse cluster st r"
proof (cases e)
  case Pe_Submit
  assume "fst (produce_step parse pe cluster st e) = Some r"
  then have "\<not> produce_is_prod cluster st" "fst (run_produce parse pe False st) = Some r"
    by (auto simp: Pe_Submit produce_step_def split: if_splits)
  then show ?thesis using run_produce_sent [of parse pe False st r] by (cases "run_produce parse pe False st") (auto simp: produce_ok_def)
next
  case Pe_Confirm
  assume "fst (produce_step parse pe cluster st e) = Some r"
  then obtain d where d: "fst (run_produce parse pe True (st\<lparr>ps_dialog := d\<rparr>)) = Some r"
    by (auto simp: Pe_Confirm produce_step_def split: option.splits prod.splits) (metis fst_conv)
  then show ?thesis using run_produce_sent [of parse pe True "st\<lparr>ps_dialog := d\<rparr>" r]
    by (cases "run_produce parse pe True (st\<lparr>ps_dialog := d\<rparr>)") (auto simp: produce_ok_def)
qed (simp_all add: produce_step_def)

interpretation produce: sender "produce_step parse pe cluster" "\<lambda>_. True" "\<lambda>_. True" "produce_ok parse cluster"
  by unfold_locales (simp_all add: produce_step_ok)

lemma trimmed_headers_keys: "k \<in> set (mkeys (trimmed_headers hs)) \<Longrightarrow> k \<noteq> [] \<and> (\<exists>(n, v) \<in> set hs. trim n = k)"
proof -
  have "\<forall>k \<in> set (mkeys (fold (\<lambda>(k, v) m. if trim k = [] then m else mset_key (trim k) v m) hs m)).
      k \<in> set (mkeys m) \<or> (k \<noteq> [] \<and> (\<exists>(n, v) \<in> set hs. trim n = k))" for m
    by (induction hs arbitrary: m) (fastforce split: if_splits)+
  then show "k \<in> set (mkeys (trimmed_headers hs)) \<Longrightarrow> k \<noteq> [] \<and> (\<exists>(n, v) \<in> set hs. trim n = k)"
    by (fastforce simp: trimmed_headers_def mkeys_def)
qed

end
