(* ===== verification/MessageRef.thy ===== *)
theory MessageRef
  imports Numbers MessageCompare MessageList
begin

text \<open>
  Message references (\<open>frontend/src/lib/message-reference.ts\<close>), the message selected for a compare
  (\<open>lib/compare-selection.ts\<close>), and how the compare page loads a side (\<open>features/messages/compare/use-compared-message.ts\<close>).
\<close>

section \<open>References\<close>

record message_ref =
  mr_cluster :: jstr
  mr_topic :: jstr
  mr_partition :: int
  mr_offset :: int

definition topic_re :: "jstr \<Rightarrow> bool" where
  "topic_re s \<longleftrightarrow> s \<noteq> [] \<and>
     list_all (\<lambda>c. is_digit c \<or> (65 \<le> c \<and> c \<le> 90) \<or> (97 \<le> c \<and> c \<le> 122) \<or> c = 46 \<or> c = 95 \<or> c = 45) s"

definition format_message_ref :: "message_ref \<Rightarrow> jstr" where
  "format_message_ref r = mr_cluster r @ js ''/'' @ mr_topic r @ js ''/'' @ dec_int (mr_partition r) @ js ''/'' @ dec_int (mr_offset r)"

definition max_safe_integer :: int where
  "max_safe_integer = 2 ^ 53 - 1"

text \<open>At most 16 digits; beyond the safe range rounding never comes back into it.\<close>

definition parse_index :: "jstr \<Rightarrow> int option" where
  "parse_index s = (if s = [] \<or> 16 < length s \<or> \<not> list_all is_digit s then None
     else if max_safe_integer < int (dec_value s) then None else Some (int (dec_value s)))"

definition parse_message_ref :: "jstr \<Rightarrow> message_ref option" where
  "parse_message_ref s =
     (case rev (split_on 47 (trim s)) of
        n # p # topic # rest \<Rightarrow>
          let cluster = join [47] (rev rest) in
          if rest = [] then None
          else (case (parse_index n, parse_index p) of
              (Some i, Some q) \<Rightarrow>
                if cluster = [] \<or> \<not> topic_re topic \<or> 2147483647 < q then None
                else Some \<lparr>mr_cluster = cluster, mr_topic = topic, mr_partition = q, mr_offset = i\<rparr>
            | _ \<Rightarrow> None)
      | _ \<Rightarrow> None)"

section \<open>The selection\<close>

text \<open>
  The state of \<open>compare-selection.ts\<close>: the session storage, which may refuse to be read or written, and the copy in
  memory. Listeners are only notified.
\<close>

record compare_selection =
  se_readable :: bool
  se_writable :: bool
  se_stored :: "jstr option"
  se_memory :: "jstr option"

definition get_compare_selection :: "compare_selection \<Rightarrow> jstr option" where
  "get_compare_selection s = (if se_readable s then se_stored s else se_memory s)"

definition set_compare_selection :: "message_ref option \<Rightarrow> compare_selection \<Rightarrow> compare_selection" where
  "set_compare_selection r s =
     (let t = map_option format_message_ref r; s1 = s\<lparr>se_memory := t\<rparr> in if se_writable s then s1\<lparr>se_stored := t\<rparr> else s1)"

definition use_compare_selection :: "compare_selection \<Rightarrow> message_ref option" where
  "use_compare_selection s = (case get_compare_selection s of None \<Rightarrow> None | Some t \<Rightarrow> if t = [] then None else parse_message_ref t)"

definition same_message :: "message_ref option \<Rightarrow> message_ref option \<Rightarrow> bool" where
  "same_message a b = (case (a, b) of (Some x, Some y) \<Rightarrow> format_message_ref x = format_message_ref y | _ \<Rightarrow> False)"

section \<open>Reading back\<close>

definition message_ref_ok :: "message_ref \<Rightarrow> bool" where
  "message_ref_ok r \<longleftrightarrow> mr_cluster r \<noteq> [] \<and> \<not> js_space (hd (mr_cluster r)) \<and> topic_re (mr_topic r) \<and>
     0 \<le> mr_partition r \<and> mr_partition r \<le> 2147483647 \<and> 0 \<le> mr_offset r \<and> mr_offset r \<le> max_safe_integer"

lemma no_slash: "is_digit c \<Longrightarrow> c \<noteq> 47" "topic_re s \<Longrightarrow> 47 \<notin> set s"
  by (auto simp: is_digit_def topic_re_def list_all_iff)

lemma dec_length: "n < 10 ^ Suc k \<Longrightarrow> length (dec n) \<le> Suc k"
proof (induction k arbitrary: n)
  case (Suc k)
  show ?case
  proof (cases "n < 10")
    case False
    have "n div 10 < 10 ^ Suc k" using Suc.prems by (simp add: less_mult_imp_div_less)
    then have "length (dec (n div 10)) \<le> Suc k" by (rule Suc.IH)
    then show ?thesis using False by (subst dec.simps) simp
  qed (subst dec.simps, simp)
qed (subst dec.simps, simp)

lemma parse_index_dec:
  assumes "0 \<le> i" "i \<le> max_safe_integer"
  shows "parse_index (dec_int i) = Some i"
proof -
  have "nat i < 10 ^ Suc 15" using assms by (simp add: max_safe_integer_def nat_less_iff)
  then have "length (dec (nat i)) \<le> 16" using dec_length [of "nat i" 15] by simp
  moreover have "list_all is_digit (dec (nat i))" using dec_digits by (auto simp: list_all_iff)
  ultimately show ?thesis using assms by (simp add: parse_index_def dec_int_def)
qed

lemma dec_int_no_slash: "0 \<le> i \<Longrightarrow> 47 \<notin> set (dec_int i)"
  using dec_digits no_slash(1) by (force simp: dec_int_def)

lemma split_format_ref:
  assumes "message_ref_ok r"
  shows "split_on 47 (format_message_ref r) = split_on 47 (mr_cluster r) @ [mr_topic r, dec_int (mr_partition r), dec_int (mr_offset r)]"
proof -
  have n: "47 \<notin> set (mr_topic r)" "47 \<notin> set (dec_int (mr_partition r))" "47 \<notin> set (dec_int (mr_offset r))"
    using assms no_slash(2) dec_int_no_slash by (auto simp: message_ref_ok_def)
  have s: "js ''/'' = [47]" by (simp add: js_def)
  show ?thesis
    unfolding format_message_ref_def s
    by (subst split_on_append_gen) (simp add: split_on_append [OF n(1)] split_on_append [OF n(2)] split_on_none [OF n(3)])
qed

lemma trim_format_ref:
  assumes "message_ref_ok r"
  shows "trim (format_message_ref r) = format_message_ref r"
proof (rule trim_id)
  have c: "mr_cluster r \<noteq> []" "\<not> js_space (hd (mr_cluster r))" "0 \<le> mr_offset r" using assms by (auto simp: message_ref_ok_def)
  show "format_message_ref r \<noteq> []" using c by (simp add: format_message_ref_def)
  show "\<not> js_space (hd (format_message_ref r))" using c by (simp add: format_message_ref_def)
  have "is_digit (last (dec (nat (mr_offset r))))" by (rule dec_digits [of _ "nat (mr_offset r)"]) simp
  then have "\<not> js_space (last (dec_int (mr_offset r)))" using c(3) is_digit_not_space by (simp add: dec_int_def)
  moreover have "dec_int (mr_offset r) \<noteq> []" by (simp add: dec_int_def)
  ultimately show "\<not> js_space (last (format_message_ref r))" by (simp add: format_message_ref_def)
qed

lemma parse_format_ref:
  assumes "message_ref_ok r"
  shows "parse_message_ref (format_message_ref r) = Some r"
proof -
  have o: "0 \<le> mr_partition r" "mr_partition r \<le> 2147483647" "0 \<le> mr_offset r" "mr_offset r \<le> max_safe_integer"
    "mr_cluster r \<noteq> []" "topic_re (mr_topic r)" using assms by (auto simp: message_ref_ok_def)
  then have "parse_index (dec_int (mr_partition r)) = Some (mr_partition r)" "parse_index (dec_int (mr_offset r)) = Some (mr_offset r)"
    by (auto intro!: parse_index_dec simp: max_safe_integer_def)
  with o show ?thesis
    by (simp add: parse_message_ref_def trim_format_ref [OF assms] split_format_ref [OF assms] Let_def)
qed

lemma parsed_index: "parse_index s = Some i \<Longrightarrow> 0 \<le> i \<and> i \<le> max_safe_integer"
  by (auto simp: parse_index_def split: if_splits)

lemma hd_trim: "trim s \<noteq> [] \<Longrightarrow> \<not> js_space (hd (trim s))"
proof -
  assume n: "trim s \<noteq> []"
  then have "trim_start s \<noteq> []" by (auto simp: trim_def trim_end_def)
  then have "\<not> js_space (hd (trim_start s))" by (simp add: trim_start_def hd_dropWhile)
  moreover have "hd (trim s) = hd (trim_start s)"
  proof -
    have "trim_start s = trim s @ rev (takeWhile js_space (rev (trim_start s)))"
      by (metis rev_append rev_rev_ident takeWhile_dropWhile_id trim_def trim_end_def)
    then show ?thesis using n by (metis hd_append2)
  qed
  ultimately show ?thesis by simp
qed

lemma join_append: "xs \<noteq> [] \<Longrightarrow> ys \<noteq> [] \<Longrightarrow> join sep (xs @ ys) = join sep xs @ sep @ join sep ys"
proof (induction xs)
  case (Cons x xs)
  then show ?case by (cases "xs = []") (simp_all add: join_Cons)
qed simp

lemma parsed_ref_ok:
  assumes "parse_message_ref s = Some r"
  shows "message_ref_ok r"
proof -
  obtain n p topic rest where sp: "rev (split_on 47 (trim s)) = n # p # topic # rest"
    using assms by (auto simp: parse_message_ref_def split: list.splits)
  then have k: "rest \<noteq> []" "topic_re topic" "mr_topic r = topic" "mr_cluster r = join [47] (rev rest)" "join [47] (rev rest) \<noteq> []"
    "parse_index n = Some (mr_offset r)" "parse_index p = Some (mr_partition r)" "mr_partition r \<le> 2147483647"
    using assms by (auto simp: parse_message_ref_def Let_def split: if_splits option.splits)
  have "split_on 47 (trim s) = rev rest @ [topic, p, n]" using arg_cong [OF sp, of rev] by simp
  then have t: "trim s = join [47] (rev rest) @ [47] @ join [47] [topic, p, n]"
    using join_split [of 47 "trim s"] join_append [of "rev rest" "[topic, p, n]" "[47]"] k(1) by simp
  then have "\<not> js_space (hd (mr_cluster r))" using hd_trim [of s] k(4,5) by simp
  then show ?thesis using k parsed_index by (auto simp: message_ref_ok_def)
qed

text \<open>
  C21: References are read back. What "Copy reference" writes for a record is parsed to the same record, whatever
  characters the cluster's name has (slashes included) as long as it does not start with white space; and
  whatever text is accepted, the reference it yields is of that kind, so writing and reading it again changes
  nothing, and two accepted references are the same text exactly when they name the same record.
\<close>

theorem message_ref_roundtrip:
  "(message_ref_ok r \<longrightarrow> parse_message_ref (format_message_ref r) = Some r) \<and>
   (parse_message_ref s = Some r \<longrightarrow> message_ref_ok r \<and> parse_message_ref (format_message_ref r) = Some r) \<and>
   (message_ref_ok r \<and> message_ref_ok q \<longrightarrow> same_message (Some r) (Some q) = (r = q))"
proof -
  have "r = q" if "message_ref_ok r" "message_ref_ok q" "format_message_ref r = format_message_ref q"
    using that by (metis option.inject parse_format_ref)
  note inj = this
  show ?thesis
  proof (intro conjI impI)
    assume "parse_message_ref s = Some r"
    from parsed_ref_ok [OF this] show "message_ref_ok r" .
    then show "parse_message_ref (format_message_ref r) = Some r" by (rule parse_format_ref)
  next
    assume "message_ref_ok r \<and> message_ref_ok q"
    then show "same_message (Some r) (Some q) = (r = q)" using inj by (auto simp: same_message_def)
  qed (rule parse_format_ref)
qed

definition sample_ref :: message_ref where
  "sample_ref = \<lparr>mr_cluster = js ''eu/prod'', mr_topic = js ''orders.v1'', mr_partition = 3, mr_offset = 42\<rparr>"

lemma message_ref_roundtrip_witness: "parse_message_ref (format_message_ref sample_ref) = Some sample_ref"
proof -
  have "message_ref_ok sample_ref"
    by (simp add: message_ref_ok_def sample_ref_def topic_re_def js_space_def is_digit_def max_safe_integer_def js_def)
  with message_ref_roundtrip [of sample_ref "[]" sample_ref] show ?thesis by blast
qed

text \<open>A selection is read back from the tab, also when its storage is blocked altogether.\<close>

lemma selection_kept:
  assumes "message_ref_ok r" "se_readable s = se_writable s"
  shows "use_compare_selection (set_compare_selection (Some r) s) = Some r" "use_compare_selection (set_compare_selection None s) = None"
proof -
  have "format_message_ref r \<noteq> []" using assms(1) by (simp add: format_message_ref_def message_ref_ok_def)
  then show "use_compare_selection (set_compare_selection (Some r) s) = Some r"
    using parse_format_ref [OF assms(1)] assms(2)
    by (simp add: use_compare_selection_def get_compare_selection_def set_compare_selection_def Let_def)
  show "use_compare_selection (set_compare_selection None s) = None" using assms(2)
    by (simp add: use_compare_selection_def get_compare_selection_def set_compare_selection_def Let_def)
qed

text \<open>
  A storage that can be read but not written any more (its quota is used up) keeps the old selection: the new one is
  only in memory, which is not read.
\<close>

lemma selection_lost_without_quota:
  assumes "se_readable s" "\<not> se_writable s"
  shows "get_compare_selection (set_compare_selection r s) = se_stored s"
  using assms by (simp add: get_compare_selection_def set_compare_selection_def Let_def)

section \<open>Loading a side of the comparison\<close>

text \<open>What the two queries report: \<open>single\<close> the record (or the next offset), \<open>raw\<close> the full value.\<close>

datatype 'a query_result = Query_Pending | Query_Error jstr | Query_Data 'a

datatype compared_message =
    Cm_Loading
  | Cm_Error jstr
  | Cm_Missing "int option"
  | Cm_Ready message "js_error + message_content" "jstr option"

definition preview_reason_for :: "message \<Rightarrow> jstr option" where
  "preview_reason_for m =
     (if value_truncated m \<noteq> Some True then None
      else if isTrue (masked m) then Some (js ''Masked values cannot be loaded in full.'')
      else if max_compare_value_bytes < opt_or (value_size_bytes m) 0 then
        Some (js ''The value is larger than '' @ dec_int (max_compare_value_bytes div 1024 div 1024) @ js '' MB, the most the compare page loads.'')
      else None)"

definition compared_message_of :: "(message option \<times> int option) query_result \<Rightarrow> jstr query_result \<Rightarrow> compared_message" where
  "compared_message_of single raw =
     (case single of
        Query_Error e \<Rightarrow> Cm_Error e
      | Query_Pending \<Rightarrow> Cm_Loading
      | Query_Data (None, next) \<Rightarrow> Cm_Missing next
      | Query_Data (Some m, _) \<Rightarrow>
          if \<not> needs_full_value m then Cm_Ready m (message_content_of m None) (preview_reason_for m)
          else (case raw of
              Query_Error e \<Rightarrow> Cm_Ready m (message_content_of m None) (Some (js ''The full value could not be loaded ('' @ e @ js '').''))
            | Query_Pending \<Rightarrow> Cm_Loading
            | Query_Data v \<Rightarrow> Cm_Ready m (message_content_of m (Some v)) (preview_reason_for m)))"

text \<open>A side that is compared by a preview says so: without a reason the value is complete.\<close>

lemma compared_without_reason:
  assumes "compared_message_of single raw = Cm_Ready m c None"
  shows "value_truncated m \<noteq> Some True \<or> (\<exists>v. raw = Query_Data v \<and> c = message_content_of m (Some v))"
  using assms
  by (auto simp: compared_message_of_def preview_reason_for_def needs_full_value_def
      split: query_result.splits option.splits if_splits prod.splits)

end
