(* ===== verification/Format.thy ===== *)
theory Format
  imports Json Message Complex_Main
begin

text \<open>
  The formatting helpers (\<open>frontend/src/lib/format.ts\<close>). \<open>Intl\<close> is a record of parameters: the grouped, compact,
  fixed-digits and relative formatters of a locale. A number is a rational; \<open>None\<close> stands for \<open>null\<close>,
  \<open>undefined\<close> and a number that is not finite. Rounding to a double is not modelled. The caches of the formatters hold no other state
  and are left out.
\<close>

datatype time_unit = Unit_Second | Unit_Minute | Unit_Hour | Unit_Day | Unit_Week | Unit_Month | Unit_Year

record intl =
  in_grouped :: "jstr \<Rightarrow> rat \<Rightarrow> jstr"
  in_compact :: "jstr \<Rightarrow> rat \<Rightarrow> jstr"
  in_fixed :: "jstr \<Rightarrow> nat \<Rightarrow> rat \<Rightarrow> jstr"
  in_relative :: "int \<Rightarrow> time_unit \<Rightarrow> jstr"

definition dash :: jstr where
  "dash = [0x2014]"

definition default_locale :: jstr where
  "default_locale = js ''en-US''"

definition math_round :: "rat \<Rightarrow> int" where
  "math_round x = \<lfloor>x + 1 / 2\<rfloor>"

definition math_trunc :: "rat \<Rightarrow> int" where
  "math_trunc x = (if 0 \<le> x then \<lfloor>x\<rfloor> else \<lceil>x\<rceil>)"

section \<open>Counts\<close>

definition format_number :: "intl \<Rightarrow> rat option \<Rightarrow> jstr \<Rightarrow> jstr" where
  "format_number i n locale = (case n of None \<Rightarrow> dash | Some x \<Rightarrow> in_grouped i locale x)"

definition format_decimal :: "intl \<Rightarrow> rat option \<Rightarrow> nat \<Rightarrow> jstr \<Rightarrow> jstr" where
  "format_decimal i n digits locale = (case n of None \<Rightarrow> dash | Some x \<Rightarrow> in_fixed i locale digits x)"

definition format_count :: "intl \<Rightarrow> rat option \<Rightarrow> jstr \<Rightarrow> jstr" where
  "format_count i n locale =
     (case n of None \<Rightarrow> dash | Some x \<Rightarrow> if \<bar>x\<bar> < 1000 then in_grouped i locale x else in_compact i locale x)"

definition format_lag :: "intl \<Rightarrow> rat option \<Rightarrow> jstr \<Rightarrow> jstr" where
  "format_lag i n locale = (case n of None \<Rightarrow> dash | Some x \<Rightarrow> in_grouped i locale x)"

datatype lag_variant = Lag_Neutral | Lag_Warning | Lag_Danger

definition lag_variant_of :: "rat option \<Rightarrow> lag_variant" where
  "lag_variant_of n =
     (case n of None \<Rightarrow> Lag_Neutral
      | Some x \<Rightarrow> if x < 1000 then Lag_Neutral else if x < 10000 then Lag_Warning else Lag_Danger)"

section \<open>Bytes\<close>

definition byte_units :: "jstr list" where
  "byte_units = [js ''B'', js ''KiB'', js ''MiB'', js ''GiB'', js ''TiB'', js ''PiB'']"

text \<open>The loop: as long as units are left and the value reaches the next one. The first argument counts the units left.\<close>

fun scale_bytes :: "nat \<Rightarrow> rat \<Rightarrow> nat \<Rightarrow> rat \<times> nat" where
  "scale_bytes (Suc left) v idx = (if 1024 \<le> v then scale_bytes left (v / 1024) (Suc idx) else (v, idx))"
| "scale_bytes 0 v idx = (v, idx)"

definition byte_digits :: "rat \<Rightarrow> nat" where
  "byte_digits v = (if 100 \<le> v then 0 else if 10 \<le> v then 1 else 2)"

definition format_bytes :: "intl \<Rightarrow> rat option \<Rightarrow> jstr \<Rightarrow> jstr" where
  "format_bytes i n locale =
     (case n of
        None \<Rightarrow> dash
      | Some x \<Rightarrow>
          if x < 1024 then in_grouped i locale (of_int (math_trunc x)) @ js '' B''
          else (case scale_bytes (length byte_units - 1) x 0 of
              (v, idx) \<Rightarrow> in_fixed i locale (byte_digits v) v @ js '' '' @ byte_units ! idx))"

section \<open>Timestamps\<close>

text \<open>The calendar of \<open>Date\<close> in UTC: the proleptic Gregorian one, years of 400-year eras counted from March.\<close>

record date_parts =
  dp_year :: int
  dp_month :: int
  dp_day :: int
  dp_hours :: int
  dp_minutes :: int
  dp_seconds :: int
  dp_ms :: int

definition civil_from_days :: "int \<Rightarrow> int \<times> int \<times> int" where
  "civil_from_days days =
     (let z = days + 719468; era = z div 146097; doe = z mod 146097;
          yoe = (doe - doe div 1460 + doe div 36524 - doe div 146096) div 365;
          doy = doe - (365 * yoe + yoe div 4 - yoe div 100);
          mp = (5 * doy + 2) div 153; d = doy - (153 * mp + 2) div 5 + 1; m = (if mp < 10 then mp + 3 else mp - 9)
      in (yoe + era * 400 + (if m \<le> 2 then 1 else 0), m, d))"

definition utc_parts :: "int \<Rightarrow> date_parts" where
  "utc_parts ms =
     (let (y, m, d) = civil_from_days (ms div 86400000); t = ms mod 86400000
      in \<lparr>dp_year = y, dp_month = m, dp_day = d, dp_hours = t div 3600000, dp_minutes = t div 60000 mod 60,
          dp_seconds = t div 1000 mod 60, dp_ms = t mod 1000\<rparr>)"

text \<open>A zone is the value of \<open>getTimezoneOffset\<close> at a time, in minutes, west positive.\<close>

type_synonym zone = "int \<Rightarrow> int"

definition local_parts :: "zone \<Rightarrow> int \<Rightarrow> date_parts" where
  "local_parts z ms = utc_parts (ms - z ms * 60000)"

definition pad :: "int \<Rightarrow> nat \<Rightarrow> jstr" where
  "pad n width = (let s = dec_int n in replicate (width - length s) 48 @ s)"

definition date_time_text :: "date_parts \<Rightarrow> jstr" where
  "date_time_text d = dec_int (dp_year d) @ js ''-'' @ pad (dp_month d) 2 @ js ''-'' @ pad (dp_day d) 2
     @ js ''T'' @ pad (dp_hours d) 2 @ js '':'' @ pad (dp_minutes d) 2 @ js '':'' @ pad (dp_seconds d) 2"

datatype timestamp_zone = Zone_Utc | Zone_Local

definition offset_text :: "int \<Rightarrow> jstr" where
  "offset_text offset_min_total =
     (let a = \<bar>offset_min_total\<bar> in (if 0 \<le> offset_min_total then js ''+'' else js ''-'') @ pad (a div 60) 2 @ js '':'' @ pad (a mod 60) 2)"

text \<open>The time in milliseconds, \<open>None\<close> for no input and for an invalid date.\<close>

definition format_timestamp :: "zone \<Rightarrow> int option \<Rightarrow> timestamp_zone \<Rightarrow> jstr" where
  "format_timestamp z t mode =
     (case t of
        None \<Rightarrow> dash
      | Some ms \<Rightarrow> (case mode of
            Zone_Utc \<Rightarrow> date_time_text (utc_parts ms) @ js ''.'' @ pad (dp_ms (utc_parts ms)) 3 @ js ''Z''
          | Zone_Local \<Rightarrow> date_time_text (local_parts z ms) @ js ''.'' @ pad (dp_ms (local_parts z ms)) 3 @ offset_text (- z ms)))"

section \<open>Relative times and durations\<close>

definition relative_divisions :: "(rat \<times> time_unit) list" where
  "relative_divisions = [(60, Unit_Second), (60, Unit_Minute), (24, Unit_Hour), (7, Unit_Day), (434524 / 100000, Unit_Week), (12, Unit_Month)]"

fun relative_unit :: "rat \<Rightarrow> (rat \<times> time_unit) list \<Rightarrow> rat \<times> time_unit" where
  "relative_unit d [] = (d, Unit_Year)"
| "relative_unit d ((amount, u) # ds) = (if \<bar>d\<bar> < amount then (d, u) else relative_unit (d / amount) ds)"

definition format_relative :: "intl \<Rightarrow> int option \<Rightarrow> int \<Rightarrow> jstr" where
  "format_relative i t now =
     (case t of
        None \<Rightarrow> dash
      | Some ms \<Rightarrow> (case relative_unit (of_int (ms - now) / 1000) relative_divisions of (d, u) \<Rightarrow> in_relative i (math_round d) u))"

definition rounded_or_fixed :: "intl \<Rightarrow> jstr \<Rightarrow> rat \<Rightarrow> jstr" where
  "rounded_or_fixed i locale x = (if 10 \<le> x then in_grouped i locale (of_int (math_round x)) else in_fixed i locale 1 x)"

definition format_duration :: "intl \<Rightarrow> rat option \<Rightarrow> jstr \<Rightarrow> jstr" where
  "format_duration i n locale =
     (case n of
        None \<Rightarrow> dash
      | Some x \<Rightarrow>
          if x < 0 then [0x221E] else if x = 0 then js ''0''
          else (let s = x / 1000; m = s / 60; h = m / 60; d = h / 24; y = d / 365;
                    whole = (\<lambda>v unit. in_grouped i locale (of_int (math_round v)) @ js unit)
                in if s < 1 then whole x '' ms'' else if m < 1 then whole s '' s'' else if h < 1 then whole m '' m''
                   else if d < 1 then rounded_or_fixed i locale h @ js '' h''
                   else if d < 30 then rounded_or_fixed i locale d @ js '' d''
                   else if y < 1 then whole (d / 30) '' mo''
                   else rounded_or_fixed i locale y @ js '' y''))"

definition format_rate :: "intl \<Rightarrow> rat option \<Rightarrow> jstr \<Rightarrow> jstr" where
  "format_rate i n locale =
     (case n of
        None \<Rightarrow> dash
      | Some x \<Rightarrow>
          if x < 0 then dash else if x < 1 / 10 then js ''0/s''
          else if x < 1 then in_fixed i locale 2 x @ js ''/s''
          else if x < 10 then in_fixed i locale 1 x @ js ''/s''
          else if x < 1000 then in_grouped i locale (of_int (math_round x)) @ js ''/s''
          else if x < 1000000 then in_fixed i locale 1 (x / 1000) @ js ''k/s''
          else in_fixed i locale 2 (x / 1000000) @ js ''M/s'')"

section \<open>Values\<close>

definition pretty_value :: "(jstr \<Rightarrow> json option) \<Rightarrow> jstr \<Rightarrow> jstr \<Rightarrow> jstr" where
  "pretty_value parse s encoding =
     (if \<not> is_json_like_encoding encoding then s else case parse s of None \<Rightarrow> s | Some v \<Rightarrow> stringify2 0 v)"

section \<open>What is shown\<close>

text \<open>The byte loop ends in the unit of the value: no smaller one would show less than 1, no larger one is left out.\<close>

lemma scale_bytes_value:
  "scale_bytes left v idx = (w, j) \<Longrightarrow> idx \<le> j \<and> j \<le> idx + left \<and> v = w * 1024 ^ (j - idx) \<and> (j < idx + left \<longrightarrow> w < 1024)
    \<and> (idx < j \<longrightarrow> 1 \<le> w)"
proof (induction left v idx rule: scale_bytes.induct)
  case (1 left v idx)
  show ?case
  proof (cases "1024 \<le> v")
    case True
    then have r: "scale_bytes left (v / 1024) (Suc idx) = (w, j)" using "1.prems" by simp
    note ih = "1.IH" [OF True r]
    have "v = w * 1024 ^ (j - idx)"
    proof -
      have "j - idx = Suc (j - Suc idx)" using ih by linarith
      then show ?thesis using ih by (simp add: field_simps)
    qed
    moreover have "1 \<le> w" using ih r True by (cases "Suc idx = j") auto
    ultimately show ?thesis using ih by auto
  next
    case False
    then show ?thesis using "1.prems" by simp
  qed
qed simp

lemma format_bytes_units:
  assumes "1024 \<le> x"
  shows "\<exists>v j. format_bytes i (Some x) locale = in_fixed i locale (byte_digits v) v @ js '' '' @ byte_units ! j \<and>
    1 \<le> j \<and> j \<le> 5 \<and> x = v * 1024 ^ j \<and> 1 \<le> v \<and> (j < 5 \<longrightarrow> v < 1024)"
proof -
  obtain v j where s: "scale_bytes 5 x 0 = (v, j)" by (cases "scale_bytes 5 x 0")
  note f = scale_bytes_value [OF s]
  have "j \<noteq> 0"
  proof
    assume "j = 0"
    with f have "x < 1024" by simp
    with assms show False by simp
  qed
  moreover have "length byte_units - 1 = 5" by (simp add: byte_units_def)
  then have "format_bytes i (Some x) locale = in_fixed i locale (byte_digits v) v @ js '' '' @ byte_units ! j"
    using assms by (simp only: format_bytes_def option.case s prod.case) simp
  ultimately show ?thesis using f by (intro exI [of _ v] exI [of _ j]) simp
qed

lemma format_duration_zero: "format_duration i (Some 0) locale = js ''0''"
  by (simp add: format_duration_def)

lemma utc_parts_time:
  "dp_hours (utc_parts ms) = ms mod 86400000 div 3600000" "dp_minutes (utc_parts ms) = ms mod 86400000 div 60000 mod 60"
  "dp_seconds (utc_parts ms) = ms mod 86400000 div 1000 mod 60" "dp_ms (utc_parts ms) = ms mod 86400000 mod 1000"
  unfolding utc_parts_def Let_def by (cases "civil_from_days (ms div 86400000)"; simp only: prod.case date_parts.simps)+

lemma hours_range: "0 \<le> t \<Longrightarrow> t < 86400000 \<Longrightarrow> 0 \<le> t div 3600000 \<and> t div 3600000 < (24 :: int)"
  using zdiv_mono1 [of t 86399999 3600000] by (simp add: pos_imp_zdiv_nonneg_iff)

lemma utc_parts_ranges:
  "0 \<le> dp_hours (utc_parts ms) \<and> dp_hours (utc_parts ms) < 24 \<and> 0 \<le> dp_minutes (utc_parts ms) \<and> dp_minutes (utc_parts ms) < 60
    \<and> 0 \<le> dp_seconds (utc_parts ms) \<and> dp_seconds (utc_parts ms) < 60 \<and> 0 \<le> dp_ms (utc_parts ms) \<and> dp_ms (utc_parts ms) < 1000"
  unfolding utc_parts_time using hours_range [of "ms mod 86400000"] by (simp add: pos_mod_bound)

end
