(* ===== verification/AuditSnapshot.thy ===== *)
theory AuditSnapshot
  imports Format Bytes Numbers
begin

text \<open>
  The audit snapshot of a message (\<open>frontend/src/lib/audit-snapshot.ts\<close>, its caller
  \<open>features/messages/AuditSnapshotAction.tsx\<close>): the model that is drawn, the wrapping of its lines, the layout of the
  canvas and the name of the file. The drawing itself is not modelled; \<open>charW\<close> is the measured width of a character.
\<close>

record snapshot_input =
  si_captured_at :: int
  si_zone :: timestamp_zone
  si_user :: "jstr option"
  si_email :: "jstr option"
  si_cluster :: jstr
  si_is_prod :: bool
  si_topic :: jstr
  si_partition :: jstr
  si_offset :: jstr
  si_timestamp_ms :: int
  si_key :: "jstr option"
  si_fingerprint :: "jstr option"
  si_notes :: "jstr list"
  si_value_label :: jstr
  si_value :: jstr

record snapshot_model =
  sm_title :: jstr
  sm_fields :: "(jstr \<times> jstr) list"
  sm_value_label :: jstr
  sm_body :: "jstr list"
  sm_omitted_lines :: nat

definition max_body_lines :: nat where
  "max_body_lines = 1500"

definition wrap_columns :: nat where
  "wrap_columns = 120"

definition label_columns :: nat where
  "label_columns = 14"

section \<open>Wrapping\<close>

text \<open>\<open>text.replace(/\r\n?/g, "\n")\<close>; the flag says that a carriage return has just been replaced.\<close>

fun unify_breaks :: "bool \<Rightarrow> jstr \<Rightarrow> jstr" where
  "unify_breaks cr [] = []"
| "unify_breaks cr (c # s) =
     (if c = 13 then 10 # unify_breaks True s else if c = 10 \<and> cr then unify_breaks False s else c # unify_breaks False s)"

text \<open>\<open>Array.from\<close> of a string: its characters, a surrogate pair as one.\<close>

fun chars_of :: "jstr \<Rightarrow> jstr list" where
  "chars_of [] = []"
| "chars_of [c] = [[c]]"
| "chars_of (c # d # s) = (if hi_sur (unat c) \<and> lo_sur (unat d) then [c, d] # chars_of s else [c] # chars_of (d # s))"

function pieces :: "nat \<Rightarrow> 'a list \<Rightarrow> 'a list list" where
  "pieces n xs = (if xs = [] \<or> n = 0 then [] else take n xs # pieces n (drop n xs))"
  by pat_completeness auto

termination pieces
  by (relation "measure (\<lambda>(n, xs). length xs)") auto

declare pieces.simps [simp del]

definition expand_tabs :: "jstr \<Rightarrow> jstr" where
  "expand_tabs s = concat (map (\<lambda>c. if c = 9 then js ''  '' else [c]) s)"

definition wrap_line :: "nat \<Rightarrow> jstr \<Rightarrow> jstr list" where
  "wrap_line columns line =
     (let chars = chars_of (expand_tabs line) in if chars = [] then [[]] else map concat (pieces columns chars))"

definition wrap_text :: "jstr \<Rightarrow> nat \<Rightarrow> jstr list" where
  "wrap_text s columns = concat (map (wrap_line columns) (split_on 10 (unify_breaks False s)))"

section \<open>The model\<close>

definition nonempty_text :: "jstr option \<Rightarrow> bool" where
  "nonempty_text t \<longleftrightarrow> t \<noteq> None \<and> t \<noteq> Some []"

definition captured_by :: "jstr option \<Rightarrow> jstr option \<Rightarrow> jstr" where
  "captured_by user email =
     (if nonempty_text user \<and> nonempty_text email \<and> user \<noteq> email then the user @ js '' <'' @ the email @ js ''>''
      else if nonempty_text user then the user else if nonempty_text email then the email else dash)"

definition snapshot_model_of :: "zone \<Rightarrow> snapshot_input \<Rightarrow> snapshot_model" where
  "snapshot_model_of z i =
     (let all = wrap_text (si_value i) wrap_columns; body = take max_body_lines all
      in \<lparr>sm_title = js ''kafkito '' @ [0xB7] @ js '' Audit snapshot'',
          sm_fields = [(js ''Captured'', format_timestamp z (Some (si_captured_at i)) (si_zone i)),
            (js ''Captured by'', captured_by (si_user i) (si_email i)),
            (js ''Cluster'', if si_is_prod i then si_cluster i @ js ''  [PROD]'' else si_cluster i),
            (js ''Topic'', si_topic i), (js ''Partition'', si_partition i), (js ''Offset'', si_offset i),
            (js ''Record time'', format_timestamp z (Some (si_timestamp_ms i)) (si_zone i)),
            (js ''Key'', opt_or (si_key i) (js ''(no key)'')), (js ''Fingerprint'', opt_or (si_fingerprint i) dash)]
            @ map (\<lambda>n. (js ''Note'', n)) (si_notes i),
          sm_value_label = si_value_label i, sm_body = body, sm_omitted_lines = length all - length body\<rparr>)"

text \<open>What the action puts into it: the notes, and the value as the row shows it.\<close>

definition snapshot_notes :: "(rat option \<Rightarrow> jstr) \<Rightarrow> message \<Rightarrow> jstr list" where
  "snapshot_notes bytes_text m =
     (if isTrue (masked m) then [js ''Value modified by a data_masking rule.''] else []) @
     (if isTrue (key_masked m) then [js ''Key modified by a data_masking rule.''] else []) @
     (if isTrue (value_truncated m) then [js ''Value is a 64 KB preview; full size '' @
        (if opt_or (value_size_bytes m) 0 \<noteq> 0 then bytes_text (map_option of_int (value_size_bytes m)) else js ''unknown'') @ js ''.''] else [])"

definition snapshot_value :: "(jstr \<Rightarrow> json option) \<Rightarrow> message \<Rightarrow> jstr" where
  "snapshot_value parse m =
     (if value_encoding m = js ''null'' then js ''(null)'' else if value_encoding m = js ''empty'' then js ''(empty)''
      else pretty_value parse (opt_or (m_value m) []) (value_encoding m))"

section \<open>The canvas\<close>

definition line_px :: rat where
  "line_px = 19"

definition pad_px :: rat where
  "pad_px = 28"

definition max_canvas_px :: rat where
  "max_canvas_px = 30000"

definition field_rows :: "snapshot_model \<Rightarrow> nat" where
  "field_rows m = sum_list (map (\<lambda>(_, v). length (wrap_text v (wrap_columns - label_columns))) (sm_fields m))"

definition body_rows :: "snapshot_model \<Rightarrow> nat" where
  "body_rows m = length (sm_body m) + (if 0 < sm_omitted_lines m then 2 else 0)"

definition canvas_width :: "rat \<Rightarrow> int" where
  "canvas_width char_w = \<lceil>pad_px * 2 + char_w * of_nat wrap_columns + 24\<rceil>"

definition canvas_height :: "snapshot_model \<Rightarrow> int" where
  "canvas_height m = \<lceil>pad_px + line_px * (16 / 10) + 16 + of_nat (field_rows m) * line_px + 24 + line_px + 12 + of_nat (body_rows m) * line_px + pad_px\<rceil>"

definition canvas_scale :: "int \<Rightarrow> rat" where
  "canvas_scale height = max (1 / 2) (min 2 (max_canvas_px / of_int height))"

section \<open>The file\<close>

definition file_char :: "cu \<Rightarrow> bool" where
  "file_char c \<longleftrightarrow> is_digit c \<or> (65 \<le> c \<and> c \<le> 90) \<or> (97 \<le> c \<and> c \<le> 122) \<or> c = 46 \<or> c = 95 \<or> c = 45"

text \<open>A run of other characters becomes one underscore; the flag says whether one has just been written.\<close>

fun safe_name :: "bool \<Rightarrow> jstr \<Rightarrow> jstr" where
  "safe_name u [] = []"
| "safe_name u (c # s) = (if file_char c then c # safe_name False s else if u then safe_name True s else 95 # safe_name True s)"

definition snapshot_filename :: "jstr \<Rightarrow> jstr \<Rightarrow> int \<Rightarrow> int \<Rightarrow> date_parts \<Rightarrow> jstr" where
  "snapshot_filename cluster topic p n d =
     js ''kafkito-audit-'' @ safe_name False cluster @ js ''-'' @ safe_name False topic @ js ''-p'' @ dec_int p @ js ''-o'' @ dec_int n @ js ''-''
     @ dec_int (dp_year d) @ pad (dp_month d) 2 @ pad (dp_day d) 2 @ js ''T'' @ pad (dp_hours d) 2 @ pad (dp_minutes d) 2 @ pad (dp_seconds d) 2
     @ js ''.png''"

section \<open>Nothing is lost unseen\<close>

lemma concat_pieces: "0 < n \<Longrightarrow> concat (pieces n xs) = xs"
  by (induction n xs rule: pieces.induct) (subst pieces.simps, simp)

lemma pieces_length: "p \<in> set (pieces n xs) \<Longrightarrow> length p \<le> n \<and> p \<noteq> []"
proof (induction n xs rule: pieces.induct)
  case (1 n xs)
  then show ?case by (subst (asm) (2) pieces.simps) (auto split: if_splits)
qed

lemma concat_chars_of [simp]: "concat (chars_of s) = s"
  by (induction s rule: chars_of.induct) simp_all

lemma concat_map_concat: "concat (map concat xs) = concat (concat xs)"
  by (induction xs) simp_all

text \<open>A wrapped line is the line: no character is lost, and none of its pieces is wider than the columns.\<close>

lemma wrap_line_concat: "0 < columns \<Longrightarrow> concat (wrap_line columns line) = expand_tabs line"
proof -
  assume "0 < columns"
  then have "concat (map concat (pieces columns (chars_of (expand_tabs line)))) = concat (chars_of (expand_tabs line))"
    by (simp add: concat_map_concat concat_pieces del: concat_chars_of)
  moreover have "expand_tabs line = []" if "chars_of (expand_tabs line) = []"
    using concat_chars_of [of "expand_tabs line"] that by simp
  ultimately show ?thesis by (auto simp: wrap_line_def Let_def)
qed

lemma snapshot_complete:
  "length (sm_body (snapshot_model_of z i)) \<le> 1500 \<and>
   length (sm_body (snapshot_model_of z i)) + sm_omitted_lines (snapshot_model_of z i) = length (wrap_text (si_value i) 120)"
  by (auto simp: snapshot_model_of_def Let_def max_body_lines_def wrap_columns_def)

text \<open>The canvas is never drawn larger than the browsers allow as long as half the scale fits.\<close>

lemma canvas_fits: "0 < height \<Longrightarrow> height \<le> 60000 \<Longrightarrow> of_int height * canvas_scale height \<le> max_canvas_px"
proof -
  assume h: "0 < height" "height \<le> 60000"
  have "of_int height * (1 / 2) \<le> (max_canvas_px :: rat)" using h(2) by (simp add: max_canvas_px_def)
  moreover have "of_int height * min 2 (max_canvas_px / of_int height) \<le> max_canvas_px"
    using h(1) mult_left_mono [of "min 2 (max_canvas_px / of_int height)" "max_canvas_px / of_int height" "of_int height"] by simp
  ultimately show ?thesis unfolding canvas_scale_def by (simp add: max_def)
qed

lemma safe_name_chars: "c \<in> set (safe_name u s) \<Longrightarrow> file_char c"
  by (induction u s rule: safe_name.induct) (auto split: if_splits simp: file_char_def)

end
