(* ===== verification/Preferences.thy ===== *)
theory Preferences
  imports Strings Message
begin

text \<open>
  What the browser remembers about the user interface: number format (\<open>frontend/src/lib/use-number-format.ts\<close>), time
  zone (\<open>use-timezone.ts\<close>), theme (\<open>use-theme.ts\<close>), the changelog entry seen last (\<open>whats-new.ts\<close>), one-off hints
  (\<open>once-per-session.ts\<close>) and the tip of the message list (\<open>features/messages/use-json-coachmark.ts\<close>). A hook is
  modelled by what its state is after an event; a storage that throws is a flag.
\<close>

section \<open>Number format\<close>

datatype number_format = Nf_Auto | Nf_De | Nf_En

definition number_format_text :: "number_format \<Rightarrow> jstr" where
  "number_format_text p = (case p of Nf_Auto \<Rightarrow> js ''auto'' | Nf_De \<Rightarrow> js ''de'' | Nf_En \<Rightarrow> js ''en'')"

definition read_number_format :: "jstr option \<Rightarrow> number_format" where
  "read_number_format raw = (if raw = Some (js ''de'') then Nf_De else if raw = Some (js ''en'') then Nf_En else Nf_Auto)"

text \<open>\<open>navigator.language\<close>, \<open>None\<close> when it is missing or reading it throws.\<close>

definition detected_locale :: "jstr option \<Rightarrow> jstr" where
  "detected_locale language = (case language of None \<Rightarrow> js ''en-US'' | Some l \<Rightarrow> if l = [] then js ''en-US'' else l)"

definition resolve_locale :: "jstr option \<Rightarrow> number_format \<Rightarrow> jstr" where
  "resolve_locale language p = (case p of Nf_De \<Rightarrow> js ''de-DE'' | Nf_En \<Rightarrow> js ''en-US'' | Nf_Auto \<Rightarrow> detected_locale language)"

text \<open>One tab: the stored value all tabs share, and the state of its mounted hook.\<close>

record 'a preference_tab =
  pt_stored :: "jstr option"
  pt_state :: 'a

definition set_number_format :: "number_format \<Rightarrow> number_format preference_tab \<Rightarrow> number_format preference_tab" where
  "set_number_format p t = t\<lparr>pt_stored := Some (number_format_text p), pt_state := p\<rparr>"

text \<open>A \<open>storage\<close> event of another tab; \<open>None\<close> is the event of \<open>localStorage.clear\<close>, whose key is \<open>null\<close>.\<close>

definition number_format_storage_event :: "jstr option \<Rightarrow> jstr option \<Rightarrow> number_format preference_tab \<Rightarrow> number_format preference_tab" where
  "number_format_storage_event key new t =
     (let t1 = t\<lparr>pt_stored := new\<rparr> in if key = Some (js ''kafkito.numberFormat'') then t1\<lparr>pt_state := read_number_format new\<rparr> else t1)"

lemma read_number_format_text [simp]: "read_number_format (Some (number_format_text p)) = p"
  by (cases p) (simp_all add: read_number_format_def number_format_text_def js_def)

lemma number_format_in_sync:
  "read_number_format (pt_stored (set_number_format p t)) = pt_state (set_number_format p t)"
  "read_number_format (pt_stored (number_format_storage_event (Some (js ''kafkito.numberFormat'')) new t)) =
     pt_state (number_format_storage_event (Some (js ''kafkito.numberFormat'')) new t)"
  by (simp_all add: set_number_format_def number_format_storage_event_def Let_def)

section \<open>Time zone\<close>

datatype time_zone_mode = Tz_Utc | Tz_Local

definition time_zone_text :: "time_zone_mode \<Rightarrow> jstr" where
  "time_zone_text m = (case m of Tz_Utc \<Rightarrow> js ''utc'' | Tz_Local \<Rightarrow> js ''local'')"

definition read_time_zone :: "jstr option \<Rightarrow> time_zone_mode" where
  "read_time_zone raw = (if raw = Some (js ''utc'') then Tz_Utc else Tz_Local)"

definition set_time_zone :: "time_zone_mode \<Rightarrow> time_zone_mode preference_tab \<Rightarrow> time_zone_mode preference_tab" where
  "set_time_zone m t = t\<lparr>pt_stored := Some (time_zone_text m), pt_state := m\<rparr>"

definition time_zone_storage_event :: "jstr option \<Rightarrow> jstr option \<Rightarrow> time_zone_mode preference_tab \<Rightarrow> time_zone_mode preference_tab" where
  "time_zone_storage_event key new t =
     (let t1 = t\<lparr>pt_stored := new\<rparr> in if key = Some (js ''kafkito.timezone'') then t1\<lparr>pt_state := read_time_zone new\<rparr> else t1)"

definition detected_time_zone :: "jstr option \<Rightarrow> jstr" where
  "detected_time_zone z = (case z of None \<Rightarrow> js ''UTC'' | Some s \<Rightarrow> if s = [] then js ''UTC'' else s)"

lemma read_time_zone_text [simp]: "read_time_zone (Some (time_zone_text m)) = m"
  by (cases m) (simp_all add: read_time_zone_def time_zone_text_def js_def)

section \<open>Theme\<close>

datatype theme = Light | Dark

datatype theme_preference = Prefer theme | Prefer_System

definition theme_text :: "theme_preference \<Rightarrow> jstr" where
  "theme_text p = (case p of Prefer Light \<Rightarrow> js ''light'' | Prefer Dark \<Rightarrow> js ''dark'' | Prefer_System \<Rightarrow> js ''system'')"

definition read_theme :: "jstr option \<Rightarrow> theme_preference" where
  "read_theme raw = (if raw = Some (js ''light'') then Prefer Light else if raw = Some (js ''dark'') then Prefer Dark else Prefer_System)"

definition resolve_theme :: "theme \<Rightarrow> theme_preference \<Rightarrow> theme" where
  "resolve_theme system p = (case p of Prefer t \<Rightarrow> t | Prefer_System \<Rightarrow> system)"

text \<open>The state of \<open>useTheme\<close> with what it does to the page; \<open>th_system\<close> is the theme of the system.\<close>

record theme_state =
  th_system :: theme
  th_preference :: theme_preference
  th_resolved :: theme
  th_applied :: theme
  th_stored :: "jstr option"

definition theme_mounted :: "theme \<Rightarrow> jstr option \<Rightarrow> theme_state" where
  "theme_mounted system stored =
     (let p = read_theme stored; r = resolve_theme system p in
      \<lparr>th_system = system, th_preference = p, th_resolved = r, th_applied = r, th_stored = Some (theme_text p)\<rparr>)"

definition set_theme :: "theme_preference \<Rightarrow> theme_state \<Rightarrow> theme_state" where
  "set_theme p st = (let r = resolve_theme (th_system st) p in
     st\<lparr>th_preference := p, th_resolved := r, th_applied := r, th_stored := Some (theme_text p)\<rparr>)"

definition toggle_theme :: "theme_state \<Rightarrow> theme_state" where
  "toggle_theme st = set_theme (Prefer (if resolve_theme (th_system st) (th_preference st) = Dark then Light else Dark)) st"

definition system_theme_changed :: "theme \<Rightarrow> theme_state \<Rightarrow> theme_state" where
  "system_theme_changed t st =
     (let st1 = st\<lparr>th_system := t\<rparr> in if th_preference st = Prefer_System then st1\<lparr>th_resolved := t, th_applied := t\<rparr> else st1)"

definition theme_inv :: "theme_state \<Rightarrow> bool" where
  "theme_inv st \<longleftrightarrow> th_resolved st = resolve_theme (th_system st) (th_preference st) \<and> th_applied st = th_resolved st \<and>
     read_theme (th_stored st) = th_preference st"

lemma read_theme_text [simp]: "read_theme (Some (theme_text p)) = p"
  by (cases p; cases "case p of Prefer t \<Rightarrow> t | _ \<Rightarrow> Light") (auto simp: read_theme_def theme_text_def js_def split: theme.split)

text \<open>The page always shows the theme of the preference, and a reload restores it.\<close>

lemma theme_kept:
  "theme_inv (theme_mounted system stored)" "theme_inv st \<Longrightarrow> theme_inv (set_theme p st)"
  "theme_inv st \<Longrightarrow> theme_inv (toggle_theme st)" "theme_inv st \<Longrightarrow> theme_inv (system_theme_changed t st)"
  by (auto simp: theme_inv_def theme_mounted_def set_theme_def toggle_theme_def system_theme_changed_def resolve_theme_def Let_def
      split: theme_preference.splits)

lemma toggle_changes: "theme_inv st \<Longrightarrow> th_applied (toggle_theme st) \<noteq> th_applied st"
  by (cases "resolve_theme (th_system st) (th_preference st)")
    (auto simp: theme_inv_def toggle_theme_def set_theme_def resolve_theme_def Let_def split: theme_preference.splits)

section \<open>What is new\<close>

definition lower_letter :: "cu \<Rightarrow> cu" where
  "lower_letter c = (if 65 \<le> c \<and> c \<le> 90 then c + 32 else c)"

definition drop_suffix_ignoring_case :: "jstr \<Rightarrow> jstr \<Rightarrow> jstr option" where
  "drop_suffix_ignoring_case suffix s =
     (let n = length s - length suffix in
      if length suffix \<le> length s \<and> map lower_letter (drop n s) = suffix then Some (take n s) else None)"

definition normalize_version :: "jstr \<Rightarrow> jstr" where
  "normalize_version v =
     (let s = (if v \<noteq> [] \<and> hd v = 118 then tl v else v) in
      case drop_suffix_ignoring_case (js ''-btp'') s of Some t \<Rightarrow> t
      | None \<Rightarrow> (case drop_suffix_ignoring_case (js ''-local'') s of Some t \<Rightarrow> t
        | None \<Rightarrow> (case drop_suffix_ignoring_case (js ''-dev'') s of Some t \<Rightarrow> t | None \<Rightarrow> s)))"

definition has_unseen :: "jstr option \<Rightarrow> jstr option \<Rightarrow> bool" where
  "has_unseen current last_seen \<longleftrightarrow> current \<noteq> None \<and> current \<noteq> Some [] \<and> current \<noteq> last_seen"

text \<open>The storage of one key: what it holds, and whether it can be read and written.\<close>

record stored_key =
  sk_value :: "jstr option"
  sk_readable :: bool
  sk_writable :: bool

definition get_last_seen :: "stored_key \<Rightarrow> jstr option" where
  "get_last_seen k = (if sk_readable k then sk_value k else None)"

definition mark_seen :: "jstr \<Rightarrow> stored_key \<Rightarrow> stored_key" where
  "mark_seen v k = (if sk_writable k then k\<lparr>sk_value := Some v\<rparr> else k)"

lemma seen_once: "sk_readable k \<Longrightarrow> sk_writable k \<Longrightarrow> \<not> has_unseen (Some v) (get_last_seen (mark_seen v k))"
  by (simp add: has_unseen_def get_last_seen_def mark_seen_def)

lemma normalize_version_examples:
  "normalize_version (js ''v0.0.0-rc17-btp'') = js ''0.0.0-rc17''" "normalize_version (js ''0.0.0-rc17'') = js ''0.0.0-rc17''"
  by (simp_all add: normalize_version_def drop_suffix_ignoring_case_def lower_letter_def js_def Let_def)

section \<open>Once per session\<close>

text \<open>The claims in memory and in the tab's session storage, which may throw on either access.\<close>

record once_state =
  os_claimed :: "jstr list"
  os_stored :: "jstr list"
  os_readable :: bool
  os_writable :: bool

definition claim_once :: "jstr \<Rightarrow> once_state \<Rightarrow> bool \<times> once_state" where
  "claim_once key s =
     (if key \<in> set (os_claimed s) then (False, s)
      else let s1 = s\<lparr>os_claimed := key # os_claimed s\<rparr> in
        if \<not> os_readable s then (True, s1)
        else if key \<in> set (os_stored s) then (False, s1)
        else (True, if os_writable s then s1\<lparr>os_stored := key # os_stored s\<rparr> else s1))"

definition reload_tab :: "once_state \<Rightarrow> once_state" where
  "reload_tab s = s\<lparr>os_claimed := []\<rparr>"

lemma claim_again: "\<not> fst (claim_once key (snd (claim_once key s)))"
  by (auto simp: claim_once_def Let_def)

lemma claim_survives_reload:
  "os_readable s \<Longrightarrow> os_writable s \<Longrightarrow> fst (claim_once key s) \<Longrightarrow> \<not> fst (claim_once key (reload_tab (snd (claim_once key s))))"
  by (auto simp: claim_once_def reload_tab_def Let_def split: if_splits)

lemma claims_independent:
  "k' \<noteq> k \<Longrightarrow> fst (claim_once k' (snd (claim_once k s))) = fst (claim_once k' s)"
  by (simp add: claim_once_def Let_def)

section \<open>The tip of the message list\<close>

definition coachmark_initial :: "stored_key \<Rightarrow> bool" where
  "coachmark_initial k \<longleftrightarrow> sk_readable k \<and> sk_value k \<noteq> Some (js ''1'')"

definition dismiss_coachmark :: "bool \<times> stored_key \<Rightarrow> bool \<times> stored_key" where
  "dismiss_coachmark st = (False, if sk_writable (snd st) then (snd st)\<lparr>sk_value := Some (js ''1'')\<rparr> else snd st)"

definition first_json_index :: "message list \<Rightarrow> nat option" where
  "first_json_index ms = (let n = length (takeWhile (\<lambda>m. \<not> (value_encoding m = js ''json'' \<and> \<not> isTrue (value_truncated m))) ms)
     in if n < length ms then Some n else None)"

definition coachmark_visible :: "bool \<Rightarrow> message list \<Rightarrow> bool" where
  "coachmark_visible show ms \<longleftrightarrow> show \<and> first_json_index ms \<noteq> None"

lemma dismissed_stays: "sk_writable k \<Longrightarrow> \<not> coachmark_initial (snd (dismiss_coachmark (b, k)))"
  by (simp add: coachmark_initial_def dismiss_coachmark_def)

lemma first_json_index_shows:
  "first_json_index ms = Some n \<Longrightarrow> n < length ms \<and> value_encoding (ms ! n) = js ''json'' \<and> \<not> isTrue (value_truncated (ms ! n))"
  unfolding first_json_index_def Let_def by (auto split: if_splits dest: nth_length_takeWhile)

end
