(* ===== verification/Consumers.thy ===== *)
theory Consumers
  imports ResetOffsets
begin

text \<open>
  Which groups consume a topic (\<open>frontend/src/lib/aggregate-consumers.ts\<close>): the lag of each group per topic, collected in
  an insertion-ordered map of topics. \<open>le\<close> stands for \<open>a.localeCompare(b) <= 0\<close>.
\<close>

record topic_consumer =
  tc_group :: jstr
  tc_state :: jstr
  tc_members :: nat
  tc_lag :: int

type_synonym consumers_map = "(jstr, topic_consumer list) jsmap"

fun per_topic :: "group_offset list \<Rightarrow> (jstr, int) jsmap \<Rightarrow> (jstr, int) jsmap" where
  "per_topic [] m = m"
| "per_topic (g # gs) m = per_topic gs (mset_key (go_topic g) (opt_or (mget m (go_topic g)) 0 + opt_or (go_lag g) 0) m)"

definition consumer_of :: "group_detail \<Rightarrow> int \<Rightarrow> topic_consumer" where
  "consumer_of g lag = \<lparr>tc_group = gd_group_id g, tc_state = gd_state g, tc_members = length (opt_or (gd_members g) []), tc_lag = lag\<rparr>"

fun push_consumers :: "group_detail \<Rightarrow> (jstr \<times> int) list \<Rightarrow> consumers_map \<Rightarrow> consumers_map" where
  "push_consumers g [] m = m"
| "push_consumers g ((t, lag) # ts) m = push_consumers g ts (mset_key t (opt_or (mget m t) [] @ [consumer_of g lag]) m)"

fun collect_consumers :: "group_detail list \<Rightarrow> consumers_map \<Rightarrow> consumers_map" where
  "collect_consumers [] m = m"
| "collect_consumers (g # gs) m = collect_consumers gs (push_consumers g (per_topic (gd_offsets g) []) m)"

definition consumer_le :: "(jstr \<Rightarrow> jstr \<Rightarrow> bool) \<Rightarrow> topic_consumer \<Rightarrow> topic_consumer \<Rightarrow> bool" where
  "consumer_le le a b \<longleftrightarrow> (if tc_lag a \<noteq> tc_lag b then tc_lag b < tc_lag a else le (tc_group a) (tc_group b))"

definition aggregate_consumers :: "(jstr \<Rightarrow> jstr \<Rightarrow> bool) \<Rightarrow> group_detail list \<Rightarrow> consumers_map" where
  "aggregate_consumers le gs = map (\<lambda>(t, cs). (t, sort_by (consumer_le le) cs)) (collect_consumers gs [])"

definition aggregate_consumers_from_info :: "'a list \<Rightarrow> consumers_map" where
  "aggregate_consumers_from_info _ = []"

section \<open>What the map says\<close>

definition topic_lag :: "jstr \<Rightarrow> group_offset list \<Rightarrow> int" where
  "topic_lag t gs = sum_list (map (\<lambda>g. opt_or (go_lag g) 0) (filter (\<lambda>g. go_topic g = t) gs))"

definition consumes :: "group_detail \<Rightarrow> jstr \<Rightarrow> bool" where
  "consumes g t \<longleftrightarrow> list_ex (\<lambda>o1. go_topic o1 = t) (gd_offsets g)"

lemma per_topic_distinct: "distinct (mkeys m) \<Longrightarrow> distinct (mkeys (per_topic gs m))"
  by (induction gs m rule: per_topic.induct) simp_all

lemma mget_per_topic:
  "mget (per_topic gs m) t =
     (if list_ex (\<lambda>g. go_topic g = t) gs then Some (opt_or (mget m t) 0 + topic_lag t gs) else mget m t)"
proof (induction gs m rule: per_topic.induct)
  case (2 g gs m)
  then show ?case
    by (cases "go_topic g = t") (auto simp: topic_lag_def mget_mset list_ex_iff)
qed simp

lemma mget_push_consumers:
  "distinct (map fst ts) \<Longrightarrow> mget (push_consumers g ts m) t =
     (case map_of ts t of None \<Rightarrow> mget m t | Some lag \<Rightarrow> Some (opt_or (mget m t) [] @ [consumer_of g lag]))"
proof (induction g ts m rule: push_consumers.induct)
  case (2 g t' lag ts m)
  have "map_of ts t' = None" using 2(2) by (simp add: map_of_eq_None_iff)
  with 2 show ?case by (auto simp: mget_mset split: option.split)
qed simp

lemma mget_push_group:
  "mget (push_consumers g (per_topic (gd_offsets g) []) m) t =
     (if consumes g t then Some (opt_or (mget m t) [] @ [consumer_of g (topic_lag t (gd_offsets g))]) else mget m t)"
proof -
  have "distinct (mkeys (per_topic (gd_offsets g) []))" by (rule per_topic_distinct) (simp add: mkeys_def)
  then have "distinct (map fst (per_topic (gd_offsets g) []))" by (simp add: mkeys_def)
  moreover have "map_of (per_topic (gd_offsets g) []) t = mget (per_topic (gd_offsets g) []) t" by (simp add: mget_def)
  ultimately show ?thesis by (simp add: mget_push_consumers mget_per_topic consumes_def mget_Nil)
qed

lemma collect_consumers_get:
  "opt_or (mget (collect_consumers gs m) t) [] =
     opt_or (mget m t) [] @ map (\<lambda>g. consumer_of g (topic_lag t (gd_offsets g))) (filter (\<lambda>g. consumes g t) gs)"
  by (induction gs m rule: collect_consumers.induct) (simp_all add: mget_push_group)

text \<open>The groups of a topic are exactly those with an offset in it, each with the sum of its lags there.\<close>

lemma aggregate_consumers_get:
  "mset (opt_or (mget (aggregate_consumers le gs) t) []) =
     mset (map (\<lambda>g. consumer_of g (topic_lag t (gd_offsets g))) (filter (\<lambda>g. consumes g t) gs))"
proof -
  have "opt_or (mget (aggregate_consumers le gs) t) [] = sort_by (consumer_le le) (opt_or (mget (collect_consumers gs []) t) [])"
    by (cases "mget (collect_consumers gs []) t") (simp_all add: aggregate_consumers_def mget_def map_of_map)
  then show ?thesis using collect_consumers_get [of gs "[]" t] by (simp add: mget_Nil)
qed

end
