(* ===== verification/DataTable.thy ===== *)
theory DataTable
  imports Numbers Message
begin

text \<open>
  The sorting of the data table (\<open>frontend/src/components/ui/DataTable.tsx\<close>): clicks on a header, and the order of the
  rows. A cell's sort value is a string, a number, \<open>Infinity\<close>, or missing (\<open>null\<close> and \<open>undefined\<close>
  alike); \<open>NaN\<close> is left out. The rows themselves are any type.
\<close>

datatype sort_value = Sv_Text jstr | Sv_Number rat | Sv_Infinity

record 'row column =
  co_id :: jstr
  co_sort_value :: "('row \<Rightarrow> sort_value option) option"
  co_primary :: bool

datatype table_dir = Dir_Asc | Dir_Desc

record table_sort =
  ts_key :: jstr
  ts_dir :: table_dir

text \<open>\<open><\<close> of two values of the same type; a number against a text compares as numbers, a text that is none is never less.\<close>

definition value_less :: "sort_value \<Rightarrow> sort_value \<Rightarrow> bool" where
  "value_less a b =
     (case (a, b) of
        (Sv_Text s, Sv_Text t) \<Rightarrow> s < t
      | (Sv_Number x, Sv_Number y) \<Rightarrow> x < y
      | (Sv_Text s, Sv_Number y) \<Rightarrow> (case js_number s of None \<Rightarrow> False | Some x \<Rightarrow> x < y)
      | (Sv_Number x, Sv_Text t) \<Rightarrow> (case js_number t of None \<Rightarrow> False | Some y \<Rightarrow> x < y)
      | (Sv_Number x, Sv_Infinity) \<Rightarrow> True
      | (Sv_Text s, Sv_Infinity) \<Rightarrow> js_number s \<noteq> None
      | (Sv_Infinity, _) \<Rightarrow> False)"

text \<open>The sign of the comparison is at most zero. A missing value goes last in either direction.\<close>

definition cell_le :: "table_dir \<Rightarrow> sort_value option \<Rightarrow> sort_value option \<Rightarrow> bool" where
  "cell_le dir va vb =
     (if va = vb then True
      else case va of None \<Rightarrow> False
        | Some a \<Rightarrow> (case vb of None \<Rightarrow> True | Some b \<Rightarrow> if dir = Dir_Asc then value_less a b else \<not> value_less a b))"

definition sorted_rows :: "'row column list \<Rightarrow> table_sort option \<Rightarrow> 'row list option \<Rightarrow> 'row list" where
  "sorted_rows columns s rows =
     (case rows of
        None \<Rightarrow> []
      | Some rs \<Rightarrow> (case s of
            None \<Rightarrow> rs
          | Some k \<Rightarrow> if ts_key k = [] then rs
              else (case find (\<lambda>c. co_id c = ts_key k) columns of
                  None \<Rightarrow> rs
                | Some col \<Rightarrow> (case co_sort_value col of
                      None \<Rightarrow> rs
                    | Some f \<Rightarrow> sort_by (\<lambda>a b. cell_le (ts_dir k) (f a) (f b)) rs))))"

definition toggle_sort :: "'row column \<Rightarrow> table_sort option \<Rightarrow> table_sort option" where
  "toggle_sort col s =
     (if co_sort_value col = None then s
      else case s of
          None \<Rightarrow> Some \<lparr>ts_key = co_id col, ts_dir = Dir_Asc\<rparr>
        | Some k \<Rightarrow> if ts_key k \<noteq> co_id col then Some \<lparr>ts_key = co_id col, ts_dir = Dir_Asc\<rparr>
            else if ts_dir k = Dir_Asc then Some \<lparr>ts_key = co_id col, ts_dir = Dir_Desc\<rparr> else None)"

section \<open>What is shown\<close>

text \<open>The column whose cell is the button of a row with an action: the marked one, else the first.\<close>

definition primary_id :: "bool \<Rightarrow> 'row column list \<Rightarrow> jstr option" where
  "primary_id clickable columns =
     (if \<not> clickable then None
      else case find co_primary columns of Some c \<Rightarrow> Some (co_id c)
        | None \<Rightarrow> (case columns of [] \<Rightarrow> None | c # _ \<Rightarrow> Some (co_id c)))"

datatype aria_sort = Aria_Ascending | Aria_Descending | Aria_None

definition aria_sort_of :: "'row column \<Rightarrow> table_sort option \<Rightarrow> aria_sort option" where
  "aria_sort_of col s =
     (if co_sort_value col = None then None
      else case s of
          None \<Rightarrow> Some Aria_None
        | Some k \<Rightarrow> Some (if ts_key k \<noteq> co_id col then Aria_None else if ts_dir k = Dir_Asc then Aria_Ascending else Aria_Descending))"

datatype 'row table_body = Body_Skeleton | Body_Empty | Body_Rows "'row list"

definition table_body_of :: "bool \<Rightarrow> 'row column list \<Rightarrow> table_sort option \<Rightarrow> 'row list option \<Rightarrow> 'row table_body" where
  "table_body_of loading columns s rows =
     (if loading then Body_Skeleton else if rows = Some [] then Body_Empty else Body_Rows (sorted_rows columns s rows))"

text \<open>
  A click on a row reaches its primary control unless it hit a control of its own: \<open>path\<close> is, from the clicked
  element up to the row, which elements are controls.
\<close>

definition forwards_click :: "bool list \<Rightarrow> bool" where
  "forwards_click path = (\<not> list_ex (\<lambda>c. c) path)"

text \<open>The shown direction is the one the rows have, and a click cycles through the three.\<close>

lemma aria_cycle:
  assumes "co_sort_value col \<noteq> None" "ts_key k \<noteq> co_id col"
  shows "map (aria_sort_of col) [Some k, toggle_sort col (Some k), toggle_sort col (toggle_sort col (Some k))] =
    [Some Aria_None, Some Aria_Ascending, Some Aria_Descending]"
  using assms by (simp add: aria_sort_of_def toggle_sort_def)

section \<open>Order and cycle\<close>

text \<open>Sorting never adds or loses a row.\<close>

lemma sorted_rows_perm: "mset (sorted_rows columns s (Some rs)) = mset rs"
  by (simp add: sorted_rows_def split: option.split)

definition same_kind :: "sort_value option \<Rightarrow> sort_value option \<Rightarrow> bool" where
  "same_kind a b = (case (a, b) of (Some (Sv_Text _), Some (Sv_Number _)) \<Rightarrow> False | (Some (Sv_Number _), Some (Sv_Text _)) \<Rightarrow> False | _ \<Rightarrow> True)"

text \<open>Over the values of one column, which have one type, the comparison is the contract \<open>Array.sort\<close> asks for.\<close>

definition text_cell :: "table_dir \<Rightarrow> jstr option \<Rightarrow> jstr option \<Rightarrow> bool" where
  "text_cell dir a b = cell_le dir (map_option Sv_Text a) (map_option Sv_Text b)"

definition sort_number :: "rat option \<Rightarrow> sort_value" where
  "sort_number x = (case x of None \<Rightarrow> Sv_Infinity | Some r \<Rightarrow> Sv_Number r)"

definition number_cell :: "table_dir \<Rightarrow> rat option option \<Rightarrow> rat option option \<Rightarrow> bool" where
  "number_cell dir a b = cell_le dir (map_option sort_number a) (map_option sort_number b)"

interpretation text_column: comparator "text_cell dir"
  by unfold_locales (cases dir; auto simp: text_cell_def cell_le_def value_less_def split: option.splits if_splits)+

interpretation number_column: comparator "number_cell dir"
  by unfold_locales (cases dir; auto simp: number_cell_def sort_number_def cell_le_def value_less_def split: option.splits if_splits)+

lemma toggle_cycle:
  assumes "co_sort_value col \<noteq> None" "\<forall>k. s = Some k \<longrightarrow> ts_key k \<noteq> co_id col"
  shows "toggle_sort col (toggle_sort col (toggle_sort col s)) = None"
  using assms by (auto simp: toggle_sort_def split: option.splits)

end
