(* ===== verification/TopicConfigs.thy ===== *)
theory TopicConfigs
  imports ConfirmedWrite ClusterSwitcher Api
begin

text \<open>
  The configuration tab of a topic (\<open>frontend/src/routes/clusters.$cluster.topics.$topic.configs.tsx\<close>): which
  entries it shows, who may edit, and the edit dialog as a step function on events, refetches of the topic included.
\<close>

section \<open>The table\<close>

record config_entry =
  ce_name :: jstr
  ce_value :: jstr
  ce_is_default :: bool
  ce_source :: "jstr option"
  ce_sensitive :: bool

definition shown_configs :: "bool \<Rightarrow> config_entry list \<Rightarrow> config_entry list" where
  "shown_configs show_defaults configs = (if show_defaults then configs else filter (\<lambda>c. \<not> ce_is_default c) configs)"

definition configs_disabled :: "capabilities option \<Rightarrow> bool" where
  "configs_disabled caps = (case caps of None \<Rightarrow> False | Some c \<Rightarrow> \<not> ca_describe_configs c)"

definition rbac_allows_edit :: "me_info option \<Rightarrow> bool" where
  "rbac_allows_edit me = can me (js ''topic'') (js ''edit'')"

definition can_alter :: "capabilities option \<Rightarrow> me_info option \<Rightarrow> bool" where
  "can_alter caps me \<longleftrightarrow> (case caps of None \<Rightarrow> True | Some c \<Rightarrow> ca_alter_configs c) \<and> rbac_allows_edit me"

definition cap_error :: "jstr \<Rightarrow> capabilities option \<Rightarrow> jstr option" where
  "cap_error k caps = Option.bind caps (\<lambda>c. Option.bind (ca_errors c) (\<lambda>es. mget es k))"

definition alter_reason :: "capabilities option \<Rightarrow> me_info option \<Rightarrow> jstr" where
  "alter_reason caps me =
     (if \<not> rbac_allows_edit me then js ''forbidden by RBAC policy''
      else opt_or (cap_error (js ''alter_configs'') caps) (js ''ALTER_CONFIGS on TOPIC required''))"

definition edit_blocked :: "capabilities option \<Rightarrow> me_info option \<Rightarrow> bool" where
  "edit_blocked caps me \<longleftrightarrow> \<not> configs_disabled caps \<and> \<not> can_alter caps me"

definition config_cell :: "config_entry \<Rightarrow> jstr" where
  "config_cell c = (if ce_sensitive c then replicate 3 0x2022 else ce_value c)"

definition source_cell :: "config_entry \<Rightarrow> jstr" where
  "source_cell c = (case ce_source c of
       Some s \<Rightarrow> if s \<noteq> [] then s else if ce_is_default c then js ''default'' else js ''override''
     | None \<Rightarrow> if ce_is_default c then js ''default'' else js ''override'')"

text \<open>The notice above the table: a warning when a permission is missing, else an error; \<open>5\<close> seconds between fetches.\<close>

definition configs_notice :: "jstr option \<Rightarrow> (bool \<times> jstr) option" where
  "configs_notice err = (case err of
       None \<Rightarrow> None
     | Some e \<Rightarrow> if e = [] then None
         else if e = js ''unauthorized'' then Some (True, js ''Permission missing'') else Some (False, js ''Configs unavailable''))"

definition configs_refetch_ms :: "jstr option \<Rightarrow> nat option" where
  "configs_refetch_ms err = (if err = Some (js ''unauthorized'') then None else Some 5000)"

section \<open>The edit dialog\<close>

datatype config_op = Op_Set | Op_Delete | Op_Keep

record config_row =
  cr_name :: jstr
  cr_value :: jstr
  cr_op :: config_op

record config_result =
  cf_name :: jstr
  cf_op :: jstr
  cf_error :: "jstr option"

text \<open>\<open>ec_crashed\<close>: a callback threw while rendering, and the page shows its error boundary instead.\<close>

record edit_configs =
  ec_configs :: "config_entry list"
  ec_rows :: "config_row list"
  ec_new_key :: jstr
  ec_new_value :: jstr
  ec_results :: "config_result list option"
  ec_error :: "jstr option"
  ec_pending :: bool
  ec_crashed :: bool

definition overrides :: "config_entry list \<Rightarrow> config_entry list" where
  "overrides configs = filter (\<lambda>c. \<not> ce_is_default c \<and> \<not> ce_sensitive c) configs"

definition edit_open :: "config_entry list \<Rightarrow> edit_configs" where
  "edit_open configs = \<lparr>ec_configs = configs,
     ec_rows = map (\<lambda>c. \<lparr>cr_name = ce_name c, cr_value = ce_value c, cr_op = Op_Keep\<rparr>) (overrides configs),
     ec_new_key = [], ec_new_value = [], ec_results = None, ec_error = None, ec_pending = False, ec_crashed = False\<rparr>"

definition has_changes :: "edit_configs \<Rightarrow> bool" where
  "has_changes st \<longleftrightarrow> list_ex (\<lambda>r. cr_op r \<noteq> Op_Keep) (ec_rows st) \<or> (trim (ec_new_key st) \<noteq> [] \<and> ec_new_value st \<noteq> [])"

text \<open>The object \<open>set\<close> in the order its keys were first assigned; names like \<open>__proto__\<close> are no config names.\<close>

definition set_rows :: "config_row list \<Rightarrow> (jstr, jstr) jsmap" where
  "set_rows rows = fold (\<lambda>r m. if cr_op r = Op_Set then mset_key (cr_name r) (cr_value r) m else m) rows []"

definition set_map :: "edit_configs \<Rightarrow> (jstr, jstr) jsmap" where
  "set_map st = (if trim (ec_new_key st) \<noteq> [] then mset_key (trim (ec_new_key st)) (ec_new_value st) (set_rows (ec_rows st))
     else set_rows (ec_rows st))"

definition delete_list :: "edit_configs \<Rightarrow> jstr list" where
  "delete_list st = map cr_name (filter (\<lambda>r. cr_op r = Op_Delete) (ec_rows st))"

record config_change =
  cc_set :: "(jstr, jstr) jsmap option"
  cc_delete :: "jstr list option"

definition config_change_of :: "edit_configs \<Rightarrow> config_change" where
  "config_change_of st = \<lparr>cc_set = (if set_map st \<noteq> [] then Some (set_map st) else None),
     cc_delete = (if delete_list st \<noteq> [] then Some (delete_list st) else None)\<rparr>"

definition config_change_json :: "config_change \<Rightarrow> json" where
  "config_change_json c = JsObject (members
     [(js ''set'', map_option (\<lambda>m. JsObject (map (\<lambda>(k, v). (k, JsString v)) m)) (cc_set c)),
      (js ''delete'', map_option (\<lambda>ks. JsArray (map JsString ks)) (cc_delete c))])"

definition config_call :: "api_env \<Rightarrow> jstr \<Rightarrow> jstr \<Rightarrow> config_change \<Rightarrow> api_error + json option" where
  "config_call env cluster topic c = alter_topic_configs env cluster topic (config_change_json c)"

datatype config_event =
    Ec_Configs "config_entry list"
  | Ec_Value nat jstr
  | Ec_Op nat config_op
  | Ec_New_Key jstr
  | Ec_New_Value jstr
  | Ec_Submit
  | Ec_Answer "jstr + config_result list"

text \<open>
  The input of a row compares with the override at the same index of the configs as they are now; reading
  \<open>value\<close> of a missing one throws.
\<close>

definition type_value :: "nat \<Rightarrow> jstr \<Rightarrow> edit_configs \<Rightarrow> edit_configs" where
  "type_value i v st =
     (let os = overrides (ec_configs st); r = ec_rows st ! i in
      if length (ec_rows st) \<le> i \<or> cr_op r = Op_Delete then st
      else if length os \<le> i then st\<lparr>ec_crashed := True\<rparr>
      else st\<lparr>ec_rows := (ec_rows st)[i := r\<lparr>cr_value := v, cr_op := (if v \<noteq> ce_value (os ! i) then Op_Set else Op_Keep)\<rparr>]\<rparr>)"

definition choose_op :: "nat \<Rightarrow> config_op \<Rightarrow> edit_configs \<Rightarrow> edit_configs" where
  "choose_op i p st =
     (if length (ec_rows st) \<le> i then st else st\<lparr>ec_rows := (ec_rows st)[i := (ec_rows st ! i)\<lparr>cr_op := p\<rparr>]\<rparr>)"

definition config_step :: "edit_configs \<Rightarrow> config_event \<Rightarrow> config_change option \<times> edit_configs" where
  "config_step st e =
     (if ec_crashed st then (None, st)
      else case e of
        Ec_Configs cs \<Rightarrow> (None, st\<lparr>ec_configs := cs\<rparr>)
      | Ec_Value i v \<Rightarrow> (None, type_value i v st)
      | Ec_Op i p \<Rightarrow> (None, choose_op i p st)
      | Ec_New_Key k \<Rightarrow> (None, st\<lparr>ec_new_key := k\<rparr>)
      | Ec_New_Value v \<Rightarrow> (None, st\<lparr>ec_new_value := v\<rparr>)
      | Ec_Submit \<Rightarrow>
          if has_changes st \<and> \<not> ec_pending st then (Some (config_change_of st), st\<lparr>ec_pending := True, ec_error := None\<rparr>)
          else (None, st)
      | Ec_Answer a \<Rightarrow>
          (None, if \<not> ec_pending st then st
             else case a of Inl msg \<Rightarrow> st\<lparr>ec_pending := False, ec_error := Some msg\<rparr>
                  | Inr rs \<Rightarrow> st\<lparr>ec_pending := False, ec_results := Some rs\<rparr>))"

section \<open>What a request names\<close>

lemma mget_set_rows: "mget (set_rows rows) k = map_option cr_value (find (\<lambda>r. cr_op r = Op_Set \<and> cr_name r = k) (rev rows))"
proof -
  have "mget (fold (\<lambda>r m. if cr_op r = Op_Set then mset_key (cr_name r) (cr_value r) m else m) rows m) k =
      (case find (\<lambda>r. cr_op r = Op_Set \<and> cr_name r = k) (rev rows) of Some r \<Rightarrow> Some (cr_value r) | None \<Rightarrow> mget m k)" for m
    by (induction rows arbitrary: m rule: rev_induct) (auto simp: map_simps)
  then show ?thesis by (simp add: set_rows_def map_simps split: option.split)
qed

lemma set_row_named: "mget (set_rows rows) k = Some v \<Longrightarrow> \<exists>r\<in>set rows. cr_op r = Op_Set \<and> cr_name r = k \<and> cr_value r = v"
  by (auto simp: mget_set_rows find_Some_iff) (metis length_rev nth_mem set_rev)

lemma mget_set_map:
  "mget (set_map st) k = (if trim (ec_new_key st) \<noteq> [] \<and> k = trim (ec_new_key st) then Some (ec_new_value st) else mget (set_rows (ec_rows st)) k)"
  by (simp add: set_map_def map_simps)

lemma set_map_nonempty:
  assumes "has_changes st" "delete_list st = []"
  shows "set_map st \<noteq> []"
proof (cases "trim (ec_new_key st) = []")
  case True
  then obtain r where r: "r \<in> set (ec_rows st)" "cr_op r \<noteq> Op_Keep" using assms(1) by (auto simp: has_changes_def list_ex_iff)
  moreover have "cr_op r \<noteq> Op_Delete" using r(1) assms(2) by (auto simp: delete_list_def filter_empty_conv)
  ultimately have "cr_op r = Op_Set" by (cases "cr_op r") simp_all
  then have "find (\<lambda>q. cr_op q = Op_Set \<and> cr_name q = cr_name r) (rev (ec_rows st)) \<noteq> None"
    using r(1) by (auto simp: find_None_iff)
  then show ?thesis using mget_set_rows [of "ec_rows st" "cr_name r"] True by (auto simp: set_map_def map_simps)
next
  case False
  then have "mget (set_map st) (trim (ec_new_key st)) \<noteq> None" by (simp add: mget_set_map)
  then show ?thesis by (auto simp: map_simps)
qed

text \<open>The rows keep the names the dialog opened with.\<close>

definition edit_inv :: "config_entry list \<Rightarrow> edit_configs \<Rightarrow> bool" where
  "edit_inv opened st \<longleftrightarrow> map cr_name (ec_rows st) = map ce_name (overrides opened)"

definition config_ok :: "config_entry list \<Rightarrow> edit_configs \<Rightarrow> config_change \<Rightarrow> bool" where
  "config_ok opened st c \<longleftrightarrow> \<not> (cc_set c = None \<and> cc_delete c = None) \<and>
     (\<forall>k v. Option.bind (cc_set c) (\<lambda>m. mget m k) = Some v \<longrightarrow>
        (k = trim (ec_new_key st) \<and> v = ec_new_value st) \<or>
        (\<exists>r\<in>set (ec_rows st). cr_op r = Op_Set \<and> cr_name r = k \<and> cr_value r = v)) \<and>
     (\<forall>k. k \<in> set (opt_or (cc_delete c) []) \<longleftrightarrow> (\<exists>r\<in>set (ec_rows st). cr_op r = Op_Delete \<and> cr_name r = k)) \<and>
     (\<forall>r\<in>set (ec_rows st). \<exists>o'\<in>set opened. ce_name o' = cr_name r \<and> \<not> ce_sensitive o' \<and> \<not> ce_is_default o')"

lemma config_change_ok:
  assumes "has_changes st" "edit_inv opened st"
  shows "config_ok opened st (config_change_of st)"
  unfolding config_ok_def
proof (intro conjI allI impI ballI)
  show "\<not> (cc_set (config_change_of st) = None \<and> cc_delete (config_change_of st) = None)"
    using set_map_nonempty [OF assms(1)] by (auto simp: config_change_of_def)
next
  fix k v
  assume "Option.bind (cc_set (config_change_of st)) (\<lambda>m. mget m k) = Some v"
  then have "mget (set_map st) k = Some v" by (simp add: config_change_of_def split: if_splits)
  then show "(k = trim (ec_new_key st) \<and> v = ec_new_value st) \<or>
      (\<exists>r\<in>set (ec_rows st). cr_op r = Op_Set \<and> cr_name r = k \<and> cr_value r = v)"
    using set_row_named by (auto simp: mget_set_map split: if_splits)
next
  fix k
  show "k \<in> set (opt_or (cc_delete (config_change_of st)) []) \<longleftrightarrow> (\<exists>r\<in>set (ec_rows st). cr_op r = Op_Delete \<and> cr_name r = k)"
    by (auto simp: config_change_of_def delete_list_def filter_empty_conv)
next
  fix r
  assume "r \<in> set (ec_rows st)"
  then have "cr_name r \<in> set (map ce_name (overrides opened))" using assms(2) by (metis edit_inv_def image_eqI list.set_map)
  then show "\<exists>o'\<in>set opened. ce_name o' = cr_name r \<and> \<not> ce_sensitive o' \<and> \<not> ce_is_default o'" by (auto simp: overrides_def)
qed

lemma map_update_same: "i < length xs \<Longrightarrow> f y = f (xs ! i) \<Longrightarrow> map f (xs[i := y]) = map f xs"
  by (metis list_update_id map_update)

lemma config_step_inv: "edit_inv opened st \<Longrightarrow> edit_inv opened (snd (config_step st e))"
  by (cases e) (auto simp: config_step_def edit_inv_def type_value_def choose_op_def Let_def map_update_same split: sum.splits)

lemma config_step_ok: "edit_inv opened st \<Longrightarrow> fst (config_step st e) = Some c \<Longrightarrow> config_ok opened st c"
  by (cases e) (auto simp: config_step_def config_change_ok split: if_splits)

interpretation configs: sender config_step "edit_inv opened" "\<lambda>_. True" "config_ok opened"
  for opened
  by unfold_locales (simp_all add: config_step_inv config_step_ok)

text \<open>A new key without a value is no change of its own, yet any other change sends it with the empty value.\<close>

lemma new_key_without_value:
  assumes "trim (ec_new_key st) \<noteq> []" "ec_new_value st = []"
  shows "has_changes st = list_ex (\<lambda>r. cr_op r \<noteq> Op_Keep) (ec_rows st)" "mget (set_map st) (trim (ec_new_key st)) = Some []"
  using assms by (simp_all add: has_changes_def mget_set_map)


definition sample_entry :: "jstr \<Rightarrow> jstr \<Rightarrow> config_entry" where
  "sample_entry n v = \<lparr>ce_name = n, ce_value = v, ce_is_default = False, ce_source = None, ce_sensitive = False\<rparr>"


text \<open>
  The rows stay those the dialog opened with, but the value typed in a row is compared with the override at the
  same index of the configuration as it was last fetched. After the deletion of the first override was applied and
  the configuration was fetched again, the last row has no override any more: typing in it throws, and the page
  is replaced by its error boundary. In every other row the comparison is with the next row's override: the second
  row set to the value of the third counts as unchanged, and is not sent.
\<close>

theorem config_edit_after_refetch:
  assumes "overrides opened = a # b # rest" "overrides fetched = b # rest"
  shows "let st = after_events config_step (edit_open opened) [Ec_Op 0 Op_Delete, Ec_Submit, Ec_Answer (Inr rs), Ec_Configs fetched]
    in \<not> ec_crashed st \<and> ec_crashed (snd (config_step st (Ec_Value (Suc (length rest)) v))) \<and>
       (\<forall>c rest'. rest = c # rest' \<and> ce_value c \<noteq> ce_value b \<longrightarrow>
          cr_op (ec_rows (snd (config_step st (Ec_Value 1 (ce_value c)))) ! 1) = Op_Keep \<and>
          cr_name (ec_rows (snd (config_step st (Ec_Value 1 (ce_value c)))) ! 1) = ce_name b)"
  using assms
  by (auto simp: Let_def config_step_def choose_op_def edit_open_def has_changes_def type_value_def nth_Cons' split: if_splits)

lemma config_edit_after_refetch_witness:
  "let e = (\<lambda>n. sample_entry (js n)); st = after_events config_step (edit_open [e ''a'' (js ''1''), e ''b'' (js ''2''), e ''c'' (js ''3'')])
         [Ec_Op 0 Op_Delete, Ec_Submit, Ec_Answer (Inr []), Ec_Configs [e ''b'' (js ''2''), e ''c'' (js ''3'')]]
    in ec_crashed (snd (config_step st (Ec_Value 2 [])))"
  using config_edit_after_refetch [of "[sample_entry (js ''a'') (js ''1''), sample_entry (js ''b'') (js ''2''), sample_entry (js ''c'') (js ''3'')]"
      "sample_entry (js ''a'') (js ''1'')" "sample_entry (js ''b'') (js ''2'')" "[sample_entry (js ''c'') (js ''3'')]"
      "[sample_entry (js ''b'') (js ''2''), sample_entry (js ''c'') (js ''3'')]" "[]" "[]"]
  by (simp add: Let_def overrides_def sample_entry_def numeral_2_eq_2)

text \<open>A sensitive value is not shown.\<close>

lemma sensitive_masked: "ce_sensitive c \<Longrightarrow> config_cell c = config_cell (c\<lparr>ce_value := v\<rparr>)"
  by (simp add: config_cell_def)

end
