(* ===== verification/Security.thy ===== *)
theory Security
  imports ConfirmedWrite Numbers Fuzzy Api
begin

text \<open>
  The security pages of a cluster: its ACL rules (\<open>frontend/src/routes/clusters.$cluster.security.acls.tsx\<close>) and its
  SCRAM users (\<open>clusters.$cluster.security.users.tsx\<close>). Each page is a step function on events that may send one
  request; the answers of requests and the fetched rows are events.
\<close>

section \<open>ACL rules\<close>

record acl_entry =
  al_principal :: jstr
  al_host :: jstr
  al_resource_type :: jstr
  al_resource_name :: jstr
  al_pattern_type :: jstr
  al_operation :: jstr
  al_permission_type :: jstr

definition acl_json :: "acl_entry \<Rightarrow> json" where
  "acl_json a = JsObject [(js ''principal'', JsString (al_principal a)), (js ''host'', JsString (al_host a)),
     (js ''resource_type'', JsString (al_resource_type a)), (js ''resource_name'', JsString (al_resource_name a)),
     (js ''pattern_type'', JsString (al_pattern_type a)), (js ''operation'', JsString (al_operation a)),
     (js ''permission_type'', JsString (al_permission_type a))]"

definition resource_types :: "jstr list" where
  "resource_types = map js [''TOPIC'', ''GROUP'', ''CLUSTER'', ''TRANSACTIONAL_ID'', ''DELEGATION_TOKEN'']"

definition pattern_types :: "jstr list" where
  "pattern_types = map js [''LITERAL'', ''PREFIXED'']"

definition acl_operations :: "jstr list" where
  "acl_operations = map js [''ALL'', ''READ'', ''WRITE'', ''CREATE'', ''DELETE'', ''ALTER'', ''DESCRIBE'', ''CLUSTER_ACTION'',
     ''DESCRIBE_CONFIGS'', ''ALTER_CONFIGS'', ''IDEMPOTENT_WRITE'']"

definition acl_permissions :: "jstr list" where
  "acl_permissions = map js [''ALLOW'', ''DENY'']"

definition acl_stats :: "acl_entry list \<Rightarrow> nat \<times> nat \<times> nat" where
  "acl_stats rows = (length (remdups (map al_principal rows)),
     length (filter (\<lambda>r. al_permission_type r = js ''ALLOW'') rows), length (filter (\<lambda>r. al_permission_type r = js ''DENY'') rows))"

text \<open>The pattern \<open>/authoriz|not\s+authorized|permission|forbidden|describe/i\<close>; its second branch contains the first.\<close>

definition permission_denied :: "jstr option \<Rightarrow> bool" where
  "permission_denied err = (case err of
       None \<Rightarrow> False
     | Some m \<Rightarrow> list_ex (\<lambda>w. contains_text (js w) (ascii_lower m)) [''authoriz'', ''permission'', ''forbidden'', ''describe''])"

datatype acl_request = Create_Acl acl_entry | Delete_Acl acl_entry

definition acl_call :: "api_env \<Rightarrow> jstr \<Rightarrow> acl_request \<Rightarrow> api_error + json" where
  "acl_call env cluster r = (case r of
       Create_Acl a \<Rightarrow> bindE (create_acl env cluster (acl_json a)) (\<lambda>_. Inr JsNull)
     | Delete_Acl a \<Rightarrow> delete_acl env cluster (acl_json a))"

text \<open>\<open>ap_error\<close> is the error of the list query, \<open>ap_create\<close> the rule being written while the dialog for it is open.\<close>

record acl_page =
  ap_rows :: "acl_entry list"
  ap_error :: "jstr option"
  ap_filter :: jstr
  ap_create :: "acl_entry option"
  ap_creating :: bool
  ap_pending :: "acl_entry option"
  ap_banner :: "(bool \<times> jstr) option"

definition acl_page_initial :: acl_page where
  "acl_page_initial = \<lparr>ap_rows = [], ap_error = None, ap_filter = [], ap_create = None, ap_creating = False, ap_pending = None, ap_banner = None\<rparr>"

definition new_acl :: acl_entry where
  "new_acl = \<lparr>al_principal = js ''User:'', al_host = js ''*'', al_resource_type = js ''TOPIC'', al_resource_name = [],
     al_pattern_type = js ''LITERAL'', al_operation = js ''READ'', al_permission_type = js ''ALLOW''\<rparr>"

definition acl_limited :: "acl_page \<Rightarrow> bool" where
  "acl_limited st = permission_denied (ap_error st)"

definition acl_shown :: "acl_entry fuse \<Rightarrow> acl_page \<Rightarrow> acl_entry list" where
  "acl_shown fuse st = (if ap_error st \<noteq> None then []
     else fuzzy_results fuse (map js [''principal'', ''resource_name'', ''resource_type'', ''operation'']) (ap_filter st) (ap_rows st))"

definition acl_ready :: "acl_entry \<Rightarrow> bool" where
  "acl_ready a \<longleftrightarrow> trim (al_principal a) \<noteq> [] \<and> trim (al_resource_name a) \<noteq> []"

text \<open>The confirmation is open while an entry is pending; it has no phrase, and its action returns at once.\<close>

definition acl_dialog :: "acl_page \<Rightarrow> confirm_dialog" where
  "acl_dialog st = set_open (ap_pending st \<noteq> None) confirm_closed"

definition deleted_text :: "jstr \<Rightarrow> acl_entry \<Rightarrow> jstr" where
  "deleted_text n a = n @ js '' ACL(s) deleted ('' @ al_principal a @ [32, 0x2192, 32] @ al_operation a @ js '' on '' @ al_resource_name a @ js '')''"

definition created_text :: "acl_entry \<Rightarrow> jstr" where
  "created_text a = js ''ACL created: '' @ al_principal a @ [32] @ al_permission_type a @ [32] @ al_operation a @ js '' on '' @
     al_resource_type a @ [58] @ al_resource_name a"

text \<open>
  \<open>Al_Created\<close> carries the rule the callback of the dialog reads when the answer comes, and \<open>Al_Deleted\<close> the entry
  the request named.
\<close>

datatype acl_event =
    Al_Rows "acl_entry list"
  | Al_Fetch_Failed jstr
  | Al_Filter jstr
  | Al_New
  | Al_Edit acl_entry
  | Al_Create
  | Al_Cancel
  | Al_Created "jstr + acl_entry"
  | Al_Trash acl_entry
  | Al_Dismiss
  | Al_Confirm
  | Al_Deleted acl_entry "jstr + json"
  | Al_Dismiss_Banner

definition acl_step :: "acl_entry fuse \<Rightarrow> acl_page \<Rightarrow> acl_event \<Rightarrow> acl_request option \<times> acl_page" where
  "acl_step fuse st e =
     (case e of
        Al_Rows rs \<Rightarrow> (None, st\<lparr>ap_rows := rs, ap_error := None\<rparr>)
      | Al_Fetch_Failed m \<Rightarrow> (None, st\<lparr>ap_error := Some m\<rparr>)
      | Al_Filter s \<Rightarrow> (None, st\<lparr>ap_filter := s\<rparr>)
      | Al_New \<Rightarrow> (None, if acl_limited st \<or> ap_create st \<noteq> None then st else st\<lparr>ap_create := Some new_acl, ap_creating := False\<rparr>)
      | Al_Edit a \<Rightarrow> (None, if ap_create st = None then st else st\<lparr>ap_create := Some a\<rparr>)
      | Al_Create \<Rightarrow> (case ap_create st of
            None \<Rightarrow> (None, st)
          | Some a \<Rightarrow> if ap_creating st \<or> \<not> acl_ready a then (None, st) else (Some (Create_Acl a), st\<lparr>ap_creating := True\<rparr>))
      | Al_Cancel \<Rightarrow> (None, st\<lparr>ap_create := None\<rparr>)
      | Al_Created r \<Rightarrow> (None, case r of
            Inl m \<Rightarrow> st\<lparr>ap_creating := False, ap_banner := Some (False, m)\<rparr>
          | Inr a \<Rightarrow> st\<lparr>ap_creating := False, ap_create := None, ap_banner := Some (True, created_text a)\<rparr>)
      | Al_Trash a \<Rightarrow> (None, if a \<in> set (acl_shown fuse st) then st\<lparr>ap_pending := Some a\<rparr> else st)
      | Al_Dismiss \<Rightarrow> (None, st\<lparr>ap_pending := None\<rparr>)
      | Al_Confirm \<Rightarrow> (case (confirm_click None (acl_dialog st), ap_pending st) of
            (Some _, Some a) \<Rightarrow> (Some (Delete_Acl a), st\<lparr>ap_pending := None\<rparr>)
          | _ \<Rightarrow> (None, st))
      | Al_Deleted a r \<Rightarrow> (None, case r of
            Inl m \<Rightarrow> st\<lparr>ap_banner := Some (False, m)\<rparr>
          | Inr n \<Rightarrow> st\<lparr>ap_banner := Some (True, deleted_text (to_text n) a), ap_pending := None\<rparr>)
      | Al_Dismiss_Banner \<Rightarrow> (None, st\<lparr>ap_banner := None\<rparr>))"

text \<open>A search finds items of the list; with that, only entries the server listed are deleted.\<close>

definition acl_inv :: "acl_entry set \<Rightarrow> acl_page \<Rightarrow> bool" where
  "acl_inv listed st \<longleftrightarrow> set (ap_rows st) \<subseteq> listed \<and> (\<forall>a. ap_pending st = Some a \<longrightarrow> a \<in> listed)"

definition acl_allowed :: "acl_entry fuse \<Rightarrow> acl_entry set \<Rightarrow> acl_event \<Rightarrow> bool" where
  "acl_allowed fuse listed e \<longleftrightarrow> fuse_sound fuse \<and> (\<forall>rs. e = Al_Rows rs \<longrightarrow> set rs \<subseteq> listed)"

definition acl_ok :: "acl_entry set \<Rightarrow> acl_page \<Rightarrow> acl_request \<Rightarrow> bool" where
  "acl_ok listed st r \<longleftrightarrow> (case r of
       Create_Acl a \<Rightarrow> ap_create st = Some a \<and> trim (al_principal a) \<noteq> [] \<and> trim (al_resource_name a) \<noteq> []
     | Delete_Acl a \<Rightarrow> ap_pending st = Some a \<and> a \<in> listed)"

lemma acl_shown_listed: "fuse_sound fuse \<Longrightarrow> acl_inv listed st \<Longrightarrow> a \<in> set (acl_shown fuse st) \<Longrightarrow> a \<in> listed"
  using fuzzy_results_subset [of fuse] by (fastforce simp: acl_shown_def acl_inv_def split: if_splits)

lemma acl_step_inv: "acl_inv listed st \<Longrightarrow> acl_allowed fuse listed e \<Longrightarrow> acl_inv listed (snd (acl_step fuse st e))"
  using acl_shown_listed [of fuse listed st]
  by (cases e) (auto simp: acl_step_def acl_inv_def acl_allowed_def split: option.splits sum.splits)

lemma acl_step_ok: "acl_inv listed st \<Longrightarrow> fst (acl_step fuse st e) = Some r \<Longrightarrow> acl_ok listed st r"
  by (cases e) (auto simp: acl_step_def acl_ok_def acl_inv_def acl_ready_def split: option.splits if_splits)

interpretation acls: sender "acl_step fuse" "acl_inv listed" "acl_allowed fuse listed" "acl_ok listed"
  for fuse listed
  by unfold_locales (simp_all add: acl_step_inv acl_step_ok)

text \<open>Without the permission no new rule can be started.\<close>

lemma limited_no_new: "acl_limited st \<Longrightarrow> acl_step fuse st Al_New = (None, st)"
  by (simp add: acl_step_def)

section \<open>SCRAM users\<close>

record scram_user =
  su_user :: jstr
  su_credentials :: "(jstr \<times> int) list"

record scram_row =
  sw_user :: jstr
  sw_mechanism :: jstr
  sw_iterations :: int

definition scram_mechanisms :: "jstr list" where
  "scram_mechanisms = [js ''SCRAM-SHA-256'', js ''SCRAM-SHA-512'']"

definition to_mechanism :: "jstr \<Rightarrow> jstr" where
  "to_mechanism m = (case find (\<lambda>x. x = m) scram_mechanisms of Some x \<Rightarrow> x | None \<Rightarrow> js ''SCRAM-SHA-256'')"

definition no_mechanism :: jstr where
  "no_mechanism = [0x2014]"

definition scram_rows :: "scram_user list \<Rightarrow> scram_row list" where
  "scram_rows users = concat (map (\<lambda>u. if su_credentials u = []
       then [\<lparr>sw_user = su_user u, sw_mechanism = no_mechanism, sw_iterations = 0\<rparr>]
       else map (\<lambda>(m, i). \<lparr>sw_user = su_user u, sw_mechanism = m, sw_iterations = i\<rparr>) (su_credentials u)) users)"

text \<open>The dialog that sets a credential; \<open>sf_default\<close> is the user it was opened for, empty for a new one.\<close>

record scram_form =
  sf_default :: jstr
  sf_user :: jstr
  sf_mechanism :: jstr
  sf_password :: jstr
  sf_iterations :: rat
  sf_pending :: bool

definition scram_form_open :: "jstr \<Rightarrow> jstr \<Rightarrow> scram_form" where
  "scram_form_open user mechanism = \<lparr>sf_default = user, sf_user = user, sf_mechanism = to_mechanism mechanism, sf_password = [],
     sf_iterations = 8192, sf_pending = False\<rparr>"

definition iterations_valid :: "scram_form \<Rightarrow> bool" where
  "iterations_valid f \<longleftrightarrow> 4096 \<le> sf_iterations f \<and> sf_iterations f \<le> 16384"

definition rotating :: "scram_form \<Rightarrow> bool" where
  "rotating f \<longleftrightarrow> sf_default f \<noteq> []"

definition upsert_enabled :: "scram_form \<Rightarrow> bool" where
  "upsert_enabled f \<longleftrightarrow> \<not> sf_pending f \<and> trim (sf_user f) \<noteq> [] \<and> sf_password f \<noteq> [] \<and> iterations_valid f"

definition scram_json :: "(rat \<Rightarrow> jstr) \<Rightarrow> scram_form \<Rightarrow> json" where
  "scram_json number_text f = JsObject [(js ''user'', JsString (sf_user f)), (js ''mechanism'', JsString (sf_mechanism f)),
     (js ''password'', JsString (sf_password f)), (js ''iterations'', number_json number_text (Some (sf_iterations f)))]"

definition typed_iterations :: "jstr \<Rightarrow> rat" where
  "typed_iterations s = (case js_number s of Some x \<Rightarrow> x | None \<Rightarrow> 0)"

datatype scram_request = Upsert_Scram scram_form | Delete_Scram jstr jstr

definition scram_call :: "api_env \<Rightarrow> (rat \<Rightarrow> jstr) \<Rightarrow> jstr \<Rightarrow> scram_request \<Rightarrow> api_error + unit" where
  "scram_call env number_text cluster r = (case r of
       Upsert_Scram f \<Rightarrow> upsert_scram_user env cluster (scram_json number_text f)
     | Delete_Scram u m \<Rightarrow> delete_scram_user env cluster u (Some m))"

record users_page =
  up_rows :: "scram_row list"
  up_form :: "scram_form option"
  up_delete :: "(jstr \<times> jstr) option"
  up_banner :: "(bool \<times> jstr) option"

definition users_page_initial :: users_page where
  "users_page_initial = \<lparr>up_rows = [], up_form = None, up_delete = None, up_banner = None\<rparr>"

definition users_dialog :: "users_page \<Rightarrow> confirm_dialog" where
  "users_dialog st = set_open (up_delete st \<noteq> None) confirm_closed"

text \<open>\<open>Su_Saved\<close> carries the message of the callback of the dialog, \<open>Su_Deleted\<close> the credential the request named.\<close>

datatype users_event =
    Su_Users "scram_user list"
  | Su_New
  | Su_Rotate scram_row
  | Su_User jstr
  | Su_Mechanism jstr
  | Su_Password jstr
  | Su_Iterations jstr
  | Su_Submit
  | Su_Cancel
  | Su_Saved "jstr + jstr"
  | Su_Trash scram_row
  | Su_Dismiss
  | Su_Confirm
  | Su_Deleted "jstr \<times> jstr" "jstr option"
  | Su_Dismiss_Banner

definition scram_form_step :: "scram_form \<Rightarrow> users_event \<Rightarrow> scram_form" where
  "scram_form_step f e =
     (case e of
        Su_User u \<Rightarrow> if rotating f then f else f\<lparr>sf_user := u\<rparr>
      | Su_Mechanism m \<Rightarrow> if rotating f then f else f\<lparr>sf_mechanism := to_mechanism m\<rparr>
      | Su_Password p \<Rightarrow> f\<lparr>sf_password := p\<rparr>
      | Su_Iterations s \<Rightarrow> f\<lparr>sf_iterations := typed_iterations s\<rparr>
      | _ \<Rightarrow> f)"

definition users_step :: "users_page \<Rightarrow> users_event \<Rightarrow> scram_request option \<times> users_page" where
  "users_step st e =
     (case e of
        Su_Users us \<Rightarrow> (None, st\<lparr>up_rows := scram_rows us\<rparr>)
      | Su_New \<Rightarrow> (None, if up_form st \<noteq> None then st else st\<lparr>up_form := Some (scram_form_open [] (js ''SCRAM-SHA-256''))\<rparr>)
      | Su_Rotate r \<Rightarrow> (None, if up_form st \<noteq> None \<or> r \<notin> set (up_rows st) \<or> sw_mechanism r = no_mechanism then st
            else st\<lparr>up_form := Some (scram_form_open (sw_user r) (sw_mechanism r))\<rparr>)
      | Su_Submit \<Rightarrow> (case up_form st of
            None \<Rightarrow> (None, st)
          | Some f \<Rightarrow> if upsert_enabled f then (Some (Upsert_Scram f), st\<lparr>up_form := Some (f\<lparr>sf_pending := True\<rparr>)\<rparr>) else (None, st))
      | Su_Cancel \<Rightarrow> (None, st\<lparr>up_form := None\<rparr>)
      | Su_Saved r \<Rightarrow> (None, case r of
            Inl m \<Rightarrow> st\<lparr>up_banner := Some (False, m), up_form := map_option (\<lambda>f. f\<lparr>sf_pending := False\<rparr>) (up_form st)\<rparr>
          | Inr m \<Rightarrow> st\<lparr>up_banner := Some (True, m), up_form := None\<rparr>)
      | Su_Trash r \<Rightarrow> (None, if r \<in> set (up_rows st) \<and> sw_mechanism r \<noteq> no_mechanism
            then st\<lparr>up_delete := Some (sw_user r, sw_mechanism r)\<rparr> else st)
      | Su_Dismiss \<Rightarrow> (None, st\<lparr>up_delete := None\<rparr>)
      | Su_Confirm \<Rightarrow> (case (confirm_click None (users_dialog st), up_delete st) of
            (Some _, Some (u, m)) \<Rightarrow> (Some (Delete_Scram u m), st\<lparr>up_delete := None\<rparr>)
          | _ \<Rightarrow> (None, st))
      | Su_Deleted p err \<Rightarrow> (None, case err of
            Some m \<Rightarrow> st\<lparr>up_banner := Some (False, m)\<rparr>
          | None \<Rightarrow> st\<lparr>up_banner := Some (True, js ''Credential deleted: '' @ fst p @ js '' / '' @ snd p), up_delete := None\<rparr>)
      | Su_Dismiss_Banner \<Rightarrow> (None, st\<lparr>up_banner := None\<rparr>)
      | _ \<Rightarrow> (None, st\<lparr>up_form := map_option (\<lambda>f. scram_form_step f e) (up_form st)\<rparr>))"

text \<open>
  A deletion names one listed credential with its mechanism, never a user as a whole. A rotation keeps the user and
  the mechanism of its row when the mechanism is one of the two the form knows.
\<close>

definition listed_credentials :: "scram_user list \<Rightarrow> (jstr \<times> jstr) set" where
  "listed_credentials us = {(su_user u, m) | u m i. u \<in> set us \<and> (m, i) \<in> set (su_credentials u)}"

lemma scram_rows_listed: "r \<in> set (scram_rows us) \<Longrightarrow> sw_mechanism r \<noteq> no_mechanism \<Longrightarrow> (sw_user r, sw_mechanism r) \<in> listed_credentials us"
  by (fastforce simp: scram_rows_def listed_credentials_def split: if_splits)

definition form_ok :: "(jstr \<times> jstr) set \<Rightarrow> scram_form \<Rightarrow> bool" where
  "form_ok listed f \<longleftrightarrow> sf_mechanism f \<in> set scram_mechanisms \<and>
     (rotating f \<longrightarrow> sf_user f = sf_default f \<and> (\<exists>m. (sf_user f, m) \<in> listed \<and> sf_mechanism f = to_mechanism m))"

definition users_inv :: "(jstr \<times> jstr) set \<Rightarrow> users_page \<Rightarrow> bool" where
  "users_inv listed st \<longleftrightarrow> (\<forall>r\<in>set (up_rows st). sw_mechanism r \<noteq> no_mechanism \<longrightarrow> (sw_user r, sw_mechanism r) \<in> listed) \<and>
     (\<forall>p. up_delete st = Some p \<longrightarrow> p \<in> listed) \<and> (\<forall>f. up_form st = Some f \<longrightarrow> form_ok listed f)"

definition users_allowed :: "(jstr \<times> jstr) set \<Rightarrow> users_event \<Rightarrow> bool" where
  "users_allowed listed e \<longleftrightarrow> (\<forall>us. e = Su_Users us \<longrightarrow> listed_credentials us \<subseteq> listed)"

definition scram_ok :: "(jstr \<times> jstr) set \<Rightarrow> users_page \<Rightarrow> scram_request \<Rightarrow> bool" where
  "scram_ok listed st r \<longleftrightarrow> (case r of
       Delete_Scram u m \<Rightarrow> up_delete st = Some (u, m) \<and> (u, m) \<in> listed
     | Upsert_Scram f \<Rightarrow> up_form st = Some f \<and> form_ok listed f \<and> trim (sf_user f) \<noteq> [] \<and> sf_password f \<noteq> [] \<and>
         4096 \<le> sf_iterations f \<and> sf_iterations f \<le> 16384)"

lemma to_mechanism_known: "to_mechanism m \<in> set scram_mechanisms" "m \<in> set scram_mechanisms \<Longrightarrow> to_mechanism m = m"
  by (auto simp: to_mechanism_def scram_mechanisms_def)

lemma scram_form_step_ok: "form_ok listed f \<Longrightarrow> form_ok listed (scram_form_step f e)"
  by (cases e) (auto simp: scram_form_step_def form_ok_def to_mechanism_known rotating_def)

lemma form_ok_open: "u = [] \<or> (u, m) \<in> listed \<Longrightarrow> form_ok listed (scram_form_open u m)"
  by (auto simp: form_ok_def scram_form_open_def to_mechanism_known rotating_def)

lemma form_ok_pending: "form_ok listed (f\<lparr>sf_pending := b\<rparr>) = form_ok listed f"
  by (simp add: form_ok_def rotating_def)

lemma users_step_inv: "users_inv listed st \<Longrightarrow> users_allowed listed e \<Longrightarrow> users_inv listed (snd (users_step st e))"
proof (cases e)
  case (Su_Users us)
  assume "users_inv listed st" "users_allowed listed e"
  then show ?thesis using scram_rows_listed [of _ us] by (auto simp: Su_Users users_step_def users_inv_def users_allowed_def)
qed (auto simp: users_step_def users_inv_def form_ok_open form_ok_pending scram_form_step_ok split: option.splits sum.splits)

lemma users_step_ok: "users_inv listed st \<Longrightarrow> fst (users_step st e) = Some r \<Longrightarrow> scram_ok listed st r"
  by (cases e) (auto simp: users_step_def scram_ok_def users_inv_def upsert_enabled_def iterations_valid_def split: option.splits if_splits)

interpretation scram: sender users_step "users_inv listed" "users_allowed listed" "scram_ok listed"
  for listed
  by unfold_locales (simp_all add: users_step_inv users_step_ok)

text \<open>
  A rotation does not keep the iterations of the credential: the form opens with 8192 for every row, so confirming a
  new password also sets them to 8192.
\<close>

lemma rotation_sets_iterations:
  assumes "r \<in> set (up_rows st)" "sw_mechanism r \<noteq> no_mechanism" "up_form st = None" "trim (sw_user r) \<noteq> []" "p \<noteq> []"
  shows "\<exists>f. map snd (sends users_step st [Su_Rotate r, Su_Password p, Su_Submit]) = [Upsert_Scram f] \<and> sf_user f = sw_user r \<and>
    sf_password f = p \<and> sf_iterations f = 8192"
  using assms
  by (simp add: users_step_def scram_form_open_def scram_form_step_def upsert_enabled_def iterations_valid_def)

end
