(* ===== verification/Settings.thy ===== *)
theory Settings
  imports ConfirmedWrite Fuzzy ClusterSwitcher ExportCrypto Api
begin

text \<open>
  The settings page of the private clusters (\<open>frontend/src/routes/settings.clusters.tsx\<close>) with its form, its export
  and its import, the passphrase dialogs (\<open>features/clusters/ExportClustersModal.tsx\<close>, \<open>ImportPassphraseModal.tsx\<close>),
  and what a connection test and the transport settings are told about (\<open>TestConnectionResult.tsx\<close>,
  \<open>TransportSecurityWarning.tsx\<close>). The page is a step function on events; what it asks the crypto, the server and the
  browser for are its requests, and their answers are events. A dialog that closed while it waited drops its answer:
  every opening has its own number, and an answer carries the number of the opening that asked.
\<close>

section \<open>Notices\<close>

text \<open>The warnings are named, not spelled out.\<close>

datatype transport_warning = Plain_Without_Tls | Without_Tls | Skip_Verify

definition transport_warning_of :: "jstr \<Rightarrow> bool \<Rightarrow> bool \<Rightarrow> transport_warning option" where
  "transport_warning_of auth_type tls insecure =
     (if \<not> tls then (if auth_type = js ''plain'' then Some Plain_Without_Tls else Some Without_Tls)
      else if insecure then Some Skip_Verify else None)"

definition host_port :: "jstr \<Rightarrow> int \<Rightarrow> jstr" where
  "host_port host port = (if contains_text [58] host then [91] @ host @ [93, 58] @ dec_int port else host @ [58] @ dec_int port)"

definition issue_text :: "broker_issue \<Rightarrow> jstr" where
  "issue_text i = js ''Broker '' @ dec_int (bi_node_id i) @ js '' advertises '' @ host_port (bi_host i) (bi_port i) @
     (if bi_reason i = Issue_Blocked
      then js '', which is not allowed for private clusters (it resolves to a loopback, link-local, multicast or unspecified address).''
      else js '', which did not answer: '' @ bi_error i)"

definition skipped_note :: "int option \<Rightarrow> jstr option" where
  "skipped_note n = (case n of
       None \<Rightarrow> None
     | Some k \<Rightarrow> if k \<le> 0 then None else if k = 1 then Some (js ''1 more broker was not checked.'')
         else Some (dec_int k @ js '' more brokers were not checked.''))"

definition cold_dns_hint :: "connection_error_class option \<Rightarrow> bool" where
  "cold_dns_hint c \<longleftrightarrow> c = Some Ce_Timeout"

datatype test_outcome = Probed cluster_info | Test_Error jstr

datatype test_notice =
    Request_Failed jstr
  | Reachable jstr bool "jstr option"
  | Advertised_Unreachable "jstr list" "jstr option"
  | Unreachable_Because jstr bool

definition test_notice_of :: "test_outcome \<Rightarrow> test_notice" where
  "test_notice_of out = (case out of
       Test_Error m \<Rightarrow> Request_Failed m
     | Probed info \<Rightarrow>
         if cl_reachable info then Reachable (cl_auth_type info) (cl_tls info) (skipped_note (cl_brokers_skipped info))
         else if opt_or (cl_broker_issues info) [] \<noteq> []
         then Advertised_Unreachable (map issue_text (opt_or (cl_broker_issues info) [])) (skipped_note (cl_brokers_skipped info))
         else Unreachable_Because (opt_or (cl_error info) (js ''unknown error'')) (cold_dns_hint (cl_error_class info)))"

section \<open>State\<close>

record export_dialog =
  xd_bundle :: export_bundle
  xd_number :: nat
  xd_passphrase :: jstr
  xd_confirmation :: jstr
  xd_submitted :: bool
  xd_busy :: bool
  xd_failure :: "jstr option"

record import_dialog =
  id_name :: jstr
  id_text :: jstr
  id_number :: nat
  id_passphrase :: jstr
  id_submitted :: bool
  id_busy :: bool
  id_failure :: "jstr option"

record cluster_form =
  cf_state :: form_state
  cf_number :: nat
  cf_testing :: bool
  cf_outcome :: "test_outcome option"

record settings_page =
  pg_store :: store
  pg_shared :: "jstr list"
  pg_access :: bool
  pg_items :: "private_cluster list"
  pg_filter :: jstr
  pg_selected :: "jstr set"
  pg_form :: "cluster_form option"
  pg_delete :: "private_cluster option"
  pg_export :: "export_dialog option"
  pg_import :: "import_dialog option"
  pg_cache :: query_cache
  pg_toast :: "(bool \<times> jstr) option"
  pg_number :: nat

definition settings_initial :: "store \<Rightarrow> jstr list \<Rightarrow> bool \<Rightarrow> query_cache \<Rightarrow> settings_page" where
  "settings_initial s shared access cache = \<lparr>pg_store = s, pg_shared = shared, pg_access = access, pg_items = list_private_clusters s,
     pg_filter = [], pg_selected = {}, pg_form = None, pg_delete = None, pg_export = None, pg_import = None, pg_cache = cache,
     pg_toast = None, pg_number = 0\<rparr>"

text \<open>The list is read again, and the effect drops the selected ids that are gone.\<close>

definition force_refresh :: "settings_page \<Rightarrow> settings_page" where
  "force_refresh st = st\<lparr>pg_items := list_private_clusters (pg_store st),
     pg_selected := pg_selected st \<inter> set (map pc_id (list_private_clusters (pg_store st)))\<rparr>"

definition shown_clusters :: "private_cluster fuse \<Rightarrow> settings_page \<Rightarrow> private_cluster list" where
  "shown_clusters fuse st = fuzzy_results fuse [js ''name'', js ''brokers''] (pg_filter st) (pg_items st)"

definition all_selected :: "private_cluster fuse \<Rightarrow> settings_page \<Rightarrow> bool" where
  "all_selected fuse st \<longleftrightarrow> shown_clusters fuse st \<noteq> [] \<and> list_all (\<lambda>c. pc_id c \<in> pg_selected st) (shown_clusters fuse st)"

definition some_selected :: "private_cluster fuse \<Rightarrow> settings_page \<Rightarrow> bool" where
  "some_selected fuse st \<longleftrightarrow> \<not> all_selected fuse st \<and> list_ex (\<lambda>c. pc_id c \<in> pg_selected st) (shown_clusters fuse st)"

definition toggle_all :: "private_cluster fuse \<Rightarrow> settings_page \<Rightarrow> settings_page" where
  "toggle_all fuse st = st\<lparr>pg_selected :=
     (if all_selected fuse st then pg_selected st - set (map pc_id (shown_clusters fuse st))
      else pg_selected st \<union> set (map pc_id (shown_clusters fuse st)))\<rparr>"

definition toggle_one :: "jstr \<Rightarrow> settings_page \<Rightarrow> settings_page" where
  "toggle_one i st = st\<lparr>pg_selected := (if i \<in> pg_selected st then pg_selected st - {i} else insert i (pg_selected st))\<rparr>"

definition open_export :: "jstr \<Rightarrow> settings_page \<Rightarrow> settings_page" where
  "open_export now_iso st = st\<lparr>pg_number := Suc (pg_number st), pg_export := Some
     \<lparr>xd_bundle = make_export now_iso (if pg_selected st \<noteq> {} then Some (pg_selected st) else None) (pg_store st),
      xd_number = pg_number st, xd_passphrase = [], xd_confirmation = [], xd_submitted = False, xd_busy = False, xd_failure = None\<rparr>\<rparr>"

section \<open>The form\<close>

definition form_complete :: "form_state \<Rightarrow> bool" where
  "form_complete f \<longleftrightarrow> trim (f_name f) \<noteq> [] \<and> trim (f_brokers_csv f) \<noteq> [] \<and>
     (f_auth_type f = js ''none'' \<or> (f_username f \<noteq> [] \<and> f_password f \<noteq> []))"

definition name_taken :: "settings_page \<Rightarrow> form_state \<Rightarrow> bool" where
  "name_taken st f \<longleftrightarrow> trim (f_name f) \<in> set (pg_shared st)"

definition can_save :: "settings_page \<Rightarrow> form_state \<Rightarrow> bool" where
  "can_save st f \<longleftrightarrow> form_complete f \<and> \<not> name_taken st f"

definition test_draft :: "form_state \<Rightarrow> private_cluster" where
  "test_draft f = (case to_private_cluster f of (i, inp) \<Rightarrow>
     with_input inp (opt_default (js ''__draft__'') i) (Some (JsInt 0)) (Some (JsInt 0)))"

definition can_test :: "settings_page \<Rightarrow> cluster_form \<Rightarrow> bool" where
  "can_test st cf \<longleftrightarrow> \<not> cf_testing cf \<and> form_complete (cf_state cf) \<and> pg_access st"

text \<open>\<open>onSave\<close> with \<open>onSaved\<close>: a write the browser refuses is reported as saved all the same.\<close>

definition save_form :: "int \<Rightarrow> jstr \<Rightarrow> bool \<Rightarrow> form_state \<Rightarrow> settings_page \<Rightarrow> settings_page" where
  "save_form now fresh ok f st =
     (case to_private_cluster f of (i, inp) \<Rightarrow>
       (case upsert_private_cluster now fresh ok i inp (pg_store st) of (saved, s) \<Rightarrow>
          force_refresh (st\<lparr>pg_store := s, pg_cache := remove_private_cluster_queries (pc_id saved) (pg_cache st), pg_form := None,
            pg_toast := Some (True, js ''Saved '' @ [34] @ ci_name saved @ [34])\<rparr>)))"

definition delete_cluster :: "bool \<Rightarrow> private_cluster \<Rightarrow> settings_page \<Rightarrow> settings_page" where
  "delete_cluster ok c st = force_refresh (st\<lparr>pg_store := delete_private_cluster ok (pc_id c) (pg_store st),
     pg_cache := remove_private_cluster_queries (pc_id c) (pg_cache st), pg_delete := None, pg_toast := Some (True, js ''Cluster removed'')\<rparr>)"

section \<open>Import\<close>

text \<open>The definitions whose text differs after the import, in their order before it.\<close>

definition changed_by_import :: "store \<Rightarrow> store \<Rightarrow> private_cluster list" where
  "changed_by_import before after =
     (let texts = foldl (\<lambda>m c. mset_key (pc_id c) (stringify (cluster_json c)) m) [] (list_private_clusters after)
      in filter (\<lambda>c. mget texts (pc_id c) \<noteq> Some (stringify (cluster_json c))) (list_private_clusters before))"

definition imported_text :: "import_result \<Rightarrow> jstr" where
  "imported_text r = js ''Imported: '' @ dec (ir_added r) @ js '' added, '' @ dec (ir_updated r) @ js '' updated, '' @
     dec (ir_skipped r) @ js '' skipped''"

definition apply_import :: "(jstr \<Rightarrow> json option) \<Rightarrow> int \<Rightarrow> bool \<Rightarrow> jstr \<Rightarrow> settings_page \<Rightarrow> settings_page" where
  "apply_import parse now ok t st =
     (case import_bundle now ok (parse t) (pg_store st) of
        (Inl m, s) \<Rightarrow> st\<lparr>pg_store := s, pg_toast := Some (False, js ''Import failed: '' @ m)\<rparr>
      | (Inr r, s) \<Rightarrow> force_refresh (st\<lparr>pg_store := s,
          pg_cache := fold (\<lambda>c. remove_private_cluster_queries (pc_id c)) (changed_by_import (pg_store st) s) (pg_cache st),
          pg_toast := Some (True, imported_text r)\<rparr>))"

definition import_file :: "(jstr \<Rightarrow> json option) \<Rightarrow> int \<Rightarrow> bool \<Rightarrow> jstr \<Rightarrow> jstr + jstr \<Rightarrow> settings_page \<Rightarrow> settings_page" where
  "import_file parse now ok name content st =
     (case content of
        Inl m \<Rightarrow> st\<lparr>pg_toast := Some (False, js ''Import failed: '' @ m)\<rparr>
      | Inr t \<Rightarrow>
          if is_encrypted_export parse t
          then st\<lparr>pg_number := Suc (pg_number st), pg_import := Some \<lparr>id_name = name, id_text = t, id_number = pg_number st,
             id_passphrase = [], id_submitted = False, id_busy = False, id_failure = None\<rparr>\<rparr>
          else apply_import parse now ok t st)"

section \<open>Events\<close>

datatype settings_request =
    Run_Test nat private_cluster
  | Run_Encrypt nat jstr jstr
  | Run_Decrypt nat jstr jstr
  | Download_File jstr

datatype settings_event =
    Se_Env "jstr list" bool
  | Se_Storage store
  | Se_Filter jstr
  | Se_New
  | Se_Edit private_cluster
  | Se_Field form_state
  | Se_Close_Form
  | Se_Test
  | Se_Tested nat test_outcome
  | Se_Save int jstr bool
  | Se_Toggle private_cluster
  | Se_Toggle_All
  | Se_Export jstr
  | Se_Export_Fields jstr jstr
  | Se_Encrypt
  | Se_Encrypted nat "jstr + jstr"
  | Se_Close_Export
  | Se_File int bool jstr "jstr + jstr"
  | Se_Import_Passphrase jstr
  | Se_Decrypt
  | Se_Decrypted int bool nat "jstr + jstr"
  | Se_Close_Import
  | Se_Trash private_cluster
  | Se_Dismiss
  | Se_Confirm bool

definition form_open :: "form_state \<Rightarrow> settings_page \<Rightarrow> settings_page" where
  "form_open f st = st\<lparr>pg_number := Suc (pg_number st),
     pg_form := Some \<lparr>cf_state = f, cf_number = pg_number st, cf_testing = False, cf_outcome = None\<rparr>\<rparr>"

definition export_plaintext :: "export_dialog \<Rightarrow> jstr" where
  "export_plaintext d = stringify2 0 (bundle_json (xd_bundle d))"

definition export_ready :: "(jstr \<Rightarrow> jstr) \<Rightarrow> export_dialog \<Rightarrow> bool" where
  "export_ready nfc d \<longleftrightarrow> is_passphrase_long_enough nfc (xd_passphrase d) \<and> xd_confirmation d = xd_passphrase d \<and> \<not> xd_busy d"

definition form_step :: "settings_page \<Rightarrow> cluster_form \<Rightarrow> settings_event \<Rightarrow> settings_request option \<times> settings_page" where
  "form_step st cf e =
     (case e of
        Se_Field f \<Rightarrow> (None, if f_id f = f_id (cf_state cf) then st\<lparr>pg_form := Some (cf\<lparr>cf_state := f\<rparr>)\<rparr> else st)
      | Se_Close_Form \<Rightarrow> (None, st\<lparr>pg_form := None\<rparr>)
      | Se_Test \<Rightarrow>
          if can_test st cf
          then (Some (Run_Test (cf_number cf) (test_draft (cf_state cf))), st\<lparr>pg_form := Some (cf\<lparr>cf_testing := True, cf_outcome := None\<rparr>)\<rparr>)
          else (None, st)
      | Se_Tested n out \<Rightarrow>
          (None, if n = cf_number cf then st\<lparr>pg_form := Some (cf\<lparr>cf_testing := False, cf_outcome := Some out\<rparr>)\<rparr> else st)
      | Se_Save now fresh ok \<Rightarrow> (None, if can_save st (cf_state cf) then save_form now fresh ok (cf_state cf) st else st)
      | _ \<Rightarrow> (None, st))"

definition export_step :: "(jstr \<Rightarrow> jstr) \<Rightarrow> settings_page \<Rightarrow> export_dialog \<Rightarrow> settings_event \<Rightarrow> settings_request option \<times> settings_page" where
  "export_step nfc st d e =
     (case e of
        Se_Export_Fields p c \<Rightarrow> (None, st\<lparr>pg_export := Some (d\<lparr>xd_passphrase := p, xd_confirmation := c\<rparr>)\<rparr>)
      | Se_Encrypt \<Rightarrow>
          if export_ready nfc d
          then (Some (Run_Encrypt (xd_number d) (export_plaintext d) (xd_passphrase d)),
                st\<lparr>pg_export := Some (d\<lparr>xd_submitted := True, xd_busy := True, xd_failure := None\<rparr>)\<rparr>)
          else (None, st\<lparr>pg_export := Some (d\<lparr>xd_submitted := True\<rparr>)\<rparr>)
      | Se_Encrypted n r \<Rightarrow>
          if n \<noteq> xd_number d \<or> \<not> xd_busy d then (None, st)
          else (case r of
              Inl m \<Rightarrow> (None, st\<lparr>pg_export := Some (d\<lparr>xd_failure := Some m, xd_busy := False\<rparr>)\<rparr>)
            | Inr file \<Rightarrow> (Some (Download_File file), st\<lparr>pg_export := None\<rparr>))
      | Se_Close_Export \<Rightarrow> (None, st\<lparr>pg_export := None\<rparr>)
      | _ \<Rightarrow> (None, st))"

definition import_step :: "(jstr \<Rightarrow> json option) \<Rightarrow> settings_page \<Rightarrow> import_dialog \<Rightarrow> settings_event \<Rightarrow> settings_request option \<times> settings_page" where
  "import_step parse st d e =
     (case e of
        Se_Import_Passphrase p \<Rightarrow> (None, st\<lparr>pg_import := Some (d\<lparr>id_passphrase := p\<rparr>)\<rparr>)
      | Se_Decrypt \<Rightarrow>
          if id_passphrase d = [] \<or> id_busy d then (None, st\<lparr>pg_import := Some (d\<lparr>id_submitted := True\<rparr>)\<rparr>)
          else (Some (Run_Decrypt (id_number d) (id_text d) (id_passphrase d)),
                st\<lparr>pg_import := Some (d\<lparr>id_submitted := True, id_busy := True, id_failure := None\<rparr>)\<rparr>)
      | Se_Decrypted now ok n r \<Rightarrow>
          (None, if n \<noteq> id_number d \<or> \<not> id_busy d then st
             else case r of
               Inl m \<Rightarrow> st\<lparr>pg_import := Some (d\<lparr>id_failure := Some m, id_busy := False\<rparr>)\<rparr>
             | Inr t \<Rightarrow> apply_import parse now ok t (st\<lparr>pg_import := None\<rparr>))
      | Se_Close_Import \<Rightarrow> (None, st\<lparr>pg_import := None\<rparr>)
      | _ \<Rightarrow> (None, st))"

text \<open>A click on the page needs all dialogs closed: they lie over it.\<close>

definition page_step :: "private_cluster fuse \<Rightarrow> (jstr \<Rightarrow> json option) \<Rightarrow> settings_page \<Rightarrow> settings_event \<Rightarrow> settings_page" where
  "page_step fuse parse st e =
     (case e of
        Se_Filter q \<Rightarrow> st\<lparr>pg_filter := q\<rparr>
      | Se_New \<Rightarrow> if pg_access st then form_open empty_form st else st
      | Se_Edit c \<Rightarrow> if c \<in> set (shown_clusters fuse st) then form_open (from_private_cluster c) st else st
      | Se_Toggle c \<Rightarrow> if c \<in> set (shown_clusters fuse st) then toggle_one (pc_id c) st else st
      | Se_Toggle_All \<Rightarrow> toggle_all fuse st
      | Se_Export now_iso \<Rightarrow> if pg_items st \<noteq> [] then open_export now_iso st else st
      | Se_File now ok name content \<Rightarrow> if pg_access st then import_file parse now ok name content st else st
      | Se_Trash c \<Rightarrow> if c \<in> set (shown_clusters fuse st) then st\<lparr>pg_delete := Some c\<rparr> else st
      | _ \<Rightarrow> st)"

definition dialog_step :: "private_cluster fuse \<Rightarrow> (jstr \<Rightarrow> json option) \<Rightarrow> (jstr \<Rightarrow> jstr) \<Rightarrow> settings_page \<Rightarrow> settings_event \<Rightarrow>
    settings_request option \<times> settings_page" where
  "dialog_step fuse parse nfc st e =
     (case (pg_form st, pg_export st, pg_import st, pg_delete st) of
        (Some cf, _) \<Rightarrow> form_step st cf e
      | (None, Some d, _) \<Rightarrow> export_step nfc st d e
      | (None, None, Some d, _) \<Rightarrow> import_step parse st d e
      | (None, None, None, Some c) \<Rightarrow>
          (None, case e of Se_Dismiss \<Rightarrow> st\<lparr>pg_delete := None\<rparr> | Se_Confirm ok \<Rightarrow> delete_cluster ok c st | _ \<Rightarrow> st)
      | (None, None, None, None) \<Rightarrow> (None, page_step fuse parse st e))"

definition settings_step :: "private_cluster fuse \<Rightarrow> (jstr \<Rightarrow> json option) \<Rightarrow> (jstr \<Rightarrow> jstr) \<Rightarrow> settings_page \<Rightarrow> settings_event \<Rightarrow>
    settings_request option \<times> settings_page" where
  "settings_step fuse parse nfc st e =
     (case e of
        Se_Env shared access \<Rightarrow> (None, st\<lparr>pg_shared := shared, pg_access := access\<rparr>)
      | Se_Storage s \<Rightarrow> (None, force_refresh (st\<lparr>pg_store := s\<rparr>))
      | _ \<Rightarrow> dialog_step fuse parse nfc st e)"

section \<open>What leaves the page\<close>

text \<open>
  A file that is downloaded is an encrypted one, given that the answers of the crypto are; a connection test sends the
  complete form and only while the server allows private clusters.
\<close>

definition settings_allowed :: "(jstr \<Rightarrow> bool) \<Rightarrow> settings_event \<Rightarrow> bool" where
  "settings_allowed enc e \<longleftrightarrow> (\<forall>n file. e = Se_Encrypted n (Inr file) \<longrightarrow> enc file)"

definition settings_ok :: "(jstr \<Rightarrow> jstr) \<Rightarrow> (jstr \<Rightarrow> bool) \<Rightarrow> settings_page \<Rightarrow> settings_request \<Rightarrow> bool" where
  "settings_ok nfc enc st r \<longleftrightarrow> (case r of
       Run_Test n c \<Rightarrow> pg_access st \<and> (\<exists>cf. pg_form st = Some cf \<and> form_complete (cf_state cf) \<and> c = test_draft (cf_state cf))
     | Run_Encrypt n t pass \<Rightarrow> is_passphrase_long_enough nfc pass \<and>
         (\<exists>d. pg_export st = Some d \<and> t = export_plaintext d \<and> xd_passphrase d = pass \<and> xd_confirmation d = pass)
     | Run_Decrypt n t pass \<Rightarrow> pass \<noteq> [] \<and> (\<exists>d. pg_import st = Some d \<and> t = id_text d \<and> id_passphrase d = pass)
     | Download_File file \<Rightarrow> enc file \<and> (\<exists>d. pg_export st = Some d \<and> xd_busy d))"

text \<open>At most one dialog is open.\<close>

definition one_dialog :: "settings_page \<Rightarrow> bool" where
  "one_dialog st \<longleftrightarrow>
     (pg_form st = None \<or> (pg_export st = None \<and> pg_import st = None \<and> pg_delete st = None)) \<and>
     (pg_export st = None \<or> (pg_import st = None \<and> pg_delete st = None)) \<and> (pg_import st = None \<or> pg_delete st = None)"

lemma force_refresh_dialogs [simp]: "pg_form (force_refresh st) = pg_form st" "pg_export (force_refresh st) = pg_export st"
    "pg_import (force_refresh st) = pg_import st" "pg_delete (force_refresh st) = pg_delete st"
  by (simp_all add: force_refresh_def)

lemma apply_import_dialogs [simp]: "pg_form (apply_import parse now ok t st) = pg_form st" "pg_export (apply_import parse now ok t st) = pg_export st"
    "pg_import (apply_import parse now ok t st) = pg_import st" "pg_delete (apply_import parse now ok t st) = pg_delete st"
  by (simp_all add: apply_import_def split: prod.split sum.split)

lemma save_form_dialogs [simp]: "pg_form (save_form now fresh ok f st) = None" "pg_export (save_form now fresh ok f st) = pg_export st"
    "pg_import (save_form now fresh ok f st) = pg_import st" "pg_delete (save_form now fresh ok f st) = pg_delete st"
  by (simp_all add: save_form_def split: prod.split)

lemma form_step_dialogs: "one_dialog st \<Longrightarrow> pg_form st = Some cf \<Longrightarrow> one_dialog (snd (form_step st cf e))"
  by (cases e) (auto simp: one_dialog_def form_step_def)

lemma export_step_dialogs: "one_dialog st \<Longrightarrow> pg_export st = Some d \<Longrightarrow> one_dialog (snd (export_step nfc st d e))"
  by (cases e) (auto simp: one_dialog_def export_step_def split: sum.splits)

lemma import_step_dialogs: "one_dialog st \<Longrightarrow> pg_import st = Some d \<Longrightarrow> one_dialog (snd (import_step parse st d e))"
  by (cases e) (auto simp: one_dialog_def import_step_def split: sum.splits)

lemma page_step_dialogs:
  "pg_form st = None \<Longrightarrow> pg_export st = None \<Longrightarrow> pg_import st = None \<Longrightarrow> pg_delete st = None \<Longrightarrow> one_dialog (page_step fuse parse st e)"
  by (cases e) (auto simp: one_dialog_def page_step_def form_open_def open_export_def toggle_one_def toggle_all_def import_file_def
    split: sum.splits)

lemma dialog_step_dialogs: "one_dialog st \<Longrightarrow> one_dialog (snd (dialog_step fuse parse nfc st e))"
proof (cases "pg_form st")
  case None
  assume o: "one_dialog st"
  show ?thesis
  proof (cases "pg_export st")
    case None
    note f = \<open>pg_form st = None\<close> None
    show ?thesis
    proof (cases "pg_import st")
      case None
      show ?thesis
        by (cases "pg_delete st") (use o f None page_step_dialogs in \<open>auto simp: dialog_step_def one_dialog_def delete_cluster_def split: settings_event.split\<close>)
    qed (use o f import_step_dialogs in \<open>simp add: dialog_step_def\<close>)
  qed (use o None export_step_dialogs in \<open>simp add: dialog_step_def\<close>)
qed (simp add: dialog_step_def form_step_dialogs)

lemma settings_step_dialogs: "one_dialog st \<Longrightarrow> one_dialog (snd (settings_step fuse parse nfc st e))"
proof -
  assume o: "one_dialog st"
  then have "one_dialog (st\<lparr>pg_shared := x, pg_access := y\<rparr>)" "one_dialog (force_refresh (st\<lparr>pg_store := z\<rparr>))" for x y z
    by (simp_all add: one_dialog_def)
  with dialog_step_dialogs [OF o] show ?thesis by (cases e) (simp_all add: settings_step_def)
qed

lemma dialog_step_ok: "settings_allowed enc e \<Longrightarrow> fst (dialog_step fuse parse nfc st e) = Some r \<Longrightarrow> settings_ok nfc enc st r"
  by (cases e) (auto simp: dialog_step_def form_step_def export_step_def import_step_def settings_ok_def settings_allowed_def can_test_def
    export_ready_def split: option.splits if_splits sum.splits)

lemma settings_step_ok: "settings_allowed enc e \<Longrightarrow> fst (settings_step fuse parse nfc st e) = Some r \<Longrightarrow> settings_ok nfc enc st r"
  by (cases e) (simp_all add: settings_step_def dialog_step_ok)

interpretation settings: sender "settings_step fuse parse nfc" one_dialog "settings_allowed enc" "settings_ok nfc enc"
  for fuse parse nfc enc
  by unfold_locales (simp_all add: settings_step_dialogs settings_step_ok)

section \<open>What an export contains\<close>

lemma open_export_clusters:
  "xb_clusters (xd_bundle (the (pg_export (open_export now st)))) =
     filter (\<lambda>c. pg_selected st = {} \<or> pc_id c \<in> pg_selected st) (safe_read (st_stored (pg_store st)))"
  by (simp add: open_export_def make_export_def)


definition sample_settings :: settings_page where
  "sample_settings = (settings_initial \<lparr>st_stored = Absent, st_session = [], st_events = 0\<rparr> [] True [])
     \<lparr>pg_export := Some \<lparr>xd_bundle = \<lparr>xb_schema = bundle_schema, xb_exported_at = [], xb_clusters = []\<rparr>, xd_number = 0,
        xd_passphrase = js ''correct horse'', xd_confirmation = js ''correct horse'', xd_submitted = False, xd_busy = False, xd_failure = None\<rparr>\<rparr>"


text \<open>
  The checkbox of the header says whether all clusters the filter shows are selected, and the export then takes the
  selected ones of all clusters. So a cluster selected before the filter was typed is exported although the filter
  hides it, while the checkbox shows exactly the visible clusters as selected.
\<close>

lemma export_keeps_hidden_selection:
  assumes "pg_form st = None \<and> pg_export st = None \<and> pg_import st = None \<and> pg_delete st = None"
    "a \<in> set (safe_read (st_stored (pg_store st)))" "pc_id a \<in> pg_selected st" "pg_items st \<noteq> []"
    "shown_clusters fuse (st\<lparr>pg_filter := q\<rparr>) = [b]" "pc_id b \<noteq> pc_id a" "pc_id b \<notin> pg_selected st"
  shows "let st' = after_events (settings_step fuse parse nfc) st [Se_Filter q, Se_Toggle_All, Se_Export now]
    in all_selected fuse st' \<and> shown_clusters fuse st' = [b] \<and> a \<in> set (xb_clusters (xd_bundle (the (pg_export st'))))"
proof -
  let ?s1 = "st\<lparr>pg_filter := q\<rparr>"
  let ?s2 = "?s1\<lparr>pg_selected := insert (pc_id b) (pg_selected st)\<rparr>"
  have 1: "snd (settings_step fuse parse nfc st (Se_Filter q)) = ?s1"
    using assms(1) by (simp add: settings_step_def dialog_step_def page_step_def)
  have "toggle_all fuse ?s1 = ?s2" using assms(5,7) by (simp add: toggle_all_def all_selected_def)
  then have 2: "snd (settings_step fuse parse nfc ?s1 Se_Toggle_All) = ?s2"
    using assms(1) by (simp add: settings_step_def dialog_step_def page_step_def)
  have 3: "snd (settings_step fuse parse nfc ?s2 (Se_Export now)) = open_export now ?s2"
    using assms(1,4) by (simp add: settings_step_def dialog_step_def page_step_def)
  have shown: "shown_clusters fuse (open_export now ?s2) = [b]"
    using assms(5) by (simp add: shown_clusters_def open_export_def)
  have "a \<in> set (xb_clusters (xd_bundle (the (pg_export (open_export now ?s2)))))"
    using assms(2,3) by (simp add: open_export_clusters)
  moreover have "all_selected fuse (open_export now ?s2)" using shown by (simp add: all_selected_def open_export_def)
  ultimately show ?thesis using shown by (simp add: 1 2 3 Let_def)
qed

definition sample_private :: "jstr \<Rightarrow> private_cluster" where
  "sample_private i = \<lparr>ci_name = i, ci_is_prod = None, ci_brokers = [], ci_auth = \<lparr>au_type = js ''none'', au_username = None, au_password = None\<rparr>,
     ci_tls = None, ci_registry = None, ci_remember = None, pc_id = i, pc_created = None, pc_updated = None\<rparr>"

lemma export_keeps_hidden_selection_witness:
  "\<exists>st. let st' = after_events (settings_step (\<lambda>_ _ items. [(sample_private (js ''b''), [])]) (\<lambda>_. None) id) st [Se_Filter (js ''b''), Se_Toggle_All, Se_Export []]
    in shown_clusters (\<lambda>_ _ items. [(sample_private (js ''b''), [])]) st' = [sample_private (js ''b'')] \<and>
       sample_private (js ''a'') \<in> set (xb_clusters (xd_bundle (the (pg_export st'))))"
proof -
  let ?fuse = "\<lambda>_ _ items. [(sample_private (js ''b''), [])]" and ?items = "[sample_private (js ''a''), sample_private (js ''b'')]"
  let ?st = "(settings_initial \<lparr>st_stored = Stored (JsArray (map cluster_json ?items)), st_session = [], st_events = 0\<rparr> [] True [])
     \<lparr>pg_items := ?items, pg_selected := {js ''a''}\<rparr>"
  have "read_cluster (cluster_json (sample_private i)) = sample_private i \<and> is_private_cluster (cluster_json (sample_private i))" for i
    using read_cluster_json [of "sample_private i"] is_private_cluster_json [of "sample_private i"]
    by (simp add: sample_private_def)
  then have "sample_private (js ''a'') \<in> set (safe_read (st_stored (pg_store ?st)))"
    by (simp add: settings_initial_def safe_read_def)
  moreover have "trim (js ''b'') \<noteq> []" by (simp add: js_def trim_def trim_start_def trim_end_def js_space_def)
  then have "shown_clusters ?fuse (?st\<lparr>pg_filter := js ''b''\<rparr>) = [sample_private (js ''b'')]"
    by (simp add: shown_clusters_def fuzzy_results_def)
  ultimately show ?thesis
    using export_keeps_hidden_selection [of ?st "sample_private (js ''a'')" ?fuse "js ''b''" "sample_private (js ''b'')" "\<lambda>_. None" id "[]"]
    by (intro exI [of _ ?st]) (simp add: Let_def settings_initial_def sample_private_def)
qed

section \<open>Cached data after an import\<close>

lemma fold_remove: "set (fold (\<lambda>c. remove_private_cluster_queries (pc_id c)) cs qc) =
    {(k, v) \<in> set qc. \<forall>c\<in>set cs. \<not> list_ex (is_private_cluster_key (pc_id c)) k}"
  by (induction cs arbitrary: qc) (auto simp: remove_private_cluster_queries_def)

lemma mget_texts: "mget (foldl (\<lambda>m c. mset_key (pc_id c) (f c) m) m cs) i =
    (case find (\<lambda>c. pc_id c = i) (rev cs) of Some c \<Rightarrow> Some (f c) | None \<Rightarrow> mget m i)"
  by (induction cs rule: rev_induct) (auto simp: map_simps)

lemma found_member: "find P (rev xs) = Some x \<Longrightarrow> x \<in> set xs" "find P (rev xs) = Some x \<Longrightarrow> P x"
  by (induction xs rule: rev_induct) (auto split: if_splits)

lemma changed_by_import_iff:
  assumes "distinct (map pc_id (list_private_clusters after))"
  shows "c \<in> set (changed_by_import before after) \<longleftrightarrow> c \<in> set (list_private_clusters before) \<and>
    \<not> (\<exists>d\<in>set (list_private_clusters after). pc_id d = pc_id c \<and> stringify (cluster_json d) = stringify (cluster_json c))"
proof -
  have "mget (foldl (\<lambda>m c. mset_key (pc_id c) (stringify (cluster_json c)) m) [] (list_private_clusters after)) i = Some t \<longleftrightarrow>
      (\<exists>d\<in>set (list_private_clusters after). pc_id d = i \<and> stringify (cluster_json d) = t)" for i t
  proof (cases "find (\<lambda>c. pc_id c = i) (rev (list_private_clusters after))")
    case None
    moreover have "\<not> (\<exists>d\<in>set (list_private_clusters after). pc_id d = i)" using None by (auto simp: find_None_iff)
    ultimately show ?thesis by (auto simp: mget_texts map_simps)
  next
    case (Some d)
    then have f: "find (\<lambda>c. pc_id c = i) (rev (list_private_clusters after)) = Some d" .
    then have d: "d \<in> set (list_private_clusters after)" "pc_id d = i" using found_member(1) [OF f] found_member(2) [OF f] by simp_all
    have inj: "inj_on pc_id (set (list_private_clusters after))" using assms by (simp add: distinct_map)
    have one: "e = d" if "e \<in> set (list_private_clusters after)" "pc_id e = i" for e
      using inj_onD [OF inj _ that(1) d(1)] that(2) d(2) by simp
    have "mget (foldl (\<lambda>m c. mset_key (pc_id c) (stringify (cluster_json c)) m) [] (list_private_clusters after)) i =
        Some (stringify (cluster_json d))" by (simp only: mget_texts f option.case)
    moreover have "(\<exists>d\<in>set (list_private_clusters after). pc_id d = i \<and> stringify (cluster_json d) = t) \<longleftrightarrow> stringify (cluster_json d) = t"
      using d one by blast
    ultimately show ?thesis by simp
  qed
  then show ?thesis by (auto simp: changed_by_import_def Let_def)
qed

lemma import_distinct:
  assumes "distinct (ids_of st)" "import_bundle now ok raw st = (Inr r, s)"
  shows "distinct (map pc_id (list_private_clusters s))"
proof (cases ok)
  case True
  let ?start = "(index_by_id (read_all st), \<lparr>ir_added = 0, ir_updated = 0, ir_skipped = 0\<rparr>)"
  obtain items m where m: "fold (import_item now) items ?start = (m, r)" "s = safe_write True (map snd m) st"
    using assms(2) True by (auto simp: import_bundle_def Let_def split: option.splits if_splits json.splits prod.splits)
  then have s: "s = safe_write True (map snd (fst (fold (import_item now) items ?start))) st" by simp
  have d: "distinct (map pc_id (read_all st))" using assms(1) by (simp add: read_all_ids)
  have "keyed (fst ?start)" using d by (simp add: index_by_id_list [OF d] keyed_def mkeys_def comp_def)
  then have "keyed (fst (fold (import_item now) items ?start))" using import_fold by blast
  then have "distinct (map pc_id (map snd (fst (fold (import_item now) items ?start))))"
    by (simp add: keyed_def comp_def)
  then show ?thesis using safe_write_view(2) [of "map snd (fst (fold (import_item now) items ?start))" st]
    by (simp add: s list_private_clusters_def read_all_ids)
next
  case False
  then have "st_stored s = st_stored st" using assms(2)
    by (auto simp: import_bundle_def safe_write_def Let_def split: option.splits if_splits json.splits prod.splits)
  then show ?thesis using assms(1) by (simp add: list_private_clusters_def read_all_ids ids_of_def)
qed

text \<open>
  C33: After an import no cached query is left of a private cluster whose definition or passwords it changed or removed,
  every other cached query stays, and a failed import changes nothing but the message.
\<close>

theorem import_drops_stale_queries:
  assumes "distinct (ids_of (pg_store st))"
  shows "case fst (import_bundle now ok (parse t) (pg_store st)) of
      Inl m \<Rightarrow> apply_import parse now ok t st = st\<lparr>pg_toast := Some (False, js ''Import failed: '' @ m)\<rparr>
    | Inr _ \<Rightarrow> let st' = apply_import parse now ok t st in
        pg_items st' = list_private_clusters (pg_store st') \<and>
        (\<forall>k v. (k, v) \<in> set (pg_cache st') \<longleftrightarrow> (k, v) \<in> set (pg_cache st) \<and>
          (\<forall>c\<in>set (list_private_clusters (pg_store st)). list_ex (is_private_cluster_key (pc_id c)) k \<longrightarrow>
             (\<exists>d\<in>set (list_private_clusters (pg_store st')). pc_id d = pc_id c \<and> stringify (cluster_json d) = stringify (cluster_json c))))"
proof (cases "fst (import_bundle now ok (parse t) (pg_store st))")
  case (Inl m)
  then have "import_bundle now ok (parse t) (pg_store st) = (Inl m, pg_store st)"
    by (auto simp: import_bundle_def Let_def split: option.splits if_splits json.splits prod.splits)
  then show ?thesis by (simp add: apply_import_def)
next
  case (Inr r)
  obtain s where i: "import_bundle now ok (parse t) (pg_store st) = (Inr r, s)" using Inr by (metis prod.collapse)
  have s: "pg_store (apply_import parse now ok t st) = s" by (simp add: apply_import_def i force_refresh_def)
  have "pg_cache (apply_import parse now ok t st) =
      fold (\<lambda>c. remove_private_cluster_queries (pc_id c)) (changed_by_import (pg_store st) s) (pg_cache st)"
    by (simp add: apply_import_def i force_refresh_def)
  moreover have "pg_items (apply_import parse now ok t st) = list_private_clusters s"
    by (simp add: apply_import_def i force_refresh_def)
  ultimately show ?thesis using import_distinct [OF assms i]
    by (auto simp: i Let_def s fold_remove changed_by_import_iff)
qed

lemma import_drops_stale_queries_witness:
  "let st = settings_initial sample_store [] True [([JsString (js ''topics''), JsString (js ''shared'')], False)];
       st' = apply_import (\<lambda>_. Some sample_bundle) 5 True [] st
   in pg_items st' = list_private_clusters (pg_store st') \<and> ([JsString (js ''topics''), JsString (js ''shared'')], False) \<in> set (pg_cache st')"
proof -
  let ?st = "settings_initial sample_store [] True [([JsString (js ''topics''), JsString (js ''shared'')], False)]"
  have d: "distinct (ids_of (pg_store ?st))" by (simp add: settings_initial_def read_all_ids [symmetric] sample_view)
  have ps: "pg_store ?st = sample_store" by (simp add: settings_initial_def)
  have b: "sample_bundle = JsObject [(js ''schema'', JsString bundle_schema), (js ''exported_at'', JsString (js ''now'')),
      (js ''clusters'', JsArray (map cluster_json (safe_read (st_stored sample_store))))]"
    by (simp add: sample_bundle_def bundle_json_def make_export_def)
  have "\<exists>r. fst (import_bundle 5 True (Some sample_bundle) (pg_store ?st)) = Inr r"
    unfolding ps by (simp add: import_bundle_def b jprop_def Let_def case_prod_beta)
  moreover have "([JsString (js ''topics''), JsString (js ''shared'')], False) \<in> set (pg_cache ?st)" by (simp add: settings_initial_def)
  moreover have "\<not> list_ex (is_private_cluster_key i) [JsString (js ''topics''), JsString (js ''shared'')]" for i
    by (simp add: is_private_cluster_key_def is_object_def)
  ultimately show ?thesis using import_drops_stale_queries [OF d, where parse = "\<lambda>_. Some sample_bundle" and now = 5 and ok = True and t = "[]"]
    by (auto simp: Let_def)
qed

text \<open>A refused write is reported as saved; a list of separators alone counts as brokers.\<close>

lemma save_reported_without_write:
  assumes "pg_form st = Some cf" "can_save st (cf_state cf)"
  shows "\<exists>m. pg_toast (snd (settings_step fuse parse nfc st (Se_Save now fresh False))) = Some (True, js ''Saved '' @ m)"
    "st_stored (pg_store (snd (settings_step fuse parse nfc st (Se_Save now fresh False)))) = st_stored (pg_store st)"
  using assms
  by (simp_all add: settings_step_def dialog_step_def form_step_def save_form_def force_refresh_def upsert_private_cluster_def
    safe_write_def Let_def split: prod.split option.split)

lemma separators_count_as_brokers:
  "form_complete (f\<lparr>f_brokers_csv := js '','', f_name := js ''c'', f_auth_type := js ''none''\<rparr>)" "form_brokers (js '','') = []"
  by (simp_all add: form_complete_def form_brokers_def js_def trim_def trim_start_def trim_end_def js_space_def)

end
