(* ===== verification/GroupsPage.thy ===== *)
theory GroupsPage
  imports ResetOffsets Fuzzy DataTable Format
begin

text \<open>
  The consumer group pages: the list with its counts and filter and the actions of the selected group
  (\<open>frontend/src/routes/clusters.$cluster.groups.index.tsx\<close>), the badges (\<open>features/groups/StateBadge.tsx\<close>,
  \<open>LagBadge.tsx\<close>), and the dialog that creates a group for a topic (\<open>features/groups/CreateGroupModal.tsx\<close>). The states
  of a group are compared in lower case; of the compared words no letter is the lower case of a non-ASCII one.
\<close>

section \<open>The list\<close>

record group_info =
  gi_group_id :: jstr
  gi_state :: jstr
  gi_coordinator_id :: int
  gi_members :: int
  gi_topics :: "int option"
  gi_lag :: int
  gi_lag_known :: bool
  gi_error :: "jstr option"

definition state_is :: "string \<Rightarrow> jstr \<Rightarrow> bool" where
  "state_is w s \<longleftrightarrow> ascii_lower s = js w"

record group_counts =
  gc_stable :: nat
  gc_rebalancing :: nat
  gc_dead :: nat
  gc_empty :: nat

definition count_groups :: "group_info list \<Rightarrow> group_counts" where
  "count_groups gs = (let n = (\<lambda>p. length (filter (\<lambda>g. p (gi_state g)) gs)) in
     \<lparr>gc_stable = n (state_is ''stable''), gc_rebalancing = n (\<lambda>s. contains_text (js ''rebalance'') (ascii_lower s)),
      gc_dead = n (state_is ''dead''), gc_empty = n (state_is ''empty'')\<rparr>)"

definition lagging_groups :: "bool \<Rightarrow> group_info list option \<Rightarrow> group_info list" where
  "lagging_groups lag_only gs = (case gs of
       None \<Rightarrow> [] | Some xs \<Rightarrow> if lag_only then filter (\<lambda>g. gi_lag_known g \<and> 0 < gi_lag g) xs else xs)"

definition listed_groups :: "group_info fuse \<Rightarrow> jstr \<Rightarrow> bool \<Rightarrow> group_info list option \<Rightarrow> group_info list" where
  "listed_groups fuse q lag_only gs = fuzzy_results fuse [js ''group_id''] q (lagging_groups lag_only gs)"

text \<open>The columns with their sort values; an unknown lag sorts below every known one.\<close>

definition group_columns :: "group_info column list" where
  "group_columns =
     [\<lparr>co_id = js ''group_id'', co_sort_value = Some (\<lambda>g. Some (Sv_Text (gi_group_id g))), co_primary = False\<rparr>,
      \<lparr>co_id = js ''state'', co_sort_value = Some (\<lambda>g. Some (Sv_Text (gi_state g))), co_primary = False\<rparr>,
      \<lparr>co_id = js ''members'', co_sort_value = Some (\<lambda>g. Some (Sv_Number (of_int (gi_members g)))), co_primary = False\<rparr>,
      \<lparr>co_id = js ''topics'', co_sort_value = Some (\<lambda>g. Some (Sv_Number (of_int (opt_or (gi_topics g) 0)))), co_primary = False\<rparr>,
      \<lparr>co_id = js ''lag'', co_sort_value = Some (\<lambda>g. Some (Sv_Number (if gi_lag_known g then of_int (gi_lag g) else -1))), co_primary = False\<rparr>,
      \<lparr>co_id = js ''coordinator'', co_sort_value = Some (\<lambda>g. Some (Sv_Number (of_int (gi_coordinator_id g)))), co_primary = False\<rparr>]"

definition unknown_lag_reason :: "group_info \<Rightarrow> jstr" where
  "unknown_lag_reason g = opt_or (gi_error g) (js ''lag unavailable'')"

definition group_row_click :: "group_info \<Rightarrow> jstr option \<Rightarrow> jstr option" where
  "group_row_click g selected = (if selected = Some (gi_group_id g) then None else Some (gi_group_id g))"

datatype group_state_key = Gs_Stable | Gs_Empty | Gs_Preparing | Gs_Completing | Gs_Dead | Gs_Unknown

definition normalize_state :: "jstr \<Rightarrow> group_state_key" where
  "normalize_state state =
     (let s = filter (\<lambda>c. \<not> js_space c \<and> c \<noteq> 95 \<and> c \<noteq> 45) (ascii_lower state) in
      if s = js ''stable'' then Gs_Stable else if s = js ''empty'' then Gs_Empty
      else if s = js ''preparingrebalance'' then Gs_Preparing else if s = js ''completingrebalance'' then Gs_Completing
      else if s = js ''dead'' then Gs_Dead else Gs_Unknown)"

text \<open>The badge of a lag: no badge, an unknown lag, or the bucket with its glyph and number.\<close>

datatype lag_badge = Badge_Hidden | Badge_Unknown | Badge_Lag lag_variant jstr jstr

definition lag_badge_of :: "intl \<Rightarrow> bool \<Rightarrow> int option \<Rightarrow> lag_badge" where
  "lag_badge_of i show_zero v =
     (case v of
        None \<Rightarrow> Badge_Unknown
      | Some n \<Rightarrow>
          if \<not> show_zero \<and> n = 0 then Badge_Hidden
          else let l = lag_variant_of (Some (of_int n)) in
            Badge_Lag l (case l of Lag_Neutral \<Rightarrow> [0xB7] | Lag_Warning \<Rightarrow> [0x25B2] | Lag_Danger \<Rightarrow> [0x25B2, 0x25B2])
              (format_number i (Some (of_int n)) dash))"

text \<open>Every bucket has a glyph of its own.\<close>

lemma lag_glyphs_differ:
  "lag_badge_of i b (Some m) = Badge_Lag l g t \<Longrightarrow> lag_badge_of i b (Some n) = Badge_Lag l' g t' \<Longrightarrow> l = l'"
  by (auto simp: lag_badge_of_def Let_def split: if_splits lag_variant.splits)

section \<open>The selected group\<close>

definition offsets_by_topic :: "(jstr \<Rightarrow> jstr \<Rightarrow> bool) \<Rightarrow> group_offset list \<Rightarrow> (jstr \<times> group_offset list) list" where
  "offsets_by_topic locale_le os =
     sort_by (\<lambda>a b. locale_le (fst a) (fst b))
       (map (\<lambda>t. (t, filter (\<lambda>x. go_topic x = t) os)) (dedupe_from (\<lambda>t. t) [] (map go_topic os)))"

definition topic_lag_sum :: "group_offset list \<Rightarrow> int" where
  "topic_lag_sum os = foldl (\<lambda>s x. case go_lag x of Some l \<Rightarrow> if 0 \<le> l then s + l else s | None \<Rightarrow> s) 0 os"

text \<open>Client and host of an assignment, split at the first \<open>@\<close>.\<close>

definition split_assigned :: "jstr option \<Rightarrow> jstr \<times> jstr" where
  "split_assigned a = (let s = opt_or a [] in
     if 64 \<in> set s then (takeWhile (\<lambda>c. c \<noteq> 64) s, tl (dropWhile (\<lambda>c. c \<noteq> 64) s)) else (s, []))"

definition partition_rows :: "group_offset list \<Rightarrow> group_offset list" where
  "partition_rows os = sort_by (\<lambda>a b. go_partition a \<le> go_partition b) os"

lemma offsets_by_topic_complete: "mset (concat (map snd (offsets_by_topic le os))) = mset os"
proof -
  have c: "mset (concat (map (\<lambda>t. filter (\<lambda>x. go_topic x = t) xs) ts)) = mset (filter (\<lambda>x. go_topic x \<in> set ts) xs)"
    if "distinct ts" for ts and xs :: "group_offset list"
    using that
  proof (induction ts)
    case (Cons t ts)
    have "mset (filter (\<lambda>x. go_topic x \<in> set (t # ts)) xs) = mset (filter (\<lambda>x. go_topic x = t) xs) + mset (filter (\<lambda>x. go_topic x \<in> set ts) xs)"
      using Cons.prems by (induction xs) auto
    then show ?case using Cons by simp
  qed simp
  let ?ts = "dedupe_from (\<lambda>t. t) [] (map go_topic os)"
  have "distinct ?ts" using dedupe_from_distinct [of "\<lambda>t. t" "[]" "map go_topic os"] by simp
  moreover have "set ?ts = set (map go_topic os)" using dedupe_from_keys [of "\<lambda>t. t" "[]" "map go_topic os"] by simp
  moreover have "mset (concat (map snd (sort_by le' xs))) = mset (concat (map snd xs))" for le' and xs :: "(jstr \<times> group_offset list) list"
    by (simp add: mset_concat mset_sort_by multiset.map_comp comp_def flip: sum_mset_sum_list)
  ultimately show ?thesis using c [of ?ts os] by (simp add: offsets_by_topic_def comp_def)
qed

record group_actions =
  ga_detail :: group_detail
  ga_reset_open :: bool
  ga_dialog :: confirm_dialog
  ga_err :: "jstr option"
  ga_deleting :: bool

definition group_actions_initial :: "group_detail \<Rightarrow> group_actions" where
  "group_actions_initial d = \<lparr>ga_detail = d, ga_reset_open = False, ga_dialog = confirm_closed, ga_err = None, ga_deleting = False\<rparr>"

definition group_is_empty :: "group_detail \<Rightarrow> bool" where
  "group_is_empty d \<longleftrightarrow> state_is ''empty'' (gd_state d) \<or> state_is ''dead'' (gd_state d)"

datatype group_event =
    Ga_Detail group_detail
  | Ga_Reset
  | Ga_Close_Reset
  | Ga_Delete
  | Ga_Type jstr
  | Ga_Confirm
  | Ga_Dismiss
  | Ga_Deleted "jstr option"

text \<open>The request is the id of the group to delete. The dialogs lie over the buttons.\<close>

definition group_step :: "group_actions \<Rightarrow> group_event \<Rightarrow> jstr option \<times> group_actions" where
  "group_step st e =
     (case e of
        Ga_Detail d \<Rightarrow> (None, st\<lparr>ga_detail := d\<rparr>)
      | Ga_Reset \<Rightarrow> (None, if group_is_empty (ga_detail st) \<and> \<not> cd_open (ga_dialog st) then st\<lparr>ga_reset_open := True\<rparr> else st)
      | Ga_Close_Reset \<Rightarrow> (None, st\<lparr>ga_reset_open := False\<rparr>)
      | Ga_Delete \<Rightarrow> (None, if group_is_empty (ga_detail st) \<and> \<not> ga_deleting st \<and> \<not> ga_reset_open st
            then st\<lparr>ga_dialog := set_open True (ga_dialog st)\<rparr> else st)
      | Ga_Type s \<Rightarrow> (None, st\<lparr>ga_dialog := type_phrase s (ga_dialog st)\<rparr>)
      | Ga_Confirm \<Rightarrow> (case confirm_click (Some (gd_group_id (ga_detail st))) (ga_dialog st) of
            None \<Rightarrow> (None, st)
          | Some d \<Rightarrow> (Some (gd_group_id (ga_detail st)), st\<lparr>ga_err := None, ga_deleting := True, ga_dialog := confirm_settled True d\<rparr>))
      | Ga_Dismiss \<Rightarrow> (None, st\<lparr>ga_dialog := confirm_dismiss (ga_dialog st)\<rparr>)
      | Ga_Deleted r \<Rightarrow> (None, st\<lparr>ga_deleting := False, ga_err := (case r of None \<Rightarrow> ga_err st | Some m \<Rightarrow> Some m)\<rparr>))"

text \<open>One deletion at a time, of the group shown, with its name typed.\<close>

definition group_inv :: "jstr \<Rightarrow> group_actions \<Rightarrow> bool" where
  "group_inv g st \<longleftrightarrow> gd_group_id (ga_detail st) = g \<and> (ga_deleting st \<longrightarrow> \<not> cd_open (ga_dialog st))"

definition group_allowed :: "jstr \<Rightarrow> group_event \<Rightarrow> bool" where
  "group_allowed g e \<longleftrightarrow> (\<forall>d. e = Ga_Detail d \<longrightarrow> gd_group_id d = g)"

definition group_ok :: "jstr \<Rightarrow> group_actions \<Rightarrow> jstr \<Rightarrow> bool" where
  "group_ok g st r \<longleftrightarrow> r = g \<and> \<not> ga_deleting st \<and> cd_open (ga_dialog st) \<and> (g = [] \<or> cd_typed (ga_dialog st) = g)"

lemma dialog_open_simps: "cd_open (set_open b d) = b" "cd_open (type_phrase s d) = cd_open d"
    "cd_open (confirm_settled True d) = False" "cd_open (confirm_dismiss d) \<Longrightarrow> cd_open d"
  by (auto simp: set_open_def confirm_closed_def type_phrase_def confirm_settled_def confirm_dismiss_def split: if_splits)

lemma group_step_inv: "group_inv g st \<Longrightarrow> group_allowed g e \<Longrightarrow> group_inv g (snd (group_step st e))"
  by (cases e) (auto simp: group_step_def group_inv_def group_allowed_def dialog_open_simps split: option.splits dest: dialog_open_simps(4))

lemma group_step_ok: "group_inv g st \<Longrightarrow> fst (group_step st e) = Some r \<Longrightarrow> group_ok g st r"
  by (cases e) (auto simp: group_step_def group_inv_def group_ok_def confirm_click_iff phrase_ok_def split: option.splits)

interpretation group_deletes: sender group_step "group_inv g" "group_allowed g" "group_ok g"
  for g
  by unfold_locales (simp_all add: group_step_inv group_step_ok)

text \<open>
  Whether the group is still empty is asked when the dialog opens, not when it confirms: a group that became active
  in between is deleted all the same, as far as the server lets it.
\<close>

lemma delete_of_active_group:
  assumes "group_is_empty d" "gd_group_id d' = gd_group_id d"
  shows "map snd (sends group_step (group_actions_initial d) [Ga_Delete, Ga_Detail d', Ga_Type (gd_group_id d), Ga_Confirm]) = [gd_group_id d]"
  using assms
  by (simp add: group_step_def group_actions_initial_def set_open_def confirm_closed_def type_phrase_def confirm_click_def phrase_ok_def)

section \<open>Creating a group\<close>

text \<open>
  The consumer group names the ACLs allow, \<open>upper\<close> being \<open>toUpperCase\<close>. Each rule is its resource type, its
  permission, its pattern and its resource name.
\<close>

definition allowed_group_hints :: "(jstr \<Rightarrow> jstr) \<Rightarrow> (jstr \<times> jstr \<times> jstr \<times> jstr) list \<Rightarrow> jstr list" where
  "allowed_group_hints upper acls = dedupe_from (\<lambda>h. h) []
     (map (\<lambda>(_, _, pat, name). name @ (if contains_text (js ''PREFIX'') (upper pat) then js ''*'' else []))
       (filter (\<lambda>(ty, perm, _, _). upper ty = js ''GROUP'' \<and> upper perm = js ''ALLOW'') acls))"

record create_group_state =
  cg_group :: jstr
  cg_strategy :: reset_strategy
  cg_offset :: jstr
  cg_timestamp :: jstr
  cg_preview :: "reset_result list option"
  cg_err :: "jstr option"
  cg_pending :: "bool option"

definition create_group_initial :: "int \<Rightarrow> create_group_state" where
  "create_group_initial now = \<lparr>cg_group = [], cg_strategy = Rs_Latest, cg_offset = js ''0'', cg_timestamp = dec_int (now - 3600000),
     cg_preview = None, cg_err = None, cg_pending = None\<rparr>"

definition create_offset_valid :: "create_group_state \<Rightarrow> bool" where
  "create_offset_valid st \<longleftrightarrow> cg_strategy st \<noteq> Rs_Offset \<or>
     (trim (cg_offset st) \<noteq> [] \<and> (case js_number (cg_offset st) of None \<Rightarrow> False | Some x \<Rightarrow> of_int \<lfloor>x\<rfloor> = x))"

definition create_timestamp_valid :: "create_group_state \<Rightarrow> bool" where
  "create_timestamp_valid st \<longleftrightarrow> cg_strategy st \<noteq> Rs_Timestamp \<or> number_typed (cg_timestamp st)"

definition create_ready :: "create_group_state \<Rightarrow> bool" where
  "create_ready st \<longleftrightarrow> trim (cg_group st) \<noteq> [] \<and> create_offset_valid st \<and> create_timestamp_valid st"

definition create_body :: "(rat \<Rightarrow> jstr) \<Rightarrow> jstr \<Rightarrow> bool \<Rightarrow> create_group_state \<Rightarrow> json" where
  "create_body nt topic dry_run st = JsObject (members
     [(js ''group_id'', Some (JsString (trim (cg_group st)))), (js ''topic'', Some (JsString topic)),
      (js ''strategy'', Some (JsString (strategy_text (cg_strategy st)))),
      (js ''offset'', if cg_strategy st = Rs_Offset then Some (number_json nt (js_number (cg_offset st))) else None),
      (js ''timestamp_ms'', if cg_strategy st = Rs_Timestamp then Some (number_json nt (js_number (cg_timestamp st))) else None),
      (js ''dry_run'', Some (JsBool dry_run))])"

definition create_group_call :: "api_env \<Rightarrow> jstr \<Rightarrow> json \<Rightarrow> api_error + json option" where
  "create_group_call env cluster body = create_group env cluster body"

text \<open>\<open>local_ms\<close> of the date input, \<open>None\<close> when it is empty. The result tells whether the dialog closes as created.\<close>

datatype create_event =
    Cg_Group jstr
  | Cg_Strategy reset_strategy
  | Cg_Offset jstr
  | Cg_Time "int option"
  | Cg_Preview
  | Cg_Create
  | Cg_Answer "jstr + reset_result list"

definition create_answer :: "jstr + reset_result list \<Rightarrow> create_group_state \<Rightarrow> create_group_state \<times> bool" where
  "create_answer a st =
     (case (cg_pending st, a) of
        (None, _) \<Rightarrow> (st, False)
      | (Some _, Inl m) \<Rightarrow> (st\<lparr>cg_pending := None, cg_err := Some m\<rparr>, False)
      | (Some True, Inr rs) \<Rightarrow> (st\<lparr>cg_pending := None, cg_preview := Some rs\<rparr>, False)
      | (Some False, Inr rs) \<Rightarrow>
          (case filter (\<lambda>r. nonempty (rs_error r) \<noteq> None) rs of
             [] \<Rightarrow> (st\<lparr>cg_pending := None\<rparr>, True)
           | r # _ \<Rightarrow> (st\<lparr>cg_pending := None, cg_err := Some (js ''Group not created: '' @ opt_or (rs_error r) [])\<rparr>, False)))"

definition create_step :: "(rat \<Rightarrow> jstr) \<Rightarrow> jstr \<Rightarrow> create_group_state \<Rightarrow> create_event \<Rightarrow> json option \<times> create_group_state" where
  "create_step nt topic st e =
     (case e of
        Cg_Group g \<Rightarrow> (None, st\<lparr>cg_group := g\<rparr>)
      | Cg_Strategy s \<Rightarrow> (None, if s = Rs_Shift_By then st else st\<lparr>cg_strategy := s, cg_preview := None\<rparr>)
      | Cg_Offset t \<Rightarrow> (None, st\<lparr>cg_offset := t, cg_preview := None\<rparr>)
      | Cg_Time ms \<Rightarrow> (None, st\<lparr>cg_timestamp := (case ms of None \<Rightarrow> [] | Some n \<Rightarrow> dec_int n), cg_preview := None\<rparr>)
      | Cg_Preview \<Rightarrow> if create_ready st \<and> cg_pending st = None
          then (Some (create_body nt topic True st), st\<lparr>cg_err := None, cg_pending := Some True\<rparr>) else (None, st)
      | Cg_Create \<Rightarrow> if create_ready st \<and> cg_pending st = None
          then (Some (create_body nt topic False st), st\<lparr>cg_err := None, cg_pending := Some False\<rparr>) else (None, st)
      | Cg_Answer a \<Rightarrow> (None, fst (create_answer a st)))"

definition create_ok :: "(rat \<Rightarrow> jstr) \<Rightarrow> jstr \<Rightarrow> create_group_state \<Rightarrow> json \<Rightarrow> bool" where
  "create_ok nt topic st body \<longleftrightarrow> create_ready st \<and> cg_pending st = None \<and> (\<exists>dry. body = create_body nt topic dry st)"

lemma create_step_ok: "fst (create_step nt topic st e) = Some body \<Longrightarrow> create_ok nt topic st body"
  by (cases e) (auto simp: create_step_def create_ok_def split: if_splits)

interpretation create_groups: sender "create_step nt topic" "\<lambda>_. True" "\<lambda>_. True" "create_ok nt topic"
  for nt topic
  by unfold_locales (simp_all add: create_step_ok)

text \<open>An integer offset of any sign is sent as that integer.\<close>

lemma create_body_offset:
  assumes "cg_strategy st = Rs_Offset" "create_offset_valid st"
  shows "\<exists>i. js_number (cg_offset st) = Some (of_int i) \<and> jprop (js ''offset'') (create_body nt topic dry st) = Some (JsInt i)"
proof -
  obtain x where x: "js_number (cg_offset st) = Some x" "of_int \<lfloor>x\<rfloor> = x"
    using assms by (auto simp: create_offset_valid_def split: option.splits)
  have "jprop (js ''offset'') (create_body nt topic dry st) = Some (number_json nt (Some x))"
    using assms(1) x(1) by (simp add: create_body_def jprop_def mget_members js_def del: members_simps)
  then show ?thesis using x(1) x(2) [symmetric] by (intro exI [of _ "\<lfloor>x\<rfloor>"]) (simp add: number_json_def)
qed

text \<open>
  The answer of a dry run is shown with the form as it is by then: after an edit while it was pending, the preview
  is that of the form before the edit.
\<close>

lemma preview_of_earlier_form:
  assumes "create_ready st" "cg_pending st = None"
  shows "let st' = after_events (create_step nt topic) st [Cg_Preview, Cg_Offset t, Cg_Answer (Inr rs)]
    in cg_preview st' = Some rs \<and> cg_offset st' = t \<and>
       map snd (sends (create_step nt topic) st [Cg_Preview, Cg_Offset t, Cg_Answer (Inr rs)]) = [create_body nt topic True st]"
  using assms by (simp add: create_step_def create_answer_def Let_def)

end
