(* ===== verification/ComparePage.thy ===== *)
theory ComparePage
  imports ConfirmedWrite UrlState Fingerprint Format TextDiff MessageRef
begin

text \<open>
  The compare page (\<open>frontend/src/routes/compare.tsx\<close>): the form that names the two messages
  (\<open>features/messages/compare/CompareForm.tsx\<close>), what the page opens and where its Close button leads, the state of each
  side and the metadata rows of the result (\<open>ComparePanel.tsx\<close>, \<open>CompareResult.tsx\<close>, \<open>FingerprintCheck.tsx\<close>,
  \<open>use-fingerprint.ts\<close>), and how a changed line is shown (\<open>DiffView.tsx\<close>). \<open>to_lower\<close> is \<open>toLowerCase\<close>.
\<close>

section \<open>The form\<close>

record side_draft =
  sd_cluster :: jstr
  sd_topic :: jstr
  sd_partition :: jstr
  sd_offset :: jstr

definition draft_of :: "message_ref option \<Rightarrow> message_ref option \<Rightarrow> side_draft" where
  "draft_of r fallback = (case r of
       Some m \<Rightarrow> \<lparr>sd_cluster = mr_cluster m, sd_topic = mr_topic m, sd_partition = dec_int (mr_partition m), sd_offset = dec_int (mr_offset m)\<rparr>
     | None \<Rightarrow> \<lparr>sd_cluster = (case fallback of None \<Rightarrow> [] | Some f \<Rightarrow> mr_cluster f), sd_topic = (case fallback of None \<Rightarrow> [] | Some f \<Rightarrow> mr_topic f),
         sd_partition = [], sd_offset = []\<rparr>)"

definition ref_of :: "side_draft \<Rightarrow> message_ref option" where
  "ref_of d = parse_message_ref (sd_cluster d @ js ''/'' @ sd_topic d @ js ''/'' @ sd_partition d @ js ''/'' @ sd_offset d)"

text \<open>Which fields of a draft have a problem.\<close>

record draft_errors =
  de_cluster :: bool
  de_topic :: bool
  de_partition :: bool
  de_offset :: bool

definition draft_errors_of :: "side_draft \<Rightarrow> draft_errors" where
  "draft_errors_of d = \<lparr>de_cluster = (sd_cluster d = []), de_topic = (\<not> topic_re (sd_topic d)),
     de_partition = (parse_index (sd_partition d) = None), de_offset = (parse_index (sd_offset d) = None)\<rparr>"

datatype side = Side_A | Side_B

record compare_form =
  fm_draft_a :: side_draft
  fm_draft_b :: side_draft
  fm_fingerprint :: jstr
  fm_pasted_a :: "jstr option"
  fm_pasted_b :: "jstr option"
  fm_submitted :: bool

definition compare_form_initial :: "(jstr \<Rightarrow> jstr) \<Rightarrow> jstr option \<Rightarrow> jstr option \<Rightarrow> compare_form" where
  "compare_form_initial to_lower a b =
     (let ra = parse_message_ref (opt_or a []) in
      \<lparr>fm_draft_a = draft_of ra None, fm_draft_b = draft_of (parse_message_ref (opt_or b [])) ra,
       fm_fingerprint = (case b of None \<Rightarrow> [] | Some t \<Rightarrow> if t \<noteq> [] \<and> parse_fingerprint to_lower t \<noteq> None then t else []),
       fm_pasted_a = None, fm_pasted_b = None, fm_submitted = False\<rparr>)"

definition valid_a :: "compare_form \<Rightarrow> message_ref option" where
  "valid_a st = (if fm_pasted_a st \<noteq> None then None else ref_of (fm_draft_a st))"

text \<open>The text of side B: the fingerprint as it was pasted, or the reference.\<close>

definition valid_b :: "(jstr \<Rightarrow> jstr) \<Rightarrow> compare_form \<Rightarrow> jstr option" where
  "valid_b to_lower st =
     (if fm_pasted_b st \<noteq> None then None
      else if fm_fingerprint st \<noteq> []
      then (if parse_fingerprint to_lower (fm_fingerprint st) \<noteq> None then Some (trim (fm_fingerprint st)) else None)
      else map_option format_message_ref (ref_of (fm_draft_b st)))"

datatype compare_form_event =
    Cf_Ref_Text side jstr
  | Cf_Cluster side jstr
  | Cf_Topic side jstr
  | Cf_Partition side jstr
  | Cf_Offset side jstr
  | Cf_Swap
  | Cf_Submit

definition side_draft_of :: "side \<Rightarrow> compare_form \<Rightarrow> side_draft" where
  "side_draft_of s st = (case s of Side_A \<Rightarrow> fm_draft_a st | Side_B \<Rightarrow> fm_draft_b st)"

text \<open>Editing a field drops the pasted text of its side.\<close>

definition set_draft :: "side \<Rightarrow> side_draft \<Rightarrow> compare_form \<Rightarrow> compare_form" where
  "set_draft s d st = (case s of Side_A \<Rightarrow> st\<lparr>fm_draft_a := d, fm_pasted_a := None\<rparr> | Side_B \<Rightarrow> st\<lparr>fm_draft_b := d, fm_pasted_b := None\<rparr>)"

definition set_pasted :: "side \<Rightarrow> jstr option \<Rightarrow> compare_form \<Rightarrow> compare_form" where
  "set_pasted s t st = (case s of Side_A \<Rightarrow> st\<lparr>fm_pasted_a := t\<rparr> | Side_B \<Rightarrow> st\<lparr>fm_pasted_b := t\<rparr>)"

definition set_fingerprint :: "side \<Rightarrow> jstr \<Rightarrow> compare_form \<Rightarrow> compare_form" where
  "set_fingerprint s t st = (case s of Side_A \<Rightarrow> st | Side_B \<Rightarrow> st\<lparr>fm_fingerprint := t\<rparr>)"

definition on_ref_text :: "(jstr \<Rightarrow> jstr) \<Rightarrow> side \<Rightarrow> jstr \<Rightarrow> compare_form \<Rightarrow> compare_form" where
  "on_ref_text to_lower s t st =
     (case parse_message_ref t of
        Some r \<Rightarrow> set_fingerprint s [] (set_draft s (draft_of (Some r) None) st)
      | None \<Rightarrow>
          if s = Side_B \<and> parse_fingerprint to_lower t \<noteq> None then set_pasted s None (set_fingerprint s (trim t) st)
          else set_pasted s (if t = [] then None else Some t) (set_fingerprint s [] st))"

definition compare_form_step :: "(jstr \<Rightarrow> jstr) \<Rightarrow> compare_form \<Rightarrow> compare_form_event \<Rightarrow> (jstr \<times> jstr) option \<times> compare_form" where
  "compare_form_step to_lower st e =
     (case e of
        Cf_Ref_Text s t \<Rightarrow> (None, on_ref_text to_lower s t st)
      | Cf_Cluster s c \<Rightarrow> (None, set_draft s ((side_draft_of s st)\<lparr>sd_cluster := c, sd_topic := []\<rparr>) st)
      | Cf_Topic s t \<Rightarrow> (None, set_draft s ((side_draft_of s st)\<lparr>sd_topic := t\<rparr>) st)
      | Cf_Partition s t \<Rightarrow> (None, set_draft s ((side_draft_of s st)\<lparr>sd_partition := trim t\<rparr>) st)
      | Cf_Offset s t \<Rightarrow> (None, set_draft s ((side_draft_of s st)\<lparr>sd_offset := trim t\<rparr>) st)
      | Cf_Swap \<Rightarrow> (None, if fm_fingerprint st \<noteq> [] then st
            else st\<lparr>fm_draft_a := fm_draft_b st, fm_draft_b := fm_draft_a st, fm_pasted_a := fm_pasted_b st, fm_pasted_b := fm_pasted_a st\<rparr>)
      | Cf_Submit \<Rightarrow>
          (case (valid_a st, valid_b to_lower st) of
             (Some a, Some b) \<Rightarrow> (Some (format_message_ref a, b), st\<lparr>fm_submitted := True\<rparr>)
           | _ \<Rightarrow> (None, st\<lparr>fm_submitted := True\<rparr>)))"

text \<open>The text of the reference field.\<close>

definition ref_text :: "side \<Rightarrow> compare_form \<Rightarrow> jstr" where
  "ref_text s st =
     (case (case s of Side_A \<Rightarrow> fm_pasted_a st | Side_B \<Rightarrow> fm_pasted_b st) of
        Some t \<Rightarrow> t
      | None \<Rightarrow> if s = Side_B \<and> fm_fingerprint st \<noteq> [] then fm_fingerprint st
          else (case ref_of (side_draft_of s st) of Some r \<Rightarrow> format_message_ref r | None \<Rightarrow> []))"

definition cluster_options :: "jstr \<Rightarrow> jstr list \<Rightarrow> jstr list" where
  "cluster_options current names = (if current \<noteq> [] \<and> current \<notin> set names then current # names else names)"

section \<open>The page\<close>

datatype page_view =
    Pick_Two
  | Against_Fingerprint message_ref fingerprint_options
  | Against_Message message_ref message_ref

definition page_view_of :: "(jstr \<Rightarrow> jstr) \<Rightarrow> jstr option \<Rightarrow> jstr option \<Rightarrow> page_view" where
  "page_view_of to_lower a b =
     (case parse_message_ref (opt_or a []) of
        None \<Rightarrow> Pick_Two
      | Some ra \<Rightarrow> (case parse_message_ref (opt_or b []) of
            Some rb \<Rightarrow> Against_Message ra rb
          | None \<Rightarrow> (case parse_fingerprint to_lower (opt_or b []) of
                Some (ops, _) \<Rightarrow> Against_Fingerprint ra ops
              | None \<Rightarrow> Pick_Two)))"

definition take_offset :: "side \<Rightarrow> int \<Rightarrow> compare_search \<Rightarrow> compare_search" where
  "take_offset s i cur =
     (case s of
        Side_A \<Rightarrow> (case parse_message_ref (opt_or (cs_a cur) []) of
            None \<Rightarrow> cur | Some r \<Rightarrow> cur\<lparr>cs_a := Some (format_message_ref (r\<lparr>mr_offset := i\<rparr>))\<rparr>)
      | Side_B \<Rightarrow> (case parse_message_ref (opt_or (cs_b cur) []) of
            None \<Rightarrow> cur | Some r \<Rightarrow> cur\<lparr>cs_b := Some (format_message_ref (r\<lparr>mr_offset := i\<rparr>))\<rparr>))"

text \<open>Close goes back to the page the compare was opened from, to the message in its topic, or to the clusters.\<close>

datatype close_target = Go_Back int | To_Message message_ref | To_Clusters

definition close_target_of :: "int option \<Rightarrow> int \<Rightarrow> message_ref option \<Rightarrow> close_target" where
  "close_target_of origin current ra =
     (case origin of
        Some i \<Rightarrow> if i < current then Go_Back (i - current) else (case ra of Some r \<Rightarrow> To_Message r | None \<Rightarrow> To_Clusters)
      | None \<Rightarrow> (case ra of Some r \<Rightarrow> To_Message r | None \<Rightarrow> To_Clusters))"

section \<open>What a submitted form opens\<close>

text \<open>
  The page reads back from the URL exactly the two messages of the form, or the message and the settings of the pasted
  fingerprint. A fingerprint holds no slash, given that \<open>toLowerCase\<close> keeps one.
\<close>

definition compare_form_ok :: "(jstr \<Rightarrow> jstr) \<Rightarrow> compare_form \<Rightarrow> jstr \<times> jstr \<Rightarrow> bool" where
  "compare_form_ok to_lower st r \<longleftrightarrow> (\<exists>ra. ref_of (fm_draft_a st) = Some ra \<and>
     (case page_view_of to_lower (Some (fst r)) (Some (snd r)) of
        Pick_Two \<Rightarrow> False
      | Against_Message a b \<Rightarrow> a = ra \<and> fm_fingerprint st = [] \<and> ref_of (fm_draft_b st) = Some b
      | Against_Fingerprint a ops \<Rightarrow> a = ra \<and> map_option fst (parse_fingerprint to_lower (fm_fingerprint st)) = Some ops))"

lemma fingerprint_no_slash:
  assumes "\<And>s. 47 \<in> set s \<Longrightarrow> 47 \<in> set (to_lower s)" "parse_fingerprint to_lower f \<noteq> None"
  shows "47 \<notin> set (trim f)"
proof
  assume "47 \<in> set (trim f)"
  then have s: "47 \<in> set (to_lower (trim f))" by (rule assms(1))
  obtain flags hex where m: "match_fingerprint (to_lower (trim f)) = Some (flags, hex)"
    using assms(2) by (auto simp: parse_fingerprint_def split: option.splits)
  then have t: "to_lower (trim f) = js ''kfp1:'' @ flags @ js '':'' @ hex" and f: "list_all lower_hex hex"
    using match_fingerprint_Some [OF m] by blast+
  have "flags = takeWhile is_flag (drop 5 (to_lower (trim f)))" using m by (auto simp: match_fingerprint_def Let_def split: if_splits)
  then have "\<forall>c\<in>set flags. is_flag c" by (auto dest: set_takeWhileD)
  then have "47 \<notin> set flags" by (auto simp: is_flag_def js_def)
  moreover have "47 \<notin> set hex" using f by (auto simp: list_all_iff lower_hex_def)
  ultimately show False using s by (simp add: t js_def)
qed

lemma parse_ref_slash: "parse_message_ref s = Some r \<Longrightarrow> 47 \<in> set (trim s)"
  by (rule ccontr) (simp add: parse_message_ref_def split_on_none)

lemma submitted_ok:
  assumes "\<And>s. 47 \<in> set s \<Longrightarrow> 47 \<in> set (to_lower s)" "valid_a st = Some a" "valid_b to_lower st = Some b"
  shows "compare_form_ok to_lower st (format_message_ref a, b)"
proof -
  have a: "ref_of (fm_draft_a st) = Some a" using assms(2) by (simp add: valid_a_def split: if_splits)
  have pa: "parse_message_ref (format_message_ref a) = Some a"
    using a parsed_ref_ok parse_format_ref unfolding ref_of_def by blast
  show ?thesis
  proof (cases "fm_fingerprint st = []")
    case True
    then obtain rb where b: "ref_of (fm_draft_b st) = Some rb" "b = format_message_ref rb"
      using assms(3) by (auto simp: valid_b_def split: if_splits)
    have "parse_message_ref b = Some rb" using b parsed_ref_ok parse_format_ref unfolding ref_of_def by blast
    then show ?thesis using a pa True b by (simp add: compare_form_ok_def page_view_of_def)
  next
    case False
    then have p: "parse_fingerprint to_lower (fm_fingerprint st) \<noteq> None" and b: "b = trim (fm_fingerprint st)"
      using assms(3) by (auto simp: valid_b_def split: if_splits)
    have n: "parse_message_ref b = None"
    proof (cases "parse_message_ref b")
      case (Some r)
      from parse_ref_slash [OF this] show ?thesis using fingerprint_no_slash [OF assms(1) p] by (simp add: b trim_trim)
    qed
    have "parse_fingerprint to_lower b = parse_fingerprint to_lower (fm_fingerprint st)"
      by (simp add: b parse_fingerprint_def trim_trim)
    then show ?thesis using a pa p n by (auto simp: compare_form_ok_def page_view_of_def)
  qed
qed

lemma compare_form_step_ok:
  assumes "\<And>s. 47 \<in> set s \<Longrightarrow> 47 \<in> set (to_lower s)" "fst (compare_form_step to_lower st e) = Some r"
  shows "compare_form_ok to_lower st r"
proof -
  obtain a b where "valid_a st = Some a" "valid_b to_lower st = Some b" "r = (format_message_ref a, b)"
    using assms(2) by (cases e) (auto simp: compare_form_step_def split: option.splits)
  then show ?thesis using submitted_ok [OF assms(1)] by simp
qed

interpretation compare_forms: sender "compare_form_step to_lower" "\<lambda>_. True" "\<lambda>_. \<forall>s. 47 \<in> set s \<longrightarrow> 47 \<in> set (to_lower s)" "compare_form_ok to_lower"
  for to_lower
  by unfold_locales (simp_all add: compare_form_step_ok)

text \<open>
  Only whole references are looked at when the form is submitted, not its fields. A slash in the topic field moves
  the part before it into the cluster: although the field counts as an error, the form is submitted, and the page
  opens a message of another cluster name and another topic than the fields say.
\<close>

theorem slash_in_topic_names_another_message:
  assumes "fm_pasted_a st = None" "valid_b to_lower st = Some b"
    "fm_draft_a st = \<lparr>sd_cluster = c, sd_topic = t1 @ 47 # t2, sd_partition = dec_int p, sd_offset = dec_int i\<rparr>"
    "message_ref_ok \<lparr>mr_cluster = c @ 47 # t1, mr_topic = t2, mr_partition = p, mr_offset = i\<rparr>"
  shows "de_topic (draft_errors_of (fm_draft_a st)) \<and>
    fst (compare_form_step to_lower st Cf_Submit) = Some (format_message_ref \<lparr>mr_cluster = c @ 47 # t1, mr_topic = t2, mr_partition = p, mr_offset = i\<rparr>, b)"
proof -
  let ?r = "\<lparr>mr_cluster = c @ 47 # t1, mr_topic = t2, mr_partition = p, mr_offset = i\<rparr>"
  have "ref_of (fm_draft_a st) = parse_message_ref (format_message_ref ?r)"
    by (simp add: ref_of_def assms(3) format_message_ref_def js_def)
  then have "ref_of (fm_draft_a st) = Some ?r" using parse_format_ref [OF assms(4)] by simp
  moreover have "\<not> topic_re (t1 @ 47 # t2)" by (simp add: topic_re_def is_digit_def)
  ultimately show ?thesis using assms(1,2) by (simp add: compare_form_step_def valid_a_def draft_errors_of_def assms(3))
qed

lemma slash_in_topic_witness:
  "\<exists>st b. de_topic (draft_errors_of (fm_draft_a st)) \<and> sd_cluster (fm_draft_a st) = js ''prod'' \<and> sd_topic (fm_draft_a st) = js ''orders/eu'' \<and>
     fst (compare_form_step id st Cf_Submit) =
       Some (format_message_ref \<lparr>mr_cluster = js ''prod/orders'', mr_topic = js ''eu'', mr_partition = 0, mr_offset = 7\<rparr>, b)"
proof -
  let ?b = "\<lparr>mr_cluster = js ''c'', mr_topic = js ''t'', mr_partition = 1, mr_offset = 2\<rparr>"
  let ?st = "\<lparr>fm_draft_a = \<lparr>sd_cluster = js ''prod'', sd_topic = js ''orders'' @ 47 # js ''eu'', sd_partition = dec_int 0, sd_offset = dec_int 7\<rparr>,
     fm_draft_b = draft_of (Some ?b) None, fm_fingerprint = [], fm_pasted_a = None, fm_pasted_b = None, fm_submitted = False\<rparr>"
  have ok: "message_ref_ok ?b" "message_ref_ok \<lparr>mr_cluster = js ''prod'' @ 47 # js ''orders'', mr_topic = js ''eu'', mr_partition = 0, mr_offset = 7\<rparr>"
    by (simp_all add: message_ref_ok_def topic_re_def js_space_def is_digit_def max_safe_integer_def js_def)
  have "ref_of (draft_of (Some ?b) None) = parse_message_ref (format_message_ref ?b)"
    by (simp add: ref_of_def draft_of_def format_message_ref_def)
  then have "valid_b id ?st = Some (format_message_ref ?b)" using parse_format_ref [OF ok(1)] by (simp add: valid_b_def)
  then show ?thesis using slash_in_topic_names_another_message [of ?st id "format_message_ref ?b" "js ''prod''" "js ''orders''" "js ''eu''" 0 7] ok(2)
    by (intro exI [of _ ?st] exI [of _ "format_message_ref ?b"]) (simp add: js_def)
qed

text \<open>Every submission of every run opens the two sides of the form.\<close>

lemma compare_form_opens:
  assumes "\<forall>s. 47 \<in> set s \<longrightarrow> 47 \<in> set (to_lower s)" "(t, r) \<in> set (sends (compare_form_step to_lower) (compare_form_initial to_lower a b) es)"
  shows "compare_form_ok to_lower t r"
proof -
  have "list_all (\<lambda>_. \<forall>s. 47 \<in> set s \<longrightarrow> 47 \<in> set (to_lower s)) es" using assms(1) by (simp add: list_all_iff)
  from compare_forms.sends_ok [OF TrueI this assms(2)] show ?thesis by simp
qed

section \<open>The sides and the metadata\<close>

text \<open>How a side that is not ready is shown; a refused read is told by the text of its error.\<close>

datatype side_status = Status_Loading | Status_No_Access | Status_Failed jstr | Status_Missing "int option" | Status_Loaded

definition side_status_of :: "compared_message \<Rightarrow> side_status" where
  "side_status_of m = (case m of
       Cm_Loading \<Rightarrow> Status_Loading
     | Cm_Error e \<Rightarrow> if starts_with (js ''HTTP 403'') e then Status_No_Access else Status_Failed e
     | Cm_Missing next \<Rightarrow> Status_Missing next
     | Cm_Ready _ _ _ \<Rightarrow> Status_Loaded)"

definition preview_notes :: "jstr option \<Rightarrow> jstr option \<Rightarrow> jstr list" where
  "preview_notes a b =
     (case a of None \<Rightarrow> [] | Some r \<Rightarrow> if r = [] then [] else [js ''Message A: '' @ r]) @
     (case b of None \<Rightarrow> [] | Some r \<Rightarrow> if r = [] then [] else [js ''Message B: '' @ r])"

definition sr_text :: "sr_meta option \<Rightarrow> jstr" where
  "sr_text sr = (case sr of
       None \<Rightarrow> [0x2014]
     | Some s \<Rightarrow>
         (case sr_subject s of None \<Rightarrow> [] | Some n \<Rightarrow> if n = [] then []
            else n @ (case sr_version s of None \<Rightarrow> [] | Some v \<Rightarrow> if v = 0 then [] else js '' v'' @ dec_int v) @ [32, 0xB7, 32]) @
         opt_or (sr_format s) (js ''?'') @ [32, 0xB7] @ js '' id '' @ (case sr_schema_id s of None \<Rightarrow> js ''?'' | Some i \<Rightarrow> dec_int i))"

definition size_text :: "intl \<Rightarrow> message \<Rightarrow> jstr" where
  "size_text i m = (case value_size_bytes m of None \<Rightarrow> [0x2014] | Some n \<Rightarrow> format_bytes i (Some (of_int n)) dash)"

text \<open>
  The rows of the metadata table: label and whether the sides differ, \<open>None\<close> where that is not known. A fingerprint
  is \<open>None\<close> while it is computed, else the reason there is none, or its text.
\<close>

type_synonym fingerprint_result = "(jstr + jstr) option"

definition fingerprints_differ :: "fingerprint_result \<Rightarrow> fingerprint_result \<Rightarrow> bool option" where
  "fingerprints_differ a b = (case (a, b) of (Some (Inr x), Some (Inr y)) \<Rightarrow> Some (x \<noteq> y) | _ \<Rightarrow> None)"

definition meta_rows :: "message_ref \<Rightarrow> message_ref \<Rightarrow> message \<Rightarrow> message \<Rightarrow> fingerprint_result \<Rightarrow> fingerprint_result \<Rightarrow> (jstr \<times> bool option) list" where
  "meta_rows ra rb a b fa fb =
     [(js ''Reference'', Some (format_message_ref ra \<noteq> format_message_ref rb)),
      (js ''Timestamp'', Some (timestamp_ms a \<noteq> timestamp_ms b)),
      (js ''Key encoding'', Some (key_encoding a \<noteq> key_encoding b)),
      (js ''Value encoding'', Some (value_encoding a \<noteq> value_encoding b)),
      (js ''Value schema'', Some (sr_text (value_sr a) \<noteq> sr_text (value_sr b))),
      (js ''Value size'', Some (value_size_bytes a \<noteq> value_size_bytes b)),
      (js ''Fingerprint'', fingerprints_differ fa fb)]"

definition shown_meta_rows :: "bool \<Rightarrow> (jstr \<times> bool option) list \<Rightarrow> (jstr \<times> bool option) list" where
  "shown_meta_rows only_diff rows = (if only_diff then filter (\<lambda>(_, d). d \<noteq> Some False) rows else rows)"

definition shown_header_rows :: "bool \<Rightarrow> header_row list \<Rightarrow> header_row list" where
  "shown_header_rows only_diff rows = (if only_diff then filter (\<lambda>r. hr_status r \<noteq> Same) rows else rows)"

text \<open>The texts a part shows: the canonical ones in the semantic view when there are any.\<close>

definition part_texts :: "compare_view \<Rightarrow> part_comparison \<Rightarrow> jstr \<times> jstr" where
  "part_texts view cmp = (if view = View_Semantic then opt_or (pc_semantic cmp) (pc_exact cmp) else pc_exact cmp)"

section \<open>The check of a fingerprint\<close>

text \<open>The effect of \<open>useFingerprint\<close>: a change of its inputs drops the result, and the answer for earlier inputs is ignored.\<close>

record fingerprint_hook =
  fh_run :: nat
  fh_result :: fingerprint_result

definition fingerprint_restart :: "fingerprint_hook \<Rightarrow> fingerprint_hook" where
  "fingerprint_restart h = \<lparr>fh_run = Suc (fh_run h), fh_result = None\<rparr>"

definition fingerprint_answer :: "nat \<Rightarrow> jstr + jstr \<Rightarrow> fingerprint_hook \<Rightarrow> fingerprint_hook" where
  "fingerprint_answer n r h = (if n = fh_run h then h\<lparr>fh_result := Some r\<rparr> else h)"

definition describe_fingerprint_options :: "fingerprint_options \<Rightarrow> jstr" where
  "describe_fingerprint_options ops = join (js '', '')
     ([if fo_semantic ops then js ''semantic'' else js ''exact''] @
      (if fo_semantic ops \<and> ignore_array_order ops then [js ''any array order''] else []) @
      (if fo_semantic ops \<and> ignore_child_order ops then [js ''any element order''] else []) @
      [if ignore_kafkito_headers ops then js ''X-Kafkito-* headers ignored'' else js ''all headers''])"

datatype fingerprint_check = Check_Pending | Check_Impossible jstr | Check_Done verdict

definition fingerprint_check_of :: "(jstr \<Rightarrow> jstr) \<Rightarrow> fingerprint_options \<Rightarrow> jstr \<Rightarrow> fingerprint_result \<Rightarrow> fingerprint_check" where
  "fingerprint_check_of to_lower ops pasted fp = (case fp of
       None \<Rightarrow> Check_Pending
     | Some (Inl reason) \<Rightarrow> Check_Impossible reason
     | Some (Inr t) \<Rightarrow> Check_Done (if t = to_lower (trim pasted) then (if fo_semantic ops then Equivalent else Identical) else Different))"

lemma stale_fingerprint_ignored: "fingerprint_answer (fh_run h) r (fingerprint_restart h) = fingerprint_restart h"
  by (simp add: fingerprint_answer_def fingerprint_restart_def)

text \<open>With only the differences shown, a fingerprint that is not known stays in the table.\<close>

lemma unknown_fingerprint_shown:
  "fingerprints_differ fa fb = None \<Longrightarrow> (js ''Fingerprint'', None) \<in> set (shown_meta_rows d (meta_rows ra rb a b fa fb))"
  by (simp add: shown_meta_rows_def meta_rows_def)

section \<open>Changed lines\<close>

definition reveal_step :: nat where "reveal_step = 500"

definition max_line_chars :: nat where "max_line_chars = 2000"

definition clip_context :: nat where "clip_context = 400"

text \<open>The lines of a collapsed run after a number of clicks on its button.\<close>

fun revealed :: "nat \<Rightarrow> nat \<Rightarrow> nat" where
  "revealed lines 0 = 0"
| "revealed lines (Suc n) = revealed lines n + min (lines - revealed lines n) reveal_step"

text \<open>The i-th removed line of a change block with its i-th added line; an op is found by its numbers.\<close>

function pair_changes :: "'l diff_op list \<Rightarrow> ('l diff_op \<times> 'l diff_op) list" where
  "pair_changes [] = []"
| "pair_changes (x # ops) =
     (if op_type x \<noteq> Delete then pair_changes ops
      else let rest = dropWhile (\<lambda>q. op_type q = Delete) ops
        in zip (x # takeWhile (\<lambda>q. op_type q = Delete) ops) (takeWhile (\<lambda>q. op_type q = Insert) rest) @
           pair_changes (dropWhile (\<lambda>q. op_type q = Insert) rest))"
  by pat_completeness auto
termination
  by (relation "measure length") (auto simp: Let_def intro!: le_imp_less_Suc order_trans [OF length_dropWhile_le length_dropWhile_le])

definition partner_of :: "('l diff_op \<times> 'l diff_op) list \<Rightarrow> 'l diff_op \<Rightarrow> 'l diff_op option" where
  "partner_of pairs x = (case find (\<lambda>(d, i). d = x \<or> i = x) pairs of None \<Rightarrow> None | Some (d, i) \<Rightarrow> Some (if d = x then i else d))"

datatype line_piece = Plain jstr | Changed jstr | Cut

definition more_text :: "nat \<Rightarrow> jstr" where
  "more_text n = [0x2026, 32, 40] @ dec n @ js '' more characters)''"

definition clip :: "jstr \<Rightarrow> jstr" where
  "clip line = (if max_line_chars < length line then take max_line_chars line @ more_text (length line - max_line_chars) else line)"

fun common_start :: "'a list \<Rightarrow> 'a list \<Rightarrow> nat" where
  "common_start (x # xs) (y # ys) = (if x = y then Suc (common_start xs ys) else 0)"
| "common_start _ _ = 0"

text \<open>\<open>start\<close> and \<open>stop\<close> of the stretch that differs: the common end stops short of the common start.\<close>

definition changed_stretch :: "jstr \<Rightarrow> jstr \<Rightarrow> nat \<times> nat" where
  "changed_stretch line other =
     (let start = common_start line other;
          fin = min (common_start (rev line) (rev other)) (min (length line) (length other) - start)
      in (start, length line - fin))"

definition line_text :: "jstr \<Rightarrow> jstr option \<Rightarrow> line_piece list" where
  "line_text line other = (case other of
       None \<Rightarrow> [Plain (clip line)]
     | Some t \<Rightarrow>
         (case changed_stretch line t of (start, stop) \<Rightarrow>
            if stop \<le> start then [Plain (clip line)]
            else let from = start - clip_context; upto' = min (length line) (stop + clip_context);
                changed = (if max_line_chars < stop - start
                  then take max_line_chars (drop start line) @ more_text (stop - start - max_line_chars) else take (stop - start) (drop start line))
              in (if 0 < from then [Cut] else []) @ [Plain (take (start - from) (drop from line)), Changed changed,
                 Plain (take (upto' - stop) (drop stop line))] @ (if upto' < length line then [Cut] else [])))"

definition piece_text :: "line_piece \<Rightarrow> jstr" where
  "piece_text q = (case q of Plain t \<Rightarrow> t | Changed t \<Rightarrow> t | Cut \<Rightarrow> [])"

lemma revealed_clicks: "revealed lines n = min lines (n * reveal_step)"
  by (induction n) (auto simp: reveal_step_def)

lemma pair_changes_sound: "(d, i) \<in> set (pair_changes ops) \<Longrightarrow> op_type d = Delete \<and> op_type i = Insert \<and> d \<in> set ops \<and> i \<in> set ops"
proof (induction ops rule: pair_changes.induct)
  case (2 x ops)
  let ?rest = "dropWhile (\<lambda>q. op_type q = Delete) ops"
  let ?dels = "takeWhile (\<lambda>q. op_type q = Delete) ops" and ?ins = "takeWhile (\<lambda>q. op_type q = Insert) ?rest"
  have sub: "set ?rest \<subseteq> set ops" "set (dropWhile (\<lambda>q. op_type q = Insert) ?rest) \<subseteq> set ?rest" by (auto dest: set_dropWhileD)
  show ?case
  proof (cases "op_type x = Delete")
    case True
    then consider "(d, i) \<in> set (zip (x # ?dels) ?ins)" | "(d, i) \<in> set (pair_changes (dropWhile (\<lambda>q. op_type q = Insert) ?rest))"
      using "2.prems" by (auto simp: Let_def)
    then show ?thesis
    proof cases
      case 1
      then have "d \<in> set (x # ?dels)" "i \<in> set ?ins" by (metis set_zip_leftD set_zip_rightD)+
      then show ?thesis using True sub(1) by (auto dest!: set_takeWhileD)
    next
      case c: 2
      then show ?thesis using "2.IH"(2) [OF _ refl c] True sub by auto
    qed
  qed (use 2 in auto)
qed simp

lemma common_start_take: "take (common_start xs ys) xs = take (common_start xs ys) ys" "common_start xs ys \<le> length xs" "common_start xs ys \<le> length ys"
  by (induction xs ys rule: common_start.induct) auto

text \<open>Outside the underlined stretch the two lines agree.\<close>

lemma changed_stretch_agrees:
  assumes "changed_stretch line other = (start, stop)"
  shows "take start line = take start other" "drop stop line = drop (length other - (length line - stop)) other" "start \<le> stop" "stop \<le> length line"
proof -
  let ?s = "common_start line other" and ?c = "common_start (rev line) (rev other)"
  define fin where "fin = min ?c (min (length line) (length other) - ?s)"
  have st: "start = ?s" "stop = length line - fin" using assms by (auto simp: changed_stretch_def Let_def fin_def)
  have f: "fin \<le> ?c" "fin + ?s \<le> length line" "fin \<le> length other"
    using common_start_take(2,3) [of line other] by (auto simp: fin_def)
  show "take start line = take start other" unfolding st(1) by (rule common_start_take(1))
  have "take fin (take ?c (rev line)) = take fin (take ?c (rev other))"
    using arg_cong [OF common_start_take(1) [of "rev line" "rev other"], of "take fin"] .
  then have "take fin (rev line) = take fin (rev other)" using f(1) by (simp only: take_take min.absorb1)
  then have "drop (length line - fin) line = drop (length other - fin) other" by (simp add: take_rev)
  then show "drop stop line = drop (length other - (length line - stop)) other" using f(2) by (simp add: st)
  show "start \<le> stop" "stop \<le> length line" using f(2) by (simp_all add: st)
qed

text \<open>A changed line is shown whole around a short change, up to the cut ends.\<close>

lemma line_text_complete:
  assumes "changed_stretch line other = (start, stop)" "start < stop" "stop - start \<le> max_line_chars"
  shows "concat (map piece_text (line_text line (Some other))) =
    take (min (length line) (stop + clip_context) - (start - clip_context)) (drop (start - clip_context) line)"
proof -
  let ?from = "start - clip_context" and ?to = "min (length line) (stop + clip_context)"
  have l: "stop \<le> length line" using changed_stretch_agrees(4) [OF assms(1)] .
  have "take (?to - ?from) (drop ?from line) = take (start - ?from) (drop ?from line) @ take (?to - start) (drop start line)"
    using take_add [of "start - ?from" "?to - start" "drop ?from line"] l assms(2) by simp
  also have "take (?to - start) (drop start line) = take (stop - start) (drop start line) @ take (?to - stop) (drop stop line)"
    using take_add [of "stop - start" "?to - stop" "drop start line"] l assms(2) by simp
  finally show ?thesis using assms by (auto simp: line_text_def piece_text_def Let_def)
qed

end
