(* ===== verification/Suggest.thy ===== *)
theory Suggest
  imports ConfirmedWrite Fuzzy ClusterSwitcher ApiClient UrlState PathTree MessageList
begin

text \<open>
  The inputs that suggest while one types: the command palette (\<open>frontend/src/features/shell/CommandPalette.tsx\<close>), the
  field path of a search (\<open>features/messages/PathSense.tsx\<close>), the header key (\<open>HeaderKeySense.tsx\<close>,
  \<open>header-keys.ts\<close>) and the destination topic (\<open>TopicCombobox.tsx\<close>). Each is a step function on events; where it
  navigates or what it tells its parent is its output.
\<close>

section \<open>The command palette\<close>

datatype item_kind = Kind_Nav | Kind_Cluster | Kind_Topic | Kind_Group | Kind_Broker | Kind_Subject | Kind_User

datatype palette_item =
    Nav_Item jstr jstr
  | Cluster_Item jstr bool
  | Topic_Item jstr jstr
  | Group_Item jstr jstr jstr
  | Broker_Item jstr int jstr int
  | Subject_Item jstr jstr int nat
  | User_Item jstr jstr jstr

fun item_kind_of :: "palette_item \<Rightarrow> item_kind" where
  "item_kind_of (Nav_Item _ _) = Kind_Nav"
| "item_kind_of (Cluster_Item _ _) = Kind_Cluster"
| "item_kind_of (Topic_Item _ _) = Kind_Topic"
| "item_kind_of (Group_Item _ _ _) = Kind_Group"
| "item_kind_of (Broker_Item _ _ _ _) = Kind_Broker"
| "item_kind_of (Subject_Item _ _ _ _) = Kind_Subject"
| "item_kind_of (User_Item _ _ _) = Kind_User"

fun item_label :: "palette_item \<Rightarrow> jstr" where
  "item_label (Nav_Item label _) = label"
| "item_label (Cluster_Item c _) = c"
| "item_label (Topic_Item _ t) = t"
| "item_label (Group_Item _ g _) = g"
| "item_label (Broker_Item _ n host _) = js ''Broker '' @ dec_int n @ [32, 0xB7, 32] @ host"
| "item_label (Subject_Item _ s _ _) = s"
| "item_label (User_Item _ u _) = u"

definition category_label :: "item_kind \<Rightarrow> jstr" where
  "category_label k = (case k of
       Kind_Nav \<Rightarrow> js ''NAV'' | Kind_Cluster \<Rightarrow> js ''CLUSTER'' | Kind_Topic \<Rightarrow> js ''TOPIC'' | Kind_Group \<Rightarrow> js ''GROUP''
     | Kind_Broker \<Rightarrow> js ''BROKER'' | Kind_Subject \<Rightarrow> js ''SUBJECT'' | Kind_User \<Rightarrow> js ''USER'')"

text \<open>What stands at the end of a row.\<close>

fun item_note :: "palette_item \<Rightarrow> jstr" where
  "item_note (Nav_Item _ _) = []"
| "item_note (Cluster_Item _ reachable) = (if reachable then [] else js ''unreachable'')"
| "item_note (Topic_Item c _) = js ''on '' @ c"
| "item_note (Group_Item _ _ state) = state"
| "item_note (Broker_Item _ _ host port) = host @ [58] @ dec_int port"
| "item_note (Subject_Item _ _ latest n) = 118 # dec_int latest @ [32, 0xB7, 32] @ dec n @ js '' versions''"
| "item_note (User_Item _ _ mechanisms) = (if mechanisms = [] then js ''no mechanism'' else mechanisms)"

text \<open>What is loaded of the active cluster: topics, groups with their state, brokers, subjects with their versions, users.\<close>

record palette_data =
  pd_active :: "jstr option"
  pd_clusters :: "cluster_list_item list"
  pd_topics :: "jstr list"
  pd_groups :: "(jstr \<times> jstr) list"
  pd_brokers :: "(int \<times> jstr \<times> int) list"
  pd_subjects :: "(jstr \<times> int list) list"
  pd_users :: "(jstr \<times> jstr list) list"

definition nav_items :: "jstr option \<Rightarrow> palette_item list" where
  "nav_items active = Nav_Item (js ''Home'') (js ''/'') #
     (case active of None \<Rightarrow> []
      | Some c \<Rightarrow> map (\<lambda>(label, page). Nav_Item (js label) (js ''/clusters/'' @ encode_uri_component c @ js page))
          [(''Topics'', ''/topics''), (''Groups'', ''/groups''), (''Schemas'', ''/schemas''), (''ACLs'', ''/security/acls''),
           (''SCRAM Users'', ''/security/users'')])"

definition active_items :: "jstr \<Rightarrow> palette_data \<Rightarrow> palette_item list" where
  "active_items c d =
     map (Topic_Item c) (pd_topics d) @ map (\<lambda>(g, s). Group_Item c g s) (pd_groups d) @
     map (\<lambda>(n, h, p). Broker_Item c n h p) (pd_brokers d) @
     map (\<lambda>(s, vs). Subject_Item c s (latest_version vs) (length vs)) (pd_subjects d) @
     map (\<lambda>(u, ms). User_Item c u (join (js '', '') ms)) (pd_users d)"

definition all_items :: "palette_data \<Rightarrow> palette_item list" where
  "all_items d = nav_items (pd_active d) @ map (\<lambda>c. Cluster_Item (cl_name c) (cl_reachable c)) (pd_clusters d) @
     (case pd_active d of None \<Rightarrow> [] | Some c \<Rightarrow> active_items c d)"

definition found_items :: "palette_item fuse \<Rightarrow> jstr \<Rightarrow> palette_data \<Rightarrow> palette_item list" where
  "found_items fuse q d = (if trim q = [] then take 20 (all_items d) else take 50 (fuzzy_results fuse [js ''label''] q (all_items d)))"

definition kind_order :: "item_kind list" where
  "kind_order = [Kind_Nav, Kind_Cluster, Kind_Topic, Kind_Group, Kind_Broker, Kind_Subject, Kind_User]"

definition render_items :: "palette_item fuse \<Rightarrow> jstr \<Rightarrow> palette_data \<Rightarrow> palette_item list" where
  "render_items fuse q d =
     (if trim q = [] then found_items fuse q d
      else concat (map (\<lambda>k. filter (\<lambda>it. item_kind_of it = k) (found_items fuse q d)) kind_order))"

text \<open>Where a pick leads; a SCRAM user leads to the list of users.\<close>

datatype nav_target =
    To_Path jstr
  | To_Topics jstr
  | To_Topic jstr jstr
  | To_Group jstr jstr
  | To_Broker jstr jstr
  | To_Subject jstr jstr
  | To_Users jstr

fun target_of :: "palette_item \<Rightarrow> nav_target" where
  "target_of (Nav_Item _ path) = To_Path path"
| "target_of (Cluster_Item c _) = To_Topics c"
| "target_of (Topic_Item c t) = To_Topic c t"
| "target_of (Group_Item c g _) = To_Group c g"
| "target_of (Broker_Item c n _ _) = To_Broker c (dec_int n)"
| "target_of (Subject_Item c s _ _) = To_Subject c s"
| "target_of (User_Item c _ _) = To_Users c"

record palette =
  pa_open :: bool
  pa_query :: jstr
  pa_sel :: int
  pa_data :: palette_data

definition palette_closed :: "palette_data \<Rightarrow> palette" where
  "palette_closed d = \<lparr>pa_open = False, pa_query = [], pa_sel = 0, pa_data = d\<rparr>"

datatype palette_event =
    Pl_Data palette_data
  | Pl_Shortcut
  | Pl_Open
  | Pl_Close
  | Pl_Query jstr
  | Pl_Down
  | Pl_Up
  | Pl_Enter
  | Pl_Hover nat
  | Pl_Click nat

definition shown_items :: "palette_item fuse \<Rightarrow> palette \<Rightarrow> palette_item list" where
  "shown_items fuse st = render_items fuse (pa_query st) (pa_data st)"

definition pick_item :: "palette_item fuse \<Rightarrow> int \<Rightarrow> palette \<Rightarrow> nav_target option \<times> palette" where
  "pick_item fuse i st =
     (if 0 \<le> i \<and> i < int (length (shown_items fuse st))
      then (Some (target_of (shown_items fuse st ! nat i)), palette_closed (pa_data st)) else (None, st))"

text \<open>The keys of the input and the rows exist only while the palette is open; a changed query selects the first row.\<close>

definition palette_step :: "palette_item fuse \<Rightarrow> palette \<Rightarrow> palette_event \<Rightarrow> nav_target option \<times> palette" where
  "palette_step fuse st e =
     (case e of
        Pl_Data d \<Rightarrow> (None, st\<lparr>pa_data := d\<rparr>)
      | Pl_Shortcut \<Rightarrow> (None, if pa_open st then palette_closed (pa_data st) else st\<lparr>pa_open := True\<rparr>)
      | Pl_Open \<Rightarrow> (None, st\<lparr>pa_open := True\<rparr>)
      | Pl_Close \<Rightarrow> (None, palette_closed (pa_data st))
      | Pl_Query q \<Rightarrow> (None, if pa_open st \<and> q \<noteq> pa_query st then st\<lparr>pa_query := q, pa_sel := 0\<rparr> else st)
      | Pl_Down \<Rightarrow> (None, if pa_open st then st\<lparr>pa_sel := min (pa_sel st + 1) (int (length (shown_items fuse st)) - 1)\<rparr> else st)
      | Pl_Up \<Rightarrow> (None, if pa_open st then st\<lparr>pa_sel := max (pa_sel st - 1) 0\<rparr> else st)
      | Pl_Enter \<Rightarrow> if pa_open st then pick_item fuse (pa_sel st) st else (None, st)
      | Pl_Hover i \<Rightarrow> (None, if pa_open st \<and> i < length (shown_items fuse st) then st\<lparr>pa_sel := int i\<rparr> else st)
      | Pl_Click i \<Rightarrow> if pa_open st then pick_item fuse (int i) st else (None, st))"

text \<open>Grouping by kind loses, repeats and swaps nothing within a kind.\<close>

lemma filter_concat_kinds:
  "filter (\<lambda>it. item_kind_of it = k) (concat (map (\<lambda>j. filter (\<lambda>it. item_kind_of it = j) xs) ks)) =
     concat (map (\<lambda>j. if j = k then filter (\<lambda>it. item_kind_of it = k) xs else []) ks)"
  by (induction ks) (auto intro!: filter_cong filter_False)

lemma render_items_kinds: "filter (\<lambda>it. item_kind_of it = k) (render_items fuse q d) = filter (\<lambda>it. item_kind_of it = k) (found_items fuse q d)"
  by (cases k) (simp_all add: render_items_def filter_concat_kinds kind_order_def)

lemma render_items_set: "set (render_items fuse q d) = set (found_items fuse q d)"
proof -
  have "it \<in> set (render_items fuse q d) \<longleftrightarrow> it \<in> set (found_items fuse q d)" for it
    using arg_cong [OF render_items_kinds [of "item_kind_of it" fuse q d], of set] by auto
  then show ?thesis by blast
qed

text \<open>Repeated arrow keys stop at the ends of the list.\<close>

lemma arrows_stay:
  assumes "pa_open st" "shown_items fuse st \<noteq> []" "0 \<le> pa_sel st" "pa_sel st < int (length (shown_items fuse st))"
  shows "pa_sel (after_events (palette_step fuse) st (replicate n Pl_Down)) = min (pa_sel st + int n) (int (length (shown_items fuse st)) - 1)"
    "pa_sel (after_events (palette_step fuse) st (replicate n Pl_Up)) = max (pa_sel st - int n) 0"
proof -
  have "after_events (palette_step fuse) st (replicate n Pl_Down) =
      st\<lparr>pa_sel := min (pa_sel st + int n) (int (length (shown_items fuse st)) - 1)\<rparr>"
    using assms
  proof (induction n arbitrary: st)
    case (Suc n)
    let ?st = "st\<lparr>pa_sel := min (pa_sel st + 1) (int (length (shown_items fuse st)) - 1)\<rparr>"
    have s: "shown_items fuse ?st = shown_items fuse st" by (simp add: shown_items_def)
    have "0 < length (shown_items fuse st)" using Suc.prems(2) by simp
    then have "after_events (palette_step fuse) ?st (replicate n Pl_Down) =
        ?st\<lparr>pa_sel := min (pa_sel ?st + int n) (int (length (shown_items fuse ?st)) - 1)\<rparr>"
      using Suc.prems by (intro Suc.IH) (simp_all add: s)
    moreover have "palette_step fuse st Pl_Down = (None, ?st)" using Suc.prems(1) by (simp add: palette_step_def)
    ultimately show ?case by (simp add: s)
  qed (simp add: min_def)
  then show "pa_sel (after_events (palette_step fuse) st (replicate n Pl_Down)) =
      min (pa_sel st + int n) (int (length (shown_items fuse st)) - 1)" by simp
  have "after_events (palette_step fuse) st (replicate n Pl_Up) = st\<lparr>pa_sel := max (pa_sel st - int n) 0\<rparr>"
    using assms(1,3)
  proof (induction n arbitrary: st)
    case (Suc n)
    let ?st = "st\<lparr>pa_sel := max (pa_sel st - 1) 0\<rparr>"
    have "after_events (palette_step fuse) ?st (replicate n Pl_Up) = ?st\<lparr>pa_sel := max (pa_sel ?st - int n) 0\<rparr>"
      using Suc.prems by (intro Suc.IH) simp_all
    moreover have "palette_step fuse st Pl_Up = (None, ?st)" using Suc.prems(1) by (simp add: palette_step_def)
    ultimately show ?case by simp
  qed (simp add: max_def)
  then show "pa_sel (after_events (palette_step fuse) st (replicate n Pl_Up)) = max (pa_sel st - int n) 0" by simp
qed

text \<open>
  Everything a pick can lead to is one of the rows on screen: the pages and the entities of the active cluster as they
  are loaded, and the clusters.
\<close>

definition palette_inv :: "palette \<Rightarrow> bool" where
  "palette_inv st \<longleftrightarrow> (\<not> pa_open st \<longrightarrow> st = palette_closed (pa_data st))"

definition palette_ok :: "palette_item fuse \<Rightarrow> palette \<Rightarrow> nav_target \<Rightarrow> bool" where
  "palette_ok fuse st t \<longleftrightarrow> pa_open st \<and> (\<exists>it\<in>set (all_items (pa_data st)). it \<in> set (shown_items fuse st) \<and> t = target_of it)"

lemma shown_items_all: "fuse_sound fuse \<Longrightarrow> set (shown_items fuse st) \<subseteq> set (all_items (pa_data st))"
  using fuzzy_results_subset [of fuse "[js ''label'']" "pa_query st" "all_items (pa_data st)"]
  by (auto simp: shown_items_def render_items_set found_items_def dest!: in_set_takeD split: if_splits)

lemma pick_item_inv: "palette_inv st \<Longrightarrow> palette_inv (snd (pick_item fuse i st))"
  by (simp add: pick_item_def palette_inv_def palette_closed_def)

lemma pick_item_ok:
  assumes "fuse_sound fuse" "pa_open st" "fst (pick_item fuse i st) = Some t"
  shows "palette_ok fuse st t"
proof -
  have "nat i < length (shown_items fuse st)" "t = target_of (shown_items fuse st ! nat i)"
    using assms(3) by (auto simp: pick_item_def nat_less_iff split: if_splits)
  then have "shown_items fuse st ! nat i \<in> set (shown_items fuse st)" "t = target_of (shown_items fuse st ! nat i)" by simp_all
  then show ?thesis using assms(1,2) shown_items_all [of fuse st] by (auto simp: palette_ok_def)
qed

lemma palette_step_inv:
  assumes "palette_inv st"
  shows "palette_inv (snd (palette_step fuse st e))"
proof (cases "\<exists>i. e = Pl_Click i \<or> e = Pl_Enter")
  case True
  then show ?thesis using assms by (auto simp: palette_step_def pick_item_inv)
next
  case False
  then show ?thesis using assms by (cases st; cases e) (auto simp: palette_step_def palette_inv_def palette_closed_def)
qed

lemma palette_step_ok: "fuse_sound fuse \<Longrightarrow> fst (palette_step fuse st e) = Some t \<Longrightarrow> palette_ok fuse st t"
  by (cases e) (auto simp: palette_step_def pick_item_ok split: if_splits)

interpretation palettes: sender "palette_step fuse" palette_inv "\<lambda>_. fuse_sound fuse" "palette_ok fuse"
  for fuse
  by unfold_locales (simp_all add: palette_step_inv palette_step_ok)

text \<open>
  The down key on an empty list selects the row before the first one: when the loading topics fill the list, no row is
  selected, and Enter opens nothing.
\<close>

lemma down_on_empty_list:
  assumes "pa_open st" "pa_sel st = 0" "shown_items fuse st = []"
  shows "let st' = after_events (palette_step fuse) st [Pl_Down, Pl_Data d] in pa_sel st' = -1 \<and> palette_step fuse st' Pl_Enter = (None, st')"
  using assms by (simp add: palette_step_def pick_item_def)

section \<open>The field path\<close>

text \<open>What the input tells its parent.\<close>

datatype path_out = Path_Changed jstr | Path_Picked jstr path_type

record path_input =
  pi_open :: bool
  pi_query :: jstr

datatype path_event =
    Pi_Focus
  | Pi_Leave
  | Pi_Value jstr
  | Pi_Type jstr
  | Pi_Escape
  | Pi_Down
  | Pi_Tab
  | Pi_Pick nat

text \<open>Whether \<open>/\[(\*|\d+)\]/\<close> matches somewhere.\<close>

fun index_ends :: "jstr \<Rightarrow> bool" where
  "index_ends [] = False"
| "index_ends (c # s) = (if is_digit c then index_ends s else c = 93)"

definition index_starts :: "jstr \<Rightarrow> bool" where
  "index_starts s = (case s of
       b # c # rest \<Rightarrow> b = 91 \<and> ((c = 42 \<and> take 1 rest = [93]) \<or> (is_digit c \<and> index_ends rest))
     | _ \<Rightarrow> False)"

definition has_index :: "jstr \<Rightarrow> bool" where
  "has_index s \<longleftrightarrow> list_ex (\<lambda>i. index_starts (drop i s)) [0..<length s]"

definition path_step :: "(path_tree \<Rightarrow> jstr \<Rightarrow> path_tree) \<Rightarrow> path_tree \<Rightarrow> bool \<Rightarrow> path_input \<Rightarrow> path_event \<Rightarrow> path_out list \<times> path_input" where
  "path_step fuzzy tree toggle st e =
     (case e of
        Pi_Focus \<Rightarrow> ([], st\<lparr>pi_open := True\<rparr>)
      | Pi_Leave \<Rightarrow> ([], st\<lparr>pi_open := False\<rparr>)
      | Pi_Value v \<Rightarrow> ([], st\<lparr>pi_query := v\<rparr>)
      | Pi_Type v \<Rightarrow> ([Path_Changed v], st\<lparr>pi_query := v\<rparr>)
      | Pi_Escape \<Rightarrow> ([], st\<lparr>pi_open := False\<rparr>)
      | Pi_Down \<Rightarrow> ([], st\<lparr>pi_open := True\<rparr>)
      | Pi_Tab \<Rightarrow> (if toggle \<and> has_index (pi_query st) then [Path_Changed (toggle_array_segment (pi_query st))] else [], st)
      | Pi_Pick i \<Rightarrow>
          let rows = suggested_rows fuzzy tree (pi_query st) in
          if pi_open st \<and> i < length rows
          then ([Path_Changed (fst (rows ! i)), Path_Picked (fst (rows ! i)) (snd (rows ! i))],
                \<lparr>pi_open = False, pi_query = fst (rows ! i)\<rparr>)
          else ([], st))"

text \<open>
  Tab looks for an array index anywhere in the path but rewrites the last bracket, also one that quotes a key: the
  path then names another field.
\<close>

lemma tab_rewrites_quoted_key:
  "path_step fuzzy tree True \<lparr>pi_open = True, pi_query = js ''$.items[0]['' @ [39] @ js ''a b'' @ [39] @ js '']''\<rparr> Pi_Tab =
     ([Path_Changed (js ''$.items[0][*]'')], \<lparr>pi_open = True, pi_query = js ''$.items[0]['' @ [39] @ js ''a b'' @ [39] @ js '']''\<rparr>)"
proof -
  have "has_index (js ''$.items[0]['' @ [39] @ js ''a b'' @ [39] @ js '']'')" by code_simp
  moreover have "toggle_array_segment (js ''$.items[0]['' @ [39] @ js ''a b'' @ [39] @ js '']'') = js ''$.items[0][*]''"
    by (simp add: toggle_array_segment_def js_def Let_def)
  ultimately show ?thesis by (simp add: path_step_def)
qed

section \<open>The header key\<close>

record key_input =
  ki_open :: bool
  ki_active :: int

definition key_closed :: key_input where
  "key_closed = \<lparr>ki_open = False, ki_active = -1\<rparr>"

definition key_suggestions :: "header_key_stat fuse \<Rightarrow> header_key_stat list \<Rightarrow> jstr \<Rightarrow> header_key_stat list" where
  "key_suggestions fuse stats typed = (if trim typed \<noteq> [] then fuzzy_results fuse [js ''key''] typed stats else take 12 stats)"

datatype key_event = Ki_Focus | Ki_Blur | Ki_Type jstr | Ki_Down | Ki_Up | Ki_Enter | Ki_Escape | Ki_Click nat

definition pick_key :: "header_key_stat list \<Rightarrow> int \<Rightarrow> key_input \<Rightarrow> jstr option \<times> key_input" where
  "pick_key rows i st =
     (if ki_open st \<and> 0 \<le> i \<and> i < int (length rows) then (Some (hk_key (rows ! nat i)), key_closed) else (None, st))"

definition key_step :: "header_key_stat fuse \<Rightarrow> header_key_stat list \<Rightarrow> jstr \<Rightarrow> key_input \<Rightarrow> key_event \<Rightarrow> jstr option \<times> key_input" where
  "key_step fuse stats typed st e =
     (let rows = key_suggestions fuse stats typed in
      case e of
        Ki_Focus \<Rightarrow> (None, st\<lparr>ki_open := True\<rparr>)
      | Ki_Blur \<Rightarrow> (None, key_closed)
      | Ki_Type v \<Rightarrow> (Some v, \<lparr>ki_open = True, ki_active = -1\<rparr>)
      | Ki_Down \<Rightarrow> (None, \<lparr>ki_open = True, ki_active = min (ki_active st + 1) (int (length rows) - 1)\<rparr>)
      | Ki_Up \<Rightarrow> (None, st\<lparr>ki_active := max (ki_active st - 1) 0\<rparr>)
      | Ki_Enter \<Rightarrow> pick_key rows (ki_active st) st
      | Ki_Escape \<Rightarrow> (None, key_closed)
      | Ki_Click i \<Rightarrow> pick_key rows (int i) st)"

text \<open>Every count is the number of messages that carry the key.\<close>

lemma mget_count_keys: "opt_or (mget (count_keys ks c) k) 0 = opt_or (mget c k) 0 + count_list ks k"
  by (induction ks c rule: count_keys.induct) (auto simp: map_simps)

lemma count_list_distinct: "distinct xs \<Longrightarrow> count_list xs x = (if x \<in> set xs then 1 else 0)"
  by (induction xs) auto

lemma count_list_concat_distinct:
  "\<forall>xs\<in>set xss. distinct xs \<Longrightarrow> count_list (concat xss) x = length (filter (\<lambda>xs. x \<in> set xs) xss)"
  by (induction xss) (auto simp: count_list_distinct)

lemma distinct_count_keys: "distinct (mkeys c) \<Longrightarrow> distinct (mkeys (count_keys ks c))"
  by (induction ks c rule: count_keys.induct) (auto simp: map_simps)

lemma header_key_counts:
  assumes "\<forall>m\<in>set ms. distinct (mkeys (opt_or (m_headers m) []))" "s \<in> set (header_key_stats le ms)"
  shows "hk_count s = length (filter (\<lambda>m. hk_key s \<in> set (mkeys (opt_or (m_headers m) []))) ms)"
proof -
  let ?keys = "map (\<lambda>m. mkeys (opt_or (m_headers m) [])) ms"
  let ?c = "count_keys (concat ?keys) []"
  from assms(2) have "(hk_key s, hk_count s) \<in> set ?c" by (auto simp: header_key_stats_def set_sort_by)
  then have "mget ?c (hk_key s) = Some (hk_count s)"
    using distinct_count_keys [of "[]" "concat ?keys"] by (simp add: mget_mem mkeys_def)
  then have "hk_count s = count_list (concat ?keys) (hk_key s)"
    using mget_count_keys [of "concat ?keys" "[]" "hk_key s"] by (simp add: map_simps)
  also have "\<dots> = length (filter (\<lambda>xs. hk_key s \<in> set xs) ?keys)" using assms(1) by (intro count_list_concat_distinct) auto
  finally show ?thesis by (simp add: filter_map comp_def)
qed

section \<open>The destination topic\<close>

definition max_suggestions :: nat where "max_suggestions = 30"

definition topic_suggestions :: "(jstr \<Rightarrow> jstr) \<Rightarrow> jstr list \<Rightarrow> jstr \<Rightarrow> jstr list" where
  "topic_suggestions lower topics typed =
     (let q = lower (trim typed) in take max_suggestions (if q \<noteq> [] then filter (\<lambda>t. contains_text q (lower t)) topics else topics))"

datatype topic_event = Tc_Type jstr | Tc_Focus | Tc_Outside | Tc_Pick nat

definition topic_step :: "(jstr \<Rightarrow> jstr) \<Rightarrow> bool \<Rightarrow> jstr list \<Rightarrow> jstr \<Rightarrow> bool \<Rightarrow> topic_event \<Rightarrow> jstr option \<times> bool" where
  "topic_step lower disabled topics typed menu e =
     (case e of
        Tc_Type v \<Rightarrow> (Some v, menu)
      | Tc_Focus \<Rightarrow> (None, True)
      | Tc_Outside \<Rightarrow> (None, False)
      | Tc_Pick i \<Rightarrow>
          if menu \<and> \<not> disabled \<and> i < length (topic_suggestions lower topics typed)
          then (Some (topic_suggestions lower topics typed ! i), False) else (None, menu))"

text \<open>After a pick and before the next focus, typing shows no suggestions.\<close>

lemma topic_suggestions_subset: "set (topic_suggestions lower topics typed) \<subseteq> set topics"
  by (auto simp: topic_suggestions_def Let_def dest!: in_set_takeD split: if_splits)

lemma picked_stays_closed:
  assumes "topic_step lower False topics typed True (Tc_Pick i) = (Some p, m)"
  shows "p \<in> set topics \<and> \<not> m \<and> snd (topic_step lower False topics p m (Tc_Type v)) = False"
proof -
  have "i < length (topic_suggestions lower topics typed)" "p = topic_suggestions lower topics typed ! i" "\<not> m"
    using assms by (auto simp: topic_step_def split: if_splits)
  then show ?thesis using topic_suggestions_subset [of lower topics typed] nth_mem by (auto simp: topic_step_def)
qed

end
