(* ===== verification/SchemasPage.thy ===== *)
theory SchemasPage
  imports ConfirmedWrite Fuzzy Api UrlState PathTree
begin

text \<open>
  The schemas page (\<open>frontend/src/routes/clusters.$cluster.schemas.index.tsx\<close>): the list of subjects, what a row and the
  opened version show, and the deletion of a subject behind its typed name, as a step function on events.
\<close>

record subject_info =
  sj_name :: jstr
  sj_versions :: "int list"
  sj_latest_type :: "jstr option"

text \<open>The list, sorted by name before the filter.\<close>

definition listed_subjects :: "subject_info fuse \<Rightarrow> (jstr \<Rightarrow> jstr \<Rightarrow> bool) \<Rightarrow> jstr \<Rightarrow> subject_info list \<Rightarrow> subject_info list" where
  "listed_subjects fuse locale_le q ss =
     fuzzy_results fuse [js ''name''] q (sort_by (\<lambda>a b. locale_le (sj_name a) (sj_name b)) ss)"

text \<open>A row shows the last version of the list as it came, and a type that does not depend on the name.\<close>

definition infer_type :: "jstr \<Rightarrow> jstr" where
  "infer_type name = (if ends_in (js ''-value'') name \<or> ends_in (js ''-key'') name then js ''AVRO'' else js ''AVRO'')"

definition row_version :: "subject_info \<Rightarrow> int option" where
  "row_version s = (if sj_versions s = [] then None else Some (last (sj_versions s)))"

definition row_type :: "subject_info \<Rightarrow> jstr" where
  "row_type s = opt_or (nonempty (sj_latest_type s)) (infer_type (sj_name s))"

record schema_version =
  sv_schema :: jstr
  sv_version :: int
  sv_references :: "(jstr \<times> jstr \<times> int) list option"

definition pretty_schema :: "(jstr \<Rightarrow> json option) \<Rightarrow> schema_version option \<Rightarrow> jstr" where
  "pretty_schema parse s = (case s of
       None \<Rightarrow> []
     | Some v \<Rightarrow> (case parse (sv_schema v) of Some j \<Rightarrow> stringify2 0 j | None \<Rightarrow> sv_schema v))"

definition schema_tabs :: "schema_version \<Rightarrow> jstr list" where
  "schema_tabs v = [js ''Schema'', js ''Versions ('' @ dec_int (sv_version v) @ js '')'', js ''Compatibility'', js ''References'']"

definition latest_line :: "schema_version \<Rightarrow> jstr" where
  "latest_line v = js ''Latest: v'' @ dec_int (sv_version v)"

definition reference_lines :: "schema_version \<Rightarrow> jstr list" where
  "reference_lines v = map (\<lambda>(name, subject, n). name @ [32, 0x2192, 32] @ subject @ js ''/v'' @ dec_int n) (opt_or (sv_references v) [])"

text \<open>
  The page names the opened version as the latest one and as the number of versions, whichever version is opened; a
  row takes the last version of an unsorted list for the latest one.
\<close>

lemma opened_version_called_latest:
  "latest_line (v\<lparr>sv_version := 1\<rparr>) = js ''Latest: v1''" "schema_tabs (v\<lparr>sv_version := 1\<rparr>) ! 1 = js ''Versions (1)''"
  by (simp_all add: latest_line_def schema_tabs_def dec_int_def dec.simps digit_cu_def js_def)

lemma row_version_unsorted:
  "row_version \<lparr>sj_name = n, sj_versions = [1, 3, 2], sj_latest_type = t\<rparr> = Some 2" "latest_version [1, 3, 2] = 3"
  by (simp_all add: row_version_def latest_version_def)

section \<open>The page\<close>

record schemas_page =
  sc_subjects :: "subject_info list"
  sc_filter :: jstr
  sc_pending :: "jstr option"
  sc_dialog :: confirm_dialog
  sc_subject :: "jstr option"
  sc_version :: "jstr option"

definition schemas_initial :: "jstr option \<Rightarrow> jstr option \<Rightarrow> schemas_page" where
  "schemas_initial subject version = \<lparr>sc_subjects = [], sc_filter = [], sc_pending = None, sc_dialog = confirm_closed,
     sc_subject = subject, sc_version = version\<rparr>"

text \<open>The version whose schema is loaded.\<close>

definition opened_version :: "schemas_page \<Rightarrow> (jstr \<times> jstr) option" where
  "opened_version st = map_option (\<lambda>s. (s, opt_or (sc_version st) (js ''latest''))) (nonempty (sc_subject st))"

datatype schemas_event =
    Sc_Subjects "subject_info list"
  | Sc_Filter jstr
  | Sc_Url "jstr option" "jstr option"
  | Sc_Row subject_info
  | Sc_Trash subject_info
  | Sc_Type jstr
  | Sc_Confirm
  | Sc_Dismiss
  | Sc_Deleted bool

definition close_pending :: "schemas_page \<Rightarrow> schemas_page" where
  "close_pending st = st\<lparr>sc_pending := None, sc_dialog := confirm_closed\<rparr>"

text \<open>The request is the subject to delete; the dialog closes with the click, and a refused deletion is told to nobody.\<close>

definition schemas_step :: "subject_info fuse \<Rightarrow> (jstr \<Rightarrow> jstr \<Rightarrow> bool) \<Rightarrow> schemas_page \<Rightarrow> schemas_event \<Rightarrow> jstr option \<times> schemas_page" where
  "schemas_step fuse le st e =
     (let row = (\<lambda>s. sc_pending st = None \<and> s \<in> set (listed_subjects fuse le (sc_filter st) (sc_subjects st))) in
      case e of
        Sc_Subjects ss \<Rightarrow> (None, st\<lparr>sc_subjects := ss\<rparr>)
      | Sc_Filter q \<Rightarrow> (None, st\<lparr>sc_filter := q\<rparr>)
      | Sc_Url s v \<Rightarrow> (None, st\<lparr>sc_subject := s, sc_version := v\<rparr>)
      | Sc_Row s \<Rightarrow> (None, if row s then st\<lparr>sc_subject := Some (sj_name s), sc_version := Some (js ''latest'')\<rparr> else st)
      | Sc_Trash s \<Rightarrow> (None, if row s then st\<lparr>sc_pending := Some (sj_name s), sc_dialog := set_open True confirm_closed\<rparr> else st)
      | Sc_Type t \<Rightarrow> (None, st\<lparr>sc_dialog := type_phrase t (sc_dialog st)\<rparr>)
      | Sc_Confirm \<Rightarrow> (case (confirm_click (sc_pending st) (sc_dialog st), nonempty (sc_pending st)) of
            (Some _, Some name) \<Rightarrow> (Some name, close_pending st)
          | (Some _, None) \<Rightarrow> (None, close_pending st)
          | _ \<Rightarrow> (None, st))
      | Sc_Dismiss \<Rightarrow> (None, close_pending st)
      | Sc_Deleted ok \<Rightarrow> (None, if ok then st\<lparr>sc_subject := None, sc_version := None\<rparr> else st))"

definition schemas_call :: "api_env \<Rightarrow> jstr \<Rightarrow> jstr \<Rightarrow> api_error + json option" where
  "schemas_call env cluster name = delete_subject env cluster name False"

text \<open>A deletion names a subject that was listed, and its name was typed.\<close>

definition schemas_inv :: "jstr set \<Rightarrow> schemas_page \<Rightarrow> bool" where
  "schemas_inv known st \<longleftrightarrow> sj_name ` set (sc_subjects st) \<subseteq> known \<and> set_option (sc_pending st) \<subseteq> known \<and>
     (cd_open (sc_dialog st) \<longrightarrow> sc_pending st \<noteq> None)"

definition schemas_allowed :: "subject_info fuse \<Rightarrow> jstr set \<Rightarrow> schemas_event \<Rightarrow> bool" where
  "schemas_allowed fuse known e \<longleftrightarrow> fuse_sound fuse \<and> (\<forall>ss. e = Sc_Subjects ss \<longrightarrow> sj_name ` set ss \<subseteq> known)"

definition schemas_ok :: "jstr set \<Rightarrow> schemas_page \<Rightarrow> jstr \<Rightarrow> bool" where
  "schemas_ok known st name \<longleftrightarrow> name \<in> known \<and> name \<noteq> [] \<and> cd_open (sc_dialog st) \<and> cd_typed (sc_dialog st) = name"

lemma listed_subjects_known: "fuse_sound fuse \<Longrightarrow> s \<in> set (listed_subjects fuse le q ss) \<Longrightarrow> s \<in> set ss"
  using fuzzy_results_subset [of fuse "[js ''name'']" q "sort_by (\<lambda>a b. le (sj_name a) (sj_name b)) ss"]
    set_mset_mset [of "sort_by (\<lambda>a b. le (sj_name a) (sj_name b)) ss"]
  by (auto simp: listed_subjects_def mset_sort_by simp del: set_mset_mset)

lemma schemas_step_inv: "schemas_inv known st \<Longrightarrow> schemas_allowed fuse known e \<Longrightarrow> schemas_inv known (snd (schemas_step fuse le st e))"
  using listed_subjects_known [of fuse _ le "sc_filter st" "sc_subjects st"]
  by (cases e) (auto simp: schemas_step_def schemas_inv_def schemas_allowed_def close_pending_def set_open_def confirm_closed_def
    type_phrase_def Let_def split: option.splits)

lemma schemas_step_ok: "schemas_inv known st \<Longrightarrow> fst (schemas_step fuse le st e) = Some name \<Longrightarrow> schemas_ok known st name"
  by (cases e) (auto simp: schemas_step_def schemas_inv_def schemas_ok_def confirm_click_iff phrase_ok_def nonempty_def Let_def
    split: option.splits if_splits)

interpretation schema_deletes: sender "schemas_step fuse le" "schemas_inv known" "schemas_allowed fuse known" "schemas_ok known"
  for fuse le known
  by unfold_locales (simp_all add: schemas_step_inv schemas_step_ok)

text \<open>A deletion closes the opened schema, also the one of another subject; a refused one changes nothing on the page.\<close>

lemma deletion_closes_other:
  "sc_subject (snd (schemas_step fuse le (st\<lparr>sc_subject := Some other\<rparr>) (Sc_Deleted True))) = None"
  "schemas_step fuse le st (Sc_Deleted False) = (None, st)"
  by (simp_all add: schemas_step_def)

end
