(* ===== verification/Timeline.thy ===== *)
theory Timeline
  imports Format Api UrlState
begin

text \<open>
  The timeline of a topic (\<open>frontend/src/routes/clusters.$cluster.topics.$topic.timeline.tsx\<close>): the range and slot
  width of a preset, the totals, the selection, the labels of the slots and the geometry of the bar chart. A slot of the
  answer is its start, its end and its approximate count.
\<close>

section \<open>The range\<close>

definition preset_ms :: "timeline_preset \<Rightarrow> int" where
  "preset_ms p = (case p of Tp_24h \<Rightarrow> hour_ms * 24 | Tp_30d \<Rightarrow> day_ms * 30 | Tp_7d \<Rightarrow> day_ms * 7)"

definition preset_slot_ms :: "timeline_preset \<Rightarrow> int" where
  "preset_slot_ms p = (if p = Tp_24h then hour_ms else day_ms)"

record timeline_range =
  tr_from :: int
  tr_to :: int
  tr_slot :: int

definition timeline_range_of :: "int \<Rightarrow> timeline_preset \<Rightarrow> timeline_range" where
  "timeline_range_of now p = \<lparr>tr_from = now - preset_ms p, tr_to = now, tr_slot = preset_slot_ms p\<rparr>"

definition timeline_call :: "api_env \<Rightarrow> jstr \<Rightarrow> jstr \<Rightarrow> int \<Rightarrow> timeline_range \<Rightarrow> api_error + json option" where
  "timeline_call env cluster topic p r = fetch_message_timeline env cluster topic (Some p) (tr_from r) (tr_to r) (tr_slot r)"

text \<open>A range is a whole number of slots: 24, 7 or 30.\<close>

lemma range_slots:
  "tr_to (timeline_range_of now p) - tr_from (timeline_range_of now p) =
     (case p of Tp_24h \<Rightarrow> 24 | Tp_7d \<Rightarrow> 7 | Tp_30d \<Rightarrow> 30) * tr_slot (timeline_range_of now p)"
  by (cases p) (simp_all add: timeline_range_of_def preset_ms_def preset_slot_ms_def)

section \<open>Slots\<close>

record slot =
  sl_from :: int
  sl_to :: int
  sl_count :: int

definition slots_total :: "slot list \<Rightarrow> int" where
  "slots_total slots = foldl (\<lambda>s b. s + sl_count b) 0 slots"

definition slots_max :: "slot list \<Rightarrow> int" where
  "slots_max slots = max_list 1 (map sl_count slots)"

definition slot_label :: "zone \<Rightarrow> slot \<Rightarrow> timeline_preset \<Rightarrow> timestamp_zone \<Rightarrow> jstr" where
  "slot_label z b p mode =
     (let d = (case mode of Zone_Utc \<Rightarrow> utc_parts (sl_from b) | Zone_Local \<Rightarrow> local_parts z (sl_from b)) in
      if p = Tp_24h then pad (dp_hours d) 2 @ js '':00''
      else dec_int (dp_year d) @ js ''-'' @ pad (dp_month d) 2 @ js ''-'' @ pad (dp_day d) 2)"

text \<open>\<open>.slice(-5)\<close>\<close>

definition axis_label :: "zone \<Rightarrow> slot \<Rightarrow> timeline_preset \<Rightarrow> timestamp_zone \<Rightarrow> jstr" where
  "axis_label z b p mode = (let s = slot_label z b p mode in drop (length s - 5) s)"

definition toggle_selected :: "nat option \<Rightarrow> nat \<Rightarrow> nat option" where
  "toggle_selected selected i = (if selected = Some i then None else Some i)"

text \<open>Choosing a preset or a partition clears the selection.\<close>

record timeline_page =
  tp_preset :: timeline_preset
  tp_partition :: rat
  tp_selected :: "nat option"

datatype timeline_event = Tl_Preset timeline_preset | Tl_Partition rat | Tl_Select nat

definition timeline_step :: "timeline_page \<Rightarrow> timeline_event \<Rightarrow> timeline_page" where
  "timeline_step st e =
     (case e of
        Tl_Preset p \<Rightarrow> st\<lparr>tp_preset := p, tp_selected := None\<rparr>
      | Tl_Partition p \<Rightarrow> st\<lparr>tp_partition := p, tp_selected := None\<rparr>
      | Tl_Select i \<Rightarrow> st\<lparr>tp_selected := toggle_selected (tp_selected st) i\<rparr>)"

section \<open>The chart\<close>

definition chart_height :: nat where "chart_height = 140"
definition bar_gap :: rat where "bar_gap = 2"

definition available_width :: "nat \<Rightarrow> rat" where
  "available_width container = (if container = 0 then 600 else of_nat container)"

definition bar_width :: "nat \<Rightarrow> nat \<Rightarrow> rat" where
  "bar_width container n = max 2 (available_width container / of_nat n - bar_gap)"

definition chart_width :: "nat \<Rightarrow> nat \<Rightarrow> rat" where
  "chart_width container n = max (available_width container) (of_nat n * (bar_width container n + bar_gap))"

text \<open>\<open>Math.ceil(n / 15)\<close>, at least one.\<close>

definition label_step :: "nat \<Rightarrow> nat" where
  "label_step n = max 1 ((n + 14) div 15)"

record bar =
  br_x :: rat
  br_y :: int
  br_height :: int
  br_counted :: bool
  br_labelled :: bool

definition bar_of :: "nat \<Rightarrow> slot list \<Rightarrow> nat \<Rightarrow> bar" where
  "bar_of container slots i =
     (let n = length slots; b = slots ! i; h = math_round (of_int (sl_count b) / of_int (slots_max slots) * of_nat (chart_height - 8));
          labelled = (i mod label_step n = 0)
      in \<lparr>br_x = of_nat i * (bar_width container n + bar_gap), br_y = int chart_height - h, br_height = max 1 h,
          br_counted = labelled \<and> 0 < sl_count b, br_labelled = labelled\<rparr>)"

text \<open>Bars lie side by side inside the chart and are never higher than it; the labels are at most 15.\<close>

lemma slots_max_upper: "b \<in> set slots \<Longrightarrow> sl_count b \<le> slots_max slots" "1 \<le> slots_max slots"
  using max_list_ge [of 1 "map sl_count slots"] by (auto simp: slots_max_def)

lemma bars_inside:
  assumes "i < length slots"
  shows "br_x (bar_of container slots i) + bar_width container (length slots) \<le> chart_width container (length slots)"
    "Suc i < length slots \<Longrightarrow> br_x (bar_of container slots i) + bar_width container (length slots) + bar_gap = br_x (bar_of container slots (Suc i))"
proof -
  let ?w = "bar_width container (length slots)"
  have "of_nat (Suc i) * (?w + bar_gap) \<le> of_nat (length slots) * (?w + bar_gap)"
    using assms by (intro mult_right_mono) (simp_all add: bar_width_def bar_gap_def)
  then show "br_x (bar_of container slots i) + ?w \<le> chart_width container (length slots)"
    by (simp add: bar_of_def Let_def chart_width_def bar_gap_def algebra_simps)
  show "br_x (bar_of container slots i) + ?w + bar_gap = br_x (bar_of container slots (Suc i))"
    by (simp add: bar_of_def Let_def algebra_simps)
qed

lemma label_count: "card {i. i < n \<and> i mod label_step n = 0} \<le> 15"
proof -
  have pos: "0 < label_step n" by (simp add: label_step_def)
  have "n \<le> 15 * ((n + 14) div 15)" by presburger
  then have le: "n \<le> 15 * label_step n" by (simp add: label_step_def)
  have "{i. i < n \<and> i mod label_step n = 0} \<subseteq> (\<lambda>q. q * label_step n) ` {..<15}"
  proof
    fix i
    assume i: "i \<in> {i. i < n \<and> i mod label_step n = 0}"
    then have "i = (i div label_step n) * label_step n" by auto
    moreover have "i div label_step n < 15" using i le pos by (simp add: less_mult_imp_div_less)
    ultimately show "i \<in> (\<lambda>q. q * label_step n) ` {..<15}" by blast
  qed
  then have "card {i. i < n \<and> i mod label_step n = 0} \<le> card ((\<lambda>q. q * label_step n) ` {..<15})" by (intro card_mono) simp_all
  also have "\<dots> \<le> 15" using card_image_le [of "{..<15}" "\<lambda>q. q * label_step n"] by simp
  finally show ?thesis .
qed

text \<open>Thirty daily slots get 15 labels.\<close>

lemma thirty_slots_labels: "card {i. i < 30 \<and> i mod label_step 30 = 0} = 15"
proof -
  have "{i::nat. i < 30 \<and> i mod label_step 30 = 0} = set (filter (\<lambda>i. i mod 2 = 0) [0..<30])" by (auto simp: label_step_def numeral_2_eq_2 [symmetric])
  also have "card \<dots> = length (filter (\<lambda>i. i mod 2 = 0) [0..<30::nat])" by (rule distinct_card) simp
  also have "\<dots> = 15" by (simp add: upt_rec)
  finally show ?thesis .
qed

end
