(* ===== verification/Overview.thy ===== *)
theory Overview
  imports ConfirmedWrite Fuzzy ClusterSwitcher UrlState Format DataTable Preferences GroupsPage
begin

text \<open>
  The fleet page (\<open>frontend/src/routes/clusters.index.tsx\<close>) and the cluster switcher in the header
  (\<open>features/shell/ClusterPill.tsx\<close>). \<open>localeCompare\<close> is the order \<open>le\<close>; the switcher is a step function on events.
\<close>

section \<open>The fleet page\<close>

record fleet_row = cluster_info +
  fr_private :: bool

text \<open>Unlike the switcher, the page reads a missing \<open>tls\<close> as off, and an empty registry URL as a registry.\<close>

definition private_row :: "private_cluster \<Rightarrow> fleet_row" where
  "private_row c = \<lparr>cl_name = ci_name c, cl_reachable = True, cl_error = None, cl_error_class = None, cl_is_prod = isTrue (ci_is_prod c),
     cl_auth_type = au_type (ci_auth c), cl_tls = (case ci_tls c of None \<Rightarrow> False | Some t \<Rightarrow> tls_enabled t),
     cl_schema_registry = (ci_registry c \<noteq> None), cl_capabilities = None, cl_broker_issues = None, cl_brokers_skipped = None,
     cl_brokers = None, cl_topics = None, cl_groups = None, cl_total_messages = None, cl_total_lag = None, cl_total_rate = None,
     fr_private = True\<rparr>"

definition fleet_rows :: "cluster_info list option \<Rightarrow> bool \<Rightarrow> private_cluster list \<Rightarrow> fleet_row list option" where
  "fleet_rows loaded allowed privates =
     (case loaded of
        None \<Rightarrow> None
      | Some shared \<Rightarrow> Some (map (\<lambda>c. cluster_info.extend c \<lparr>fr_private = False\<rparr>) shared @
          map private_row (filter (\<lambda>p. ci_name p \<notin> cl_name ` set shared) (if allowed then privates else []))))"

definition environment_of :: "jstr \<Rightarrow> jstr" where
  "environment_of name = (let e = takeWhile (\<lambda>c. c \<noteq> 45) name in if e \<noteq> [] \<and> e \<noteq> name then e else name)"

definition is_limited :: "('a cluster_info_scheme) \<Rightarrow> bool" where
  "is_limited c \<longleftrightarrow> (case Option.bind (cl_capabilities c) ca_errors of None \<Rightarrow> False | Some es \<Rightarrow> es \<noteq> [])"

definition environment_count :: "fleet_row list \<Rightarrow> nat" where
  "environment_count cs = length (dedupe_from (\<lambda>e. e) [] (map (environment_of \<circ> cl_name) cs))"

definition fleet_title :: "bool \<Rightarrow> fleet_row list option \<Rightarrow> jstr" where
  "fleet_title loading rows =
     (let n = length (opt_or rows []); e = environment_count (opt_or rows []) in
      if loading then js ''Loading clusters'' @ [0x2026]
      else if n = 0 then js ''Welcome to kafkito''
      else dec n @ js '' Kafka '' @ js (if n = 1 then ''cluster'' else ''clusters'') @ js '' across '' @ dec e @ [32] @
        js (if e = 1 then ''environment'' else ''environments''))"

text \<open>Totals of the metrics the clusters report; \<open>None\<close> when none does. A rate that is no number does not count.\<close>

record fleet_totals =
  ft_rate :: "rat option"
  ft_lag :: "int option"
  ft_topics :: "int option"

definition rate_of :: "json option \<Rightarrow> rat option" where
  "rate_of v = (case v of Some (JsInt i) \<Rightarrow> Some (of_int i) | Some (JsFrac l) \<Rightarrow> js_number l | _ \<Rightarrow> None)"

definition add_metric :: "'a::plus option \<Rightarrow> 'a option \<Rightarrow> 'a option" where
  "add_metric acc v = (case v of None \<Rightarrow> acc | Some x \<Rightarrow> Some (case acc of None \<Rightarrow> x | Some t \<Rightarrow> t + x))"

definition aggregate_totals :: "fleet_row list \<Rightarrow> fleet_totals" where
  "aggregate_totals cs = foldl (\<lambda>t c. \<lparr>ft_rate = add_metric (ft_rate t) (rate_of (cl_total_rate c)),
     ft_lag = add_metric (ft_lag t) (cl_total_lag c), ft_topics = add_metric (ft_topics t) (cl_topics c)\<rparr>)
     \<lparr>ft_rate = None, ft_lag = None, ft_topics = None\<rparr> cs"

definition sorted_fleet :: "(jstr \<Rightarrow> jstr \<Rightarrow> bool) \<Rightarrow> fleet_row list \<Rightarrow> fleet_row list" where
  "sorted_fleet le cs = sort_by (\<lambda>a b. le (cl_name a) (cl_name b)) cs"

definition unreachable_names :: "fleet_row list \<Rightarrow> jstr list" where
  "unreachable_names cs = map cl_name (filter (\<lambda>c. \<not> cl_reachable c) cs)"

definition fleet_subtitle :: "fleet_row list \<Rightarrow> jstr list" where
  "fleet_subtitle cs =
     (let p = length (filter fr_private cs) in
      [dec (length cs) @ js '' total'', dec (length (filter cl_reachable cs)) @ js '' reachable''] @
      (if 0 < p then [dec p @ js '' private (browser-local)''] else []))"

definition row_tags :: "fleet_row \<Rightarrow> jstr list" where
  "row_tags c = (if fr_private c then [js ''PRIVATE''] else []) @ (if cl_is_prod c then [js ''PROD''] else []) @
     (if is_limited c then [js ''LIMITED''] else []) @ (if cl_reachable c then [] else [js ''UNREACHABLE''])"

definition security_tags :: "fleet_row \<Rightarrow> jstr list" where
  "security_tags c = (if cl_tls c then [js ''TLS''] else []) @
     (if cl_auth_type c \<noteq> [] \<and> cl_auth_type c \<noteq> js ''none'' then [cl_auth_type c] else []) @ (if cl_schema_registry c then [js ''SR''] else [])"

definition metric_text :: "('a \<Rightarrow> jstr) \<Rightarrow> 'a option \<Rightarrow> jstr" where
  "metric_text fmt v = (case v of None \<Rightarrow> dash | Some x \<Rightarrow> fmt x)"

text \<open>Once the server's list has loaded, page and switcher list the same names in the same order.\<close>

lemma fleet_rows_switcher:
  assumes "merged_clusters (Some shared) allowed privates = Some (Some items)" "fleet_rows (Some shared) allowed privates = Some rows"
  shows "map cl_name rows = map cl_name items"
proof -
  have n: "private_to_list_item p = Some it \<Longrightarrow> cl_name it = ci_name p" for p it
    by (auto simp: private_to_list_item_def split: option.splits)
  have "those (map private_to_list_item ps) = Some its \<Longrightarrow> map cl_name its = map ci_name ps" for ps its
    by (induction ps arbitrary: its) (auto simp: n split: option.splits)
  moreover have s: "map cl_name (filter (\<lambda>c. cl_name c \<notin> S) its) = filter (\<lambda>x. x \<notin> S) (map cl_name its)" for S and its :: "cluster_list_item list"
    by (simp add: filter_map comp_def)
  moreover have "map ci_name (filter (\<lambda>c. ci_name c \<notin> S) ps) = filter (\<lambda>x. x \<notin> S) (map ci_name ps)" for S and ps :: "private_cluster list"
    by (simp add: filter_map comp_def)
  ultimately show ?thesis using assms
    by (auto simp: merged_clusters_def fleet_rows_def shared_to_list_item_def cluster_info.defs private_row_def comp_def Let_def image_image
        split: option.splits if_splits)
qed

text \<open>While the list fails to load, the page shows no cluster, not even the private ones the switcher still lists.\<close>

lemma fleet_rows_failed: "fleet_rows None allowed privates = None"
  by (simp add: fleet_rows_def)

lemma empty_registry_url_differs:
  assumes "ci_tls c = Some t" "ci_registry c = Some r" "sr_url r = Some []"
  shows "cl_schema_registry (private_row c)" "\<not> cl_schema_registry (the (private_to_list_item c))"
  using assms by (simp_all add: private_row_def private_to_list_item_def nonempty_def)

text \<open>A total is the sum of what is reported, and missing only when nothing is.\<close>

lemma add_metric_fold:
  fixes acc :: "'a::comm_monoid_add option"
  shows "foldl (\<lambda>t c. add_metric t (f c)) acc cs =
    (if acc = None \<and> (\<forall>c\<in>set cs. f c = None) then None
     else Some ((case acc of None \<Rightarrow> 0 | Some t \<Rightarrow> t) + sum_list (map (\<lambda>c. case f c of None \<Rightarrow> 0 | Some x \<Rightarrow> x) cs)))"
  by (induction cs arbitrary: acc) (auto simp: add_metric_def add.assoc split: option.splits)

lemma aggregate_totals_sums:
  "ft_lag (aggregate_totals cs) = (if \<forall>c\<in>set cs. cl_total_lag c = None then None
     else Some (sum_list (map (\<lambda>c. opt_or (cl_total_lag c) 0) cs)))"
  "ft_topics (aggregate_totals cs) = (if \<forall>c\<in>set cs. cl_topics c = None then None
     else Some (sum_list (map (\<lambda>c. opt_or (cl_topics c) 0) cs)))"
proof -
  have f: "ft_lag (foldl (\<lambda>t c. \<lparr>ft_rate = add_metric (ft_rate t) (rate_of (cl_total_rate c)),
      ft_lag = add_metric (ft_lag t) (cl_total_lag c), ft_topics = add_metric (ft_topics t) (cl_topics c)\<rparr>) t cs) =
      foldl (\<lambda>t c. add_metric t (cl_total_lag c)) (ft_lag t) cs"
    "ft_topics (foldl (\<lambda>t c. \<lparr>ft_rate = add_metric (ft_rate t) (rate_of (cl_total_rate c)),
      ft_lag = add_metric (ft_lag t) (cl_total_lag c), ft_topics = add_metric (ft_topics t) (cl_topics c)\<rparr>) t cs) =
      foldl (\<lambda>t c. add_metric t (cl_topics c)) (ft_topics t) cs" for t :: fleet_totals and cs :: "fleet_row list"
    by (induction cs arbitrary: t) simp_all
  have o: "(case x of None \<Rightarrow> 0 | Some y \<Rightarrow> y) = opt_or x 0" for x :: "int option" by (cases x) simp_all
  show "ft_lag (aggregate_totals cs) = (if \<forall>c\<in>set cs. cl_total_lag c = None then None
      else Some (sum_list (map (\<lambda>c. opt_or (cl_total_lag c) 0) cs)))"
    by (simp add: aggregate_totals_def f add_metric_fold o)
  show "ft_topics (aggregate_totals cs) = (if \<forall>c\<in>set cs. cl_topics c = None then None
      else Some (sum_list (map (\<lambda>c. opt_or (cl_topics c) 0) cs)))"
    by (simp add: aggregate_totals_def f add_metric_fold o)
qed

section \<open>The cluster switcher\<close>

definition brokers_hint :: "cluster_list_item option \<Rightarrow> jstr" where
  "brokers_hint c =
     (case c of
        None \<Rightarrow> []
      | Some i \<Rightarrow> let auth = cl_auth_type i \<noteq> [] \<and> cl_auth_type i \<noteq> js ''none'' in
          if cl_tls i then (if auth then cl_auth_type i @ [32, 0xB7, 32] @ js ''TLS'' else js ''TLS'')
          else if auth then cl_auth_type i else js ''no auth'')"

text \<open>
  The state of the popover; \<open>pl_focus\<close> is the focused item, \<open>None\<close> the filter input. The list is the one of
  \<open>useCluster\<close>.
\<close>

record pill =
  pl_clusters :: "cluster_list_item list"
  pl_cluster :: "jstr option"
  pl_open :: bool
  pl_active :: nat
  pl_query :: jstr
  pl_focus :: "nat option"

definition pill_sorted :: "(jstr \<Rightarrow> jstr \<Rightarrow> bool) \<Rightarrow> pill \<Rightarrow> cluster_list_item list" where
  "pill_sorted le st = sort_by (\<lambda>a b. le (cl_name a) (cl_name b)) (pl_clusters st)"

definition pill_visible :: "cluster_list_item fuse \<Rightarrow> (jstr \<Rightarrow> jstr \<Rightarrow> bool) \<Rightarrow> pill \<Rightarrow> cluster_list_item list" where
  "pill_visible fuse le st = fuzzy_results fuse [js ''name''] (pl_query st) (pill_sorted le st)"

fun first_index :: "('a \<Rightarrow> bool) \<Rightarrow> 'a list \<Rightarrow> nat option" where
  "first_index P [] = None"
| "first_index P (x # xs) = (if P x then Some 0 else map_option Suc (first_index P xs))"

text \<open>
  The effects of an open popover whose list changed: the layout effect empties the filter and goes to the active
  cluster; when the filter was not empty, the effect of its change then goes to the first row.
\<close>

definition pill_reset :: "(jstr \<Rightarrow> jstr \<Rightarrow> bool) \<Rightarrow> pill \<Rightarrow> pill" where
  "pill_reset le st = st\<lparr>pl_query := [], pl_focus := None,
     pl_active := (if pl_query st \<noteq> [] then 0
       else opt_or (first_index (\<lambda>c. Some (cl_name c) = pl_cluster st) (pill_sorted le st)) 0)\<rparr>"

datatype pill_key = Key_Down | Key_Up | Key_Home | Key_End | Key_Enter

datatype pill_event =
    Pe_Clusters "cluster_list_item list" "jstr option"
  | Pe_Trigger
  | Pe_Close
  | Pe_Query jstr
  | Pe_Key pill_key
  | Pe_Click nat

definition list_key :: "nat \<Rightarrow> nat \<Rightarrow> pill_key \<Rightarrow> nat option" where
  "list_key n active k =
     (if n = 0 then None
      else case k of
          Key_Down \<Rightarrow> Some ((active + 1) mod n)
        | Key_Up \<Rightarrow> Some ((active + n - 1) mod n)
        | Key_Home \<Rightarrow> Some 0
        | Key_End \<Rightarrow> Some (n - 1)
        | Key_Enter \<Rightarrow> None)"

definition choose_row :: "cluster_list_item list \<Rightarrow> nat \<Rightarrow> pill \<Rightarrow> jstr option \<times> pill" where
  "choose_row rows i st = (if i < length rows then (Some (cl_name (rows ! i)), st\<lparr>pl_open := False\<rparr>) else (None, st))"

text \<open>
  A key in the filter input runs the handler of the input and then, since the event goes on, the one of the list
  around it; the second one wins. In an item, Enter is its click.
\<close>

definition pill_step :: "cluster_list_item fuse \<Rightarrow> (jstr \<Rightarrow> jstr \<Rightarrow> bool) \<Rightarrow> pill \<Rightarrow> pill_event \<Rightarrow> jstr option \<times> pill" where
  "pill_step fuse le st e =
     (let rows = pill_visible fuse le st in
      case e of
        Pe_Clusters cs c \<Rightarrow> (None, let st' = st\<lparr>pl_clusters := cs, pl_cluster := c\<rparr> in if pl_open st then pill_reset le st' else st')
      | Pe_Trigger \<Rightarrow> (None, if pl_open st then st\<lparr>pl_open := False\<rparr> else pill_reset le (st\<lparr>pl_open := True\<rparr>))
      | Pe_Close \<Rightarrow> (None, st\<lparr>pl_open := False\<rparr>)
      | Pe_Query q \<Rightarrow> (None, if pl_open st \<and> q \<noteq> pl_query st then st\<lparr>pl_query := q, pl_active := 0\<rparr> else st)
      | Pe_Click i \<Rightarrow> if pl_open st then choose_row rows i st else (None, st)
      | Pe_Key k \<Rightarrow>
          if \<not> pl_open st then (None, st)
          else if k = Key_Enter
            then choose_row rows (case pl_focus st of Some i \<Rightarrow> i | None \<Rightarrow> if pl_active st < length rows then pl_active st else 0) st
          else case list_key (length rows) (pl_active st) k of
              None \<Rightarrow> (None, st)
            | Some i \<Rightarrow> (None, st\<lparr>pl_active := i, pl_focus := Some i\<rparr>))"

text \<open>
  The down key of the filter means the first match, but the handler of the list goes one further: it focuses the
  second one.
\<close>

lemma down_skips_first_match:
  assumes "pl_open st" "q \<noteq> pl_query st" "1 < length (pill_visible fuse le (st\<lparr>pl_query := q\<rparr>))"
  shows "pl_focus (after_events (pill_step fuse le) st [Pe_Query q, Pe_Key Key_Down]) = Some 1"
proof -
  let ?s = "st\<lparr>pl_query := q, pl_active := 0\<rparr>"
  have v: "pill_visible fuse le ?s = pill_visible fuse le (st\<lparr>pl_query := q\<rparr>)" by (simp add: pill_visible_def pill_sorted_def)
  have "pill_step fuse le st (Pe_Query q) = (None, ?s)" using assms(1,2) by (simp add: pill_step_def Let_def)
  moreover have "pill_step fuse le ?s (Pe_Key Key_Down) = (None, ?s\<lparr>pl_active := 1, pl_focus := Some 1\<rparr>)"
    using assms(1,3) v by (cases "length (pill_visible fuse le (st\<lparr>pl_query := q\<rparr>))") (auto simp: pill_step_def Let_def list_key_def)
  ultimately show ?thesis by simp
qed

text \<open>
  Opened again after a filter was typed, the popover stands on its first row instead of the active cluster, and Enter
  switches to the first cluster. Without a filter before, it stays with the active one.
\<close>

lemma reopened_enter:
  assumes "\<not> pl_open st" "pill_sorted le st = c # cs" "first_index (\<lambda>d. Some (cl_name d) = pl_cluster st) (c # cs) = Some i"
  shows "fst (pill_step fuse le (snd (pill_step fuse le st Pe_Trigger)) (Pe_Key Key_Enter)) =
    (if pl_query st \<noteq> [] then Some (cl_name c) else pl_cluster st)"
proof -
  let ?s = "pill_reset le (st\<lparr>pl_open := True\<rparr>)"
  have i: "first_index P xs = Some j \<Longrightarrow> j < length xs \<and> P (xs ! j)" for P and xs :: "cluster_list_item list" and j
    by (induction xs arbitrary: j) (auto split: if_splits)
  have v: "pill_visible fuse le ?s = c # cs"
    using assms(2) by (simp add: pill_visible_def pill_reset_def pill_sorted_def fuzzy_results_def trim_def trim_start_def trim_end_def)
  have "snd (pill_step fuse le st Pe_Trigger) = ?s" using assms(1) by (simp add: pill_step_def Let_def)
  moreover have "fst (pill_step fuse le ?s (Pe_Key Key_Enter)) = (if pl_query st \<noteq> [] then Some (cl_name c) else pl_cluster st)"
  proof (cases "pl_query st = []")
    case True
    then have "pl_active ?s = i" "pl_focus ?s = None" "pl_open ?s"
      using assms(2,3) by (simp_all add: pill_reset_def pill_sorted_def)
    then show ?thesis using True v i [OF assms(3)] by (simp add: pill_step_def Let_def choose_row_def)
  next
    case False
    then have "pl_active ?s = 0" "pl_focus ?s = None" "pl_open ?s" by (simp_all add: pill_reset_def)
    then show ?thesis using False v by (simp add: pill_step_def Let_def choose_row_def)
  qed
  ultimately show ?thesis by simp
qed

text \<open>What is chosen is always a cluster of the list.\<close>

definition pill_ok :: "pill \<Rightarrow> jstr \<Rightarrow> bool" where
  "pill_ok st name \<longleftrightarrow> pl_open st \<and> name \<in> cl_name ` set (pl_clusters st)"

lemma pill_visible_listed: "fuse_sound fuse \<Longrightarrow> set (pill_visible fuse le st) \<subseteq> set (pl_clusters st)"
  using fuzzy_results_subset [of fuse "[js ''name'']" "pl_query st" "pill_sorted le st"]
    arg_cong [OF mset_sort_by [of "\<lambda>a b. le (cl_name a) (cl_name b)" "pl_clusters st"], of set_mset]
  by (auto simp: pill_visible_def pill_sorted_def)

lemma choose_row_ok:
  assumes "fuse_sound fuse" "pl_open st" "fst (choose_row (pill_visible fuse le st) i st) = Some n"
  shows "pill_ok st n"
proof -
  have i: "i < length (pill_visible fuse le st)" "n = cl_name (pill_visible fuse le st ! i)"
    using assms(3) by (auto simp: choose_row_def split: if_splits)
  then have "pill_visible fuse le st ! i \<in> set (pl_clusters st)" using pill_visible_listed [OF assms(1), of le st] by auto
  then show ?thesis using assms(2) i(2) by (simp add: pill_ok_def)
qed

lemma pill_step_ok: "fuse_sound fuse \<Longrightarrow> fst (pill_step fuse le st e) = Some n \<Longrightarrow> pill_ok st n"
  using choose_row_ok [of fuse st le]
  by (cases e) (auto simp: pill_step_def Let_def split: if_splits option.splits)

interpretation pills: sender "pill_step fuse le" "\<lambda>_. True" "\<lambda>_. fuse_sound fuse" pill_ok
  for fuse le
  by unfold_locales (simp_all add: pill_step_ok)

end
