(* ===== verification/TopicsPage.thy ===== *)
theory TopicsPage
  imports Fuzzy UrlState DataTable GroupsPage Preferences ClusterSwitcher
begin

text \<open>
  The page of the topic list (\<open>frontend/src/routes/clusters.$cluster.topics.index.tsx\<close>) over the filters of
  \<open>Topics\<close>: which topics it lists, when the retention filter is off, how an action changes the URL, and the cells of
  its table (\<open>features/topics/TopicsTable.tsx\<close>). \<open>localeCompare\<close> is the order \<open>le\<close>.
\<close>

section \<open>The list\<close>

definition internal_count :: "topic_info list \<Rightarrow> nat" where
  "internal_count ts = length (filter ti_is_internal ts)"

definition base_topics :: "(jstr \<Rightarrow> jstr \<Rightarrow> bool) \<Rightarrow> topic_list_search \<Rightarrow> topic_info list option \<Rightarrow> topic_info list" where
  "base_topics le s ts = filter_topics le (opt_or ts []) \<lparr>tf_show_internal = tl_internal s, tf_partitions = None, tf_retention = None\<rparr>"

text \<open>Why the retention filter is off, if it is: \<open>True\<close> when the permission is known to be missing.\<close>

definition retention_disabled :: "(jstr \<Rightarrow> jstr \<Rightarrow> bool) \<Rightarrow> capabilities option \<Rightarrow> topic_list_search \<Rightarrow> topic_info list option \<Rightarrow> bool option" where
  "retention_disabled le caps s ts =
     (if ts \<noteq> None \<and> base_topics le s ts \<noteq> [] \<and> \<not> has_known_retention (base_topics le s ts)
      then Some (case caps of None \<Rightarrow> False | Some c \<Rightarrow> \<not> ca_describe_configs c) else None)"

definition active_retention :: "(jstr \<Rightarrow> jstr \<Rightarrow> bool) \<Rightarrow> capabilities option \<Rightarrow> topic_list_search \<Rightarrow> topic_info list option \<Rightarrow> retention_bucket option" where
  "active_retention le caps s ts = (if retention_disabled le caps s ts \<noteq> None then None else tl_retention s)"

definition filtered_topics :: "(jstr \<Rightarrow> jstr \<Rightarrow> bool) \<Rightarrow> capabilities option \<Rightarrow> topic_list_search \<Rightarrow> topic_info list option \<Rightarrow> topic_info list" where
  "filtered_topics le caps s ts = filter_topics le (opt_or ts [])
     \<lparr>tf_show_internal = tl_internal s, tf_partitions = tl_partitions s, tf_retention = active_retention le caps s ts\<rparr>"

definition shown_topics :: "topic_info fuse \<Rightarrow> (jstr \<Rightarrow> jstr \<Rightarrow> bool) \<Rightarrow> capabilities option \<Rightarrow> topic_list_search \<Rightarrow>
    topic_info list option \<Rightarrow> topic_info list" where
  "shown_topics fuse le caps s ts = fuzzy_results fuse [js ''name''] (opt_or (tl_q s) []) (filtered_topics le caps s ts)"

definition max_size :: "topic_info list \<Rightarrow> int" where
  "max_size ts = max_list 0 (map (\<lambda>t. opt_or (ti_size_bytes t) 0) ts)"

definition filters_active :: "(jstr \<Rightarrow> jstr \<Rightarrow> bool) \<Rightarrow> capabilities option \<Rightarrow> topic_list_search \<Rightarrow> topic_info list option \<Rightarrow> bool" where
  "filters_active le caps s ts \<longleftrightarrow>
     nonempty (tl_q s) \<noteq> None \<or> tl_partitions s \<noteq> None \<or> active_retention le caps s ts \<noteq> None"

text \<open>What stands in the place of an empty list.\<close>

datatype empty_topics = No_Name_Match jstr | No_Filter_Match | Internal_Hidden nat | No_Topics

definition empty_topics_of :: "(jstr \<Rightarrow> jstr \<Rightarrow> bool) \<Rightarrow> capabilities option \<Rightarrow> topic_list_search \<Rightarrow> topic_info list option \<Rightarrow> empty_topics" where
  "empty_topics_of le caps s ts =
     (if filters_active le caps s ts
      then (case nonempty (tl_q s) of
          Some q \<Rightarrow> if tl_partitions s = None \<and> active_retention le caps s ts = None then No_Name_Match q else No_Filter_Match
        | None \<Rightarrow> No_Filter_Match)
      else if tl_internal s \<noteq> Some True \<and> 0 < internal_count (opt_or ts []) then Internal_Hidden (internal_count (opt_or ts []))
      else No_Topics)"

definition retention_toast :: "jstr option \<Rightarrow> capabilities option \<Rightarrow> once_state \<Rightarrow> bool \<times> once_state" where
  "retention_toast cluster caps s =
     (case nonempty cluster of
        None \<Rightarrow> (False, s)
      | Some c \<Rightarrow> if (case caps of None \<Rightarrow> True | Some k \<Rightarrow> ca_describe_configs k) then (False, s)
          else claim_once (js ''topics.retention-denied.'' @ c) s)"

section \<open>Changing the URL\<close>

text \<open>The members a patch names are replaced, by nothing where it says undefined; the merged object is parsed again.\<close>

definition search_keys :: "jstr list" where
  "search_keys = map js [''q'', ''internal'', ''partitions'', ''retention'', ''sort'', ''dir'']"

definition patched :: "(jstr \<times> json option) list \<Rightarrow> topic_list_search \<Rightarrow> json" where
  "patched patch s = JsObject (members (map (\<lambda>k. (k, case map_of patch k of Some v \<Rightarrow> v | None \<Rightarrow> jprop k (topic_list_search_json s))) search_keys))"

definition set_search :: "(jstr \<times> json option) list \<Rightarrow> topic_list_search \<Rightarrow> topic_list_search" where
  "set_search patch s = parse_topic_list_search (patched patch s)"

definition clear_filters :: "topic_list_search \<Rightarrow> topic_list_search" where
  "clear_filters = set_search [(js ''q'', None), (js ''partitions'', None), (js ''retention'', None)]"

datatype topics_event =
    Tp_Query jstr
  | Tp_Partitions jstr
  | Tp_Retention jstr
  | Tp_Internal
  | Tp_Clear
  | Tp_Sort "table_sort option"

definition topics_step :: "(jstr \<Rightarrow> jstr \<Rightarrow> bool) \<Rightarrow> capabilities option \<Rightarrow> topic_info list option \<Rightarrow> topic_list_search \<Rightarrow> topics_event \<Rightarrow> topic_list_search" where
  "topics_step le caps ts s e =
     (case e of
        Tp_Query q \<Rightarrow> set_search [(js ''q'', Some (JsString q))] s
      | Tp_Partitions v \<Rightarrow> set_search [(js ''partitions'', Some (JsString v))] s
      | Tp_Retention v \<Rightarrow> if retention_disabled le caps s ts \<noteq> None then s else set_search [(js ''retention'', Some (JsString v))] s
      | Tp_Internal \<Rightarrow> set_search [(js ''internal'', Some (JsBool (tl_internal s \<noteq> Some True)))] s
      | Tp_Clear \<Rightarrow> clear_filters s
      | Tp_Sort next \<Rightarrow> set_search [(js ''sort'', map_option (JsString \<circ> ts_key) next),
          (js ''dir'', map_option (\<lambda>k. JsString (if ts_dir k = Dir_Asc then js ''asc'' else js ''desc'')) next)] s)"

text \<open>The sort of the table.\<close>

definition table_sort_of :: "topic_list_search \<Rightarrow> table_sort option" where
  "table_sort_of s = map_option (\<lambda>k. \<lparr>ts_key = name_in topic_sort_keys k,
     ts_dir = (if opt_or (tl_dir s) Asc = Asc then Dir_Asc else Dir_Desc)\<rparr>) (tl_sort s)"

section \<open>Cells\<close>

definition topic_columns :: "topic_info column list" where
  "topic_columns =
     (let c = (\<lambda>k v. \<lparr>co_id = js k, co_sort_value = Some v, co_primary = False\<rparr>); num = (\<lambda>x. Sv_Number (of_int x)) in
      [c ''name'' (\<lambda>t. Some (Sv_Text (ti_name t))), c ''partitions'' (\<lambda>t. Some (num (ti_partitions t))),
       c ''rf'' (\<lambda>t. Some (num (ti_replication_factor t))), c ''messages'' (\<lambda>t. map_option num (ti_messages t)),
       c ''size'' (\<lambda>t. map_option num (ti_size_bytes t)), c ''rate'' (\<lambda>t. map_option Sv_Number (ti_rate_per_sec t)),
       c ''lag'' (\<lambda>t. map_option num (ti_lag t)),
       c ''retention'' (\<lambda>t. map_option (\<lambda>ms. if ms < 0 then Sv_Infinity else num ms) (ti_retention_ms t))])"

text \<open>The width of the size bar in percent; a non-empty topic has at least a sliver.\<close>

definition size_bar :: "int \<Rightarrow> int \<Rightarrow> rat" where
  "size_bar bytes largest =
     (let pct = (if 0 < largest then of_int bytes / of_int largest * 100 else 0) in if 0 < bytes then max pct 3 else 0)"

definition rate_idle :: "rat \<Rightarrow> bool" where
  "rate_idle rate \<longleftrightarrow> rate < idle_rate"

datatype retention_cell = Retention_Unknown | Retention_Infinite | Retention_Text jstr

definition retention_cell_of :: "intl \<Rightarrow> jstr \<Rightarrow> int option \<Rightarrow> retention_cell" where
  "retention_cell_of i locale ms =
     (case ms of None \<Rightarrow> Retention_Unknown
      | Some m \<Rightarrow> if m < 0 then Retention_Infinite else Retention_Text (format_duration i (Some (of_int m)) locale))"

text \<open>The unit is the part after the last blank.\<close>

definition split_unit :: "jstr \<Rightarrow> jstr \<times> jstr option" where
  "split_unit s = (if 32 \<in> set s then (rev (tl (dropWhile (\<lambda>c. c \<noteq> 32) (rev s))), Some (rev (takeWhile (\<lambda>c. c \<noteq> 32) (rev s)))) else (s, None))"

lemma split_unit_joins: "split_unit s = (v, Some u) \<Longrightarrow> v @ [32] @ u = s \<and> 32 \<notin> set u"
proof -
  assume a: "split_unit s = (v, Some u)"
  then have m: "32 \<in> set (rev s)" and v: "v = rev (tl (dropWhile (\<lambda>c. c \<noteq> 32) (rev s)))" and u: "u = rev (takeWhile (\<lambda>c. c \<noteq> 32) (rev s))"
    by (auto simp: split_unit_def split: if_splits)
  have "dropWhile (\<lambda>c. c \<noteq> 32) (rev s) = 32 # tl (dropWhile (\<lambda>c. c \<noteq> 32) (rev s))"
    using m hd_dropWhile [of "\<lambda>c. c \<noteq> 32" "rev s"] by (metis (mono_tags) dropWhile_eq_Nil_conv list.collapse)
  then have "rev s = takeWhile (\<lambda>c. c \<noteq> 32) (rev s) @ 32 # tl (dropWhile (\<lambda>c. c \<noteq> 32) (rev s))" by (metis takeWhile_dropWhile_id)
  then have "s = v @ [32] @ u" using v u by (metis rev_append rev_rev_ident rev.simps(2) append.assoc)
  moreover have "32 \<notin> set u" using u set_takeWhileD by fastforce
  ultimately show "v @ [32] @ u = s \<and> 32 \<notin> set u" by simp
qed

section \<open>What holds of the page\<close>

text \<open>No size bar of a listed topic is wider than its track.\<close>

lemma filtered_in_base: "t \<in> set (filtered_topics le caps s ts) \<Longrightarrow> t \<in> set (base_topics le s ts)"
  using arg_cong [OF mset_sort_by [of "\<lambda>a b. le (ti_name a) (ti_name b)"], of set_mset]
  by (simp add: filtered_topics_def base_topics_def filter_topics_def matches_retention_def)

lemma size_bar_fits:
  assumes "t \<in> set (filtered_topics le caps s ts)" "ti_size_bytes t = Some n"
  shows "0 \<le> size_bar n (max_size (base_topics le s ts)) \<and> size_bar n (max_size (base_topics le s ts)) \<le> 100"
proof -
  have "t \<in> set (base_topics le s ts)" by (rule filtered_in_base [OF assms(1)])
  then have "opt_or (ti_size_bytes t) 0 \<le> max_size (base_topics le s ts)"
    using max_list_ge [of 0 "map (\<lambda>t. opt_or (ti_size_bytes t) 0) (base_topics le s ts)"] by (auto simp: max_size_def)
  then have "n \<le> max_size (base_topics le s ts)" using assms(2) by simp
  moreover have "rat_of_int n * 100 / rat_of_int m \<le> 100 \<and> 0 \<le> rat_of_int n * 100 / rat_of_int m" if "0 < n" "n \<le> m" for m
  proof -
    have "rat_of_int n \<le> rat_of_int m" "0 < rat_of_int m" "0 \<le> rat_of_int n" using that by linarith+
    then show ?thesis by (simp add: divide_le_eq)
  qed
  ultimately show ?thesis by (auto simp: size_bar_def Let_def max_def)
qed

text \<open>A member a patch does not name keeps its value; the cleared filters are gone and the rest stays.\<close>

lemma jprop_patched:
  assumes "k \<in> set search_keys"
  shows "jprop k (patched patch s) = (case map_of patch k of Some v \<Rightarrow> v | None \<Rightarrow> jprop k (topic_list_search_json s))"
proof -
  have d: "distinct search_keys" by (simp add: search_keys_def js_def)
  let ?f = "\<lambda>k. case map_of patch k of Some v \<Rightarrow> v | None \<Rightarrow> jprop k (topic_list_search_json s)"
  have m: "map_of (map (\<lambda>k. (k, ?f k)) search_keys) k = Some (?f k)" using assms by (simp add: map_of_map_restrict)
  have "jprop k (JsObject (members (map (\<lambda>k. (k, ?f k)) search_keys))) =
      (case map_of (map (\<lambda>k. (k, ?f k)) search_keys) k of Some v \<Rightarrow> v | None \<Rightarrow> None)"
    by (rule jprop_of_members) (simp add: comp_def d)
  then show ?thesis unfolding patched_def m by simp
qed

text \<open>The members of a parsed search are read back from its object.\<close>

lemma search_members:
  "tl_q (parse_topic_list_search j) = nonempty (Some (search_text (jprop (js ''q'') j)))"
  "tl_partitions (parse_topic_list_search j) = one_of partition_buckets (jprop (js ''partitions'') j)"
  "tl_retention (parse_topic_list_search j) = one_of retention_buckets (jprop (js ''retention'') j)"
  "tl_sort (parse_topic_list_search j) = one_of topic_sort_keys (jprop (js ''sort'') j)"
  "tl_dir (parse_topic_list_search j) =
     (case one_of topic_sort_keys (jprop (js ''sort'') j) of None \<Rightarrow> None | Some _ \<Rightarrow> Some (opt_or (one_of sort_dirs (jprop (js ''dir'') j)) Asc))"
  "tl_internal (parse_topic_list_search j) =
     (if jprop (js ''internal'') j \<in> {Some (JsBool True), Some (JsString (js ''true''))} then Some True else None)"
  by (simp_all add: parse_topic_list_search_def Let_def nonempty_def)

lemma clear_filters_keeps:
  assumes "s = parse_topic_list_search j"
  shows "clear_filters s = s\<lparr>tl_q := None, tl_partitions := None, tl_retention := None\<rparr>"
proof -
  have again: "parse_topic_list_search (topic_list_search_json s) = s" by (simp add: assms topic_search_again)
  have k: "set (map js [''q'', ''internal'', ''partitions'', ''retention'', ''sort'', ''dir'']) \<subseteq> set search_keys"
    by (simp add: search_keys_def)
  note p = jprop_patched [of _ "[(js ''q'', None), (js ''partitions'', None), (js ''retention'', None)]" s]
  have v: "jprop (js ''q'') (patched [(js ''q'', None), (js ''partitions'', None), (js ''retention'', None)] s) = None"
    "jprop (js ''partitions'') (patched [(js ''q'', None), (js ''partitions'', None), (js ''retention'', None)] s) = None"
    "jprop (js ''retention'') (patched [(js ''q'', None), (js ''partitions'', None), (js ''retention'', None)] s) = None"
    "jprop (js ''internal'') (patched [(js ''q'', None), (js ''partitions'', None), (js ''retention'', None)] s) = jprop (js ''internal'') (topic_list_search_json s)"
    "jprop (js ''sort'') (patched [(js ''q'', None), (js ''partitions'', None), (js ''retention'', None)] s) = jprop (js ''sort'') (topic_list_search_json s)"
    "jprop (js ''dir'') (patched [(js ''q'', None), (js ''partitions'', None), (js ''retention'', None)] s) = jprop (js ''dir'') (topic_list_search_json s)"
    by (subst p; simp add: search_keys_def js_def)+
  have f: "tl_internal (clear_filters s) = tl_internal s" "tl_sort (clear_filters s) = tl_sort s" "tl_dir (clear_filters s) = tl_dir s"
    "tl_q (clear_filters s) = None" "tl_partitions (clear_filters s) = None" "tl_retention (clear_filters s) = None"
    using arg_cong [OF again, of tl_internal] arg_cong [OF again, of tl_sort] arg_cong [OF again, of tl_dir]
    by (simp_all add: clear_filters_def set_search_def search_members v search_text_def one_of_def nonempty_def split: option.splits)
  show ?thesis by (rule topic_list_search.equality) (simp_all add: f)
qed

end
