(* ===== verification/Highlight.thy ===== *)
theory Highlight
  imports Fuzzy
begin

text \<open>
  The marked matches of a search (\<open>frontend/src/components/ui/Highlight.tsx\<close>): closed ranges of code units are sorted,
  merged where they touch, and the text is cut into plain and marked pieces along them.
\<close>

section \<open>Merging\<close>

text \<open>The first argument is the last range of the list built so far.\<close>

fun merge_from :: "nat \<times> nat \<Rightarrow> (nat \<times> nat) list \<Rightarrow> (nat \<times> nat) list" where
  "merge_from r [] = [r]"
| "merge_from (a, b) ((s, e) # rs) = (if s \<le> b + 1 then merge_from (a, max b e) rs else (a, b) # merge_from (s, e) rs)"

definition merge_ranges :: "(nat \<times> nat) list \<Rightarrow> (nat \<times> nat) list" where
  "merge_ranges ranges = (case sort_by (\<lambda>a b. fst a \<le> fst b) ranges of [] \<Rightarrow> [] | r # rs \<Rightarrow> merge_from r rs)"

section \<open>Cutting\<close>

datatype piece = Plain_Piece jstr | Marked_Piece jstr

definition slice :: "nat \<Rightarrow> nat \<Rightarrow> jstr \<Rightarrow> jstr" where
  "slice a b s = take (b - a) (drop a s)"

fun pieces_from :: "jstr \<Rightarrow> nat \<Rightarrow> (nat \<times> nat) list \<Rightarrow> piece list" where
  "pieces_from s cursor [] = (if cursor < length s then [Plain_Piece (drop cursor s)] else [])"
| "pieces_from s cursor ((a, e) # rs) =
     (if cursor < a then [Plain_Piece (slice cursor a s)] else []) @ Marked_Piece (slice a (e + 1) s) # pieces_from s (e + 1) rs"

definition highlight :: "jstr \<Rightarrow> (nat \<times> nat) list \<Rightarrow> piece list" where
  "highlight s ranges = (if ranges = [] then [Plain_Piece s] else pieces_from s 0 (merge_ranges ranges))"

section \<open>What is shown\<close>

fun raw_piece :: "piece \<Rightarrow> jstr" where
  "raw_piece (Plain_Piece s) = s"
| "raw_piece (Marked_Piece s) = s"

fun piece_marks :: "piece \<Rightarrow> bool list" where
  "piece_marks (Plain_Piece s) = replicate (length s) False"
| "piece_marks (Marked_Piece s) = replicate (length s) True"

definition covered :: "(nat \<times> nat) set \<Rightarrow> nat \<Rightarrow> bool" where
  "covered R i \<longleftrightarrow> (\<exists>(a, e)\<in>R. a \<le> i \<and> i \<le> e)"

text \<open>The ranges of a merged list are apart: between two of them is at least one code unit.\<close>

fun apart :: "nat \<Rightarrow> (nat \<times> nat) list \<Rightarrow> bool" where
  "apart c [] = True"
| "apart c ((a, e) # rs) = (c \<le> a \<and> a \<le> e \<and> apart (e + 2) rs)"

lemma apart_mono: "apart c rs \<Longrightarrow> d \<le> c \<Longrightarrow> apart d rs"
  by (cases rs) auto

lemma apart_above: "apart c rs \<Longrightarrow> (a, e) \<in> set rs \<Longrightarrow> c \<le> a"
  by (induction c rs rule: apart.induct) auto

lemma covered_insert: "covered (insert (a, e) R) i \<longleftrightarrow> (a \<le> i \<and> i \<le> e) \<or> covered R i"
  by (auto simp: covered_def)

lemma covered_empty [simp]: "covered {} = (\<lambda>_. False)"
  by (simp add: covered_def fun_eq_iff)

lemma covered_below: "apart c rs \<Longrightarrow> i < c \<Longrightarrow> \<not> covered (set rs) i"
  using apart_above by (force simp: covered_def)

lemma merge_from_apart:
  assumes "sorted_wrt (\<lambda>a b. fst a \<le> fst b) ((a, b) # rs)" "\<forall>(s, e)\<in>set ((a, b) # rs). s \<le> e"
  shows "apart a (merge_from (a, b) rs)"
  using assms
proof (induction "(a, b)" rs arbitrary: a b rule: merge_from.induct)
  case (2 a b s e rs)
  show ?case
  proof (cases "s \<le> b + 1")
    case True
    then have "apart a (merge_from (a, max b e) rs)" using "2.prems" by (intro "2.hyps"(1)) auto
    then show ?thesis using True by simp
  next
    case False
    then have "apart s (merge_from (s, e) rs)" using "2.prems" by (intro "2.hyps"(2)) auto
    then show ?thesis using False "2.prems" by (auto intro: apart_mono)
  qed
qed simp

lemma merge_from_covered:
  assumes "sorted_wrt (\<lambda>a b. fst a \<le> fst b) ((a, b) # rs)" "\<forall>(s, e)\<in>set ((a, b) # rs). s \<le> e"
  shows "covered (set (merge_from (a, b) rs)) i \<longleftrightarrow> covered (set ((a, b) # rs)) i"
  using assms
proof (induction "(a, b)" rs arbitrary: a b rule: merge_from.induct)
  case (2 a b s e rs)
  show ?case
  proof (cases "s \<le> b + 1")
    case True
    then have "covered (set (merge_from (a, max b e) rs)) i \<longleftrightarrow> covered (set ((a, max b e) # rs)) i"
      using "2.prems" by (intro "2.hyps"(1)) auto
    also have "\<dots> \<longleftrightarrow> covered (set ((a, b) # (s, e) # rs)) i"
      using True "2.prems" by (auto simp: covered_insert)
    finally show ?thesis using True by simp
  next
    case False
    then have "covered (set (merge_from (s, e) rs)) i \<longleftrightarrow> covered (set ((s, e) # rs)) i"
      using "2.prems" by (intro "2.hyps"(2)) auto
    then show ?thesis using False by (simp add: covered_insert)
  qed
qed simp

interpretation range_starts: comparator "\<lambda>a b :: nat \<times> nat. fst a \<le> fst b"
  by unfold_locales auto

lemma merge_ranges_ok:
  assumes "\<forall>(s, e)\<in>set ranges. s \<le> e"
  shows "apart 0 (merge_ranges ranges) \<and> (covered (set (merge_ranges ranges)) i \<longleftrightarrow> covered (set ranges) i)"
proof -
  let ?s = "sort_by (\<lambda>a b. fst a \<le> fst b) ranges"
  have s: "sorted_wrt (\<lambda>a b. fst a \<le> fst b) ?s" "\<forall>(s, e)\<in>set ?s. s \<le> e" "set ?s = set ranges"
    using assms range_starts.sorted_sort_by by simp_all
  show ?thesis
  proof (cases ?s)
    case Nil
    then show ?thesis using s(3) by (simp add: merge_ranges_def)
  next
    case (Cons r rs)
    obtain a b where r: "r = (a, b)" by (cases r)
    have "apart a (merge_from (a, b) rs)" "covered (set (merge_from (a, b) rs)) i \<longleftrightarrow> covered (set ((a, b) # rs)) i"
      using s(1,2) unfolding Cons r by (rule merge_from_apart, rule merge_from_covered)
    then show ?thesis using s(3) Cons r by (auto simp: merge_ranges_def intro: apart_mono)
  qed
qed

text \<open>Cutting along ranges that are apart.\<close>

lemma length_slice: "length (slice a b s) = min b (length s) - min a (length s)"
  by (simp add: slice_def)

lemma slice_append: "a \<le> b \<Longrightarrow> slice a b s @ drop b s = drop a s"
proof -
  assume "a \<le> b"
  then have "drop b s = drop (b - a) (drop a s)" by simp
  then show ?thesis unfolding slice_def by (simp only: append_take_drop_id)
qed

lemma pieces_from_text: "apart c rs \<Longrightarrow> concat (map raw_piece (pieces_from s c rs)) = drop c s"
proof (induction s c rs rule: pieces_from.induct)
  case (2 s c a e rs)
  then have ae: "c \<le> a" "a \<le> e" "apart (e + 1) rs" by (auto intro: apart_mono)
  have "(if c < a then slice c a s else []) @ slice a (e + 1) s @ drop (e + 1) s = drop c s"
    using ae slice_append [of a "e + 1" s] slice_append [of c a s] by simp
  then show ?case using "2.IH" ae by (auto split: if_splits)
qed simp

definition marks_of :: "nat \<Rightarrow> nat \<Rightarrow> (nat \<times> nat) list \<Rightarrow> bool list" where
  "marks_of c n rs = map (covered (set rs)) [c..<n]"

lemma map_upt_const: "(\<And>i. a \<le> i \<Longrightarrow> i < b \<Longrightarrow> f i = v) \<Longrightarrow> map f [a..<b] = replicate (b - a) v"
  by (intro nth_equalityI) auto

lemma upt_split: "a \<le> b \<Longrightarrow> b \<le> c \<Longrightarrow> [a..<c] = [a..<b] @ [b..<c]"
  using upt_add_eq_append [of a b "c - b"] by simp

lemma pieces_from_marks: "apart c rs \<Longrightarrow> concat (map piece_marks (pieces_from s c rs)) = marks_of c (length s) rs"
proof (induction s c rs rule: pieces_from.induct)
  case (1 s c)
  then show ?case by (auto simp: marks_of_def map_replicate_const)
next
  case (2 s c a e rs)
  then have ae: "c \<le> a" "a \<le> e" "apart (e + 2) rs" "apart (e + 1) rs" by (auto intro: apart_mono)
  let ?n = "length s" let ?f = "covered (set ((a, e) # rs))"
  have "[c..<?n] = [c..<min a ?n] @ [min a ?n..<min (e + 1) ?n] @ [min (e + 1) ?n..<?n]" if "c \<le> ?n"
    using that ae upt_split [of c "min a ?n" ?n] upt_split [of "min a ?n" "min (e + 1) ?n" ?n] by simp
  moreover have "map ?f [c..<min a ?n] = replicate (min a ?n - min c ?n) False"
  proof -
    have "map ?f [c..<min a ?n] = replicate (min a ?n - c) False"
      using covered_below [OF ae(3)] ae by (intro map_upt_const) (auto simp: covered_insert)
    then show ?thesis by (simp add: min_def)
  qed
  moreover have "map ?f [min a ?n..<min (e + 1) ?n] = replicate (min (e + 1) ?n - min a ?n) True"
    by (intro map_upt_const) (auto simp: covered_insert min_def split: if_splits)
  moreover have "map ?f [min (e + 1) ?n..<?n] = marks_of (e + 1) ?n rs"
    by (auto simp: marks_of_def covered_insert min_def)
  moreover have "marks_of (e + 1) ?n rs = []" "min a ?n - min c ?n = 0" "min (e + 1) ?n - min a ?n = 0" "[c..<?n] = []" if "\<not> c \<le> ?n"
    using that ae by (auto simp: marks_of_def)
  ultimately have "marks_of c ?n ((a, e) # rs) =
      replicate (min a ?n - min c ?n) False @ replicate (min (e + 1) ?n - min a ?n) True @ marks_of (e + 1) ?n rs"
    unfolding marks_of_def by (cases "c \<le> ?n") simp_all
  then show ?case using "2.IH" [OF ae(4)] ae(1) by (auto simp: length_slice)
qed

text \<open>Highlighting keeps the text, and marks exactly the code units some range covers.\<close>

lemma highlight_exact:
  assumes "\<forall>(a, e)\<in>set ranges. a \<le> e"
  shows "concat (map raw_piece (highlight s ranges)) = s \<and>
    concat (map piece_marks (highlight s ranges)) = map (covered (set ranges)) [0..<length s]"
proof (cases "ranges = []")
  case True
  then show ?thesis by (simp add: highlight_def map_replicate_const)
next
  case False
  have "covered (set (merge_ranges ranges)) = covered (set ranges)" using merge_ranges_ok [OF assms] by blast
  then show ?thesis using False merge_ranges_ok [OF assms]
    by (simp add: highlight_def pieces_from_text pieces_from_marks marks_of_def)
qed

end
