(* ===== verification/JsonTree.thy ===== *)
theory JsonTree
  imports MessageSearch
begin

text \<open>
  The clickable view of a JSON value (\<open>frontend/src/features/messages/JsonInteractive.tsx\<close>): the text and the buttons it
  shows, in their order. A button reports the trail from the root to its value, from which
  \<open>lib/path-builder.ts\<close> makes a JSONPath. The arrays a user has opened are a set of trails.
\<close>

section \<open>The view\<close>

definition size_limit_bytes :: nat where
  "size_limit_bytes = 1024 * 1024"

definition array_collapse_threshold :: nat where
  "array_collapse_threshold = 100"

datatype view_piece =
    Shown jstr
  | Pick_Button jstr "path_token list" "json option"
  | Expand_Button jstr "path_token list"

definition is_scalar :: "json \<Rightarrow> bool" where
  "is_scalar v \<longleftrightarrow> (case v of JsArray _ \<Rightarrow> False | JsObject _ \<Rightarrow> False | _ \<Rightarrow> True)"

text \<open>A string is shown between quotes as it is.\<close>

fun scalar_text :: "json \<Rightarrow> jstr" where
  "scalar_text (JsString s) = 34 # s @ [34]"
| "scalar_text v = stringify v"

definition padding :: "nat \<Rightarrow> jstr" where
  "padding n = concat (replicate n [32, 32])"

text \<open>The initial state of an array node, and the state after a click on its button.\<close>

definition array_expanded :: "path_token list set \<Rightarrow> path_token list \<Rightarrow> 'a list \<Rightarrow> bool" where
  "array_expanded opened trail vs \<longleftrightarrow> length vs \<le> array_collapse_threshold \<or> trail \<in> opened"

fun json_view :: "path_token list set \<Rightarrow> path_token list \<Rightarrow> nat \<Rightarrow> json \<Rightarrow> view_piece list"
  and item_views :: "path_token list set \<Rightarrow> path_token list \<Rightarrow> nat \<Rightarrow> nat \<Rightarrow> json list \<Rightarrow> view_piece list"
  and entry_views :: "path_token list set \<Rightarrow> path_token list \<Rightarrow> nat \<Rightarrow> (jstr \<times> json) list \<Rightarrow> view_piece list" where
  "json_view opened trail n (JsArray vs) =
     (if array_expanded opened trail vs
      then Shown (js ''['' @ [10]) # item_views opened trail n 0 vs @ [Shown (padding n), Shown (js '']'')]
      else [Shown (js ''[ ''), Expand_Button (js ''Show all '' @ dec (length vs) @ js '' items'') trail, Shown (js '' ]'')])"
| "json_view opened trail n (JsObject fs) =
     Shown (js ''{'') # Shown [10] # entry_views opened trail n fs @ [Shown (padding n), Shown (js ''}'')]"
| "json_view opened trail n v = [Pick_Button (scalar_text v) trail (Some v)]"
| "item_views opened trail n i [] = []"
| "item_views opened trail n i (v # vs) =
     Shown (padding (n + 1)) # json_view opened (trail @ [Tk_Index (int i)]) (n + 1) v @
     [Shown (if vs \<noteq> [] then js '','' else []), Shown [10]] @ item_views opened trail n (i + 1) vs"
| "entry_views opened trail n [] = []"
| "entry_views opened trail n ((k, v) # fs) =
     Shown (padding (n + 1)) # Pick_Button (34 # k @ [34]) (trail @ [Tk_Key k]) None # Shown (js '': '') #
     json_view opened (trail @ [Tk_Key k]) (n + 1) v @
     [Shown (if fs \<noteq> [] then js '','' else []), Shown [10]] @ entry_views opened trail n fs"

text \<open>A value whose compact text is too long is shown as plain text under a notice.\<close>

definition too_large_notice :: jstr where
  "too_large_notice = js ''Message too large for interactive mode '' @ [0x2014] @ js '' enter path manually.''"

definition interactive_view :: "path_token list set \<Rightarrow> json \<Rightarrow> view_piece list" where
  "interactive_view opened v =
     (if size_limit_bytes < length (stringify v) then [Shown too_large_notice, Shown (stringify2 0 v)]
      else json_view opened [] 0 v)"

section \<open>Where a trail leads\<close>

fun step_into :: "path_token \<Rightarrow> json \<Rightarrow> json option" where
  "step_into (Tk_Key k) (JsObject fs) = mget fs k"
| "step_into (Tk_Index i) (JsArray vs) = (if 0 \<le> i \<and> nat i < length vs then Some (vs ! nat i) else None)"
| "step_into _ _ = None"

fun at_trail :: "path_token list \<Rightarrow> json \<Rightarrow> json option" where
  "at_trail [] v = Some v"
| "at_trail (t # ts) v = (case step_into t v of None \<Rightarrow> None | Some w \<Rightarrow> at_trail ts w)"

text \<open>What \<open>JSON.parse\<close> returns: the keys of an object are distinct.\<close>

fun distinct_keys :: "json \<Rightarrow> bool" where
  "distinct_keys (JsArray vs) = (\<forall>v\<in>set vs. distinct_keys v)"
| "distinct_keys (JsObject fs) = (distinct (map fst fs) \<and> (\<forall>(k, v)\<in>set fs. distinct_keys v))"
| "distinct_keys _ = True"

lemma at_trail_snoc: "at_trail (ts @ [t]) v = (case at_trail ts v of None \<Rightarrow> None | Some w \<Rightarrow> step_into t w)"
  by (induction ts arbitrary: v) (auto split: option.splits)

text \<open>What a button may report, below a trail that leads from \<open>root\<close> to the value.\<close>

fun button_ok :: "json \<Rightarrow> view_piece \<Rightarrow> bool" where
  "button_ok doc (Pick_Button _ t (Some w)) = (at_trail t doc = Some w \<and> is_scalar w)"
| "button_ok doc (Pick_Button _ t None) = (t \<noteq> [] \<and> (\<exists>k. last t = Tk_Key k) \<and> at_trail t doc \<noteq> None)"
| "button_ok doc (Expand_Button _ t) = (\<exists>vs. at_trail t doc = Some (JsArray vs) \<and> array_collapse_threshold < length vs)"
| "button_ok doc (Shown _) = True"

lemma view_buttons:
  "at_trail trail doc = Some v \<Longrightarrow> distinct_keys v \<Longrightarrow> p \<in> set (json_view opened trail n v) \<Longrightarrow> button_ok doc p"
  "at_trail trail doc = Some (JsArray ws) \<Longrightarrow> drop i ws = vs \<Longrightarrow> \<forall>v\<in>set vs. distinct_keys v \<Longrightarrow>
     p \<in> set (item_views opened trail n i vs) \<Longrightarrow> button_ok doc p"
  "at_trail trail doc = Some (JsObject gs) \<Longrightarrow> \<forall>(k, v)\<in>set fs. mget gs k = Some v \<and> distinct_keys v \<Longrightarrow>
     p \<in> set (entry_views opened trail n fs) \<Longrightarrow> button_ok doc p"
proof (induction opened trail n v and opened trail n i vs and opened trail n fs
    arbitrary: and ws and gs rule: json_view_item_views_entry_views.induct)
  case (1 opened trail n vs)
  then show ?case by (auto simp: array_expanded_def split: if_splits)
next
  case (2 opened trail n fs)
  then have "\<forall>(k, v)\<in>set fs. mget fs k = Some v \<and> distinct_keys v" by (auto simp: mget_def)
  with 2 show ?case by auto
next
  case (5 opened trail n i v vs)
  have d: "drop i ws = v # vs" by (rule "5.prems"(2))
  have i: "i < length ws" using d by (intro not_le_imp_less notI) simp
  have "ws ! i = v" "drop (i + 1) ws = vs"
    using d by (simp_all add: nth_via_drop drop_Suc tl_drop [symmetric])
  with i show ?case using "5.prems" "5.IH" by (auto simp: at_trail_snoc)
qed (auto simp: at_trail_snoc is_scalar_def)


text \<open>Every scalar that no collapsed array hides has its button.\<close>

lemma item_view_part: "j < length vs \<Longrightarrow>
    set (json_view opened (trail @ [Tk_Index (int (i + j))]) (n + 1) (vs ! j)) \<subseteq> set (item_views opened trail n i vs)"
proof (induction vs arbitrary: i j)
  case (Cons v vs)
  then show ?case by (cases j) (use Cons.IH [of _ "i + 1"] in fastforce)+
qed simp

lemma entry_view_part: "(k, v) \<in> set fs \<Longrightarrow>
    set (json_view opened (trail @ [Tk_Key k]) (n + 1) v) \<subseteq> set (entry_views opened trail n fs)"
  by (induction fs) auto

lemma scalar_view: "is_scalar v \<Longrightarrow> json_view opened trail n v = [Pick_Button (scalar_text v) trail (Some v)]"
  by (cases v) (simp_all add: is_scalar_def)

lemma scalar_has_button:
  assumes "at_trail ts v = Some w" "is_scalar w"
    and "\<And>us vs. \<exists>rest. ts = us @ rest \<Longrightarrow> at_trail us v = Some (JsArray vs) \<Longrightarrow> array_expanded opened (trail @ us) vs"
  shows "Pick_Button (scalar_text w) (trail @ ts) (Some w) \<in> set (json_view opened trail n v)"
  using assms
proof (induction ts arbitrary: trail n v)
  case Nil
  then show ?case by (simp add: scalar_view)
next
  case (Cons t ts)
  from Cons.prems(1) obtain u where u: "step_into t v = Some u" "at_trail ts u = Some w" by (auto split: option.splits)
  have below: "Pick_Button (scalar_text w) (trail @ t # ts) (Some w) \<in> set (json_view opened (trail @ [t]) (n + 1) u)"
  proof -
    have "array_expanded opened ((trail @ [t]) @ us) vs" if "\<exists>rest. ts = us @ rest" "at_trail us u = Some (JsArray vs)" for us vs
      using Cons.prems(3) [of "t # us" vs] that u(1) by simp
    then show ?thesis using Cons.IH [OF u(2) Cons.prems(2), of "trail @ [t]" "n + 1"] by simp
  qed
  from u(1) show ?case
  proof (cases "(t, v)" rule: step_into.cases)
    case (1 k fs)
    then have "(k, u) \<in> set fs" using u(1) by (auto simp: mget_def dest: map_of_SomeD)
    then show ?thesis using below entry_view_part [of k u fs opened trail n] 1 by auto
  next
    case (2 i vs)
    then have i: "0 \<le> i" "nat i < length vs" "u = vs ! nat i" using u(1) by (auto split: if_splits)
    have "array_expanded opened trail vs" using Cons.prems(3) [of "[]" vs] 2 by simp
    then show ?thesis using below item_view_part [OF i(2), of opened trail 0 n] 2 i by auto
  qed auto
qed

text \<open>With every array open the view reads like \<open>JSON.stringify(v, null, 2)\<close>, where no string needs an escape and no container is empty.\<close>

fun shown_text :: "view_piece \<Rightarrow> jstr" where
  "shown_text (Shown s) = s"
| "shown_text (Pick_Button s _ _) = s"
| "shown_text (Expand_Button s _) = s"

definition unescaped :: "jstr \<Rightarrow> bool" where
  "unescaped s \<longleftrightarrow> quote s = 34 # s @ [34]"

fun unescaped_json :: "json \<Rightarrow> bool" where
  "unescaped_json (JsString s) = unescaped s"
| "unescaped_json (JsArray vs) = (vs \<noteq> [] \<and> (\<forall>v\<in>set vs. unescaped_json v))"
| "unescaped_json (JsObject fs) = (fs \<noteq> [] \<and> (\<forall>(k, v)\<in>set fs. unescaped k \<and> unescaped_json v))"
| "unescaped_json _ = True"

lemma padding_spaces: "padding n = replicate (2 * n) 32"
  by (induction n) (simp_all add: padding_def)

lemma view_reads_as_json:
  "opened = UNIV \<Longrightarrow> unescaped_json v \<Longrightarrow> concat (map shown_text (json_view opened trail n v)) = stringify2 (2 * n) v"
  "opened = UNIV \<Longrightarrow> vs \<noteq> [] \<Longrightarrow> \<forall>v\<in>set vs. unescaped_json v \<Longrightarrow> concat (map shown_text (item_views opened trail n i vs)) =
     padding (n + 1) @ join (js '','' @ newline (2 * n + 2)) (map (stringify2 (2 * n + 2)) vs) @ [10]"
  "opened = UNIV \<Longrightarrow> fs \<noteq> [] \<Longrightarrow> \<forall>(k, v)\<in>set fs. unescaped k \<and> unescaped_json v \<Longrightarrow>
     concat (map shown_text (entry_views opened trail n fs)) =
     padding (n + 1) @ join (js '','' @ newline (2 * n + 2)) (map (\<lambda>(k, v). quote k @ js '': '' @ stringify2 (2 * n + 2) v) fs) @ [10]"
proof (induction opened trail n v and opened trail n i vs and opened trail n fs rule: json_view_item_views_entry_views.induct)
  case (1 opened trail n vs)
  then show ?case by (simp add: array_expanded_def newline_def padding_spaces js_def)
next
  case (2 opened trail n fs)
  then show ?case by (simp add: newline_def padding_spaces js_def)
next
  case (5 opened trail n i v vs)
  then show ?case by (cases vs) (simp_all add: newline_def padding_spaces js_def)
next
  case (7 opened trail n k v fs)
  then show ?case by (cases fs) (auto simp: newline_def padding_spaces js_def unescaped_def)
qed (simp_all add: unescaped_def)


section \<open>The path of a click\<close>

text \<open>The path text tells the trail: no two trails of keys and indices have the same one.\<close>

lemma dec_int_inj: "dec_int i = dec_int j \<Longrightarrow> i = j"
proof -
  assume e: "dec_int i = dec_int j"
  have h: "hd (dec n) \<noteq> 45" for n
  proof -
    have "is_digit (hd (dec n))" by (intro dec_digits [of _ n]) simp
    then show ?thesis by (auto simp: is_digit_def)
  qed
  have n: "45 # dec m \<noteq> dec n" "dec n \<noteq> 45 # dec m" for m n
    using h [of n] by (cases "dec n"; simp)+
  show "i = j" using e by (cases "i < 0"; cases "j < 0") (simp_all add: dec_int_def n)
qed

lemma dec_int_no_bracket: "c \<in> set (dec_int i) \<Longrightarrow> c \<noteq> 93 \<and> c \<noteq> 42 \<and> c \<noteq> 39"
  using dec_digits [of c] by (auto simp: dec_int_def is_digit_def split: if_splits)

lemma split_at: "c \<notin> set xs \<Longrightarrow> c \<notin> set ys \<Longrightarrow> xs @ c # r = ys @ c # s \<Longrightarrow> xs = ys \<and> r = s"
  by (induction xs arbitrary: ys) (auto simp: Cons_eq_append_conv append_eq_Cons_conv)

definition token_end :: "jstr \<Rightarrow> bool" where
  "token_end r \<longleftrightarrow> r = [] \<or> hd r = 46 \<or> hd r = 91"

lemma safe_key_end: "safe_key k \<Longrightarrow> token_end r \<Longrightarrow> takeWhile (\<lambda>c. ident_start c \<or> is_digit c) (k @ r) = k"
proof -
  assume k: "safe_key k" and r: "token_end r"
  have "takeWhile (\<lambda>c. ident_start c \<or> is_digit c) r = []"
    using r by (cases r) (auto simp: token_end_def ident_start_def is_digit_def)
  then show ?thesis using k by (subst takeWhile_append2) (auto simp: safe_key_def)
qed

lemma escape_key_end: "escape_key k @ 39 # 93 # r = escape_key j @ 39 # 93 # s \<Longrightarrow> k = j \<and> r = s"
proof (induction k arbitrary: j)
  case Nil
  then show ?case by (cases j) (auto simp: escape_key_def split: if_splits)
next
  case (Cons c k)
  then obtain d j' where j: "j = d # j'" by (cases j) (auto simp: escape_key_def split: if_splits)
  have e: "escape_key (c # k) = (if c = 92 then [92, 92] else if c = 39 then [92, 39] else [c]) @ escape_key k" for c k
    by (simp add: escape_key_def)
  have "c = d \<and> escape_key k @ 39 # 93 # r = escape_key j' @ 39 # 93 # s"
    using Cons.prems unfolding j e by (auto split: if_splits)
  then show ?case using Cons.IH j by blast
qed

lemma token_path_shape:
  "\<exists>c r. token_path t = c # r \<and> (c = 46 \<or> c = 91)"
  by (cases t) (auto simp: js_def)

lemma paths_end: "token_end (concat (map token_path ts))"
  using token_path_shape [of "hd ts"] by (cases ts) (auto simp: token_end_def)

lemma token_path_simps:
  "token_path (Tk_Index n) = 91 # dec_int n @ [93]" "token_path Tk_Star = [91, 42, 93]"
  "token_path (Tk_Key k) = (if safe_key k then 46 # k else 91 # 39 # escape_key k @ [39, 93])"
  by (simp_all add: js_def)

lemma token_path_unique:
  assumes "token_path a @ r = token_path b @ s" "token_end r" "token_end s"
  shows "a = b \<and> r = s"
proof -
  have star: "dec_int i @ 93 # r \<noteq> 42 # q" "dec_int i @ 93 # r \<noteq> 39 # q" for i r and q :: jstr
  proof -
    have "dec_int i \<noteq> []" by (simp add: dec_int_def)
    then have "hd (dec_int i @ 93 # r) \<in> set (dec_int i)" by simp
    then show "dec_int i @ 93 # r \<noteq> 42 # q" "dec_int i @ 93 # r \<noteq> 39 # q" using dec_int_no_bracket by fastforce+
  qed
  have safe: "k = j \<and> r = s" if "safe_key k" "safe_key j" "k @ r = j @ s" for k j
    using safe_key_end [OF that(1) assms(2)] safe_key_end [OF that(2) assms(3)] that(3) by simp
  have idx: "i = j \<and> r = s" if "dec_int i @ 93 # r = dec_int j @ 93 # s" for i j
    using split_at [OF _ _ that] dec_int_no_bracket dec_int_inj by blast
  note shapes = star star [THEN not_sym] token_path_simps
  show ?thesis
  proof (cases a)
    case (Tk_Key k)
    then show ?thesis using assms(1) by (cases b) (auto simp: shapes simp del: token_path.simps dest: safe escape_key_end split: if_splits)
  next
    case (Tk_Index n)
    then show ?thesis using assms(1) by (cases b) (auto simp: shapes simp del: token_path.simps dest: idx split: if_splits)
  next
    case Tk_Star
    then show ?thesis using assms(1) by (cases b) (auto simp: shapes simp del: token_path.simps split: if_splits)
  qed
qed

lemma build_json_path_inj:
  assumes "build_json_path t = build_json_path u"
  shows "t = u"
proof -
  have "concat (map token_path t) = concat (map token_path u)" using assms by (simp add: build_json_path_def js_def)
  then show ?thesis
  proof (induction t arbitrary: u)
    case Nil
    then show ?case using token_path_shape by (cases u) (auto simp: Cons_eq_append_conv, metis list.distinct(1))
  next
    case (Cons a t)
    obtain b u' where u: "u = b # u'"
      using Cons.prems token_path_shape [of a] by (cases u) auto
    have "a = b \<and> concat (map token_path t) = concat (map token_path u')"
      using Cons.prems unfolding u by (intro token_path_unique paths_end) simp
    then show ?case using Cons.IH u by blast
  qed
qed

section \<open>All buttons of the view\<close>

text \<open>Every array the trail goes through below the value is shown item by item.\<close>

fun opened_along :: "path_token list set \<Rightarrow> path_token list \<Rightarrow> path_token list \<Rightarrow> json \<Rightarrow> bool" where
  "opened_along opened trail [] v = True"
| "opened_along opened trail (t # ts) v =
     ((case v of JsArray vs \<Rightarrow> array_expanded opened trail vs | _ \<Rightarrow> True) \<and>
      (case step_into t v of None \<Rightarrow> False | Some w \<Rightarrow> opened_along opened (trail @ [t]) ts w))"

definition value_buttons :: "view_piece list \<Rightarrow> (jstr \<times> path_token list \<times> json) set" where
  "value_buttons ps = {(s, t, w). Pick_Button s t (Some w) \<in> set ps}"

definition scalars_below :: "path_token list set \<Rightarrow> path_token list \<Rightarrow> json \<Rightarrow> (jstr \<times> path_token list \<times> json) set" where
  "scalars_below opened trail v =
     {(s, t, w). \<exists>ts. t = trail @ ts \<and> at_trail ts v = Some w \<and> is_scalar w \<and> s = scalar_text w \<and> opened_along opened trail ts v}"

lemma value_buttons_simps [simp]:
  "value_buttons [] = {}" "value_buttons (ps @ qs) = value_buttons ps \<union> value_buttons qs"
  "value_buttons (Shown s # ps) = value_buttons ps" "value_buttons (Expand_Button s t # ps) = value_buttons ps"
  "value_buttons (Pick_Button s t None # ps) = value_buttons ps"
  "value_buttons (Pick_Button s t (Some w) # ps) = insert (s, t, w) (value_buttons ps)"
  by (auto simp: value_buttons_def)

lemma scalars_below_scalar: "is_scalar v \<Longrightarrow> scalars_below opened trail v = {(scalar_text v, trail, v)}"
proof -
  assume s: "is_scalar v"
  have "step_into t v = None" for t using s by (cases "(t, v)" rule: step_into.cases) (simp_all add: is_scalar_def)
  then have "at_trail ts v = Some w \<longleftrightarrow> ts = [] \<and> w = v" for ts w by (cases ts) auto
  then show ?thesis using s by (auto simp: scalars_below_def)
qed

lemma scalars_below_step:
  assumes "\<not> is_scalar v"
  shows "scalars_below opened trail v =
    (if (case v of JsArray vs \<Rightarrow> array_expanded opened trail vs | _ \<Rightarrow> True)
     then (\<Union>(t, u)\<in>{(t, u). step_into t v = Some u}. scalars_below opened (trail @ [t]) u) else {})"
proof -
  have e: "(s, t, w) \<in> scalars_below opened trail v \<longleftrightarrow>
      (case v of JsArray vs \<Rightarrow> array_expanded opened trail vs | _ \<Rightarrow> True) \<and>
      (\<exists>k u. step_into k v = Some u \<and> (s, t, w) \<in> scalars_below opened (trail @ [k]) u)" for s t w
  proof
    assume "(s, t, w) \<in> scalars_below opened trail v"
    then obtain ts where ts: "t = trail @ ts" "at_trail ts v = Some w" "is_scalar w" "s = scalar_text w" "opened_along opened trail ts v"
      by (auto simp: scalars_below_def)
    obtain k ks where k: "ts = k # ks" using ts(2,3) assms by (cases ts) auto
    then obtain u where u: "step_into k v = Some u" "at_trail ks u = Some w" using ts(2) by (auto split: option.splits)
    have "(s, t, w) \<in> scalars_below opened (trail @ [k]) u"
      unfolding scalars_below_def using ts u k by auto
    then show "(case v of JsArray vs \<Rightarrow> array_expanded opened trail vs | _ \<Rightarrow> True) \<and>
      (\<exists>k u. step_into k v = Some u \<and> (s, t, w) \<in> scalars_below opened (trail @ [k]) u)" using ts(5) k u by auto
  next
    assume "(case v of JsArray vs \<Rightarrow> array_expanded opened trail vs | _ \<Rightarrow> True) \<and>
      (\<exists>k u. step_into k v = Some u \<and> (s, t, w) \<in> scalars_below opened (trail @ [k]) u)"
    then obtain k u ts where "case v of JsArray vs \<Rightarrow> array_expanded opened trail vs | _ \<Rightarrow> True" "step_into k v = Some u"
      "t = trail @ k # ts" "at_trail ts u = Some w" "is_scalar w" "s = scalar_text w" "opened_along opened (trail @ [k]) ts u"
      by (auto simp: scalars_below_def)
    then show "(s, t, w) \<in> scalars_below opened trail v"
      unfolding scalars_below_def by (auto intro!: exI [of _ "k # ts"])
  qed
  show ?thesis by (rule set_eqI) (simp only: split_paired_all e, auto; blast)
qed

lemma view_value_buttons:
  "distinct_keys v \<Longrightarrow> value_buttons (json_view opened trail n v) = scalars_below opened trail v"
  "\<forall>v\<in>set vs. distinct_keys v \<Longrightarrow> value_buttons (item_views opened trail n i vs) =
     (\<Union>j\<in>{..<length vs}. scalars_below opened (trail @ [Tk_Index (int (i + j))]) (vs ! j))"
  "\<forall>(k, v)\<in>set fs. distinct_keys v \<Longrightarrow> value_buttons (entry_views opened trail n fs) =
     (\<Union>(k, v)\<in>set fs. scalars_below opened (trail @ [Tk_Key k]) v)"
proof (induction opened trail n v and opened trail n i vs and opened trail n fs rule: json_view_item_views_entry_views.induct)
  case (1 opened trail n vs)
  have s: "{(t, u). step_into t (JsArray vs) = Some u} = (\<lambda>j. (Tk_Index (int j), vs ! j)) ` {..<length vs}" (is "?A = ?B")
  proof
    show "?A \<subseteq> ?B"
    proof (clarify)
      fix t u assume "step_into t (JsArray vs) = Some u"
      then obtain i where "t = Tk_Index i" "0 \<le> i" "nat i < length vs" "u = vs ! nat i"
        by (cases t) (auto split: if_splits)
      then show "(t, u) \<in> ?B" by (intro image_eqI [of _ _ "nat i"]) auto
    qed
  qed auto
  show ?case using 1 by (auto simp: scalars_below_step is_scalar_def s)
next
  case (2 opened trail n fs)
  have d: "distinct (map fst fs)" "\<forall>(k, v)\<in>set fs. distinct_keys v" using "2.prems" by auto
  have s: "{(t, u). step_into t (JsObject fs) = Some u} = (\<lambda>(k, v). (Tk_Key k, v)) ` set fs" (is "?A = ?B")
  proof
    show "?A \<subseteq> ?B"
    proof (clarify)
      fix t u assume "step_into t (JsObject fs) = Some u"
      then obtain k where "t = Tk_Key k" "(k, u) \<in> set fs" by (cases t) (auto simp: mget_def dest: map_of_SomeD)
      then show "(t, u) \<in> ?B" by force
    qed
    show "?B \<subseteq> ?A" using d(1) by (auto simp: mget_def)
  qed
  have "scalars_below opened trail (JsObject fs) = (\<Union>(k, v)\<in>set fs. scalars_below opened (trail @ [Tk_Key k]) v)"
    by (auto simp: scalars_below_step is_scalar_def s)
  then show ?case using "2.IH" [OF d(2)] by simp
next
  case (5 opened trail n i v vs)
  have "{..<length (v # vs)} = insert 0 (Suc ` {..<length vs})" by (auto simp: lessThan_Suc_eq_insert_0)
  then show ?case using "5" by (simp add: ac_simps)
qed (auto simp: scalars_below_scalar is_scalar_def)



end
