(* ===== verification/MessageRow.thy ===== *)
theory MessageRow
  imports ConfirmedWrite JsonTree Format MessageRef CopyStream
begin

text \<open>
  A message in the list (\<open>frontend/src/features/messages/MessageRow.tsx\<close>): its line, its details and its actions as a
  step function on events; how its value is shown and when the full value of a truncated one is loaded
  (\<open>ValueBody.tsx\<close>); and the buttons that select it for a compare (\<open>compare/CompareAction.tsx\<close>, \<open>CompareTray.tsx\<close>).
\<close>

section \<open>The value\<close>

definition truncated_json :: "message \<Rightarrow> bool" where
  "truncated_json m \<longleftrightarrow> value_truncated m = Some True \<and> is_json_like_encoding (value_encoding m)"

definition too_large_for_tree :: "message \<Rightarrow> bool" where
  "too_large_for_tree m \<longleftrightarrow> int size_limit_bytes < opt_or (value_size_bytes m) 0"

definition can_load_full :: "message \<Rightarrow> bool" where
  "can_load_full m \<longleftrightarrow> truncated_json m \<and> masked m \<noteq> Some True \<and> \<not> too_large_for_tree m"

text \<open>What the query of the full value reports.\<close>

record raw_query =
  rq_data :: "jstr option"
  rq_error :: "api_error option"
  rq_fetching :: bool

text \<open>\<open>None\<close> while there is no data, \<open>Some None\<close> for data that is no JSON.\<close>

definition full_parsed :: "(jstr \<Rightarrow> json option) \<Rightarrow> raw_query \<Rightarrow> json option option" where
  "full_parsed parse q = map_option (\<lambda>b64. Option.bind (base64_to_utf8 b64) parse) (rq_data q)"

definition inline_parsed :: "(jstr \<Rightarrow> json option) \<Rightarrow> message \<Rightarrow> json option" where
  "inline_parsed parse m =
     (if \<not> is_json_like_encoding (value_encoding m) \<or> opt_or (m_value m) [] = [] \<or> value_truncated m = Some True then None
      else parse (the (m_value m)))"

datatype load_offer =
    Offer_Masked
  | Offer_Too_Large jstr jstr
  | Offer_Load bool "jstr option"

datatype value_body =
    Value_Tree json
  | Value_Text jstr
  | Value_Preview jstr load_offer

definition size_label :: "intl \<Rightarrow> jstr \<Rightarrow> jstr \<Rightarrow> message \<Rightarrow> jstr" where
  "size_label i locale unknown m =
     (let n = opt_or (value_size_bytes m) 0 in if n = 0 then unknown else format_bytes i (Some (of_int n)) locale)"

definition load_notice :: "(jstr \<Rightarrow> json option) \<Rightarrow> raw_query \<Rightarrow> jstr option" where
  "load_notice parse q =
     (if rq_fetching q then None
      else case rq_error q of
          Some (Raw_Value_Too_Large _) \<Rightarrow> Some (js ''The full value exceeds the download limit. Enter the path manually instead.'')
        | Some e \<Rightarrow> Some (error_message e @ [32, 0x2014] @ js '' enter the path manually instead.'')
        | None \<Rightarrow> if full_parsed parse q = Some None
            then Some (js ''Full value could not be parsed as JSON. Enter the path manually instead.'') else None)"

definition value_body_of :: "intl \<Rightarrow> jstr \<Rightarrow> (jstr \<Rightarrow> json option) \<Rightarrow> message \<Rightarrow> raw_query \<Rightarrow> value_body" where
  "value_body_of i locale parse m q =
     (let text = pretty_value parse (opt_or (m_value m) []) (value_encoding m) in
      if truncated_json m
      then (case full_parsed parse q of
          Some (Some v) \<Rightarrow> Value_Tree v
        | _ \<Rightarrow> Value_Preview text
            (if masked m = Some True then Offer_Masked
             else if too_large_for_tree m
             then Offer_Too_Large (size_label i locale (js ''unknown size'') m) (format_bytes i (Some (of_nat size_limit_bytes)) locale)
             else Offer_Load (rq_fetching q) (load_notice parse q)))
      else (case inline_parsed parse m of Some v \<Rightarrow> Value_Tree v | None \<Rightarrow> Value_Text text))"

text \<open>Whether the query of the full value is enabled.\<close>

definition loads_full :: "jstr \<Rightarrow> jstr \<Rightarrow> message \<Rightarrow> bool \<Rightarrow> bool" where
  "loads_full cluster topic m wants \<longleftrightarrow> can_load_full m \<and> wants \<and> cluster \<noteq> [] \<and> topic \<noteq> []"

section \<open>The line\<close>

definition value_preview :: "message \<Rightarrow> jstr" where
  "value_preview m =
     (if value_encoding m = js ''null'' then js ''(null)''
      else if value_encoding m = js ''empty'' then js ''(empty)''
      else take 160 (opt_or (m_value m) []))"

definition key_preview :: "message \<Rightarrow> jstr option" where
  "key_preview m =
     (case opt_or (m_key m) [] of [] \<Rightarrow> None
      | k \<Rightarrow> Some (if 40 < length k then take 40 k @ [0x2026] else k))"

definition truthy_int :: "int option \<Rightarrow> bool" where
  "truthy_int n \<longleftrightarrow> opt_or n 0 \<noteq> 0"

definition int_or :: "jstr \<Rightarrow> int option \<Rightarrow> jstr" where
  "int_or d n = (case n of None \<Rightarrow> d | Some i \<Rightarrow> dec_int i)"

definition middle_dot :: jstr where
  "middle_dot = [32, 0xB7, 32]"

definition sr_label :: "sr_meta \<Rightarrow> jstr" where
  "sr_label r =
     (if opt_or (sr_subject r) [] \<noteq> []
      then opt_or (sr_subject r) [] @ (if truthy_int (sr_version r) then js '':v'' @ int_or [] (sr_version r) else [])
      else if truthy_int (sr_schema_id r) then js ''id '' @ int_or [] (sr_schema_id r) else js ''schema'')"

definition sr_title :: "sr_meta \<Rightarrow> jstr" where
  "sr_title r =
     js ''Schema Registry'' @ middle_dot @ js ''format='' @ opt_or (sr_format r) (js ''?'') @ middle_dot @ js ''id='' @ int_or (js ''?'') (sr_schema_id r) @
     (if opt_or (sr_subject r) [] \<noteq> [] then middle_dot @ js ''subject='' @ opt_or (sr_subject r) [] else []) @
     (if truthy_int (sr_version r) then middle_dot @ js ''version='' @ int_or [] (sr_version r) else [])"

definition masked_header_names :: "message \<Rightarrow> jstr list" where
  "masked_header_names m = remdups (opt_or (masked_headers m) [])"

text \<open>The badges behind partition, offset and encoding, in their order.\<close>

definition row_badges :: "message \<Rightarrow> bool \<Rightarrow> jstr list" where
  "row_badges m selected =
     (case value_sr m of None \<Rightarrow> [] | Some r \<Rightarrow> [js ''sr'' @ middle_dot @ sr_label r]) @
     (if isTrue (masked m) then [js ''masked''] else []) @
     (if isTrue (key_masked m) then [js ''key masked''] else []) @
     (if masked_header_names m \<noteq> [] then [js ''headers masked''] else []) @
     (if isTrue (value_truncated m) then [js ''preview''] else []) @
     (if selected then [js ''selected for compare''] else [])"

section \<open>The details\<close>

definition key_label :: "message \<Rightarrow> jstr" where
  "key_label m = js ''key'' @ middle_dot @ (if m_key m = None then js ''none'' else key_encoding m)"

text \<open>A key that is shown: its text, and what a click on it searches for.\<close>

definition key_body :: "(jstr \<Rightarrow> json option) \<Rightarrow> message \<Rightarrow> jstr \<times> field_filter option" where
  "key_body parse m =
     (case m_key m of
        None \<Rightarrow> (js ''(no key)'', None)
      | Some k \<Rightarrow> (pretty_value parse k (key_encoding m), if isTrue (key_masked m) then None else Some (Filter_Key k)))"

text \<open>A header line: its key and value, and what a click on the key and on the value searches for.\<close>

record header_line =
  hl_key :: jstr
  hl_value :: jstr
  hl_key_filter :: field_filter
  hl_value_filter :: "field_filter option"

definition header_lines :: "message \<Rightarrow> header_line list" where
  "header_lines m =
     map (\<lambda>(k, v). \<lparr>hl_key = k, hl_value = (if v = [] \<and> k \<notin> set (masked_header_names m) then js ''(empty)'' else v),
            hl_key_filter = Filter_Header k None,
            hl_value_filter = (if k \<in> set (masked_header_names m) then None else Some (Filter_Header k (Some v)))\<rparr>)
       (opt_or (m_headers m) [])"

definition value_label :: "intl \<Rightarrow> jstr \<Rightarrow> message \<Rightarrow> jstr" where
  "value_label i locale m =
     js ''value'' @ middle_dot @ value_encoding m @
     (case value_sr m of None \<Rightarrow> [] | Some r \<Rightarrow> middle_dot @ js ''sr id '' @ int_or (js ''?'') (sr_schema_id r)) @
     (if isTrue (value_truncated m)
      then middle_dot @ js ''preview only '' @ [0x2014] @ js '' full size '' @ size_label i locale (js ''unknown'') m else [])"

datatype download_button = No_Download | Download_Masked | Download_Full

definition download_button_of :: "message \<Rightarrow> download_button" where
  "download_button_of m =
     (if \<not> isTrue (value_truncated m) then No_Download else if isTrue (masked m) then Download_Masked else Download_Full)"

section \<open>The actions\<close>

text \<open>The state of a row and of the parts that are mounted while it is open.\<close>

record row_state =
  ro_open :: bool
  ro_copied :: bool
  ro_downloading :: bool
  ro_download_error :: "jstr option"
  ro_replay :: bool
  ro_wants_full :: bool
  ro_headers_open :: bool

definition row_initial :: row_state where
  "row_initial = \<lparr>ro_open = False, ro_copied = False, ro_downloading = False, ro_download_error = None, ro_replay = False,
     ro_wants_full = False, ro_headers_open = False\<rparr>"

datatype row_event =
    Re_Toggle
  | Re_Copy
  | Re_Copied
  | Re_Copy_Timer
  | Re_Download
  | Re_Downloaded "api_error option"
  | Re_Replay
  | Re_Replay_Closed
  | Re_Load_Full
  | Re_Toggle_Headers

datatype row_request = Row_Copy jstr | Row_Download int int | Row_Toast jstr

definition row_step :: "message \<Rightarrow> row_state \<Rightarrow> row_event \<Rightarrow> row_request option \<times> row_state" where
  "row_step m st e =
     (case e of
        Re_Toggle \<Rightarrow> (None, st\<lparr>ro_open := \<not> ro_open st, ro_wants_full := False, ro_headers_open := False\<rparr>)
      | Re_Copy \<Rightarrow> (if ro_open st then Some (Row_Copy (opt_or (m_value m) [])) else None, st)
      | Re_Copied \<Rightarrow> (None, st\<lparr>ro_copied := True\<rparr>)
      | Re_Copy_Timer \<Rightarrow> (None, st\<lparr>ro_copied := False\<rparr>)
      | Re_Download \<Rightarrow>
          if ro_open st \<and> download_button_of m = Download_Full \<and> \<not> ro_downloading st
          then (Some (Row_Download (m_partition m) (m_offset m)), st\<lparr>ro_downloading := True, ro_download_error := None\<rparr>)
          else (None, st)
      | Re_Downloaded r \<Rightarrow>
          (case r of
             Some (Raw_Value_Masked t) \<Rightarrow> (Some (Row_Toast t), st\<lparr>ro_downloading := False\<rparr>)
           | Some err \<Rightarrow> (None, st\<lparr>ro_downloading := False, ro_download_error := Some (error_message err)\<rparr>)
           | None \<Rightarrow> (None, st\<lparr>ro_downloading := False\<rparr>))
      | Re_Replay \<Rightarrow> (None, if ro_open st then st\<lparr>ro_replay := True\<rparr> else st)
      | Re_Replay_Closed \<Rightarrow> (None, st\<lparr>ro_replay := False\<rparr>)
      | Re_Load_Full \<Rightarrow> (None, if ro_open st \<and> can_load_full m then st\<lparr>ro_wants_full := True\<rparr> else st)
      | Re_Toggle_Headers \<Rightarrow>
          (None, if ro_open st \<and> opt_or (m_headers m) [] \<noteq> [] then st\<lparr>ro_headers_open := \<not> ro_headers_open st\<rparr> else st))"

text \<open>A masked value is never downloaded or loaded in full, and nothing is asked for behind a closed row.\<close>

definition row_inv :: "message \<Rightarrow> row_state \<Rightarrow> bool" where
  "row_inv m st \<longleftrightarrow> (ro_wants_full st \<longrightarrow> ro_open st \<and> can_load_full m) \<and> (ro_headers_open st \<longrightarrow> ro_open st)"

definition row_ok :: "message \<Rightarrow> row_state \<Rightarrow> row_request \<Rightarrow> bool" where
  "row_ok m st r \<longleftrightarrow> (case r of
       Row_Copy t \<Rightarrow> ro_open st \<and> t = opt_or (m_value m) []
     | Row_Download p n \<Rightarrow> ro_open st \<and> \<not> ro_downloading st \<and> p = m_partition m \<and> n = m_offset m \<and>
         isTrue (value_truncated m) \<and> \<not> isTrue (masked m)
     | Row_Toast _ \<Rightarrow> True)"

lemma row_step_inv: "row_inv m st \<Longrightarrow> row_inv m (snd (row_step m st e))"
  by (cases e) (auto simp: row_step_def row_inv_def split: option.splits api_error.splits)

lemma row_step_ok: "fst (row_step m st e) = Some r \<Longrightarrow> row_ok m st r"
  by (cases e) (auto simp: row_step_def row_ok_def download_button_of_def split: option.splits api_error.splits if_splits)

interpretation rows: sender "row_step m" "row_inv m" "\<lambda>_. True" "row_ok m"
  for m
  by unfold_locales (simp_all add: row_step_inv row_step_ok)

lemma loads_full_unmasked: "loads_full cluster topic m wants \<Longrightarrow>
    value_truncated m = Some True \<and> \<not> isTrue (masked m) \<and> opt_or (value_size_bytes m) 0 \<le> 1024 * 1024"
  by (auto simp: loads_full_def can_load_full_def truncated_json_def too_large_for_tree_def size_limit_bytes_def isTrue_def)

text \<open>A preview is never shown as a tree: a tree shows the whole value, the loaded one or the one in the list.\<close>

lemma tree_is_whole_value:
  assumes "value_body_of i locale parse m q = Value_Tree v"
  shows "(value_truncated m = Some True \<and> (\<exists>b64 t. rq_data q = Some b64 \<and> base64_to_utf8 b64 = Some t \<and> parse t = Some v)) \<or>
    (value_truncated m \<noteq> Some True \<and> (\<exists>t. m_value m = Some t \<and> parse t = Some v))"
  using assms
  by (auto simp: value_body_of_def full_parsed_def inline_parsed_def truncated_json_def Let_def opt_or_def
      split: option.splits if_splits bind_splits)

text \<open>
  A value that was loaded before it was masked stays on screen: the query keeps its answer, and the tree is chosen
  before the mask is looked at.
\<close>

lemma masked_after_load_shows_tree:
  assumes "masked m = Some True" "truncated_json m" "rq_data q = Some b64" "base64_to_utf8 b64 = Some t" "parse t = Some v"
  shows "value_body_of i locale parse m q = Value_Tree v"
  using assms by (simp add: value_body_of_def full_parsed_def Let_def)

text \<open>A click never searches for a redacted text.\<close>

lemma header_lines_unmasked: "l \<in> set (header_lines m) \<Longrightarrow> hl_value_filter l = Some f \<Longrightarrow>
    hl_key l \<notin> set (opt_or (masked_headers m) []) \<and> (\<exists>v. f = Filter_Header (hl_key l) (Some v) \<and> (hl_key l, v) \<in> set (opt_or (m_headers m) []))"
  by (auto simp: header_lines_def masked_header_names_def split: if_splits)

lemma value_preview_length: "length (value_preview m) \<le> 160"
  by (simp add: value_preview_def js_def)

text \<open>The previews cut between code units: of a character outside the basic plane half may be left.\<close>

lemma preview_splits_pair:
  "value_preview (m\<lparr>m_value := Some (replicate 159 120 @ [0xD83D, 0xDE00]), value_encoding := js ''text''\<rparr>) = replicate 159 120 @ [0xD83D]"
  by (simp add: value_preview_def js_def)

section \<open>Selecting for a compare\<close>

definition other_selected :: "message_ref option \<Rightarrow> message_ref \<Rightarrow> bool" where
  "other_selected selected target \<longleftrightarrow> selected \<noteq> None \<and> \<not> same_message selected (Some target)"

definition select_label :: "message_ref option \<Rightarrow> message_ref \<Rightarrow> jstr" where
  "select_label selected target =
     (if same_message selected (Some target) then js ''Clear selection''
      else if other_selected selected target then js ''Select this instead'' else js ''Select for compare'')"

definition select_click :: "message_ref \<Rightarrow> compare_selection \<Rightarrow> compare_selection" where
  "select_click target s =
     set_compare_selection (if same_message (use_compare_selection s) (Some target) then None else Some target) s"

text \<open>Messages A and B of the compare page a click opens.\<close>

definition compare_click :: "message_ref option \<Rightarrow> message_ref \<Rightarrow> (jstr \<times> jstr) option" where
  "compare_click selected target =
     (if other_selected selected target then Some (format_message_ref (the selected), format_message_ref target) else None)"

definition describe_ref :: "(int \<Rightarrow> jstr) \<Rightarrow> message_ref \<Rightarrow> jstr" where
  "describe_ref number r =
     mr_cluster r @ js '' / '' @ mr_topic r @ middle_dot @ js ''p'' @ dec_int (mr_partition r) @ middle_dot @ js ''#'' @ number (mr_offset r)"

text \<open>The label of the bar and the announcement when it changes.\<close>

definition tray_label :: "(int \<Rightarrow> jstr) \<Rightarrow> message_ref option \<Rightarrow> jstr" where
  "tray_label number selected = (case selected of None \<Rightarrow> [] | Some r \<Rightarrow> describe_ref number r)"

definition tray_announcement :: "jstr \<Rightarrow> jstr \<Rightarrow> jstr option" where
  "tray_announcement previous label =
     (if label = previous then None
      else Some (if label \<noteq> [] then js ''Selected for compare: '' @ label @ js ''. Open another message and choose Compare with selected.''
        else js ''Compare selection cleared.''))"

definition tray_shown :: "message_ref option \<Rightarrow> bool \<Rightarrow> bool" where
  "tray_shown selected on_compare_page \<longleftrightarrow> selected \<noteq> None \<and> \<not> on_compare_page"

text \<open>A click selects an unselected message and clears a selected one; a compare opens two different messages.\<close>

lemma select_click_toggles:
  assumes "message_ref_ok target" "se_readable s = se_writable s"
  shows "use_compare_selection (select_click target s) = (if same_message (use_compare_selection s) (Some target) then None else Some target)"
  using selection_kept [OF assms] by (simp add: select_click_def)

lemma compare_click_two:
  assumes "compare_click selected target = Some (a, b)"
  shows "a \<noteq> b \<and> b = format_message_ref target \<and> (\<exists>r. selected = Some r \<and> a = format_message_ref r)"
  using assms by (auto simp: compare_click_def other_selected_def same_message_def split: if_splits)

end
