(* ===== verification/Browser.thy ===== *)
theory Browser
  imports MessageSearch MessageList Numbers PathTree Format
begin

text \<open>
  The message browser of a topic (\<open>frontend/src/features/messages/MessagesPanel.tsx\<close>) with its toolbar and its search
  panel: the range picker (\<open>RangePicker.tsx\<close>), the numeric inputs (\<open>use-number-draft.ts\<close>, \<open>BrowseFromControl.tsx\<close>,
  \<open>BrowseToolbar.tsx\<close>), the count preview (\<open>MessageRangeCountPreview.tsx\<close>), the query inputs
  (\<open>SearchQueryFields.tsx\<close>, \<open>SearchRunBar.tsx\<close>, \<open>SearchResultBanner.tsx\<close>), the notices (\<open>MessageListStatus.tsx\<close>), and
  the panel that composes the hooks of \<open>MessageSearch\<close> and \<open>MessageList\<close>. \<open>number\<close> formats a number.
\<close>

section \<open>The range picker\<close>

definition range_presets :: "(jstr \<times> jstr) list" where
  "range_presets =
     [(js ''5m'', js ''Last 5 minutes''), (js ''15m'', js ''Last 15 minutes''), (js ''1h'', js ''Last 1 hour''), (js ''6h'', js ''Last 6 hours''),
      (js ''24h'', js ''Last 24 hours''), (js ''7d'', js ''Last 7 days''), (js ''30d'', js ''Last 30 days''), (js ''today'', js ''Today''),
      (js ''yesterday'', js ''Yesterday'')]"

text \<open>\<open>replace("T", " ")\<close>: the first one.\<close>

fun without_t :: "jstr \<Rightarrow> jstr" where
  "without_t [] = []"
| "without_t (c # s) = (if c = 84 then 32 # s else c # without_t s)"

definition range_label :: "time_range_state \<Rightarrow> jstr" where
  "range_label r =
     (case tr_mode r of
        Tr_Off \<Rightarrow> js ''Any time''
      | Tr_Preset \<Rightarrow> (case mget range_presets (tr_preset r) of Some l \<Rightarrow> l | None \<Rightarrow> js ''Last '' @ tr_preset r)
      | Tr_Custom \<Rightarrow>
          let a = tr_custom_from r; b = tr_custom_to r in
          if a \<noteq> [] \<and> b \<noteq> [] then without_t a @ [32, 0x2192, 32] @ without_t b
          else if a \<noteq> [] then js ''From '' @ without_t a
          else if b \<noteq> [] then js ''Until '' @ without_t b
          else js ''Custom'')"

record range_picker =
  rp_open :: bool
  rp_from :: jstr
  rp_to :: jstr

datatype range_event =
    Rp_Toggle
  | Rp_Outside
  | Rp_Range time_range_state
  | Rp_From jstr
  | Rp_To jstr
  | Rp_Preset nat
  | Rp_Apply
  | Rp_Clear

text \<open>
  The picker tells its parent the new range. \<open>Rp_Range\<close> is a render with another range of the parent, which resets
  the drafts when one of the custom bounds has changed.
\<close>

definition picker_step :: "time_range_state \<Rightarrow> range_picker \<Rightarrow> range_event \<Rightarrow> time_range_state option \<times> range_picker" where
  "picker_step r st e =
     (case e of
        Rp_Toggle \<Rightarrow> (None, st\<lparr>rp_open := \<not> rp_open st\<rparr>)
      | Rp_Outside \<Rightarrow> (None, st\<lparr>rp_open := False\<rparr>)
      | Rp_Range n \<Rightarrow>
          (None, if tr_custom_from n = tr_custom_from r \<and> tr_custom_to n = tr_custom_to r then st
             else st\<lparr>rp_from := tr_custom_from n, rp_to := tr_custom_to n\<rparr>)
      | Rp_From v \<Rightarrow> (None, if rp_open st then st\<lparr>rp_from := v\<rparr> else st)
      | Rp_To v \<Rightarrow> (None, if rp_open st then st\<lparr>rp_to := v\<rparr> else st)
      | Rp_Preset i \<Rightarrow>
          if rp_open st \<and> i < length range_presets
          then (Some \<lparr>tr_mode = Tr_Preset, tr_preset = fst (range_presets ! i), tr_custom_from = [], tr_custom_to = []\<rparr>, st\<lparr>rp_open := False\<rparr>)
          else (None, st)
      | Rp_Apply \<Rightarrow>
          if rp_open st \<and> \<not> (rp_from st = [] \<and> rp_to st = [])
          then (Some \<lparr>tr_mode = Tr_Custom, tr_preset = tr_preset r, tr_custom_from = rp_from st, tr_custom_to = rp_to st\<rparr>, st\<lparr>rp_open := False\<rparr>)
          else (None, st)
      | Rp_Clear \<Rightarrow>
          if rp_open st \<and> tr_mode r \<noteq> Tr_Off
          then (Some \<lparr>tr_mode = Tr_Off, tr_preset = tr_preset r, tr_custom_from = [], tr_custom_to = []\<rparr>, st\<lparr>rp_open := False\<rparr>)
          else (None, st))"

text \<open>
  Every range the picker hands over bounds the query the way its label says: a preset to a stretch that ends no earlier
  than it begins, a custom range on at least one side, and clearing on no side.
\<close>

lemma picked_range:
  assumes "picker_step r st e = (Some n, st')" "calendar_ok cal"
  shows "\<not> rp_open st' \<and>
    (case tr_mode n of
       Tr_Off \<Rightarrow> compute_time_range cal now n = \<lparr>rg_from = None, rg_to = None\<rparr>
     | Tr_Preset \<Rightarrow> tr_preset n \<in> fst ` set range_presets \<and>
         (\<exists>a b. compute_time_range cal now n = \<lparr>rg_from = Some a, rg_to = Some b\<rparr> \<and> a \<le> b)
     | Tr_Custom \<Rightarrow> rg_from (compute_time_range cal now n) \<noteq> None \<or> rg_to (compute_time_range cal now n) \<noteq> None)"
proof (cases "tr_mode n")
  case Tr_Preset
  then have "tr_preset n \<in> fst ` set range_presets" "\<not> rp_open st'"
    using assms(1) by (auto simp: picker_step_def split: range_event.splits if_splits)
  then show ?thesis using Tr_Preset preset_range_ordered [OF assms(2) Tr_Preset] by simp
next
  case Tr_Off
  then show ?thesis using assms(1) by (auto simp: picker_step_def compute_time_range_def split: range_event.splits if_splits)
next
  case Tr_Custom
  then show ?thesis using assms(1) by (auto simp: picker_step_def compute_time_range_def split: range_event.splits if_splits)
qed

text \<open>Every preset of the picker is a duration the query knows or one of the two days.\<close>

lemma presets_known: "k \<in> fst ` set range_presets \<Longrightarrow> mget preset_durations_ms k \<noteq> None \<or> k = js ''today'' \<or> k = js ''yesterday''"
  by (auto simp: range_presets_def preset_durations_ms_def mget_Nil)

section \<open>Numeric inputs\<close>

text \<open>\<open>useNumberDraft\<close>: what a commit writes into the input and what it applies.\<close>

definition number_draft_of :: "int \<Rightarrow> jstr" where
  "number_draft_of v = dec_int v"

definition commit_draft :: "(jstr \<Rightarrow> int) \<Rightarrow> int \<Rightarrow> jstr \<Rightarrow> jstr \<times> int option" where
  "commit_draft cleaned v draft =
     (let next = cleaned draft in (number_draft_of next, if next \<noteq> v then Some next else None))"

definition limit_draft :: "jstr \<Rightarrow> int" where
  "limit_draft raw = clamp_limit (js_number raw)"

definition offset_draft :: "partition_info list \<Rightarrow> int \<Rightarrow> jstr \<Rightarrow> int" where
  "offset_draft ps p raw = clamp_offset (js_number raw) (offset_bounds_for ps p)"

text \<open>A second commit changes nothing.\<close>

lemma limit_draft_again: "limit_draft (number_draft_of (limit_draft raw)) = limit_draft raw"
proof -
  define n where "n = limit_draft raw"
  have n: "1 \<le> n" "n \<le> 500" using clamp_limit_range by (simp_all add: n_def limit_draft_def)
  have "js_number (number_draft_of n) = Some (of_nat (nat n))"
    using js_number_dec [of "nat n"] n by (simp add: number_draft_of_def dec_int_def)
  then show ?thesis using n unfolding n_def [symmetric] by (simp add: limit_draft_def clamp_limit_def)
qed

lemma offset_draft_again:
  assumes "offset_bounds_for ps p = Some b" "0 \<le> ob_min b" "ob_max b < 2 ^ 1023"
  shows "offset_draft ps p (number_draft_of (offset_draft ps p raw)) = offset_draft ps p raw"
proof -
  define n where "n = offset_draft ps p raw"
  have n: "ob_min b \<le> n" "n \<le> ob_max b" using clamp_offset_range [OF assms(1)] assms(1) by (simp_all add: n_def offset_draft_def)
  have "nat n < 2 ^ 1023" using n assms(3) by (simp add: nat_less_iff)
  then have "js_number (number_draft_of n) = Some (of_nat (nat n))"
    using js_number_dec [of "nat n"] n assms(2) by (simp add: number_draft_of_def dec_int_def)
  then show ?thesis using n assms unfolding n_def [symmetric] by (simp add: offset_draft_def clamp_offset_def)
qed

section \<open>The count preview\<close>

definition count_debounce_ms :: int where
  "count_debounce_ms = 400"

record count_preview =
  cv_request :: "int \<times> int option \<times> int option"
  cv_debounced :: "int \<times> int option \<times> int option"
  cv_expanded :: bool

datatype count_event = Cv_Request "int \<times> int option \<times> int option" | Cv_Timer | Cv_Toggle | Cv_Outside

text \<open>A changed request restarts the timer, so a timer that fires belongs to the latest request.\<close>

definition count_step :: "count_preview \<Rightarrow> count_event \<Rightarrow> count_preview" where
  "count_step st e =
     (case e of
        Cv_Request r \<Rightarrow> st\<lparr>cv_request := r\<rparr>
      | Cv_Timer \<Rightarrow> st\<lparr>cv_debounced := cv_request st\<rparr>
      | Cv_Toggle \<Rightarrow> st\<lparr>cv_expanded := \<not> cv_expanded st\<rparr>
      | Cv_Outside \<Rightarrow> st\<lparr>cv_expanded := False\<rparr>)"

definition count_label :: "(int \<Rightarrow> jstr) \<Rightarrow> bool \<Rightarrow> bool \<Rightarrow> int option \<Rightarrow> jstr" where
  "count_label number failed live n =
     (if failed then js ''count failed''
      else case n of
          Some k \<Rightarrow> [0x2248, 32] @ number k @ js '' messages''
        | None \<Rightarrow> if live then js ''snapshot paused'' else [0x2248, 32, 0x2026] @ js '' messages'')"

definition count_breakdown :: "bool \<Rightarrow> bool \<Rightarrow> nat \<Rightarrow> bool \<times> bool" where
  "count_breakdown live expanded rows = (\<not> live \<and> 1 < rows, expanded \<and> 1 < rows)"

lemma debounced_after_timer:
  "cv_debounced (fold (\<lambda>e st. count_step st e) (map Cv_Request rs @ [Cv_Timer]) st) = last (cv_request st # rs)"
proof -
  have "cv_request (fold (\<lambda>e st. count_step st e) (map Cv_Request rs) st) = last (cv_request st # rs)" for st
    by (induction rs arbitrary: st) (simp_all add: count_step_def)
  then show ?thesis by (simp add: count_step_def)
qed

section \<open>The query\<close>

definition uses_operator :: "search_mode \<Rightarrow> bool" where
  "uses_operator m \<longleftrightarrow> m \<noteq> Sm_Contains \<and> m \<noteq> Sm_Js"

definition value_ignored :: "search_form \<Rightarrow> bool" where
  "value_ignored f \<longleftrightarrow> uses_operator (sf_mode f) \<and> (sf_op f = Op_Exists \<or> sf_op f = Op_Missing)"

text \<open>A picked field: a container cannot be compared, so it is searched for by presence.\<close>

definition pick_path :: "jstr \<Rightarrow> path_type \<Rightarrow> search_form \<Rightarrow> search_form" where
  "pick_path p t f = f\<lparr>sf_path := p, sf_op := (if t \<noteq> Pt_Object \<and> t \<noteq> Pt_Array then Op_Eq else Op_Exists), sf_needle := []\<rparr>"

definition search_disabled :: "bool \<Rightarrow> search_form \<Rightarrow> bool" where
  "search_disabled searching f \<longleftrightarrow> searching \<or>
     (sf_mode f = Sm_Js \<and> trim (sf_needle f) = []) \<or>
     ((sf_mode f = Sm_Jsonpath \<or> sf_mode f = Sm_Xpath) \<and> trim (sf_path f) = []) \<or>
     (sf_mode f = Sm_Header \<and> sf_header_key f = [])"

text \<open>The budget input: empty and unreadable texts are 0, which the input shows as empty.\<close>

definition budget_of :: "jstr \<Rightarrow> rat" where
  "budget_of raw = (if raw = [] then 0 else case js_number raw of Some x \<Rightarrow> x | None \<Rightarrow> 0)"

definition banner_badge :: "bool \<Rightarrow> stop_reason option \<Rightarrow> search_stats \<Rightarrow> jstr option" where
  "banner_badge searching reason s =
     (if searching then None
      else case reason of
          Some StopBudget \<Rightarrow> Some (js ''Scan limit reached'')
        | Some StopLimit \<Rightarrow> Some (js ''Limit reached'')
        | Some StopStopped \<Rightarrow> Some (js ''Stopped'')
        | Some StopTimeout \<Rightarrow> Some (if ss_timed_out s then js ''Timed out'' else js ''No progress'')
        | Some StopComplete \<Rightarrow> if \<not> ss_more_available s \<and> \<not> ss_timed_out s then Some (js ''Range fully scanned'') else None
        | None \<Rightarrow> None)"

definition search_more_shown :: "bool \<Rightarrow> search_stats \<Rightarrow> bool" where
  "search_more_shown searching s \<longleftrightarrow> \<not> searching \<and> ss_more_available s"

text \<open>A search that may run names what it looks for: its request has a path or a header key where the mode needs one.\<close>

lemma search_request_complete:
  assumes "\<not> search_disabled searching f"
  shows "let q = search_base_request p limit r f in
    (sf_mode f = Sm_Jsonpath \<or> sf_mode f = Sm_Xpath \<longrightarrow> (\<exists>path. sq_path q = Some path \<and> trim path \<noteq> [])) \<and>
    (sf_mode f = Sm_Header \<longrightarrow> (\<exists>k. sq_header_key q = Some k \<and> k \<noteq> [])) \<and>
    (sf_mode f = Sm_Js \<longrightarrow> (\<exists>v. sq_value q = Some v \<and> trim v \<noteq> []))"
  using assms by (auto simp: search_disabled_def search_base_request_def Let_def)

text \<open>"Range fully scanned" is never shown beside "Search more".\<close>

lemma fully_scanned_alone: "banner_badge searching reason s = Some (js ''Range fully scanned'') \<Longrightarrow> \<not> search_more_shown searching s"
  by (auto simp: banner_badge_def search_more_shown_def js_def split: if_splits option.splits stop_reason.splits)

section \<open>The panel\<close>

record panel =
  pn_live :: bool
  pn_sort :: sort_order
  pn_range :: time_range_state
  pn_click :: click_state
  pn_search :: search_panel
  pn_head :: "messages_page option"
  pn_more :: load_more

definition panel_initial :: panel where
  "panel_initial =
     \<lparr>pn_live = False, pn_sort = Newest, pn_range = initial_time_range,
      pn_click = \<lparr>ck_form = initial_search_form, ck_toast = None, ck_search_open = False\<rparr>, pn_search = initial_search_panel,
      pn_head = None, pn_more = head_changed None \<lparr>lm_tail = [], lm_cursor = None, lm_loading = False, lm_error = None, lm_generation = 0\<rparr>\<rparr>"

definition browse_messages :: "panel \<Rightarrow> message list" where
  "browse_messages st = (case pn_head st of None \<Rightarrow> [] | Some h \<Rightarrow> opt_or (mp_messages h) []) @ lm_tail (pn_more st)"

definition display_messages :: "panel \<Rightarrow> message list" where
  "display_messages st =
     order_for_display
       (if in_search_mode (pn_search st) then (case sp_result (pn_search st) of None \<Rightarrow> [] | Some r \<Rightarrow> res_messages r) else browse_messages st)
       (pn_sort st)"

text \<open>A result on screen switches off the controls that only affect browsing.\<close>

definition panel_locked :: "panel \<Rightarrow> bool" where
  "panel_locked st \<longleftrightarrow> sp_result (pn_search st) \<noteq> None"

definition load_more_shown :: "panel \<Rightarrow> bool" where
  "load_more_shown st \<longleftrightarrow> \<not> in_search_mode (pn_search st) \<and> opt_or (lm_cursor (pn_more st)) [] \<noteq> [] \<and> \<not> pn_live st"

definition count_text :: "(int \<Rightarrow> jstr) \<Rightarrow> bool \<Rightarrow> panel \<Rightarrow> jstr" where
  "count_text number fetching st =
     (let s = pn_search st; stats = map_option res_stats (sp_result s) in
      (if in_search_mode s then number (case stats of None \<Rightarrow> 0 | Some x \<Rightarrow> ss_matched x) else number (int (length (display_messages st)))) @
      (if \<not> in_search_mode s \<and> fetching then [32, 0xB7, 32] @ js ''fetching'' @ [0x2026] else []) @
      (if sp_searching s
       then [32, 0xB7, 32] @ number (case stats of None \<Rightarrow> 0 | Some x \<Rightarrow> ss_scanned x) @ js '' scanned'' @ [32, 0xB7, 32] @ js ''searching'' @ [0x2026]
       else []))"

datatype list_notice = Notice_Error jstr | Notice_Partial | Notice_Searching int | Notice_Loading | Notice_No_Matches | Notice_No_Messages

text \<open>The notices above the list, given the error of the head page and whether it loads.\<close>

definition list_notices :: "jstr option \<Rightarrow> bool \<Rightarrow> panel \<Rightarrow> list_notice list" where
  "list_notices err loading st =
     (let has_result = sp_result (pn_search st) \<noteq> None; searching = sp_searching (pn_search st); empty = display_messages st = [];
          partial = (case pn_head st of None \<Rightarrow> False | Some h \<Rightarrow> isTrue (mp_partial h)) in
      (case err of Some m \<Rightarrow> if has_result then [] else [Notice_Error m]
         | None \<Rightarrow> if \<not> has_result \<and> partial then [Notice_Partial] else []) @
      (if empty \<and> searching then [Notice_Searching (case sp_result (pn_search st) of None \<Rightarrow> 0 | Some r \<Rightarrow> ss_scanned (res_stats r))] else []) @
      (if empty \<and> \<not> searching \<and> loading then [Notice_Loading] else []) @
      (if empty \<and> \<not> searching \<and> \<not> loading then [if has_result then Notice_No_Matches else Notice_No_Messages] else []))"

datatype panel_event =
    Pn_Live bool
  | Pn_Sort sort_order
  | Pn_Range time_range_state
  | Pn_Toggle_Search
  | Pn_Form search_form
  | Pn_Pick "path_token list" "json option" int
  | Pn_Filter field_filter int
  | Pn_Undo
  | Pn_Time int
  | Pn_Head "messages_page option"
  | Pn_Load_More consume_params
  | Pn_Page nat "jstr + messages_page"
  | Pn_Begin_Search bool
  | Pn_Search search_panel
  | Pn_Clear

text \<open>
  A step may ask for a page, with the generation its answer has to carry. The form, the path and the query inputs exist
  while the search is open; \<open>Pn_Search\<close> is what a running search publishes or ends with.
\<close>

definition panel_step :: "jstr \<Rightarrow> panel \<Rightarrow> panel_event \<Rightarrow> (consume_params \<times> nat) option \<times> panel" where
  "panel_step topic st e =
     (let ck = pn_click st in
      case e of
        Pn_Live b \<Rightarrow> (None, if panel_locked st then st else st\<lparr>pn_live := b\<rparr>)
      | Pn_Sort s \<Rightarrow> (None, st\<lparr>pn_sort := s\<rparr>)
      | Pn_Range r \<Rightarrow> (None, if panel_locked st then st else st\<lparr>pn_range := r\<rparr>)
      | Pn_Toggle_Search \<Rightarrow>
          (None, if ck_search_open ck then st\<lparr>pn_click := ck\<lparr>ck_search_open := False\<rparr>\<rparr>
             else st\<lparr>pn_click := ck\<lparr>ck_form := preselect_mode topic (browse_messages st) (ck_form ck), ck_search_open := True\<rparr>\<rparr>)
      | Pn_Form f \<Rightarrow> (None, if ck_search_open ck then st\<lparr>pn_click := ck\<lparr>ck_form := f\<rparr>\<rparr> else st)
      | Pn_Pick trail leaf now \<Rightarrow> (None, st\<lparr>pn_click := handle_pick topic now trail leaf ck\<rparr>)
      | Pn_Filter ff now \<Rightarrow> (None, st\<lparr>pn_click := handle_filter topic now ff ck\<rparr>)
      | Pn_Undo \<Rightarrow> (None, if ck_search_open ck then st\<lparr>pn_click := undo_click topic ck\<rparr> else st)
      | Pn_Time now \<Rightarrow> (None, st\<lparr>pn_click := expire_toast now ck\<rparr>)
      | Pn_Head h \<Rightarrow> (None, st\<lparr>pn_head := h, pn_more := head_changed h (pn_more st)\<rparr>)
      | Pn_Load_More params \<Rightarrow>
          if load_more_shown st \<and> \<not> lm_loading (pn_more st)
          then (let (req, more) = load_more_start params (pn_more st) in (req, st\<lparr>pn_more := more\<rparr>))
          else (None, st)
      | Pn_Page gen answer \<Rightarrow> (None, st\<lparr>pn_more := load_more_answer gen answer (pn_more st)\<rparr>)
      | Pn_Begin_Search continue \<Rightarrow>
          (None, if ck_search_open ck \<and>
               (if continue then sp_result (pn_search st) \<noteq> None \<and> \<not> sp_searching (pn_search st)
                else \<not> search_disabled (sp_searching (pn_search st)) (ck_form ck))
             then st\<lparr>pn_search := begin_search continue (pn_search st)\<rparr> else st)
      | Pn_Search s \<Rightarrow> (None, if sp_searching (pn_search st) then st\<lparr>pn_search := s\<rparr> else st)
      | Pn_Clear \<Rightarrow> (None, if ck_search_open ck \<and> sp_result (pn_search st) \<noteq> None \<and> \<not> sp_searching (pn_search st) then st\<lparr>pn_search := clear_search (pn_search st)\<rparr> else st))"

text \<open>The list on screen shows every record of its source once, whatever happened before.\<close>

lemma panel_shows_once:
  "distinct (map message_key (display_messages st)) \<and>
   (\<not> in_search_mode (pn_search st) \<longrightarrow> set (map message_key (display_messages st)) = set (map message_key (browse_messages st)))"
  unfolding display_messages_def using display_distinct display_keys by auto

text \<open>The generation counts the head pages; only a page of the present generation is appended.\<close>

definition panel_generation :: "panel \<Rightarrow> nat" where
  "panel_generation st = lm_generation (pn_more st)"

lemma load_more_generation: "lm_generation (snd (load_more_start params l)) = lm_generation l" "lm_generation (load_more_answer g a l) = lm_generation l"
  by (simp_all add: load_more_start_def load_more_answer_def split: option.splits sum.splits)

lemma panel_step_generation:
  "panel_generation (snd (panel_step topic st e)) = (case e of Pn_Head _ \<Rightarrow> Suc (panel_generation st) | _ \<Rightarrow> panel_generation st)"
  by (cases e) (simp_all add: panel_step_def panel_generation_def head_changed_def load_more_generation Let_def split_beta)

definition panel_run :: "jstr \<Rightarrow> panel \<Rightarrow> panel_event list \<Rightarrow> panel" where
  "panel_run topic st es = foldl (\<lambda>s e. snd (panel_step topic s e)) st es"

lemma panel_run_generation: "panel_generation (panel_run topic st es) = panel_generation st + length (filter (\<lambda>e. \<exists>h. e = Pn_Head h) es)"
proof (induction es arbitrary: st)
  case (Cons e es)
  have "panel_run topic st (e # es) = panel_run topic (snd (panel_step topic st e)) es" by (simp add: panel_run_def)
  then show ?case using Cons.IH by (cases e) (simp_all add: panel_step_generation)
qed (simp add: panel_run_def)

text \<open>
  C18: In every run of the panel a page belongs to the head page it was asked for. A request of "Load more" carries the
  cursor of the list on screen; once the head page has changed, its answer changes nothing, however late it comes and
  whatever else happened; and while the head is the same, the answer's messages are appended to those shown.
\<close>

theorem panel_page_scope:
  assumes "panel_step topic st (Pn_Load_More params) = (Some (req, gen), st')"
  shows "cp_cursor req = lm_cursor (pn_more st) \<and>
    (if \<exists>e\<in>set es. \<exists>h. e = Pn_Head h
     then snd (panel_step topic (panel_run topic st' es) (Pn_Page gen answer)) = panel_run topic st' es
     else lm_tail (pn_more (snd (panel_step topic (panel_run topic st' es) (Pn_Page gen (Inr page))))) =
       lm_tail (pn_more (panel_run topic st' es)) @ opt_or (mp_messages page) [])"
proof -
  have s: "load_more_start params (pn_more st) = (Some (req, gen), pn_more st')"
    using assms by (auto simp: panel_step_def Let_def split: if_splits prod.splits)
  then have "lm_generation (pn_more st') = lm_generation (pn_more st)"
    using load_more_generation(1) [of params "pn_more st"] by simp
  with s have g: "gen = panel_generation st'" "cp_cursor req = lm_cursor (pn_more st)"
    by (auto simp: load_more_start_def panel_generation_def or_undefined_def split: option.splits list.splits)
  have run: "panel_generation (panel_run topic st' es) = gen + length (filter (\<lambda>e. \<exists>h. e = Pn_Head h) es)"
    by (simp add: panel_run_generation g(1))
  show ?thesis
  proof (cases "\<exists>e\<in>set es. \<exists>h. e = Pn_Head h")
    case True
    then have "filter (\<lambda>e. \<exists>h. e = Pn_Head h) es \<noteq> []" by (simp add: filter_empty_conv)
    then have "panel_generation (panel_run topic st' es) \<noteq> gen" using run by simp
    then show ?thesis using True g(2) by (simp add: panel_step_def load_more_answer_def panel_generation_def)
  next
    case False
    then have "filter (\<lambda>e. \<exists>h. e = Pn_Head h) es = []" by (simp add: filter_empty_conv)
    then have "panel_generation (panel_run topic st' es) = gen" using run by simp
    then show ?thesis using False g(2) by (simp add: panel_step_def load_more_answer_def panel_generation_def)
  qed
qed

lemma panel_page_scope_witness:
  "let st = snd (panel_step (js ''t'') panel_initial (Pn_Head (Some \<lparr>mp_cluster = js ''c'', mp_topic = js ''t'', mp_messages = None, mp_has_more = True,
        mp_next_cursor = Some (js ''n''), mp_partial = None\<rparr>)));
      params = \<lparr>cp_partition = None, cp_limit = None, cp_from = None, cp_offset = None, cp_partition_offsets = None, cp_from_ts = None,
        cp_to_ts = None, cp_cursor = None\<rparr>;
      (asked, st') = panel_step (js ''t'') st (Pn_Load_More params) in
    asked = Some (params\<lparr>cp_cursor := Some (js ''n'')\<rparr>, 2) \<and>
    snd (panel_step (js ''t'') (panel_run (js ''t'') st' [Pn_Head None]) (Pn_Page 2 (Inl (js ''late'')))) = panel_run (js ''t'') st' [Pn_Head None]"
proof -
  let ?st = "snd (panel_step (js ''t'') panel_initial (Pn_Head (Some \<lparr>mp_cluster = js ''c'', mp_topic = js ''t'', mp_messages = None,
        mp_has_more = True, mp_next_cursor = Some (js ''n''), mp_partial = None\<rparr>)))"
  let ?p = "\<lparr>cp_partition = None, cp_limit = None, cp_from = None, cp_offset = None, cp_partition_offsets = None, cp_from_ts = None,
        cp_to_ts = None, cp_cursor = None\<rparr>"
  have step: "fst (panel_step (js ''t'') ?st (Pn_Load_More ?p)) = Some (?p\<lparr>cp_cursor := Some (js ''n'')\<rparr>, 2)"
    by (simp add: panel_step_def panel_initial_def head_changed_def load_more_shown_def load_more_start_def in_search_mode_def
        initial_search_panel_def or_undefined_def Let_def js_def)
  then have "panel_step (js ''t'') ?st (Pn_Load_More ?p) = (Some (?p\<lparr>cp_cursor := Some (js ''n'')\<rparr>, 2), snd (panel_step (js ''t'') ?st (Pn_Load_More ?p)))"
    by (metis prod.collapse)
  from panel_page_scope [OF this, where es = "[Pn_Head None]" and answer = "Inl (js ''late'')"] step show ?thesis
    by (simp add: Let_def split_beta)
qed

text \<open>Opening the search keeps a mode the user chose and every typed text.\<close>

lemma toggle_keeps_input:
  "let f = ck_form (pn_click st); f' = ck_form (pn_click (snd (panel_step topic st Pn_Toggle_Search))) in
     f'\<lparr>sf_mode := sf_mode f\<rparr> = f \<and> (mode_touched topic f \<longrightarrow> f' = f)"
  by (simp add: panel_step_def preselect_mode_def Let_def)

text \<open>While a result is on screen, nothing but clearing it or a new search changes what the range or Live shows.\<close>

lemma locked_keeps_browse: "panel_locked st \<Longrightarrow> pn_live (snd (panel_step topic st e)) = pn_live st \<and> pn_range (snd (panel_step topic st e)) = pn_range st"
  by (cases e) (simp_all add: panel_step_def Let_def split_beta)

end
