(* ===== verification/UiKit.thy ===== *)
theory UiKit
  imports Preferences ClusterStoreProps Format Fuzzy
begin

text \<open>
  The frame around the pages: open dialogs with their scroll lock, keys and focus (\<open>frontend/src/components/ui/Modal.tsx\<close>),
  small parts of the pages (\<open>SearchInput.tsx\<close>, \<open>MonoId.tsx\<close>, \<open>StatusDot.tsx\<close>, \<open>FieldError.tsx\<close>), the account menu
  (\<open>features/shell/UserMenu.tsx\<close>), the release notes (\<open>WhatsNewButton.tsx\<close>, \<open>WhatsNewModal.tsx\<close>) and the
  password prompt of a private cluster (\<open>features/clusters/PrivateClusterPasswordGate.tsx\<close>).
\<close>

section \<open>Open dialogs\<close>

text \<open>
  The stack of open dialogs, the last opened first, each with the overflow of the body it found; the overflow of the
  body now. A dialog is identified by a number of its own.
\<close>

record modal_state =
  md_stack :: "nat list"
  md_saved :: "(nat, jstr) jsmap"
  md_overflow :: jstr

definition hidden_overflow :: jstr where
  "hidden_overflow = js ''hidden''"

definition open_modal :: "nat \<Rightarrow> modal_state \<Rightarrow> modal_state" where
  "open_modal i st =
     st\<lparr>md_stack := i # md_stack st, md_saved := mset_key i (md_overflow st) (md_saved st), md_overflow := hidden_overflow\<rparr>"

definition close_modal :: "nat \<Rightarrow> modal_state \<Rightarrow> modal_state" where
  "close_modal i st =
     (let stack = remove1 i (md_stack st) in
      st\<lparr>md_stack := stack, md_overflow := (if stack = [] then opt_or (mget (md_saved st) i) [] else md_overflow st)\<rparr>)"

definition any_modal_open :: "modal_state \<Rightarrow> bool" where
  "any_modal_open st \<longleftrightarrow> md_stack st \<noteq> []"

text \<open>Which dialog Escape closes: every open dialog hears the key, only the topmost acts.\<close>

definition escape_closes :: "modal_state \<Rightarrow> nat list" where
  "escape_closes st = filter (\<lambda>i. md_stack st \<noteq> [] \<and> hd (md_stack st) = i) (md_stack st)"

lemma escape_closes_one: "distinct (md_stack st) \<Longrightarrow> escape_closes st = take 1 (md_stack st)"
  by (cases "md_stack st") (auto simp: escape_closes_def filter_empty_conv)

text \<open>
  The page scrolls again as before exactly when the dialog opened first is the one closed last. Dialogs closed in
  another order leave the body locked.
\<close>

definition all_opened :: "nat list \<Rightarrow> modal_state \<Rightarrow> modal_state" where
  "all_opened ids st = fold open_modal ids st"

definition all_closed :: "nat list \<Rightarrow> modal_state \<Rightarrow> modal_state" where
  "all_closed ids st = fold close_modal ids st"

lemma opened_saved:
  assumes "i \<in> set ids" "distinct ids"
  shows "mget (md_saved (all_opened ids st)) i = Some (if i = hd ids then md_overflow st else hidden_overflow)"
proof -
  have g: "mget (md_saved (fold open_modal ids st)) j = (if j \<in> set ids then Some hidden_overflow else mget (md_saved st) j)"
    if "md_overflow st = hidden_overflow" for j ids st
    using that by (induction ids arbitrary: st) (auto simp: open_modal_def map_simps)
  show ?thesis
    using assms by (cases ids) (auto simp: all_opened_def g open_modal_def map_simps)
qed

lemma opened_stack: "md_stack (all_opened ids st) = rev ids @ md_stack st"
  by (induction ids arbitrary: st) (simp_all add: all_opened_def open_modal_def)

lemma closing_overflow:
  assumes "distinct (md_stack st)" "mset closes = mset (md_stack st)" "closes \<noteq> []"
  shows "md_stack (all_closed closes st) = [] \<and> md_overflow (all_closed closes st) = opt_or (mget (md_saved st) (last closes)) []"
  using assms
proof (induction closes arbitrary: st)
  case (Cons i closes)
  let ?st = "close_modal i st"
  have s: "md_stack ?st = remove1 i (md_stack st)" "md_saved ?st = md_saved st" by (simp_all add: close_modal_def Let_def)
  have m: "mset closes = mset (md_stack ?st)" using Cons.prems(2) by (simp add: s(1)) (metis add_mset_remove_trivial)
  show ?case
  proof (cases "closes = []")
    case True
    then have "md_stack ?st = []" using m by simp
    then show ?thesis using True by (simp add: all_closed_def close_modal_def Let_def)
  next
    case False
    have "md_stack (all_closed closes ?st) = [] \<and> md_overflow (all_closed closes ?st) = opt_or (mget (md_saved ?st) (last closes)) []"
      using Cons.prems(1) m False by (intro Cons.IH) (simp_all add: s)
    then show ?thesis using False by (simp add: all_closed_def s(2))
  qed
qed simp

lemma scroll_restored_iff:
  assumes "md_stack st = []" "distinct ids" "ids \<noteq> []" "mset closes = mset ids" "md_overflow st \<noteq> hidden_overflow"
  shows "\<not> any_modal_open (all_closed closes (all_opened ids st)) \<and>
    (md_overflow (all_closed closes (all_opened ids st)) = md_overflow st \<longleftrightarrow> last closes = hd ids)"
proof -
  let ?st = "all_opened ids st"
  have st: "md_stack ?st = rev ids" using assms(1) by (simp add: opened_stack)
  have c: "closes \<noteq> []" using assms(3,4) by auto
  have "md_stack (all_closed closes ?st) = [] \<and> md_overflow (all_closed closes ?st) = opt_or (mget (md_saved ?st) (last closes)) []"
    using assms(2,4) c by (intro closing_overflow) (simp_all add: st)
  moreover have "last closes \<in> set ids" using c assms(4) by (metis last_in_set set_mset_mset)
  then have "mget (md_saved ?st) (last closes) = Some (if last closes = hd ids then md_overflow st else hidden_overflow)"
    using opened_saved [of "last closes" ids st] assms(2) by simp
  ultimately show ?thesis using assms(5) by (simp add: any_modal_open_def)
qed

section \<open>Focus\<close>

text \<open>
  Where the focus is: on the n-th focusable element of the topmost dialog, on its panel, or outside it. What Tab and
  Shift+Tab move it to; \<open>None\<close> leaves the move to the browser.
\<close>

datatype focus = On_Element nat | On_Panel | Focus_Outside

definition tab_key :: "nat \<Rightarrow> bool \<Rightarrow> focus \<Rightarrow> focus option" where
  "tab_key n shift f =
     (if n = 0 then Some On_Panel
      else if shift then (if f = On_Element 0 \<or> f = Focus_Outside then Some (On_Element (n - 1)) else None)
      else if f = On_Element (n - 1) then Some (On_Element 0) else None)"

text \<open>The browser's own move among the elements of the dialog; before the first and behind the last one lies the page.\<close>

definition browser_tab :: "nat \<Rightarrow> bool \<Rightarrow> focus \<Rightarrow> focus" where
  "browser_tab n shift f =
     (case f of
        On_Element i \<Rightarrow> if shift then (if 0 < i then On_Element (i - 1) else Focus_Outside) else (if i + 1 < n then On_Element (i + 1) else Focus_Outside)
      | On_Panel \<Rightarrow> if shift \<or> n = 0 then Focus_Outside else On_Element 0
      | Focus_Outside \<Rightarrow> Focus_Outside)"

definition tab_focus :: "nat \<Rightarrow> bool \<Rightarrow> focus \<Rightarrow> focus" where
  "tab_focus n shift f = (case tab_key n shift f of Some g \<Rightarrow> g | None \<Rightarrow> browser_tab n shift f)"

text \<open>Where the focus goes when a dialog opens.\<close>

definition initial_focus :: "nat \<Rightarrow> focus \<Rightarrow> focus" where
  "initial_focus n f = (if f \<noteq> Focus_Outside then f else if 0 < n then On_Element 0 else On_Panel)"

lemma tab_stays_inside:
  assumes "case f of On_Element i \<Rightarrow> i < n | On_Panel \<Rightarrow> \<not> shift \<or> n = 0 | Focus_Outside \<Rightarrow> False"
  shows "tab_focus n shift f \<noteq> Focus_Outside"
  using assms by (auto simp: tab_focus_def tab_key_def browser_tab_def split: focus.splits)

text \<open>From the panel itself, which a click on its text focuses, Shift+Tab leaves the dialog.\<close>

lemma shift_tab_leaves: "0 < n \<Longrightarrow> tab_focus n True On_Panel = Focus_Outside"
  by (simp add: tab_focus_def tab_key_def browser_tab_def)

section \<open>Parts of the pages\<close>

text \<open>Whether the slash key moves the focus to a filter: not while a text input has it.\<close>

definition slash_focuses :: "bool \<Rightarrow> bool \<Rightarrow> bool \<Rightarrow> bool" where
  "slash_focuses shortcut modified typing \<longleftrightarrow> shortcut \<and> \<not> modified \<and> \<not> typing"

definition filter_count_shown :: "jstr \<Rightarrow> (nat \<times> nat) option \<Rightarrow> (nat \<times> nat) option" where
  "filter_count_shown v shown = (if v \<noteq> [] then shown else None)"

text \<open>An identifier is cut into the part that may be shortened and the tail that is always shown.\<close>

definition mono_id :: "nat \<Rightarrow> jstr \<Rightarrow> jstr \<times> jstr" where
  "mono_id tail v =
     (if tail + 4 < length v then (take (length v - tail) v, if tail = 0 then v else drop (length v - tail) v) else (v, []))"

lemma mono_id_joins: "0 < tail \<Longrightarrow> fst (mono_id tail v) @ snd (mono_id tail v) = v"
  by (simp add: mono_id_def)

datatype status_intent = Intent_Success | Intent_Warning | Intent_Danger | Intent_Neutral

definition intent_label :: "status_intent \<Rightarrow> jstr" where
  "intent_label i = (case i of Intent_Success \<Rightarrow> js ''healthy'' | Intent_Warning \<Rightarrow> js ''degraded''
     | Intent_Danger \<Rightarrow> js ''unhealthy'' | Intent_Neutral \<Rightarrow> js ''unknown'')"

definition status_intent_of :: "bool option \<Rightarrow> status_intent option \<Rightarrow> status_intent" where
  "status_intent_of reachable intent =
     (case intent of Some i \<Rightarrow> i
      | None \<Rightarrow> (case reachable of None \<Rightarrow> Intent_Neutral | Some r \<Rightarrow> if r then Intent_Success else Intent_Danger))"

datatype status_shape = Filled_Disc | Hollow_Ring | Small_Ring | Cross

definition status_shape_of :: "status_intent \<Rightarrow> status_shape" where
  "status_shape_of i = (case i of Intent_Success \<Rightarrow> Filled_Disc | Intent_Warning \<Rightarrow> Hollow_Ring | Intent_Danger \<Rightarrow> Cross | Intent_Neutral \<Rightarrow> Small_Ring)"

text \<open>No two states differ by colour alone.\<close>

lemma status_without_colour: "status_shape_of i = status_shape_of j \<Longrightarrow> i = j" "intent_label i = intent_label j \<Longrightarrow> i = j"
  by (cases i; cases j; simp add: status_shape_of_def intent_label_def js_def)+

text \<open>A field's error as its control announces it.\<close>

definition described_by :: "jstr \<Rightarrow> jstr option \<Rightarrow> jstr option \<Rightarrow> jstr option" where
  "described_by error_id error described =
     (let ids = (case described of Some (c # d) \<Rightarrow> [c # d] | _ \<Rightarrow> []) @ (if opt_or error [] \<noteq> [] then [error_id] else []) in
      if join [32] ids = [] then None else Some (join [32] ids))"

section \<open>The account menu\<close>

text \<open>A setting kept as a string: what is shown, and what is stored where the storage allows it.\<close>

definition read_setting :: "jstr \<Rightarrow> stored_key \<Rightarrow> jstr" where
  "read_setting fallback k = (if sk_readable k then opt_or (sk_value k) fallback else fallback)"

definition set_setting :: "jstr \<Rightarrow> jstr \<times> stored_key \<Rightarrow> jstr \<times> stored_key" where
  "set_setting v st = (v, if sk_writable (snd st) then (snd st)\<lparr>sk_value := Some v\<rparr> else snd st)"

definition tail_buffer_default :: jstr where
  "tail_buffer_default = js ''10000''"

datatype confirm_mode = Confirm_Always | Confirm_Cluster | Confirm_Never

definition confirm_mode_of :: "jstr \<Rightarrow> confirm_mode" where
  "confirm_mode_of v = (if v = js ''cluster'' then Confirm_Cluster else if v = js ''never'' then Confirm_Never else Confirm_Always)"

lemma setting_kept: "sk_readable (snd st) \<Longrightarrow> sk_writable (snd st) \<Longrightarrow> read_setting d (snd (set_setting v st)) = fst (set_setting v st)"
  by (simp add: read_setting_def set_setting_def)

text \<open>\<open>upper\<close> is \<open>toUpperCase\<close> of one code unit.\<close>

definition initials :: "(cu \<Rightarrow> jstr) \<Rightarrow> jstr \<Rightarrow> jstr" where
  "initials upper label =
     (let s = concat (map (\<lambda>p. upper (hd p)) (take 2 (words (trim label)))) in if s = [] then js ''?'' else s)"

definition display_name :: "jstr option \<Rightarrow> jstr option \<Rightarrow> jstr \<Rightarrow> jstr" where
  "display_name display name email =
     (if opt_or display [] \<noteq> [] then opt_or display [] else if opt_or name [] \<noteq> [] then opt_or name [] else email)"

text \<open>What the rows of the time zone and the number format say.\<close>

definition zone_hint :: "bool \<Rightarrow> jstr \<Rightarrow> jstr" where
  "zone_hint local detected = (if local then detected else js ''browser: '' @ detected)"

definition number_hint :: "bool \<Rightarrow> jstr \<Rightarrow> jstr \<Rightarrow> jstr" where
  "number_hint auto detected preview = (if auto then js ''browser: '' @ detected @ [32, 0xB7, 32] @ preview else preview)"

section \<open>Release notes\<close>

record whats_new =
  wn_open :: bool
  wn_auto_opened :: bool
  wn_seen :: stored_key

definition wn_current :: "jstr option \<Rightarrow> jstr option" where
  "wn_current version = (case version of Some (c # v) \<Rightarrow> Some (normalize_version (c # v)) | _ \<Rightarrow> None)"

definition wn_unseen :: "jstr list \<Rightarrow> jstr option \<Rightarrow> whats_new \<Rightarrow> bool" where
  "wn_unseen notes version st \<longleftrightarrow>
     (case wn_current version of None \<Rightarrow> False
      | Some c \<Rightarrow> c \<noteq> [] \<and> c \<in> set notes \<and> has_unseen (Some c) (get_last_seen (wn_seen st)))"

datatype wn_event = Wn_Effect bool | Wn_Click | Wn_Close

definition acknowledge :: "jstr option \<Rightarrow> whats_new \<Rightarrow> whats_new" where
  "acknowledge version st =
     (case wn_current version of None \<Rightarrow> st | Some c \<Rightarrow> if c = [] then st else st\<lparr>wn_seen := mark_seen c (wn_seen st)\<rparr>)"

text \<open>\<open>Wn_Effect\<close> is a run of the effect that opens the notes, with whether a dialog is open.\<close>

definition wn_step :: "jstr list \<Rightarrow> jstr option \<Rightarrow> whats_new \<Rightarrow> wn_event \<Rightarrow> whats_new" where
  "wn_step notes version st e =
     (case e of
        Wn_Effect modal \<Rightarrow>
          if wn_unseen notes version st \<and> \<not> wn_auto_opened st \<and> \<not> modal
          then acknowledge version (st\<lparr>wn_auto_opened := True, wn_open := True\<rparr>) else st
      | Wn_Click \<Rightarrow> acknowledge version (st\<lparr>wn_open := True\<rparr>)
      | Wn_Close \<Rightarrow> st\<lparr>wn_open := False\<rparr>)"

text \<open>The entry that starts unfolded.\<close>

definition open_entry :: "jstr list \<Rightarrow> jstr option \<Rightarrow> nat" where
  "open_entry notes version =
     (case (case wn_current version of None \<Rightarrow> None | Some c \<Rightarrow> find_index (\<lambda>v. v = c) notes) of Some i \<Rightarrow> i | None \<Rightarrow> 0)"

text \<open>The notes open by themselves at most once per load, never over a dialog, and opening them takes the dot away.\<close>

lemma wn_opens_alone:
  assumes "wn_step notes version st (Wn_Effect modal) \<noteq> st"
  shows "\<not> modal \<and> \<not> wn_auto_opened st \<and> wn_auto_opened (wn_step notes version st (Wn_Effect modal)) \<and>
    (sk_readable (wn_seen st) \<and> sk_writable (wn_seen st) \<longrightarrow> \<not> wn_unseen notes version (wn_step notes version st (Wn_Effect modal)))"
  using assms
  by (auto simp: wn_step_def wn_unseen_def acknowledge_def has_unseen_def get_last_seen_def mark_seen_def split: option.splits if_splits)

lemma wn_auto_stays: "wn_auto_opened st \<Longrightarrow> wn_step notes version st (Wn_Effect modal) = st"
  by (simp add: wn_step_def)

section \<open>The password prompt\<close>

text \<open>The private cluster whose passwords the gate asks for before it shows a page; \<open>None\<close> shows the page.\<close>

definition gate_asks :: "store \<Rightarrow> jstr \<Rightarrow> private_cluster option" where
  "gate_asks st name =
     (case get_private_cluster_by_name st name of None \<Rightarrow> None | Some c \<Rightarrow> if needs_passwords c then Some c else None)"

record password_prompt =
  pp_password :: jstr
  pp_sr_password :: jstr
  pp_submitted :: bool

definition prompt_incomplete :: "private_cluster \<Rightarrow> password_prompt \<Rightarrow> bool" where
  "prompt_incomplete c p \<longleftrightarrow>
     (fst (missing_passwords c) \<and> pp_password p = []) \<or> (snd (missing_passwords c) \<and> pp_sr_password p = [])"

definition prompt_errors :: "private_cluster \<Rightarrow> password_prompt \<Rightarrow> jstr option \<times> jstr option" where
  "prompt_errors c p =
     (if pp_submitted p \<and> fst (missing_passwords c) \<and> pp_password p = [] then Some (js ''Enter the password.'') else None,
      if pp_submitted p \<and> snd (missing_passwords c) \<and> pp_sr_password p = [] then Some (js ''Enter the Schema Registry password.'') else None)"

text \<open>What a submit holds for the tab; with a password missing it only shows the errors.\<close>

definition prompt_passwords :: "private_cluster \<Rightarrow> password_prompt \<Rightarrow> session_passwords" where
  "prompt_passwords c p =
     \<lparr>sp_password = (if fst (missing_passwords c) then Some (pp_password p) else None),
      sp_sr_password = (if snd (missing_passwords c) then Some (pp_sr_password p) else None)\<rparr>"

definition prompt_submit :: "private_cluster \<Rightarrow> password_prompt \<Rightarrow> store \<Rightarrow> password_prompt \<times> store" where
  "prompt_submit c p st =
     (p\<lparr>pp_submitted := True\<rparr>, if prompt_incomplete c p then st else set_session_passwords (pc_id c) (prompt_passwords c p) st)"

lemma incomplete_changes_nothing: "prompt_incomplete c p \<Longrightarrow> snd (prompt_submit c p st) = st \<and>
    (fst (prompt_errors c (fst (prompt_submit c p st))) \<noteq> None \<or> snd (prompt_errors c (fst (prompt_submit c p st))) \<noteq> None)"
  by (auto simp: prompt_submit_def prompt_incomplete_def prompt_errors_def)

lemma with_session_fixed [simp]: "ci_name (with_session_passwords s c) = ci_name c" "pc_id (with_session_passwords s c) = pc_id c"
    "ci_remember (with_session_passwords s c) = ci_remember c"
  by (simp_all add: with_session_passwords_def Let_def split: option.splits)

lemma find_map: "find P (map f xs) = map_option f (find (P \<circ> f) xs)"
  by (induction xs) auto

text \<open>
  C6: A submit of the prompt with every password it asks for opens the gate: the cluster of that name is then the same
  definition with all its passwords, those the tab already held included, and the page is shown. The ids are distinct
  and no definition that does not remember its passwords is stored with them, as in every state the store's
  operations reach.
\<close>

theorem gate_opens:
  assumes "distinct (ids_of st)" "clean (st_stored st)" "gate_asks st name = Some c" "\<not> prompt_incomplete c p"
  shows "gate_asks (snd (prompt_submit c p st)) name = None \<and>
    (\<exists>c'. get_private_cluster_by_name (snd (prompt_submit c p st)) name = Some c' \<and> pc_id c' = pc_id c \<and> \<not> needs_passwords c')"
proof -
  let ?S = "st_session st" let ?st = "snd (prompt_submit c p st)"
  have np: "needs_passwords c" "find (\<lambda>x. ci_name x = name) (read_all st) = Some c"
    using assms(3) by (auto simp: gate_asks_def get_private_cluster_by_name_def split: option.splits if_splits)
  then obtain d where d: "find (\<lambda>x. ci_name x = name) (safe_read (st_stored st)) = Some d" "c = with_session_passwords ?S d"
    by (auto simp: read_all_def find_map comp_def)
  have mem: "d \<in> set (safe_read (st_stored st))" using d(1) by (auto simp: find_Some_iff)
  have r: "\<not> remembers_credentials d"
    using np(1) by (auto simp: d(2) needs_passwords_def missing_passwords_def remembers_credentials_def split: if_splits)
  have bare: "au_password (ci_auth d) = None" "\<And>sr. ci_registry d = Some sr \<Longrightarrow> sr_password sr = None"
    using assms(2) mem r by (force simp: clean_def secrets_def)+
  have id: "find (\<lambda>x. pc_id x = pc_id d) (safe_read (st_stored st)) = Some d"
    using find_distinct [of pc_id _ d] assms(1) mem by (simp add: ids_of_def)
  define held where "held = (case mget ?S (pc_id d) of None \<Rightarrow> \<lparr>sp_password = None, sp_sr_password = None\<rparr> | Some h \<Rightarrow> held_for d h)"
  define pw where "pw = \<lparr>sp_password = or_else (sp_password (prompt_passwords c p)) (sp_password held),
      sp_sr_password = or_else (sp_sr_password (prompt_passwords c p)) (sp_sr_password held)\<rparr>"
  have st: "?st = st\<lparr>st_session := hold d pw ?S, st_events := Suc (st_events st)\<rparr>"
    using assms(4) by (simp add: prompt_submit_def set_session_passwords_def d(2) id held_def pw_def Let_def)
  define c' where "c' = with_session_passwords (hold d pw ?S) d"
  have c': "get_private_cluster_by_name ?st name = Some c'"
    using d(1) by (simp add: st get_private_cluster_by_name_def read_all_def find_map comp_def c'_def)
  have cp: "au_password (ci_auth c) = sp_password held" "au_type (ci_auth c) = au_type (ci_auth d)"
    "ci_registry c = map_option (\<lambda>sr. sr\<lparr>sr_password := sp_sr_password held\<rparr>) (ci_registry d)"
    using r bare by (cases "mget ?S (pc_id d)"; cases "ci_registry d"; simp add: d(2) with_session_passwords_def held_def Let_def)+
  have cp': "au_password (ci_auth c') = sp_password pw" "au_type (ci_auth c') = au_type (ci_auth d)"
    "ci_registry c' = map_option (\<lambda>sr. sr\<lparr>sr_password := sp_sr_password pw\<rparr>) (ci_registry d)"
    using r bare by (cases "ci_registry d"; simp add: c'_def with_session_passwords_def hold_def map_simps held_for_def Let_def)+
  have rc: "\<not> remembers_credentials c" using r by (simp add: d(2) remembers_credentials_def)
  have sasl: "\<not> fst (missing_passwords c')"
    using assms(4) rc
    by (auto simp: missing_passwords_def prompt_incomplete_def prompt_passwords_def cp cp' pw_def nonempty_def or_else_def split: if_splits option.splits)
  have sr: "\<not> snd (missing_passwords c')"
    using assms(4) rc
    by (cases "ci_registry d")
      (auto simp: missing_passwords_def prompt_incomplete_def prompt_passwords_def cp cp' pw_def nonempty_def or_else_def split: if_splits option.splits)
  have "\<not> needs_passwords c'" using sasl sr by (simp add: needs_passwords_def)
  then show ?thesis using c' by (auto simp: gate_asks_def c'_def d(2))
qed

text \<open>A second tab, in which the password of a definition that was saved in the first one has to be entered.\<close>

definition second_tab :: store where
  "second_tab = \<lparr>st_stored = st_stored sample_store, st_session = [], st_events = 0\<rparr>"

lemma second_tab_view: "read_all second_tab = [without_passwords sample_cluster]"
proof -
  have "remembers_credentials sample_cluster = False"
    by (simp add: sample_cluster_def with_input_def sample_input_def remembers_credentials_def)
  then show ?thesis
    by (simp add: second_tab_def sample_written safe_write_def read_all_def to_stored_all.simps to_stored_def with_session_passwords_def
        mget_Nil empty_store_def safe_read_def)
qed

lemma gate_opens_witness:
  "gate_asks second_tab (js ''dev'') = Some (without_passwords sample_cluster) \<and>
   gate_asks (snd (prompt_submit (without_passwords sample_cluster)
     \<lparr>pp_password = js ''pw'', pp_sr_password = [], pp_submitted = False\<rparr> second_tab)) (js ''dev'') = None"
proof -
  let ?c = "without_passwords sample_cluster"
  note c = sample_cluster_def with_input_def sample_input_def without_passwords_def missing_passwords_def needs_passwords_def
    remembers_credentials_def nonempty_def
  have a: "gate_asks second_tab (js ''dev'') = Some ?c"
    by (simp add: gate_asks_def get_private_cluster_by_name_def second_tab_view c js_def)
  have "distinct (ids_of second_tab)" by (simp add: read_all_ids [symmetric] second_tab_view)
  moreover have "clean (st_stored second_tab)"
    using safe_write_clean [of empty_store True "[sample_cluster]"]
    by (simp add: second_tab_def sample_written clean_def empty_store_def safe_read_def)
  moreover have "\<not> prompt_incomplete ?c \<lparr>pp_password = js ''pw'', pp_sr_password = [], pp_submitted = False\<rparr>"
    by (simp add: prompt_incomplete_def c js_def)
  ultimately show ?thesis using gate_opens [OF _ _ a] a by blast
qed

end
