(* ===== verification/TopicTabs.thy ===== *)
theory TopicTabs
  imports TopicConfigs GroupsPage Topics ClusterSwitcher SchemasPage
begin

text \<open>
  The head of the topic pages (\<open>frontend/src/routes/clusters.$cluster.topics.$topic.tsx\<close>) and its small tabs: the
  consumers (\<open>.consumers.tsx\<close>), the overview (\<open>.index.tsx\<close>) and the schema (\<open>.schema.tsx\<close>); and the brokers of a cluster
  (\<open>clusters.$cluster.brokers.index.tsx\<close>).
\<close>

section \<open>The head\<close>

definition topic_tabs :: "(jstr \<times> jstr) list" where
  "topic_tabs = [(js ''overview'', js ''Overview''), (js ''messages'', js ''Messages''), (js ''timeline'', js ''Timeline''),
     (js ''produce'', js ''Produce''), (js ''configs'', js ''Configs''), (js ''consumers'', js ''Consumers''), (js ''schema'', js ''Schema'')]"

definition tab_path :: "jstr \<Rightarrow> jstr" where
  "tab_path i = js ''/clusters/$cluster/topics/$topic'' @ (if i = js ''overview'' then [] else js ''/'' @ i)"

lemma tab_paths_differ: "distinct (map (tab_path \<circ> fst) topic_tabs)"
  by (simp add: topic_tabs_def tab_path_def js_def)

definition find_config :: "(jstr \<Rightarrow> bool) \<Rightarrow> config_entry list option \<Rightarrow> jstr option" where
  "find_config P configs = map_option ce_value (find (\<lambda>c. P (ce_name c)) (opt_or configs []))"

definition schema_tag :: "config_entry list option \<Rightarrow> jstr option" where
  "schema_tag configs = find_config (\<lambda>n. n = js ''compression.type'' \<or> n = js ''value.schema.type'') configs"

definition retention_of :: "config_entry list option \<Rightarrow> jstr option" where
  "retention_of configs = find_config (\<lambda>n. n = js ''retention.ms'') configs"

text \<open>The label of the retention; a number that is not finite is \<open>None\<close> of \<open>js_number\<close>.\<close>

definition retention_label :: "intl \<Rightarrow> jstr \<Rightarrow> jstr option \<Rightarrow> jstr option \<Rightarrow> jstr" where
  "retention_label i locale ms configs_error =
     (if opt_or ms [] = []
      then (if configs_error = Some (js ''unauthorized'') then js ''retention restricted''
        else if opt_or configs_error [] \<noteq> [] then js ''retention unavailable'' else js ''retention '' @ [0x2014])
      else case js_number (the ms) of
          None \<Rightarrow> js ''retention '' @ the ms
        | Some n \<Rightarrow>
            if n \<le> 0 then js ''retention '' @ [0x221E]
            else let hours = n / 3600000 in
              if hours < 24 then format_decimal i (Some hours) 1 locale @ js ''h retention''
              else format_decimal i (Some (hours / 24)) 1 locale @ js ''d retention'')"

text \<open>A retention of 0, with which Kafka deletes at once, is called infinite.\<close>

lemma zero_retention_called_infinite: "retention_label i locale (Some (js ''0'')) e = retention_label i locale (Some (js ''-1'')) e"
proof -
  have "js_number (js ''0'') = Some 0" "js_number (js ''-1'') = Some (- 1)"
    by (simp_all add: js_number_def js_def trim_def trim_start_def trim_end_def js_space_def decimal_value_def exponent_part_def
        is_digit_def dec_value_def digit_val_def finite_double_def)
  then show ?thesis by (simp add: retention_label_def js_def)
qed

text \<open>The compression of a topic, which every topic has, is shown as the type of its schema when it is listed first.\<close>

lemma compression_shown_as_schema: "ce_name c = js ''compression.type'' \<Longrightarrow> schema_tag (Some (c # cs)) = Some (ce_value c)"
  by (simp add: schema_tag_def find_config_def)

record topic_numbers =
  tn_partitions :: nat
  tn_replication :: int
  tn_messages :: int
  tn_size_bytes :: "int option"

record tab_consumer =
  tc_group_id :: jstr
  tc_state :: jstr
  tc_members :: int
  tc_assigned :: nat
  tc_lag :: int
  tc_lag_known :: bool

record kpi =
  kp_value :: jstr
  kp_delta :: "jstr option"

definition kpi_of :: "jstr \<Rightarrow> kpi" where
  "kpi_of v = \<lparr>kp_value = v, kp_delta = None\<rparr>"

definition messages_kpi :: "intl \<Rightarrow> jstr \<Rightarrow> topic_numbers option \<Rightarrow> kpi" where
  "messages_kpi i locale d = kpi_of (case d of None \<Rightarrow> dash | Some x \<Rightarrow> format_count i (Some (of_int (tn_messages x))) locale)"

definition known_total_lag :: "tab_consumer list \<Rightarrow> int" where
  "known_total_lag cs = sum_list (map (\<lambda>c. if tc_lag_known c then tc_lag c else 0) cs)"

definition lag_kpi :: "intl \<Rightarrow> jstr \<Rightarrow> tab_consumer list option \<Rightarrow> kpi" where
  "lag_kpi i locale consumers =
     (case consumers of
        None \<Rightarrow> kpi_of dash
      | Some cs \<Rightarrow>
          \<lparr>kp_value = (if list_all tc_lag_known cs then format_count i (Some (of_int (known_total_lag cs))) locale else dash),
           kp_delta = (if known_total_lag cs = 0 then Some (js ''healthy'') else None)\<rparr>)"

definition size_kpi :: "intl \<Rightarrow> jstr \<Rightarrow> topic_numbers option \<Rightarrow> kpi" where
  "size_kpi i locale d = kpi_of
     (case d of
        None \<Rightarrow> dash
      | Some x \<Rightarrow> (case tn_size_bytes x of
          None \<Rightarrow> dash
        | Some b \<Rightarrow> if 0 < tn_messages x
            then format_bytes i (Some (of_int (math_round (of_int b / of_int (tn_messages x))))) locale else dash))"

definition consumers_kpi :: "tab_consumer list option \<Rightarrow> kpi" where
  "consumers_kpi consumers = kpi_of (case consumers of None \<Rightarrow> dash | Some cs \<Rightarrow> dec (length cs))"

text \<open>With every lag known, "healthy" means that no group lags; a group whose lag is unknown counts as one without lag.\<close>

lemma healthy_known:
  assumes "list_all tc_lag_known cs" "\<forall>c\<in>set cs. 0 \<le> tc_lag c"
  shows "kp_delta (lag_kpi i locale (Some cs)) = Some (js ''healthy'') \<longleftrightarrow> (\<forall>c\<in>set cs. tc_lag c = 0)"
proof -
  have "known_total_lag cs = sum_list (map tc_lag cs)"
    using assms(1) by (simp add: known_total_lag_def list_all_iff cong: map_cong)
  moreover have "sum_list (map tc_lag cs) = 0 \<longleftrightarrow> (\<forall>c\<in>set cs. tc_lag c = 0)"
    using assms(2) sum_list_nonneg_eq_0_iff [of "map tc_lag cs"] by auto
  ultimately show ?thesis by (simp add: lag_kpi_def)
qed

lemma unknown_lag_healthy:
  assumes "\<forall>c\<in>set cs. \<not> tc_lag_known c" "cs \<noteq> []"
  shows "lag_kpi i locale (Some cs) = \<lparr>kp_value = dash, kp_delta = Some (js ''healthy'')\<rparr>"
proof -
  have "\<not> list_all tc_lag_known cs" using assms by (cases cs) simp_all
  moreover have "known_total_lag cs = 0" using assms(1) unfolding known_total_lag_def by (induction cs) simp_all
  ultimately show ?thesis by (simp add: lag_kpi_def)
qed

definition head_line :: "intl \<Rightarrow> jstr \<Rightarrow> topic_numbers option \<Rightarrow> jstr option \<Rightarrow> jstr option \<Rightarrow> jstr" where
  "head_line i locale d ms configs_error =
     (case d of
        None \<Rightarrow> js ''Loading topic metadata'' @ [0x2026]
      | Some x \<Rightarrow> dec (tn_partitions x) @ js '' partitions'' @ [32, 0xB7, 32] @ js ''RF '' @ dec_int (tn_replication x) @ [32, 0xB7, 32] @
          retention_label i locale ms configs_error)"

definition detail_refetch_ms :: "jstr option \<Rightarrow> nat option" where
  "detail_refetch_ms configs_error = (if configs_error = Some (js ''unauthorized'') then None else Some 5000)"

text \<open>The warning about restricted configurations: dismissed until another topic is opened.\<close>

definition warning_shown :: "jstr option \<Rightarrow> bool \<Rightarrow> bool" where
  "warning_shown configs_error dismissed \<longleftrightarrow> configs_error = Some (js ''unauthorized'') \<and> \<not> dismissed"

section \<open>The overview\<close>

definition summary_cards :: "(int \<Rightarrow> jstr) \<Rightarrow> topic_numbers \<Rightarrow> bool \<Rightarrow> (jstr \<times> jstr) list" where
  "summary_cards number d internal =
     [(js ''Partitions'', dec (tn_partitions d)), (js ''Replication'', dec_int (tn_replication d)),
      (js ''Messages'', number (tn_messages d)), (js ''Kind'', if internal then js ''internal'' else js ''user'')]"

section \<open>Consumers\<close>

datatype state_variant = Variant_Success | Variant_Warning | Variant_Neutral | Variant_Danger

definition state_variant_of :: "jstr \<Rightarrow> state_variant" where
  "state_variant_of s =
     (if s = js ''Stable'' then Variant_Success
      else if s = js ''PreparingRebalance'' \<or> s = js ''CompletingRebalance'' then Variant_Warning
      else if s = js ''Empty'' then Variant_Neutral
      else if s = js ''Dead'' then Variant_Danger
      else Variant_Neutral)"

definition consumer_columns :: "tab_consumer column list" where
  "consumer_columns =
     [\<lparr>co_id = js ''group_id'', co_sort_value = Some (\<lambda>r. Some (Sv_Text (tc_group_id r))), co_primary = False\<rparr>,
      \<lparr>co_id = js ''state'', co_sort_value = Some (\<lambda>r. Some (Sv_Text (tc_state r))), co_primary = False\<rparr>,
      \<lparr>co_id = js ''members'', co_sort_value = Some (\<lambda>r. Some (Sv_Number (of_int (tc_members r)))), co_primary = False\<rparr>,
      \<lparr>co_id = js ''partitions'', co_sort_value = Some (\<lambda>r. Some (Sv_Number (of_nat (tc_assigned r)))), co_primary = False\<rparr>,
      \<lparr>co_id = js ''lag'', co_sort_value = Some (\<lambda>r. Some (Sv_Number (if tc_lag_known r then of_int (tc_lag r) else - 1))), co_primary = False\<rparr>]"

definition consumer_lag_cell :: "intl \<Rightarrow> tab_consumer \<Rightarrow> lag_badge option" where
  "consumer_lag_cell i r = (if tc_lag_known r then Some (lag_badge_of i True (Some (tc_lag r))) else None)"

definition consumers_error :: "jstr \<Rightarrow> jstr" where
  "consumers_error msg =
     (if contains_text (js ''topic_consumers_timeout'') msg
      then js ''Listing consumers for this topic took too long. Try again in a moment.''
      else js ''Failed to load consumers: '' @ msg)"

section \<open>The schema\<close>

definition schema_subject :: "jstr \<Rightarrow> jstr" where
  "schema_subject topic = topic @ js ''-value''"

datatype schema_tab = Schema_Loading | Schema_None | Schema_Shown

text \<open>\<open>subjects\<close> is what is loaded; an error leaves it unloaded and is not looked at.\<close>

definition schema_tab_of :: "jstr \<Rightarrow> bool \<Rightarrow> subject_info list option \<Rightarrow> schema_tab" where
  "schema_tab_of topic loading subjects =
     (if loading then Schema_Loading
      else if list_ex (\<lambda>s. sj_name s = schema_subject topic) (opt_or subjects []) then Schema_Shown else Schema_None)"

text \<open>When the registry cannot be read, the tab says that the topic has no schema.\<close>

lemma failed_subjects_called_none: "schema_tab_of topic False None = Schema_None"
  by (simp add: schema_tab_of_def)

section \<open>Brokers\<close>

record broker =
  bk_id :: int
  bk_host :: jstr
  bk_port :: int
  bk_rack :: "jstr option"
  bk_controller :: bool

definition rack_count :: "broker list \<Rightarrow> nat" where
  "rack_count bs = length (remdups (filter (\<lambda>r. r \<noteq> []) (map (\<lambda>b. opt_or (bk_rack b) []) bs)))"

definition broker_row :: "broker \<Rightarrow> jstr list" where
  "broker_row b = [dec_int (bk_id b), bk_host b, dec_int (bk_port b), if opt_or (bk_rack b) [] = [] then dash else opt_or (bk_rack b) [],
     if bk_controller b then js ''controller'' else js ''broker'']"

datatype brokers_page = Brokers_No_Cluster | Brokers_No_Permission | Brokers_Error jstr | Brokers_Loading | Brokers_Empty | Brokers_Table "broker list"

definition can_describe :: "('a cluster_info_scheme) option \<Rightarrow> bool" where
  "can_describe active = (case Option.bind active cl_capabilities of None \<Rightarrow> False | Some c \<Rightarrow> ca_describe_cluster c)"

definition brokers_page_of :: "jstr option \<Rightarrow> ('a cluster_info_scheme) option \<Rightarrow> jstr option \<Rightarrow> bool \<Rightarrow> broker list option \<Rightarrow> brokers_page" where
  "brokers_page_of cluster active err loading brokers =
     (if opt_or cluster [] = [] then Brokers_No_Cluster
      else if \<not> can_describe active then Brokers_No_Permission
      else case err of
          Some m \<Rightarrow> Brokers_Error m
        | None \<Rightarrow> if loading then Brokers_Loading else if opt_or brokers [] = [] then Brokers_Empty else Brokers_Table (opt_or brokers []))"

end
