(* ===== verification/QueryCache.thy ===== *)
theory QueryCache
  imports MessageList JsonTree ClusterSwitcher "HOL-Library.Sublist"
begin

text \<open>
  The cache of server data: the keys and options of every query (\<open>frontend/src/lib/queries/\<close>), the retry rule
  (\<open>main.tsx\<close>), which cached queries each write marks stale (\<open>ProduceForm\<close>, \<open>ResetOffsetsModal.tsx\<close>,
  \<open>CreateGroupModal.tsx\<close>, the groups, schemas, ACL, user and configuration pages), the session
  (\<open>auth/AuthProvider.tsx\<close>) and the frame of the app (\<open>features/shell/Shell.tsx\<close>, \<open>routes/index.tsx\<close>). The cache compares
  keys by their JSON text with the members of an object in sorted order, so a key is a list of JSON values whose objects
  have their members in a fixed order; a prefix of a key stands for every key that begins with it.
\<close>

section \<open>Queries\<close>

record reset_body =
  rb_topic :: jstr
  rb_partitions :: "int list option"
  rb_strategy :: jstr
  rb_offset :: "json option"
  rb_timestamp :: "json option"
  rb_shift :: "json option"

text \<open>One constructor per query; the first argument is the cluster.\<close>

datatype 'c query =
    Q_Acls 'c
  | Q_Current_User
  | Q_Me
  | Q_Brokers 'c
  | Q_Clusters
  | Q_Groups 'c
  | Q_Group 'c jstr
  | Q_Reset_Preview 'c jstr reset_body bool
  | Q_Info
  | Q_Page 'c jstr consume_params
  | Q_Single 'c jstr int int
  | Q_Latest_Probe 'c jstr
  | Q_Count 'c jstr "int option" "int option" "int option"
  | Q_Timeline 'c jstr int int int int
  | Q_Sample 'c jstr hydratable_encoding
  | Q_Raw 'c jstr int int bool
  | Q_Subjects 'c
  | Q_Schema 'c jstr "jstr + int"
  | Q_Topics 'c
  | Q_Topic 'c jstr
  | Q_Topic_Consumers 'c jstr
  | Q_Users 'c

section \<open>Keys\<close>

definition offsets_json :: "(int \<times> int) list \<Rightarrow> json" where
  "offsets_json ps = JsObject (map (\<lambda>(p, n). (dec_int p, JsInt n)) ps)"

definition consume_json :: "consume_params \<Rightarrow> json" where
  "consume_json p = JsObject (members
     [(js ''cursor'', map_option JsString (cp_cursor p)), (js ''from'', map_option JsString (cp_from p)),
      (js ''from_ts_ms'', map_option JsInt (cp_from_ts p)), (js ''limit'', map_option JsInt (cp_limit p)),
      (js ''offset'', map_option JsInt (cp_offset p)), (js ''partition'', map_option JsInt (cp_partition p)),
      (js ''partitionOffsets'', map_option offsets_json (cp_partition_offsets p)), (js ''to_ts_ms'', map_option JsInt (cp_to_ts p))])"

definition count_json :: "int option \<Rightarrow> int option \<Rightarrow> int option \<Rightarrow> json" where
  "count_json p a b = JsObject (members [(js ''from_ts_ms'', map_option JsInt a), (js ''partition'', map_option JsInt p),
     (js ''to_ts_ms'', map_option JsInt b)])"

definition timeline_json :: "int \<Rightarrow> int \<Rightarrow> int \<Rightarrow> json" where
  "timeline_json a b slot = JsObject [(js ''from_ts_ms'', JsInt a), (js ''slot_ms'', JsInt slot), (js ''to_ts_ms'', JsInt b)]"

definition reset_json :: "reset_body \<Rightarrow> json" where
  "reset_json r = JsObject (members
     [(js ''offset'', rb_offset r), (js ''partitions'', map_option (JsArray \<circ> map JsInt) (rb_partitions r)), (js ''shift'', rb_shift r),
      (js ''strategy'', Some (JsString (rb_strategy r))), (js ''timestamp_ms'', rb_timestamp r), (js ''topic'', Some (JsString (rb_topic r)))])"

definition encoding_text :: "hydratable_encoding \<Rightarrow> jstr" where
  "encoding_text e = (case e of Hy_Json \<Rightarrow> js ''json'' | Hy_Xml \<Rightarrow> js ''xml'')"

definition version_json :: "jstr + int \<Rightarrow> json" where
  "version_json v = (case v of Inl t \<Rightarrow> JsString t | Inr n \<Rightarrow> JsInt n)"

text \<open>The prefixes \<open>authKeys.all\<close> and \<open>schemaKeys.subject\<close>; the one of a topic's messages is \<open>messages_topic_key\<close>.\<close>

definition auth_key :: "json list" where
  "auth_key = [JsString (js ''auth'')]"

definition subject_key :: "store \<Rightarrow> jstr \<Rightarrow> jstr \<Rightarrow> json list" where
  "subject_key st c subject = [JsString (js ''schema''), cluster_key st c, JsString subject]"

definition acls_key :: "store \<Rightarrow> jstr \<Rightarrow> json list" where
  "acls_key st c = [JsString (js ''acls''), cluster_key st c]"

definition current_user_key :: "json list" where
  "current_user_key = auth_key @ [JsString (js ''currentUser'')]"

definition me_key :: "json list" where
  "me_key = auth_key @ [JsString (js ''me'')]"

definition brokers_key :: "store \<Rightarrow> jstr \<Rightarrow> json list" where
  "brokers_key st c = [JsString (js ''brokers''), cluster_key st c]"

definition clusters_key :: "json list" where
  "clusters_key = [JsString (js ''clusters'')]"

definition groups_key :: "store \<Rightarrow> jstr \<Rightarrow> json list" where
  "groups_key st c = [JsString (js ''groups''), cluster_key st c]"

definition group_key :: "store \<Rightarrow> jstr \<Rightarrow> jstr \<Rightarrow> json list" where
  "group_key st c g = [JsString (js ''group''), cluster_key st c, JsString g]"

definition reset_preview_key :: "store \<Rightarrow> jstr \<Rightarrow> jstr \<Rightarrow> reset_body \<Rightarrow> json list" where
  "reset_preview_key st c g body = [JsString (js ''reset-offsets-preview''), cluster_key st c, JsString g, reset_json body]"

definition info_key :: "json list" where
  "info_key = [JsString (js ''info'')]"

definition page_key :: "store \<Rightarrow> jstr \<Rightarrow> jstr \<Rightarrow> consume_params \<Rightarrow> json list" where
  "page_key st c t p = messages_topic_key st c t @ [consume_json p]"

definition count_key :: "store \<Rightarrow> jstr \<Rightarrow> jstr \<Rightarrow> int option \<Rightarrow> int option \<Rightarrow> int option \<Rightarrow> json list" where
  "count_key st c t p a b = [JsString (js ''message-count''), cluster_key st c, JsString t, count_json p a b]"

definition timeline_key :: "store \<Rightarrow> jstr \<Rightarrow> jstr \<Rightarrow> int \<Rightarrow> int \<Rightarrow> int \<Rightarrow> int \<Rightarrow> json list" where
  "timeline_key st c t p a b slot = [JsString (js ''message-timeline''), cluster_key st c, JsString t, JsInt p, timeline_json a b slot]"

definition sample_key :: "store \<Rightarrow> jstr \<Rightarrow> jstr \<Rightarrow> hydratable_encoding \<Rightarrow> json list" where
  "sample_key st c t e = [JsString (js ''sample''), cluster_key st c, JsString t, JsString (encoding_text e)]"

definition subjects_key :: "store \<Rightarrow> jstr \<Rightarrow> json list" where
  "subjects_key st c = [JsString (js ''schemas''), cluster_key st c]"

definition version_key :: "store \<Rightarrow> jstr \<Rightarrow> jstr \<Rightarrow> jstr + int \<Rightarrow> json list" where
  "version_key st c subject v = subject_key st c subject @ [version_json v]"

definition topics_key :: "store \<Rightarrow> jstr \<Rightarrow> json list" where
  "topics_key st c = [JsString (js ''topics''), cluster_key st c]"

definition topic_key :: "store \<Rightarrow> jstr \<Rightarrow> jstr \<Rightarrow> json list" where
  "topic_key st c t = [JsString (js ''topic''), cluster_key st c, JsString t]"

definition topic_consumers_key :: "store \<Rightarrow> jstr \<Rightarrow> jstr \<Rightarrow> json list" where
  "topic_consumers_key st c t = [JsString (js ''topic-consumers''), cluster_key st c, JsString t]"

definition users_key :: "store \<Rightarrow> jstr \<Rightarrow> json list" where
  "users_key st c = [JsString (js ''scram-users''), cluster_key st c]"

definition query_key :: "store \<Rightarrow> jstr query \<Rightarrow> json list" where
  "query_key st q =
     (case q of
        Q_Acls c \<Rightarrow> acls_key st c
      | Q_Current_User \<Rightarrow> current_user_key
      | Q_Me \<Rightarrow> me_key
      | Q_Brokers c \<Rightarrow> brokers_key st c
      | Q_Clusters \<Rightarrow> clusters_key
      | Q_Groups c \<Rightarrow> groups_key st c
      | Q_Group c g \<Rightarrow> group_key st c g
      | Q_Reset_Preview c g body confirm \<Rightarrow> reset_preview_key st c g body
      | Q_Info \<Rightarrow> info_key
      | Q_Page c t p \<Rightarrow> page_key st c t p
      | Q_Single c t p n \<Rightarrow> single_key st c t p n
      | Q_Latest_Probe c t \<Rightarrow> latest_probe_key st c t
      | Q_Count c t p a b \<Rightarrow> count_key st c t p a b
      | Q_Timeline c t p a b slot \<Rightarrow> timeline_key st c t p a b slot
      | Q_Sample c t e \<Rightarrow> sample_key st c t e
      | Q_Raw c t p n decoded \<Rightarrow> raw_key st c t p n decoded
      | Q_Subjects c \<Rightarrow> subjects_key st c
      | Q_Schema c s v \<Rightarrow> version_key st c s v
      | Q_Topics c \<Rightarrow> topics_key st c
      | Q_Topic c t \<Rightarrow> topic_key st c t
      | Q_Topic_Consumers c t \<Rightarrow> topic_consumers_key st c t
      | Q_Users c \<Rightarrow> users_key st c)"

section \<open>Options\<close>

text \<open>How long data is fresh, in milliseconds, and how often a query is retried; the defaults are those of \<open>main.tsx\<close>.\<close>

definition stale_time_ms :: "'c query \<Rightarrow> nat" where
  "stale_time_ms q =
     (case q of
        Q_Current_User \<Rightarrow> 600000
      | Q_Me \<Rightarrow> 300000
      | Q_Info \<Rightarrow> 300000
      | Q_Single _ _ _ _ \<Rightarrow> 60000
      | Q_Sample _ _ _ \<Rightarrow> 300000
      | Q_Raw _ _ _ _ _ \<Rightarrow> 300000
      | _ \<Rightarrow> 30000)"

datatype query_error = Qe_Session_Expired | Qe_Password_Required | Qe_Other

definition never_retried :: "'c query \<Rightarrow> bool" where
  "never_retried q \<longleftrightarrow> (case q of Q_Current_User \<Rightarrow> True | Q_Me \<Rightarrow> True | Q_Single _ _ _ _ \<Rightarrow> True | Q_Raw _ _ _ _ _ \<Rightarrow> True | _ \<Rightarrow> False)"

definition should_retry :: "'c query \<Rightarrow> nat \<Rightarrow> query_error \<Rightarrow> bool" where
  "should_retry q failures e \<longleftrightarrow> \<not> never_retried q \<and> e \<noteq> Qe_Session_Expired \<and> e \<noteq> Qe_Password_Required \<and> failures < 3"

text \<open>How many requests a query that fails with these errors, one after the other, sends.\<close>

fun attempts_from :: "'c query \<Rightarrow> nat \<Rightarrow> query_error list \<Rightarrow> nat" where
  "attempts_from q failures [] = 1"
| "attempts_from q failures (e # es) = (if should_retry q failures e then 1 + attempts_from q (failures + 1) es else 1)"

lemma attempts_bound: "attempts_from q failures es \<le> 1 + (3 - failures)"
  by (induction q failures es rule: attempts_from.induct) (auto simp: should_retry_def)

lemma lost_session_asks_once: "e \<noteq> Qe_Other \<Longrightarrow> attempts_from q failures (e # es) = 1"
  by (cases e) (simp_all add: should_retry_def)

section \<open>What a write marks stale\<close>

definition invalidate_prefix :: "json list \<Rightarrow> query_cache \<Rightarrow> query_cache" where
  "invalidate_prefix k qc = map (\<lambda>(q, stale). (q, stale \<or> prefix k q)) qc"

datatype server_write =
    Wr_Produce jstr jstr
  | Wr_Reset_Offsets jstr jstr
  | Wr_Create_Group jstr jstr
  | Wr_Delete_Group jstr
  | Wr_Delete_Subject jstr jstr
  | Wr_Acl jstr
  | Wr_User jstr
  | Wr_Configs jstr jstr
  | Wr_Refresh_Session

definition produce_marks :: "store \<Rightarrow> jstr \<Rightarrow> jstr \<Rightarrow> json list list" where
  "produce_marks st c t = [messages_topic_key st c t, topic_key st c t]"

definition reset_marks :: "store \<Rightarrow> jstr \<Rightarrow> jstr \<Rightarrow> json list list" where
  "reset_marks st c g = [group_key st c g, groups_key st c]"

definition create_group_marks :: "store \<Rightarrow> jstr \<Rightarrow> jstr \<Rightarrow> json list list" where
  "create_group_marks st c t = [topic_consumers_key st c t]"

definition delete_group_marks :: "store \<Rightarrow> jstr \<Rightarrow> json list list" where
  "delete_group_marks st c = [groups_key st c]"

definition delete_subject_marks :: "store \<Rightarrow> jstr \<Rightarrow> jstr \<Rightarrow> json list list" where
  "delete_subject_marks st c s = [subjects_key st c, subject_key st c s]"

definition acl_marks :: "store \<Rightarrow> jstr \<Rightarrow> json list list" where
  "acl_marks st c = [acls_key st c]"

definition user_marks :: "store \<Rightarrow> jstr \<Rightarrow> json list list" where
  "user_marks st c = [users_key st c]"

definition configs_marks :: "store \<Rightarrow> jstr \<Rightarrow> jstr \<Rightarrow> json list list" where
  "configs_marks st c t = [topic_key st c t]"

definition refresh_marks :: "json list list" where
  "refresh_marks = [auth_key]"

definition written_prefixes :: "store \<Rightarrow> server_write \<Rightarrow> json list list" where
  "written_prefixes st w =
     (case w of
        Wr_Produce c t \<Rightarrow> produce_marks st c t
      | Wr_Reset_Offsets c g \<Rightarrow> reset_marks st c g
      | Wr_Create_Group c t \<Rightarrow> create_group_marks st c t
      | Wr_Delete_Group c \<Rightarrow> delete_group_marks st c
      | Wr_Delete_Subject c s \<Rightarrow> delete_subject_marks st c s
      | Wr_Acl c \<Rightarrow> acl_marks st c
      | Wr_User c \<Rightarrow> user_marks st c
      | Wr_Configs c t \<Rightarrow> configs_marks st c t
      | Wr_Refresh_Session \<Rightarrow> refresh_marks)"

definition after_write :: "store \<Rightarrow> server_write \<Rightarrow> query_cache \<Rightarrow> query_cache" where
  "after_write st w qc = fold invalidate_prefix (written_prefixes st w) qc"

section \<open>What a key stands for\<close>

text \<open>
  The cluster a request goes to: the id of a private cluster, or the name of a shared one. The confirmation of a
  production write is no part of a preview's identity: it only adds a header.
\<close>

definition cluster_target :: "store \<Rightarrow> jstr \<Rightarrow> jstr + jstr" where
  "cluster_target st name = (case get_private_cluster_by_name st name of Some c \<Rightarrow> Inl (pc_id c) | None \<Rightarrow> Inr name)"

definition target_query :: "store \<Rightarrow> jstr query \<Rightarrow> (jstr + jstr) query" where
  "target_query st q =
     map_query (cluster_target st) (case q of Q_Reset_Preview c g body confirm \<Rightarrow> Q_Reset_Preview c g body False | _ \<Rightarrow> q)"

definition target_json :: "jstr + jstr \<Rightarrow> json" where
  "target_json t = (case t of Inl i \<Rightarrow> JsObject [(js ''private'', JsString i)] | Inr n \<Rightarrow> JsString n)"

lemma cluster_key_target: "cluster_key st c = target_json (cluster_target st c)"
  by (simp add: cluster_key_def cluster_target_def target_json_def split: option.split)

lemma target_json_inj [simp]: "target_json t = target_json u \<longleftrightarrow> t = u"
  by (cases t; cases u) (simp_all add: target_json_def)

lemma target_json_private: "is_private_cluster_key i (target_json t) \<longleftrightarrow> t = Inl i"
  by (cases t) (simp_all add: target_json_def is_private_cluster_key_def is_object_def jprop_def mget_def)

text \<open>The parameters can be read back from their objects.\<close>

lemma members_lookup: "distinct (map fst fs) \<Longrightarrow> map_of (members fs) k = Option.bind (map_of fs k) id"
proof (induction fs)
  case (Cons f fs)
  obtain n v where f: "f = (n, v)" by (cases f)
  show ?case
  proof (cases v)
    case None
    then have "n = k \<Longrightarrow> map_of fs k = None" using Cons.prems by (auto simp: f map_of_eq_None_iff)
    then show ?thesis using Cons None by (auto simp: f)
  qed (use Cons in \<open>auto simp: f\<close>)
qed simp

lemma members_eqD: "members fs = members gs \<Longrightarrow> distinct (map fst fs) \<Longrightarrow> distinct (map fst gs) \<Longrightarrow>
    Option.bind (map_of fs k) id = Option.bind (map_of gs k) id"
  using members_lookup by metis

lemma map_option_eq_iff: "(\<And>x y. f x = f y \<Longrightarrow> x = y) \<Longrightarrow> map_option f a = map_option f b \<longleftrightarrow> a = b"
  by (cases a; cases b) auto

lemma offsets_json_inj: "offsets_json a = offsets_json b \<Longrightarrow> a = b"
proof -
  have "inj (\<lambda>(p, n). (dec_int p, JsInt n))" by (rule injI) (auto dest: dec_int_inj split: prod.splits)
  then show "offsets_json a = offsets_json b \<Longrightarrow> a = b" by (simp add: offsets_json_def inj_map_eq_map)
qed

lemma consume_json_inj [simp]: "consume_json p = consume_json q \<longleftrightarrow> p = q"
proof
  define f where "f r = [(js ''cursor'', map_option JsString (cp_cursor r)), (js ''from'', map_option JsString (cp_from r)),
      (js ''from_ts_ms'', map_option JsInt (cp_from_ts r)), (js ''limit'', map_option JsInt (cp_limit r)),
      (js ''offset'', map_option JsInt (cp_offset r)), (js ''partition'', map_option JsInt (cp_partition r)),
      (js ''partitionOffsets'', map_option offsets_json (cp_partition_offsets r)), (js ''to_ts_ms'', map_option JsInt (cp_to_ts r))]"
    for r :: consume_params
  assume "consume_json p = consume_json q"
  then have "members (f p) = members (f q)" by (simp only: consume_json_def f_def json.inject)
  then have k: "Option.bind (map_of (f p) k) id = Option.bind (map_of (f q) k) id" for k
    by (rule members_eqD) (simp_all add: f_def js_def)
  have opt: "map_option JsString a = map_option JsString b \<longleftrightarrow> a = b" "map_option JsInt m = map_option JsInt n \<longleftrightarrow> m = n"
    "map_option offsets_json u = map_option offsets_json v \<longleftrightarrow> u = v" for a b m n u v
    by (intro map_option_eq_iff; simp add: offsets_json_inj)+
  show "p = q"
    using k [of "js ''cursor''"] k [of "js ''from''"] k [of "js ''from_ts_ms''"] k [of "js ''limit''"] k [of "js ''offset''"]
      k [of "js ''partition''"] k [of "js ''partitionOffsets''"] k [of "js ''to_ts_ms''"]
    by (cases p; cases q) (simp add: f_def js_def opt)
qed simp

lemma count_json_inj [simp]: "count_json p a b = count_json p' a' b' \<longleftrightarrow> p = p' \<and> a = a' \<and> b = b'"
  by (cases p; cases a; cases b; cases p'; cases a'; cases b') (auto simp: count_json_def js_def)

lemma reset_json_inj [simp]: "reset_json r = reset_json s \<longleftrightarrow> r = s"
proof
  define f where "f r = [(js ''offset'', rb_offset r), (js ''partitions'', map_option (JsArray \<circ> map JsInt) (rb_partitions r)), (js ''shift'', rb_shift r),
      (js ''strategy'', Some (JsString (rb_strategy r))), (js ''timestamp_ms'', rb_timestamp r), (js ''topic'', Some (JsString (rb_topic r)))]"
    for r :: reset_body
  assume "reset_json r = reset_json s"
  then have "members (f r) = members (f s)" by (simp only: reset_json_def f_def json.inject)
  then have k: "Option.bind (map_of (f r) k) id = Option.bind (map_of (f s) k) id" for k
    by (rule members_eqD) (simp_all add: f_def js_def)
  have "inj JsInt" by (simp add: inj_def)
  then have opt: "map_option (JsArray \<circ> map JsInt) a = map_option (JsArray \<circ> map JsInt) b \<longleftrightarrow> a = b" for a b
    by (intro map_option_eq_iff) (simp add: inj_map_eq_map)
  show "r = s"
    using k [of "js ''offset''"] k [of "js ''partitions''"] k [of "js ''shift''"] k [of "js ''strategy''"] k [of "js ''timestamp_ms''"] k [of "js ''topic''"]
    by (cases r; cases s) (simp add: f_def js_def opt del: o_apply)
qed simp

lemma small_json_inj [simp]: "timeline_json a b s = timeline_json a' b' s' \<longleftrightarrow> a = a' \<and> b = b' \<and> s = s'"
    "version_json v = version_json w \<longleftrightarrow> v = w" "encoding_text e = encoding_text f \<longleftrightarrow> e = f"
  by (auto simp: timeline_json_def version_json_def encoding_text_def js_def split: sum.splits hydratable_encoding.splits)

lemma not_private [simp]: "\<not> is_private_cluster_key i (consume_json p)" "\<not> is_private_cluster_key i (count_json a b c)"
    "\<not> is_private_cluster_key i (timeline_json x y z)" "\<not> is_private_cluster_key i (reset_json r)"
    "\<not> is_private_cluster_key i (version_json v)" "\<not> is_private_cluster_key i (JsString s)" "\<not> is_private_cluster_key i (JsInt n)"
    "\<not> is_private_cluster_key i (JsBool t)"
  by (auto simp: is_private_cluster_key_def is_object_def jprop_def consume_json_def count_json_def timeline_json_def reset_json_def version_json_def
      mget_def members_lookup js_def split: sum.splits)

text \<open>The prefix of a query: what its key says without its parameters.\<close>

lemma key_cluster_simps [simp]: "cluster_key st c = cluster_key st' d \<longleftrightarrow> cluster_target st c = cluster_target st' d"
    "is_private_cluster_key i (cluster_key st c) \<longleftrightarrow> cluster_target st c = Inl i"
  by (simp_all add: cluster_key_target target_json_private)

lemmas key_defs = auth_key_def subject_key_def messages_topic_key_def single_key_def latest_probe_key_def raw_key_def acls_key_def
  current_user_key_def me_key_def brokers_key_def clusters_key_def groups_key_def group_key_def reset_preview_key_def info_key_def
  page_key_def count_key_def timeline_key_def sample_key_def subjects_key_def version_key_def topics_key_def topic_key_def
  topic_consumers_key_def users_key_def query_key_def

lemmas mark_defs = produce_marks_def reset_marks_def create_group_marks_def delete_group_marks_def delete_subject_marks_def acl_marks_def
  user_marks_def configs_marks_def refresh_marks_def written_prefixes_def

lemma query_key_iff: "query_key st q = query_key st' q' \<longleftrightarrow> target_query st q = target_query st' q'"
  by (cases q; cases q'; simp add: key_defs target_query_def js_def)

lemma query_key_private: "list_ex (is_private_cluster_key i) (query_key st q) \<longleftrightarrow> Inl i \<in> set_query (target_query st q)"
  by (cases q) (auto simp: key_defs target_query_def)

text \<open>
  C8: Cached data is never served for another request, and dropping a private cluster's data drops all of it and
  nothing else. Two queries, each made while the browser stored whatever private clusters it did, have the same key
  exactly if they are the same query for the same cluster, a private one by its id and a shared one by its name, with
  the same parameters; the confirmation of a production write is the only argument a key leaves out. And a key is one
  of the private cluster with id \<open>i\<close> exactly if its query goes to that cluster.
\<close>

theorem query_keys_exact:
  "(query_key st q = query_key st' q' \<longleftrightarrow> target_query st q = target_query st' q') \<and>
   (list_ex (is_private_cluster_key i) (query_key st q) \<longleftrightarrow> Inl i \<in> set_query (target_query st q))"
  using query_key_iff query_key_private by blast

text \<open>What each write marks stale, by the queries.\<close>

definition concerns :: "(jstr \<Rightarrow> jstr + jstr) \<Rightarrow> server_write \<Rightarrow> (jstr + jstr) query \<Rightarrow> bool" where
  "concerns T w q =
     (case w of
        Wr_Produce c t \<Rightarrow>
          (case q of Q_Page d u p \<Rightarrow> T c = d \<and> t = u | Q_Single d u p n \<Rightarrow> T c = d \<and> t = u | Q_Topic d u \<Rightarrow> T c = d \<and> t = u | _ \<Rightarrow> False)
      | Wr_Reset_Offsets c g \<Rightarrow> (case q of Q_Group d h \<Rightarrow> T c = d \<and> g = h | Q_Groups d \<Rightarrow> T c = d | _ \<Rightarrow> False)
      | Wr_Create_Group c t \<Rightarrow> (case q of Q_Topic_Consumers d u \<Rightarrow> T c = d \<and> t = u | _ \<Rightarrow> False)
      | Wr_Delete_Group c \<Rightarrow> (case q of Q_Groups d \<Rightarrow> T c = d | _ \<Rightarrow> False)
      | Wr_Delete_Subject c s \<Rightarrow> (case q of Q_Subjects d \<Rightarrow> T c = d | Q_Schema d u v \<Rightarrow> T c = d \<and> s = u | _ \<Rightarrow> False)
      | Wr_Acl c \<Rightarrow> (case q of Q_Acls d \<Rightarrow> T c = d | _ \<Rightarrow> False)
      | Wr_User c \<Rightarrow> (case q of Q_Users d \<Rightarrow> T c = d | _ \<Rightarrow> False)
      | Wr_Configs c t \<Rightarrow> (case q of Q_Topic d u \<Rightarrow> T c = d \<and> t = u | _ \<Rightarrow> False)
      | Wr_Refresh_Session \<Rightarrow> q = Q_Current_User \<or> q = Q_Me)"

lemma written_marks:
  "list_ex (\<lambda>k. prefix k (query_key st' q)) (written_prefixes st w) \<longleftrightarrow> concerns (cluster_target st) w (target_query st' q)"
  by (cases w; cases q; simp add: mark_defs concerns_def key_defs target_query_def js_def)

lemma after_write_stale: "after_write st w qc = map (\<lambda>(k, stale). (k, stale \<or> list_ex (\<lambda>p. prefix p k) (written_prefixes st w))) qc"
proof -
  have "fold invalidate_prefix ps qc = map (\<lambda>(k, stale). (k, stale \<or> list_ex (\<lambda>p. prefix p k) ps)) qc" for ps
    by (induction ps arbitrary: qc) (auto simp: invalidate_prefix_def)
  then show ?thesis by (simp add: after_write_def)
qed

lemma write_scope: "after_write st w [(query_key st' q, stale)] = [(query_key st' q, stale \<or> concerns (cluster_target st) w (target_query st' q))]"
  by (simp add: after_write_stale written_marks)

text \<open>
  After a message was produced the probe for the latest one is not asked again: of a topic that was empty, the form
  goes on to say that it has no messages. The counts and the timeline of the topic stay as they are as well.
\<close>

lemma probe_kept_after_produce: "after_write st (Wr_Produce c t) [(query_key st (Q_Latest_Probe c t), False)] = [(query_key st (Q_Latest_Probe c t), False)]"
  unfolding write_scope by (simp add: target_query_def concerns_def)

section \<open>Names in the URL\<close>

text \<open>
  \<open>decodeURIComponent\<close>: a run of escapes is read as UTF-8; \<open>None\<close> is the URIError. The router hands out parameters
  that are decoded already.
\<close>

fun escape_run :: "jstr \<Rightarrow> (byte list \<times> jstr) option" where
  "escape_run (c # a # b # r) =
     (if c \<noteq> 37 then Some ([], c # a # b # r)
      else if is_hex a \<and> is_hex b
      then map_option (\<lambda>(bs, rest). (of_nat (16 * hex_val a + hex_val b) # bs, rest)) (escape_run r) else None)"
| "escape_run (c # r) = (if c = 37 then None else Some ([], c # r))"
| "escape_run [] = Some ([], [])"

lemma escape_run_length: "escape_run s = Some (bs, rest) \<Longrightarrow> length rest \<le> length s \<and> (s \<noteq> [] \<and> hd s = 37 \<longrightarrow> length rest < length s)"
  by (induction s arbitrary: bs rest rule: escape_run.induct) (fastforce split: if_splits)+

function decode_uri_component :: "jstr \<Rightarrow> jstr option" where
  "decode_uri_component [] = Some []"
| "decode_uri_component (c # r) =
     (if c \<noteq> 37 then map_option (\<lambda>t. c # t) (decode_uri_component r)
      else case escape_run (c # r) of
          None \<Rightarrow> None
        | Some (bs, rest) \<Rightarrow>
            (case those (u8_start bs) of
               None \<Rightarrow> None
             | Some ns \<Rightarrow> map_option (\<lambda>t. concat (map utf16 ns) @ t) (decode_uri_component rest)))"
  by pat_completeness auto
termination
  by (relation "measure length") (auto dest: escape_run_length)

declare decode_uri_component.simps(2) [simp del]

text \<open>The name a page shows for the parameter of its route; \<open>None\<close> is the error page.\<close>

definition route_name :: "jstr \<Rightarrow> jstr option" where
  "route_name param = decode_uri_component param"

lemma route_name_plain: "37 \<notin> set n \<Longrightarrow> route_name n = Some n"
  unfolding route_name_def by (induction n) (auto simp: decode_uri_component.simps(2))

text \<open>A name with a percent sign no two hexadecimal digits follow has no page, and \<open>%41\<close> is shown as another name.\<close>

lemma route_name_percent:
  assumes "37 \<notin> set x" "length r < 2 \<or> \<not> is_hex (r ! 0) \<or> \<not> is_hex (r ! 1)"
  shows "route_name (x @ 37 # r) = None"
  using assms(1) unfolding route_name_def
proof (induction x)
  case Nil
  have "escape_run (37 # r) = None" using assms(2) by (cases r; cases "tl r") auto
  then show ?case by (simp add: decode_uri_component.simps(2))
qed (auto simp: decode_uri_component.simps(2))

section \<open>The session and the frame\<close>

definition is_authenticated :: "bool \<Rightarrow> bool option \<Rightarrow> bool" where
  "is_authenticated user_loaded anonymous \<longleftrightarrow> user_loaded \<and> anonymous = Some False"

text \<open>The links of the header, by the active cluster; a link may carry the mark of a missing registry.\<close>

definition has_registry :: "('a cluster_info_scheme) list option \<Rightarrow> jstr option \<Rightarrow> bool option" where
  "has_registry clusters active =
     (case nonempty active of None \<Rightarrow> None | Some n \<Rightarrow> map_option cl_schema_registry (find (\<lambda>c. cl_name c = n) (opt_or clusters [])))"

definition nav_links :: "('a cluster_info_scheme) list option \<Rightarrow> jstr option \<Rightarrow> (jstr \<times> bool) list" where
  "nav_links clusters active =
     (if nonempty active = None then [(js ''Clusters'', False)]
      else [(js ''Topics'', False), (js ''Consumer groups'', False), (js ''Schemas'', has_registry clusters active = Some False),
        (js ''Security'', False), (js ''Brokers'', False)])"

definition version_line :: "jstr option \<Rightarrow> jstr" where
  "version_line version = js ''console '' @ [0xB7, 32] @ js ''v'' @ (case version of None \<Rightarrow> [0x2014] | Some v \<Rightarrow> v)"

text \<open>Where \<open>/\<close> leads: to the last cluster, else to the list of clusters.\<close>

definition root_redirect :: "local_value \<Rightarrow> jstr option" where
  "root_redirect v = nonempty (get_last_cluster v)"

text \<open>A page inside a cluster is the one \<open>/\<close> leads to afterwards, where the storage allows it.\<close>

lemma root_remembers: "lv_readable v \<Longrightarrow> n \<noteq> [] \<Longrightarrow> root_redirect (set_last_cluster True n v) = Some n"
  by (simp add: root_redirect_def get_last_cluster_def set_last_cluster_def nonempty_def)

end
