(* ===== verification/Spec2Isabelle.thy ===== *)
theory Spec2Isabelle
  imports TextDiffProps MessageCompareProps Fingerprint ProduceEncoding ExportCrypto ClusterStoreProps SearchChain CopyStream ClusterSwitcher UrlState MessageSearch MessageList PathTree Replay ResetOffsets BulkCopy ProduceForm MessageRef Format AuditSnapshot Preferences Consumers DataTable TopicConfigs Security Settings GroupsPage ComparePage Suggest SchemasPage Timeline Overview TopicsPage Highlight JsonTree MessageRow Browser UiKit TopicTabs QueryCache
begin

text \<open>
  Kafkito: a verification library for the frontend (TypeScript under \<open>src/frontend/src\<close>; paths below are relative to
  it) of a web console for Kafka clusters.

  The program. A single-page app in the browser reads and writes Kafka clusters through the HTTP API of a server.
  Shared clusters are configured on the server; private clusters are defined in the browser, kept in
  \<open>localStorage\<close>, and their definition, passwords included, travels with every request in a header. A transport
  with a CSRF token carries the requests; a cache keeps what was read, under keys that name the cluster. On top are
  pages: the fleet, topics with their tabs (messages, timeline, produce, configuration, consumers, schema), consumer
  groups, schemas, security, settings, and a compare of two messages. A write to a production cluster asks for a
  confirmation first, which adds a header the server insists on.

  How code becomes definitions. Data are records and datatypes with the source's fields and constructors; strings are
  lists of 16-bit code units (\<open>jstr\<close>), bytes are 8-bit words, a JavaScript \<open>Map\<close> or object is an insertion-ordered
  association list, a number is an integer or a rational. Pure functions are functions; exceptions and refusals are
  sums and options. A hook or a component with state is a record and a step function on its events: what the user does,
  the answers of the server, what a render reads anew (refetched data, timers). A step may send a request, navigate or
  tell its parent something, which is its output. Nothing is assumed about the order of events; where a theorem speaks
  of a run it holds for every list of events, and for the transport for every interleaving of calls.

  The theories, from the bottom.

  Ground. \<open>Prelude\<close> (maps, stable sorting by a comparator), \<open>Strings\<close> (string functions of the language), \<open>Bytes\<close> and
  \<open>Utf8Valid\<close> (base64, UTF-8 encoder and decoder automaton, and their round trips), \<open>Json\<close> (values and
  \<open>JSON.stringify\<close>), \<open>Numbers\<close> (\<open>Number\<close>, \<open>parseInt\<close>), \<open>Message\<close> (the record of the API).

  Comparing messages. \<open>JsonNumber\<close>, \<open>CanonicalJson\<close>, \<open>CanonicalJsonProps\<close>, \<open>CanonicalJsonSem\<close> (\<open>lib/canonical-json.ts\<close>:
  parser, exact number normal form, printer; the abstract specification is a JSON value with rational numbers and
  finite maps, and equal canonical texts are equal values); \<open>CanonicalXml\<close>, \<open>CanonicalXmlProps\<close>
  (\<open>lib/canonical-xml.ts\<close>); \<open>TextDiff\<close>, \<open>TextDiffProps\<close> (\<open>lib/text-diff.ts\<close>: the diff is a shortest edit script, by an
  invariant on the edit graph); \<open>MessageCompare\<close>, \<open>MessageCompareProps\<close> (\<open>lib/message-compare.ts\<close>: verdicts, with their
  linear order); \<open>Fingerprint\<close> (\<open>lib/message-fingerprint.ts\<close>: the hashed bytes determine the message);
  \<open>MessageRef\<close> (\<open>lib/message-reference.ts\<close>, \<open>lib/compare-selection.ts\<close>), \<open>ComparePage\<close> (\<open>routes/compare.tsx\<close> and
  \<open>features/messages/compare/\<close>).

  Private clusters. \<open>ClusterStore\<close>, \<open>ClusterStoreProps\<close> (\<open>lib/private-clusters.ts\<close>: the store refines a map from ids to
  definitions; over all interleavings of any number of tabs no password of a cluster that does not remember it is
  stored, and none meets a connection it was not supplied for), \<open>ExportCrypto\<close>
  (\<open>lib/private-clusters-export-crypto.ts\<close>: round trip, tampering, bounds), \<open>Settings\<close> (\<open>routes/settings.clusters.tsx\<close>
  and its dialogs), \<open>ClusterSwitcher\<close> (\<open>lib/use-cluster.ts\<close>, \<open>lib/cluster-switch.ts\<close>, \<open>lib/last-cluster.ts\<close>), \<open>UiKit\<close>
  (the password prompt, dialogs, account menu, release notes).

  Reaching the server. \<open>ApiFetch\<close> (\<open>auth/api.ts\<close>, \<open>auth/csrf.ts\<close>: a transition system of concurrent calls, its invariant
  by rule induction, and that every call settles), \<open>ApiClient\<close> (\<open>lib/api-client.ts\<close>: what a request carries, read back
  from its bytes), \<open>Api\<close> (\<open>lib/api.ts\<close>, every endpoint), \<open>CopyStream\<close> (the progress stream, equal for every cut into
  chunks), \<open>QueryCache\<close> (\<open>lib/queries/\<close>, \<open>main.tsx\<close>: keys are exact, what a write marks stale; the frame of the app).

  Browsing and searching messages. \<open>UrlState\<close>, \<open>Topics\<close> (URL values, filters, offset bounds), \<open>SearchChain\<close>
  (\<open>search-chain.ts\<close>), \<open>MessageSearch\<close>, \<open>MessageList\<close>, \<open>PathTree\<close>, \<open>Suggest\<close>, \<open>Browser\<close>, \<open>MessageRow\<close>, \<open>JsonTree\<close>,
  \<open>Highlight\<close>, \<open>Fuzzy\<close>, \<open>AuditSnapshot\<close> (\<open>features/messages/\<close>, \<open>components/ui/Highlight.tsx\<close>, \<open>lib/fuzzy.ts\<close>,
  \<open>lib/audit-snapshot.ts\<close>).

  Writing. \<open>ConfirmedWrite\<close> (\<open>components/ui/ConfirmDialog.tsx\<close>), \<open>ProduceEncoding\<close> (\<open>lib/produce-encoding.ts\<close> between the
  two decoders of the server), \<open>Replay\<close>, \<open>BulkCopy\<close>, \<open>ProduceForm\<close>, \<open>ResetOffsets\<close>, \<open>TopicConfigs\<close>, \<open>Security\<close>,
  \<open>GroupsPage\<close>, \<open>SchemasPage\<close>: what each dialog sends, for every sequence of its events.

  The other pages. \<open>Format\<close>, \<open>Preferences\<close>, \<open>Consumers\<close>, \<open>DataTable\<close>, \<open>Timeline\<close>, \<open>Overview\<close>, \<open>TopicsPage\<close>, \<open>TopicTabs\<close>.

  Interfaces. \<open>comparator\<close> and \<open>strict_comparator\<close> (\<open>Prelude\<close>): what a comparison must satisfy for sorting to be
  determined; interpreted on code unit order, the orders of keys and entries, table columns, message time and ranges.
  \<open>sender\<close> (\<open>ConfirmedWrite\<close>): an invariant, the events the surroundings may bring, and what holds of a request one step
  sends; its lemmas carry it to every request of every run. It is interpreted on every component that sends
  writes or navigates. \<open>cluster_directory\<close> (\<open>ApiClient\<close>): a lookup by name in a list with ids, interpreted on the store of
  private clusters.

  Loops and bounds. The search chain may not end for every server, so it is a partial function into an option; that it
  ends with a result, and when, is proved from its budgets. All other recursions terminate: by structure, or with a
  measure (the text left in the JSON parser, in \<open>decodeURIComponent\<close>, in chunks of bytes and lines; the edit distance
  left in the diff). The nesting limit of the JSON parser, the number limits of the canonical form (exponents that a
  double holds exactly), the iteration bounds of the export header, the caps on suggested paths and the 500 messages of
  a page are the source's constants. Formatting steps through a fixed list of five units.

  Parameters. What is not in the repository is an argument: \<open>DOMParser\<close>, \<open>JSON.parse\<close> where its text is not the
  canonical form's, \<open>Intl\<close>, \<open>localeCompare\<close>, \<open>toLowerCase\<close>, WebCrypto (PBKDF2, AES-GCM, SHA-256), gzip, Unicode
  normalisation, openapi-fetch, Fuse, the clock and calendar of the browser, its Tab order, random values, whether
  storage can be read and written, and the answers of the server. Where a theorem relies on documented behaviour of
  one of them, it says so in a hypothesis, which a concrete function meets in the theorem's instance.

  Not modelled. Markup, styles and drawing (what is shown is modelled as data where the code computes it); React's
  scheduling (a step sees the state its closure was rendered with only where the code lets the two differ); the router
  and the query cache beyond keys, staleness, prefixes and retries; rounding of formatted numbers to doubles; the
  texts of the release notes; the generated API types beyond those the code reads; the server, which is
  another program (only the two decoders a replay depends on are modelled); build, tests and tooling.
\<close>

end
